(* ===== verification/Prelude.thy ===== *)
theory Prelude
  imports Main "HOL-Library.Word"
begin

text \<open>
  What the component theories share: Python exceptions as values of a sum type and the two
  combinators that run code which may raise (\<open>rbind\<close>, \<open>rmap\<close>), Python's list indexing and
  slicing (with negative indices, and \<open>IndexError\<close> where Python raises it), \<open>range\<close>,
  running sums, and the lemma collections the component proofs draw on.
\<close>

section \<open>Exceptions as values\<close>

datatype py_error =
    ValueError string
  | RuntimeError string
  | FileNotFoundError string
  | EOFError string
  | IndexError
  | KeyError
  | TypeError
  | AttributeError
  | AssertionError
  | ZeroDivisionError
  | OSError

type_synonym 'a res = "py_error + 'a"

named_theorems res_simps \<open>rewrite rules for code that may raise\<close>
named_theorems py_list_simps \<open>Python list access\<close>

definition rbind :: "'a res \<Rightarrow> ('a \<Rightarrow> 'b res) \<Rightarrow> 'b res" where
  "rbind m f = (case m of Inl e \<Rightarrow> Inl e | Inr x \<Rightarrow> f x)"

lemma rbind_simps [simp, res_simps]:
  "rbind (Inl e) f = Inl e"
  "rbind (Inr x) f = f x"
  by (simp_all add: rbind_def)

lemma rbind_Inr_iff [res_simps]: "rbind m f = Inr y \<longleftrightarrow> (\<exists>x. m = Inr x \<and> f x = Inr y)"
  by (cases m) auto

lemma rbind_Inl_iff: "rbind m f = Inl e \<longleftrightarrow> m = Inl e \<or> (\<exists>x. m = Inr x \<and> f x = Inl e)"
  by (cases m) auto

fun rmap :: "('a \<Rightarrow> 'b res) \<Rightarrow> 'a list \<Rightarrow> 'b list res" where
  "rmap f [] = Inr []"
| "rmap f (x # xs) = rbind (f x) (\<lambda>y. rbind (rmap f xs) (\<lambda>ys. Inr (y # ys)))"

lemma rmap_Inr_length: "rmap f xs = Inr ys \<Longrightarrow> length ys = length xs"
  by (induction xs arbitrary: ys) (auto simp: rbind_Inr_iff)

lemma rmap_Inr_nth: "rmap f xs = Inr ys \<Longrightarrow> i < length xs \<Longrightarrow> f (xs ! i) = Inr (ys ! i)"
  by (induction xs arbitrary: ys i) (auto simp: rbind_Inr_iff nth_Cons split: nat.splits)

lemma rmap_append: "rmap f (xs @ ys) = rbind (rmap f xs) (\<lambda>us. rbind (rmap f ys) (\<lambda>vs. Inr (us @ vs)))"
  by (induction xs) (simp_all add: rbind_def split: sum.splits)

lemma rmap_all_Inr: "(\<And>x. x \<in> set xs \<Longrightarrow> f x = Inr (g x)) \<Longrightarrow> rmap f xs = Inr (map g xs)"
  by (induction xs) auto

section \<open>Python lists\<close>

text \<open>The position a Python index denotes in a list of length \<open>n\<close>: negative indices count
  from the end, anything else out of range has no position.\<close>

definition py_idx :: "nat \<Rightarrow> int \<Rightarrow> nat option" where
  "py_idx n i =
     (let j = (if i < 0 then int n + i else i)
      in if 0 \<le> j \<and> j < int n then Some (nat j) else None)"

definition py_get :: "'a list \<Rightarrow> int \<Rightarrow> 'a res" where
  "py_get xs i = (case py_idx (length xs) i of None \<Rightarrow> Inl IndexError | Some j \<Rightarrow> Inr (xs ! j))"

definition py_set :: "'a list \<Rightarrow> int \<Rightarrow> 'a \<Rightarrow> 'a list res" where
  "py_set xs i v =
     (case py_idx (length xs) i of None \<Rightarrow> Inl IndexError | Some j \<Rightarrow> Inr (xs[j := v]))"

text \<open>A slice bound: negative bounds count from the end, then both are clamped.\<close>

definition py_bound :: "nat \<Rightarrow> int \<Rightarrow> nat" where
  "py_bound n i = nat (min (int n) (max 0 (if i < 0 then int n + i else i)))"

definition py_slice :: "'a list \<Rightarrow> int \<Rightarrow> int \<Rightarrow> 'a list" where
  "py_slice xs a b = drop (py_bound (length xs) a) (take (py_bound (length xs) b) xs)"

lemma py_idx_nonneg [simp, py_list_simps]:
  "0 \<le> i \<Longrightarrow> i < int n \<Longrightarrow> py_idx n i = Some (nat i)"
  by (simp add: py_idx_def)

lemma py_idx_Some_less: "py_idx n i = Some j \<Longrightarrow> j < n"
  by (auto simp: py_idx_def Let_def split: if_splits)

lemma py_idx_None_iff: "py_idx n i = None \<longleftrightarrow> i < - int n \<or> int n \<le> i"
  by (auto simp: py_idx_def Let_def)

lemma py_get_nonneg [simp, py_list_simps]:
  "0 \<le> i \<Longrightarrow> i < int (length xs) \<Longrightarrow> py_get xs i = Inr (xs ! nat i)"
  by (simp add: py_get_def)

lemma py_get_nat [simp, py_list_simps]: "k < length xs \<Longrightarrow> py_get xs (int k) = Inr (xs ! k)"
  by (simp add: py_get_def)

lemma py_get_above [simp, py_list_simps]: "int (length xs) \<le> i \<Longrightarrow> py_get xs i = Inl IndexError"
  by (simp add: py_get_def py_idx_def)

lemma py_set_nonneg [simp, py_list_simps]:
  "0 \<le> i \<Longrightarrow> i < int (length xs) \<Longrightarrow> py_set xs i v = Inr (xs[nat i := v])"
  by (simp add: py_set_def)

lemma py_get_in_set: "py_get xs i = Inr x \<Longrightarrow> x \<in> set xs"
  by (auto simp: py_get_def dest: py_idx_Some_less split: option.splits)

lemma py_bound_nonneg [simp, py_list_simps]: "0 \<le> i \<Longrightarrow> py_bound n i = min n (nat i)"
  by (auto simp: py_bound_def min_def max_def)

lemma py_slice_nonneg [py_list_simps]:
  "0 \<le> a \<Longrightarrow> 0 \<le> b \<Longrightarrow> py_slice xs a b = drop (nat a) (take (nat b) xs)"
  by (cases "nat a \<le> length xs"; cases "nat b \<le> length xs") (auto simp: py_slice_def)

lemma py_slice_middle:
  "a = int (length xs) \<Longrightarrow> b = int (length xs + length ys) \<Longrightarrow> py_slice (xs @ ys @ zs) a b = ys"
  by (simp add: py_slice_nonneg nat_add_distrib)

lemma py_get_middle: "m < length ys \<Longrightarrow> py_get (xs @ ys @ zs) (int (length xs + m)) = Inr (ys ! m)"
  by (subst py_get_nat) (simp_all add: nth_append)

section \<open>range\<close>

definition py_range :: "int \<Rightarrow> int \<Rightarrow> int list" where
  "py_range a b = [a..b - 1]"

lemma set_py_range [simp]: "set (py_range a b) = {a..<b}"
  by (auto simp: py_range_def)

lemma length_py_range [simp]: "length (py_range a b) = nat (b - a)"
  by (simp add: py_range_def)

lemma py_range_empty [simp]: "b \<le> a \<Longrightarrow> py_range a b = []"
  by (simp add: py_range_def)

lemma py_range_rec: "a < b \<Longrightarrow> py_range a b = a # py_range (a + 1) b"
  by (simp add: py_range_def upto_rec1)

lemma py_range_snoc: "a \<le> b \<Longrightarrow> py_range a (b + 1) = py_range a b @ [b]"
  by (simp add: py_range_def upto_rec2)

lemma nth_py_range [simp]: "i < nat (b - a) \<Longrightarrow> py_range a b ! i = a + int i"
  by (simp add: py_range_def)

lemma py_range_append:
  assumes "a \<le> b" "b \<le> c"
  shows "py_range a b @ py_range b c = py_range a c"
proof (rule nth_equalityI)
  show "length (py_range a b @ py_range b c) = length (py_range a c)"
    using assms by simp
next
  fix i
  assume "i < length (py_range a b @ py_range b c)"
  then have i: "i < nat (b - a) + nat (c - b)" by simp
  show "(py_range a b @ py_range b c) ! i = py_range a c ! i"
  proof (cases "i < nat (b - a)")
    case True
    then have "i < nat (c - a)" using assms by linarith
    with True show ?thesis by (simp add: nth_append)
  next
    case False
    with i have "i - nat (b - a) < nat (c - b)" "i < nat (c - a)" using assms by linarith+
    with False assms show ?thesis by (simp add: nth_append)
  qed
qed

lemma sorted_py_range [simp]: "sorted (py_range a b)"
  by (simp add: py_range_def)

lemma distinct_py_range [simp]: "distinct (py_range a b)"
  by (simp add: py_range_def)

lemma py_range_strict [simp]: "sorted_wrt (<) (py_range a b)"
  by (simp add: strict_sorted_iff)

lemma map_shift_py_range: "map (\<lambda>x. x + d) (py_range a b) = py_range (a + d) (b + d)"
  by (rule nth_equalityI) auto

lemma upt_split: "a \<le> b \<Longrightarrow> b \<le> c \<Longrightarrow> [a..<c] = [a..<b] @ [b..<c]" for a b c :: nat
  using upt_add_eq_append [of a b "c - b"] by simp

section \<open>Running sums\<close>

fun running_sums :: "int \<Rightarrow> int list \<Rightarrow> int list" where
  "running_sums t [] = []"
| "running_sums t (x # xs) = (t + x) # running_sums (t + x) xs"

lemma length_running_sums [simp]: "length (running_sums t xs) = length xs"
  by (induction xs arbitrary: t) auto

lemma nth_running_sums:
  "i < length xs \<Longrightarrow> running_sums t xs ! i = t + sum_list (take (Suc i) xs)"
  by (induction xs arbitrary: t i) (auto simp: nth_Cons split: nat.splits)

lemma running_sums_append:
  "running_sums t (xs @ ys) = running_sums t xs @ running_sums (t + sum_list xs) ys"
  by (induction xs arbitrary: t) (auto simp: algebra_simps)

lemma running_sums_Nil_iff [simp]: "running_sums t xs = [] \<longleftrightarrow> xs = []"
  by (cases xs) auto

lemma last_running_sums: "xs \<noteq> [] \<Longrightarrow> last (running_sums t xs) = t + sum_list xs"
proof (induction xs arbitrary: t)
  case (Cons x xs)
  then show ?case by (cases "xs = []") (simp_all add: algebra_simps)
qed simp

lemma running_sums_snoc: "running_sums t (xs @ [x]) = running_sums t xs @ [t + sum_list xs + x]"
  by (simp add: running_sums_append)

lemma running_sums_butlast:
  "xs \<noteq> [] \<Longrightarrow> butlast (running_sums t xs) @ [t + sum_list xs] = running_sums t xs"
  by (metis append_butlast_last_id last_running_sums running_sums.simps(1) length_running_sums length_0_conv)

lemma running_sums_nonneg_sorted:
  "\<forall>x \<in> set xs. 0 \<le> x \<Longrightarrow> sorted (t # running_sums t xs)"
proof (induction xs arbitrary: t)
  case (Cons x xs)
  then have "sorted ((t + x) # running_sums (t + x) xs)" by simp
  with Cons.prems show ?case by (auto intro: order_trans [of t "t + x"])
qed simp

text \<open>Cutting the concatenation at the running sums of the lengths gives the parts back.\<close>

lemma concat_loc:
  assumes "i \<le> length xss"
  shows "(0 # running_sums 0 (map (\<lambda>xs. int (length xs)) xss)) ! i = int (length (concat (take i xss)))"
proof -
  have s: "sum_list (map (\<lambda>xs. int (length xs)) yss) = int (length (concat yss))" for yss :: "'a list list"
    by (induction yss) auto
  show ?thesis using assms by (cases i) (simp_all add: nth_running_sums take_map s)
qed

lemma slice_concat:
  assumes "i < length xss"
  defines "locs \<equiv> 0 # running_sums 0 (map (\<lambda>xs. int (length xs)) xss)"
  shows "py_slice (concat xss) (locs ! i) (locs ! Suc i) = xss ! i"
proof -
  let ?pre = "concat (take i xss)" and ?post = "concat (drop (Suc i) xss)"
  have a: "locs ! i = int (length ?pre)" using assms(1) unfolding locs_def by (intro concat_loc) simp
  have b: "locs ! Suc i = int (length ?pre + length (xss ! i))"
    using assms(1) concat_loc [of "Suc i" xss] by (simp add: locs_def take_Suc_conv_app_nth)
  have "concat xss = ?pre @ xss ! i @ ?post"
    using assms(1) by (metis concat.simps(2) concat_append id_take_nth_drop)
  then show ?thesis using py_slice_middle [OF a b, of ?post] by simp
qed

section \<open>Strictly sorted lists\<close>

lemma strict_sorted_append_iff:
  "sorted_wrt (<) (xs @ ys) \<longleftrightarrow>
     sorted_wrt (<) xs \<and> sorted_wrt (<) ys \<and> (\<forall>x \<in> set xs. \<forall>y \<in> set ys. x < y)"
  for xs :: "'a::linorder list"
  by (auto simp: sorted_wrt_append)

lemma strict_sorted_map_shift:
  "sorted_wrt (<) xs \<Longrightarrow> sorted_wrt (<) (map (\<lambda>x. d + x) xs)" for xs :: "int list"
  by (simp add: sorted_wrt_map)

lemma strict_sorted_sort: "distinct xs \<Longrightarrow> sorted_wrt (<) (sort xs)" for xs :: "'a::linorder list"
  by (simp add: strict_sorted_iff)

end
