(* ===== verification/Floats.thy ===== *)
theory Floats
  imports Complex_Main Prelude
begin

text \<open>
  Python's \<open>float\<close>: the finite IEEE 754 binary64 values, as the rationals they denote, and the
  one rounding the modelled code performs, round to nearest with ties to even, of the exact result of
  \<open>int * float\<close>. Overflow to infinity and NaN are outside the model (the code multiplies token
  counts by ratios in \<open>[0, 1]\<close>). Shown here: rounding is monotone, exact on integers up to
  \<open>2 ^ 53\<close>, and keeps the sign.
\<close>

type_synonym f64 = rat

section \<open>Powers of two and binary exponents\<close>

definition pow2 :: "int \<Rightarrow> rat" where
  "pow2 e = (if 0 \<le> e then 2 ^ nat e else 1 / 2 ^ nat (- e))"

lemma pow2_pos [simp]: "0 < pow2 e"
  by (simp add: pow2_def)

lemma pow2_0 [simp]: "pow2 0 = 1"
  by (simp add: pow2_def)

lemma pow2_Suc: "pow2 (e + 1) = 2 * pow2 e"
proof (cases "0 \<le> e")
  case True
  then have "nat (e + 1) = Suc (nat e)" by linarith
  with True show ?thesis by (simp add: pow2_def)
next
  case False
  then have "nat (- e) = Suc (nat (- e - 1))" by linarith
  with False show ?thesis
    by (cases "e = -1") (auto simp: pow2_def)
qed

lemma pow2_add_nat: "pow2 (e + int n) = 2 ^ n * pow2 e"
proof (induction n)
  case (Suc n)
  have "pow2 (e + int (Suc n)) = pow2 ((e + int n) + 1)" by (simp add: algebra_simps)
  also have "\<dots> = 2 * pow2 (e + int n)" by (rule pow2_Suc)
  finally show ?case using Suc by simp
qed simp

lemma pow2_mono:
  assumes "d \<le> e"
  shows "pow2 d \<le> pow2 e"
proof -
  have "1 * pow2 d \<le> 2 ^ nat (e - d) * pow2 d"
    by (intro mult_right_mono) (simp_all add: less_imp_le)
  also have "\<dots> = pow2 e" using pow2_add_nat [of d "nat (e - d)"] assms by simp
  finally show ?thesis by simp
qed

lemma pow2_strict_mono: "pow2 d < pow2 e \<Longrightarrow> d < e"
  using pow2_mono [of e d] by (cases "d < e") auto

function ilog2 :: "int \<Rightarrow> int" where
  "ilog2 n = (if n \<le> 1 then 0 else 1 + ilog2 (n div 2))"
  by pat_completeness auto
termination
  by (relation "measure nat") auto

declare ilog2.simps [simp del]

lemma ilog2_nonneg: "0 \<le> ilog2 n"
proof (induction n rule: ilog2.induct)
  case (1 n)
  then show ?case by (cases "n \<le> 1") (simp_all add: ilog2.simps [of n])
qed

lemma ilog2_bounds: "0 < n \<Longrightarrow> 2 ^ nat (ilog2 n) \<le> n \<and> n < 2 ^ Suc (nat (ilog2 n))"
proof (induction n rule: ilog2.induct)
  case (1 n)
  show ?case
  proof (cases "n \<le> 1")
    case True
    with "1.prems" show ?thesis by (simp add: ilog2.simps [of n])
  next
    case False
    define h where "h = nat (ilog2 (n div 2))"
    have "2 ^ h \<le> n div 2 \<and> n div 2 < 2 ^ Suc h"
      using False "1.IH" by (simp add: h_def)
    moreover have "nat (ilog2 n) = Suc h"
      using False ilog2_nonneg [of "n div 2"] by (simp add: ilog2.simps [of n] h_def)
    ultimately show ?thesis by auto
  qed
qed

text \<open>\<open>rat_exp x\<close> is the exponent of the leading binary digit of \<open>x > 0\<close>.\<close>

definition rat_exp :: "rat \<Rightarrow> int" where
  "rat_exp x =
     (let (a, b) = quotient_of x;
          e = ilog2 a - ilog2 b
      in if pow2 e \<le> x then e else e - 1)"

lemma pow2_diff_nat: "pow2 (int m - int n) = 2 ^ m / 2 ^ n"
  using pow2_add_nat [of "int m - int n" n]
  by (simp add: pow2_def field_simps)

lemma rat_exp_bounds:
  assumes "0 < x"
  shows "pow2 (rat_exp x) \<le> x" and "x < pow2 (rat_exp x + 1)"
proof -
  obtain a b where q: "quotient_of x = (a, b)" by (cases "quotient_of x")
  have b: "0 < b" using q by (rule quotient_of_denom_pos)
  have x: "x = of_int a / of_int b" using q by (rule quotient_of_div)
  with assms b have a: "0 < a" by (simp add: zero_less_divide_iff)
  define m where "m = nat (ilog2 a)"
  define n where "n = nat (ilog2 b)"
  have ma: "2 ^ m \<le> a" "a < 2 ^ Suc m"
    using ilog2_bounds [of a] a by (auto simp: m_def)
  have nb: "2 ^ n \<le> b" "b < 2 ^ Suc n"
    using ilog2_bounds [of b] b by (auto simp: n_def)
  have ma': "(2::rat) ^ m \<le> of_int a" "of_int a < (2::rat) ^ Suc m"
  proof -
    have "rat_of_int (2 ^ m) \<le> of_int a" "rat_of_int a < of_int (2 ^ Suc m)"
      using ma by (simp_all only: of_int_le_iff of_int_less_iff)
    then show "(2::rat) ^ m \<le> of_int a" "of_int a < (2::rat) ^ Suc m" by simp_all
  qed
  have nb': "(2::rat) ^ n \<le> of_int b" "of_int b < (2::rat) ^ Suc n"
  proof -
    have "rat_of_int (2 ^ n) \<le> of_int b" "rat_of_int b < of_int (2 ^ Suc n)"
      using nb by (simp_all only: of_int_le_iff of_int_less_iff)
    then show "(2::rat) ^ n \<le> of_int b" "of_int b < (2::rat) ^ Suc n" by simp_all
  qed
  have hi: "x < pow2 (int m - int n + 1)"
  proof -
    have "x < 2 ^ Suc m / 2 ^ n"
      unfolding x using ma' nb' b a by (intro frac_less) auto
    then show ?thesis using pow2_diff_nat [of "Suc m" n] by (simp add: algebra_simps)
  qed
  have lo: "pow2 (int m - int n - 1) \<le> x"
  proof -
    have "2 ^ m / 2 ^ Suc n \<le> x"
      unfolding x using ma' nb' b a by (intro frac_le) auto
    then show ?thesis using pow2_diff_nat [of m "Suc n"] by (simp add: algebra_simps)
  qed
  have e: "rat_exp x = (if pow2 (int m - int n) \<le> x then int m - int n else int m - int n - 1)"
    using ilog2_nonneg [of a] ilog2_nonneg [of b] by (simp add: rat_exp_def q m_def n_def)
  show "pow2 (rat_exp x) \<le> x" using lo by (simp add: e)
  show "x < pow2 (rat_exp x + 1)" using hi by (auto simp: e)
qed

lemma rat_exp_mono:
  assumes "0 < x" "x \<le> y"
  shows "rat_exp x \<le> rat_exp y"
proof -
  have "pow2 (rat_exp x) < pow2 (rat_exp y + 1)"
    using rat_exp_bounds(1) [of x] rat_exp_bounds(2) [of y] assms by linarith
  then show ?thesis using pow2_strict_mono by force
qed

section \<open>Rounding to nearest, ties to even\<close>

definition round_half_even :: "rat \<Rightarrow> int" where
  "round_half_even x =
     (let n = \<lfloor>x\<rfloor>; d = x - of_int n
      in if d < 1 / 2 then n
         else if 1 / 2 < d then n + 1
         else if even n then n else n + 1)"

lemma round_half_even_of_int [simp]: "round_half_even (of_int n) = n"
  by (simp add: round_half_even_def)

lemma round_half_even_mono: "x \<le> y \<Longrightarrow> round_half_even x \<le> round_half_even y"
proof -
  assume xy: "x \<le> y"
  have fl: "\<lfloor>x\<rfloor> \<le> \<lfloor>y\<rfloor>" using xy by (rule floor_mono)
  show ?thesis
  proof (cases "\<lfloor>x\<rfloor> = \<lfloor>y\<rfloor>")
    case True
    with xy show ?thesis by (auto simp: round_half_even_def Let_def)
  next
    case False
    with fl show ?thesis by (auto simp: round_half_even_def Let_def)
  qed
qed

lemma round_half_even_le_int: "x \<le> of_int n \<Longrightarrow> round_half_even x \<le> n"
  using round_half_even_mono [of x "of_int n"] by simp

lemma round_half_even_ge_int: "of_int n \<le> x \<Longrightarrow> n \<le> round_half_even x"
  using round_half_even_mono [of "of_int n" x] by simp

text \<open>The exponent of the last place of the binary64 value nearest to \<open>x > 0\<close>: 53 significant
  bits, and no place below \<open>2 ^ -1074\<close> (subnormals).\<close>

definition f64_ulp_exp :: "rat \<Rightarrow> int" where
  "f64_ulp_exp x = max (rat_exp x - 52) (- 1074)"

definition f64_round_pos :: "rat \<Rightarrow> f64" where
  "f64_round_pos x =
     (let u = pow2 (f64_ulp_exp x) in of_int (round_half_even (x / u)) * u)"

definition f64_round :: "rat \<Rightarrow> f64" where
  "f64_round x =
     (if x = 0 then 0 else if 0 < x then f64_round_pos x else - f64_round_pos (- x))"

lemma f64_round_0 [simp]: "f64_round 0 = 0"
  by (simp add: f64_round_def)

lemma f64_round_pos_nonneg: "0 < x \<Longrightarrow> 0 \<le> f64_round_pos x"
  using round_half_even_ge_int [of 0 "x / pow2 (f64_ulp_exp x)"]
  by (simp add: f64_round_pos_def Let_def less_imp_le)

text \<open>Rounding stays on the same side of every value that is a multiple of the last place.\<close>

lemma f64_round_pos_le_multiple:
  assumes "x \<le> of_int k * pow2 (f64_ulp_exp x)"
  shows "f64_round_pos x \<le> of_int k * pow2 (f64_ulp_exp x)"
proof -
  have "x / pow2 (f64_ulp_exp x) \<le> of_int k"
    using assms by (simp add: divide_le_eq)
  then have "round_half_even (x / pow2 (f64_ulp_exp x)) \<le> k" by (rule round_half_even_le_int)
  then show ?thesis by (simp add: f64_round_pos_def Let_def)
qed

lemma f64_round_pos_ge_multiple:
  assumes "of_int k * pow2 (f64_ulp_exp x) \<le> x"
  shows "of_int k * pow2 (f64_ulp_exp x) \<le> f64_round_pos x"
proof -
  have "of_int k \<le> x / pow2 (f64_ulp_exp x)"
    using assms by (simp add: le_divide_eq)
  then have "k \<le> round_half_even (x / pow2 (f64_ulp_exp x))" by (rule round_half_even_ge_int)
  then show ?thesis by (simp add: f64_round_pos_def Let_def)
qed

lemma f64_round_pos_exact:
  "x = of_int k * pow2 (f64_ulp_exp x) \<Longrightarrow> f64_round_pos x = x"
  using f64_round_pos_le_multiple [of x k] f64_round_pos_ge_multiple [of k x] by simp

lemma f64_round_pos_mono:
  assumes "0 < x" "x \<le> y"
  shows "f64_round_pos x \<le> f64_round_pos y"
proof (cases "f64_ulp_exp x = f64_ulp_exp y")
  case True
  have "x / pow2 (f64_ulp_exp y) \<le> y / pow2 (f64_ulp_exp y)"
    using assms(2) by (intro divide_right_mono) (simp_all add: less_imp_le)
  then show ?thesis using True
    by (simp add: f64_round_pos_def Let_def round_half_even_mono)
next
  case False
  have le: "rat_exp x \<le> rat_exp y" using assms by (rule rat_exp_mono)
  with False have lt: "rat_exp x < rat_exp y" "- 1074 < rat_exp y - 52"
    by (auto simp: f64_ulp_exp_def)
  define b where "b = pow2 (rat_exp y)"
  have "x \<le> b"
    using rat_exp_bounds(2) [of x] pow2_mono [of "rat_exp x + 1" "rat_exp y"] assms lt
    by (simp add: b_def)
  moreover have "b = of_int (2 ^ nat (rat_exp y - f64_ulp_exp x)) * pow2 (f64_ulp_exp x)"
    using pow2_add_nat [of "f64_ulp_exp x" "nat (rat_exp y - f64_ulp_exp x)"] lt
    by (simp add: b_def f64_ulp_exp_def)
  ultimately have "f64_round_pos x \<le> b" using f64_round_pos_le_multiple by metis
  moreover have "b \<le> f64_round_pos y"
  proof -
    have "b = of_int (2 ^ 52) * pow2 (f64_ulp_exp y)"
      using pow2_add_nat [of "f64_ulp_exp y" 52] lt by (simp add: b_def f64_ulp_exp_def)
    moreover have "b \<le> y" using rat_exp_bounds(1) [of y] assms by (simp add: b_def)
    ultimately show ?thesis using f64_round_pos_ge_multiple by metis
  qed
  ultimately show ?thesis by simp
qed

lemma f64_round_mono_nonneg:
  assumes "0 \<le> x" "x \<le> y"
  shows "f64_round x \<le> f64_round y"
  using assms f64_round_pos_mono [of x y] f64_round_pos_nonneg [of y]
  by (auto simp: f64_round_def)

lemma f64_round_nonneg: "0 \<le> x \<Longrightarrow> 0 \<le> f64_round x"
  using f64_round_mono_nonneg [of 0 x] by simp

text \<open>Integers up to \<open>2 ^ 53\<close> are binary64 values.\<close>

lemma f64_round_of_int:
  assumes "0 \<le> n" "n \<le> 2 ^ 53"
  shows "f64_round (of_int n) = of_int n"
proof (cases "n = 0 \<or> n = 2 ^ 53")
  case True
  then show ?thesis
  proof
    assume n: "n = 2 ^ 53"
    have x: "rat_of_int n = pow2 53" by (simp add: n pow2_def)
    have "rat_exp (pow2 53) = 53"
      using rat_exp_bounds [of "pow2 53"] pow2_strict_mono [of 53 "rat_exp (pow2 53) + 1"]
        pow2_mono [of 54 "rat_exp (pow2 53)"] pow2_Suc [of 53] pow2_pos [of 53]
      by (cases "54 \<le> rat_exp (pow2 53)") auto
    then have "f64_ulp_exp (pow2 53) = 1" by (simp add: f64_ulp_exp_def)
    then have "f64_round_pos (pow2 53) = pow2 53"
      by (intro f64_round_pos_exact [where k = "2 ^ 52"]) (simp add: pow2_def)
    then show ?thesis unfolding x by (simp add: f64_round_def)
  qed simp
next
  case False
  with assms have n: "0 < n" "n < 2 ^ 53" by auto
  then have pos: "0 < rat_of_int n" by simp
  have "rat_of_int n < of_int (2 ^ 53)" using n by (simp only: of_int_less_iff)
  then have "rat_of_int n < pow2 53" by (simp add: pow2_def)
  with rat_exp_bounds(1) [OF pos] have "pow2 (rat_exp (of_int n)) < pow2 53" by linarith
  then have e: "rat_exp (of_int n) < 53" by (rule pow2_strict_mono)
  define u where "u = f64_ulp_exp (of_int n)"
  have u: "u \<le> 0" using e by (simp add: u_def f64_ulp_exp_def)
  have "rat_of_int n = of_int (n * 2 ^ nat (- u)) * pow2 u"
    using u by (simp add: pow2_def)
  then have "f64_round_pos (of_int n) = of_int n"
    unfolding u_def by (rule f64_round_pos_exact)
  with pos show ?thesis by (simp add: f64_round_def)
qed

section \<open>int * float\<close>

text \<open>Python converts the integer to a float and multiplies: two roundings.\<close>

definition f64_mul_int :: "int \<Rightarrow> f64 \<Rightarrow> f64" where
  "f64_mul_int n r = f64_round (f64_round (of_int n) * r)"

lemma f64_mul_int_0 [simp]: "f64_mul_int n 0 = 0"
  by (simp add: f64_mul_int_def)

lemma f64_mul_int_1: "0 \<le> n \<Longrightarrow> n \<le> 2 ^ 53 \<Longrightarrow> f64_mul_int n 1 = of_int n"
  by (simp add: f64_mul_int_def f64_round_of_int)

lemma f64_mul_int_nonneg: "0 \<le> n \<Longrightarrow> 0 \<le> r \<Longrightarrow> 0 \<le> f64_mul_int n r"
  by (simp add: f64_mul_int_def f64_round_nonneg)

lemma f64_mul_int_mono:
  "0 \<le> n \<Longrightarrow> 0 \<le> r \<Longrightarrow> r \<le> s \<Longrightarrow> f64_mul_int n r \<le> f64_mul_int n s"
  unfolding f64_mul_int_def
  by (intro f64_round_mono_nonneg mult_nonneg_nonneg mult_left_mono f64_round_nonneg) auto

text \<open>The literals of the code.\<close>

definition f64_lit :: "rat \<Rightarrow> f64" where
  "f64_lit x = f64_round x"

end
