(* ===== verification/ContextPool.thy ===== *)
theory ContextPool
  imports Floats
begin

text \<open>
  \<open>ContextBlendPool\<close> of \<open>srt/utils/cache_blender_info.py\<close>: the digest-index metadata of one
  RAG context and the per-layer prefix K/V that QCOMPUTE attends to. The class attributes are the
  fields of \<open>ctx_pool\<close>, each classmethod is a function on it. Tensors are a type parameter
  \<open>'t\<close>: this class only stores them. The lemmas show that the digest positions are strictly
  increasing positions of the context chunks, how many there are, that they grow with the digest
  ratio, and that the spans computed for packed reads cover exactly the positions, in order, with
  the right output offsets.
\<close>

section \<open>State\<close>

record 't ctx_pool =
  ctx_k_buffer :: "'t option list"
  ctx_v_buffer :: "'t option list"
  ranked_indices_by_chunk :: "int list list"
  ranked_indices_by_layer_chunk :: "int list list list"
  orig_chunk_ranges :: "(int \<times> int) list"
  context_positions :: "int list"
  context_position_spans :: "(int \<times> int \<times> int) list"
  context_positions_by_layer :: "int list list"
  context_position_spans_by_layer :: "(int \<times> int \<times> int) list list"
  num_index_layers :: int
  total_tokens :: int
  ctx_digest_ratio :: "f64 option"

definition DEFAULT_DIGEST_RATIO :: f64 where
  "DEFAULT_DIGEST_RATIO = f64_lit (1 / 10)"

definition ctx_clear :: "'t ctx_pool" where
  "ctx_clear =
     \<lparr>ctx_k_buffer = [], ctx_v_buffer = [], ranked_indices_by_chunk = [],
      ranked_indices_by_layer_chunk = [], orig_chunk_ranges = [], context_positions = [],
      context_position_spans = [], context_positions_by_layer = [],
      context_position_spans_by_layer = [], num_index_layers = 0, total_tokens = 0,
      ctx_digest_ratio = None\<rparr>"

definition ctx_init_buffers :: "int \<Rightarrow> 't ctx_pool \<Rightarrow> 't ctx_pool" where
  "ctx_init_buffers num_layers p =
     p\<lparr>ctx_k_buffer := replicate (nat num_layers) None,
       ctx_v_buffer := replicate (nat num_layers) None\<rparr>"

section \<open>Accessors\<close>

definition ctx_get :: "'t ctx_pool \<Rightarrow> int \<Rightarrow> ('t option \<times> 't option) res" where
  "ctx_get p layer_id =
     rbind (py_get (ctx_k_buffer p) layer_id) (\<lambda>k.
     rbind (py_get (ctx_v_buffer p) layer_id) (\<lambda>v. Inr (k, v)))"

definition ctx_get_kv_layers ::
    "'t ctx_pool \<Rightarrow> int list \<Rightarrow> ('t option list \<times> 't option list) res" where
  "ctx_get_kv_layers p layer_ids =
     rbind (rmap (py_get (ctx_k_buffer p)) layer_ids) (\<lambda>ks.
     rbind (rmap (py_get (ctx_v_buffer p)) layer_ids) (\<lambda>vs. Inr (ks, vs)))"

definition ctx_get_all_kv :: "'t ctx_pool \<Rightarrow> int \<Rightarrow> int \<Rightarrow> 't option list \<times> 't option list" where
  "ctx_get_all_kv p start stop =
     (py_slice (ctx_k_buffer p) start stop, py_slice (ctx_v_buffer p) start stop)"

definition get_context_positions :: "'t ctx_pool \<Rightarrow> int \<Rightarrow> int list" where
  "get_context_positions p layer_id =
     (if context_positions_by_layer p \<noteq> [] \<and> 0 \<le> layer_id
         \<and> layer_id < int (length (context_positions_by_layer p))
      then context_positions_by_layer p ! nat layer_id
      else context_positions p)"

definition get_context_position_spans :: "'t ctx_pool \<Rightarrow> int \<Rightarrow> (int \<times> int \<times> int) list" where
  "get_context_position_spans p layer_id =
     (if context_position_spans_by_layer p \<noteq> [] \<and> 0 \<le> layer_id
         \<and> layer_id < int (length (context_position_spans_by_layer p))
      then context_position_spans_by_layer p ! nat layer_id
      else context_position_spans p)"

section \<open>Index metadata\<close>

text \<open>Python's \<open>a or b\<close> on integers: \<open>None\<close> and 0 are false.\<close>

definition int_or :: "int option \<Rightarrow> int \<Rightarrow> int" where
  "int_or a b = (case a of None \<Rightarrow> b | Some n \<Rightarrow> if n = 0 then b else n)"

definition set_index_metadata ::
    "int list list option \<Rightarrow> int list list list option \<Rightarrow> (int \<times> int) list \<Rightarrow> int \<Rightarrow> int option
     \<Rightarrow> 't ctx_pool \<Rightarrow> 't ctx_pool" where
  "set_index_metadata rbc rblc ranges total_toks num_layers p =
     (let by_layer = (case rblc of None \<Rightarrow> [] | Some x \<Rightarrow> x)
      in p\<lparr>ranked_indices_by_chunk := (case rbc of None \<Rightarrow> [] | Some x \<Rightarrow> x),
           ranked_indices_by_layer_chunk := by_layer,
           orig_chunk_ranges := ranges,
           total_tokens := total_toks,
           num_index_layers :=
             int_or num_layers
               (int_or (Some (int (length by_layer)))
                 (int_or (Some (int (length (ctx_k_buffer p)))) 0)),
           context_positions := [],
           context_position_spans := [],
           context_positions_by_layer := [],
           context_position_spans_by_layer := [],
           ctx_digest_ratio := None\<rparr>)"

section \<open>Coalescing positions into spans\<close>

fun coalesce_loop :: "int \<Rightarrow> int \<Rightarrow> int \<Rightarrow> int list \<Rightarrow> (int \<times> int \<times> int) list" where
  "coalesce_loop run_start prev out_start [] = [(run_start, prev + 1, out_start)]"
| "coalesce_loop run_start prev out_start (pos # rest) =
     (if pos = prev + 1 then coalesce_loop run_start pos out_start rest
      else (run_start, prev + 1, out_start)
           # coalesce_loop pos pos (out_start + (prev - run_start + 1)) rest)"

definition coalesce_sorted_positions :: "int list \<Rightarrow> (int \<times> int \<times> int) list" where
  "coalesce_sorted_positions positions =
     (case positions of [] \<Rightarrow> [] | p # rest \<Rightarrow> coalesce_loop p p 0 rest)"

section \<open>Selecting the digest positions\<close>

definition ranked_indices_for_layer :: "'t ctx_pool \<Rightarrow> int \<Rightarrow> int list list" where
  "ranked_indices_for_layer p layer_id =
     (if ranked_indices_by_layer_chunk p \<noteq> [] \<and> 0 \<le> layer_id
         \<and> layer_id < int (length (ranked_indices_by_layer_chunk p))
      then ranked_indices_by_layer_chunk p ! nat layer_id
      else ranked_indices_by_chunk p)"

text \<open>How many tokens of a chunk of length \<open>chunk_len\<close> the digest keeps.\<close>

definition digest_n_left :: "int \<Rightarrow> f64 \<Rightarrow> int" where
  "digest_n_left chunk_len digest_ratio =
     (let ratio = min 1 (max 0 digest_ratio);
          n_left = \<lceil>f64_mul_int chunk_len ratio\<rceil>
      in min chunk_len n_left)"

text \<open>The inner loop: keep the in-rng indices not seen before, in ranking order.\<close>

fun select_local :: "int \<Rightarrow> int list \<Rightarrow> int list \<Rightarrow> int list \<Rightarrow> int list" where
  "select_local chunk_len seen sel [] = sel"
| "select_local chunk_len seen sel (idx # rest) =
     (if idx \<in> set seen \<or> idx < 0 \<or> idx \<ge> chunk_len then select_local chunk_len seen sel rest
      else select_local chunk_len (idx # seen) (sel @ [idx]) rest)"

text \<open>The body of the loop over chunks. Chunk 0 is the system prompt and is kept whole.\<close>

definition chunk_positions :: "int list list \<Rightarrow> f64 \<Rightarrow> nat \<Rightarrow> int \<times> int \<Rightarrow> int list" where
  "chunk_positions ranked_by_chunk digest_ratio chunk_idx rng =
     (let (orig_start, orig_end) = rng;
          chunk_len = orig_end - orig_start
      in if chunk_len \<le> 0 then []
         else if chunk_idx = 0 then py_range orig_start orig_end
         else
           (let ranked = (if chunk_idx < length ranked_by_chunk
                          then ranked_by_chunk ! chunk_idx else []);
                local_selected =
                  sort (select_local chunk_len [] []
                    (take (nat (digest_n_left chunk_len digest_ratio)) ranked))
            in map (\<lambda>idx. orig_start + idx) local_selected))"

definition build_context_positions_for_layer :: "'t ctx_pool \<Rightarrow> int \<Rightarrow> f64 \<Rightarrow> int list" where
  "build_context_positions_for_layer p layer_id digest_ratio =
     (let ranked_by_chunk = ranked_indices_for_layer p layer_id
      in concat (map (\<lambda>(chunk_idx, rng).
           chunk_positions ranked_by_chunk digest_ratio chunk_idx rng)
           (List.enumerate 0 (orig_chunk_ranges p))))"

definition build_num_layers :: "'t ctx_pool \<Rightarrow> int" where
  "build_num_layers p =
     max (max (max (num_index_layers p) (int (length (ranked_indices_by_layer_chunk p))))
       (int (length (ctx_k_buffer p)))) 1"

definition build_context_positions :: "f64 \<Rightarrow> 't ctx_pool \<Rightarrow> int list \<times> 't ctx_pool" where
  "build_context_positions digest_ratio p =
     (let by_layer = map (\<lambda>layer_id. build_context_positions_for_layer p layer_id digest_ratio)
            (py_range 0 (build_num_layers p));
          positions = (if by_layer \<noteq> [] then by_layer ! 0 else [])
      in (positions,
          p\<lparr>context_positions_by_layer := by_layer,
            context_position_spans_by_layer := map coalesce_sorted_positions by_layer,
            context_positions := positions,
            context_position_spans := coalesce_sorted_positions positions,
            ctx_digest_ratio := Some digest_ratio\<rparr>))"

definition set_materialized_positions :: "int list list \<Rightarrow> 't ctx_pool \<Rightarrow> 't ctx_pool" where
  "set_materialized_positions positions_by_layer p =
     (let positions = (if positions_by_layer \<noteq> [] then positions_by_layer ! 0 else [])
      in p\<lparr>context_positions_by_layer := positions_by_layer,
           context_position_spans_by_layer := map coalesce_sorted_positions positions_by_layer,
           context_positions := positions,
           context_position_spans := coalesce_sorted_positions positions\<rparr>)"

section \<open>Spans\<close>

text \<open>What a list of spans stands for: the positions it covers, in order.\<close>

definition expand_spans :: "(int \<times> int \<times> int) list \<Rightarrow> int list" where
  "expand_spans spans = concat (map (\<lambda>(s, e, out_pos). py_range s e) spans)"

lemma expand_coalesce_loop:
  "run_start \<le> prev \<Longrightarrow>
   expand_spans (coalesce_loop run_start prev out_start rest) = py_range run_start (prev + 1) @ rest"
proof (induction run_start prev out_start rest rule: coalesce_loop.induct)
  case (1 run_start prev out_start)
  then show ?case by (simp add: expand_spans_def)
next
  case (2 run_start prev out_start pos rest)
  show ?case
  proof (cases "pos = prev + 1")
    case True
    with 2 show ?thesis
      using py_range_snoc [of run_start prev] py_range_snoc [of run_start "prev + 1"] by simp
  next
    case False
    with 2 show ?thesis by (simp add: expand_spans_def py_range_rec)
  qed
qed

lemma expand_coalesce: "expand_spans (coalesce_sorted_positions ps) = ps"
proof (cases ps)
  case Nil
  then show ?thesis by (simp add: coalesce_sorted_positions_def expand_spans_def)
next
  case (Cons p rest)
  then show ?thesis
    by (simp add: coalesce_sorted_positions_def expand_coalesce_loop py_range_rec)
qed

text \<open>Span number \<open>i\<close> starts, in the packed output, where the earlier spans end.\<close>

fun spans_wf :: "int \<Rightarrow> (int \<times> int \<times> int) list \<Rightarrow> bool" where
  "spans_wf out0 [] = True"
| "spans_wf out0 ((s, e, out_pos) # spans) =
     (s < e \<and> out_pos = out0 \<and> spans_wf (out0 + (e - s)) spans)"

lemma spans_wf_nth:
  "spans_wf out0 spans \<Longrightarrow> i < length spans \<Longrightarrow> spans ! i = (s, e, out_pos) \<Longrightarrow>
   s < e \<and> out_pos = out0 + int (length (expand_spans (take i spans)))"
proof (induction out0 spans arbitrary: i rule: spans_wf.induct)
  case (2 out0 s' e' out_pos' spans)
  show ?case
  proof (cases i)
    case 0
    with "2.prems" show ?thesis by (simp add: expand_spans_def)
  next
    case (Suc j)
    with "2.prems" "2.IH" [of j] show ?thesis by (simp add: expand_spans_def)
  qed
qed simp

lemma coalesce_loop_wf:
  "run_start \<le> prev \<Longrightarrow> spans_wf out_start (coalesce_loop run_start prev out_start rest)"
proof (induction run_start prev out_start rest rule: coalesce_loop.induct)
  case (1 run_start prev out_start)
  then show ?case by simp
next
  case (2 run_start prev out_start pos rest)
  then show ?case by (cases "pos = prev + 1") (auto simp: algebra_simps)
qed

lemma coalesce_wf: "spans_wf 0 (coalesce_sorted_positions ps)"
  by (cases ps) (simp_all add: coalesce_sorted_positions_def coalesce_loop_wf)

text \<open>Consecutive spans never touch: the spans are the maximal runs.\<close>

fun spans_maximal :: "(int \<times> int \<times> int) list \<Rightarrow> bool" where
  "spans_maximal ((s, e, out_pos) # (s', e', out_pos') # rest) =
     (e \<noteq> s' \<and> spans_maximal ((s', e', out_pos') # rest))"
| "spans_maximal spans = True"

lemma coalesce_loop_hd: "\<exists>e out_pos rest'. coalesce_loop s prev out_start rest = (s, e, out_pos) # rest'"
  by (induction s prev out_start rest rule: coalesce_loop.induct) auto

lemma coalesce_loop_maximal: "spans_maximal (coalesce_loop run_start prev out_start rest)"
proof (induction run_start prev out_start rest rule: coalesce_loop.induct)
  case (2 run_start prev out_start pos rest)
  obtain e out_pos rest' where
    "coalesce_loop pos pos (out_start + (prev - run_start + 1)) rest = (pos, e, out_pos) # rest'"
    using coalesce_loop_hd by blast
  with 2 show ?case by (cases "pos = prev + 1") auto
qed simp

lemma coalesce_maximal: "spans_maximal (coalesce_sorted_positions ps)"
  by (cases ps) (simp_all add: coalesce_sorted_positions_def coalesce_loop_maximal)

section \<open>The inner selection loop\<close>

lemma select_local_props:
  assumes "set seen = set sel" "distinct sel" "set sel \<subseteq> {0..<chunk_len}"
  shows "distinct (select_local chunk_len seen sel raw)"
    and "set (select_local chunk_len seen sel raw) = set sel \<union> (set raw \<inter> {0..<chunk_len})"
  using assms by (induction chunk_len seen sel raw rule: select_local.induct) (auto split: if_splits)

lemma set_select_local: "set (select_local chunk_len [] [] raw) = set raw \<inter> {0..<chunk_len}"
  using select_local_props(2) [of "[]" "[]"] by simp

lemma distinct_select_local: "distinct (select_local chunk_len [] [] raw)"
  using select_local_props(1) [of "[]" "[]"] by simp

lemma length_select_local: "length (select_local chunk_len [] [] raw) = card (set raw \<inter> {0..<chunk_len})"
  using distinct_select_local distinct_card set_select_local by metis

lemma digest_n_left_bounds:
  "0 \<le> chunk_len \<Longrightarrow> 0 \<le> digest_n_left chunk_len r \<and> digest_n_left chunk_len r \<le> chunk_len"
  using f64_mul_int_nonneg [of chunk_len "min 1 (max 0 r)"]
  by (auto simp: digest_n_left_def Let_def)

lemma digest_n_left_mono: "0 \<le> chunk_len \<Longrightarrow> r \<le> s \<Longrightarrow> digest_n_left chunk_len r \<le> digest_n_left chunk_len s"
  unfolding digest_n_left_def Let_def
  by (intro min.mono ceiling_mono f64_mul_int_mono) auto

lemma digest_n_left_le_0: "0 \<le> chunk_len \<Longrightarrow> r \<le> 0 \<Longrightarrow> digest_n_left chunk_len r = 0"
  by (simp add: digest_n_left_def)

lemma digest_n_left_ge_1:
  "0 \<le> chunk_len \<Longrightarrow> chunk_len \<le> 2 ^ 53 \<Longrightarrow> 1 \<le> r \<Longrightarrow> digest_n_left chunk_len r = chunk_len"
  by (simp add: digest_n_left_def f64_mul_int_1)

text \<open>A digest of a non-empty chunk at a positive ratio keeps at least one token.\<close>

lemma set_chunk_positions:
  "set (chunk_positions rbc r i (s, e)) \<subseteq> {s..<e}"
  by (auto simp: chunk_positions_def Let_def set_select_local)

lemma strict_chunk_positions: "sorted_wrt (<) (chunk_positions rbc r i (s, e))"
  by (auto simp: chunk_positions_def Let_def
      intro!: strict_sorted_map_shift strict_sorted_sort distinct_select_local)

lemma chunk_positions_mono:
  assumes "r \<le> r'"
  shows "set (chunk_positions rbc r i (s, e)) \<subseteq> set (chunk_positions rbc r' i (s, e))"
proof (cases "e - s \<le> 0 \<or> i = 0")
  case True
  then show ?thesis by (auto simp: chunk_positions_def Let_def)
next
  case False
  have "nat (digest_n_left (e - s) r) \<le> nat (digest_n_left (e - s) r')"
    using False assms by (intro nat_mono digest_n_left_mono) auto
  then have "set (take (nat (digest_n_left (e - s) r)) xs) \<inter> A
      \<subseteq> set (take (nat (digest_n_left (e - s) r')) xs) \<inter> A" for xs :: "int list" and A
    using set_take_subset_set_take [of _ _ xs] by (meson inf_mono subset_refl)
  with False show ?thesis
    by (simp add: chunk_positions_def Let_def set_select_local image_mono)
qed

text \<open>A ranking of a chunk is usable when it lists every local index exactly once.\<close>

definition is_ranking :: "int \<Rightarrow> int list \<Rightarrow> bool" where
  "is_ranking chunk_len ranked \<longleftrightarrow> distinct ranked \<and> set ranked = {0..<chunk_len}"

lemma is_ranking_length: "is_ranking n ranked \<Longrightarrow> length ranked = nat n"
  unfolding is_ranking_def using distinct_card [of ranked] by simp

lemma length_chunk_positions:
  assumes "s < e" "0 < i" "i < length rbc" "is_ranking (e - s) (rbc ! i)"
  shows "length (chunk_positions rbc r i (s, e)) = nat (digest_n_left (e - s) r)"
proof -
  let ?n = "nat (digest_n_left (e - s) r)"
  have len: "length (rbc ! i) = nat (e - s)" using assms(4) by (rule is_ranking_length)
  have "?n \<le> nat (e - s)"
    using digest_n_left_bounds [of "e - s" r] assms(1) by (intro nat_mono) auto
  moreover have "set (take ?n (rbc ! i)) \<inter> {0..<e - s} = set (take ?n (rbc ! i))"
    using assms(4) set_take_subset by (fastforce simp: is_ranking_def)
  moreover have "card (set (take ?n (rbc ! i))) = length (take ?n (rbc ! i))"
    using assms(4) by (intro distinct_card distinct_take) (simp add: is_ranking_def)
  ultimately show ?thesis
    using assms len by (simp add: chunk_positions_def Let_def length_select_local)
qed

section \<open>Positions of a layer\<close>

text \<open>Chunk ranges as the index manager produces them: in order, not overlapping.\<close>

definition ranges_ok :: "(int \<times> int) list \<Rightarrow> bool" where
  "ranges_ok ranges \<longleftrightarrow>
     (\<forall>(s, e) \<in> set ranges. s \<le> e) \<and> sorted_wrt (\<lambda>(s, e) (s', e'). e \<le> s') ranges"

lemma ranges_ok_Cons:
  "ranges_ok ((s, e) # rs) \<longleftrightarrow> s \<le> e \<and> (\<forall>(s', e') \<in> set rs. e \<le> s') \<and> ranges_ok rs"
  by (auto simp: ranges_ok_def)

definition positions_from :: "int list list \<Rightarrow> f64 \<Rightarrow> nat \<Rightarrow> (int \<times> int) list \<Rightarrow> int list" where
  "positions_from rbc r i ranges =
     concat (map (\<lambda>(j, rng). chunk_positions rbc r j rng) (List.enumerate i ranges))"

lemma positions_from_simps [simp]:
  "positions_from rbc r i [] = []"
  "positions_from rbc r i (x # rs) = chunk_positions rbc r i x @ positions_from rbc r (Suc i) rs"
  by (simp_all add: positions_from_def)

lemma build_positions_from:
  "build_context_positions_for_layer p l r =
     positions_from (ranked_indices_for_layer p l) r 0 (orig_chunk_ranges p)"
  by (simp add: build_context_positions_for_layer_def positions_from_def)

lemma set_positions_from: "set (positions_from rbc r i ranges) \<subseteq> (\<Union>(s, e) \<in> set ranges. {s..<e})"
proof (induction ranges arbitrary: i)
  case (Cons x ranges)
  obtain s e where "x = (s, e)" by force
  with Cons set_chunk_positions [of rbc r i s e] show ?case by fastforce
qed simp

lemma strict_positions_from: "ranges_ok ranges \<Longrightarrow> sorted_wrt (<) (positions_from rbc r i ranges)"
proof (induction ranges arbitrary: i)
  case (Cons x ranges)
  obtain s e where x: "x = (s, e)" by force
  with Cons.prems have ok: "ranges_ok ranges" "\<forall>(s', e') \<in> set ranges. e \<le> s'"
    by (auto simp: ranges_ok_Cons)
  have "a < b"
    if a: "a \<in> set (chunk_positions rbc r i (s, e))"
      and b: "b \<in> set (positions_from rbc r (Suc i) ranges)" for a b
  proof -
    have "a < e" using a set_chunk_positions by fastforce
    moreover obtain s' e' where "(s', e') \<in> set ranges" "s' \<le> b"
      using b set_positions_from by fastforce
    ultimately show ?thesis using ok(2) by force
  qed
  with Cons.IH ok(1) show ?case
    by (simp add: x strict_sorted_append_iff strict_chunk_positions)
qed simp

lemma positions_from_mono:
  "r \<le> r' \<Longrightarrow> set (positions_from rbc r i ranges) \<subseteq> set (positions_from rbc r' i ranges)"
proof (induction ranges arbitrary: i)
  case (Cons x ranges)
  obtain s e where x: "x = (s, e)" by force
  with Cons chunk_positions_mono [OF Cons.prems, of rbc i s e] show ?case by fastforce
qed simp

text \<open>Every chunk after the system prompt that has tokens has a usable ranking.\<close>

definition rankings_ok :: "int list list \<Rightarrow> (int \<times> int) list \<Rightarrow> bool" where
  "rankings_ok rbc ranges \<longleftrightarrow>
     (\<forall>i \<in> {1..<length ranges}. fst (ranges ! i) < snd (ranges ! i) \<longrightarrow>
        i < length rbc \<and> is_ranking (snd (ranges ! i) - fst (ranges ! i)) (rbc ! i))"

definition kept_tokens :: "f64 \<Rightarrow> nat \<Rightarrow> int \<times> int \<Rightarrow> nat" where
  "kept_tokens r i rng =
     (let chunk_len = snd rng - fst rng
      in if i = 0 then nat chunk_len else nat (digest_n_left chunk_len r))"

lemma length_positions_from:
  assumes "\<And>j. j < length ranges \<Longrightarrow> 0 < i + j \<Longrightarrow> fst (ranges ! j) < snd (ranges ! j) \<Longrightarrow>
      i + j < length rbc \<and> is_ranking (snd (ranges ! j) - fst (ranges ! j)) (rbc ! (i + j))"
    and "\<forall>(s, e) \<in> set ranges. s \<le> e"
  shows "length (positions_from rbc r i ranges) =
    sum_list (map (\<lambda>(j, rng). kept_tokens r j rng) (List.enumerate i ranges))"
  using assms
proof (induction ranges arbitrary: i)
  case (Cons x ranges)
  obtain s e where x: "x = (s, e)" by force
  have IH: "length (positions_from rbc r (Suc i) ranges) =
      sum_list (map (\<lambda>(j, rng). kept_tokens r j rng) (List.enumerate (Suc i) ranges))"
    using Cons.prems(1) [of "Suc _"] Cons.prems(2) by (intro Cons.IH) auto
  have "length (chunk_positions rbc r i (s, e)) = kept_tokens r i (s, e)"
  proof (cases "s < e")
    case True
    show ?thesis
    proof (cases "i = 0")
      case True
      then show ?thesis by (simp add: chunk_positions_def kept_tokens_def Let_def)
    next
      case False
      with \<open>s < e\<close> Cons.prems(1) [of 0] show ?thesis
        by (simp add: x kept_tokens_def length_chunk_positions)
    qed
  next
    case False
    then have "s = e" using Cons.prems(2) x by auto
    then show ?thesis
      using digest_n_left_bounds [of 0 r] by (simp add: chunk_positions_def kept_tokens_def Let_def)
  qed
  with IH show ?case by (simp add: x)
qed simp

lemma length_build_positions:
  assumes "ranges_ok (orig_chunk_ranges p)"
    and "rankings_ok (ranked_indices_for_layer p l) (orig_chunk_ranges p)"
  shows "length (build_context_positions_for_layer p l r) =
    sum_list (map (\<lambda>(j, rng). kept_tokens r j rng) (List.enumerate 0 (orig_chunk_ranges p)))"
  unfolding build_positions_from
  by (rule length_positions_from) (use assms in \<open>auto simp: rankings_ok_def ranges_ok_def\<close>)

lemma chunk_positions_full:
  assumes "s \<le> e" "e - s \<le> 2 ^ 53" "1 \<le> r"
    and "0 < i \<Longrightarrow> s < e \<Longrightarrow> i < length rbc \<and> is_ranking (e - s) (rbc ! i)"
  shows "set (chunk_positions rbc r i (s, e)) = {s..<e}"
proof (cases "s < e \<and> 0 < i")
  case True
  then have rk: "i < length rbc" "is_ranking (e - s) (rbc ! i)" using assms(4) by auto
  then have "take (nat (digest_n_left (e - s) r)) (rbc ! i) = rbc ! i"
    using assms digest_n_left_ge_1 [of "e - s" r] is_ranking_length [OF rk(2)] by simp
  with True rk have "set (chunk_positions rbc r i (s, e)) = (\<lambda>idx. s + idx) ` {0..<e - s}"
    by (simp add: chunk_positions_def Let_def set_select_local is_ranking_def)
  then show ?thesis by (simp add: image_add_atLeastLessThan)
next
  case False
  with assms(1) show ?thesis by (auto simp: chunk_positions_def Let_def)
qed

lemma chunk_positions_none: "r \<le> 0 \<Longrightarrow> 0 < i \<Longrightarrow> chunk_positions rbc r i (s, e) = []"
  by (auto simp: chunk_positions_def Let_def digest_n_left_le_0)

lemma positions_from_none: "r \<le> 0 \<Longrightarrow> 0 < i \<Longrightarrow> positions_from rbc r i ranges = []"
  by (induction ranges arbitrary: i) (auto simp: chunk_positions_none)

lemma positions_from_full:
  assumes "\<And>j. j < length ranges \<Longrightarrow> 0 < i + j \<Longrightarrow> fst (ranges ! j) < snd (ranges ! j) \<Longrightarrow>
      i + j < length rbc \<and> is_ranking (snd (ranges ! j) - fst (ranges ! j)) (rbc ! (i + j))"
    and "\<forall>(s, e) \<in> set ranges. s \<le> e \<and> e - s \<le> 2 ^ 53" and "1 \<le> r"
  shows "set (positions_from rbc r i ranges) = (\<Union>(s, e) \<in> set ranges. {s..<e})"
  using assms
proof (induction ranges arbitrary: i)
  case (Cons x ranges)
  obtain s e where x: "x = (s, e)" by force
  have IH: "set (positions_from rbc r (Suc i) ranges) = (\<Union>(s, e) \<in> set ranges. {s..<e})"
    using Cons.prems(1) [of "Suc _"] Cons.prems(2,3) by (intro Cons.IH) auto
  have "set (chunk_positions rbc r i (s, e)) = {s..<e}"
    using Cons.prems(1) [of 0] Cons.prems(2,3) x by (intro chunk_positions_full) auto
  with IH show ?case by (simp add: x)
qed simp

section \<open>Properties\<close>

text \<open>The context used by the witnesses: a system prompt of two tokens and two documents of three
  and four tokens, each with a ranking.\<close>

definition example_ctx :: "unit ctx_pool" where
  "example_ctx = set_index_metadata (Some [[], [2, 0, 1], [3, 1, 0, 2]]) None
     [(0, 2), (2, 5), (5, 9)] 9 (Some 1) ctx_clear"

lemma example_ctx_ranges: "orig_chunk_ranges example_ctx = [(0, 2), (2, 5), (5, 9)]"
  by (simp add: example_ctx_def set_index_metadata_def)

lemma example_ctx_ranked: "ranked_indices_for_layer example_ctx l = [[], [2, 0, 1], [3, 1, 0, 2]]"
  by (simp add: example_ctx_def set_index_metadata_def ranked_indices_for_layer_def)

lemma example_ctx_ok:
  "ranges_ok (orig_chunk_ranges example_ctx)"
  "rankings_ok (ranked_indices_for_layer example_ctx l) (orig_chunk_ranges example_ctx)"
proof -
  show "ranges_ok (orig_chunk_ranges example_ctx)"
    by (simp add: example_ctx_ranges ranges_ok_def)
  have "is_ranking 3 [2, 0, 1]" "is_ranking 4 [3, 1, 0, 2]"
    by (auto simp: is_ranking_def)
  then have "\<forall>i \<in> {1, 2}. i < 3 \<and>
      is_ranking (snd (orig_chunk_ranges example_ctx ! i) - fst (orig_chunk_ranges example_ctx ! i))
        (ranked_indices_for_layer example_ctx l ! i)"
    by (simp add: example_ctx_ranges example_ctx_ranked)
  moreover have "{1..<length (orig_chunk_ranges example_ctx)} = {1, 2}"
    by (auto simp: example_ctx_ranges)
  ultimately show "rankings_ok (ranked_indices_for_layer example_ctx l) (orig_chunk_ranges example_ctx)"
    unfolding rankings_ok_def by (simp add: example_ctx_ranked)
qed

text \<open>C29: the digest positions of a layer are strictly increasing and every one of them is a token
  of a context chunk, whatever the ranking and the ratio.\<close>

theorem digest_positions_sorted:
  assumes "ranges_ok (orig_chunk_ranges p)"
  shows "sorted_wrt (<) (build_context_positions_for_layer p layer_id digest_ratio) \<and>
    set (build_context_positions_for_layer p layer_id digest_ratio)
      \<subseteq> (\<Union>(s, e) \<in> set (orig_chunk_ranges p). {s..<e})"
  unfolding build_positions_from
  by (intro conjI strict_positions_from [OF assms] set_positions_from)

theorem digest_positions_sorted_witness:
  "sorted_wrt (<) (build_context_positions_for_layer example_ctx 0 (1 / 2)) \<and>
   build_context_positions_for_layer example_ctx 0 (1 / 2) = [0, 1, 2, 4, 6, 8]"
proof -
  have "build_context_positions_for_layer example_ctx 0 (1 / 2) = [0, 1, 2, 4, 6, 8]"
    by code_simp
  then show ?thesis
    using digest_positions_sorted [OF example_ctx_ok(1), of 0 "1 / 2"] by simp
qed

text \<open>With a usable ranking for every chunk, each layer's context has the same length, the
  system prompt plus the digest share of every other chunk; so the K/V length that the first layer
  caches for all layers is right for every layer.\<close>

theorem context_length_same_for_layers:
  assumes "ranges_ok (orig_chunk_ranges p)"
    and "rankings_ok (ranked_indices_for_layer p l) (orig_chunk_ranges p)"
    and "rankings_ok (ranked_indices_for_layer p l') (orig_chunk_ranges p)"
  shows "length (build_context_positions_for_layer p l r)
      = length (build_context_positions_for_layer p l' r) \<and>
    length (build_context_positions_for_layer p l r)
      = sum_list (map (\<lambda>(j, rng). kept_tokens r j rng) (List.enumerate 0 (orig_chunk_ranges p)))"
  using length_build_positions [OF assms(1,2)] length_build_positions [OF assms(1,3)] by simp

theorem context_length_same_for_layers_witness:
  "length (build_context_positions_for_layer example_ctx 0 (1 / 2)) = 6 \<and>
   length (build_context_positions_for_layer example_ctx 7 (1 / 2)) = 6"
proof -
  have "build_context_positions_for_layer example_ctx 0 (1 / 2) = [0, 1, 2, 4, 6, 8]"
    by code_simp
  then show ?thesis
    using context_length_same_for_layers
      [OF example_ctx_ok(1) example_ctx_ok(2) [of 0] example_ctx_ok(2) [of 7], of "1 / 2"]
    by simp
qed

text \<open>C32: at ratio 1 the digest is the whole context, at ratio 0 it is the whole first range, the system
  prompt, and nothing else (the two baselines that use these ratios). The ranges are in order and have
  at most 2^53 tokens each, so that their lengths are exact as floating-point numbers.\<close>

theorem digest_ratio_extremes:
  assumes "ranges_ok (orig_chunk_ranges p)"
    and "rankings_ok (ranked_indices_for_layer p l) (orig_chunk_ranges p)"
    and "\<forall>(s, e) \<in> set (orig_chunk_ranges p). e - s \<le> 2 ^ 53"
  shows "set (build_context_positions_for_layer p l 1)
      = (\<Union>(s, e) \<in> set (orig_chunk_ranges p). {s..<e}) \<and>
    build_context_positions_for_layer p l 0
      = (case orig_chunk_ranges p of [] \<Rightarrow> [] | (s, e) # _ \<Rightarrow> py_range s e)"
proof
  show "set (build_context_positions_for_layer p l 1)
      = (\<Union>(s, e) \<in> set (orig_chunk_ranges p). {s..<e})"
    unfolding build_positions_from
    by (rule positions_from_full) (use assms in \<open>auto simp: rankings_ok_def ranges_ok_def\<close>)
  show "build_context_positions_for_layer p l 0
      = (case orig_chunk_ranges p of [] \<Rightarrow> [] | (s, e) # _ \<Rightarrow> py_range s e)"
    unfolding build_positions_from
    by (auto simp: chunk_positions_def Let_def positions_from_none split: list.split prod.split)
qed

theorem digest_ratio_extremes_witness:
  "set (build_context_positions_for_layer example_ctx 0 1) = {0..<9} \<and>
   build_context_positions_for_layer example_ctx 0 0 = [0, 1]"
proof -
  have "{0..<2} \<union> ({2..<5} \<union> {5..<9}) = {0..<9::int}" by auto
  then show ?thesis
    using digest_ratio_extremes [OF example_ctx_ok(1) example_ctx_ok(2) [of 0]]
    by (simp add: example_ctx_ranges py_range_def upto_rec1)
qed

text \<open>A larger digest ratio never drops a position.\<close>

theorem digest_monotone_in_ratio:
  assumes "r \<le> r'"
  shows "set (build_context_positions_for_layer p l r) \<subseteq> set (build_context_positions_for_layer p l r')"
  unfolding build_positions_from using assms by (rule positions_from_mono)

theorem digest_monotone_in_ratio_witness:
  "set (build_context_positions_for_layer example_ctx 0 (1 / 10))
     \<subseteq> set (build_context_positions_for_layer example_ctx 0 (1 / 2))"
  by (rule digest_monotone_in_ratio) simp

text \<open>The spans computed from any list of positions cover exactly that list, in order; they are
  maximal runs; and span \<open>(s, e, out)\<close> says where the positions \<open>s..<e\<close> stand in the list.\<close>

theorem coalesced_spans_cover:
  "expand_spans (coalesce_sorted_positions ps) = ps \<and>
   spans_maximal (coalesce_sorted_positions ps) \<and>
   (\<forall>(s, e, out_pos) \<in> set (coalesce_sorted_positions ps).
      0 \<le> out_pos \<and> s < e \<and> py_slice ps out_pos (out_pos + (e - s)) = py_range s e)"
proof -
  let ?spans = "coalesce_sorted_positions ps"
  have "0 \<le> out_pos \<and> s < e \<and> py_slice ps out_pos (out_pos + (e - s)) = py_range s e"
    if m: "(s, e, out_pos) \<in> set ?spans" for s e out_pos
  proof -
    from m obtain i where i: "i < length ?spans" "?spans ! i = (s, e, out_pos)"
      by (auto simp: in_set_conv_nth)
    let ?pre = "expand_spans (take i ?spans)"
    have wf: "s < e" "out_pos = int (length ?pre)"
      using spans_wf_nth [OF coalesce_wf i] by simp_all
    have "ps = expand_spans (take i ?spans @ ?spans ! i # drop (Suc i) ?spans)"
      using i(1) by (simp add: id_take_nth_drop [symmetric] expand_coalesce)
    then have "ps = ?pre @ py_range s e @ expand_spans (drop (Suc i) ?spans)"
      by (simp add: i(2) expand_spans_def)
    moreover have "py_slice (?pre @ py_range s e @ expand_spans (drop (Suc i) ?spans))
        out_pos (out_pos + (e - s)) = py_range s e"
      using wf by (intro py_slice_middle) simp_all
    ultimately show ?thesis using wf by simp
  qed
  then show ?thesis using expand_coalesce coalesce_maximal by auto
qed

theorem coalesced_spans_cover_witness:
  "coalesce_sorted_positions [0, 1, 2, 4, 6, 7] = [(0, 3, 0), (4, 5, 3), (6, 8, 4)] \<and>
   py_slice [0, 1, 2, 4, 6, 7] 4 6 = py_range 6 8"
proof -
  have s: "coalesce_sorted_positions [0, 1, 2, 4, 6, 7] = [(0, 3, 0), (4, 5, 3), (6, 8, 4)]"
    by (simp add: coalesce_sorted_positions_def)
  with coalesced_spans_cover [of "[0, 1, 2, 4, 6, 7]"] show ?thesis by simp
qed

end
