(* ===== verification/BlendInfo.thy ===== *)
theory BlendInfo
  imports Floats ContextPool
begin

text \<open>
  The enumerations and the per-batch record of \<open>srt/utils/cache_blender_info.py\<close>:
  \<open>BlendStyle\<close> with its parser, \<open>SelectMode\<close>, \<open>AttParams\<close> and \<open>BatchBlendInfo\<close> with
  its class defaults. 1-D integer tensors are lists of integers; the fields the forward pass adds to
  the object at run time are the record extension \<open>blend_rt\<close>.
\<close>

section \<open>Enumerations\<close>

datatype blend_style = KVCOMPUTE | QCOMPUTE | DO_BLEND | DO_BLEND_FINISH

text \<open>What a caller may pass where a style is expected.\<close>

datatype style_arg = ArgNone | ArgStyle blend_style | ArgStr string | ArgOther

definition ascii_upper :: "string \<Rightarrow> string" where
  "ascii_upper s =
     map (\<lambda>c. let n = of_char c :: nat in if 97 \<le> n \<and> n \<le> 122 then char_of (n - 32) else c) s"

definition blend_style_members :: "(string \<times> blend_style) list" where
  "blend_style_members =
     [(''KVCOMPUTE'', KVCOMPUTE), (''QCOMPUTE'', QCOMPUTE), (''DO_BLEND'', DO_BLEND),
      (''DO_BLEND_FINISH'', DO_BLEND_FINISH)]"

fun parse_blend_style :: "style_arg \<Rightarrow> blend_style option" where
  "parse_blend_style ArgNone = None"
| "parse_blend_style (ArgStyle s) = Some s"
| "parse_blend_style (ArgStr s) = map_of blend_style_members (ascii_upper s)"
| "parse_blend_style ArgOther = None"

text \<open>The select modes; \<open>SelectMode(x)\<close> raises on any other value.\<close>

datatype select_mode = ATTN

definition parse_select_mode :: "string \<Rightarrow> select_mode res" where
  "parse_select_mode s = (if s = ''attn'' then Inr ATTN else Inl (ValueError ''SelectMode''))"

section \<open>Records\<close>

record att_params =
  ap_num_heads :: int
  ap_num_kv_heads :: int
  ap_head_dim :: int
  ap_num_layers :: int

record blend_info =
  bi_style :: "blend_style option"
  bi_select_mode :: select_mode
  bi_ratio :: f64
  bi_att_params :: "att_params option"
  bi_start :: int
  bi_attn_start :: "int option"
  bi_attn_end :: "int option"
  bi_chunk_lens :: "int list"
  bi_chunk_loc_list :: "int list"
  bi_req_len_list :: "int list"
  bi_top_indices :: "int list option"
  bi_top_lens :: "int list option"
  bi_quest_indices :: "int list option"
  bi_query_indices :: "int list option"
  bi_positions :: "int list option"
  bi_init_attmeta :: bool
  bi_is_contextblend :: bool
  bi_context_cache_source :: string
  bi_context_n_sink :: int
  bi_digest_index_method :: string
  bi_digest_ratio :: "f64 option"
  bi_critical_layers :: "int list option"
  bi_critical_layers_set :: "int list option"
  bi_qcompute_end :: "int option"
  bi_keep_indices :: "int list option"
  bi_original_chunk_loc_list :: "int list option"
  bi_aug_sys_range :: "(int \<times> int) option"
  bi_aug_doc_ranges :: "(int \<times> int) list option"
  bi_aug_zip_ranges :: "(int \<times> int) list option"
  bi_keep_layers_set :: "int list option"

text \<open>A new \<open>BatchBlendInfo()\<close>: the class attributes. The three tensors that start as \<open>None\<close>
  and are always set before use start as empty lists.\<close>

definition new_blend_info :: blend_info where
  "new_blend_info =
     \<lparr>bi_style = None, bi_select_mode = ATTN, bi_ratio = f64_lit (3 / 10), bi_att_params = None,
      bi_start = 0, bi_attn_start = Some 0, bi_attn_end = Some (- 1), bi_chunk_lens = [],
      bi_chunk_loc_list = [], bi_req_len_list = [], bi_top_indices = None, bi_top_lens = None,
      bi_quest_indices = None, bi_query_indices = None, bi_positions = None,
      bi_init_attmeta = False, bi_is_contextblend = False, bi_context_cache_source = ''query'',
      bi_context_n_sink = 4, bi_digest_index_method = ''kvzip'',
      bi_digest_ratio = Some DEFAULT_DIGEST_RATIO, bi_critical_layers = None,
      bi_critical_layers_set = None, bi_qcompute_end = None, bi_keep_indices = None,
      bi_original_chunk_loc_list = None, bi_aug_sys_range = None, bi_aug_doc_ranges = None,
      bi_aug_zip_ranges = None, bi_keep_layers_set = None\<rparr>"

text \<open>Whether layer \<open>layer_id\<close> of this batch records its queries: only in QCOMPUTE, in the
  critical layers when there are any, else in the attention window (open above when its end is
  absent or negative).\<close>

definition should_collect_q :: "blend_info \<Rightarrow> int \<Rightarrow> bool" where
  "should_collect_q bi layer_id =
     (if bi_style bi \<noteq> Some QCOMPUTE then False
      else if (case bi_critical_layers_set bi of None \<Rightarrow> False | Some s \<Rightarrow> s \<noteq> [])
      then layer_id \<in> set (the (bi_critical_layers_set bi))
      else
        (let attn_start = (case bi_attn_start bi of None \<Rightarrow> 0 | Some a \<Rightarrow> a)
         in case bi_attn_end bi of
              None \<Rightarrow> attn_start \<le> layer_id
            | Some attn_end \<Rightarrow>
                if attn_end < 0 then attn_start \<le> layer_id
                else attn_start \<le> layer_id \<and> layer_id < attn_end))"

lemma parse_blend_style_str:
  "parse_blend_style (ArgStr s) = Some st \<longleftrightarrow> (ascii_upper s, st) \<in> set blend_style_members"
  by (auto simp: blend_style_members_def)

end
