(* ===== verification/Tensor.thy ===== *)
theory Tensor
  imports Prelude
begin

text \<open>
  The tensors the pools and the SSD files hold, as the data a contiguous \<open>torch.Tensor\<close> is: an
  element type, a shape and the bytes in row-major order. The operations are the ones the modelled
  code applies to them: \<open>index_select(0, idx)\<close>, \<open>torch.cat([a, b], dim=0)\<close>, the byte view
  \<open>view(torch.uint8).reshape(-1)\<close>, and the dtype names of \<open>srt/utils/kv_ssd_manager.py\<close>.
  What a device computes on the elements (attention, rotary embedding) is not here.
\<close>

type_synonym byte = "8 word"

section \<open>Element types\<close>

text \<open>\<open>Other_dtype name n\<close> stands for the torch dtypes the packed format does not support
  (complex, float8 and so on), of element size \<open>n\<close>.\<close>

datatype dtype =
    Bool | Uint8 | Int8 | Int16 | Int32 | Int64 | Float16 | Bfloat16 | Float32 | Float64
  | Uint16 | Uint32 | Uint64 | Other_dtype string nat

fun element_size :: "dtype \<Rightarrow> nat" where
  "element_size Bool = 1"
| "element_size Uint8 = 1"
| "element_size Int8 = 1"
| "element_size Int16 = 2"
| "element_size Int32 = 4"
| "element_size Int64 = 8"
| "element_size Float16 = 2"
| "element_size Bfloat16 = 2"
| "element_size Float32 = 4"
| "element_size Float64 = 8"
| "element_size Uint16 = 2"
| "element_size Uint32 = 4"
| "element_size Uint64 = 8"
| "element_size (Other_dtype _ n) = n"

text \<open>\<open>_PACKED_DTYPE_MAP\<close>, with the three unsigned types that PyTorch has since 2.3.\<close>

definition packed_dtype_map :: "(string \<times> dtype) list" where
  "packed_dtype_map =
     [(''BOOL'', Bool), (''U8'', Uint8), (''I8'', Int8), (''I16'', Int16), (''I32'', Int32),
      (''I64'', Int64), (''F16'', Float16), (''BF16'', Bfloat16), (''F32'', Float32),
      (''F64'', Float64), (''U16'', Uint16), (''U32'', Uint32), (''U64'', Uint64)]"

definition packed_dtype_names :: "(dtype \<times> string) list" where
  "packed_dtype_names = map (\<lambda>(k, v). (v, k)) packed_dtype_map"

definition dtype_to_packed_name :: "dtype \<Rightarrow> string res" where
  "dtype_to_packed_name d =
     (case map_of packed_dtype_names d of
        None \<Rightarrow> Inl (ValueError ''Unsupported packed KV dtype'')
      | Some name \<Rightarrow> Inr name)"

lemma packed_dtype_map_distinct: "distinct (map fst packed_dtype_map)"
  by code_simp

lemma packed_names_roundtrip:
  assumes "dtype_to_packed_name d = Inr name"
  shows "map_of packed_dtype_map name = Some d"
proof -
  have "(d, name) \<in> set packed_dtype_names"
    using assms by (auto simp: dtype_to_packed_name_def dest: map_of_SomeD split: option.splits)
  then have "(name, d) \<in> set packed_dtype_map" by (auto simp: packed_dtype_names_def)
  with packed_dtype_map_distinct show ?thesis by (rule map_of_is_SomeI)
qed

lemma dtype_to_packed_name_ok_iff:
  "(\<exists>name. dtype_to_packed_name d = Inr name) \<longleftrightarrow> (\<forall>s n. d \<noteq> Other_dtype s n)"
  by (cases d) (simp_all add: dtype_to_packed_name_def packed_dtype_names_def packed_dtype_map_def)

section \<open>Shapes\<close>

fun shape_numel_loop :: "int \<Rightarrow> int list \<Rightarrow> int" where
  "shape_numel_loop numel [] = numel"
| "shape_numel_loop numel (dim # dims) = shape_numel_loop (numel * dim) dims"

definition shape_numel :: "int list \<Rightarrow> int" where
  "shape_numel shape = shape_numel_loop 1 shape"

lemma shape_numel_loop: "shape_numel_loop n ds = n * prod_list ds"
  by (induction n ds rule: shape_numel_loop.induct) (auto simp: algebra_simps)

lemma shape_numel_prod: "shape_numel ds = prod_list ds"
  by (simp add: shape_numel_def shape_numel_loop)

lemma shape_numel_simps [simp]: "shape_numel [] = 1" "shape_numel (d # ds) = d * shape_numel ds"
  by (simp_all add: shape_numel_prod)

lemma shape_numel_nonneg: "\<forall>d \<in> set ds. 0 \<le> d \<Longrightarrow> 0 \<le> shape_numel ds"
  by (induction ds) auto

definition tensor_nbytes :: "int list \<Rightarrow> dtype \<Rightarrow> int" where
  "tensor_nbytes shape d = shape_numel shape * int (element_size d)"

lemma tensor_nbytes_nonneg: "\<forall>d \<in> set shape. 0 \<le> d \<Longrightarrow> 0 \<le> tensor_nbytes shape d'"
  by (simp add: tensor_nbytes_def shape_numel_nonneg)

section \<open>Tensors\<close>

record tensor =
  t_dtype :: dtype
  t_shape :: "int list"
  t_data :: "byte list"

definition tensor_wf :: "tensor \<Rightarrow> bool" where
  "tensor_wf t \<longleftrightarrow>
     (\<forall>d \<in> set (t_shape t). 0 \<le> d) \<and> int (length (t_data t)) = tensor_nbytes (t_shape t) (t_dtype t)"

definition t_numel :: "tensor \<Rightarrow> int" where
  "t_numel t = shape_numel (t_shape t)"

definition row_nbytes :: "tensor \<Rightarrow> nat" where
  "row_nbytes t = nat (tensor_nbytes (tl (t_shape t)) (t_dtype t))"

definition t_row :: "tensor \<Rightarrow> int \<Rightarrow> byte list" where
  "t_row t i = take (row_nbytes t) (drop (nat i * row_nbytes t) (t_data t))"

text \<open>\<open>index_select(0, idx)\<close>: the rows named by \<open>idx\<close>, an error when one is out of range.\<close>

definition index_select :: "tensor \<Rightarrow> int list \<Rightarrow> tensor res" where
  "index_select t idx =
     (if t_shape t = [] \<or> (\<exists>i \<in> set idx. i < 0 \<or> hd (t_shape t) \<le> i) then Inl IndexError
      else Inr \<lparr>t_dtype = t_dtype t, t_shape = int (length idx) # tl (t_shape t),
                t_data = concat (map (t_row t) idx)\<rparr>)"

text \<open>\<open>torch.cat([a, b], dim=0)\<close> of tensors of one dtype, as the K and V tensors it joins
  are; shapes that differ after the first dimension raise. Other dtypes, which torch would promote, are
  not covered: the model raises there.\<close>

definition cat0 :: "tensor \<Rightarrow> tensor \<Rightarrow> tensor res" where
  "cat0 a b =
     (if t_shape a = [] \<or> t_shape b = [] \<or> t_dtype a \<noteq> t_dtype b \<or> tl (t_shape a) \<noteq> tl (t_shape b)
      then Inl (RuntimeError ''cat'')
      else Inr \<lparr>t_dtype = t_dtype a, t_shape = (hd (t_shape a) + hd (t_shape b)) # tl (t_shape a),
                t_data = t_data a @ t_data b\<rparr>)"

lemma tensor_wf_length:
  assumes "tensor_wf t" "t_shape t = n # ds"
  shows "length (t_data t) = nat n * row_nbytes t"
proof -
  have "0 \<le> n" "0 \<le> tensor_nbytes ds (t_dtype t)"
    using assms by (auto simp: tensor_wf_def intro: tensor_nbytes_nonneg)
  moreover have "int (length (t_data t)) = n * tensor_nbytes ds (t_dtype t)"
    using assms by (simp add: tensor_wf_def tensor_nbytes_def)
  ultimately show ?thesis
    using assms(2) nat_mult_distrib [of n "tensor_nbytes ds (t_dtype t)"]
      nat_int [of "length (t_data t)"]
    by (simp add: row_nbytes_def)
qed

lemma length_t_row:
  assumes "tensor_wf t" "t_shape t = n # ds" "0 \<le> i" "i < n"
  shows "length (t_row t i) = row_nbytes t"
proof -
  have "(nat i + 1) * row_nbytes t \<le> nat n * row_nbytes t"
    using assms by (intro mult_right_mono) auto
  then show ?thesis
    using tensor_wf_length [OF assms(1,2)] by (simp add: t_row_def)
qed

lemma index_select_wf:
  assumes wf: "tensor_wf t" and sel: "index_select t idx = Inr t'"
  shows "tensor_wf t'" and "t_shape t' = int (length idx) # tl (t_shape t)"
    and "t_dtype t' = t_dtype t"
proof -
  have ne: "t_shape t \<noteq> []" and rng: "\<forall>i \<in> set idx. 0 \<le> i \<and> i < hd (t_shape t)"
    and t': "t' = \<lparr>t_dtype = t_dtype t, t_shape = int (length idx) # tl (t_shape t),
                t_data = concat (map (t_row t) idx)\<rparr>"
    using sel by (auto simp: index_select_def not_less not_le split: if_splits)
  obtain n ds where sh: "t_shape t = n # ds" using ne by (cases "t_shape t") auto
  have "length (concat (map (t_row t) idx)) = length idx * row_nbytes t"
    using rng length_t_row [OF wf sh] sh by (induction idx) auto
  moreover have "0 \<le> tensor_nbytes ds (t_dtype t)"
    using wf sh by (auto simp: tensor_wf_def intro: tensor_nbytes_nonneg)
  ultimately show "tensor_wf t'"
    using wf sh by (simp add: t' tensor_wf_def tensor_nbytes_def row_nbytes_def algebra_simps)
  show "t_shape t' = int (length idx) # tl (t_shape t)" "t_dtype t' = t_dtype t"
    by (simp_all add: t')
qed

lemma index_select_ok_iff:
  "(\<exists>t'. index_select t idx = Inr t') \<longleftrightarrow>
     t_shape t \<noteq> [] \<and> (\<forall>i \<in> set idx. 0 \<le> i \<and> i < hd (t_shape t))"
  by (auto simp: index_select_def not_less not_le)

lemma cat0_wf: "tensor_wf a \<Longrightarrow> tensor_wf b \<Longrightarrow> cat0 a b = Inr c \<Longrightarrow> tensor_wf c"
  by (cases "t_shape a"; cases "t_shape b")
    (auto simp: cat0_def tensor_wf_def tensor_nbytes_def algebra_simps split: if_splits)

text \<open>The rows of a concatenation are the rows of the parts.\<close>

lemma cat0_row:
  assumes wf: "tensor_wf a" "tensor_wf b" and c: "cat0 a b = Inr c"
    and sh: "t_shape a = n # ds" "t_shape b = m # ds" and i: "0 \<le> i" "i < n + m"
  shows "t_row c i = (if i < n then t_row a i else t_row b (i - n))"
proof -
  have c': "t_data c = t_data a @ t_data b" "row_nbytes c = row_nbytes a" "row_nbytes b = row_nbytes a"
    using c sh by (auto simp: cat0_def row_nbytes_def split: if_splits)
  have n: "0 \<le> n" using wf(1) sh by (simp add: tensor_wf_def)
  have la: "length (t_data a) = nat n * row_nbytes a" by (rule tensor_wf_length [OF wf(1) sh(1)])
  show ?thesis
  proof (cases "i < n")
    case True
    then have "(nat i + 1) * row_nbytes a \<le> nat n * row_nbytes a"
      using i by (intro mult_right_mono) auto
    with True show ?thesis by (simp add: t_row_def c' la)
  next
    case False
    then have "nat n * row_nbytes a \<le> nat i * row_nbytes a"
      using i by (intro mult_right_mono) auto
    moreover have "nat i * row_nbytes a - nat n * row_nbytes a = nat (i - n) * row_nbytes a"
      using False n by (simp add: nat_diff_distrib diff_mult_distrib)
    ultimately show ?thesis using False by (simp add: t_row_def c' la)
  qed
qed

end
