(* ===== verification/KVPool.thy ===== *)
theory KVPool
  imports Tensor ContextPool
begin

text \<open>
  \<open>HackBlendKVPool\<close> of \<open>srt/utils/cache_blender_info.py\<close>: the per-layer K, V, query and
  query-K tensors of the request being blended. The class attributes are the fields of
  \<open>kv_pool\<close>. A locale states what the loaders need of a per-layer store (storing a layer makes it
  readable and changes no other layer); both pools provide it.
\<close>

section \<open>State and operations\<close>

record kv_pool =
  k_buffer :: "tensor option list"
  v_buffer :: "tensor option list"
  q_buffer :: "tensor option list"
  query_k_buffer :: "tensor option list"
  q_lens :: "int list"
  q_offsets :: "int list"
  query_k_lens :: "int list"

definition pool_clear :: kv_pool where
  "pool_clear =
     \<lparr>k_buffer = [], v_buffer = [], q_buffer = [], query_k_buffer = [], q_lens = [],
      q_offsets = [], query_k_lens = []\<rparr>"

definition pool_init_buffers :: "int \<Rightarrow> kv_pool" where
  "pool_init_buffers num_layers =
     \<lparr>k_buffer = replicate (nat num_layers) None, v_buffer = replicate (nat num_layers) None,
      q_buffer = [], query_k_buffer = [], q_lens = [], q_offsets = [], query_k_lens = []\<rparr>"

definition has_kv :: "kv_pool \<Rightarrow> int \<Rightarrow> bool res" where
  "has_kv p layer_id =
     (if layer_id < int (length (k_buffer p))
      then rbind (py_get (k_buffer p) layer_id)
        (\<lambda>k. Inr (case k of None \<Rightarrow> False | Some t \<Rightarrow> 0 < t_numel t))
      else Inr False)"

definition clear_layer :: "int \<Rightarrow> kv_pool \<Rightarrow> kv_pool res" where
  "clear_layer layer_id p =
     (if layer_id < int (length (k_buffer p))
      then rbind (py_set (k_buffer p) layer_id None) (\<lambda>ks.
           rbind (py_set (v_buffer p) layer_id None) (\<lambda>vs.
           Inr (p\<lparr>k_buffer := ks, v_buffer := vs\<rparr>)))
      else Inr p)"

text \<open>The loop of \<open>compact_kv\<close>; the index tensor it caches per device is the same list.\<close>

fun compact_loop ::
    "int list \<Rightarrow> tensor option list \<Rightarrow> tensor option list
     \<Rightarrow> (tensor option list \<times> tensor option list) res" where
  "compact_loop idx (k # ks) (v # vs) =
     (case (k, v) of
        (Some k_tensor, Some v_tensor) \<Rightarrow>
          rbind (index_select k_tensor idx) (\<lambda>k'.
          rbind (index_select v_tensor idx) (\<lambda>v'.
          rbind (compact_loop idx ks vs) (\<lambda>(ks', vs'). Inr (Some k' # ks', Some v' # vs'))))
      | _ \<Rightarrow> rbind (compact_loop idx ks vs) (\<lambda>(ks', vs'). Inr (k # ks', v # vs')))"
| "compact_loop idx ks vs = Inr (ks, vs)"

definition compact_kv :: "int list option \<Rightarrow> kv_pool \<Rightarrow> kv_pool res" where
  "compact_kv token_indices p =
     (case token_indices of
        None \<Rightarrow> Inr p
      | Some idx \<Rightarrow>
          rbind (compact_loop idx (k_buffer p) (v_buffer p))
            (\<lambda>(ks, vs). Inr (p\<lparr>k_buffer := ks, v_buffer := vs\<rparr>)))"

text \<open>\<open>while len(buf) <= layer_id: buf.append(None)\<close>\<close>

definition pad_to :: "'a option list \<Rightarrow> nat \<Rightarrow> int \<Rightarrow> 'a option list" where
  "pad_to buf len layer_id = buf @ replicate (nat (layer_id + 1) - len) None"

text \<open>Store \<open>t\<close> at a layer: the tensor itself when the slot is empty, else concatenated.\<close>

definition append_slot :: "tensor option list \<Rightarrow> int \<Rightarrow> tensor \<Rightarrow> tensor option list res" where
  "append_slot buf layer_id t =
     rbind (py_get buf layer_id) (\<lambda>old.
       case old of
         None \<Rightarrow> py_set buf layer_id (Some t)
       | Some o_t \<Rightarrow> rbind (cat0 o_t t) (\<lambda>c. py_set buf layer_id (Some c)))"

definition put_kv :: "tensor \<Rightarrow> tensor \<Rightarrow> int \<Rightarrow> kv_pool \<Rightarrow> kv_pool res" where
  "put_kv k v layer_id p =
     (let n = length (k_buffer p);
          ks = pad_to (k_buffer p) n layer_id;
          vs = pad_to (v_buffer p) n layer_id
      in rbind (append_slot ks layer_id k) (\<lambda>ks'.
         rbind (append_slot vs layer_id v) (\<lambda>vs'.
         Inr (p\<lparr>k_buffer := ks', v_buffer := vs'\<rparr>))))"

definition get_kv :: "kv_pool \<Rightarrow> int \<Rightarrow> (tensor option \<times> tensor option) res" where
  "get_kv p layer_id =
     rbind (py_get (k_buffer p) layer_id) (\<lambda>k.
     rbind (py_get (v_buffer p) layer_id) (\<lambda>v. Inr (k, v)))"

definition get_all_kv :: "kv_pool \<Rightarrow> int \<Rightarrow> int \<Rightarrow> tensor option list \<times> tensor option list" where
  "get_all_kv p start stop = (py_slice (k_buffer p) start stop, py_slice (v_buffer p) start stop)"

definition get_kv_layers ::
    "kv_pool \<Rightarrow> int list \<Rightarrow> (tensor option list \<times> tensor option list) res" where
  "get_kv_layers p layer_ids =
     rbind (rmap (py_get (k_buffer p)) layer_ids) (\<lambda>ks.
     rbind (rmap (py_get (v_buffer p)) layer_ids) (\<lambda>vs. Inr (ks, vs)))"

definition put_q :: "tensor \<Rightarrow> int \<Rightarrow> kv_pool \<Rightarrow> kv_pool res" where
  "put_q q layer_id p =
     rbind (append_slot (pad_to (q_buffer p) (length (q_buffer p)) layer_id) layer_id q)
       (\<lambda>qs. Inr (p\<lparr>q_buffer := qs\<rparr>))"

definition get_q :: "kv_pool \<Rightarrow> int \<Rightarrow> tensor option res" where
  "get_q p layer_id = py_get (q_buffer p) layer_id"

definition get_all_q :: "kv_pool \<Rightarrow> int \<Rightarrow> int \<Rightarrow> tensor option list" where
  "get_all_q p start stop = py_slice (q_buffer p) start stop"

definition get_q_layers :: "kv_pool \<Rightarrow> int list \<Rightarrow> tensor option list res" where
  "get_q_layers p layer_ids = rmap (py_get (q_buffer p)) layer_ids"

definition put_query_k :: "tensor \<Rightarrow> int \<Rightarrow> kv_pool \<Rightarrow> kv_pool res" where
  "put_query_k k layer_id p =
     rbind (append_slot (pad_to (query_k_buffer p) (length (query_k_buffer p)) layer_id) layer_id k)
       (\<lambda>ks. Inr (p\<lparr>query_k_buffer := ks\<rparr>))"

definition get_query_k :: "kv_pool \<Rightarrow> int \<Rightarrow> tensor option res" where
  "get_query_k p layer_id = py_get (query_k_buffer p) layer_id"

definition get_all_query_k :: "kv_pool \<Rightarrow> int \<Rightarrow> int \<Rightarrow> tensor option list" where
  "get_all_query_k p start stop = py_slice (query_k_buffer p) start stop"

definition get_query_k_layers :: "kv_pool \<Rightarrow> int list \<Rightarrow> tensor option list res" where
  "get_query_k_layers p layer_ids = rmap (py_get (query_k_buffer p)) layer_ids"

text \<open>The assignment \<open>pool.k_buffer[l] = k; pool.v_buffer[l] = v\<close> the loaders perform on
  either pool.\<close>

definition pool_store :: "kv_pool \<Rightarrow> int \<Rightarrow> tensor \<times> tensor \<Rightarrow> kv_pool res" where
  "pool_store p layer_id kv =
     rbind (py_set (k_buffer p) layer_id (Some (fst kv))) (\<lambda>ks.
     rbind (py_set (v_buffer p) layer_id (Some (snd kv))) (\<lambda>vs.
     Inr (p\<lparr>k_buffer := ks, v_buffer := vs\<rparr>)))"

definition ctx_store :: "tensor ctx_pool \<Rightarrow> int \<Rightarrow> tensor \<times> tensor \<Rightarrow> tensor ctx_pool res" where
  "ctx_store p layer_id kv =
     rbind (py_set (ctx_k_buffer p) layer_id (Some (fst kv))) (\<lambda>ks.
     rbind (py_set (ctx_v_buffer p) layer_id (Some (snd kv))) (\<lambda>vs.
     Inr (p\<lparr>ctx_k_buffer := ks, ctx_v_buffer := vs\<rparr>)))"

section \<open>The interface the loaders use\<close>

text \<open>Storing a list of loaded layers one by one, as the loaders do.\<close>

fun store_all :: "('s \<Rightarrow> int \<Rightarrow> 'kv \<Rightarrow> 's res) \<Rightarrow> (int \<times> 'kv) list \<Rightarrow> 's \<Rightarrow> 's res" where
  "store_all store [] s = Inr s"
| "store_all store ((l, kv) # rest) s = rbind (store s l kv) (store_all store rest)"

locale layer_store =
  fixes store :: "'s \<Rightarrow> int \<Rightarrow> tensor \<times> tensor \<Rightarrow> 's res"
    and fetch :: "'s \<Rightarrow> int \<Rightarrow> (tensor option \<times> tensor option) res"
    and holds :: "'s \<Rightarrow> int \<Rightarrow> bool"
  assumes store_ok: "holds s l \<Longrightarrow> \<exists>s'. store s l kv = Inr s'"
    and fetch_same: "holds s l \<Longrightarrow> store s l kv = Inr s' \<Longrightarrow> fetch s' l = Inr (Some (fst kv), Some (snd kv))"
    and fetch_other: "holds s l \<Longrightarrow> holds s l' \<Longrightarrow> l' \<noteq> l \<Longrightarrow> store s l kv = Inr s' \<Longrightarrow> fetch s' l' = fetch s l'"
    and holds_store: "store s l kv = Inr s' \<Longrightarrow> holds s' l' = holds s l'"
begin

lemma store_all_ok: "\<forall>(l, kv) \<in> set lkvs. holds s l \<Longrightarrow> \<exists>s'. store_all store lkvs s = Inr s'"
proof (induction lkvs arbitrary: s)
  case (Cons x lkvs)
  obtain l kv where x: "x = (l, kv)" by (cases x)
  with Cons.prems have "holds s l" by auto
  then obtain s1 where s1: "store s l kv = Inr s1" using store_ok by blast
  have "\<forall>(l', kv') \<in> set lkvs. holds s1 l'"
    using Cons.prems holds_store [OF s1] by auto
  with Cons.IH x s1 show ?case by auto
qed simp

lemma store_all_holds: "store_all store lkvs s = Inr s' \<Longrightarrow> holds s' l = holds s l"
proof (induction lkvs arbitrary: s)
  case (Cons x lkvs)
  obtain l1 kv1 where x: "x = (l1, kv1)" by (cases x)
  with Cons.prems obtain s1 where s1: "store s l1 kv1 = Inr s1" "store_all store lkvs s1 = Inr s'"
    by (auto simp: rbind_Inr_iff)
  then show ?case using Cons.IH [OF s1(2)] holds_store [OF s1(1)] by simp
qed simp

lemma store_all_other:
  "\<forall>(l', kv) \<in> set lkvs. holds s l' \<Longrightarrow> holds s l \<Longrightarrow> l \<notin> fst ` set lkvs \<Longrightarrow>
   store_all store lkvs s = Inr s' \<Longrightarrow> fetch s' l = fetch s l"
proof (induction lkvs arbitrary: s)
  case (Cons x lkvs)
  obtain l1 kv1 where x: "x = (l1, kv1)" by (cases x)
  with Cons.prems obtain s1 where s1: "store s l1 kv1 = Inr s1" "store_all store lkvs s1 = Inr s'"
    by (auto simp: rbind_Inr_iff)
  have "fetch s' l = fetch s1 l"
    using Cons.prems x s1 holds_store [OF s1(1)] by (intro Cons.IH) auto
  also have "fetch s1 l = fetch s l"
    using Cons.prems x s1 fetch_other [of s l1 l kv1 s1] by auto
  finally show ?case .
qed simp

lemma store_all_fetch:
  "\<forall>(l, kv) \<in> set lkvs. holds s l \<Longrightarrow> distinct (map fst lkvs) \<Longrightarrow>
   store_all store lkvs s = Inr s' \<Longrightarrow> (l, kv) \<in> set lkvs \<Longrightarrow>
   fetch s' l = Inr (Some (fst kv), Some (snd kv))"
proof (induction lkvs arbitrary: s)
  case (Cons x lkvs)
  obtain l1 kv1 where x: "x = (l1, kv1)" by (cases x)
  with Cons.prems obtain s1 where s1: "store s l1 kv1 = Inr s1" "store_all store lkvs s1 = Inr s'"
    by (auto simp: rbind_Inr_iff)
  have ok: "\<forall>(l, kv) \<in> set lkvs. holds s1 l"
    using Cons.prems holds_store [OF s1(1)] by auto
  show ?case
  proof (cases "(l, kv) = (l1, kv1)")
    case True
    have "l \<notin> fst ` set lkvs" using Cons.prems(2) x True by auto
    then have "fetch s' l = fetch s1 l"
      using Cons.prems x s1 ok True holds_store [OF s1(1)] by (intro store_all_other) auto
    with True show ?thesis using fetch_same [of s l1 kv1 s1] Cons.prems(1) x s1 by auto
  next
    case False
    with Cons.prems x s1 ok show ?thesis by (intro Cons.IH [of s1]) auto
  qed
qed simp

lemmas layer_store_facts = store_all_ok store_all_holds store_all_other store_all_fetch

end

definition pool_holds :: "kv_pool \<Rightarrow> int \<Rightarrow> bool" where
  "pool_holds p l \<longleftrightarrow> 0 \<le> l \<and> l < int (length (k_buffer p)) \<and> l < int (length (v_buffer p))"

definition ctx_holds :: "tensor ctx_pool \<Rightarrow> int \<Rightarrow> bool" where
  "ctx_holds p l \<longleftrightarrow> 0 \<le> l \<and> l < int (length (ctx_k_buffer p)) \<and> l < int (length (ctx_v_buffer p))"

lemma py_set_Inr_length: "py_set xs i v = Inr ys \<Longrightarrow> length ys = length xs"
  by (auto simp: py_set_def split: option.splits)

interpretation hack_store: layer_store pool_store get_kv pool_holds
proof unfold_locales
  fix s l kv
  show "pool_holds s l \<Longrightarrow> \<exists>s'. pool_store s l kv = Inr s'"
    by (simp add: pool_holds_def pool_store_def)
next
  fix s l kv s'
  show "pool_holds s l \<Longrightarrow> pool_store s l kv = Inr s' \<Longrightarrow> get_kv s' l = Inr (Some (fst kv), Some (snd kv))"
    by (auto simp: pool_holds_def pool_store_def get_kv_def)
next
  fix s l l' kv s'
  show "pool_holds s l \<Longrightarrow> pool_holds s l' \<Longrightarrow> l' \<noteq> l \<Longrightarrow> pool_store s l kv = Inr s' \<Longrightarrow> get_kv s' l' = get_kv s l'"
    by (auto simp: pool_holds_def pool_store_def get_kv_def nat_eq_iff)
next
  fix s l l' kv s'
  show "pool_store s l kv = Inr s' \<Longrightarrow> pool_holds s' l' = pool_holds s l'"
    by (auto simp: pool_holds_def pool_store_def rbind_Inr_iff dest: py_set_Inr_length)
qed

interpretation context_store: layer_store ctx_store ctx_get ctx_holds
proof unfold_locales
  fix s l kv
  show "ctx_holds s l \<Longrightarrow> \<exists>s'. ctx_store s l kv = Inr s'"
    by (simp add: ctx_holds_def ctx_store_def)
next
  fix s l kv s'
  show "ctx_holds s l \<Longrightarrow> ctx_store s l kv = Inr s' \<Longrightarrow> ctx_get s' l = Inr (Some (fst kv), Some (snd kv))"
    by (auto simp: ctx_holds_def ctx_store_def ctx_get_def)
next
  fix s l l' kv s'
  show "ctx_holds s l \<Longrightarrow> ctx_holds s l' \<Longrightarrow> l' \<noteq> l \<Longrightarrow> ctx_store s l kv = Inr s' \<Longrightarrow> ctx_get s' l' = ctx_get s l'"
    by (auto simp: ctx_holds_def ctx_store_def ctx_get_def nat_eq_iff)
next
  fix s l l' kv s'
  show "ctx_store s l kv = Inr s' \<Longrightarrow> ctx_holds s' l' = ctx_holds s l'"
    by (auto simp: ctx_holds_def ctx_store_def rbind_Inr_iff dest: py_set_Inr_length)
qed

section \<open>The pool as a map from layers to tensors\<close>

text \<open>What a buffer holds for each layer: \<open>None\<close> for an empty slot and for a layer past the
  end.\<close>

definition slots :: "'a option list \<Rightarrow> int \<Rightarrow> 'a option" where
  "slots buf l = (if 0 \<le> l \<and> l < int (length buf) then buf ! nat l else None)"

definition merge_slot :: "tensor option \<Rightarrow> tensor \<Rightarrow> tensor res" where
  "merge_slot old t = (case old of None \<Rightarrow> Inr t | Some o_t \<Rightarrow> cat0 o_t t)"

lemma slots_update:
  "0 \<le> l \<Longrightarrow> l < int (length buf) \<Longrightarrow> slots (buf[nat l := x]) = (slots buf)(l := x)"
  by (rule ext) (auto simp: slots_def nth_list_update nat_eq_iff)

lemma slots_pad [simp]: "slots (pad_to buf n l) = slots buf"
  by (rule ext) (auto simp: slots_def pad_to_def nth_append nat_less_iff)

lemma length_pad: "length (pad_to buf (length buf) l) = max (length buf) (nat (l + 1))"
  by (simp add: pad_to_def)

lemma length_pad_to: "length (pad_to buf n l) = length buf + (nat (l + 1) - n)"
  by (simp add: pad_to_def)

lemma append_slot_slots:
  assumes "0 \<le> l" "l < int (length buf)" "append_slot buf l t = Inr buf'"
  shows "\<exists>t'. merge_slot (slots buf l) t = Inr t' \<and> slots buf' = (slots buf)(l \<mapsto> t')
    \<and> length buf' = length buf"
  using assms
  by (auto simp: append_slot_def merge_slot_def slots_update slots_def rbind_Inr_iff
      split: option.splits)

lemma append_slot_ok:
  assumes "0 \<le> l" "l < int (length buf)" "merge_slot (slots buf l) t = Inr t'"
  shows "\<exists>buf'. append_slot buf l t = Inr buf'"
  using assms
  by (auto simp: append_slot_def merge_slot_def slots_def split: option.splits)

text \<open>The pool's invariant: K and V buffers of one length, every tensor well formed.\<close>

definition buffer_wf :: "tensor option list \<Rightarrow> bool" where
  "buffer_wf buf \<longleftrightarrow> (\<forall>t. Some t \<in> set buf \<longrightarrow> tensor_wf t)"

definition pool_wf :: "kv_pool \<Rightarrow> bool" where
  "pool_wf p \<longleftrightarrow> length (k_buffer p) = length (v_buffer p) \<and> buffer_wf (k_buffer p) \<and>
     buffer_wf (v_buffer p) \<and> buffer_wf (q_buffer p) \<and> buffer_wf (query_k_buffer p)"

lemma pool_wf_clear: "pool_wf pool_clear" and pool_wf_init: "pool_wf (pool_init_buffers n)"
  by (simp_all add: pool_wf_def pool_clear_def pool_init_buffers_def buffer_wf_def)

lemma buffer_wf_pad [simp]: "buffer_wf (pad_to buf n l) = buffer_wf buf"
  by (auto simp: buffer_wf_def pad_to_def)

lemma buffer_wf_update: "buffer_wf buf \<Longrightarrow> x = None \<or> tensor_wf (the x) \<Longrightarrow> buffer_wf (buf[j := x])"
  unfolding buffer_wf_def by (metis insert_iff option.distinct(1) option.sel set_update_subset_insert subsetD)

lemma set_none_wf: "py_set buf l None = Inr buf' \<Longrightarrow> buffer_wf buf \<Longrightarrow> buffer_wf buf'"
  by (auto simp: py_set_def buffer_wf_update split: option.splits)

lemma set_some_wf: "py_set buf l (Some t) = Inr buf' \<Longrightarrow> buffer_wf buf \<Longrightarrow> tensor_wf t \<Longrightarrow> buffer_wf buf'"
  by (auto simp: py_set_def buffer_wf_update split: option.splits)

lemma append_slot_wf:
  assumes "append_slot buf l t = Inr buf'" "buffer_wf buf" "tensor_wf t"
  shows "buffer_wf buf'"
proof -
  obtain old where old: "py_get buf l = Inr old" "case old of None \<Rightarrow> py_set buf l (Some t) = Inr buf'
      | Some o_t \<Rightarrow> (\<exists>c. cat0 o_t t = Inr c \<and> py_set buf l (Some c) = Inr buf')"
    using assms(1) by (auto simp: append_slot_def rbind_Inr_iff split: option.splits)
  show ?thesis
  proof (cases old)
    case None
    with old assms show ?thesis by (auto dest: set_some_wf)
  next
    case (Some o_t)
    then obtain c where c: "cat0 o_t t = Inr c" "py_set buf l (Some c) = Inr buf'" using old by auto
    have "tensor_wf o_t" using py_get_in_set [OF old(1)] Some assms(2) by (simp add: buffer_wf_def)
    from cat0_wf [OF this assms(3) c(1)] assms(2) show ?thesis by (intro set_some_wf [OF c(2)])
  qed
qed

lemma append_slot_length: "append_slot buf l t = Inr buf' \<Longrightarrow> length buf' = length buf"
  by (auto simp: append_slot_def rbind_Inr_iff dest: py_set_Inr_length split: option.splits)

lemma put_kv_wf:
  assumes "pool_wf p" "tensor_wf k" "tensor_wf v" "put_kv k v l p = Inr p'"
  shows "pool_wf p'"
proof -
  let ?n = "length (k_buffer p)"
  obtain ks vs where ks: "append_slot (pad_to (k_buffer p) ?n l) l k = Inr ks"
    and vs: "append_slot (pad_to (v_buffer p) ?n l) l v = Inr vs"
    and p': "p' = p\<lparr>k_buffer := ks, v_buffer := vs\<rparr>"
    using assms(4) by (auto simp: put_kv_def Let_def rbind_Inr_iff)
  show ?thesis
    using assms append_slot_wf [OF ks] append_slot_wf [OF vs] append_slot_length [OF ks]
      append_slot_length [OF vs] by (simp add: p' pool_wf_def length_pad_to)
qed

lemma put_q_wf: "pool_wf p \<Longrightarrow> tensor_wf q \<Longrightarrow> put_q q l p = Inr p' \<Longrightarrow> pool_wf p'"
  by (auto simp: put_q_def pool_wf_def rbind_Inr_iff dest: append_slot_wf)

lemma put_query_k_wf: "pool_wf p \<Longrightarrow> tensor_wf k \<Longrightarrow> put_query_k k l p = Inr p' \<Longrightarrow> pool_wf p'"
  by (auto simp: put_query_k_def pool_wf_def rbind_Inr_iff dest: append_slot_wf)

lemma clear_layer_wf:
  assumes "pool_wf p" "clear_layer l p = Inr p'"
  shows "pool_wf p'"
proof (cases "l < int (length (k_buffer p))")
  case True
  with assms(2) obtain ks vs where ks: "py_set (k_buffer p) l None = Inr ks"
    and vs: "py_set (v_buffer p) l None = Inr vs" and p': "p' = p\<lparr>k_buffer := ks, v_buffer := vs\<rparr>"
    by (auto simp: clear_layer_def rbind_Inr_iff)
  show ?thesis
    using assms(1) set_none_wf [OF ks] set_none_wf [OF vs] py_set_Inr_length [OF ks]
      py_set_Inr_length [OF vs] by (simp add: p' pool_wf_def)
qed (use assms in \<open>simp add: clear_layer_def\<close>)

lemma pool_store_wf:
  assumes "pool_wf p" "tensor_wf (fst kv)" "tensor_wf (snd kv)" "pool_store p l kv = Inr p'"
  shows "pool_wf p'"
proof -
  obtain ks vs where ks: "py_set (k_buffer p) l (Some (fst kv)) = Inr ks"
    and vs: "py_set (v_buffer p) l (Some (snd kv)) = Inr vs"
    and p': "p' = p\<lparr>k_buffer := ks, v_buffer := vs\<rparr>"
    using assms(4) by (auto simp: pool_store_def rbind_Inr_iff)
  show ?thesis
    using assms set_some_wf [OF ks] set_some_wf [OF vs] py_set_Inr_length [OF ks]
      py_set_Inr_length [OF vs] by (simp add: p' pool_wf_def)
qed

lemma buffer_wf_Cons [simp]:
  "buffer_wf (x # xs) \<longleftrightarrow> (case x of None \<Rightarrow> True | Some t \<Rightarrow> tensor_wf t) \<and> buffer_wf xs"
  by (auto simp: buffer_wf_def split: option.splits)

lemma compact_loop_wf:
  "compact_loop idx ks vs = Inr (ks', vs') \<Longrightarrow> buffer_wf ks \<Longrightarrow> buffer_wf vs \<Longrightarrow>
   buffer_wf ks' \<and> buffer_wf vs' \<and> length ks' = length ks \<and> length vs' = length vs"
proof (induction idx ks vs arbitrary: ks' vs' rule: compact_loop.induct)
  case (1 idx k ks v vs)
  show ?case
  proof (cases "k = None \<or> v = None")
    case True
    with "1.prems" obtain ks1 vs1 where r: "compact_loop idx ks vs = Inr (ks1, vs1)"
      "ks' = k # ks1" "vs' = v # vs1"
      by (auto simp: rbind_Inr_iff split: option.splits)
    have "buffer_wf ks1 \<and> buffer_wf vs1 \<and> length ks1 = length ks \<and> length vs1 = length vs"
      using True "1.IH" r(1) "1.prems"(2,3) by (cases k; cases v) auto
    with r "1.prems" show ?thesis by simp
  next
    case False
    then obtain kt vt where kv: "k = Some kt" "v = Some vt" by auto
    with "1.prems"(1) obtain k1 v1 ks1 vs1 where r: "index_select kt idx = Inr k1"
      "index_select vt idx = Inr v1" "compact_loop idx ks vs = Inr (ks1, vs1)"
      "ks' = Some k1 # ks1" "vs' = Some v1 # vs1"
      by (auto simp: rbind_Inr_iff)
    have "buffer_wf ks1 \<and> buffer_wf vs1 \<and> length ks1 = length ks \<and> length vs1 = length vs"
      using "1.IH" r(1-3) "1.prems"(2,3) kv by auto
    with r "1.prems" kv index_select_wf(1) [OF _ r(1)] index_select_wf(1) [OF _ r(2)]
    show ?thesis by simp
  qed
qed auto

lemma compact_kv_wf: "pool_wf p \<Longrightarrow> compact_kv idx p = Inr p' \<Longrightarrow> pool_wf p'"
  by (auto simp: compact_kv_def pool_wf_def rbind_Inr_iff dest: compact_loop_wf split: option.splits)

section \<open>Properties\<close>

text \<open>Recording K and V of a layer, seen as an update of the map from layers to tensors: the
  layer's entry becomes the new tensor or the old one with the new rows appended, no other layer and
  no other field changes, and the pool stays well formed.\<close>

theorem put_kv_refines_map_update:
  assumes "pool_wf p" "tensor_wf k" "tensor_wf v" "0 \<le> l" "put_kv k v l p = Inr p'"
  shows "\<exists>k' v'. merge_slot (slots (k_buffer p) l) k = Inr k' \<and>
      merge_slot (slots (v_buffer p) l) v = Inr v' \<and>
      slots (k_buffer p') = (slots (k_buffer p))(l \<mapsto> k') \<and>
      slots (v_buffer p') = (slots (v_buffer p))(l \<mapsto> v') \<and>
      q_buffer p' = q_buffer p \<and> query_k_buffer p' = query_k_buffer p \<and> pool_wf p'"
proof -
  have n: "length (v_buffer p) = length (k_buffer p)" using assms(1) by (simp add: pool_wf_def)
  obtain ks vs where ks: "append_slot (pad_to (k_buffer p) (length (k_buffer p)) l) l k = Inr ks"
    and vs: "append_slot (pad_to (v_buffer p) (length (v_buffer p)) l) l v = Inr vs"
    and p': "p' = p\<lparr>k_buffer := ks, v_buffer := vs\<rparr>"
    using assms(5) n by (auto simp: put_kv_def Let_def rbind_Inr_iff)
  have "l < int (length (pad_to (k_buffer p) (length (k_buffer p)) l))"
    "l < int (length (pad_to (v_buffer p) (length (v_buffer p)) l))"
    using assms(4) by (simp_all add: length_pad)
  then show ?thesis
    using append_slot_slots [OF assms(4) _ ks] append_slot_slots [OF assms(4) _ vs]
      put_kv_wf [OF assms(1-3,5)] by (auto simp: p')
qed

definition example_tensor :: "byte list \<Rightarrow> tensor" where
  "example_tensor bs = \<lparr>t_dtype = Uint8, t_shape = [int (length bs), 1], t_data = bs\<rparr>"

lemma example_tensor_wf: "tensor_wf (example_tensor bs)"
  by (simp add: example_tensor_def tensor_wf_def tensor_nbytes_def)

theorem put_kv_refines_map_update_witness:
  "\<exists>p' p''. put_kv (example_tensor [1]) (example_tensor [2]) 1 pool_clear = Inr p' \<and>
     put_kv (example_tensor [3, 4]) (example_tensor [5, 6]) 1 p' = Inr p'' \<and>
     slots (k_buffer p'') 1 = Some (example_tensor [1, 3, 4])"
proof -
  let ?p' = "pool_clear\<lparr>k_buffer := [None, Some (example_tensor [1])],
      v_buffer := [None, Some (example_tensor [2])]\<rparr>"
  let ?p'' = "pool_clear\<lparr>k_buffer := [None, Some (example_tensor [1, 3, 4])],
      v_buffer := [None, Some (example_tensor [2, 5, 6])]\<rparr>"
  have 1: "put_kv (example_tensor [1]) (example_tensor [2]) 1 pool_clear = Inr ?p'"
    by (simp add: put_kv_def pool_clear_def pad_to_def append_slot_def numeral_2_eq_2)
  have 2: "put_kv (example_tensor [3, 4]) (example_tensor [5, 6]) 1 ?p' = Inr ?p''"
    by (simp add: put_kv_def pool_clear_def pad_to_def append_slot_def example_tensor_def cat0_def)
  have wf: "pool_wf ?p'"
    using put_kv_refines_map_update [OF pool_wf_clear example_tensor_wf example_tensor_wf _ 1] by auto
  show ?thesis
    using put_kv_refines_map_update [OF wf example_tensor_wf example_tensor_wf _ 2] 1 2
    by (auto simp: slots_def)
qed

end
