(* ===== verification/Json.thy ===== *)
theory Json
  imports Floats
begin

text \<open>
  The JSON values that the metadata files of the SSD cache hold, with Python's dynamic checks on
  them (\<open>isinstance\<close>, \<open>dict.get\<close>, subscripting) and the decimal strings that
  \<open>str(layer_id)\<close> makes of the layer keys. Writing a value with \<open>json.dump\<close> and reading
  the file back with \<open>json.load\<close> is the identity on these values, so a metadata file is
  modelled by its value.
\<close>

datatype json =
    JNull
  | JBool bool
  | JInt int
  | JFloat f64
  | JStr string
  | JList "json list"
  | JObj "(string \<times> json) list"

text \<open>\<open>isinstance(x, int)\<close> holds of booleans too, and then \<open>x\<close> counts as 0 or 1.\<close>

fun as_int :: "json \<Rightarrow> int option" where
  "as_int (JInt i) = Some i"
| "as_int (JBool b) = Some (if b then 1 else 0)"
| "as_int _ = None"

fun as_list :: "json \<Rightarrow> json list option" where
  "as_list (JList xs) = Some xs"
| "as_list _ = None"

fun as_dict :: "json \<Rightarrow> (string \<times> json) list option" where
  "as_dict (JObj kvs) = Some kvs"
| "as_dict _ = None"

text \<open>\<open>d.get(key, default)\<close>, an \<open>AttributeError\<close> on anything but a dict.\<close>

definition json_get :: "json \<Rightarrow> string \<Rightarrow> json \<Rightarrow> json res" where
  "json_get j key dflt =
     (case as_dict j of
        None \<Rightarrow> Inl AttributeError
      | Some kvs \<Rightarrow> Inr (case map_of kvs key of None \<Rightarrow> dflt | Some v \<Rightarrow> v))"

text \<open>\<open>d[key]\<close> with a string key: \<open>KeyError\<close> when missing, \<open>TypeError\<close> when not a dict.\<close>

definition json_sub :: "json \<Rightarrow> string \<Rightarrow> json res" where
  "json_sub j key =
     (case as_dict j of
        None \<Rightarrow> Inl TypeError
      | Some kvs \<Rightarrow> (case map_of kvs key of None \<Rightarrow> Inl KeyError | Some v \<Rightarrow> Inr v))"

lemma json_get_JObj [simp]:
  "json_get (JObj kvs) key d = Inr (case map_of kvs key of None \<Rightarrow> d | Some v \<Rightarrow> v)"
  by (simp add: json_get_def)

lemma json_sub_JObj [simp]:
  "json_sub (JObj kvs) key = (case map_of kvs key of None \<Rightarrow> Inl KeyError | Some v \<Rightarrow> Inr v)"
  by (simp add: json_sub_def)

text \<open>\<open>d[key] = value\<close>: an existing key keeps its place, a new one goes to the end.\<close>

fun dict_set :: "string \<Rightarrow> 'v \<Rightarrow> (string \<times> 'v) list \<Rightarrow> (string \<times> 'v) list" where
  "dict_set key v [] = [(key, v)]"
| "dict_set key v ((k, w) # kvs) = (if k = key then (key, v) # kvs else (k, w) # dict_set key v kvs)"

lemma map_of_dict_set [simp]: "map_of (dict_set key v kvs) = (map_of kvs)(key \<mapsto> v)"
  by (induction kvs) auto

section \<open>str(n)\<close>

definition digit_char :: "nat \<Rightarrow> char" where
  "digit_char d = char_of (48 + d)"

fun nat_digits :: "nat \<Rightarrow> string" where
  "nat_digits n =
     (if n < 10 then [digit_char n] else nat_digits (n div 10) @ [digit_char (n mod 10)])"

declare nat_digits.simps [simp del]

definition py_str :: "int \<Rightarrow> string" where
  "py_str i = (if i < 0 then CHR ''-'' # nat_digits (nat (- i)) else nat_digits (nat i))"

fun digits_value :: "nat \<Rightarrow> string \<Rightarrow> nat" where
  "digits_value acc [] = acc"
| "digits_value acc (c # cs) = digits_value (10 * acc + (of_char c - 48)) cs"

lemma digits_value_append: "digits_value acc (xs @ ys) = digits_value (digits_value acc xs) ys"
  by (induction acc xs rule: digits_value.induct) auto

lemma digit_char_value: "d < 10 \<Longrightarrow> (of_char (digit_char d) :: nat) - 48 = d"
  by (simp add: digit_char_def of_char_of)

lemma digits_value_nat_digits: "digits_value 0 (nat_digits n) = n"
proof (induction n rule: nat_digits.induct)
  case (1 n)
  show ?case
  proof (cases "n < 10")
    case True
    then show ?thesis by (simp add: nat_digits.simps [of n] digit_char_value)
  next
    case False
    with 1 show ?thesis
      by (simp add: nat_digits.simps [of n] digits_value_append digit_char_value)
  qed
qed

lemma nat_digits_inj: "nat_digits m = nat_digits n \<Longrightarrow> m = n"
  by (metis digits_value_nat_digits)

lemma py_str_inj: "0 \<le> i \<Longrightarrow> 0 \<le> j \<Longrightarrow> py_str i = py_str j \<Longrightarrow> i = j"
  by (auto simp: py_str_def dest: nat_digits_inj)

end
