(* ===== verification/SepSplit.thy ===== *)
theory SepSplit
  imports BlendInfo
begin

text \<open>
  Splitting a prompt at its chunk separator (\<open>CacheBlender.split_tokens\<close> and
  \<open>split_text_tokens\<close> in \<open>src/srt/utils/cache_blender.py\<close>) and the branch of
  \<open>src/srt/managers/tokenizer_manager.py\<close> that chooses between the two.

  \<open>split_tokens\<close> is the vectorised routine: all windows that equal the separator, a keep mask,
  and a list of segment boundaries computed from the matches alone. \<open>split_text_tokens\<close> splits
  the text and tokenizes every part by itself; the tokenizer is a parameter. Python's
  \<open>str.split\<close> is \<open>py_split\<close>, for lists over any type, so it is also the reference the
  vectorised routine is compared with.
\<close>

section \<open>Python's split\<close>

definition prefix_at :: "'a list \<Rightarrow> 'a list \<Rightarrow> bool" where
  "prefix_at sep xs \<longleftrightarrow> take (length sep) xs = sep"

fun py_split_loop :: "'a list \<Rightarrow> 'a list \<Rightarrow> 'a list \<Rightarrow> 'a list list" where
  "py_split_loop sep acc [] = [rev acc]"
| "py_split_loop sep acc (c # s) =
     (if sep \<noteq> [] \<and> prefix_at sep (c # s)
      then rev acc # py_split_loop sep [] (drop (length sep - 1) s)
      else py_split_loop sep (c # acc) s)"

definition py_split :: "string \<Rightarrow> string \<Rightarrow> string list res" where
  "py_split s sep =
     (if sep = [] then Inl (ValueError ''empty separator'') else Inr (py_split_loop sep [] s))"

text \<open>\<open>s.replace(sep, "")\<close>: an empty separator changes nothing.\<close>

definition py_remove :: "string \<Rightarrow> string \<Rightarrow> string" where
  "py_remove s sep = (if sep = [] then s else concat (py_split_loop sep [] s))"

definition py_contains :: "string \<Rightarrow> string \<Rightarrow> bool" where
  "py_contains s sep = list_ex (\<lambda>i. prefix_at sep (drop i s)) [0..<Suc (length s)]"

section \<open>split_tokens\<close>

definition find_pattern_matches :: "int list \<Rightarrow> int list \<Rightarrow> int list" where
  "find_pattern_matches input_ids sep_token =
     (let sep_len = length sep_token; n = length input_ids
      in if n < sep_len then []
         else if sep_len = 1 then
           map int (filter (\<lambda>i. input_ids ! i = sep_token ! 0) [0..<n])
         else
           map int (filter (\<lambda>i. take sep_len (drop i input_ids) = sep_token) [0..<n - sep_len + 1]))"

definition clear_mask :: "nat \<Rightarrow> int \<Rightarrow> bool list \<Rightarrow> bool list" where
  "clear_mask sep_len match_idx bs =
     map (\<lambda>(i, b). if match_idx \<le> int i \<and> int i < match_idx + int sep_len then False else b)
       (zip [0..<length bs] bs)"

definition keep_mask :: "nat \<Rightarrow> nat \<Rightarrow> int list \<Rightarrow> bool list" where
  "keep_mask n sep_len matches = fold (clear_mask sep_len) matches (replicate n True)"

definition apply_mask :: "'a list \<Rightarrow> bool list \<Rightarrow> 'a list" where
  "apply_mask xs bs = map fst (filter snd (zip xs bs))"

fun blend_locs :: "int \<Rightarrow> int \<Rightarrow> int \<Rightarrow> int list \<Rightarrow> int list" where
  "blend_locs sep_len current_new_pos prev_end [] = [current_new_pos]"
| "blend_locs sep_len current_new_pos prev_end (match_idx # ms) =
     (let segment_len = match_idx - prev_end
      in current_new_pos # blend_locs sep_len (current_new_pos + segment_len) (match_idx + sep_len) ms)"

text \<open>The prompt after splitting: its text, its tokens and the chunk boundaries.\<close>

type_synonym split_prompt = "string option \<times> int list \<times> int list option"

definition split_tokens ::
    "string option \<Rightarrow> int list \<Rightarrow> string option \<Rightarrow> int list \<Rightarrow> split_prompt res" where
  "split_tokens input_text input_ids separator sep_token =
     (let sep_len = length sep_token; n = length input_ids
      in if sep_len = 0 \<or> n < sep_len then Inr (input_text, input_ids, None)
         else
           let matches = find_pattern_matches input_ids sep_token
           in if matches = [] then Inr (input_text, input_ids, Some [0, int n])
              else
                let new_input_ids = apply_mask input_ids (keep_mask n sep_len matches);
                    blend_loc_list = blend_locs (int sep_len) 0 0 matches @ [int (length new_input_ids)]
                in case (input_text, separator) of
                     (None, _) \<Rightarrow> Inr (None, new_input_ids, Some blend_loc_list)
                   | (Some text, Some sep) \<Rightarrow>
                       Inr (Some (py_remove text sep), new_input_ids, Some blend_loc_list)
                   | (Some text, None) \<Rightarrow> Inl TypeError)"

section \<open>split_text_tokens\<close>

text \<open>A tokenizer either has an \<open>encode\<close> method or is called and returns a mapping.\<close>

datatype tokenizer =
    HasEncode "string \<Rightarrow> int list"
  | CallOnly "string \<Rightarrow> (string \<times> int list) list"

fun tokenize_segment :: "tokenizer \<Rightarrow> string \<Rightarrow> int list res" where
  "tokenize_segment (HasEncode encode) text = Inr (encode text)"
| "tokenize_segment (CallOnly call) text =
     (case map_of (call text) ''input_ids'' of None \<Rightarrow> Inl KeyError | Some ids \<Rightarrow> Inr ids)"

fun split_text_loop ::
    "tokenizer \<Rightarrow> int list \<Rightarrow> int list \<Rightarrow> string list \<Rightarrow> (int list \<times> int list) res" where
  "split_text_loop tok input_ids blend_loc_list [] = Inr (input_ids, blend_loc_list)"
| "split_text_loop tok input_ids blend_loc_list (part # parts) =
     rbind (tokenize_segment tok part) (\<lambda>part_ids.
       let input_ids' = input_ids @ part_ids
       in split_text_loop tok input_ids' (blend_loc_list @ [int (length input_ids')]) parts)"

definition split_text_tokens ::
    "string \<Rightarrow> string \<Rightarrow> tokenizer \<Rightarrow> (string \<times> int list \<times> int list) res" where
  "split_text_tokens input_text separator tok =
     rbind (py_split input_text separator) (\<lambda>parts.
     rbind (split_text_loop tok [] [0] parts) (\<lambda>(input_ids, blend_loc_list).
       Inr (concat parts, input_ids, blend_loc_list)))"

section \<open>The branch of the tokenizer manager\<close>

definition blend_styles_with_sep :: "blend_style list" where
  "blend_styles_with_sep = [DO_BLEND, DO_BLEND_FINISH, KVCOMPUTE, QCOMPUTE]"

definition style_has_sep :: "style_arg \<Rightarrow> bool" where
  "style_has_sep a =
     (case parse_blend_style a of None \<Rightarrow> False | Some s \<Rightarrow> s \<in> set blend_styles_with_sep)"

text \<open>The part of a generate request the branch reads. \<open>mm_inputs\<close> and \<open>input_embeds\<close>
  are only compared with \<open>None\<close>.\<close>

record gen_request =
  gr_blend_style :: style_arg
  gr_separator :: "string option"
  gr_blend_sep_token :: "int list"
  gr_has_mm_inputs :: bool
  gr_has_input_embeds :: bool
  gr_input_text :: "string option"
  gr_input_ids :: "int list"

definition split_request :: "tokenizer option \<Rightarrow> gen_request \<Rightarrow> split_prompt res" where
  "split_request tok r =
     (if style_has_sep (gr_blend_style r) then
        (case (gr_input_text r, gr_separator r, tok) of
           (Some text, Some sep, Some t) \<Rightarrow>
             if \<not> gr_has_mm_inputs r \<and> \<not> gr_has_input_embeds r \<and> sep \<noteq> [] \<and> py_contains text sep
             then rbind (split_text_tokens text sep t)
                    (\<lambda>(text', ids, locs). Inr (Some text', ids, Some locs))
             else split_tokens (Some text) (gr_input_ids r) (Some sep) (gr_blend_sep_token r)
         | _ \<Rightarrow> split_tokens (gr_input_text r) (gr_input_ids r) (gr_separator r) (gr_blend_sep_token r))
      else Inr (gr_input_text r, gr_input_ids r, None))"

text \<open>The separator is tokenized when the request comes in, by \<open>_tokenize_texts\<close>.\<close>

definition request_sep_token ::
    "(string option \<Rightarrow> int list res) \<Rightarrow> gen_request \<Rightarrow> gen_request res" where
  "request_sep_token tokenize_texts r =
     (if style_has_sep (gr_blend_style r)
      then rbind (tokenize_texts (gr_separator r)) (\<lambda>ids. Inr (r\<lparr>gr_blend_sep_token := ids\<rparr>))
      else Inr r)"

section \<open>Occurrences of the separator\<close>

fun occurrences :: "'a list \<Rightarrow> 'a list \<Rightarrow> nat list" where
  "occurrences sep [] = []"
| "occurrences sep (c # s) =
     (if prefix_at sep (c # s) then [0] else []) @ map Suc (occurrences sep s)"

text \<open>No two occurrences overlap.\<close>

definition separated :: "'a list \<Rightarrow> 'a list \<Rightarrow> bool" where
  "separated sep xs \<longleftrightarrow> sorted_wrt (\<lambda>i j. i + length sep \<le> j) (occurrences sep xs)"

lemma occurrences_filter: "occurrences sep xs = filter (\<lambda>i. prefix_at sep (drop i xs)) [0..<length xs]"
proof (induction xs)
  case (Cons c s)
  have "[0..<length (c # s)] = 0 # map Suc [0..<length s]"
    by (simp add: upt_conv_Cons map_Suc_upt del: upt_Suc)
  then show ?case using Cons by (simp add: filter_map o_def)
qed simp

lemma occurrences_bound: "i \<in> set (occurrences sep xs) \<Longrightarrow> i + length sep \<le> length xs \<and> i < length xs"
proof (simp add: occurrences_filter prefix_at_def, elim conjE)
  assume a: "take (length sep) (drop i xs) = sep" and b: "i < length xs"
  from a have "length (take (length sep) (drop i xs)) = length sep" by simp
  with b show "i + length sep \<le> length xs" by simp
qed

lemma prefix_at_single: "xs \<noteq> [] \<Longrightarrow> length sep = 1 \<Longrightarrow> prefix_at sep xs \<longleftrightarrow> xs ! 0 = sep ! 0"
  by (cases xs; cases sep) (auto simp: prefix_at_def)

lemma find_pattern_matches_occurrences:
  assumes "sep \<noteq> []"
  shows "find_pattern_matches xs sep = map int (occurrences sep xs)"
proof -
  let ?k = "length sep" and ?n = "length xs"
  consider "?n < ?k" | "\<not> ?n < ?k" "?k = 1" | "\<not> ?n < ?k" "?k \<noteq> 1" by blast
  then show ?thesis
  proof cases
    case 1
    have "occurrences sep xs = []"
    proof (rule ccontr)
      assume "occurrences sep xs \<noteq> []"
      then obtain i where "i \<in> set (occurrences sep xs)" by (cases "occurrences sep xs") auto
      with occurrences_bound [OF this] 1 show False by simp
    qed
    with 1 show ?thesis by (simp add: find_pattern_matches_def)
  next
    case 2
    have "filter (\<lambda>i. xs ! i = sep ! 0) [0..<?n] = filter (\<lambda>i. prefix_at sep (drop i xs)) [0..<?n]"
      using 2 by (intro filter_cong) (auto simp: prefix_at_single)
    with 2 show ?thesis by (simp add: find_pattern_matches_def occurrences_filter)
  next
    case 3
    have "[0..<?n] = [0..<?n - ?k + 1] @ [?n - ?k + 1..<?n]"
      using 3 assms by (intro upt_split) (auto simp: Suc_le_eq intro!: diff_less)
    moreover have "filter (\<lambda>i. prefix_at sep (drop i xs)) [?n - ?k + 1..<?n] = []"
    proof (rule filter_False, rule ballI, rule notI)
      fix i assume i: "i \<in> set [?n - ?k + 1..<?n]" and p: "prefix_at sep (drop i xs)"
      from p have "length (take ?k (drop i xs)) = ?k" by (simp add: prefix_at_def)
      with i 3 show False by auto
    qed
    ultimately have "occurrences sep xs = filter (\<lambda>i. prefix_at sep (drop i xs)) [0..<?n - ?k + 1]"
      by (simp add: occurrences_filter del: upt_Suc)
    with 3 show ?thesis by (simp add: find_pattern_matches_def prefix_at_def Let_def)
  qed
qed

lemma occurrences_shift:
  "(\<forall>i \<in> set (occurrences sep xs). d \<le> i) \<Longrightarrow>
   occurrences sep xs = map (\<lambda>i. i + d) (occurrences sep (drop d xs))"
proof (induction d arbitrary: xs)
  case (Suc d)
  show ?case
  proof (cases xs)
    case (Cons c s)
    with Suc.prems have np: "\<not> prefix_at sep (c # s)" and "\<forall>i \<in> set (occurrences sep s). d \<le> i"
      by (auto split: if_splits)
    with Suc.IH [of s] Cons show ?thesis by simp
  qed simp
qed simp

lemma separated_Cons_no: "separated sep (c # s) \<Longrightarrow> separated sep s"
  by (auto simp: separated_def sorted_wrt_append sorted_wrt_map)

lemma separated_drop:
  assumes "separated sep (c # s)" "prefix_at sep (c # s)" "sep \<noteq> []"
  shows "map Suc (occurrences sep s) = map (\<lambda>i. i + length sep) (occurrences sep (drop (length sep - 1) s))"
    "separated sep (drop (length sep - 1) s)"
proof -
  have ge: "\<forall>i \<in> set (occurrences sep s). length sep - 1 \<le> i"
    using assms by (auto simp: separated_def)
  have eq: "occurrences sep s = map (\<lambda>i. i + (length sep - 1)) (occurrences sep (drop (length sep - 1) s))"
    by (rule occurrences_shift [OF ge])
  show "map Suc (occurrences sep s) = map (\<lambda>i. i + length sep) (occurrences sep (drop (length sep - 1) s))"
    using assms(3) by (subst eq) (simp add: o_def)
  have "sorted_wrt (\<lambda>i j. i + length sep \<le> j) (occurrences sep s)"
    using separated_Cons_no [OF assms(1)] by (simp add: separated_def)
  then show "separated sep (drop (length sep - 1) s)"
    by (subst (asm) eq) (simp add: separated_def sorted_wrt_map)
qed

section \<open>The boundaries are running sums of the segment lengths\<close>

lemma py_split_loop_nonempty [simp]: "py_split_loop sep acc xs \<noteq> []"
  by (induction sep acc xs rule: py_split_loop.induct) auto

lemma blend_locs_split:
  assumes "sep \<noteq> []" "separated sep xs"
  shows "blend_locs (int (length sep)) cur (off - int (length acc)) (map (\<lambda>i. off + int i) (occurrences sep xs))
    = cur # butlast (running_sums cur (map (\<lambda>s. int (length s)) (py_split_loop sep acc xs)))"
  using assms
proof (induction sep acc xs arbitrary: cur off rule: py_split_loop.induct)
  case (2 sep acc c s)
  show ?case
  proof (cases "prefix_at sep (c # s)")
    case True
    note d = separated_drop [OF "2.prems"(2) True "2.prems"(1)]
    have "map (\<lambda>i. off + int i) (occurrences sep (c # s))
      = off # map (\<lambda>i. (off + int (length sep)) + int i) (occurrences sep (drop (length sep - 1) s))"
      using True d(1) by (simp add: o_def algebra_simps)
    then show ?thesis
      using "2.IH"(1) [OF _ "2.prems"(1) d(2), of "cur + int (length acc)" "off + int (length sep)"]
        True "2.prems"(1) by (simp del: map_map)
  next
    case False
    have "map (\<lambda>i. off + int i) (occurrences sep (c # s))
      = map (\<lambda>i. (off + 1) + int i) (occurrences sep s)"
      using False by (simp add: o_def algebra_simps)
    moreover have "off - int (length acc) = off + 1 - int (length (c # acc))" by simp
    ultimately show ?thesis
      using "2.IH"(2) [OF _ "2.prems"(1) separated_Cons_no [OF "2.prems"(2)], of cur "off + 1"] False
      by (simp only: py_split_loop.simps) simp
  qed
qed simp

section \<open>The kept tokens are the segments\<close>

definition covered :: "nat \<Rightarrow> nat list \<Rightarrow> nat \<Rightarrow> bool" where
  "covered k ms i \<longleftrightarrow> (\<exists>m \<in> set ms. m \<le> i \<and> i < m + k)"

lemma length_clear_mask [simp]: "length (clear_mask k m bs) = length bs"
  by (simp add: clear_mask_def)

lemma nth_clear_mask: "i < length bs \<Longrightarrow>
  clear_mask k (int m) bs ! i = (bs ! i \<and> \<not> (m \<le> i \<and> i < m + k))"
  by (auto simp: clear_mask_def)

lemma fold_clear_mask:
  "length (fold (clear_mask k) (map int ms) bs) = length bs \<and>
   (i < length bs \<longrightarrow> fold (clear_mask k) (map int ms) bs ! i = (bs ! i \<and> \<not> covered k ms i))"
  by (induction ms arbitrary: bs) (auto simp: covered_def nth_clear_mask)

lemma keep_mask_eq: "keep_mask n k (map int ms) = map (\<lambda>i. \<not> covered k ms i) [0..<n]"
  using fold_clear_mask [of k ms "replicate n True"]
  by (intro nth_equalityI) (auto simp: keep_mask_def)

definition keep :: "nat \<Rightarrow> nat list \<Rightarrow> 'a list \<Rightarrow> 'a list" where
  "keep k ms xs = apply_mask xs (map (\<lambda>i. \<not> covered k ms i) [0..<length xs])"

lemma apply_mask_Cons: "apply_mask (x # xs) (b # bs) = (if b then [x] else []) @ apply_mask xs bs"
  by (simp add: apply_mask_def)

lemma apply_mask_append:
  "length xs = length bs \<Longrightarrow> apply_mask (xs @ ys) (bs @ cs) = apply_mask xs bs @ apply_mask ys cs"
  by (simp add: apply_mask_def)

lemma keep_Cons:
  "keep k ms (x # xs) = (if covered k ms 0 then [] else [x]) @
     apply_mask xs (map (\<lambda>i. \<not> covered k ms (Suc i)) [0..<length xs])"
proof -
  have "map (\<lambda>i. \<not> covered k ms i) [0..<length (x # xs)]
    = (\<not> covered k ms 0) # map (\<lambda>i. \<not> covered k ms (Suc i)) [0..<length xs]"
    by (simp add: upt_conv_Cons map_Suc_upt [symmetric] o_def del: upt_Suc)
  then show ?thesis by (simp add: keep_def apply_mask_Cons)
qed

lemma covered_map_Suc: "covered k (map Suc ms) (Suc i) = covered k ms i"
  by (auto simp: covered_def)

lemma keep_shift: "keep k (map Suc ms) (x # xs) = x # keep k ms xs"
  by (simp add: keep_Cons covered_map_Suc, simp add: keep_def covered_def)

lemma apply_mask_False: "apply_mask xs (map (\<lambda>i. False) is) = []"
  by (auto simp: apply_mask_def filter_empty_conv set_zip)

lemma keep_drop:
  assumes "k \<le> length xs"
  shows "keep k (0 # map (\<lambda>i. i + k) ms) xs = keep k ms (drop k xs)"
proof -
  have c1: "covered k (0 # map (\<lambda>i. i + k) ms) i" if "i < k" for i
    using that by (auto simp: covered_def)
  have c2: "covered k (0 # map (\<lambda>i. i + k) ms) (i + k) = covered k ms i" for i
    by (auto simp: covered_def)
  have "[0..<length xs] = [0..<k] @ map (\<lambda>i. i + k) [0..<length xs - k]"
    using assms upt_split [of 0 k "length xs"] by (simp add: map_add_upt)
  then have "keep k (0 # map (\<lambda>i. i + k) ms) xs = apply_mask (take k xs @ drop k xs)
     (map (\<lambda>i. False) [0..<k] @ map (\<lambda>i. \<not> covered k ms i) [0..<length xs - k])"
    using c1 by (simp add: keep_def c2 o_def cong: list.map_cong_simp)
  also have "\<dots> = keep k ms (drop k xs)"
    using assms by (simp only: apply_mask_append length_take length_map length_upt apply_mask_False)
      (simp add: apply_mask_append apply_mask_False keep_def)
  finally show ?thesis .
qed

lemma keep_split:
  assumes "sep \<noteq> []" "separated sep xs"
  shows "rev acc @ keep (length sep) (occurrences sep xs) xs = concat (py_split_loop sep acc xs)"
  using assms
proof (induction sep acc xs rule: py_split_loop.induct)
  case (1 sep acc)
  then show ?case by (simp add: keep_def apply_mask_def)
next
  case (2 sep acc c s)
  show ?case
  proof (cases "prefix_at sep (c # s)")
    case True
    note d = separated_drop [OF "2.prems"(2) True "2.prems"(1)]
    have "length (take (length sep) (c # s)) = length sep" using True by (simp add: prefix_at_def)
    then have le: "length sep \<le> length (c # s)" by simp
    have dr: "drop (length sep) (c # s) = drop (length sep - 1) s"
      using "2.prems"(1) by (cases sep) auto
    have "keep (length sep) (occurrences sep (c # s)) (c # s)
      = keep (length sep) (occurrences sep (drop (length sep - 1) s)) (drop (length sep - 1) s)"
      using True keep_drop [OF le, of "occurrences sep (drop (length sep - 1) s)"] d(1) dr by simp
    then show ?thesis using "2.IH"(1) [OF _ "2.prems"(1) d(2)] True "2.prems"(1) by simp
  next
    case False
    then show ?thesis
      using "2.IH"(2) [OF _ "2.prems"(1) separated_Cons_no [OF "2.prems"(2)]]
      by (simp add: keep_shift)
  qed
qed

section \<open>Joining the parts\<close>

fun py_join :: "'a list \<Rightarrow> 'a list list \<Rightarrow> 'a list" where
  "py_join sep [] = []"
| "py_join sep [p] = p"
| "py_join sep (p # q # ps) = p @ sep @ py_join sep (q # ps)"

lemma py_join_Cons: "ps \<noteq> [] \<Longrightarrow> py_join sep (p # ps) = p @ sep @ py_join sep ps"
  by (cases ps) auto

lemma prefix_at_drop: "prefix_at sep xs \<Longrightarrow> xs = sep @ drop (length sep) xs"
  by (metis append_take_drop_id prefix_at_def)

lemma py_join_split: "sep \<noteq> [] \<Longrightarrow> py_join sep (py_split_loop sep acc xs) = rev acc @ xs"
proof (induction sep acc xs rule: py_split_loop.induct)
  case (2 sep acc c s)
  show ?case
  proof (cases "prefix_at sep (c # s)")
    case True
    have "drop (length sep) (c # s) = drop (length sep - 1) s" using "2.prems" by (cases sep) auto
    then have "sep @ drop (length sep - 1) s = c # s" using prefix_at_drop [OF True] by simp
    then show ?thesis using "2.IH"(1) "2.prems" True by (simp add: py_join_Cons)
  next
    case False
    then show ?thesis using "2.IH"(2) "2.prems" by simp
  qed
qed simp

lemma split_text_loop_eq:
  assumes "\<And>s. s \<in> set parts \<Longrightarrow> tokenize_segment tok s = Inr (enc s)"
  shows "split_text_loop tok ids locs parts = Inr (ids @ concat (map enc parts),
    locs @ running_sums (int (length ids)) (map (\<lambda>s. int (length (enc s))) parts))"
  using assms by (induction parts arbitrary: ids locs) (auto simp: Let_def)

section \<open>Properties\<close>

text \<open>Splitting the text and tokenizing every part by itself loses nothing. For any tokenizer
  that answers on every text, the parts joined with the separator are the prompt again, the returned
  text is the prompt without the separators, the boundaries are sorted from 0 to the number of tokens,
  and the tokens between two neighbouring boundaries are exactly those of the part.\<close>

theorem split_text_tokens_partition:
  assumes "sep \<noteq> []" "\<And>s. tokenize_segment tok s = Inr (enc s)"
  shows "\<exists>parts ids locs. split_text_tokens text sep tok = Inr (concat parts, ids, locs) \<and>
     py_join sep parts = text \<and> length locs = length parts + 1 \<and> sorted locs \<and>
     hd locs = 0 \<and> last locs = int (length ids) \<and>
     (\<forall>i < length parts. py_slice ids (locs ! i) (locs ! (i + 1)) = enc (parts ! i))"
proof -
  define parts where "parts = py_split_loop sep [] text"
  define locs where "locs = 0 # running_sums 0 (map (\<lambda>xs. int (length xs)) (map enc parts))"
  have r: "split_text_tokens text sep tok = Inr (concat parts, concat (map enc parts), locs)"
    using assms by (simp add: split_text_tokens_def py_split_def split_text_loop_eq parts_def locs_def o_def)
  have j: "py_join sep parts = text" using assms(1) by (simp add: parts_def py_join_split)
  have "sorted locs" unfolding locs_def by (rule running_sums_nonneg_sorted) auto
  moreover have "last locs = int (length (concat (map enc parts)))"
  proof -
    have "sum_list (map (\<lambda>x. int (length (enc x))) ps) = int (length (concat (map enc ps)))" for ps
      by (induction ps) auto
    then show ?thesis
      by (cases "parts = []") (simp_all add: locs_def last_running_sums o_def)
  qed
  moreover have "py_slice (concat (map enc parts)) (locs ! i) (locs ! (i + 1)) = enc (parts ! i)"
    if "i < length parts" for i
    using slice_concat [of i "map enc parts"] that by (simp add: locs_def)
  ultimately show ?thesis using r j
    by (intro exI [of _ parts] exI [of _ "concat (map enc parts)"] exI [of _ locs])
      (simp add: locs_def)
qed

theorem split_text_tokens_partition_witness:
  "\<exists>parts ids locs. split_text_tokens ''ab##c'' ''##'' (HasEncode (map (\<lambda>c. of_char c)))
      = Inr (concat parts, ids, locs) \<and> py_join ''##'' parts = ''ab##c'' \<and> locs = [0, 2, 3]"
proof -
  let ?tok = "HasEncode (map (\<lambda>c. of_char c :: int))"
  have v: "split_text_tokens ''ab##c'' ''##'' ?tok = Inr (''abc'', [97, 98, 99], [0, 2, 3])"
    by code_simp
  from split_text_tokens_partition [of "''##''" ?tok "map of_char" "''ab##c''"]
  obtain parts ids locs where "split_text_tokens ''ab##c'' ''##'' ?tok = Inr (concat parts, ids, locs)"
    "py_join ''##'' parts = ''ab##c''"
    by auto
  with v show ?thesis by (intro exI [of _ parts] exI [of _ ids] exI [of _ locs]) simp
qed

text \<open>C30: when no two occurrences of the separator overlap, the vectorised splitting of a token
  list equals the reference splitting: the kept tokens are the concatenation of the segments Python's
  \<open>split\<close> yields and the boundaries are the running sums of the segment lengths.\<close>

theorem split_tokens_is_split:
  assumes "sep \<noteq> []" "separated sep ids" "occurrences sep ids \<noteq> []"
  shows "split_tokens None ids separator sep =
     Inr (None, concat (py_split_loop sep [] ids),
       Some (0 # running_sums 0 (map (\<lambda>s. int (length s)) (py_split_loop sep [] ids))))"
proof -
  let ?segs = "py_split_loop sep [] ids"
  obtain i where "i \<in> set (occurrences sep ids)" using assms(3) by (cases "occurrences sep ids") auto
  then have le: "length sep \<le> length ids" using occurrences_bound by fastforce
  have m: "find_pattern_matches ids sep = map int (occurrences sep ids)"
    by (rule find_pattern_matches_occurrences [OF assms(1)])
  have k: "apply_mask ids (keep_mask (length ids) (length sep) (map int (occurrences sep ids)))
      = concat ?segs"
    using keep_split [OF assms(1,2), of "[]"] by (simp add: keep_mask_eq keep_def)
  have b: "blend_locs (int (length sep)) 0 0 (map int (occurrences sep ids))
      = 0 # butlast (running_sums 0 (map (\<lambda>s. int (length s)) ?segs))"
    using blend_locs_split [OF assms(1,2), of 0 0 "[]"] by simp
  have "int (length (concat xss)) = sum_list (map (\<lambda>s. int (length s)) xss)" for xss :: "int list list"
    by (induction xss) auto
  then have l: "butlast (running_sums 0 (map (\<lambda>s. int (length s)) ?segs)) @ [int (length (concat ?segs))]
      = running_sums 0 (map (\<lambda>s. int (length s)) ?segs)"
    using running_sums_butlast [of "map (\<lambda>s. int (length s)) ?segs" 0] by simp
  show ?thesis
    using le assms(1,3) by (simp add: split_tokens_def Let_def m k b l)
qed

theorem split_tokens_is_split_witness:
  "split_tokens None [1, 2, 9, 9, 3, 9, 9, 4] None [9, 9] = Inr (None, [1, 2, 3, 4], Some [0, 2, 3, 4])"
proof -
  have "separated [9, 9] [1, 2, 9, 9, 3, 9, 9, 4 :: int]" "occurrences [9, 9] [1, 2, 9, 9, 3, 9, 9, 4 :: int] = [2, 5]"
    by code_simp+
  then show ?thesis using split_tokens_is_split [of "[9, 9]" "[1, 2, 9, 9, 3, 9, 9, 4]" None]
    by (simp add: prefix_at_def)
qed

text \<open>Overlapping occurrences break the boundaries: a negative segment length is added.\<close>

lemma split_tokens_overlap:
  "split_tokens None [1, 1, 1] None [1, 1] = Inr (None, [], Some [0, 0, -1, 0])"
  by code_simp

end
