(* ===== verification/Positions.thy ===== *)
theory Positions
  imports Prelude "HOL-Library.Multiset"
begin

text \<open>
  The token positions of an extend batch (\<open>srt/model_executor/forward_batch_info.py\<close>):
  \<open>compute_position_torch\<close>, the reference on tensors, and \<open>compute_position_triton\<close> with
  its kernel. A kernel launch is the list of the stores its programs issue; the programs run
  concurrently, so any interleaving of the stores is possible and the result is stated for all of
  them. A tensor from \<open>torch.empty\<close> is a list of arbitrary values, an argument of the model.
\<close>

section \<open>Reference\<close>

definition compute_position_torch :: "int list \<Rightarrow> int list \<Rightarrow> int list \<times> int list" where
  "compute_position_torch extend_prefix_lens extend_seq_lens =
     (concat (map (\<lambda>(prefix_len, extend_len). py_range prefix_len (prefix_len + extend_len))
        (zip extend_prefix_lens extend_seq_lens)),
      (if extend_seq_lens = [] then [] else 0 # running_sums 0 (butlast extend_seq_lens)))"

section \<open>The kernel\<close>

definition position_block :: int where
  "position_block = 512"

definition cdiv :: "int \<Rightarrow> int \<Rightarrow> int" where
  "cdiv a b = (a + b - 1) div b"

text \<open>The masked stores of one pass of the loop: offsets \<open>i * BLOCK_SIZE\<close> onwards.\<close>

definition block_stores :: "int \<Rightarrow> int \<Rightarrow> int \<Rightarrow> int \<Rightarrow> int \<Rightarrow> (int \<times> int) list" where
  "block_stores block start prefix_len seq_len i =
     map (\<lambda>offset. (start + offset, prefix_len + offset))
       (filter (\<lambda>offset. offset < seq_len) (py_range (i * block) (i * block + block)))"

text \<open>Program \<open>pid\<close>: its stores into \<open>positions\<close> and the one into \<open>extend_start_loc\<close>.\<close>

definition position_program ::
    "int list \<Rightarrow> int list \<Rightarrow> bool \<Rightarrow> nat \<Rightarrow> (int \<times> int) list \<times> (int \<times> int)" where
  "position_program extend_prefix_lens extend_seq_lens has_prefix pid =
     (let prefix_len = (if has_prefix then extend_prefix_lens ! pid else 0);
          seq_len = extend_seq_lens ! pid;
          cumsum_start = sum_list (take pid extend_seq_lens);
          num_loop = cdiv seq_len position_block
      in (concat (map (block_stores position_block cumsum_start prefix_len seq_len) (py_range 0 num_loop)),
          (int pid, cumsum_start)))"

definition store_one :: "int \<times> int \<Rightarrow> int list \<Rightarrow> int list" where
  "store_one av xs =
     (if 0 \<le> fst av \<and> fst av < int (length xs) then xs[nat (fst av) := snd av] else xs)"

definition run_stores :: "(int \<times> int) list \<Rightarrow> int list \<Rightarrow> int list" where
  "run_stores st xs = fold store_one st xs"

definition position_stores :: "int list \<Rightarrow> int list \<Rightarrow> (int \<times> int) list" where
  "position_stores extend_prefix_lens extend_seq_lens =
     (let batch_size = length extend_seq_lens;
          has_prefix = (length extend_prefix_lens = batch_size)
      in concat (map (\<lambda>pid. fst (position_program extend_prefix_lens extend_seq_lens has_prefix pid))
           [0..<batch_size]))"

definition start_loc_stores :: "int list \<Rightarrow> int list \<Rightarrow> (int \<times> int) list" where
  "start_loc_stores extend_prefix_lens extend_seq_lens =
     (let batch_size = length extend_seq_lens;
          has_prefix = (length extend_prefix_lens = batch_size)
      in map (\<lambda>pid. snd (position_program extend_prefix_lens extend_seq_lens has_prefix pid))
           [0..<batch_size])"

text \<open>The launch, its programs run one after the other; \<open>empty_pos\<close> and \<open>empty_loc\<close> are the
  contents \<open>torch.empty\<close> happens to return.\<close>

definition compute_position_triton ::
    "int list \<Rightarrow> int list \<Rightarrow> int list \<Rightarrow> int list \<Rightarrow> int list \<times> int list" where
  "compute_position_triton empty_pos empty_loc extend_prefix_lens extend_seq_lens =
     (run_stores (position_stores extend_prefix_lens extend_seq_lens) empty_pos,
      run_stores (start_loc_stores extend_prefix_lens extend_seq_lens) empty_loc)"

definition support_triton :: "string \<Rightarrow> bool" where
  "support_triton backend \<longleftrightarrow> backend \<notin> set [''torch_native'', ''intel_amx'', ''ascend'']"

definition compute_position ::
    "int list \<Rightarrow> int list \<Rightarrow> string \<Rightarrow> int list \<Rightarrow> int list \<Rightarrow> int list \<times> int list" where
  "compute_position empty_pos empty_loc attn_backend extend_prefix_lens extend_seq_lens =
     (if support_triton attn_backend
      then compute_position_triton empty_pos empty_loc extend_prefix_lens extend_seq_lens
      else compute_position_torch extend_prefix_lens extend_seq_lens)"

section \<open>Stores to distinct addresses commute\<close>

lemma length_store_one [simp]: "length (store_one av xs) = length xs"
  by (simp add: store_one_def)

lemma length_run_stores [simp]: "length (run_stores st xs) = length xs"
  by (induction st arbitrary: xs) (simp_all add: run_stores_def)

lemma run_stores_untouched:
  "i < length xs \<Longrightarrow> int i \<notin> fst ` set st \<Longrightarrow> run_stores st xs ! i = xs ! i"
proof (induction st arbitrary: xs)
  case (Cons av st)
  have "store_one av xs ! i = xs ! i"
    using Cons.prems by (auto simp: store_one_def nth_list_update)
  with Cons.IH [of "store_one av xs"] Cons.prems show ?case by (simp add: run_stores_def)
qed (simp add: run_stores_def)

lemma run_stores_nth:
  "distinct (map fst st) \<Longrightarrow> (int i, v) \<in> set st \<Longrightarrow> i < length xs \<Longrightarrow> run_stores st xs ! i = v"
proof (induction st arbitrary: xs)
  case (Cons av st)
  show ?case
  proof (cases "av = (int i, v)")
    case True
    with Cons.prems have "int i \<notin> fst ` set st" by auto
    then have "run_stores st (store_one av xs) ! i = store_one av xs ! i"
      using Cons.prems(3) by (intro run_stores_untouched) auto
    with True Cons.prems(3) show ?thesis by (simp add: run_stores_def store_one_def)
  next
    case False
    with Cons.IH [of "store_one av xs"] Cons.prems show ?thesis by (auto simp: run_stores_def)
  qed
qed simp

text \<open>Stores that cover the addresses \<open>0, 1, ..., n - 1\<close> once each leave the same tensor in every
  order.\<close>

lemma run_stores_any_order:
  assumes order: "mset st = mset st'" and addr: "map fst st' = py_range 0 (int (length xs))"
  shows "run_stores st xs = map snd st'"
proof (rule nth_equalityI)
  have l: "length st' = length xs" using arg_cong [OF addr, of length] by simp
  then show "length (run_stores st xs) = length (map snd st')" by simp
  fix i assume "i < length (run_stores st xs)"
  then have i: "i < length xs" by simp
  have "map fst st' ! i = int i" using i by (simp add: addr)
  then have "st' ! i = (int i, snd (st' ! i))" using i l by (metis nth_map prod.collapse)
  then have "(int i, snd (st' ! i)) \<in> set st'" using i l by (metis nth_mem)
  then have "(int i, snd (st' ! i)) \<in> set st" using mset_eq_setD [OF order] by simp
  moreover have "distinct (map fst st)"
    using order addr distinct_py_range by (metis mset_eq_imp_distinct_iff mset_map)
  ultimately have "run_stores st xs ! i = snd (st' ! i)" using i by (intro run_stores_nth)
  then show "run_stores st xs ! i = map snd st' ! i" using i l by simp
qed

section \<open>The stores of the kernel\<close>

lemma filter_py_range: "filter (\<lambda>x. x < n) (py_range a b) = py_range a (min b n)"
proof (induction "nat (b - a)" arbitrary: b)
  case (Suc k)
  then have ab: "a \<le> b - 1" by linarith
  have b: "py_range a b = py_range a (b - 1) @ [b - 1]" using py_range_snoc [OF ab] by simp
  have IH: "filter (\<lambda>x. x < n) (py_range a (b - 1)) = py_range a (min (b - 1) n)"
    using Suc by (intro Suc.hyps(1)) linarith
  show ?case
  proof (cases "b - 1 < n")
    case True
    then have "min (b - 1) n = b - 1" "min b n = b" by simp_all
    with IH b True show ?thesis by simp
  next
    case False
    then have "min (b - 1) n = n" "min b n = n" by simp_all
    with IH b False show ?thesis by simp
  qed
qed (simp add: min_def)

lemma blocks_cover:
  assumes "0 < block"
  shows "concat (map (\<lambda>i. py_range (i * block) (i * block + block)) (py_range 0 (int m)))
    = py_range 0 (int m * block)"
proof (induction m)
  case (Suc m)
  have s: "py_range 0 (int (Suc m)) = py_range 0 (int m) @ [int m]"
    using py_range_snoc [of 0 "int m"] by (simp add: add.commute)
  have "concat (map (\<lambda>i. py_range (i * block) (i * block + block)) (py_range 0 (int (Suc m))))
    = py_range 0 (int m * block) @ py_range (int m * block) (int m * block + block)"
    by (simp only: s map_append concat_append list.map concat.simps append_Nil2 Suc)
  also have "\<dots> = py_range 0 (int m * block + block)"
    using assms by (intro py_range_append) auto
  finally show ?case by (simp add: algebra_simps)
qed simp

lemma block_stores_all:
  assumes "0 < block" "0 \<le> seq_len"
  shows "concat (map (block_stores block start prefix_len seq_len) (py_range 0 (cdiv seq_len block)))
    = map (\<lambda>offset. (start + offset, prefix_len + offset)) (py_range 0 seq_len)"
proof -
  let ?f = "\<lambda>offset. (start + offset, prefix_len + offset)"
  let ?m = "nat (cdiv seq_len block)"
  have nn: "0 \<le> cdiv seq_len block"
    using assms by (simp add: cdiv_def pos_imp_zdiv_nonneg_iff)
  have "seq_len + block - 1 < (cdiv seq_len block + 1) * block"
    using assms(1) by (simp add: cdiv_def algebra_simps) (smt (verit) mult.commute mod_mult_div_eq pos_mod_bound)
  then have le: "seq_len \<le> int ?m * block" using nn by (simp add: algebra_simps)
  have "concat (map (block_stores block start prefix_len seq_len) xs)
    = map ?f (filter (\<lambda>x. x < seq_len) (concat (map (\<lambda>i. py_range (i * block) (i * block + block)) xs)))" for xs
    by (induction xs) (simp_all add: block_stores_def)
  then have "concat (map (block_stores block start prefix_len seq_len) (py_range 0 (int ?m)))
    = map ?f (filter (\<lambda>x. x < seq_len) (py_range 0 (int ?m * block)))"
    by (simp only: blocks_cover [OF assms(1)])
  then show ?thesis using nn le by (simp add: filter_py_range min_def)
qed

lemma program_stores:
  assumes "pid < length lens" "\<forall>n \<in> set lens. 0 \<le> n" "length prefix = length lens"
  shows "fst (position_program prefix lens True pid)
    = map (\<lambda>offset. (sum_list (take pid lens) + offset, prefix ! pid + offset)) (py_range 0 (lens ! pid))"
  using assms by (simp add: position_program_def Let_def block_stores_all position_block_def)

lemma stores_addresses:
  assumes "\<forall>n \<in> set lens. 0 \<le> n" "m \<le> length lens" "length prefix = length lens"
  shows "map fst (concat (map (\<lambda>pid. fst (position_program prefix lens True pid)) [0..<m]))
      = py_range 0 (sum_list (take m lens)) \<and>
    map snd (concat (map (\<lambda>pid. fst (position_program prefix lens True pid)) [0..<m]))
      = concat (map (\<lambda>(p, n). py_range p (p + n)) (take m (zip prefix lens)))"
  using assms(2)
proof (induction m)
  case (Suc m)
  then have m: "m < length lens" by simp
  have nn: "0 \<le> sum_list (take m lens)" "0 \<le> lens ! m"
    using assms(1) m by (auto intro!: sum_list_nonneg dest: in_set_takeD)
  have sh: "map (\<lambda>x. d + x) (py_range 0 n) = py_range d (d + n)" for d n :: int
    using map_shift_py_range [of d 0 n] by (simp add: add.commute)
  have t: "take (Suc m) lens = take m lens @ [lens ! m]"
    "take (Suc m) (zip prefix lens) = take m (zip prefix lens) @ [(prefix ! m, lens ! m)]"
    using m assms(3) by (simp_all add: take_Suc_conv_app_nth)
  show ?case
    using Suc.IH m nn py_range_append [of 0 "sum_list (take m lens)" "sum_list (take m lens) + lens ! m"]
    by (simp add: program_stores [OF m assms(1,3)] t o_def sh)
qed simp

section \<open>Properties\<close>

text \<open>C25: the fused kernel computes what the reference computes, in every interleaving of its
  programs: whatever the order \<open>st\<close> in which the stores of all programs reach the tensor, and
  whatever it held before, the positions are the concatenated ranges of the reference.\<close>

theorem position_kernel_refines_torch:
  assumes "\<forall>n \<in> set lens. 0 \<le> n" "length prefix = length lens"
    and "int (length empty_pos) = sum_list lens" "mset st = mset (position_stores prefix lens)"
  shows "run_stores st empty_pos = fst (compute_position_torch prefix lens)"
proof -
  have s: "position_stores prefix lens
      = concat (map (\<lambda>pid. fst (position_program prefix lens True pid)) [0..<length lens])"
    by (simp add: position_stores_def assms(2))
  have "map fst (position_stores prefix lens) = py_range 0 (int (length empty_pos))"
    using stores_addresses [OF assms(1) order_refl assms(2)] assms(3) by (simp add: s)
  then have "run_stores st empty_pos = map snd (position_stores prefix lens)"
    by (rule run_stores_any_order [OF assms(4)])
  then show ?thesis
    using stores_addresses [OF assms(1) order_refl assms(2)] assms(2)
    by (simp add: s compute_position_torch_def)
qed

theorem position_kernel_refines_torch_witness:
  "run_stores (rev (position_stores [0, 7] [2, 3])) [9, 9, 9, 9, 9] = [0, 1, 7, 8, 9]"
proof -
  have "fst (compute_position_torch [0, 7] [2, 3]) = [0, 1, 7, 8, 9]" by code_simp
  then show ?thesis
    using position_kernel_refines_torch [of "[2, 3]" "[0, 7]" "[9, 9, 9, 9, 9]" "rev (position_stores [0, 7] [2, 3])"]
    by simp
qed

lemma compute_position_triton_eq:
  assumes "\<forall>n \<in> set lens. 0 \<le> n" "length prefix = length lens" "int (length empty_pos) = sum_list lens"
  shows "fst (compute_position_triton empty_pos empty_loc prefix lens)
    = concat (map (\<lambda>(p, n). py_range p (p + n)) (zip prefix lens))"
proof -
  have s: "position_stores prefix lens
      = concat (map (\<lambda>pid. fst (position_program prefix lens True pid)) [0..<length lens])"
    by (simp add: position_stores_def assms(2))
  show ?thesis
    using run_stores_any_order [OF refl, of "position_stores prefix lens" empty_pos]
      stores_addresses [OF assms(1) order_refl assms(2)] assms(2,3)
    by (simp add: s compute_position_triton_def)
qed

end
