(* ===== verification/DigestLocs.thy ===== *)
theory DigestLocs
  imports BlendInfo Positions
begin

text \<open>
  The chunk boundaries of an augmented offline prompt (\<open>DigestIndexManager\<close> in
  \<open>srt/utils/digest_index_manager.py\<close>): the prompt is
  sys, doc1, zip1, doc2, zip2, ..., query; the model runs on sys, doc1+zip1, ..., query and the
  cache keeps sys, doc1, doc2, ..., query. \<open>prepare_augmented_locs_for_request\<close> computes both
  sets of boundaries and the tokens that are kept.
\<close>

section \<open>Definitions\<close>

fun cumsum_loop :: "int list \<Rightarrow> int \<Rightarrow> int list \<Rightarrow> int list" where
  "cumsum_loop out tot [] = out"
| "cumsum_loop out tot (len # lens) = cumsum_loop (out @ [tot + len]) (tot + len) lens"

definition cumsum_lens :: "int list \<Rightarrow> int list" where
  "cumsum_lens lengths = cumsum_loop [0] 0 lengths"

definition chunk_abs_ranges :: "int list \<Rightarrow> (int \<times> int) list" where
  "chunk_abs_ranges locs = map (\<lambda>i. (locs ! i, locs ! (i + 1))) [0..<length locs - 1]"

text \<open>\<open>range(a, b, 2)\<close>\<close>

definition range_by2 :: "nat \<Rightarrow> nat \<Rightarrow> nat list" where
  "range_by2 a b = map (\<lambda>i. a + 2 * i) [0..<(b - a + 1) div 2]"

record aug_locs =
  al_forward_locs :: "int list"
  al_original_locs :: "int list"
  al_keep_indices :: "int list"
  al_sys_range :: "int \<times> int"
  al_doc_ranges :: "(int \<times> int) list"
  al_zip_ranges :: "(int \<times> int) list"

text \<open>The loop over the (doc, zip) pairs, with the five lists it extends.\<close>

fun aug_loop ::
    "int list \<Rightarrow> int list \<Rightarrow> int list \<Rightarrow> int list \<Rightarrow> (int \<times> int) list \<Rightarrow> (int \<times> int) list \<Rightarrow> (nat \<times> nat) list
     \<Rightarrow> int list \<times> int list \<times> int list \<times> (int \<times> int) list \<times> (int \<times> int) list" where
  "aug_loop raw fwd orig keep docs zips [] = (fwd, orig, keep, docs, zips)"
| "aug_loop raw fwd orig keep docs zips ((doc_idx, zip_idx) # ps) =
     (let doc_start = raw ! doc_idx; doc_end = raw ! (doc_idx + 1);
          zip_start = raw ! zip_idx; zip_end = raw ! (zip_idx + 1)
      in aug_loop raw (fwd @ [zip_end - doc_start]) (orig @ [doc_end - doc_start])
           (keep @ py_range doc_start doc_end) (docs @ [(doc_start, doc_end)])
           (zips @ [(zip_start, zip_end)]) ps)"

definition prepare_augmented_locs_for_request :: "int list \<Rightarrow> aug_locs option" where
  "prepare_augmented_locs_for_request raw_locs =
     (let num_raw_chunks = int (length raw_locs) - 1
      in if num_raw_chunks < 4 \<or> num_raw_chunks mod 2 \<noteq> 0 then None
         else
           let n = nat num_raw_chunks;
               doc_chunk_indices = range_by2 1 (n - 1);
               zip_chunk_indices = range_by2 2 (n - 1)
           in if length doc_chunk_indices \<noteq> length zip_chunk_indices then None
              else
                let sys_start = raw_locs ! 0; sys_end = raw_locs ! 1;
                    query_start = raw_locs ! (n - 1); query_end = raw_locs ! n;
                    (fwd, orig, keep, docs, zips) =
                      aug_loop raw_locs [sys_end - sys_start] [sys_end - sys_start]
                        (py_range sys_start sys_end) [] [] (zip doc_chunk_indices zip_chunk_indices)
                in Some \<lparr>al_forward_locs = cumsum_lens (fwd @ [query_end - query_start]),
                         al_original_locs = cumsum_lens (orig @ [query_end - query_start]),
                         al_keep_indices = keep @ py_range query_start query_end,
                         al_sys_range = (sys_start, sys_end),
                         al_doc_ranges = docs, al_zip_ranges = zips\<rparr>)"

text \<open>The positions of the forward pass, computed once per batch and kept in the batch record.\<close>

definition ensure_forward_positions ::
    "int list \<Rightarrow> int list \<Rightarrow> blend_info \<Rightarrow> (int list \<times> blend_info) res" where
  "ensure_forward_positions empty_pos empty_loc bi =
     (case bi_positions bi of
        Some positions \<Rightarrow> Inr (positions, bi)
      | None \<Rightarrow>
          rbind (py_get (bi_chunk_loc_list bi) (- 1)) (\<lambda>num_tokens.
          let extend_prefix_lens = replicate (length (bi_chunk_lens bi)) 0;
              positions = fst (compute_position (take (nat num_tokens) empty_pos) empty_loc ''flashinfer''
                            extend_prefix_lens (bi_chunk_lens bi))
          in Inr (positions, bi\<lparr>bi_positions := Some positions\<rparr>)))"

section \<open>Lemmas\<close>

lemma cumsum_loop_eq: "cumsum_loop out t lens = out @ running_sums t lens"
  by (induction out t lens rule: cumsum_loop.induct) auto

lemma cumsum_lens_eq: "cumsum_lens lens = 0 # running_sums 0 lens"
  by (simp add: cumsum_lens_def cumsum_loop_eq)

lemma aug_loop_eq:
  "aug_loop raw fwd orig keep docs zips ps =
     (fwd @ map (\<lambda>(d, z). raw ! (z + 1) - raw ! d) ps,
      orig @ map (\<lambda>(d, z). raw ! (d + 1) - raw ! d) ps,
      keep @ concat (map (\<lambda>(d, z). py_range (raw ! d) (raw ! (d + 1))) ps),
      docs @ map (\<lambda>(d, z). (raw ! d, raw ! (d + 1))) ps,
      zips @ map (\<lambda>(d, z). (raw ! z, raw ! (z + 1))) ps)"
  by (induction raw fwd orig keep docs zips ps rule: aug_loop.induct) (auto simp: Let_def)

lemma range_by2_pairs:
  "zip (range_by2 1 (2 * k + 1)) (range_by2 2 (2 * k + 1)) = map (\<lambda>i. (1 + 2 * i, 2 + 2 * i)) [0..<k]"
  "length (range_by2 1 (2 * k + 1)) = k" "length (range_by2 2 (2 * k + 1)) = k"
proof -
  have "Suc (2 * k - Suc 0) div 2 = k" by (cases k) simp_all
  then show "zip (range_by2 1 (2 * k + 1)) (range_by2 2 (2 * k + 1)) = map (\<lambda>i. (1 + 2 * i, 2 + 2 * i)) [0..<k]"
    "length (range_by2 1 (2 * k + 1)) = k" "length (range_by2 2 (2 * k + 1)) = k"
    by (simp_all add: range_by2_def zip_map_map zip_same_conv_map)
qed

text \<open>The documents and the zip prompts of the first \<open>k\<close> pairs.\<close>

definition docs_of :: "int list \<Rightarrow> nat \<Rightarrow> (int \<times> int) list" where
  "docs_of raw k = map (\<lambda>i. (raw ! (1 + 2 * i), raw ! (2 + 2 * i))) [0..<k]"

lemma length_docs_of [simp]: "length (docs_of raw k) = k"
  by (simp add: docs_of_def)

definition zips_of :: "int list \<Rightarrow> nat \<Rightarrow> (int \<times> int) list" where
  "zips_of raw k = map (\<lambda>i. (raw ! (2 + 2 * i), raw ! (3 + 2 * i))) [0..<k]"

definition kept_ranges :: "int list \<Rightarrow> nat \<Rightarrow> (int \<times> int) list" where
  "kept_ranges raw k = (raw ! 0, raw ! 1) # docs_of raw k @ [(raw ! (2 * k + 1), raw ! (2 * k + 2))]"

abbreviation range_len :: "int \<times> int \<Rightarrow> int" where
  "range_len r \<equiv> snd r - fst r"

lemma prepare_augmented_eq:
  assumes "length raw = 2 * k + 3" "0 < k"
  shows "prepare_augmented_locs_for_request raw =
    Some \<lparr>al_forward_locs = 0 # running_sums 0 (map range_len ((raw ! 0, raw ! 1) #
              map (\<lambda>i. (raw ! (1 + 2 * i), raw ! (3 + 2 * i))) [0..<k] @ [(raw ! (2 * k + 1), raw ! (2 * k + 2))])),
          al_original_locs = 0 # running_sums 0 (map range_len (kept_ranges raw k)),
          al_keep_indices = concat (map (\<lambda>r. py_range (fst r) (snd r)) (kept_ranges raw k)),
          al_sys_range = (raw ! 0, raw ! 1), al_doc_ranges = docs_of raw k, al_zip_ranges = zips_of raw k\<rparr>"
proof -
  have n: "nat (int (length raw) - 1) = 2 * k + 2" "nat (int (length raw) - 1) - 1 = 2 * k + 1"
    using assms by simp_all
  have g: "\<not> (int (length raw) - 1 < 4 \<or> (int (length raw) - 1) mod 2 \<noteq> 0)"
    using assms by simp
  show ?thesis
    unfolding prepare_augmented_locs_for_request_def Let_def n if_not_P [OF g]
    by (simp add: range_by2_pairs [simplified] aug_loop_eq cumsum_lens_eq kept_ranges_def docs_of_def
        zips_of_def o_def numeral_3_eq_3)
qed

lemma sorted_gap: "sorted raw \<Longrightarrow> i \<le> j \<Longrightarrow> j < length raw \<Longrightarrow> raw ! i \<le> raw ! j" for raw :: "int list"
  by (rule sorted_nth_mono)

lemma in_py_ranges: "t \<in> set (concat (map (\<lambda>r. py_range (fst r) (snd r)) rs)) \<longleftrightarrow>
  (\<exists>(a, b) \<in> set rs. a \<le> t \<and> t < b)"
  by (auto simp: Bex_def case_prod_beta)

lemma docs_zips_alternate:
  assumes "sorted raw" "2 * k + 1 < length raw"
  shows "raw ! 1 \<le> t \<and> t < raw ! (2 * k + 1) \<longleftrightarrow>
      (\<exists>(a, b) \<in> set (docs_of raw k). a \<le> t \<and> t < b) \<or> (\<exists>(a, b) \<in> set (zips_of raw k). a \<le> t \<and> t < b)"
    "\<not> ((\<exists>(a, b) \<in> set (docs_of raw k). a \<le> t \<and> t < b) \<and> (\<exists>(a, b) \<in> set (zips_of raw k). a \<le> t \<and> t < b))"
  using assms(2)
proof (induction k)
  case 0
  { case 1 show ?case by (simp add: docs_of_def zips_of_def) }
  { case 2 show ?case by (simp add: docs_of_def) }
next
  case (Suc k)
  have s: "docs_of raw (Suc k) = docs_of raw k @ [(raw ! (2 * k + 1), raw ! (2 * k + 2))]"
    "zips_of raw (Suc k) = zips_of raw k @ [(raw ! (2 * k + 2), raw ! (2 * k + 3))]"
    by (simp_all add: docs_of_def zips_of_def numeral_3_eq_3)
  { case 1
    have o: "raw ! 1 \<le> raw ! (2 * k + 1)" "raw ! (2 * k + 1) \<le> raw ! (2 * k + 2)"
      "raw ! (2 * k + 2) \<le> raw ! (2 * k + 3)"
      using 1 by (auto intro!: sorted_gap [OF assms(1)])
    have e: "2 * Suc k + 1 = 2 * k + 3" by simp
    have "2 * k + 1 < length raw" using 1 by simp
    from Suc.IH(1) [OF this] o show ?case by (simp only: s e set_append) auto }
  { case 2
    have o: "raw ! (2 * k + 1) \<le> raw ! (2 * k + 2)" using 2 by (auto intro!: sorted_gap [OF assms(1)])
    have "2 * k + 1 < length raw" using 2 by simp
    from Suc.IH(1) [OF this] Suc.IH(2) [OF this] o show ?case by (simp only: s set_append) auto }
qed

text \<open>Ranges in order make a strictly increasing concatenation.\<close>

fun ranges_chain :: "int \<Rightarrow> (int \<times> int) list \<Rightarrow> bool" where
  "ranges_chain lo [] \<longleftrightarrow> True"
| "ranges_chain lo ((a, b) # rs) \<longleftrightarrow> lo \<le> a \<and> a \<le> b \<and> ranges_chain b rs"

lemma ranges_chain_mono: "ranges_chain m rs \<Longrightarrow> l \<le> m \<Longrightarrow> ranges_chain l rs"
  by (cases rs) auto

lemma ranges_chain_sorted:
  "ranges_chain lo rs \<Longrightarrow> sorted_wrt (<) (concat (map (\<lambda>r. py_range (fst r) (snd r)) rs)) \<and>
     (\<forall>t \<in> set (concat (map (\<lambda>r. py_range (fst r) (snd r)) rs)). lo \<le> t)"
proof (induction lo rs rule: ranges_chain.induct)
  case (2 lo a b rs)
  then have "sorted_wrt (<) (concat (map (\<lambda>r. py_range (fst r) (snd r)) rs))"
    "\<And>t. t \<in> set (concat (map (\<lambda>r. py_range (fst r) (snd r)) rs)) \<Longrightarrow> b \<le> t" by auto
  with "2.prems" show ?case
    by (simp only: list.map concat.simps sorted_wrt_append fst_conv snd_conv set_append)
      (fastforce simp del: set_concat)
qed simp

lemma ranges_chain_append:
  "ranges_chain lo (rs @ [(a, b)]) \<longleftrightarrow> ranges_chain lo rs \<and> (if rs = [] then lo else snd (last rs)) \<le> a \<and> a \<le> b"
  by (induction lo rs rule: ranges_chain.induct) auto

lemma docs_chain:
  assumes "sorted raw" "2 * k + 1 < length raw"
  shows "ranges_chain (raw ! 1) (docs_of raw k) \<and> (docs_of raw k = [] \<or> snd (last (docs_of raw k)) = raw ! (2 * k))"
  using assms(2)
proof (induction k)
  case (Suc k)
  have s: "docs_of raw (Suc k) = docs_of raw k @ [(raw ! (2 * k + 1), raw ! (2 * k + 2))]"
    by (simp add: docs_of_def)
  have "raw ! 1 \<le> raw ! (2 * k + 1)" "raw ! (2 * k) \<le> raw ! (2 * k + 1)"
    "raw ! (2 * k + 1) \<le> raw ! (2 * k + 2)"
    using Suc.prems by (auto intro!: sorted_gap [OF assms(1)])
  with Suc show ?case by (auto simp: s ranges_chain_append)
qed (simp add: docs_of_def)

lemma kept_chain:
  assumes "sorted raw" "length raw = 2 * k + 3"
  shows "ranges_chain (raw ! 0) (kept_ranges raw k)"
proof -
  have o: "raw ! 0 \<le> raw ! 1" "raw ! 1 \<le> raw ! (2 * k + 1)" "raw ! (2 * k) \<le> raw ! (2 * k + 1)"
    "raw ! (2 * k + 1) \<le> raw ! (2 * k + 2)"
    using assms by (auto intro!: sorted_gap)
  have "ranges_chain (raw ! 1) (docs_of raw k @ [(raw ! (2 * k + 1), raw ! (2 * k + 2))])"
    using docs_chain [of raw k] assms o by (auto simp: ranges_chain_append)
  with o show ?thesis by (simp add: kept_ranges_def)
qed

lemma kept_ranges_len: "length (kept_ranges raw k) = k + 2"
  by (simp add: kept_ranges_def docs_of_def)

section \<open>Properties\<close>

text \<open>The kept tokens of an augmented prompt are exactly its system, document and query tokens.
  For raw boundaries in order with at least one (document, zip) pair: the kept indices are strictly
  increasing, a token of the prompt is kept unless it lies in a zip prompt, and cutting the kept
  indices at the \<open>original_locs\<close> boundaries gives, chunk by chunk, the raw token ranges of the
  system prompt, of each document and of the query.\<close>

theorem augmented_prompt_keeps_documents:
  assumes "sorted raw" "5 \<le> length raw" "odd (length raw)"
  shows "\<exists>al. prepare_augmented_locs_for_request raw = Some al \<and>
    sorted_wrt (<) (al_keep_indices al) \<and>
    (\<forall>t. hd raw \<le> t \<and> t < last raw \<longrightarrow>
       (t \<in> set (al_keep_indices al) \<longleftrightarrow> \<not> (\<exists>(a, b) \<in> set (al_zip_ranges al). a \<le> t \<and> t < b))) \<and>
    (let chunks = [al_sys_range al] @ al_doc_ranges al @ [(raw ! (length raw - 2), last raw)]
     in length (al_original_locs al) = length chunks + 1 \<and>
        (\<forall>i < length chunks. py_slice (al_keep_indices al) (al_original_locs al ! i) (al_original_locs al ! (i + 1))
           = py_range (fst (chunks ! i)) (snd (chunks ! i))))"
proof -
  obtain m where m: "length raw = 2 * m + 1" using assms(3) by (auto elim: oddE)
  define k where "k = m - 1"
  have len: "length raw = 2 * k + 3" and k: "0 < k" using m assms(2) by (auto simp: k_def)
  have ends: "hd raw = raw ! 0" "last raw = raw ! (2 * k + 2)" "length raw - 2 = 2 * k + 1"
    using len by (cases raw; auto simp: last_conv_nth)+
  let ?R = "\<lambda>rs. concat (map (\<lambda>r. py_range (fst r) (snd r)) rs)"
  note ch = kept_chain [OF assms(1) len]
  have alt: "t \<in> set (?R (kept_ranges raw k)) \<longleftrightarrow> \<not> (\<exists>(a, b) \<in> set (zips_of raw k). a \<le> t \<and> t < b)"
    if "raw ! 0 \<le> t" "t < raw ! (2 * k + 2)" for t
  proof -
    have o: "2 * k + 1 < length raw" using len by simp
    have "t \<in> set (?R (kept_ranges raw k)) \<longleftrightarrow> t < raw ! 1 \<or> raw ! (2 * k + 1) \<le> t \<or>
        (\<exists>(a, b) \<in> set (docs_of raw k). a \<le> t \<and> t < b)"
      using that unfolding in_py_ranges by (auto simp: kept_ranges_def)
    with docs_zips_alternate [OF assms(1) o, of t] show ?thesis by linarith
  qed
  have lens: "map range_len (kept_ranges raw k) = map (\<lambda>xs. int (length xs)) (map (\<lambda>r. py_range (fst r) (snd r)) (kept_ranges raw k))"
  proof -
    have "ranges_chain lo rs \<Longrightarrow> \<forall>r \<in> set rs. fst r \<le> snd r" for lo rs
      by (induction lo rs rule: ranges_chain.induct) auto
    from this [OF ch] show ?thesis by simp
  qed
  have sl: "py_slice (?R (kept_ranges raw k)) ((0 # running_sums 0 (map range_len (kept_ranges raw k))) ! i)
      ((0 # running_sums 0 (map range_len (kept_ranges raw k))) ! Suc i)
      = py_range (fst (kept_ranges raw k ! i)) (snd (kept_ranges raw k ! i))" if "i < k + 2" for i
    using slice_concat [of i "map (\<lambda>r. py_range (fst r) (snd r)) (kept_ranges raw k)"] that
    by (simp only: lens) (simp add: kept_ranges_len)
  have c: "(raw ! 0, raw ! Suc 0) # docs_of raw k @ [(raw ! Suc (2 * k), raw ! Suc (Suc (2 * k)))] = kept_ranges raw k"
    by (simp add: kept_ranges_def)
  show ?thesis
    using ranges_chain_sorted [OF ch] alt sl
    unfolding prepare_augmented_eq [OF len k] ends
    by (simp add: c Let_def kept_ranges_len del: set_concat)
qed

theorem augmented_prompt_keeps_documents_witness:
  "\<exists>al. prepare_augmented_locs_for_request [0, 2, 5, 7, 8] = Some al \<and> al_keep_indices al = [0, 1, 2, 3, 4, 7] \<and>
     al_original_locs al = [0, 2, 5, 6] \<and> (3 \<in> set (al_keep_indices al)) \<and> 6 \<notin> set (al_keep_indices al)"
proof -
  have "\<exists>al. prepare_augmented_locs_for_request [0, 2, 5, 7, 8] = Some al \<and>
    (\<forall>t. 0 \<le> t \<and> t < 8 \<longrightarrow> (t \<in> set (al_keep_indices al) \<longleftrightarrow> \<not> (\<exists>(a, b) \<in> set (al_zip_ranges al). a \<le> t \<and> t < b)))"
    using augmented_prompt_keeps_documents [of "[0, 2, 5, 7, 8]"] by auto
  moreover have "prepare_augmented_locs_for_request [0, 2, 5, 7, 8] =
    Some \<lparr>al_forward_locs = [0, 2, 7, 8], al_original_locs = [0, 2, 5, 6], al_keep_indices = [0, 1, 2, 3, 4, 7],
      al_sys_range = (0, 2), al_doc_ranges = [(2, 5)], al_zip_ranges = [(5, 7)]\<rparr>"
    by code_simp
  ultimately show ?thesis by auto
qed

end
