(* ===== verification/Files.thy ===== *)
theory Files
  imports Json Tensor
begin

text \<open>
  The SSD as the code sees it: JSON files and binary files by path. Opening a missing file for
  reading raises \<open>FileNotFoundError\<close>; opening for writing replaces the file.
  \<open>os.makedirs(..., exist_ok=True)\<close> has no effect on files.
\<close>

record ssd =
  json_files :: "string \<Rightarrow> json option"
  bin_files :: "string \<Rightarrow> byte list option"

definition empty_ssd :: ssd where
  "empty_ssd = \<lparr>json_files = (\<lambda>_. None), bin_files = (\<lambda>_. None)\<rparr>"

definition os_path_join :: "string \<Rightarrow> string \<Rightarrow> string" where
  "os_path_join a b =
     (if a = [] then b else if last a = CHR ''/'' then a @ b else a @ ''/'' @ b)"

definition write_json :: "string \<Rightarrow> json \<Rightarrow> ssd \<Rightarrow> ssd" where
  "write_json path j d = d\<lparr>json_files := (json_files d)(path \<mapsto> j)\<rparr>"

definition read_json :: "string \<Rightarrow> ssd \<Rightarrow> json res" where
  "read_json path d =
     (case json_files d path of None \<Rightarrow> Inl (FileNotFoundError path) | Some j \<Rightarrow> Inr j)"

definition write_bin :: "string \<Rightarrow> byte list \<Rightarrow> ssd \<Rightarrow> ssd" where
  "write_bin path bs d = d\<lparr>bin_files := (bin_files d)(path \<mapsto> bs)\<rparr>"

definition read_bin :: "string \<Rightarrow> ssd \<Rightarrow> byte list res" where
  "read_bin path d =
     (case bin_files d path of None \<Rightarrow> Inl (FileNotFoundError path) | Some bs \<Rightarrow> Inr bs)"

lemma os_path_join_inj: "os_path_join a b = os_path_join a c \<Longrightarrow> b = c"
  by (simp add: os_path_join_def split: if_splits)

lemma read_write_json [simp]:
  "read_json p (write_json p j d) = Inr j"
  "p \<noteq> q \<Longrightarrow> read_json p (write_json q j d) = read_json p d"
  "read_json p (write_bin q bs d) = read_json p d"
  by (simp_all add: read_json_def write_json_def write_bin_def)

lemma read_write_bin [simp]:
  "read_bin p (write_bin p bs d) = Inr bs"
  "p \<noteq> q \<Longrightarrow> read_bin p (write_bin q bs d) = read_bin p d"
  "read_bin p (write_json q j d) = read_bin p d"
  by (simp_all add: read_bin_def write_json_def write_bin_def)

end
