(* ===== verification/DigestIndex.thy ===== *)
theory DigestIndex
  imports DigestLocs Files
begin

text \<open>
  \<open>DigestIndexManager\<close> of \<open>srt/utils/digest_index_manager.py\<close>: the token ranking of every
  document chunk and layer, from the KVzip scores collected while KVCOMPUTE runs; the metadata and
  index that go to the SSD; and the digest positions installed in \<open>ContextBlendPool\<close>.
  The class attributes are the fields of \<open>digest_state\<close>; the metadata and index dicts are JSON
  objects. \<open>torch.argsort(..., descending=True)\<close> is the parameter \<open>argsort\<close>; its documented
  behaviour, a permutation of the indices along which the scores do not grow, is
  \<open>argsort_ok\<close>.
\<close>

section \<open>State\<close>

record 's digest_state =
  dm_metadata :: "(string \<times> json) list"
  dm_indices :: "(string \<times> json) list"
  dm_scores :: "int \<Rightarrow> 's list option list option"

definition digest_clear :: "'s digest_state" where
  "digest_clear = \<lparr>dm_metadata = [], dm_indices = [], dm_scores = (\<lambda>_. None)\<rparr>"

definition DIGEST_INDEX_VERSION :: int where
  "DIGEST_INDEX_VERSION = 8"

definition ascii_lower :: "string \<Rightarrow> string" where
  "ascii_lower s =
     map (\<lambda>c. let n = of_char c :: nat in if 65 \<le> n \<and> n \<le> 90 then char_of (n + 32) else c) s"

definition normalize_method :: "string option \<Rightarrow> string res" where
  "normalize_method m =
     (let name = ascii_lower (case m of None \<Rightarrow> ''kvzip'' | Some [] \<Rightarrow> ''kvzip'' | Some s \<Rightarrow> s)
      in if name \<noteq> ''kvzip'' then Inl (ValueError ''Unsupported digest_index_method'') else Inr name)"

definition index_filename :: "string \<Rightarrow> string res" where
  "index_filename m = rbind (normalize_method (Some m)) (\<lambda>n. Inr (''index_'' @ n @ ''.json''))"

section \<open>Ranking\<close>

definition argsort_ok :: "('s::linorder list \<Rightarrow> int list) \<Rightarrow> bool" where
  "argsort_ok argsort \<longleftrightarrow>
     (\<forall>xs. distinct (argsort xs) \<and> set (argsort xs) = {0..<int (length xs)} \<and>
        sorted_wrt (\<lambda>i j. xs ! nat j \<le> xs ! nat i) (argsort xs))"

definition rank_from_scores ::
    "('s list \<Rightarrow> int list) \<Rightarrow> 's list \<Rightarrow> int \<Rightarrow> int \<Rightarrow> int list" where
  "rank_from_scores argsort scores chunk_len n_sink =
     (if chunk_len \<le> 0 then []
      else
        let sink_count = min (max n_sink 0) chunk_len;
            sink_indices = py_range 0 sink_count
        in if sink_count < chunk_len then
             let tail_scores = drop (nat sink_count) scores;
                 tail_order = map (\<lambda>i. i + sink_count) (argsort tail_scores)
             in sink_indices @ tail_order
           else sink_indices)"

text \<open>The loop over the document chunks of one layer; \<open>zero\<close> fills missing scores.\<close>

fun rank_chunks ::
    "('s list \<Rightarrow> int list) \<Rightarrow> 's \<Rightarrow> 's list list \<Rightarrow> int \<Rightarrow> nat \<Rightarrow> int list \<Rightarrow> int list list" where
  "rank_chunks argsort zero layer_scores n_sink idx [] = []"
| "rank_chunks argsort zero layer_scores n_sink idx (chunk_len # lens) =
     (if chunk_len \<le> 0 then []
      else
        let scores = (if idx < length layer_scores \<and> int (length (layer_scores ! idx)) = chunk_len
                      then layer_scores ! idx else replicate (nat chunk_len) zero)
        in rank_from_scores argsort scores chunk_len n_sink)
     # rank_chunks argsort zero layer_scores n_sink (Suc idx) lens"

definition rank_scores_by_layer ::
    "('s list \<Rightarrow> int list) \<Rightarrow> 's \<Rightarrow> 's list list list \<Rightarrow> int list \<Rightarrow> int \<Rightarrow> int list list list" where
  "rank_scores_by_layer argsort zero scores_by_layer_chunk doc_chunk_lengths n_sink =
     map (\<lambda>layer_scores. [] # rank_chunks argsort zero layer_scores n_sink 0 doc_chunk_lengths)
       scores_by_layer_chunk"

text \<open>One score per document chunk and layer, zeros where none of the right length was collected.\<close>

definition chunk_score :: "'s \<Rightarrow> 's list option list \<Rightarrow> nat \<Rightarrow> int \<Rightarrow> 's list" where
  "chunk_score zero raw_layer_scores idx chunk_len =
     (if chunk_len > 0 \<and> idx < length raw_layer_scores then
        (case raw_layer_scores ! idx of
           Some s \<Rightarrow> if int (length s) = chunk_len then s else replicate (nat chunk_len) zero
         | None \<Rightarrow> replicate (nat chunk_len) zero)
      else replicate (nat chunk_len) zero)"

definition scores_from_kvzip_dict ::
    "'s \<Rightarrow> int list \<Rightarrow> (int \<Rightarrow> 's list option list option) \<Rightarrow> int \<Rightarrow> 's list list list" where
  "scores_from_kvzip_dict zero doc_chunk_lengths scores num_layers =
     map (\<lambda>layer_id.
         let raw_layer_scores = (case scores layer_id of None \<Rightarrow> [] | Some s \<Rightarrow> s)
         in map (\<lambda>(idx, chunk_len). chunk_score zero raw_layer_scores idx chunk_len)
              (List.enumerate 0 doc_chunk_lengths))
       (py_range 0 num_layers)"

section \<open>Building the index\<close>

definition json_ints :: "int list \<Rightarrow> json" where
  "json_ints xs = JList (map JInt xs)"

definition json_ranges :: "(int \<times> int) list \<Rightarrow> json" where
  "json_ranges rs = JList (map (\<lambda>(s, e). json_ints [s, e]) rs)"

definition index_metadata ::
    "(int \<times> int) list \<Rightarrow> int \<Rightarrow> string \<Rightarrow> int \<Rightarrow> f64 \<Rightarrow> int list \<Rightarrow> (string \<times> json) list" where
  "index_metadata ranges total_toks digest_method num_layers digest_ratio critical_layers =
     [(''digest_index_version'', JInt DIGEST_INDEX_VERSION),
      (''orig_chunk_ranges'', json_ranges ranges),
      (''total_tokens'', JInt total_toks),
      (''available_methods'', JList [JStr digest_method]),
      (''layer_wise'', JBool True),
      (''num_layers'', JInt num_layers),
      (''digest_ratio'', JFloat digest_ratio),
      (''digest_index_method'', JStr digest_method),
      (''critical_layers'', json_ints critical_layers),
      (''qcompute_end'', JInt num_layers),
      (''materialized_digest'', JBool True)]"

text \<open>\<open>pool_layers\<close> is \<open>len(HackBlendKVPool.k_buffer)\<close>. The result holds the manager's state
  and the context pool.\<close>

definition build_all_indices ::
    "('s list \<Rightarrow> int list) \<Rightarrow> 's \<Rightarrow> int \<Rightarrow> blend_info \<Rightarrow> 's digest_state \<times> 't ctx_pool
     \<Rightarrow> ('s digest_state \<times> 't ctx_pool) res" where
  "build_all_indices argsort zero pool_layers bi dc =
     (let (d, ctx) = dc;
          full_num_layers = (case bi_att_params bi of Some ap \<Rightarrow> ap_num_layers ap | None \<Rightarrow> pool_layers);
          qcompute_end = int_or (bi_qcompute_end bi) full_num_layers;
          num_layers = max 0 (min qcompute_end full_num_layers);
          digest_ratio = (case bi_digest_ratio bi of None \<Rightarrow> DEFAULT_DIGEST_RATIO | Some r \<Rightarrow> r)
      in rbind (normalize_method (Some (bi_digest_index_method bi))) (\<lambda>digest_method.
         let critical_layers = (case bi_critical_layers bi of None \<Rightarrow> [] | Some l \<Rightarrow> l);
             original_locs = (case bi_original_chunk_loc_list bi of None \<Rightarrow> bi_chunk_loc_list bi | Some l \<Rightarrow> l);
             original_ranges = chunk_abs_ranges original_locs
         in if original_ranges = [] then
              Inr (d\<lparr>dm_metadata := index_metadata [] 0 digest_method num_layers digest_ratio critical_layers
                       @ [(''context_positions_by_layer'', JList [])],
                     dm_indices := [(digest_method, JObj
                       [(''digest_index_version'', JInt DIGEST_INDEX_VERSION),
                        (''method'', JStr digest_method),
                        (''ranked_indices_by_chunk'', JList []),
                        (''ranked_indices_by_layer_chunk'', JList [])])]\<rparr>,
                   set_index_metadata (Some []) (Some []) [] 0 (Some num_layers) ctx)
            else
              let doc_original_ranges = butlast (tl original_ranges);
                  doc_chunk_lengths = map (\<lambda>(s, e). e - s) doc_original_ranges;
                  total_toks = fst (last original_ranges);
                  n_sink = max 0 (bi_context_n_sink bi);
                  kvzip_scores = scores_from_kvzip_dict zero doc_chunk_lengths (dm_scores d) num_layers;
                  selected_index = rank_scores_by_layer argsort zero kvzip_scores doc_chunk_lengths n_sink;
                  ranked_shared = (if selected_index = [] then [] else hd selected_index);
                  meta = index_metadata original_ranges total_toks digest_method num_layers digest_ratio
                           critical_layers;
                  payload = JObj
                    [(''digest_index_version'', JInt DIGEST_INDEX_VERSION),
                     (''method'', JStr digest_method),
                     (''ranked_indices_by_chunk'', JList (map json_ints ranked_shared)),
                     (''ranked_indices_by_layer_chunk'',
                        JList (map (\<lambda>layer. JList (map json_ints layer)) selected_index)),
                     (''layer_wise'', JBool True),
                     (''context_n_sink'', JInt n_sink),
                     (''score_reduce'', JStr ''max_head_query'')];
                  ctx1 = set_index_metadata (Some ranked_shared) (Some selected_index)
                           (butlast original_ranges) total_toks (Some num_layers) ctx;
                  ctx2 = snd (build_context_positions digest_ratio ctx1)
              in Inr (d\<lparr>dm_metadata := meta @ [(''context_positions_by_layer'',
                           JList (map json_ints (context_positions_by_layer ctx2)))],
                        dm_indices := [(digest_method, payload)],
                        dm_scores := (\<lambda>_. None)\<rparr>, ctx2)))"

section \<open>Save, export and load\<close>

fun save_indices :: "string \<Rightarrow> (string \<times> json) list \<Rightarrow> ssd \<Rightarrow> ssd res" where
  "save_indices sample_dir [] s = Inr s"
| "save_indices sample_dir ((m, payload) # rest) s =
     rbind (index_filename m) (\<lambda>name.
       save_indices sample_dir rest (write_json (os_path_join sample_dir name) payload s))"

definition digest_save :: "string \<Rightarrow> 's digest_state \<Rightarrow> ssd \<Rightarrow> ssd res" where
  "digest_save sample_dir d s =
     (if dm_metadata d = [] \<or> dm_indices d = [] then Inl (ValueError ''Digest indices have not been built'')
      else save_indices sample_dir (dm_indices d)
             (write_json (os_path_join sample_dir ''metadata.json'') (JObj (dm_metadata d)) s))"

text \<open>A metadata entry used as a method name: a missing or empty one is \<open>None\<close>, any other JSON
  value has no \<open>lower\<close> method unless it is false in Python's sense.\<close>

fun json_method :: "json option \<Rightarrow> string option res" where
  "json_method None = Inr None"
| "json_method (Some JNull) = Inr None"
| "json_method (Some (JStr s)) = Inr (Some s)"
| "json_method (Some (JBool b)) = (if b then Inl AttributeError else Inr None)"
| "json_method (Some (JInt i)) = (if i \<noteq> 0 then Inl AttributeError else Inr None)"
| "json_method (Some (JFloat r)) = (if r \<noteq> 0 then Inl AttributeError else Inr None)"
| "json_method (Some (JList xs)) = (if xs \<noteq> [] then Inl AttributeError else Inr None)"
| "json_method (Some (JObj kvs)) = (if kvs \<noteq> [] then Inl AttributeError else Inr None)"

definition export_payload ::
    "string option \<Rightarrow> 's digest_state \<Rightarrow> ((string \<times> json) list \<times> (string \<times> json) list) res" where
  "export_payload m d =
     (if dm_metadata d = [] \<or> dm_indices d = [] then Inl (ValueError ''Digest indices have not been built'')
      else
        rbind (case m of
            Some (c # cs) \<Rightarrow> Inr (Some (c # cs))
          | _ \<Rightarrow> json_method (map_of (dm_metadata d) ''digest_index_method'')) (\<lambda>name.
        rbind (normalize_method name) (\<lambda>digest_method.
          case map_of (dm_indices d) digest_method of
            None \<Rightarrow> Inl (ValueError ''Digest method is not available'')
          | Some payload \<Rightarrow> Inr (dm_metadata d, [(digest_method, payload)]))))"

text \<open>\<open>method in available\<close> for the JSON values that allow it.\<close>

fun json_contains :: "json \<Rightarrow> string \<Rightarrow> bool res" where
  "json_contains (JList xs) s = Inr (JStr s \<in> set xs)"
| "json_contains (JObj kvs) s = Inr (s \<in> set (map fst kvs))"
| "json_contains (JStr t) s = Inr (list_ex (\<lambda>i. take (length s) (drop i t) = s) [0..<Suc (length t)])"
| "json_contains _ s = Inl TypeError"

definition digest_load :: "string \<Rightarrow> string option \<Rightarrow> ssd \<Rightarrow> (json \<times> json) res" where
  "digest_load sample_dir m s =
     rbind (normalize_method m) (\<lambda>digest_method.
     rbind (index_filename digest_method) (\<lambda>name.
     rbind (read_json (os_path_join sample_dir ''metadata.json'') s) (\<lambda>meta.
     rbind (json_get meta ''digest_index_version'' JNull) (\<lambda>version.
     if version \<noteq> JInt DIGEST_INDEX_VERSION \<and> version \<noteq> JFloat (of_int DIGEST_INDEX_VERSION)
     then Inl (ValueError ''Unsupported digest metadata version'')
     else
       rbind (json_get meta ''available_methods'' (JList [])) (\<lambda>available.
       rbind (json_contains available digest_method) (\<lambda>ok.
       if \<not> ok then Inl (ValueError ''Digest method is not available'')
       else
         rbind (read_json (os_path_join sample_dir name) s) (\<lambda>index.
         rbind (json_get index ''method'' JNull) (\<lambda>index_method.
         if index_method \<noteq> JStr digest_method then Inl (ValueError ''Digest index method mismatch'')
         else Inr (meta, index)))))))))"

section \<open>Rankings\<close>

lemma rank_from_scores_ranking:
  assumes "argsort_ok argsort" "0 < n" "int (length scores) = n"
  shows "is_ranking n (rank_from_scores argsort scores n n_sink)"
proof -
  define k where "k = min (max n_sink 0) n"
  have k: "0 \<le> k" "k \<le> n" using assms(2) by (auto simp: k_def)
  show ?thesis
  proof (cases "k < n")
    case True
    have l: "int (length (drop (nat k) scores)) = n - k" using assms(3) k True by simp
    have a: "distinct (argsort (drop (nat k) scores))" "set (argsort (drop (nat k) scores)) = {0..<n - k}"
      using assms(1) l unfolding argsort_ok_def by metis+
    have im: "(\<lambda>i. i + k) ` {0..<n - k} = {k..<n}"
      by (auto simp: image_iff intro!: bexI [of _ "x - k" for x])
    have "distinct (map (\<lambda>i. i + k) (argsort (drop (nat k) scores)))"
      using a(1) by (simp add: distinct_map)
    with a im k True assms(2) show ?thesis
      by (auto simp: is_ranking_def rank_from_scores_def k_def [symmetric] Let_def)
  next
    case False
    then have "k = n" using k by simp
    with assms(2) show ?thesis
      by (simp add: is_ranking_def rank_from_scores_def k_def [symmetric] Let_def)
  qed
qed

lemma rank_from_scores_sinks:
  assumes "0 < n"
  shows "take (nat (min (max n_sink 0) n)) (rank_from_scores argsort scores n n_sink)
    = py_range 0 (min (max n_sink 0) n)"
proof -
  define k where "k = min (max n_sink 0) n"
  have "0 \<le> k" using assms by (simp add: k_def)
  with assms show ?thesis
    by (simp add: rank_from_scores_def k_def [symmetric] Let_def)
qed

lemma length_rank_chunks [simp]: "length (rank_chunks argsort zero sc n_sink i lens) = length lens"
  by (induction argsort zero sc n_sink i lens rule: rank_chunks.induct) (simp_all add: Let_def)

lemma nth_rank_chunks:
  "j < length lens \<Longrightarrow> 0 < lens ! j \<Longrightarrow>
   \<exists>scores. int (length scores) = lens ! j \<and>
     (i + j < length sc \<and> int (length (sc ! (i + j))) = lens ! j \<longrightarrow> scores = sc ! (i + j)) \<and>
     rank_chunks argsort zero sc n_sink i lens ! j = rank_from_scores argsort scores (lens ! j) n_sink"
proof (induction argsort zero sc n_sink i lens arbitrary: j rule: rank_chunks.induct)
  case (2 argsort zero sc n_sink idx chunk_len lens)
  show ?case
  proof (cases j)
    case 0
    let ?s = "if idx < length sc \<and> int (length (sc ! idx)) = chunk_len
      then sc ! idx else replicate (nat chunk_len) zero"
    from 0 "2.prems" show ?thesis by (intro exI [of _ ?s]) (simp add: Let_def)
  next
    case (Suc j')
    with 2 show ?thesis by (simp add: add_Suc_right [symmetric] del: add_Suc_right)
  qed
qed simp

lemma chunk_abs_ranges_nth: "i < length (chunk_abs_ranges locs) \<Longrightarrow>
  chunk_abs_ranges locs ! i = (locs ! i, locs ! (i + 1))"
  by (simp add: chunk_abs_ranges_def)

lemma length_chunk_abs_ranges [simp]: "length (chunk_abs_ranges locs) = length locs - 1"
  by (simp add: chunk_abs_ranges_def)

lemma chunk_abs_ranges_ok:
  assumes "sorted locs"
  shows "ranges_ok (chunk_abs_ranges locs)"
  unfolding ranges_ok_def
proof
  show "\<forall>(s, e) \<in> set (chunk_abs_ranges locs). s \<le> e"
    using assms by (auto simp: chunk_abs_ranges_def intro!: sorted_nth_mono)
  show "sorted_wrt (\<lambda>(s, e) (s', e'). e \<le> s') (chunk_abs_ranges locs)"
    using assms by (auto simp: chunk_abs_ranges_def sorted_wrt_iff_nth_less intro!: sorted_nth_mono)
qed

lemma ranges_ok_butlast: "ranges_ok rs \<Longrightarrow> ranges_ok (butlast rs)"
proof (cases rs rule: rev_cases)
  case (snoc ys y)
  assume "ranges_ok rs"
  with snoc show ?thesis by (auto simp: ranges_ok_def sorted_wrt_append)
qed simp

lemma butlast_tl_nth:
  "i + 2 < length xs \<Longrightarrow> butlast (tl xs) ! i = xs ! (i + 1)"
  by (simp add: nth_butlast nth_tl)

text \<open>The ranking of a layer covers every document chunk.\<close>

lemma layer_rankings_ok:
  assumes "argsort_ok argsort" "sorted locs"
    and lens: "lens = map (\<lambda>(s, e). e - s) (butlast (tl (chunk_abs_ranges locs)))"
  shows "rankings_ok ([] # rank_chunks argsort zero sc n_sink 0 lens) (butlast (chunk_abs_ranges locs))"
  unfolding rankings_ok_def
proof (intro ballI impI)
  let ?rs = "chunk_abs_ranges locs"
  fix i assume i: "i \<in> {1..<length (butlast ?rs)}"
    and pos: "fst (butlast ?rs ! i) < snd (butlast ?rs ! i)"
  define j where "j = i - 1"
  have ij: "i = j + 1" "j + 2 < length ?rs" using i by (auto simp: j_def)
  have r: "butlast ?rs ! i = ?rs ! i" using i by (simp add: nth_butlast)
  have j: "j < length lens" using ij by (simp add: lens)
  have n: "lens ! j = snd (?rs ! i) - fst (?rs ! i)"
    using j ij butlast_tl_nth [of j ?rs] by (simp add: lens case_prod_beta del: One_nat_def)
  then have p: "0 < lens ! j" using pos by (simp add: r)
  obtain scores where "int (length scores) = lens ! j"
    "rank_chunks argsort zero sc n_sink 0 lens ! j = rank_from_scores argsort scores (lens ! j) n_sink"
    using nth_rank_chunks [OF j p, of 0 sc argsort zero n_sink] by auto
  then show "i < length ([] # rank_chunks argsort zero sc n_sink 0 lens) \<and>
      is_ranking (snd (butlast ?rs ! i) - fst (butlast ?rs ! i))
        (([] # rank_chunks argsort zero sc n_sink 0 lens) ! i)"
    using rank_from_scores_ranking [OF assms(1) p] j n by (simp add: ij(1) r [unfolded ij(1), simplified])
qed

section \<open>What build_all_indices leaves\<close>

text \<open>The boundaries the index is built on.\<close>

definition index_locs :: "blend_info \<Rightarrow> int list" where
  "index_locs bi = (case bi_original_chunk_loc_list bi of None \<Rightarrow> bi_chunk_loc_list bi | Some l \<Rightarrow> l)"

definition index_layers :: "int \<Rightarrow> blend_info \<Rightarrow> int" where
  "index_layers pool_layers bi =
     (let full = (case bi_att_params bi of Some ap \<Rightarrow> ap_num_layers ap | None \<Rightarrow> pool_layers)
      in max 0 (min (int_or (bi_qcompute_end bi) full) full))"

lemma build_all_indices_nonempty:
  assumes "2 \<le> length (index_locs bi)" "build_all_indices argsort zero pool_layers bi (d, ctx) = Inr (d', ctx')"
  obtains lens rankings ctx1 payload where
    "lens = map (\<lambda>(s, e). e - s) (butlast (tl (chunk_abs_ranges (index_locs bi))))"
    "rankings = rank_scores_by_layer argsort zero
       (scores_from_kvzip_dict zero lens (dm_scores d) (index_layers pool_layers bi)) lens
       (max 0 (bi_context_n_sink bi))"
    "ctx1 = set_index_metadata (Some (if rankings = [] then [] else hd rankings)) (Some rankings)
       (butlast (chunk_abs_ranges (index_locs bi))) (fst (last (chunk_abs_ranges (index_locs bi))))
       (Some (index_layers pool_layers bi)) ctx"
    "ctx' = snd (build_context_positions (case bi_digest_ratio bi of None \<Rightarrow> DEFAULT_DIGEST_RATIO | Some r \<Rightarrow> r) ctx1)"
    "normalize_method (Some (bi_digest_index_method bi)) = Inr ''kvzip''"
    "dm_indices d' = [(''kvzip'', JObj payload)]" "map_of payload ''method'' = Some (JStr ''kvzip'')"
    "map_of (dm_metadata d') ''digest_index_version'' = Some (JInt DIGEST_INDEX_VERSION)"
    "map_of (dm_metadata d') ''available_methods'' = Some (JList [JStr ''kvzip''])"
    "map_of (dm_metadata d') ''digest_index_method'' = Some (JStr ''kvzip'')"
    "map_of (dm_metadata d') ''context_positions_by_layer''
       = Some (JList (map json_ints (context_positions_by_layer ctx')))"
    "dm_scores d' = (\<lambda>_. None)"
proof -
  obtain m where m: "normalize_method (Some (bi_digest_index_method bi)) = Inr m"
    using assms(2) by (cases "normalize_method (Some (bi_digest_index_method bi))")
      (simp_all add: build_all_indices_def Let_def)
  then have mk: "m = ''kvzip''" by (simp add: normalize_method_def Let_def split: if_splits)
  have "length (chunk_abs_ranges (index_locs bi)) \<noteq> 0" using assms(1) by simp
  then have ne: "chunk_abs_ranges (index_locs bi) \<noteq> []" by (metis list.size(3))
  note b = assms(2) [unfolded build_all_indices_def Let_def split_conv m rbind_simps
      index_locs_def [symmetric] if_not_P [OF ne] index_layers_def [unfolded Let_def, symmetric] mk]
  from b show thesis
    by (intro that [OF refl refl refl _ _ _ _ _ _ _ _ _])
      (auto simp: index_metadata_def m mk)
qed

lemma build_all_indices_explicit:
  assumes "2 \<le> length (index_locs bi)" "build_all_indices argsort zero pool_layers bi (d, ctx) = Inr (d', ctx')"
  obtains rankings n ratio crit payload where
    "dm_metadata d' = index_metadata (chunk_abs_ranges (index_locs bi)) (fst (last (chunk_abs_ranges (index_locs bi))))
       ''kvzip'' n ratio crit @
       [(''context_positions_by_layer'', JList (map json_ints (context_positions_by_layer ctx')))]"
    "dm_indices d' = [(''kvzip'', JObj payload)]"
    "map_of payload ''ranked_indices_by_chunk''
       = Some (JList (map json_ints (if rankings = [] then [] else hd rankings)))"
    "map_of payload ''ranked_indices_by_layer_chunk''
       = Some (JList (map (\<lambda>layer. JList (map json_ints layer)) rankings))"
    "ctx' = snd (build_context_positions ratio
       (set_index_metadata (Some (if rankings = [] then [] else hd rankings)) (Some rankings)
         (butlast (chunk_abs_ranges (index_locs bi))) (fst (last (chunk_abs_ranges (index_locs bi)))) (Some n) ctx))"
proof -
  obtain m where m: "normalize_method (Some (bi_digest_index_method bi)) = Inr m"
    using assms(2) by (cases "normalize_method (Some (bi_digest_index_method bi))")
      (simp_all add: build_all_indices_def Let_def)
  then have mk: "m = ''kvzip''" by (simp add: normalize_method_def Let_def split: if_splits)
  have "length (chunk_abs_ranges (index_locs bi)) \<noteq> 0" using assms(1) by simp
  then have ne: "chunk_abs_ranges (index_locs bi) \<noteq> []" by (metis list.size(3))
  note b = assms(2) [unfolded build_all_indices_def Let_def split_conv m rbind_simps
      index_locs_def [symmetric] if_not_P [OF ne] index_layers_def [unfolded Let_def, symmetric] mk]
  note c = b [THEN sum.inject(2) [THEN iffD1], THEN prod.inject [THEN iffD1]]
  show thesis
    by (rule that [OF _ _ _ _ c [THEN conjunct2, symmetric]])
      (simp add: c [THEN conjunct1, symmetric] c [THEN conjunct2, symmetric])+
qed

lemma ranked_indices_after_build:
  "ranked_indices_for_layer (snd (build_context_positions r
      (set_index_metadata (Some (if rk = [] then [] else hd rk)) (Some rk) rs t n ctx))) l
    = (if rk = [] then [] else if 0 \<le> l \<and> l < int (length rk) then rk ! nat l else hd rk)"
  by (simp add: ranked_indices_for_layer_def build_context_positions_def set_index_metadata_def Let_def)

lemma build_keeps_ranges [simp]:
  "orig_chunk_ranges (snd (build_context_positions r (set_index_metadata a b rs t n ctx))) = rs"
  by (simp add: build_context_positions_def set_index_metadata_def Let_def)

text \<open>The example of the witnesses: system prompt, two documents and a query; one layer, no scores.\<close>

definition example_argsort :: "int list \<Rightarrow> int list" where
  "example_argsort xs = sort_key (\<lambda>i. - (xs ! nat i)) (py_range 0 (int (length xs)))"

lemma example_argsort_ok: "argsort_ok example_argsort"
proof -
  have "sorted_wrt (\<lambda>i j. xs ! nat j \<le> xs ! nat i) (sort_key (\<lambda>i. - (xs ! nat i)) (py_range 0 n))"
    for xs :: "int list" and n
  proof -
    have "sorted (map (\<lambda>i. - (xs ! nat i)) (sort_key (\<lambda>i. - (xs ! nat i)) (py_range 0 n)))"
      by (rule sorted_sort_key)
    then show ?thesis by (simp add: sorted_wrt_map)
  qed
  then show ?thesis by (simp add: argsort_ok_def example_argsort_def)
qed

definition example_batch :: blend_info where
  "example_batch = new_blend_info\<lparr>bi_att_params := Some \<lparr>ap_num_heads = 1, ap_num_kv_heads = 1,
     ap_head_dim = 1, ap_num_layers = 2\<rparr>, bi_chunk_loc_list := [0, 2, 5, 9, 10],
     bi_context_n_sink := 1\<rparr>"

definition example_index :: "int digest_state \<times> unit ctx_pool" where
  "example_index = projr (build_all_indices example_argsort 0 2 example_batch
     (digest_clear\<lparr>dm_scores := [0 \<mapsto> [Some [3, 1, 2], None], 1 \<mapsto> [None, Some [1, 2, 3, 4]]]\<rparr>, ctx_clear))"

lemma example_index_built:
  "build_all_indices example_argsort 0 2 example_batch
     (digest_clear\<lparr>dm_scores := [0 \<mapsto> [Some [3, 1, 2], None], 1 \<mapsto> [None, Some [1, 2, 3, 4]]]\<rparr>, ctx_clear)
   = Inr (fst example_index, snd example_index)"
proof -
  have "normalize_method (Some (bi_digest_index_method example_batch)) = Inr ''kvzip''"
    by (simp add: example_batch_def new_blend_info_def normalize_method_def ascii_lower_def)
  then show ?thesis by (simp add: example_index_def build_all_indices_def Let_def)
qed

lemma example_index_rankings: "ranked_indices_by_layer_chunk (snd example_index)
      = [[[], [0, 2, 1], [0, 1, 2, 3]], [[], [0, 1, 2], [0, 3, 2, 1]]]"
proof -
  have n: "normalize_method (Some (bi_digest_index_method example_batch)) = Inr ''kvzip''"
    by (simp add: example_batch_def new_blend_info_def normalize_method_def ascii_lower_def)
  have l: "index_locs example_batch = [0, 2, 5, 9, 10]" "index_layers 2 example_batch = 2"
    "bi_context_n_sink example_batch = 1"
    by (simp_all add: example_batch_def new_blend_info_def index_locs_def index_layers_def int_or_def)
  have c: "chunk_abs_ranges [0, 2, 5, 9, 10] = [(0, 2), (2, 5), (5, 9), (9, 10)]" by code_simp
  have r: "rank_scores_by_layer example_argsort 0 (scores_from_kvzip_dict 0 [3, 4]
      [0 \<mapsto> [Some [3, 1, 2], None], 1 \<mapsto> [None, Some [1, 2, 3, 4]]] 2) [3, 4] (1 :: int)
    = [[[], [0, 2, 1], [0, 1, 2, 3]], [[], [0, 1, 2], [0, 3, 2, 1]]]"
    by code_simp
  note b = build_all_indices_def [of example_argsort 0 2 example_batch, unfolded Let_def n rbind_simps
      index_locs_def [symmetric] index_layers_def [unfolded Let_def, symmetric] l c]
  show ?thesis
    by (simp add: example_index_def b digest_clear_def r build_context_positions_def set_index_metadata_def Let_def)
qed

section \<open>Properties\<close>

text \<open>C24: whatever scores were collected, and for any boundaries in order, the index that is built
  ranks every token of every document exactly once in every layer, so the hypotheses of the context
  pool's theorems hold of it: the same number of digest tokens in all layers and increasing positions.
  The positions written to the metadata are those installed in the pool, and the scores are used up.\<close>

theorem built_index_covers_context:
  assumes "argsort_ok argsort" "sorted (index_locs bi)" "2 \<le> length (index_locs bi)"
    and "0 < index_layers pool_layers bi"
    and "build_all_indices argsort zero pool_layers bi (d, ctx) = Inr (d', ctx')"
  shows "orig_chunk_ranges ctx' = butlast (chunk_abs_ranges (index_locs bi)) \<and>
    ranges_ok (orig_chunk_ranges ctx') \<and>
    (\<forall>l. rankings_ok (ranked_indices_for_layer ctx' l) (orig_chunk_ranges ctx')) \<and>
    map_of (dm_metadata d') ''context_positions_by_layer''
      = Some (JList (map json_ints (context_positions_by_layer ctx'))) \<and>
    dm_scores d' = (\<lambda>_. None)"
proof -
  obtain lens rankings ctx1 payload where lens:
    "lens = map (\<lambda>(s, e). e - s) (butlast (tl (chunk_abs_ranges (index_locs bi))))"
    and rk: "rankings = rank_scores_by_layer argsort zero
       (scores_from_kvzip_dict zero lens (dm_scores d) (index_layers pool_layers bi)) lens
       (max 0 (bi_context_n_sink bi))"
    and c1: "ctx1 = set_index_metadata (Some (if rankings = [] then [] else hd rankings)) (Some rankings)
       (butlast (chunk_abs_ranges (index_locs bi))) (fst (last (chunk_abs_ranges (index_locs bi))))
       (Some (index_layers pool_layers bi)) ctx"
    and c2: "ctx' = snd (build_context_positions (case bi_digest_ratio bi of None \<Rightarrow> DEFAULT_DIGEST_RATIO | Some r \<Rightarrow> r) ctx1)"
    and rest: "map_of (dm_metadata d') ''context_positions_by_layer''
       = Some (JList (map json_ints (context_positions_by_layer ctx')))" "dm_scores d' = (\<lambda>_. None)"
    by (rule build_all_indices_nonempty [OF assms(3,5)]) (rule that; assumption)
  have ne: "rankings \<noteq> []"
    using assms(4) by (auto simp: rk rank_scores_by_layer_def scores_from_kvzip_dict_def py_range_rec)
  have each: "rankings_ok r (butlast (chunk_abs_ranges (index_locs bi)))" if "r \<in> set rankings" for r
    using that layer_rankings_ok [OF assms(1,2) lens] by (auto simp: rk rank_scores_by_layer_def)
  have "ranked_indices_for_layer ctx' l \<in> set rankings" for l
    unfolding c2 c1 ranked_indices_after_build using ne by auto
  then show ?thesis
    using each rest ranges_ok_butlast [OF chunk_abs_ranges_ok [OF assms(2)]] by (simp add: c2 c1)
qed

theorem built_index_covers_context_witness:
  "(\<forall>l. rankings_ok (ranked_indices_for_layer (snd example_index) l) (orig_chunk_ranges (snd example_index)))
   \<and> ranked_indices_by_layer_chunk (snd example_index)
      = [[[], [0, 2, 1], [0, 1, 2, 3]], [[], [0, 1, 2], [0, 3, 2, 1]]]"
proof -
  have h: "sorted (index_locs example_batch)" "2 \<le> length (index_locs example_batch)"
    "0 < index_layers 2 example_batch"
    by (simp_all add: example_batch_def new_blend_info_def index_locs_def index_layers_def int_or_def)
  have v: "ranked_indices_by_layer_chunk (snd example_index)
      = [[[], [0, 2, 1], [0, 1, 2, 3]], [[], [0, 1, 2], [0, 3, 2, 1]]]" by (rule example_index_rankings)
  note c = built_index_covers_context [OF example_argsort_ok h example_index_built]
  have "\<forall>l. rankings_ok (ranked_indices_for_layer (snd example_index) l) (orig_chunk_ranges (snd example_index))"
    by (rule c [THEN conjunct2, THEN conjunct2, THEN conjunct1])
  then show ?thesis using v by (rule conjI)
qed

text \<open>An index that was built, saved and loaded again is the index: the metadata and the ranking
  come back unchanged, from whatever was on the SSD before.\<close>

theorem digest_save_load:
  assumes "2 \<le> length (index_locs bi)"
    and "build_all_indices argsort zero pool_layers bi (d, ctx) = Inr (d', ctx')"
  shows "\<exists>s' payload. digest_save dir d' s = Inr s' \<and> dm_indices d' = [(''kvzip'', payload)] \<and>
    digest_load dir (Some (bi_digest_index_method bi)) s' = Inr (JObj (dm_metadata d'), payload) \<and>
    export_payload None d' = Inr (dm_metadata d', dm_indices d')"
proof -
  obtain payload where n: "normalize_method (Some (bi_digest_index_method bi)) = Inr ''kvzip''"
    and i: "dm_indices d' = [(''kvzip'', JObj payload)]" "map_of payload ''method'' = Some (JStr ''kvzip'')"
    and md: "map_of (dm_metadata d') ''digest_index_version'' = Some (JInt DIGEST_INDEX_VERSION)"
    "map_of (dm_metadata d') ''available_methods'' = Some (JList [JStr ''kvzip''])"
    "map_of (dm_metadata d') ''digest_index_method'' = Some (JStr ''kvzip'')"
    by (rule build_all_indices_nonempty [OF assms]) (rule that; assumption)
  have k: "index_filename ''kvzip'' = Inr ''index_kvzip.json''" "normalize_method (Some ''kvzip'') = Inr ''kvzip''"
    by code_simp+
  have ne: "dm_metadata d' \<noteq> []" using md by auto
  have pn: "os_path_join dir ''metadata.json'' \<noteq> os_path_join dir ''index_kvzip.json''"
    by (auto dest: os_path_join_inj)
  show ?thesis
    using i md ne pn by (simp add: digest_save_def digest_load_def export_payload_def n k)
qed

theorem digest_save_load_witness:
  "\<exists>s' payload. digest_save ''q'' (fst example_index) empty_ssd = Inr s' \<and>
     digest_load ''q'' (Some ''kvzip'') s' = Inr (JObj (dm_metadata (fst example_index)), payload)"
proof -
  have "2 \<le> length (index_locs example_batch)" "bi_digest_index_method example_batch = ''kvzip''"
    by (simp_all add: example_batch_def new_blend_info_def index_locs_def)
  then show ?thesis using digest_save_load [OF _ example_index_built, of "''q''" empty_ssd] by auto
qed

end
