(* ===== verification/KVzip.thy ===== *)
theory KVzip
  imports DigestIndex
begin

text \<open>
  \<open>DigestIndexManager.accumulate_kvzip_layer_score\<close>: the attention of every zip prompt to its
  document, maximised over heads and queries, accumulated per layer and document chunk.

  Matrices are lists of rows over a scalar type \<open>'s\<close>. What torch computes on scalars is the
  parameter \<open>num_ops\<close> (inner product, scaling by \<open>1/sqrt head_dim\<close>, the smallest finite
  value, softmax of a row, maximum) and the rotary embedding is a parameter; the row and column
  ranges, the views into heads, the grouping of query heads over key heads, the causal mask and the
  accumulation are the code's.
\<close>

section \<open>Matrices and their views\<close>

record 's mat =
  m_cols :: int
  m_rows :: "'s list list"

record 's num_ops =
  no_dot :: "'s list \<Rightarrow> 's list \<Rightarrow> 's"
  no_scale :: "int \<Rightarrow> 's \<Rightarrow> 's"
  no_min :: 's
  no_softmax :: "'s list \<Rightarrow> 's list"
  no_max :: "'s \<Rightarrow> 's \<Rightarrow> 's"

text \<open>The slice of head \<open>h\<close> of a row.\<close>

definition head_vec :: "int \<Rightarrow> int \<Rightarrow> 's list \<Rightarrow> 's list" where
  "head_vec head_dim h row = take (nat head_dim) (drop (nat (h * head_dim)) row)"

text \<open>Column-wise maximum of a non-empty list of rows (\<open>amax\<close> over all but the last dimension).\<close>

fun col_max :: "('s \<Rightarrow> 's \<Rightarrow> 's) \<Rightarrow> 's list list \<Rightarrow> 's list" where
  "col_max mx [] = []"
| "col_max mx [r] = r"
| "col_max mx (r # r' # rs) = map2 mx r (col_max mx (r' # rs))"

text \<open>\<open>torch.maximum\<close> of two 1-D tensors, with broadcasting of a tensor of length 1.\<close>

definition torch_maximum :: "('s \<Rightarrow> 's \<Rightarrow> 's) \<Rightarrow> 's list \<Rightarrow> 's list \<Rightarrow> 's list res" where
  "torch_maximum mx a b =
     (if length a = length b then Inr (map2 mx a b)
      else if length a = 1 then Inr (map (mx (hd a)) b)
      else if length b = 1 then Inr (map (\<lambda>x. mx x (hd b)) a)
      else Inl (RuntimeError ''maximum''))"

section \<open>One document chunk\<close>

text \<open>The masked, scaled logits of query \<open>i\<close> of the zip prompt over the columns.\<close>

definition masked_logits ::
    "'s num_ops \<Rightarrow> int \<Rightarrow> int \<Rightarrow> int \<Rightarrow> 's list \<Rightarrow> 's list list \<Rightarrow> int \<Rightarrow> 's list" where
  "masked_logits no head_dim zip_len zip_col_start qvec keys i =
     map (\<lambda>(c, kvec).
         if zip_len > 1 \<and> zip_col_start \<le> int c \<and> i < int c - zip_col_start then no_min no
         else no_scale no head_dim (no_dot no qvec kvec))
       (List.enumerate 0 keys)"

definition chunk_kvzip_score ::
    "'s num_ops \<Rightarrow> int \<Rightarrow> int \<Rightarrow> int \<Rightarrow> int list \<Rightarrow> 's mat \<Rightarrow> 's mat \<Rightarrow> int \<times> int \<Rightarrow> int \<times> int
     \<Rightarrow> 's list res" where
  "chunk_kvzip_score no head_dim num_heads num_kv_heads sink_indices q k doc_range zip_range =
     (let (doc_start, doc_end) = doc_range; (zip_start, zip_end) = zip_range;
          doc_len = doc_end - doc_start; zip_len = zip_end - zip_start;
          key_indices = sink_indices @ py_range doc_start doc_end @ py_range zip_start zip_end;
          q_zip = py_slice (m_rows q) zip_start zip_end;
          num_groups = num_heads div num_kv_heads;
          sink_len = int (length sink_indices);
          zip_col_start = sink_len + doc_len
      in if int (length q_zip) \<noteq> zip_len \<or> m_cols q \<noteq> num_heads * head_dim
         then Inl (RuntimeError ''view'')
         else if \<exists>i \<in> set key_indices. i < 0 \<or> int (length (m_rows k)) \<le> i then Inl IndexError
         else if m_cols k \<noteq> num_kv_heads * head_dim then Inl (RuntimeError ''view'')
         else
           let k_sub = map (\<lambda>i. m_rows k ! nat i) key_indices;
               attn_doc = concat (map (\<lambda>kv. concat (map (\<lambda>g. map (\<lambda>i.
                   let row = no_softmax no (masked_logits no head_dim zip_len zip_col_start
                               (head_vec head_dim (kv * num_groups + g) (q_zip ! nat i))
                               (map (head_vec head_dim kv) k_sub) i)
                   in take (nat doc_len) (drop (nat sink_len) row))
                 (py_range 0 zip_len)) (py_range 0 num_groups))) (py_range 0 num_kv_heads))
           in Inr (col_max (no_max no) attn_doc))"

section \<open>The loop over the documents\<close>

fun accumulate_chunks ::
    "'s num_ops \<Rightarrow> int \<Rightarrow> int \<Rightarrow> int \<Rightarrow> int list \<Rightarrow> 's mat \<Rightarrow> 's mat \<Rightarrow> nat
     \<Rightarrow> ((int \<times> int) \<times> (int \<times> int)) list \<Rightarrow> 's list option list \<Rightarrow> 's list option list res" where
  "accumulate_chunks no hd_dim nh nkv sinks q k idx [] scores = Inr scores"
| "accumulate_chunks no hd_dim nh nkv sinks q k idx ((doc, zp) # rest) scores =
     (if snd doc - fst doc \<le> 0 \<or> snd zp - fst zp \<le> 0
      then accumulate_chunks no hd_dim nh nkv sinks q k (Suc idx) rest scores
      else
        rbind (chunk_kvzip_score no hd_dim nh nkv sinks q k doc zp) (\<lambda>kvzip_score.
        rbind (py_get scores (int idx)) (\<lambda>prev.
        rbind (case prev of None \<Rightarrow> Inr kvzip_score
               | Some p \<Rightarrow> torch_maximum (no_max no) p kvzip_score) (\<lambda>new.
        accumulate_chunks no hd_dim nh nkv sinks q k (Suc idx) rest (scores[idx := Some new])))))"

text \<open>The number of heads that the tensor has, when the parameters say otherwise.\<close>

definition adjust_heads :: "int \<Rightarrow> int \<Rightarrow> int \<Rightarrow> int res" where
  "adjust_heads cols num_heads head_dim =
     (if cols \<noteq> num_heads * head_dim then
        (if head_dim = 0 then Inl ZeroDivisionError else Inr (cols div head_dim))
      else Inr num_heads)"

text \<open>\<open>1.0 / math.sqrt(float(head_dim))\<close> is defined for a positive head dimension.\<close>

definition check_scale :: "int \<Rightarrow> unit res" where
  "check_scale head_dim =
     (if head_dim < 0 then Inl (ValueError ''math domain error'')
      else if head_dim = 0 then Inl ZeroDivisionError else Inr ())"

definition accumulate_kvzip_layer_score ::
    "'s num_ops \<Rightarrow> int list \<Rightarrow> int list \<Rightarrow> blend_info option \<Rightarrow> int \<Rightarrow> 's mat \<Rightarrow> 's mat
     \<Rightarrow> (int list \<Rightarrow> 's mat \<Rightarrow> 's mat \<Rightarrow> 's mat \<times> 's mat) option
     \<Rightarrow> 's digest_state \<Rightarrow> ('s digest_state \<times> blend_info option) res" where
  "accumulate_kvzip_layer_score no empty_pos empty_loc obi layer_id q k rotary_emb d =
     (case obi of
        None \<Rightarrow> Inr (d, obi)
      | Some bi \<Rightarrow>
          if bi_style bi \<noteq> Some KVCOMPUTE \<or> \<not> bi_is_contextblend bi then Inr (d, obi)
          else if (case bi_qcompute_end bi of None \<Rightarrow> False | Some e \<Rightarrow> e \<le> layer_id) then Inr (d, obi)
          else
            (case (bi_aug_doc_ranges bi, bi_aug_zip_ranges bi, bi_att_params bi) of
               (Some (dr # drs), Some (zr # zrs), Some params) \<Rightarrow>
                 let doc_ranges = dr # drs; zip_ranges = zr # zrs; head_dim = ap_head_dim params
                 in rbind (adjust_heads (m_cols q) (ap_num_heads params) head_dim) (\<lambda>num_heads.
                    rbind (adjust_heads (m_cols k) (ap_num_kv_heads params) head_dim) (\<lambda>num_kv_heads.
                    if num_heads \<le> 0 \<or> num_kv_heads \<le> 0 \<or> num_heads mod num_kv_heads \<noteq> 0 then Inr (d, obi)
                    else
                      let none_scores = replicate (length doc_ranges) None;
                          found = (case dm_scores d layer_id of None \<Rightarrow> none_scores | Some s \<Rightarrow> s);
                          layer_scores = (if length found \<noteq> length doc_ranges then none_scores else found)
                      in rbind (ensure_forward_positions empty_pos empty_loc bi) (\<lambda>(positions, bi').
                         rbind (case bi_aug_sys_range bi of None \<Rightarrow> Inl TypeError | Some r \<Rightarrow> Inr r) (\<lambda>(sys_start, sys_end).
                         let (q', k') = (case rotary_emb of None \<Rightarrow> (q, k) | Some rot \<Rightarrow> rot positions q k);
                             n_sink = max 0 (bi_context_n_sink bi);
                             sink_end = min sys_end (sys_start + n_sink);
                             sink_indices = py_range sys_start sink_end
                         in rbind (check_scale head_dim) (\<lambda>_.
                            rbind (accumulate_chunks no head_dim num_heads num_kv_heads sink_indices q' k' 0
                                     (zip doc_ranges zip_ranges) layer_scores) (\<lambda>scores'.
                            Inr (d\<lparr>dm_scores := (dm_scores d)(layer_id \<mapsto> scores')\<rparr>, Some bi')))))))
             | _ \<Rightarrow> Inr (d, obi)))"

section \<open>The score of a token, stated on its own\<close>

text \<open>How the row of query \<open>z\<close> under head \<open>h\<close> sees its document: the logits over the sink tokens, the
  tokens of the document and the zip prompt up to the query itself, and of their softmax the weight
  of token \<open>t\<close> of the document.  Head \<open>h\<close> reads key head \<open>h div (nh div nkv)\<close>.\<close>

definition zip_attention ::
    "'s num_ops \<Rightarrow> int \<Rightarrow> int \<Rightarrow> int \<Rightarrow> int list \<Rightarrow> 's mat \<Rightarrow> 's mat \<Rightarrow> int \<times> int \<Rightarrow> int \<times> int
     \<Rightarrow> int \<Rightarrow> int \<Rightarrow> int \<Rightarrow> 's" where
  "zip_attention no head_dim nh nkv sinks q k doc zp h z t =
     (let logit = (\<lambda>p. no_scale no head_dim
            (no_dot no (head_vec head_dim h (m_rows q ! nat z))
                       (head_vec head_dim (h div (nh div nkv)) (m_rows k ! nat p))))
      in no_softmax no (map logit sinks @ map logit [fst doc..snd doc - 1] @
           map (\<lambda>p. if z < p then no_min no else logit p) [fst zp..snd zp - 1])
         ! (length sinks + nat (t - fst doc)))"

text \<open>Accumulating \<open>new\<close> into an absent or present score, token by token: the largest of the old
  score and of the weights of all heads and queries of the zip prompt.\<close>

definition accumulated_score ::
    "'s::linorder num_ops \<Rightarrow> int \<Rightarrow> int \<Rightarrow> int \<Rightarrow> int list \<Rightarrow> 's mat \<Rightarrow> 's mat \<Rightarrow> int \<times> int \<Rightarrow> int \<times> int
     \<Rightarrow> 's list option \<Rightarrow> 's list" where
  "accumulated_score no head_dim nh nkv sinks q k doc zp old =
     map (\<lambda>t. Max ((case old of None \<Rightarrow> {} | Some s \<Rightarrow> {s ! nat (t - fst doc)}) \<union>
            (\<lambda>(h, z). zip_attention no head_dim nh nkv sinks q k doc zp h z t) `
              ({0..<nh} \<times> {fst zp..<snd zp})))
       [fst doc..snd doc - 1]"

section \<open>Lemmas\<close>

text \<open>What a row of logits shows to softmax: causality of the zip columns.\<close>

lemma length_masked_logits [simp]:
  "length (masked_logits no hd_dim zl zc qv keys i) = length keys"
  by (simp add: masked_logits_def)

lemma masked_logits_parts:
  assumes "length ks = nat zc" "length zs = nat zl" "0 \<le> zc" "i < zl" "0 \<le> i"
  shows "masked_logits no hd_dim zl zc qv (ks @ zs) i =
    map (\<lambda>kv. no_scale no hd_dim (no_dot no qv kv)) ks @
    map (\<lambda>(c, kv). if i < int c then no_min no else no_scale no hd_dim (no_dot no qv kv))
      (List.enumerate 0 zs)"
  (is "?l = ?r")
proof (rule nth_equalityI)
  show "length ?l = length ?r" by simp
  fix c assume "c < length ?l"
  then have c: "c < length ks + length zs" by simp
  show "?l ! c = ?r ! c"
  proof (cases "c < length ks")
    case True
    then have "int c < zc" using assms(1,3) by linarith
    with True c show ?thesis by (simp add: masked_logits_def nth_enumerate_eq nth_append)
  next
    case False
    then have n: "c - length ks < length zs" using c by simp
    have "(1 < zl \<and> zc \<le> int c \<and> i < int c - zc) = (i < int (c - length ks))"
      using False n assms(1-3,5) by linarith
    then have "?l ! c = (if i < int (c - length ks) then no_min no
        else no_scale no hd_dim (no_dot no qv (zs ! (c - length ks))))"
      using False c by (simp add: masked_logits_def nth_enumerate_eq nth_append)
    also have "\<dots> = ?r ! c" using False n by (simp add: nth_enumerate_eq nth_append)
    finally show ?thesis .
  qed
qed

lemma length_col_max:
  "rs \<noteq> [] \<Longrightarrow> \<forall>r \<in> set rs. length r = n \<Longrightarrow> length (col_max mx rs) = n"
  by (induction mx rs rule: col_max.induct) auto

lemma nth_col_max:
  fixes rs :: "'s::linorder list list"
  assumes "rs \<noteq> []" "\<forall>r \<in> set rs. length r = n" "j < n"
  shows "col_max max rs ! j = Max ((\<lambda>r. r ! j) ` set rs)"
  using assms
proof (induction rs)
  case (Cons r rs)
  show ?case
  proof (cases rs)
    case (Cons r' rs')
    then have ih: "col_max max rs ! j = Max ((\<lambda>r. r ! j) ` set rs)" using Cons.IH Cons.prems by simp
    have l: "length (col_max max rs) = n" using length_col_max [of rs n] Cons Cons.prems by simp
    have "col_max max (r # rs) = map2 max r (col_max max rs)" using Cons by simp
    then have "col_max max (r # rs) ! j = max (r ! j) (col_max max rs ! j)"
      using l Cons.prems by simp
    also have "\<dots> = Max ((\<lambda>r. r ! j) ` set (r # rs))" using ih Cons by simp
    finally show ?thesis .
  qed simp
qed simp

text \<open>The row the code computes for query \<open>zs + i\<close> under head \<open>h\<close> is the row of \<open>zip_attention\<close>.\<close>

lemma enumerate_py_range:
  "map (\<lambda>(c, x). f c x) (List.enumerate 0 (map g (py_range a b))) =
   map (\<lambda>p. f (nat (p - a)) (g p)) (py_range a b)"
  by (rule nth_equalityI) (simp_all add: nth_enumerate_eq)

lemma code_row:
  assumes "h = kv * G + g" "0 \<le> g" "g < G" "0 \<le> i" "i < ze - zs" "0 \<le> zs" "ds < de"
    and "int (length (py_slice (m_rows q) zs ze)) = ze - zs" "G = nh div nkv"
    and "\<And>r. length (no_softmax no r) = length r" "j < nat (de - ds)"
  shows "take (nat (de - ds)) (drop (nat (int (length sinks))) (no_softmax no
      (masked_logits no hd_dim (ze - zs) (int (length sinks) + (de - ds))
        (head_vec hd_dim h (py_slice (m_rows q) zs ze ! nat i))
        (map (head_vec hd_dim kv) (map (\<lambda>p. m_rows k ! nat p)
          (sinks @ py_range ds de @ py_range zs ze))) i))) ! j =
    zip_attention no hd_dim nh nkv sinks q k (ds, de) (zs, ze) h (zs + i) (ds + int j)"
proof -
  let ?F = "\<lambda>p. head_vec hd_dim kv (m_rows k ! nat p)"
  let ?Q = "head_vec hd_dim h (m_rows q ! nat (zs + i))"
  have hd: "h div (nh div nkv) = kv" using assms(1-3,9) by simp
  have qz: "py_slice (m_rows q) zs ze ! nat i = m_rows q ! nat (zs + i)"
  proof -
    have "nat i < length (drop (nat zs) (take (nat ze) (m_rows q)))"
      using assms(4-6,8) by (simp add: py_slice_nonneg)
    then have "nat zs + nat i < length (take (nat ze) (m_rows q))" by (simp only: length_drop)
    with assms(4-6) show ?thesis by (simp add: py_slice_nonneg nat_add_distrib)
  qed
  have ks: "length (map ?F (sinks @ py_range ds de)) = nat (int (length sinks) + (de - ds))"
    using assms(7) by (simp add: nat_add_distrib)
  have zl: "length (map ?F (py_range zs ze)) = nat (ze - zs)" by simp
  have pos: "0 \<le> int (length sinks) + (de - ds)" using assms(7) by simp
  have "masked_logits no hd_dim (ze - zs) (int (length sinks) + (de - ds)) ?Q
      (map ?F (sinks @ py_range ds de) @ map ?F (py_range zs ze)) i =
    map (\<lambda>kv. no_scale no hd_dim (no_dot no ?Q kv)) (map ?F (sinks @ py_range ds de)) @
    map (\<lambda>(c, kv). if i < int c then no_min no else no_scale no hd_dim (no_dot no ?Q kv))
      (List.enumerate 0 (map ?F (py_range zs ze)))"
    by (rule masked_logits_parts [OF ks zl pos assms(5,4)])
  also have "\<dots> = map (\<lambda>p. no_scale no hd_dim (no_dot no ?Q (?F p))) sinks @
      map (\<lambda>p. no_scale no hd_dim (no_dot no ?Q (?F p))) [ds..de - 1] @
      map (\<lambda>p. if zs + i < p then no_min no else no_scale no hd_dim (no_dot no ?Q (?F p))) [zs..ze - 1]"
    unfolding enumerate_py_range by (simp add: py_range_def comp_def)
  finally have row: "masked_logits no hd_dim (ze - zs) (int (length sinks) + (de - ds)) ?Q
      (map ?F (sinks @ py_range ds de) @ map ?F (py_range zs ze)) i = \<dots>" .
  have m: "map (head_vec hd_dim kv) (map (\<lambda>p. m_rows k ! nat p) (sinks @ py_range ds de @ py_range zs ze)) =
      map ?F (sinks @ py_range ds de) @ map ?F (py_range zs ze)" by simp
  show ?thesis
    using assms(7,10,11) unfolding m qz row zip_attention_def Let_def hd fst_conv snd_conv by simp
qed

lemma image_concat_pairs:
  "f ` set (concat (map (\<lambda>x. concat (map (\<lambda>y. map (F x y) zs) ys)) xs)) =
   {f (F x y z) | x y z. x \<in> set xs \<and> y \<in> set ys \<and> z \<in> set zs}"
  by auto

lemma chunk_score_eq:
  fixes no :: "'s::linorder num_ops"
  assumes sc: "chunk_kvzip_score no hd_dim nh nkv sinks q k (ds, de) (zs, ze) = Inr s"
    and sm: "\<And>r. length (no_softmax no r) = length r" and mx: "no_max no = max"
    and len: "ds < de" "zs < ze" and heads: "0 < nkv" "0 < nh" "nkv dvd nh"
  shows "s = accumulated_score no hd_dim nh nkv sinks q k (ds, de) (zs, ze) None"
proof -
  define G where "G = nh div nkv"
  have G: "0 < G" "nh = nkv * G" using heads by (auto simp: G_def elim!: dvdE zero_less_mult_pos)
  define row where "row = (\<lambda>kv g i. take (nat (de - ds)) (drop (nat (int (length sinks))) (no_softmax no
      (masked_logits no hd_dim (ze - zs) (int (length sinks) + (de - ds))
        (head_vec hd_dim (kv * G + g) (py_slice (m_rows q) zs ze ! nat i))
        (map (head_vec hd_dim kv) (map (\<lambda>p. m_rows k ! nat p)
          (sinks @ py_range ds de @ py_range zs ze))) i))))"
  define rows where "rows = concat (map (\<lambda>kv. concat (map (\<lambda>g. map (row kv g) (py_range 0 (ze - zs)))
      (py_range 0 G))) (py_range 0 nkv))"
  have lq: "int (length (py_slice (m_rows q) zs ze)) = ze - zs"
    and bnd: "\<not> (\<exists>i \<in> set (sinks @ py_range ds de @ py_range zs ze). i < 0 \<or> int (length (m_rows k)) \<le> i)"
    and s: "s = col_max max rows"
    using sc unfolding chunk_kvzip_score_def Let_def prod.case G_def [symmetric] mx rows_def row_def
    by (auto split: if_splits)
  have "zs \<in> set (sinks @ py_range ds de @ py_range zs ze)" using len(2) by simp
  then have zs0: "0 \<le> zs" using bnd not_less by blast
  have ne: "rows \<noteq> []" using G(1) len(2) heads(1) by (simp add: rows_def py_range_rec)
  have lr: "\<forall>r \<in> set rows. length r = nat (de - ds)"
    using sm len by (auto simp: rows_def row_def)
  have at: "row kv g i ! j = zip_attention no hd_dim nh nkv sinks q k (ds, de) (zs, ze) (kv * G + g) (zs + i) (ds + int j)"
    if "0 \<le> g" "g < G" "0 \<le> i" "i < ze - zs" "j < nat (de - ds)" for kv g i j
    unfolding row_def by (rule code_row [OF refl that(1-4) zs0 len(1) lq G_def sm that(5)])
  show ?thesis
  proof (rule nth_equalityI)
    show ls: "length s = length (accumulated_score no hd_dim nh nkv sinks q k (ds, de) (zs, ze) None)"
      using length_col_max [OF ne lr] by (simp add: s accumulated_score_def)
    fix j assume "j < length s"
    then have j: "j < nat (de - ds)" using ls by (simp add: accumulated_score_def)
    let ?w = "\<lambda>(h, z). zip_attention no hd_dim nh nkv sinks q k (ds, de) (zs, ze) h z (ds + int j)"
    have "s ! j = Max ((\<lambda>r. r ! j) ` set rows)" unfolding s by (rule nth_col_max [OF ne lr j])
    also have "(\<lambda>r. r ! j) ` set rows =
        {row kv g i ! j | kv g i. kv \<in> {0..<nkv} \<and> g \<in> {0..<G} \<and> i \<in> {0..<ze - zs}}"
      unfolding rows_def image_concat_pairs by simp
    also have "\<dots> = {?w (kv * G + g, zs + i) | kv g i. kv \<in> {0..<nkv} \<and> g \<in> {0..<G} \<and> i \<in> {0..<ze - zs}}"
      using at j by (auto; metis)
    also have "\<dots> = ?w ` ({0..<nh} \<times> {zs..<ze})" (is "?A = ?B")
    proof
      show "?A \<subseteq> ?B"
      proof
        fix x assume "x \<in> ?A"
        then obtain kv g i where x: "x = ?w (kv * G + g, zs + i)" and r: "0 \<le> kv" "kv < nkv" "0 \<le> g" "g < G"
          "0 \<le> i" "i < ze - zs" by auto
        have "kv * G + g < (kv + 1) * G" using r by (simp add: algebra_simps)
        also have "\<dots> \<le> nkv * G" using r G(1) by (intro mult_right_mono) auto
        finally have "(kv * G + g, zs + i) \<in> {0..<nh} \<times> {zs..<ze}" using r G by simp
        then show "x \<in> ?B" unfolding x by (rule imageI)
      qed
      show "?B \<subseteq> ?A"
      proof
        fix x assume "x \<in> ?B"
        then obtain h z where x: "x = ?w (h, z)" and r: "0 \<le> h" "h < nh" "zs \<le> z" "z < ze" by auto
        have "h div G < nkv"
        proof (rule ccontr)
          assume "\<not> h div G < nkv"
          then have "nkv * G \<le> h div G * G" using G(1) by (intro mult_right_mono) auto
          also have "\<dots> \<le> h" using G(1) by (simp add: mult.commute flip: minus_mod_eq_mult_div)
          finally show False using r(2) G(2) by simp
        qed
        then have "h div G \<in> {0..<nkv}" "h mod G \<in> {0..<G}" "z - zs \<in> {0..<ze - zs}"
          using r G(1) by (auto simp: pos_imp_zdiv_nonneg_iff)
        moreover have "x = ?w (h div G * G + h mod G, zs + (z - zs))" unfolding x by simp
        ultimately show "x \<in> ?A" by blast
      qed
    qed
    finally show "s ! j = accumulated_score no hd_dim nh nkv sinks q k (ds, de) (zs, ze) None ! j"
      using j by (simp add: accumulated_score_def)
  qed
qed


lemma accumulated_score_Some:
  fixes no :: "'s::linorder num_ops"
  assumes "int (length p) = snd dc - fst dc" "fst zp < snd zp" "0 < nh"
  shows "map2 max p (accumulated_score no hd_dim nh nkv sinks q k dc zp None) =
    accumulated_score no hd_dim nh nkv sinks q k dc zp (Some p)" (is "?l = ?r")
proof (rule nth_equalityI)
  show "length ?l = length ?r" using assms(1) by (simp add: accumulated_score_def)
  fix j assume "j < length ?l"
  then have j: "j < length p" "j < nat (snd dc - fst dc)" using assms(1) by (simp_all add: accumulated_score_def)
  let ?S = "(\<lambda>(h, z). zip_attention no hd_dim nh nkv sinks q k dc zp h z (fst dc + int j)) `
      ({0..<nh} \<times> {fst zp..<snd zp})"
  have "finite ?S" "?S \<noteq> {}" using assms(2,3) by auto
  then have "max (p ! j) (Max ?S) = Max ({p ! j} \<union> ?S)" by simp
  then show "?l ! j = ?r ! j" using j by (simp add: accumulated_score_def)
qed

section \<open>The scores of a layer\<close>

text \<open>One entry per document, each absent or with one score per token of the document.\<close>

definition scores_fit :: "(int \<times> int) list \<Rightarrow> 's list option list \<Rightarrow> bool" where
  "scores_fit docs scores \<longleftrightarrow> length scores = length docs \<and>
     (\<forall>i < length docs. \<forall>s. scores ! i = Some s \<longrightarrow> int (length s) = snd (docs ! i) - fst (docs ! i))"

text \<open>The scores a layer has before: none for any document when there are none or when they belong
  to another number of documents.\<close>

definition previous_scores :: "'s digest_state \<Rightarrow> int \<Rightarrow> nat \<Rightarrow> 's list option list" where
  "previous_scores d layer n =
     (case dm_scores d layer of
        Some s \<Rightarrow> if length s = n then s else replicate n None
      | None \<Rightarrow> replicate n None)"

lemma accumulate_chunks_scores:
  fixes no :: "'s::linorder num_ops"
  assumes "accumulate_chunks no hd_dim nh nkv sinks q k idx (zip (drop idx docs) zips) scores = Inr scores'"
    and "length scores = length docs"
    and "\<forall>i s. idx \<le> i \<and> i < length docs \<and> scores ! i = Some s \<longrightarrow>
      int (length s) = snd (docs ! i) - fst (docs ! i)"
    and sm: "\<And>r. length (no_softmax no r) = length r" and mx: "no_max no = max"
    and heads: "0 < nkv" "0 < nh" "nkv dvd nh"
  shows "length scores' = length docs \<and>
    (\<forall>i < length docs. scores' ! i =
      (if idx \<le> i \<and> i - idx < length zips \<and> fst (docs ! i) < snd (docs ! i) \<and>
          fst (zips ! (i - idx)) < snd (zips ! (i - idx))
       then Some (accumulated_score no hd_dim nh nkv sinks q k (docs ! i) (zips ! (i - idx)) (scores ! i))
       else scores ! i))"
  using assms(1-3)
proof (induction "zip (drop idx docs) zips" arbitrary: idx zips scores)
  case Nil
  then have "zip (drop idx docs) zips = []" by simp
  with Nil.prems show ?case by auto
next
  case (Cons p ps)
  obtain dc zp where p: "p = (dc, zp)" by (cases p)
  have lt: "idx < length docs" using Cons.hyps(2) by (cases "idx < length docs") auto
  then have dr: "drop idx docs = docs ! idx # drop (Suc idx) docs" by (simp add: Cons_nth_drop_Suc)
  obtain zs where zs: "zips = zp # zs" and dc: "dc = docs ! idx" and ps: "ps = zip (drop (Suc idx) docs) zs"
    using Cons.hyps(2) p by (cases zips) (auto simp: dr)
  have z: "zip (drop idx docs) zips = (dc, zp) # zip (drop (Suc idx) docs) zs" using dr zs dc by simp
  have shift: "zips ! (i - idx) = zs ! (i - Suc idx)" "(i - idx < length zips) = (i - Suc idx < length zs)"
    if "Suc idx \<le> i" for i
    using that zs by (simp_all add: nth_Cons' Suc_diff_Suc) auto
  show ?case
  proof (cases "snd dc - fst dc \<le> 0 \<or> snd zp - fst zp \<le> 0")
    case True
    with Cons.prems(1) have "accumulate_chunks no hd_dim nh nkv sinks q k (Suc idx)
        (zip (drop (Suc idx) docs) zs) scores = Inr scores'" by (simp only: z) simp
    note ih = Cons.hyps(1) [OF ps this Cons.prems(2)]
    have skip: "\<not> (fst (docs ! idx) < snd (docs ! idx) \<and> fst (zips ! 0) < snd (zips ! 0))"
      using True zs dc by auto
    show ?thesis
    proof (intro conjI allI impI)
      show "length scores' = length docs" using ih Cons.prems(3) by auto
      fix i assume i: "i < length docs"
      consider "i < idx" | "i = idx" | "Suc idx \<le> i" by linarith
      then show "scores' ! i = (if idx \<le> i \<and> i - idx < length zips \<and> fst (docs ! i) < snd (docs ! i) \<and>
          fst (zips ! (i - idx)) < snd (zips ! (i - idx))
        then Some (accumulated_score no hd_dim nh nkv sinks q k (docs ! i) (zips ! (i - idx)) (scores ! i))
        else scores ! i)"
        using ih i skip shift Cons.prems(3) by cases auto
    qed
  next
    case False
    with Cons.prems(1) obtain sc prev new where sc: "chunk_kvzip_score no hd_dim nh nkv sinks q k dc zp = Inr sc"
      and prev: "py_get scores (int idx) = Inr prev"
      and new: "(case prev of None \<Rightarrow> Inr sc | Some p \<Rightarrow> torch_maximum (no_max no) p sc) = Inr new"
      and rec: "accumulate_chunks no hd_dim nh nkv sinks q k (Suc idx)
        (zip (drop (Suc idx) docs) zs) (scores[idx := Some new]) = Inr scores'"
      by (simp only: z) (auto simp: rbind_Inr_iff)
    have pos: "fst dc < snd dc" "fst zp < snd zp" using False by auto
    have sc_eq: "sc = accumulated_score no hd_dim nh nkv sinks q k dc zp None"
      using chunk_score_eq [of no hd_dim nh nkv sinks q k "fst dc" "snd dc" "fst zp" "snd zp" sc] sc sm mx pos heads
      by simp
    have pv: "prev = scores ! idx" using prev lt Cons.prems(2) by simp
    have new_eq: "new = accumulated_score no hd_dim nh nkv sinks q k dc zp (scores ! idx)"
    proof (cases prev)
      case None
      with new sc_eq pv show ?thesis by simp
    next
      case (Some p')
      then have l: "int (length p') = snd dc - fst dc" using pv Cons.prems(3) lt dc by auto
      then have "length p' = length sc" by (simp add: sc_eq accumulated_score_def)
      with Some new have "new = map2 max p' sc" by (simp add: torch_maximum_def mx)
      with Some pv show ?thesis using accumulated_score_Some [OF l pos(2) heads(2)] by (simp add: sc_eq)
    qed
    have "\<forall>i s. Suc idx \<le> i \<and> i < length docs \<and> scores[idx := Some new] ! i = Some s \<longrightarrow>
      int (length s) = snd (docs ! i) - fst (docs ! i)" using Cons.prems(3) by auto
    note ih = Cons.hyps(1) [OF ps rec _ this]
    show ?thesis
    proof (intro conjI allI impI)
      show "length scores' = length docs" using ih Cons.prems(2) by auto
      fix i assume i: "i < length docs"
      consider "i < idx" | "i = idx" | "Suc idx \<le> i" by linarith
      then show "scores' ! i = (if idx \<le> i \<and> i - idx < length zips \<and> fst (docs ! i) < snd (docs ! i) \<and>
          fst (zips ! (i - idx)) < snd (zips ! (i - idx))
        then Some (accumulated_score no hd_dim nh nkv sinks q k (docs ! i) (zips ! (i - idx)) (scores ! i))
        else scores ! i)"
        using ih i shift Cons.prems(2) pos dc zs new_eq lt by cases auto
    qed
  qed
qed

lemma length_accumulated_score [simp]:
  "length (accumulated_score no hd_dim nh nkv sinks q k dc zp old) = nat (snd dc - fst dc)"
  by (simp add: accumulated_score_def)


section \<open>Property\<close>

text \<open>C36: what a KVCOMPUTE layer accumulates into the scores of its documents. After a call that
  does not return early, every document whose range and zip range are not empty has for each of its
  tokens the largest of its previous score, if it had one, and of the softmax weights that the queries
  of its zip prompt give to the token under any query head, where each query sees the sink tokens, the
  document and the zip prompt up to itself, on the rotated copies of \<open>q\<close> and \<open>k\<close>. The other documents
  keep what they had, the scores still fit the documents, the other layers and everything else of the
  class are untouched, and the batch has its positions. The softmax keeps the length of a row, and the
  maximum is that of a linear order (no NaN). The scores of the layer count as absent when their
  number is not the number of documents.\<close>

theorem kvzip_scores_are_attention_maxima:
  fixes no :: "'s::linorder num_ops"
  assumes run: "accumulate_kvzip_layer_score no ep el (Some bi) layer q k rot d = Inr (d', obi')"
    and active: "bi_style bi = Some KVCOMPUTE" "bi_is_contextblend bi"
      "\<forall>e. bi_qcompute_end bi = Some e \<longrightarrow> layer < e"
    and batch: "bi_aug_doc_ranges bi = Some docs" "docs \<noteq> []" "bi_aug_zip_ranges bi = Some zips" "zips \<noteq> []"
      "bi_att_params bi = Some ap" "bi_aug_sys_range bi = Some (ss, se)"
    and pos: "ensure_forward_positions ep el bi = Inr (positions, bi')"
    and heads: "adjust_heads (m_cols q) (ap_num_heads ap) (ap_head_dim ap) = Inr nh"
      "adjust_heads (m_cols k) (ap_num_kv_heads ap) (ap_head_dim ap) = Inr nkv" "0 < nh" "0 < nkv" "nkv dvd nh"
    and arith: "\<And>r. length (no_softmax no r) = length r" "no_max no = max"
    and old: "previous_scores d layer (length docs) = old" "scores_fit docs old"
    and rotated: "(case rot of None \<Rightarrow> (q, k) | Some f \<Rightarrow> f positions q k) = (q', k')"
    and sinks: "py_range ss (min se (ss + max 0 (bi_context_n_sink bi))) = sinks"
  shows "obi' = Some bi' \<and> (\<exists>scores. d' = d\<lparr>dm_scores := (dm_scores d)(layer \<mapsto> scores)\<rparr> \<and>
    scores_fit docs scores \<and>
    (\<forall>i < length docs. scores ! i =
      (if i < length zips \<and> fst (docs ! i) < snd (docs ! i) \<and> fst (zips ! i) < snd (zips ! i)
       then Some (accumulated_score no (ap_head_dim ap) nh nkv sinks q' k' (docs ! i) (zips ! i) (old ! i))
       else old ! i)))"
proof -
  obtain dr drs zr zrs where ranges: "docs = dr # drs" "zips = zr # zrs"
    using batch(2,4) by (cases docs; cases zips) auto
  have act: "\<not> (bi_style bi \<noteq> Some KVCOMPUTE \<or> \<not> bi_is_contextblend bi)"
    "\<not> (case bi_qcompute_end bi of None \<Rightarrow> False | Some e \<Rightarrow> e \<le> layer)"
    using active by (auto split: option.splits)
  have hd: "\<not> (nh \<le> 0 \<or> nkv \<le> 0 \<or> nh mod nkv \<noteq> 0)" using heads(3-5) by auto
  have prev: "(let found = (case dm_scores d layer of None \<Rightarrow> replicate (length docs) None | Some s \<Rightarrow> s)
      in if length found \<noteq> length docs then replicate (length docs) None else found) = old"
    using old(1) by (auto simp: previous_scores_def split: option.splits if_splits)
  from run [unfolded accumulate_kvzip_layer_score_def option.case batch ranges list.case if_not_P [OF act(1)]
      if_not_P [OF act(2)] Let_def heads(1,2) rbind_simps if_not_P [OF hd] pos prod.case,
      folded ranges, unfolded prev [unfolded Let_def] rotated prod.case sinks]
  obtain scores where acc: "accumulate_chunks no (ap_head_dim ap) nh nkv sinks q' k' 0 (zip docs zips) old = Inr scores"
    and out: "d' = d\<lparr>dm_scores := (dm_scores d)(layer \<mapsto> scores)\<rparr>" "obi' = Some bi'"
    by (auto simp: rbind_Inr_iff)
  have res: "length scores = length docs \<and> (\<forall>i < length docs. scores ! i =
      (if i < length zips \<and> fst (docs ! i) < snd (docs ! i) \<and> fst (zips ! i) < snd (zips ! i)
       then Some (accumulated_score no (ap_head_dim ap) nh nkv sinks q' k' (docs ! i) (zips ! i) (old ! i))
       else old ! i))"
    using accumulate_chunks_scores [of no "ap_head_dim ap" nh nkv sinks q' k' 0 docs zips old scores]
      acc old(2) arith heads(3-5) by (simp add: scores_fit_def)
  have "scores_fit docs scores"
    unfolding scores_fit_def
  proof (intro conjI allI impI)
    fix i s assume i: "i < length docs" and s: "scores ! i = Some s"
    show "int (length s) = snd (docs ! i) - fst (docs ! i)"
    proof (cases "i < length zips \<and> fst (docs ! i) < snd (docs ! i) \<and> fst (zips ! i) < snd (zips ! i)")
      case True
      with res i have "scores ! i = Some (accumulated_score no (ap_head_dim ap) nh nkv sinks q' k' (docs ! i) (zips ! i) (old ! i))"
        by simp
      with s True show ?thesis by auto
    next
      case False
      with res i s old(2) show ?thesis by (simp add: scores_fit_def)
    qed
  qed (use res in simp)
  with res out show ?thesis by blast
qed

text \<open>Two documents of three and two tokens with zip prompts of two and one, one head of
  dimension one; the first document had a score before, the second gets its score from query 7.\<close>

definition example_ops :: "int num_ops" where
  "example_ops = \<lparr>no_dot = (\<lambda>a b. sum_list (map2 (*) a b)), no_scale = (\<lambda>_ x. x), no_min = - 1000,
     no_softmax = (\<lambda>r. r), no_max = max\<rparr>"

definition example_kvcompute :: blend_info where
  "example_kvcompute = new_blend_info\<lparr>bi_style := Some KVCOMPUTE, bi_is_contextblend := True,
     bi_att_params := Some \<lparr>ap_num_heads = 1, ap_num_kv_heads = 1, ap_head_dim = 1, ap_num_layers = 1\<rparr>,
     bi_context_n_sink := 0, bi_aug_sys_range := Some (0, 1), bi_positions := Some [],
     bi_aug_doc_ranges := Some [(1, 4), (6, 8)], bi_aug_zip_ranges := Some [(4, 6), (8, 9)]\<rparr>"

definition example_mat :: "int list \<Rightarrow> int mat" where
  "example_mat xs = \<lparr>m_cols = 1, m_rows = map (\<lambda>x. [x]) xs\<rparr>"

theorem kvzip_scores_are_attention_maxima_witness:
  "accumulate_kvzip_layer_score example_ops [] [] (Some example_kvcompute) 0
      (example_mat [0, 0, 0, 0, 1, 2, 0, 0, 7]) (example_mat [5, 1, 2, 3, 4, 5, 6, 7, 8]) None
      (digest_clear\<lparr>dm_scores := [0 \<mapsto> [Some [9, 0, 5], None]]\<rparr>)
     = Inr (digest_clear\<lparr>dm_scores := [0 \<mapsto> [Some [9, 4, 6], Some [42, 49]]]\<rparr>, Some example_kvcompute) \<and>
   accumulated_score example_ops 1 1 1 [] (example_mat [0, 0, 0, 0, 1, 2, 0, 0, 7])
      (example_mat [5, 1, 2, 3, 4, 5, 6, 7, 8]) (1, 4) (4, 6) (Some [9, 0, 5]) = [9, 4, 6]"
proof -
  let ?q = "example_mat [0, 0, 0, 0, 1, 2, 0, 0, 7]" and ?k = "example_mat [5, 1, 2, 3, 4, 5, 6, 7, 8]"
  let ?d = "digest_clear\<lparr>dm_scores := [0 \<mapsto> [Some [9, 0, 5], None]]\<rparr> :: int digest_state"
  let ?d' = "digest_clear\<lparr>dm_scores := [0 \<mapsto> [Some [9, 4, 6], Some [42, 49]]]\<rparr> :: int digest_state"
  let ?docs = "[(1, 4), (6, 8)] :: (int \<times> int) list" and ?zips = "[(4, 6), (8, 9)] :: (int \<times> int) list"
  let ?ap = "\<lparr>ap_num_heads = 1, ap_num_kv_heads = 1, ap_head_dim = 1, ap_num_layers = 1\<rparr>"
  have c: "accumulate_chunks example_ops 1 1 1 [] ?q ?k 0 [((1, 4), (4, 6)), ((6, 8), (8, 9))] [Some [9, 0, 5], None]
    = Inr [Some [9, 4, 6], Some [42, 49]]"
    by code_simp
  have f: "bi_style example_kvcompute = Some KVCOMPUTE" "bi_is_contextblend example_kvcompute"
    "bi_qcompute_end example_kvcompute = None" "bi_context_n_sink example_kvcompute = 0"
    "bi_aug_doc_ranges example_kvcompute = Some [(1, 4), (6, 8)]"
    "bi_aug_zip_ranges example_kvcompute = Some [(4, 6), (8, 9)]"
    "bi_aug_sys_range example_kvcompute = Some (0, 1)" "bi_positions example_kvcompute = Some []"
    "bi_att_params example_kvcompute = Some ?ap"
    by (simp_all add: example_kvcompute_def new_blend_info_def)
  have m: "m_cols (example_mat xs) = 1" for xs by (simp add: example_mat_def)
  have r: "accumulate_kvzip_layer_score example_ops [] [] (Some example_kvcompute) 0 ?q ?k None ?d
     = Inr (?d', Some example_kvcompute)"
    by (simp add: accumulate_kvzip_layer_score_def f m adjust_heads_def check_scale_def
        ensure_forward_positions_def digest_clear_def numeral_2_eq_2 c [unfolded One_nat_def]
        del: accumulate_chunks.simps)
  have e: "\<forall>e. bi_qcompute_end example_kvcompute = Some e \<longrightarrow> 0 < e" by (simp add: f)
  have p: "ensure_forward_positions [] [] example_kvcompute = Inr ([], example_kvcompute)"
    by (simp add: ensure_forward_positions_def f)
  have h: "adjust_heads (m_cols ?q) (ap_num_heads ?ap) (ap_head_dim ?ap) = Inr 1"
    "adjust_heads (m_cols ?k) (ap_num_kv_heads ?ap) (ap_head_dim ?ap) = Inr 1"
    by (simp_all add: adjust_heads_def m)
  have sm: "\<And>r. length (no_softmax example_ops r) = length r" "no_max example_ops = max"
    by (simp_all add: example_ops_def)
  have o1: "previous_scores ?d 0 (length [(1, 4), (6, 8) :: int \<times> int]) = [Some [9, 0, 5], None]"
    by (simp add: previous_scores_def)
  have o2: "scores_fit [(1, 4), (6, 8)] [Some [9, 0, 5], None :: int list option]"
    by (auto simp: scores_fit_def nth_Cons' less_Suc_eq)
  have rt: "(case None :: (int list \<Rightarrow> int mat \<Rightarrow> int mat \<Rightarrow> int mat \<times> int mat) option of None \<Rightarrow> (?q, ?k)
      | Some f \<Rightarrow> f [] ?q ?k) = (?q, ?k)" by simp
  have sk: "py_range 0 (min 1 (0 + max 0 (bi_context_n_sink example_kvcompute))) = []" by (simp add: f)
  have ne: "?docs \<noteq> []" "?zips \<noteq> []" "(0 :: int) < 1" "(1 :: int) dvd 1" by simp_all
  from kvzip_scores_are_attention_maxima [OF r f(1,2) e f(5) ne(1) f(6) ne(2) f(9) f(7) p h ne(3) ne(3) ne(4) sm o1 o2 rt sk,
      THEN conjunct2]
  obtain scores where sc: "?d' = ?d\<lparr>dm_scores := (dm_scores ?d)(0 \<mapsto> scores)\<rparr>"
    and at: "\<forall>i < length ?docs. scores ! i =
      (if i < length ?zips \<and> fst (?docs ! i) < snd (?docs ! i) \<and> fst (?zips ! i) < snd (?zips ! i)
       then Some (accumulated_score example_ops (ap_head_dim ?ap) 1 1 [] ?q ?k (?docs ! i) (?zips ! i)
         ([Some [9, 0, 5], None] ! i)) else [Some [9, 0, 5], None] ! i)" by (elim exE conjE) (rule that)
  from arg_cong [OF sc, where f = "\<lambda>d. dm_scores d 0"] have "scores = [Some [9, 4, 6], Some [42, 49]]" by simp
  with at [rule_format, of 0] r show ?thesis by simp
qed

end
