(* ===== verification/PackedKV.thy ===== *)
theory PackedKV
  imports Files KVPool
begin

text \<open>
  The packed chunk cache of \<open>srt/utils/kv_ssd_manager.py\<close>: \<open>_save_packed_kv\<close> writes the K and
  V tensors of all layers one after the other into a binary file and their byte ranges, shapes and
  dtypes into a JSON file; \<open>_load_packed_meta\<close> validates the pair; one or several layers are read
  into a reusable pinned buffer (\<open>_read_packed_block_to_slot\<close>) and viewed as tensors
  (\<open>_copy_packed_layer_from_block_to_gpu\<close>).

  The operating system may answer a read with fewer bytes than asked for, or with none yet, and the
  pinned buffer keeps bytes of earlier reads: both are arguments of the model (\<open>os_reader\<close>,
  \<open>junk\<close>). Copies between host and device are the identity on tensors.
\<close>

section \<open>Names\<close>

definition PACKED_FORMAT :: string where "PACKED_FORMAT = ''sgblend_kv_packed_v1''"
definition PACKED_BIN_NAME :: string where "PACKED_BIN_NAME = ''kv_packed.bin''"
definition PACKED_META_NAME :: string where "PACKED_META_NAME = ''kv_packed_meta.json''"

section \<open>Writing\<close>

text \<open>\<open>tensor.view(torch.uint8)\<close> of a 0-dimensional tensor raises unless elements are bytes.\<close>

definition write_tensor_bytes :: "byte list \<Rightarrow> tensor \<Rightarrow> byte list res" where
  "write_tensor_bytes f t =
     (if t_shape t = [] \<and> element_size (t_dtype t) \<noteq> 1 then Inl (RuntimeError ''view'')
      else Inr (f @ t_data t))"

definition item_meta :: "int \<Rightarrow> int \<Rightarrow> int list \<Rightarrow> string \<Rightarrow> json" where
  "item_meta offset nbytes shape dtype_name =
     JObj [(''offset'', JInt offset), (''nbytes'', JInt nbytes),
           (''shape'', JList (map JInt shape)), (''dtype'', JStr dtype_name)]"

text \<open>The loop \<open>for name, tensor in (("k", full_k), ("v", full_v))\<close>: the file, the running offset
  and the layer's metadata.\<close>

fun write_tensors ::
    "byte list \<Rightarrow> int \<Rightarrow> (string \<times> json) list \<Rightarrow> (string \<times> tensor) list
     \<Rightarrow> (byte list \<times> int \<times> (string \<times> json) list) res" where
  "write_tensors f offset layer_meta [] = Inr (f, offset, layer_meta)"
| "write_tensors f offset layer_meta ((name, t) # ts) =
     rbind (dtype_to_packed_name (t_dtype t)) (\<lambda>dtype_name.
       let nbytes = tensor_nbytes (t_shape t) (t_dtype t)
       in rbind (write_tensor_bytes f t) (\<lambda>f'.
            write_tensors f' (offset + nbytes)
              (dict_set name (item_meta offset nbytes (t_shape t) dtype_name) layer_meta) ts))"

definition select_rows :: "int list option \<Rightarrow> tensor \<times> tensor \<Rightarrow> (tensor \<times> tensor) res" where
  "select_rows token_indices kv =
     (case token_indices of
        None \<Rightarrow> Inr kv
      | Some idx \<Rightarrow> rbind (index_select (fst kv) idx) (\<lambda>k. rbind (index_select (snd kv) idx) (\<lambda>v. Inr (k, v))))"

definition require_kv :: "string \<Rightarrow> tensor option \<times> tensor option \<Rightarrow> (tensor \<times> tensor) res" where
  "require_kv msg okv =
     (case okv of (Some k, Some v) \<Rightarrow> Inr (k, v) | _ \<Rightarrow> Inl (ValueError msg))"

definition layer_token_indices ::
    "int list option \<Rightarrow> int list option list option \<Rightarrow> int \<Rightarrow> int list option res" where
  "layer_token_indices token_indices by_layer layer_id =
     (case by_layer of Some bl \<Rightarrow> py_get bl layer_id | None \<Rightarrow> Inr token_indices)"

fun save_packed_loop ::
    "(int \<Rightarrow> (tensor option \<times> tensor option) res) \<Rightarrow> int list option \<Rightarrow> int list option list option
     \<Rightarrow> byte list \<Rightarrow> int \<Rightarrow> (string \<times> json) list \<Rightarrow> int list \<Rightarrow> (byte list \<times> (string \<times> json) list) res" where
  "save_packed_loop get_layer_kv token_indices by_layer f offset layers [] = Inr (f, layers)"
| "save_packed_loop get_layer_kv token_indices by_layer f offset layers (layer_id # ids) =
     rbind (get_layer_kv layer_id) (\<lambda>okv.
     rbind (require_kv ''Missing KV tensor'' okv) (\<lambda>kv.
     rbind (layer_token_indices token_indices by_layer layer_id) (\<lambda>idx.
     rbind (select_rows idx kv) (\<lambda>(full_k, full_v).
     rbind (write_tensors f offset [] [(''k'', full_k), (''v'', full_v)]) (\<lambda>(f', offset', layer_meta).
     save_packed_loop get_layer_kv token_indices by_layer f' offset'
       (dict_set (py_str layer_id) (JObj layer_meta) layers) ids)))))"

definition save_packed_kv ::
    "string \<Rightarrow> int \<Rightarrow> (int \<Rightarrow> (tensor option \<times> tensor option) res) \<Rightarrow> int list option
     \<Rightarrow> int list option list option \<Rightarrow> ssd \<Rightarrow> ssd res" where
  "save_packed_kv sample_dir num_layers get_layer_kv token_indices by_layer s =
     rbind (save_packed_loop get_layer_kv token_indices by_layer [] 0 [] (py_range 0 num_layers))
       (\<lambda>(f, layers).
         Inr (write_json (os_path_join sample_dir PACKED_META_NAME)
               (JObj [(''format'', JStr PACKED_FORMAT), (''num_layers'', JInt num_layers),
                      (''layers'', JObj layers)])
               (write_bin (os_path_join sample_dir PACKED_BIN_NAME) f s)))"

definition save_all_chunk_cache :: "string \<Rightarrow> int \<Rightarrow> int list option \<Rightarrow> kv_pool \<Rightarrow> ssd \<Rightarrow> ssd res" where
  "save_all_chunk_cache sample_dir num_layers token_indices p s =
     save_packed_kv sample_dir num_layers (get_kv p) token_indices None s"

section \<open>Validating\<close>

definition packed_name_to_dtype :: "json \<Rightarrow> dtype res" where
  "packed_name_to_dtype name =
     (case name of
        JStr s \<Rightarrow> (case map_of packed_dtype_map s of
                     None \<Rightarrow> Inl (ValueError ''Unsupported packed KV dtype name'') | Some d \<Rightarrow> Inr d)
      | JList _ \<Rightarrow> Inl TypeError
      | JObj _ \<Rightarrow> Inl TypeError
      | _ \<Rightarrow> Inl (ValueError ''Unsupported packed KV dtype name''))"

text \<open>\<open>isinstance(shape, list) and all(isinstance(dim, int) and dim >= 0 for dim in shape)\<close>\<close>

definition shape_dims :: "json \<Rightarrow> int list option" where
  "shape_dims j =
     (case as_list j of
        None \<Rightarrow> None
      | Some xs \<Rightarrow>
          if list_all (\<lambda>x. case as_int x of None \<Rightarrow> False | Some d \<Rightarrow> 0 \<le> d) xs
          then Some (map (\<lambda>x. the (as_int x)) xs) else None)"

text \<open>\<open>_validate_tensor_item\<close>; the loop body of \<open>_load_packed_meta\<close> makes the same checks in the
  same order. The result is the offset after the item.\<close>

definition validate_tensor_item :: "json \<Rightarrow> int \<Rightarrow> int \<Rightarrow> int res" where
  "validate_tensor_item item file_size expected_offset =
     (case as_dict item of
        None \<Rightarrow> Inl (ValueError ''Missing packed KV metadata'')
      | Some d \<Rightarrow>
          let get = (\<lambda>key. case map_of d key of None \<Rightarrow> JNull | Some v \<Rightarrow> v)
          in (case (as_int (get ''offset''), as_int (get ''nbytes'')) of
                (Some offset, Some nbytes) \<Rightarrow>
                  if offset < 0 \<or> nbytes < 0 \<or> file_size < offset + nbytes
                  then Inl (ValueError ''Bad packed KV byte range'')
                  else if offset \<noteq> expected_offset then Inl (ValueError ''Non-contiguous packed KV offset'')
                  else
                    (case shape_dims (get ''shape'') of
                       None \<Rightarrow> Inl (ValueError ''Bad packed KV shape'')
                     | Some shape \<Rightarrow>
                         rbind (packed_name_to_dtype (get ''dtype'')) (\<lambda>dt.
                         if nbytes \<noteq> tensor_nbytes shape dt then Inl (ValueError ''Bad packed KV nbytes'')
                         else Inr (expected_offset + nbytes)))
              | _ \<Rightarrow> Inl (ValueError ''Bad packed KV byte range'')))"

definition validate_layer :: "(string \<times> json) list \<Rightarrow> int \<Rightarrow> int \<Rightarrow> int \<Rightarrow> int res" where
  "validate_layer layers layer_id file_size expected_offset =
     (case (case map_of layers (py_str layer_id) of None \<Rightarrow> None | Some l \<Rightarrow> as_dict l) of
        None \<Rightarrow> Inl (ValueError ''Missing packed KV metadata for layer'')
      | Some layer \<Rightarrow>
          let get = (\<lambda>key. case map_of layer key of None \<Rightarrow> JNull | Some v \<Rightarrow> v)
          in rbind (validate_tensor_item (get ''k'') file_size expected_offset)
               (validate_tensor_item (get ''v'') file_size))"

fun validate_layers :: "(string \<times> json) list \<Rightarrow> int \<Rightarrow> int \<Rightarrow> int list \<Rightarrow> int res" where
  "validate_layers layers file_size expected_offset [] = Inr expected_offset"
| "validate_layers layers file_size expected_offset (layer_id # ids) =
     rbind (validate_layer layers layer_id file_size expected_offset)
       (\<lambda>offset. validate_layers layers file_size offset ids)"

definition load_packed_meta :: "string \<Rightarrow> int option \<Rightarrow> ssd \<Rightarrow> json res" where
  "load_packed_meta sample_dir expected_num_layers s =
     rbind (read_json (os_path_join sample_dir PACKED_META_NAME) s) (\<lambda>meta.
     rbind (read_bin (os_path_join sample_dir PACKED_BIN_NAME) s) (\<lambda>bin.
     rbind (json_get meta ''format'' JNull) (\<lambda>fmt.
     if fmt \<noteq> JStr PACKED_FORMAT then Inl (ValueError ''Unsupported packed KV format'')
     else
       rbind (json_get meta ''num_layers'' JNull) (\<lambda>jn.
       case as_int jn of
         None \<Rightarrow> Inl (ValueError ''Bad packed KV num_layers'')
       | Some num_layers \<Rightarrow>
           if num_layers < 0 then Inl (ValueError ''Bad packed KV num_layers'')
           else if expected_num_layers \<noteq> None \<and> expected_num_layers \<noteq> Some num_layers
           then Inl (ValueError ''Packed KV num_layers mismatch'')
           else
             rbind (json_get meta ''layers'' JNull) (\<lambda>jl.
             case as_dict jl of
               None \<Rightarrow> Inl (ValueError ''Bad packed KV layers metadata'')
             | Some layers \<Rightarrow>
                 let file_size = int (length bin)
                 in rbind (validate_layers layers file_size 0 (py_range 0 num_layers)) (\<lambda>expected_offset.
                    if expected_offset \<noteq> file_size then Inl (ValueError ''Packed KV size mismatch'')
                    else Inr meta))))))"

section \<open>Reading into the pinned block\<close>

text \<open>How the operating system answers the reads of one open file: before answer \<open>i\<close> it says
  \<open>or_waits i\<close> times that nothing is available (\<open>readinto\<close> returns \<open>None\<close>), then it transfers
  at most \<open>or_most i + 1\<close> bytes.\<close>

record os_reader =
  or_waits :: "nat \<Rightarrow> nat"
  or_most :: "nat \<Rightarrow> nat"

definition blit :: "byte list \<Rightarrow> nat \<Rightarrow> byte list \<Rightarrow> byte list" where
  "blit buf start bs = take start buf @ bs @ drop (start + length bs) buf"

function read_exact_loop ::
    "os_reader \<Rightarrow> byte list \<Rightarrow> nat \<Rightarrow> nat \<Rightarrow> nat \<Rightarrow> byte list \<Rightarrow> nat \<Rightarrow> nat \<Rightarrow> byte list res" where
  "read_exact_loop os data pos i w buf tot nbytes =
     (if tot < nbytes then
        if w < or_waits os i then read_exact_loop os data pos i (w + 1) buf tot nbytes
        else
          let bs = take (min (or_most os i + 1) (nbytes - tot)) (drop (pos + tot) data)
          in if bs = [] then Inl (EOFError ''Unexpected EOF while reading packed KV payload'')
             else read_exact_loop os data pos (i + 1) 0 (blit buf tot bs) (tot + length bs) nbytes
      else Inr buf)"
  by pat_completeness auto
termination
  by (relation "measures [\<lambda>(os, data, pos, i, w, buf, tot, nbytes). nbytes - tot,
      \<lambda>(os, data, pos, i, w, buf, tot, nbytes). or_waits os i - w]") (auto simp: Let_def)

declare read_exact_loop.simps [simp del]

definition read_exact_into :: "os_reader \<Rightarrow> byte list \<Rightarrow> int \<Rightarrow> byte list \<Rightarrow> int \<Rightarrow> byte list res" where
  "read_exact_into os data pos buf nbytes =
     (if pos < 0 then Inl OSError else read_exact_loop os data (nat pos) 0 0 buf 0 (nat nbytes))"

text \<open>The slot of a transfer pool: the pinned buffer survives, the description of the block it
  holds is cleared before every load.\<close>

record block =
  bl_layer_ids :: "int list"
  bl_offset :: int
  bl_nbytes :: int
  bl_meta :: json

record slot =
  sl_buf :: "byte list option"
  sl_capacity :: int
  sl_block :: "block option"

definition empty_slot :: slot where
  "empty_slot = \<lparr>sl_buf = None, sl_capacity = 0, sl_block = None\<rparr>"

definition clear_slot_metadata :: "slot \<Rightarrow> slot" where
  "clear_slot_metadata sl = sl\<lparr>sl_block := None\<rparr>"

text \<open>\<open>torch.empty\<close> returns whatever the memory holds: \<open>junk\<close>.\<close>

definition ensure_slot_byte_buf :: "(nat \<Rightarrow> byte) \<Rightarrow> int \<Rightarrow> slot \<Rightarrow> slot" where
  "ensure_slot_byte_buf junk nbytes sl =
     (if sl_buf sl \<noteq> None \<and> nbytes \<le> sl_capacity sl then sl
      else let capacity = max nbytes 16384
           in sl\<lparr>sl_buf := Some (map junk [0..<nat capacity]), sl_capacity := capacity\<rparr>)"

record tensor_item =
  ti_offset :: int
  ti_end :: int
  ti_nbytes :: int
  ti_shape :: "int list"
  ti_dtype :: dtype

definition need_int :: "json \<Rightarrow> int res" where
  "need_int j = (case as_int j of None \<Rightarrow> Inl TypeError | Some i \<Rightarrow> Inr i)"

definition need_ints :: "json \<Rightarrow> int list res" where
  "need_ints j = (case as_list j of None \<Rightarrow> Inl TypeError | Some xs \<Rightarrow> rmap need_int xs)"

definition packed_tensor_meta :: "json \<Rightarrow> int \<Rightarrow> string \<Rightarrow> tensor_item res" where
  "packed_tensor_meta meta layer_id name =
     rbind (json_sub meta ''layers'') (\<lambda>layers.
     rbind (json_sub layers (py_str layer_id)) (\<lambda>layer.
     rbind (json_sub layer name) (\<lambda>item.
     rbind (rbind (json_sub item ''offset'') need_int) (\<lambda>offset.
     rbind (rbind (json_sub item ''nbytes'') need_int) (\<lambda>nbytes.
     rbind (rbind (json_sub item ''shape'') need_ints) (\<lambda>shape.
     rbind (rbind (json_sub item ''dtype'') packed_name_to_dtype) (\<lambda>dt.
     Inr \<lparr>ti_offset = offset, ti_end = offset + nbytes, ti_nbytes = nbytes, ti_shape = shape,
          ti_dtype = dt\<rparr>)))))))"

text \<open>Every tensor of the block lies inside it.\<close>

fun check_block_items :: "json \<Rightarrow> int \<Rightarrow> int \<Rightarrow> (int \<times> string) list \<Rightarrow> unit res" where
  "check_block_items meta block_offset block_end [] = Inr ()"
| "check_block_items meta block_offset block_end ((layer_id, name) # xs) =
     rbind (packed_tensor_meta meta layer_id name) (\<lambda>item.
     if ti_offset item < block_offset \<or> block_end < ti_end item
     then Inl (ValueError ''Packed KV layer is outside block range'')
     else check_block_items meta block_offset block_end xs)"

definition block_items :: "int list \<Rightarrow> (int \<times> string) list" where
  "block_items layer_ids = concat (map (\<lambda>l. [(l, ''k''), (l, ''v'')]) layer_ids)"

text \<open>The body that \<open>_read_packed_block_to_slot\<close> and \<open>_read_query_layers_to_slot\<close> share: the
  block of consecutive layers, checked and read from the binary file at \<open>bin_path\<close>.\<close>

definition read_block_to_slot ::
    "os_reader \<Rightarrow> (nat \<Rightarrow> byte) \<Rightarrow> string \<Rightarrow> json \<Rightarrow> int list \<Rightarrow> ssd \<Rightarrow> slot \<Rightarrow> slot res" where
  "read_block_to_slot os junk bin_path meta layer_ids s sl =
     rbind (packed_tensor_meta meta (hd layer_ids) ''k'') (\<lambda>first_k.
     rbind (packed_tensor_meta meta (last layer_ids) ''v'') (\<lambda>last_v.
     let block_offset = ti_offset first_k; block_end = ti_end last_v;
         block_nbytes = block_end - block_offset
     in if block_nbytes < 0 then Inl (ValueError ''Bad packed KV block range'')
        else
          rbind (check_block_items meta block_offset block_end (block_items layer_ids)) (\<lambda>_.
          let sl1 = ensure_slot_byte_buf junk block_nbytes sl
          in rbind (read_bin bin_path s) (\<lambda>bin.
             rbind (read_exact_into os bin block_offset (the (sl_buf sl1)) block_nbytes) (\<lambda>buf.
             Inr (sl1\<lparr>sl_buf := Some buf,
                      sl_block := Some \<lparr>bl_layer_ids = layer_ids, bl_offset = block_offset,
                                         bl_nbytes = block_nbytes, bl_meta = meta\<rparr>\<rparr>))))))"

definition read_packed_block_to_slot ::
    "os_reader \<Rightarrow> (nat \<Rightarrow> byte) \<Rightarrow> string \<Rightarrow> json \<Rightarrow> int list \<Rightarrow> ssd \<Rightarrow> slot \<Rightarrow> slot res" where
  "read_packed_block_to_slot os junk sample_dir meta layer_ids s sl =
     (if layer_ids = [] then Inl (ValueError ''Cannot read empty packed KV layer block'')
      else read_block_to_slot os junk (os_path_join sample_dir PACKED_BIN_NAME) meta layer_ids s sl)"

definition read_packed_layer_to_slot ::
    "os_reader \<Rightarrow> (nat \<Rightarrow> byte) \<Rightarrow> string \<Rightarrow> json \<Rightarrow> int \<Rightarrow> ssd \<Rightarrow> slot \<Rightarrow> slot res" where
  "read_packed_layer_to_slot os junk sample_dir meta layer_id s sl =
     read_packed_block_to_slot os junk sample_dir meta [layer_id] s sl"

section \<open>Views of the block\<close>

text \<open>\<open>buf[rel : rel + nbytes].view(dtype).view(shape)\<close>: the byte view must start at and have a
  multiple of the element size, and the shape must have as many elements as there are.\<close>

definition view_bytes :: "int \<Rightarrow> byte list \<Rightarrow> dtype \<Rightarrow> int list \<Rightarrow> tensor res" where
  "view_bytes rel bs dt shape =
     (let es = int (element_size dt)
      in if rel mod es \<noteq> 0 \<or> int (length bs) mod es \<noteq> 0 then Inl (RuntimeError ''view dtype'')
         else if (\<exists>d \<in> set shape. d < 0) \<or> tensor_nbytes shape dt \<noteq> int (length bs)
         then Inl (RuntimeError ''view shape'')
         else Inr \<lparr>t_dtype = dt, t_shape = shape, t_data = bs\<rparr>)"

definition view_from_block :: "slot \<Rightarrow> block \<Rightarrow> int \<Rightarrow> string \<Rightarrow> tensor res" where
  "view_from_block sl b layer_id name =
     rbind (packed_tensor_meta (bl_meta b) layer_id name) (\<lambda>item.
     let rel = ti_offset item - bl_offset b
     in if rel < 0 \<or> bl_nbytes b < rel + ti_nbytes item
        then Inl (ValueError ''Packed KV layer is outside pinned block'')
        else view_bytes rel (py_slice (the (sl_buf sl)) rel (rel + ti_nbytes item))
               (ti_dtype item) (ti_shape item))"

definition copy_packed_layer_from_block_to_gpu :: "slot \<Rightarrow> int \<Rightarrow> (tensor \<times> tensor) res" where
  "copy_packed_layer_from_block_to_gpu sl layer_id =
     (case sl_block sl of
        None \<Rightarrow> Inl KeyError
      | Some b \<Rightarrow>
          rbind (view_from_block sl b layer_id ''k'') (\<lambda>k.
          rbind (view_from_block sl b layer_id ''v'') (\<lambda>v. Inr (k, v))))"

definition load_packed_layer_to_gpu ::
    "os_reader \<Rightarrow> (nat \<Rightarrow> byte) \<Rightarrow> string \<Rightarrow> json \<Rightarrow> int \<Rightarrow> ssd \<Rightarrow> slot \<Rightarrow> ((tensor \<times> tensor) \<times> slot) res" where
  "load_packed_layer_to_gpu os junk sample_dir meta layer_id s sl =
     rbind (read_packed_layer_to_slot os junk sample_dir meta layer_id s (clear_slot_metadata sl)) (\<lambda>sl'.
     rbind (copy_packed_layer_from_block_to_gpu sl' layer_id) (\<lambda>kv. Inr (kv, sl')))"

text \<open>\<open>cls._num_layers or None\<close>\<close>

definition load_layer_to_gpu ::
    "os_reader \<Rightarrow> (nat \<Rightarrow> byte) \<Rightarrow> string \<Rightarrow> int \<Rightarrow> int \<Rightarrow> ssd \<Rightarrow> slot \<Rightarrow> ((tensor \<times> tensor) \<times> slot) res" where
  "load_layer_to_gpu os junk sample_dir num_layers layer_id s sl =
     rbind (load_packed_meta sample_dir (if num_layers = 0 then None else Some num_layers) s) (\<lambda>meta.
       load_packed_layer_to_gpu os junk sample_dir meta layer_id s sl)"

section \<open>Reading exactly\<close>

definition file_slice :: "byte list \<Rightarrow> int \<Rightarrow> int \<Rightarrow> byte list" where
  "file_slice bin off nb = take (nat nb) (drop (nat off) bin)"

lemma length_file_slice: "0 \<le> off \<Longrightarrow> 0 \<le> nb \<Longrightarrow> off + nb \<le> int (length bin) \<Longrightarrow>
  int (length (file_slice bin off nb)) = nb"
  by (simp add: file_slice_def)

lemma length_blit: "start + length bs \<le> length buf \<Longrightarrow> length (blit buf start bs) = length buf"
  by (simp add: blit_def)

lemma blit_append:
  "start + length xs + length ys \<le> length buf \<Longrightarrow>
   blit (blit buf start xs) (start + length xs) ys = blit buf start (xs @ ys)"
proof -
  assume a: "start + length xs + length ys \<le> length buf"
  then have "length (take start buf) = start" by simp
  then have "take (start + length xs) (take start buf @ xs @ drop (start + length xs) buf) = take start buf @ xs"
    "drop (start + length xs + length ys) (take start buf @ xs @ drop (start + length xs) buf)
       = drop (start + length xs + length ys) buf"
    using a by (simp_all add: ac_simps)
  then show ?thesis by (simp add: blit_def ac_simps)
qed

lemma blit_empty [simp]: "start \<le> length buf \<Longrightarrow> blit buf start [] = buf"
  by (simp add: blit_def)

text \<open>Whatever the pattern of short reads, the wanted bytes arrive, or the file is too short.\<close>

lemma read_exact_loop_eq:
  "tot \<le> nbytes \<Longrightarrow> nbytes \<le> length buf \<Longrightarrow>
   read_exact_loop os data pos i w buf tot nbytes =
     (if tot = nbytes \<or> pos + nbytes \<le> length data
      then Inr (blit buf tot (take (nbytes - tot) (drop (pos + tot) data)))
      else Inl (EOFError ''Unexpected EOF while reading packed KV payload''))"
proof (induction os data pos i w buf tot nbytes rule: read_exact_loop.induct)
  case (1 os data pos i w buf tot nbytes)
  show ?case
  proof (cases "tot < nbytes")
    case False
    with "1.prems" show ?thesis by (simp add: read_exact_loop.simps [of os data pos i])
  next
    case lt: True
    show ?thesis
    proof (cases "w < or_waits os i")
      case True
      with "1.IH"(1) [OF lt True "1.prems"] lt show ?thesis
        by (simp add: read_exact_loop.simps [of os data pos i w])
    next
      case False
      define m where "m = min (or_most os i + 1) (nbytes - tot)"
      define bs where "bs = take m (drop (pos + tot) data)"
      have m: "0 < m" "tot + m \<le> nbytes" using lt by (auto simp: m_def)
      have step: "read_exact_loop os data pos i w buf tot nbytes =
        (if bs = [] then Inl (EOFError ''Unexpected EOF while reading packed KV payload'')
         else read_exact_loop os data pos (i + 1) 0 (blit buf tot bs) (tot + length bs) nbytes)"
        using lt False unfolding bs_def m_def
        by (subst read_exact_loop.simps) (simp only: if_True if_False Let_def)
      show ?thesis
      proof (cases "bs = []")
        case True
        then have "length data \<le> pos + tot" using m by (simp add: bs_def)
        with True step lt show ?thesis by simp
      next
        case ne: False
        have lb: "tot + length bs \<le> nbytes" using m by (simp add: bs_def)
        have lb2: "nbytes \<le> length (blit buf tot bs)"
          using lb "1.prems" by (simp add: length_blit)
        have rest: "take (nbytes - tot) (drop (pos + tot) data)
          = bs @ take (nbytes - (tot + length bs)) (drop (pos + (tot + length bs)) data)"
        proof (cases "length bs = m")
          case True
          have "nbytes - tot = m + (nbytes - (tot + m))" using m by simp
          then have "take (nbytes - tot) (drop (pos + tot) data)
            = take m (drop (pos + tot) data) @ take (nbytes - (tot + m)) (drop m (drop (pos + tot) data))"
            by (metis take_add)
          with True show ?thesis by (simp add: bs_def ac_simps)
        next
          case False
          then have "length data \<le> pos + tot + m" by (auto simp: bs_def min_def split: if_splits)
          then have "bs = drop (pos + tot) data" by (simp add: bs_def)
          with lb show ?thesis by simp
        qed
        have "tot + length bs = nbytes \<or> pos + nbytes \<le> length data \<longleftrightarrow> pos + nbytes \<le> length data"
        proof -
          have "length bs \<le> length data - (pos + tot)" by (simp add: bs_def)
          moreover have "0 < length bs" using ne by simp
          ultimately have "tot + length bs = nbytes \<Longrightarrow> pos + nbytes \<le> length data" by linarith
          then show ?thesis by blast
        qed
        moreover have "blit (blit buf tot bs) (tot + length bs)
            (take (nbytes - (tot + length bs)) (drop (pos + (tot + length bs)) data))
          = blit buf tot (take (nbytes - tot) (drop (pos + tot) data))"
          unfolding rest using lb "1.prems" by (intro blit_append) simp
        ultimately show ?thesis
          using step ne lt "1.IH"(2) [OF lt False bs_def [unfolded m_def] ne lb lb2] by simp
      qed
    qed
  qed
qed

lemma read_exact_into_ok:
  assumes "0 \<le> pos" "0 \<le> nb" "pos + nb \<le> int (length data)" "nb \<le> int (length buf)"
  shows "read_exact_into os data pos buf nb = Inr (file_slice data pos nb @ drop (nat nb) buf)"
proof -
  have "nat pos + nat nb \<le> length data" "nat nb \<le> length buf" using assms by linarith+
  then show ?thesis
    using assms(1) by (simp add: read_exact_into_def read_exact_loop_eq file_slice_def blit_def)
qed

section \<open>Loading a block\<close>

definition slot_wf :: "slot \<Rightarrow> bool" where
  "slot_wf sl \<longleftrightarrow> (\<forall>buf. sl_buf sl = Some buf \<longrightarrow> int (length buf) = sl_capacity sl)"

lemma slot_wf_clear [simp]: "slot_wf (clear_slot_metadata sl) \<longleftrightarrow> slot_wf sl"
  by (simp add: slot_wf_def clear_slot_metadata_def)

lemma slot_wf_empty [simp]: "slot_wf empty_slot"
  by (simp add: slot_wf_def empty_slot_def)

lemma ensure_slot_byte_buf_ok:
  assumes "slot_wf sl"
  obtains buf where "sl_buf (ensure_slot_byte_buf junk nb sl) = Some buf" "nb \<le> int (length buf)"
    "int (length buf) = sl_capacity (ensure_slot_byte_buf junk nb sl)"
proof (cases "sl_buf sl \<noteq> None \<and> nb \<le> sl_capacity sl")
  case True
  with assms that show thesis by (auto simp: ensure_slot_byte_buf_def slot_wf_def)
next
  case False
  then have e: "ensure_slot_byte_buf junk nb sl
      = sl\<lparr>sl_buf := Some (map junk [0..<nat (max nb 16384)]), sl_capacity := max nb 16384\<rparr>"
    by (auto simp: ensure_slot_byte_buf_def Let_def)
  show thesis by (rule that [of "map junk [0..<nat (max nb 16384)]"]) (simp_all add: e max_def)
qed

text \<open>The items of the block, and what the buffer holds after the read.\<close>

lemma read_block_to_slot_ok:
  assumes "packed_tensor_meta meta (hd ids) ''k'' = Inr fk" "packed_tensor_meta meta (last ids) ''v'' = Inr lv"
    and "0 \<le> ti_offset fk" "ti_offset fk \<le> ti_end lv" "ti_end lv \<le> int (length bin)"
    and "check_block_items meta (ti_offset fk) (ti_end lv) (block_items ids) = Inr ()"
    and "read_bin path s = Inr bin" "slot_wf sl"
  shows "\<exists>sl' rest. read_block_to_slot os junk path meta ids s sl = Inr sl' \<and> slot_wf sl' \<and>
    sl_buf sl' = Some (file_slice bin (ti_offset fk) (ti_end lv - ti_offset fk) @ rest) \<and>
    sl_block sl' = Some \<lparr>bl_layer_ids = ids, bl_offset = ti_offset fk,
      bl_nbytes = ti_end lv - ti_offset fk, bl_meta = meta\<rparr>"
proof -
  let ?nb = "ti_end lv - ti_offset fk"
  let ?sl = "ensure_slot_byte_buf junk ?nb sl"
  obtain buf where buf: "sl_buf ?sl = Some buf" "?nb \<le> int (length buf)" "int (length buf) = sl_capacity ?sl"
    by (rule ensure_slot_byte_buf_ok [OF assms(8)])
  have r: "read_exact_into os bin (ti_offset fk) buf ?nb
      = Inr (file_slice bin (ti_offset fk) ?nb @ drop (nat ?nb) buf)"
    using assms(3-5) buf(2) by (intro read_exact_into_ok) auto
  have len: "int (length (file_slice bin (ti_offset fk) ?nb @ drop (nat ?nb) buf)) = sl_capacity ?sl"
    using assms(3-5) buf length_file_slice [of "ti_offset fk" ?nb bin] by auto
  show ?thesis
    using assms(1,2,4,6,7) buf(1) r len
    by (intro exI [of _ "?sl\<lparr>sl_buf := Some (file_slice bin (ti_offset fk) ?nb @ drop (nat ?nb) buf),
          sl_block := Some \<lparr>bl_layer_ids = ids, bl_offset = ti_offset fk, bl_nbytes = ?nb, bl_meta = meta\<rparr>\<rparr>"]
        exI [of _ "drop (nat ?nb) buf"]) (simp add: read_block_to_slot_def Let_def slot_wf_def)
qed

text \<open>A tensor of the block is the file's bytes at its offset, seen with its dtype and shape.\<close>

definition file_tensor :: "byte list \<Rightarrow> tensor_item \<Rightarrow> tensor" where
  "file_tensor bin it =
     \<lparr>t_dtype = ti_dtype it, t_shape = ti_shape it, t_data = file_slice bin (ti_offset it) (ti_nbytes it)\<rparr>"

text \<open>An item the validation accepts, for a file of \<open>fsize\<close> bytes.\<close>

definition item_ok :: "int \<Rightarrow> tensor_item \<Rightarrow> bool" where
  "item_ok fsize it \<longleftrightarrow> 0 \<le> ti_offset it \<and> ti_end it = ti_offset it + ti_nbytes it \<and>
     ti_end it \<le> fsize \<and> (\<forall>d \<in> set (ti_shape it). 0 \<le> d) \<and>
     ti_nbytes it = tensor_nbytes (ti_shape it) (ti_dtype it)"

lemma item_ok_nonneg: "item_ok fsize it \<Longrightarrow> 0 \<le> ti_nbytes it"
  by (simp add: item_ok_def tensor_nbytes_nonneg)

lemma slice_of_block:
  assumes "0 \<le> c" "c \<le> a" "0 \<le> nb" "a + nb \<le> c + n" "c + n \<le> int (length bin)"
  shows "py_slice (file_slice bin c n @ rest) (a - c) (a - c + nb) = file_slice bin a nb"
proof -
  have n: "length (file_slice bin c n) = nat n" using assms by (simp add: file_slice_def)
  have "py_slice (file_slice bin c n @ rest) (a - c) (a - c + nb)
      = drop (nat (a - c)) (take (nat (a - c + nb)) (file_slice bin c n @ rest))"
    using assms by (simp add: py_slice_nonneg)
  also have "take (nat (a - c + nb)) (file_slice bin c n @ rest) = take (nat (a - c + nb)) (drop (nat c) bin)"
    using assms n by (simp add: file_slice_def min_def)
  also have "drop (nat (a - c)) \<dots> = take (nat (a - c + nb) - nat (a - c)) (drop (nat (a - c) + nat c) bin)"
    by (simp add: drop_take)
  also have "nat (a - c + nb) - nat (a - c) = nat nb" using assms by (simp add: nat_add_distrib)
  also have "nat (a - c) + nat c = nat a" using assms by (simp add: nat_diff_distrib)
  finally show ?thesis by (simp add: file_slice_def)
qed

lemma element_size_pos_names: "dtype_to_packed_name d = Inr n \<Longrightarrow> 0 < element_size d"
  by (cases d) (simp_all add: dtype_to_packed_name_def packed_dtype_names_def packed_dtype_map_def)

lemma view_from_block_ok:
  assumes "packed_tensor_meta (bl_meta b) l name = Inr it" "item_ok (int (length bin)) it"
    and "0 \<le> bl_offset b" "bl_offset b \<le> ti_offset it" "ti_end it \<le> bl_offset b + bl_nbytes b"
    and "bl_offset b + bl_nbytes b \<le> int (length bin)"
    and "sl_buf sl = Some (file_slice bin (bl_offset b) (bl_nbytes b) @ rest)"
  shows "view_from_block sl b l name =
    (if (ti_offset it - bl_offset b) mod int (element_size (ti_dtype it)) = 0
     then Inr (file_tensor bin it) else Inl (RuntimeError ''view dtype''))"
proof -
  have e: "ti_end it = ti_offset it + ti_nbytes it" "0 \<le> ti_nbytes it"
    using assms(2) item_ok_nonneg by (auto simp: item_ok_def)
  have sl: "py_slice (the (sl_buf sl)) (ti_offset it - bl_offset b) (ti_offset it - bl_offset b + ti_nbytes it)
      = file_slice bin (ti_offset it) (ti_nbytes it)"
    using assms e by (simp add: slice_of_block)
  have len: "int (length (file_slice bin (ti_offset it) (ti_nbytes it))) = ti_nbytes it"
    using assms(2) e by (intro length_file_slice) (auto simp: item_ok_def)
  have "ti_nbytes it mod int (element_size (ti_dtype it)) = 0"
    using assms(2) by (simp add: item_ok_def tensor_nbytes_def)
  moreover have "\<not> (\<exists>d \<in> set (ti_shape it). d < 0)" "tensor_nbytes (ti_shape it) (ti_dtype it) = ti_nbytes it"
    using assms(2) by (auto simp: item_ok_def)
  ultimately show ?thesis
    using assms e sl len by (simp add: view_from_block_def view_bytes_def Let_def file_tensor_def)
qed

text \<open>Loading one layer whose two items are adjacent and inside the file.\<close>

lemma load_packed_layer_ok:
  assumes "packed_tensor_meta meta l ''k'' = Inr ik" "packed_tensor_meta meta l ''v'' = Inr iv"
    and "item_ok (int (length bin)) ik" "item_ok (int (length bin)) iv" "ti_offset iv = ti_end ik"
    and "read_bin (os_path_join dir PACKED_BIN_NAME) s = Inr bin" "slot_wf sl"
  shows "\<exists>sl'. slot_wf sl' \<and> load_packed_layer_to_gpu os junk dir meta l s sl =
    (if ti_nbytes ik mod int (element_size (ti_dtype iv)) = 0
     then Inr ((file_tensor bin ik, file_tensor bin iv), sl') else Inl (RuntimeError ''view dtype''))"
proof -
  have e: "0 \<le> ti_offset ik" "0 \<le> ti_nbytes ik" "0 \<le> ti_nbytes iv" "ti_end ik = ti_offset ik + ti_nbytes ik"
    "ti_end iv = ti_end ik + ti_nbytes iv" "ti_end iv \<le> int (length bin)"
    using assms(3-5) item_ok_nonneg by (auto simp: item_ok_def)
  have chk: "check_block_items meta (ti_offset ik) (ti_end iv) (block_items [l]) = Inr ()"
    using e assms(1,2,5) by (simp add: block_items_def)
  have "\<exists>sl' rest. read_block_to_slot os junk (os_path_join dir PACKED_BIN_NAME) meta [l] s (clear_slot_metadata sl)
      = Inr sl' \<and> slot_wf sl' \<and>
      sl_buf sl' = Some (file_slice bin (ti_offset ik) (ti_end iv - ti_offset ik) @ rest) \<and>
      sl_block sl' = Some \<lparr>bl_layer_ids = [l], bl_offset = ti_offset ik,
        bl_nbytes = ti_end iv - ti_offset ik, bl_meta = meta\<rparr>"
    using e assms by (intro read_block_to_slot_ok chk) auto
  then obtain sl' rest where sl': "read_block_to_slot os junk (os_path_join dir PACKED_BIN_NAME) meta [l] s
        (clear_slot_metadata sl) = Inr sl'" "slot_wf sl'"
    "sl_buf sl' = Some (file_slice bin (ti_offset ik) (ti_end iv - ti_offset ik) @ rest)"
    "sl_block sl' = Some \<lparr>bl_layer_ids = [l], bl_offset = ti_offset ik,
        bl_nbytes = ti_end iv - ti_offset ik, bl_meta = meta\<rparr>" by blast
  let ?b = "\<lparr>bl_layer_ids = [l], bl_offset = ti_offset ik, bl_nbytes = ti_end iv - ti_offset ik, bl_meta = meta\<rparr>"
  have k: "view_from_block sl' ?b l ''k'' = Inr (file_tensor bin ik)"
    using view_from_block_ok [of ?b l "''k''" ik bin sl' rest] assms(1,3) e sl'(3) by simp
  have v: "view_from_block sl' ?b l ''v'' = (if ti_nbytes ik mod int (element_size (ti_dtype iv)) = 0
     then Inr (file_tensor bin iv) else Inl (RuntimeError ''view dtype''))"
    using view_from_block_ok [of ?b l "''v''" iv bin sl' rest] assms(2,4,5) e sl'(3) by simp
  show ?thesis
    using sl'(1,2,4) k v
    by (intro exI [of _ sl']) (simp add: load_packed_layer_to_gpu_def read_packed_layer_to_slot_def
        read_packed_block_to_slot_def copy_packed_layer_from_block_to_gpu_def)
qed

end
