(* ===== verification/PackedCorrect.thy ===== *)
theory PackedCorrect
  imports PackedKV
begin

text \<open>
  Correctness of the packed chunk cache: what \<open>_save_packed_kv\<close> leaves on the SSD passes the
  validation of \<open>_load_packed_meta\<close> and every layer read back is the layer that was saved,
  whatever the pinned buffer held before and however the reads were split; and metadata that passes
  the validation, from wherever it came, never makes a load leave the file.
\<close>

section \<open>The layout of a saved file\<close>

definition nb :: "tensor \<Rightarrow> int" where
  "nb t = tensor_nbytes (t_shape t) (t_dtype t)"

definition packable :: "tensor \<Rightarrow> bool" where
  "packable t \<longleftrightarrow> tensor_wf t \<and> (\<exists>name. dtype_to_packed_name (t_dtype t) = Inr name)"

definition pname :: "tensor \<Rightarrow> string" where
  "pname t = projr (dtype_to_packed_name (t_dtype t))"

lemma packable_data: "packable t \<Longrightarrow> int (length (t_data t)) = nb t"
  by (simp add: packable_def tensor_wf_def nb_def)

lemma nb_nonneg: "packable t \<Longrightarrow> 0 \<le> nb t"
  using packable_data [of t] by simp

definition entry :: "int \<Rightarrow> tensor \<Rightarrow> json" where
  "entry off t = item_meta off (nb t) (t_shape t) (pname t)"

definition layer_entry :: "int \<Rightarrow> tensor \<Rightarrow> tensor \<Rightarrow> json" where
  "layer_entry off k v = JObj [(''k'', entry off k), (''v'', entry (off + nb k) v)]"

type_synonym layer_kv = "int \<times> tensor \<times> tensor"

fun kv_bytes :: "layer_kv list \<Rightarrow> byte list" where
  "kv_bytes [] = []"
| "kv_bytes ((l, k, v) # r) = t_data k @ t_data v @ kv_bytes r"

fun laid_out :: "(string \<times> json) list \<Rightarrow> int \<Rightarrow> layer_kv list \<Rightarrow> bool" where
  "laid_out layers off [] \<longleftrightarrow> True"
| "laid_out layers off ((l, k, v) # r) \<longleftrightarrow> map_of layers (py_str l) = Some (layer_entry off k v) \<and>
     packable k \<and> packable v \<and> laid_out layers (off + nb k + nb v) r"

lemma kv_bytes_append: "kv_bytes (xs @ ys) = kv_bytes xs @ kv_bytes ys"
  by (induction xs rule: kv_bytes.induct) auto

lemma laid_out_append:
  "laid_out layers off (xs @ ys) \<longleftrightarrow>
     laid_out layers off xs \<and> laid_out layers (off + int (length (kv_bytes xs))) ys"
proof (induction layers off xs rule: laid_out.induct)
  case (2 layers off l k v r)
  show ?case
  proof (cases "packable k \<and> packable v")
    case True
    then have "off + nb k + nb v + int (length (kv_bytes r)) = off + int (length (kv_bytes ((l, k, v) # r)))"
      by (simp add: packable_data [symmetric])
    with 2 show ?thesis by (simp add: True)
  qed auto
qed simp

text \<open>An entry read back.\<close>

lemma shape_dims_ints: "\<forall>d \<in> set ds. 0 \<le> d \<Longrightarrow> shape_dims (JList (map JInt ds)) = Some ds"
  by (simp add: shape_dims_def list_all_iff o_def)

lemma rmap_need_int_JInt: "rmap need_int (map JInt ds) = Inr ds"
  by (induction ds) (simp_all add: need_int_def)

lemma packed_name_of_pname: "packable t \<Longrightarrow> packed_name_to_dtype (JStr (pname t)) = Inr (t_dtype t)"
proof -
  assume "packable t"
  then obtain name where "dtype_to_packed_name (t_dtype t) = Inr name" by (auto simp: packable_def)
  then show ?thesis
    by (simp add: pname_def packed_name_to_dtype_def packed_names_roundtrip)
qed

lemma validate_entry:
  assumes "packable t" "0 \<le> off" "off + nb t \<le> fsize"
  shows "validate_tensor_item (entry off t) fsize off = Inr (off + nb t)"
proof -
  have "0 \<le> nb t" using nb_nonneg [OF assms(1)] .
  moreover have "shape_dims (JList (map JInt (t_shape t))) = Some (t_shape t)"
    using assms(1) by (intro shape_dims_ints) (simp add: packable_def tensor_wf_def)
  ultimately show ?thesis
    using assms packed_name_of_pname [OF assms(1)]
    by (simp add: validate_tensor_item_def entry_def item_meta_def Let_def nb_def)
qed

lemma validate_laid_out:
  "laid_out layers off kvs \<Longrightarrow> 0 \<le> off \<Longrightarrow> off + int (length (kv_bytes kvs)) \<le> fsize \<Longrightarrow>
   validate_layers layers fsize off (map fst kvs) = Inr (off + int (length (kv_bytes kvs)))"
proof (induction layers off kvs rule: laid_out.induct)
  case (2 layers off l k v r)
  then have p: "packable k" "packable v" and m: "map_of layers (py_str l) = Some (layer_entry off k v)"
    by simp_all
  have len: "int (length (kv_bytes ((l, k, v) # r))) = nb k + nb v + int (length (kv_bytes r))"
    using p by (simp add: packable_data [symmetric])
  have nn: "0 \<le> nb k" "0 \<le> nb v" using p nb_nonneg by auto
  have "validate_layer layers l fsize off = Inr (off + nb k + nb v)"
    using m p 2(3,4) len nn by (simp add: validate_layer_def layer_entry_def validate_entry)
  with 2 len nn show ?case by simp
qed simp

section \<open>Saving\<close>

lemma write_kv_ok:
  assumes "tensor_wf k" "tensor_wf v" "write_tensors f off [] [(''k'', k), (''v'', v)] = Inr (f', off', lm)"
  shows "f' = f @ t_data k @ t_data v \<and> off' = off + nb k + nb v \<and> JObj lm = layer_entry off k v \<and>
    packable k \<and> packable v"
proof -
  from assms(3) obtain nk nv where n: "dtype_to_packed_name (t_dtype k) = Inr nk"
    "dtype_to_packed_name (t_dtype v) = Inr nv"
    and r: "f' = f @ t_data k @ t_data v" "off' = off + nb k + nb v"
    "lm = [(''k'', item_meta off (nb k) (t_shape k) nk), (''v'', item_meta (off + nb k) (nb v) (t_shape v) nv)]"
    by (auto simp: rbind_Inr_iff Let_def write_tensor_bytes_def nb_def split: if_splits)
  with assms(1,2) show ?thesis
    by (auto simp: packable_def layer_entry_def entry_def pname_def)
qed

lemma select_rows_wf:
  assumes "select_rows idx (k, v) = Inr (k', v')" "tensor_wf k" "tensor_wf v"
  shows "tensor_wf k'" "tensor_wf v'"
  using assms by (auto simp: select_rows_def rbind_Inr_iff split: option.splits dest: index_select_wf(1))

lemma require_kv_Inr_iff: "require_kv msg okv = Inr kv \<longleftrightarrow> okv = (Some (fst kv), Some (snd kv))"
  by (cases okv; cases kv) (auto simp: require_kv_def split: option.splits)

text \<open>Where the saved tensors come from.\<close>

definition saved_from ::
    "(int \<Rightarrow> (tensor option \<times> tensor option) res) \<Rightarrow> int list option \<Rightarrow> layer_kv \<Rightarrow> bool" where
  "saved_from get_layer_kv idx x \<longleftrightarrow>
     (\<exists>k v. get_layer_kv (fst x) = Inr (Some k, Some v) \<and> select_rows idx (k, v) = Inr (snd x))"

lemma save_loop_laid_out:
  assumes "save_packed_loop get idx None f off layers ids = Inr (f', layers')"
    and "distinct ids" "\<forall>l \<in> set ids. 0 \<le> l"
    and "\<And>l k v. get l = Inr (Some k, Some v) \<Longrightarrow> tensor_wf k \<and> tensor_wf v"
  shows "\<exists>kvs. map fst kvs = ids \<and> f' = f @ kv_bytes kvs \<and> laid_out layers' off kvs \<and>
    (\<forall>x \<in> set kvs. saved_from get idx x) \<and>
    (\<forall>key. key \<notin> py_str ` set ids \<longrightarrow> map_of layers' key = map_of layers key)"
  using assms(1-3)
proof (induction ids arbitrary: f off layers)
  case (Cons l ids)
  from Cons.prems(1) obtain k v k' v' f1 off1 lm where g: "get l = Inr (Some k, Some v)"
    and sel: "select_rows idx (k, v) = Inr (k', v')"
    and w: "write_tensors f off [] [(''k'', k'), (''v'', v')] = Inr (f1, off1, lm)"
    and rec: "save_packed_loop get idx None f1 off1 (dict_set (py_str l) (JObj lm) layers) ids = Inr (f', layers')"
    by (auto simp: rbind_Inr_iff require_kv_Inr_iff layer_token_indices_def simp del: write_tensors.simps)
  note wf = select_rows_wf [OF sel] assms(4) [OF g]
  have wk: "f1 = f @ t_data k' @ t_data v'" "off1 = off + nb k' + nb v'" "JObj lm = layer_entry off k' v'"
    "packable k'" "packable v'"
    using write_kv_ok [OF _ _ w] wf by auto
  from Cons.IH [OF rec] Cons.prems obtain kvs where kvs: "map fst kvs = ids" "f' = f1 @ kv_bytes kvs"
    "laid_out layers' off1 kvs" "\<forall>x \<in> set kvs. saved_from get idx x"
    "\<And>key. key \<notin> py_str ` set ids \<Longrightarrow> map_of layers' key = map_of (dict_set (py_str l) (JObj lm) layers) key"
    by auto
  have "py_str l \<notin> py_str ` set ids"
    using Cons.prems(2,3) by (auto dest: py_str_inj)
  then have "map_of layers' (py_str l) = Some (layer_entry off k' v')" using kvs(5) wk(3) by simp
  moreover have "saved_from get idx (l, k', v')" using g sel by (auto simp: saved_from_def)
  moreover have "map_of layers' key = map_of layers key" if "key \<notin> py_str ` set (l # ids)" for key
    using kvs(5) [of key] that by auto
  ultimately show ?case using kvs wk by (intro exI [of _ "(l, k', v') # kvs"]) auto
qed (auto intro: exI [of _ "[]"])

section \<open>Loading\<close>

definition item_at :: "int \<Rightarrow> tensor \<Rightarrow> tensor_item" where
  "item_at off t = \<lparr>ti_offset = off, ti_end = off + nb t, ti_nbytes = nb t, ti_shape = t_shape t,
     ti_dtype = t_dtype t\<rparr>"

lemma packed_tensor_meta_entry:
  assumes "json_sub meta ''layers'' = Inr (JObj layers)" "map_of layers (py_str l) = Some (layer_entry off k v)"
    and "packable k" "packable v"
  shows "packed_tensor_meta meta l ''k'' = Inr (item_at off k)"
    "packed_tensor_meta meta l ''v'' = Inr (item_at (off + nb k) v)"
  using assms packed_name_of_pname [OF assms(3)] packed_name_of_pname [OF assms(4)]
  by (simp_all add: packed_tensor_meta_def layer_entry_def entry_def item_meta_def item_at_def
      need_int_def need_ints_def rmap_need_int_JInt)

lemma file_slice_middle:
  "off = int (length xs) \<Longrightarrow> n = int (length ys) \<Longrightarrow> file_slice (xs @ ys @ zs) off n = ys"
  by (simp add: file_slice_def)

lemma file_tensor_item_at:
  assumes "packable t" "bin = xs @ t_data t @ zs" "off = int (length xs)"
  shows "file_tensor bin (item_at off t) = t"
  using assms packable_data [OF assms(1)]
  by (simp add: file_tensor_def item_at_def file_slice_middle)

lemma item_ok_item_at: "packable t \<Longrightarrow> 0 \<le> off \<Longrightarrow> off + nb t \<le> fsize \<Longrightarrow> item_ok fsize (item_at off t)"
  by (simp add: item_ok_def item_at_def nb_def packable_def tensor_wf_def)

lemma load_laid_out:
  assumes "laid_out layers 0 kvs" "(l, k, v) \<in> set kvs" "json_sub meta ''layers'' = Inr (JObj layers)"
    and "read_bin (os_path_join dir PACKED_BIN_NAME) s = Inr (kv_bytes kvs)" "slot_wf sl"
    and "t_dtype k = t_dtype v"
  shows "\<exists>sl'. slot_wf sl' \<and> load_packed_layer_to_gpu os junk dir meta l s sl = Inr ((k, v), sl')"
proof -
  obtain xs ys where split: "kvs = xs @ (l, k, v) # ys" using assms(2) by (meson split_list)
  define off where "off = int (length (kv_bytes xs))"
  have lay: "map_of layers (py_str l) = Some (layer_entry off k v)" "packable k" "packable v"
    using assms(1) by (simp_all add: split laid_out_append off_def)
  have bin: "kv_bytes kvs = kv_bytes xs @ t_data k @ (t_data v @ kv_bytes ys)"
    "kv_bytes kvs = (kv_bytes xs @ t_data k) @ t_data v @ kv_bytes ys"
    by (simp_all add: split kv_bytes_append)
  have nn: "0 \<le> off" "0 \<le> nb k" "0 \<le> nb v" using lay nb_nonneg by (auto simp: off_def)
  have size: "off + nb k + nb v \<le> int (length (kv_bytes kvs))"
    using lay by (simp add: bin(1) packable_data [symmetric] off_def)
  have items: "item_ok (int (length (kv_bytes kvs))) (item_at off k)"
    "item_ok (int (length (kv_bytes kvs))) (item_at (off + nb k) v)"
    using lay nn size by (auto intro!: item_ok_item_at)
  have adj: "ti_offset (item_at (off + nb k) v) = ti_end (item_at off k)" by (simp add: item_at_def)
  have al: "ti_nbytes (item_at off k) mod int (element_size (ti_dtype (item_at (off + nb k) v))) = 0"
    by (simp add: item_at_def nb_def assms(6) tensor_nbytes_def)
  have "file_tensor (kv_bytes kvs) (item_at off k) = k"
    by (rule file_tensor_item_at [OF lay(2) bin(1)]) (simp add: off_def)
  moreover have "file_tensor (kv_bytes kvs) (item_at (off + nb k) v) = v"
    by (rule file_tensor_item_at [OF lay(3) bin(2)]) (simp add: off_def packable_data [OF lay(2)])
  ultimately show ?thesis
    using load_packed_layer_ok [OF packed_tensor_meta_entry [OF assms(3) lay] items adj assms(4,5), of os junk] al
    by auto
qed

section \<open>Validated metadata\<close>

lemma as_int_some_need: "as_int j = Some i \<Longrightarrow> need_int j = Inr i"
  by (simp add: need_int_def)

lemma shape_dims_need: "shape_dims j = Some ds \<Longrightarrow> need_ints j = Inr ds \<and> (\<forall>d \<in> set ds. 0 \<le> d)"
proof -
  assume a: "shape_dims j = Some ds"
  then obtain xs where xs: "as_list j = Some xs"
    "list_all (\<lambda>x. case as_int x of None \<Rightarrow> False | Some d \<Rightarrow> 0 \<le> d) xs" "ds = map (\<lambda>x. the (as_int x)) xs"
    by (auto simp: shape_dims_def split: option.splits if_splits)
  have "rmap need_int xs = Inr (map (\<lambda>x. the (as_int x)) xs)"
    using xs(2) by (intro rmap_all_Inr) (auto simp: list_all_iff need_int_def split: option.splits)
  with xs show ?thesis
    by (auto simp: need_ints_def list_all_iff split: option.splits)
qed

lemma validate_item_meta:
  assumes "validate_tensor_item item fsize off = Inr off'"
  shows "\<exists>d it. item = JObj d \<and> rbind (rbind (json_sub item ''offset'') need_int) (\<lambda>offset.
     rbind (rbind (json_sub item ''nbytes'') need_int) (\<lambda>nbytes.
     rbind (rbind (json_sub item ''shape'') need_ints) (\<lambda>shape.
     rbind (rbind (json_sub item ''dtype'') packed_name_to_dtype) (\<lambda>dt.
     Inr \<lparr>ti_offset = offset, ti_end = offset + nbytes, ti_nbytes = nbytes, ti_shape = shape,
          ti_dtype = dt\<rparr>)))) = Inr it \<and> item_ok fsize it \<and> ti_offset it = off \<and> ti_end it = off'"
proof -
  obtain d where d: "item = JObj d"
    using assms by (cases item) (simp_all add: validate_tensor_item_def)
  let ?get = "\<lambda>key. case map_of d key of None \<Rightarrow> JNull | Some v \<Rightarrow> v"
  from assms obtain o' n shape dt where v: "as_int (?get ''offset'') = Some o'" "as_int (?get ''nbytes'') = Some n"
    "0 \<le> o'" "0 \<le> n" "o' + n \<le> fsize" "o' = off" "shape_dims (?get ''shape'') = Some shape"
    "packed_name_to_dtype (?get ''dtype'') = Inr dt" "n = tensor_nbytes shape dt" "off' = off + n"
    by (auto simp: validate_tensor_item_def d Let_def rbind_Inr_iff not_less split: option.splits if_splits)
  have sub: "json_sub item key = Inr (?get key)" if "?get key \<noteq> JNull" for key
    using that by (auto simp: d split: option.splits)
  have ne: "?get ''offset'' \<noteq> JNull" "?get ''nbytes'' \<noteq> JNull" "?get ''shape'' \<noteq> JNull" "?get ''dtype'' \<noteq> JNull"
    using v by (auto simp: shape_dims_def packed_name_to_dtype_def)
  show ?thesis
    using v ne shape_dims_need [OF v(7)]
    by (intro exI [of _ d] exI [of _ "\<lparr>ti_offset = o', ti_end = o' + n, ti_nbytes = n, ti_shape = shape, ti_dtype = dt\<rparr>"])
      (simp add: sub as_int_some_need item_ok_def d [symmetric])
qed

lemma validate_layer_meta:
  assumes "validate_layer layers l fsize off = Inr off'" "json_sub meta ''layers'' = Inr (JObj layers)"
  shows "\<exists>ik iv. packed_tensor_meta meta l ''k'' = Inr ik \<and> packed_tensor_meta meta l ''v'' = Inr iv \<and>
    item_ok fsize ik \<and> item_ok fsize iv \<and> ti_offset iv = ti_end ik"
proof -
  obtain layer where layer: "map_of layers (py_str l) = Some (JObj layer)"
    using assms(1) by (auto simp: validate_layer_def split: option.splits elim!: as_dict.elims)
  let ?get = "\<lambda>key. case map_of layer key of None \<Rightarrow> JNull | Some v \<Rightarrow> v"
  from assms(1) obtain mid where m: "validate_tensor_item (?get ''k'') fsize off = Inr mid"
    "validate_tensor_item (?get ''v'') fsize mid = Inr off'"
    by (auto simp: validate_layer_def layer rbind_Inr_iff)
  have sub: "json_sub (JObj layer) key = Inr (?get key)" if "?get key \<noteq> JNull" for key
    using that by (auto split: option.splits)
  from validate_item_meta [OF m(1)] obtain ik dk where k: "?get ''k'' = JObj dk"
    "rbind (rbind (json_sub (?get ''k'') ''offset'') need_int) (\<lambda>offset.
     rbind (rbind (json_sub (?get ''k'') ''nbytes'') need_int) (\<lambda>nbytes.
     rbind (rbind (json_sub (?get ''k'') ''shape'') need_ints) (\<lambda>shape.
     rbind (rbind (json_sub (?get ''k'') ''dtype'') packed_name_to_dtype) (\<lambda>dt.
     Inr \<lparr>ti_offset = offset, ti_end = offset + nbytes, ti_nbytes = nbytes, ti_shape = shape,
          ti_dtype = dt\<rparr>)))) = Inr ik" "item_ok fsize ik" "ti_end ik = mid" by blast
  from validate_item_meta [OF m(2)] obtain iv dv where v: "?get ''v'' = JObj dv"
    "rbind (rbind (json_sub (?get ''v'') ''offset'') need_int) (\<lambda>offset.
     rbind (rbind (json_sub (?get ''v'') ''nbytes'') need_int) (\<lambda>nbytes.
     rbind (rbind (json_sub (?get ''v'') ''shape'') need_ints) (\<lambda>shape.
     rbind (rbind (json_sub (?get ''v'') ''dtype'') packed_name_to_dtype) (\<lambda>dt.
     Inr \<lparr>ti_offset = offset, ti_end = offset + nbytes, ti_nbytes = nbytes, ti_shape = shape,
          ti_dtype = dt\<rparr>)))) = Inr iv" "item_ok fsize iv" "ti_offset iv = mid" by blast
  have s1: "json_sub (JObj layers) (py_str l) = Inr (JObj layer)" by (simp add: layer)
  have s2: "json_sub (JObj layer) ''k'' = Inr (?get ''k'')" "json_sub (JObj layer) ''v'' = Inr (?get ''v'')"
    using k(1) v(1) by (simp_all only: sub json.distinct simp_thms not_False_eq_True)
  have "packed_tensor_meta meta l ''k'' = Inr ik"
    unfolding packed_tensor_meta_def assms(2) rbind_simps s1 s2 by (rule k(2))
  moreover have "packed_tensor_meta meta l ''v'' = Inr iv"
    unfolding packed_tensor_meta_def assms(2) rbind_simps s1 s2 by (rule v(2))
  ultimately show ?thesis using k(3,4) v(3,4) by auto
qed

lemma validate_layers_each:
  "validate_layers layers fsize off ids = Inr off' \<Longrightarrow> l \<in> set ids \<Longrightarrow>
   \<exists>o1 o2. validate_layer layers l fsize o1 = Inr o2"
  by (induction ids arbitrary: off) (auto simp: rbind_Inr_iff)

lemma load_packed_meta_Inr:
  assumes "load_packed_meta dir expd s = Inr meta"
  shows "\<exists>bin layers n. read_bin (os_path_join dir PACKED_BIN_NAME) s = Inr bin \<and>
    json_sub meta ''layers'' = Inr (JObj layers) \<and> json_get meta ''num_layers'' JNull = Inr n \<and>
    (\<exists>k. as_int n = Some k \<and> 0 \<le> k \<and> (expd \<noteq> None \<longrightarrow> expd = Some k) \<and>
      validate_layers layers (int (length bin)) 0 (py_range 0 k) = Inr (int (length bin)))"
proof -
  from assms obtain bin fmt n k jl layers off where a:
    "read_bin (os_path_join dir PACKED_BIN_NAME) s = Inr bin" "json_get meta ''format'' JNull = Inr fmt"
    "fmt = JStr PACKED_FORMAT" "json_get meta ''num_layers'' JNull = Inr n" "as_int n = Some k" "0 \<le> k"
    "expd \<noteq> None \<longrightarrow> expd = Some k" "json_get meta ''layers'' JNull = Inr jl" "as_dict jl = Some layers"
    "validate_layers layers (int (length bin)) 0 (py_range 0 k) = Inr (int (length bin))"
    by (auto simp: load_packed_meta_def rbind_Inr_iff Let_def split: if_splits option.splits)
  obtain kvs where kvs: "meta = JObj kvs" using a(2) by (cases meta) (auto simp: json_get_def)
  have "jl = JObj layers" using a(9) by (cases jl) auto
  then have "json_sub meta ''layers'' = Inr (JObj layers)"
    using a(8) by (auto simp: kvs split: option.splits)
  with a show ?thesis by blast
qed

section \<open>Properties\<close>

text \<open>C35: reading exactly \<open>nbytes\<close> bytes always ends, with the bytes at the position in the file or
  with an end-of-file error when the file is too short, for every pattern of short and empty reads;
  the rest of the buffer is unchanged.\<close>

theorem read_exact_any_reader:
  assumes "0 \<le> pos" "0 \<le> nbytes" "nbytes \<le> int (length buf)"
  shows "read_exact_into os data pos buf nbytes =
    (if nbytes = 0 \<or> pos + nbytes \<le> int (length data)
     then Inr (file_slice data pos nbytes @ drop (nat nbytes) buf)
     else Inl (EOFError ''Unexpected EOF while reading packed KV payload''))"
proof -
  have "nat nbytes \<le> length buf" using assms by linarith
  moreover have "0 = nat nbytes \<or> nat pos + nat nbytes \<le> length data \<longleftrightarrow> nbytes = 0 \<or> pos + nbytes \<le> int (length data)"
    using assms by (auto simp: nat_add_distrib [symmetric] nat_le_iff)
  moreover have "nbytes \<noteq> 0 \<Longrightarrow> pos + nbytes \<le> int (length data) \<Longrightarrow>
      blit buf 0 (take (nat nbytes) (drop (nat pos) data)) = file_slice data pos nbytes @ drop (nat nbytes) buf"
  proof -
    assume "pos + nbytes \<le> int (length data)"
    then have "nat nbytes \<le> length data - nat pos" using assms by linarith
    then show ?thesis by (simp add: blit_def file_slice_def)
  qed
  ultimately show ?thesis
    using assms(1) by (cases "nbytes = 0") (auto simp: read_exact_into_def read_exact_loop_eq file_slice_def)
qed

theorem read_exact_any_reader_witness:
  "read_exact_into \<lparr>or_waits = (\<lambda>i. i), or_most = (\<lambda>_. 0)\<rparr> [1, 2, 3, 4, 5] 1 [9, 9, 9, 9] 3 = Inr [2, 3, 4, 9] \<and>
   read_exact_into \<lparr>or_waits = (\<lambda>i. i), or_most = (\<lambda>_. 0)\<rparr> [1, 2, 3, 4, 5] 4 [9, 9, 9, 9] 3
     = Inl (EOFError ''Unexpected EOF while reading packed KV payload'')"
  using read_exact_any_reader [of 1 3 "[9, 9, 9, 9]" "\<lparr>or_waits = (\<lambda>i. i), or_most = (\<lambda>_. 0)\<rparr>" "[1, 2, 3, 4, 5]"]
    read_exact_any_reader [of 4 3 "[9, 9, 9, 9]" "\<lparr>or_waits = (\<lambda>i. i), or_most = (\<lambda>_. 0)\<rparr>" "[1, 2, 3, 4, 5]"]
  by (simp add: file_slice_def)

text \<open>C8: what the chunk cache saves is what it loads. After a successful save of well-formed K/V
  buffers with one dtype per layer, the metadata passes the validation and loading any layer gives
  exactly the tensors that were saved (the pool's K and V, or their selected rows), for every reader
  and whatever an earlier load left in the slot.\<close>

theorem chunk_cache_roundtrip:
  assumes "save_all_chunk_cache dir num_layers token_indices p s = Inr s'" "0 \<le> num_layers" "pool_wf p"
    and "\<forall>l k v. get_kv p l = Inr (Some k, Some v) \<longrightarrow> t_dtype k = t_dtype v" "slot_wf sl"
  shows "\<exists>meta. load_packed_meta dir (Some num_layers) s' = Inr meta \<and>
    (\<forall>l. 0 \<le> l \<and> l < num_layers \<longrightarrow> (\<exists>k v kv sl'. get_kv p l = Inr (Some k, Some v) \<and>
       select_rows token_indices (k, v) = Inr kv \<and> slot_wf sl' \<and>
       load_packed_layer_to_gpu os junk dir meta l s' sl = Inr (kv, sl')))"
proof -
  from assms(1) obtain f layers where
    sv: "save_packed_loop (get_kv p) token_indices None [] 0 [] (py_range 0 num_layers) = Inr (f, layers)"
    and s': "s' = write_json (os_path_join dir PACKED_META_NAME)
        (JObj [(''format'', JStr PACKED_FORMAT), (''num_layers'', JInt num_layers), (''layers'', JObj layers)])
        (write_bin (os_path_join dir PACKED_BIN_NAME) f s)"
    by (auto simp: save_all_chunk_cache_def save_packed_kv_def rbind_Inr_iff)
  let ?meta = "JObj [(''format'', JStr PACKED_FORMAT), (''num_layers'', JInt num_layers), (''layers'', JObj layers)]"
  have wf: "get_kv p l = Inr (Some k, Some v) \<Longrightarrow> tensor_wf k \<and> tensor_wf v" for l k v
    using assms(3) by (auto simp: get_kv_def rbind_Inr_iff pool_wf_def buffer_wf_def dest!: py_get_in_set)
  have "\<exists>kvs. map fst kvs = py_range 0 num_layers \<and> f = [] @ kv_bytes kvs \<and> laid_out layers 0 kvs \<and>
    (\<forall>x \<in> set kvs. saved_from (get_kv p) token_indices x) \<and>
    (\<forall>key. key \<notin> py_str ` set (py_range 0 num_layers) \<longrightarrow> map_of layers key = map_of [] key)"
    by (rule save_loop_laid_out [OF sv distinct_py_range]) (auto dest: wf)
  then obtain kvs where kvs: "map fst kvs = py_range 0 num_layers"
    "f = kv_bytes kvs" "laid_out layers 0 kvs" "\<forall>x \<in> set kvs. saved_from (get_kv p) token_indices x"
    by auto
  have "validate_layers layers (int (length f)) 0 (py_range 0 num_layers) = Inr (int (length f))"
    using validate_laid_out [OF kvs(3)] kvs(1,2) by simp
  then have load: "load_packed_meta dir (Some num_layers) s' = Inr ?meta"
    using assms(2) by (simp add: load_packed_meta_def s')
  have "\<exists>k v kv sl'. get_kv p l = Inr (Some k, Some v) \<and> select_rows token_indices (k, v) = Inr kv \<and>
      slot_wf sl' \<and> load_packed_layer_to_gpu os junk dir ?meta l s' sl = Inr (kv, sl')"
    if "0 \<le> l \<and> l < num_layers" for l
  proof -
    have "l \<in> set (map fst kvs)" using that by (simp add: kvs(1))
    then obtain k' v' where x: "(l, k', v') \<in> set kvs" by (auto simp del: kvs(1))
    with kvs(4) obtain k v where g: "get_kv p l = Inr (Some k, Some v)"
      and sel: "select_rows token_indices (k, v) = Inr (k', v')"
      by (auto simp: saved_from_def)
    have dt: "t_dtype k' = t_dtype v'"
      using sel assms(4) [rule_format, OF g] by (auto simp: select_rows_def rbind_Inr_iff index_select_def split: option.splits if_splits)
    have "read_bin (os_path_join dir PACKED_BIN_NAME) s' = Inr (kv_bytes kvs)" by (simp add: s' kvs(2))
    moreover have "json_sub ?meta ''layers'' = Inr (JObj layers)" by simp
    ultimately obtain sl' where "slot_wf sl'" "load_packed_layer_to_gpu os junk dir ?meta l s' sl = Inr ((k', v'), sl')"
      using load_laid_out [OF kvs(3) x _ _ assms(5) dt, of ?meta dir s' os junk] by blast
    with g sel show ?thesis by blast
  qed
  with load show ?thesis by blast
qed

text \<open>Two layers of byte tensors; the slot still holds the bytes of an earlier load.\<close>

definition example_pool :: kv_pool where
  "example_pool = pool_clear\<lparr>k_buffer := [Some (example_tensor [1, 2]), Some (example_tensor [5, 6])],
     v_buffer := [Some (example_tensor [3, 4]), Some (example_tensor [7, 8])]\<rparr>"

definition example_slot :: slot where
  "example_slot = \<lparr>sl_buf = Some [9, 9], sl_capacity = 2, sl_block = None\<rparr>"

lemma example_pool_wf: "pool_wf example_pool"
  by (simp add: example_pool_def pool_clear_def pool_wf_def example_tensor_wf) (simp add: buffer_wf_def)

lemma example_pool_dtype: "\<forall>l k v. get_kv example_pool l = Inr (Some k, Some v) \<longrightarrow> t_dtype k = t_dtype v"
  by (auto simp: get_kv_def rbind_Inr_iff example_pool_def example_tensor_def dest!: py_get_in_set)

lemma example_get_kv:
  "get_kv example_pool 0 = Inr (Some (example_tensor [1, 2]), Some (example_tensor [3, 4]))"
  "get_kv example_pool 1 = Inr (Some (example_tensor [5, 6]), Some (example_tensor [7, 8]))"
  by (simp_all add: get_kv_def example_pool_def)

lemma example_select:
  "index_select (example_tensor [a, b]) [0] = Inr (example_tensor [a])"
  "index_select (example_tensor [a, b]) [1] = Inr (example_tensor [b])"
  by (simp_all add: index_select_def example_tensor_def t_row_def row_nbytes_def tensor_nbytes_def)

theorem chunk_cache_roundtrip_witness:
  "\<exists>s' meta sl'. save_all_chunk_cache ''d'' 2 (Some [1]) example_pool empty_ssd = Inr s' \<and>
     load_packed_meta ''d'' (Some 2) s' = Inr meta \<and>
     load_packed_layer_to_gpu \<lparr>or_waits = (\<lambda>_. 1), or_most = (\<lambda>_. 0)\<rparr> (\<lambda>_. 0) ''d'' meta 1 s' example_slot
       = Inr ((example_tensor [6], example_tensor [8]), sl')"
proof -
  have r: "py_range 0 2 = [0, 1]" by code_simp
  note i = example_select(2)
  have n: "dtype_to_packed_name Uint8 = Inr ''U8''" by code_simp
  note g = example_get_kv
  have "\<exists>s'. save_all_chunk_cache ''d'' 2 (Some [1]) example_pool empty_ssd = Inr s'"
    by (simp add: save_all_chunk_cache_def save_packed_kv_def r g require_kv_def layer_token_indices_def
        select_rows_def i) (simp add: example_tensor_def n write_tensor_bytes_def Let_def)
  then obtain s' where s': "save_all_chunk_cache ''d'' 2 (Some [1]) example_pool empty_ssd = Inr s'" ..
  have w: "slot_wf example_slot" by (simp add: slot_wf_def example_slot_def)
  from chunk_cache_roundtrip [OF s' _ example_pool_wf example_pool_dtype w,
      of "\<lparr>or_waits = (\<lambda>_. 1), or_most = (\<lambda>_. 0)\<rparr>" "\<lambda>_. 0"]
  obtain meta where m: "load_packed_meta ''d'' (Some 2) s' = Inr meta"
    "\<forall>l. 0 \<le> l \<and> l < 2 \<longrightarrow> (\<exists>k v kv sl'. get_kv example_pool l = Inr (Some k, Some v) \<and>
       select_rows (Some [1]) (k, v) = Inr kv \<and> slot_wf sl' \<and>
       load_packed_layer_to_gpu \<lparr>or_waits = (\<lambda>_. 1), or_most = (\<lambda>_. 0)\<rparr> (\<lambda>_. 0) ''d'' meta l s' example_slot
         = Inr (kv, sl'))"
    by auto
  from m(2) [rule_format, of 1] show ?thesis using s' m(1) g(2) by (auto simp: select_rows_def i)
qed

text \<open>C31: the validation protects the loads. Whatever the metadata file contains, once
  \<open>_load_packed_meta\<close> accepts it, loading any of its layers neither reads past the file nor misses
  a key: the result is the two tensors cut from the file at adjacent byte ranges, unless the V tensor
  would start off the alignment of its dtype.\<close>

theorem validated_metadata_is_safe:
  assumes "load_packed_meta dir expd s = Inr meta" "json_get meta ''num_layers'' JNull = Inr n"
    and "as_int n = Some num_layers" "0 \<le> l" "l < num_layers" "slot_wf sl"
  shows "\<exists>bin ik iv sl'. read_bin (os_path_join dir PACKED_BIN_NAME) s = Inr bin \<and>
    item_ok (int (length bin)) ik \<and> item_ok (int (length bin)) iv \<and> ti_offset iv = ti_end ik \<and>
    load_packed_layer_to_gpu os junk dir meta l s sl =
      (if ti_nbytes ik mod int (element_size (ti_dtype iv)) = 0
       then Inr ((file_tensor bin ik, file_tensor bin iv), sl') else Inl (RuntimeError ''view dtype''))"
proof -
  from load_packed_meta_Inr [OF assms(1)] assms(2,3) obtain bin layers where
    b: "read_bin (os_path_join dir PACKED_BIN_NAME) s = Inr bin" "json_sub meta ''layers'' = Inr (JObj layers)"
    "validate_layers layers (int (length bin)) 0 (py_range 0 num_layers) = Inr (int (length bin))"
    by auto
  have "l \<in> set (py_range 0 num_layers)" using assms(4,5) by simp
  from validate_layers_each [OF b(3) this] obtain o1 o2 where "validate_layer layers l (int (length bin)) o1 = Inr o2"
    by blast
  from validate_layer_meta [OF this b(2)] obtain ik iv where
    i: "packed_tensor_meta meta l ''k'' = Inr ik" "packed_tensor_meta meta l ''v'' = Inr iv"
    "item_ok (int (length bin)) ik" "item_ok (int (length bin)) iv" "ti_offset iv = ti_end ik" by blast
  from load_packed_layer_ok [OF i b(1) assms(6), of os junk] b(1) i(3-5) show ?thesis by blast
qed

text \<open>Metadata whose second tensor starts at an odd byte: accepted, and the load reports the
  misalignment.\<close>

definition example_meta :: json where
  "example_meta = JObj [(''format'', JStr PACKED_FORMAT), (''num_layers'', JInt 1), (''layers'', JObj [(''0'', JObj
     [(''k'', item_meta 0 1 [1] ''U8''), (''v'', item_meta 1 2 [1] ''F16'')])])]"

definition example_ssd :: ssd where
  "example_ssd = write_json (os_path_join ''d'' PACKED_META_NAME) example_meta
     (write_bin (os_path_join ''d'' PACKED_BIN_NAME) [1, 2, 3] empty_ssd)"

theorem validated_metadata_is_safe_witness:
  "load_packed_meta ''d'' None example_ssd = Inr example_meta \<and>
   (\<exists>bin ik iv sl'. item_ok 3 ik \<and> item_ok 3 iv \<and> ti_offset iv = ti_end ik \<and>
      load_packed_layer_to_gpu \<lparr>or_waits = (\<lambda>_. 0), or_most = (\<lambda>_. 0)\<rparr> (\<lambda>_. 0) ''d'' example_meta 0 example_ssd empty_slot =
      (if ti_nbytes ik mod int (element_size (ti_dtype iv)) = 0
       then Inr ((file_tensor bin ik, file_tensor bin iv), sl') else Inl (RuntimeError ''view dtype'')))"
proof -
  have l: "load_packed_meta ''d'' None example_ssd = Inr example_meta" by code_simp
  have n: "json_get example_meta ''num_layers'' JNull = Inr (JInt 1)" "as_int (JInt 1) = Some 1" by code_simp+
  have b: "read_bin (os_path_join ''d'' PACKED_BIN_NAME) example_ssd = Inr [1, 2, 3]"
    by (simp add: example_ssd_def)
  from validated_metadata_is_safe [OF l n _ _ slot_wf_empty,
      of 0 "\<lparr>or_waits = (\<lambda>_. 0), or_most = (\<lambda>_. 0)\<rparr>" "\<lambda>_. 0"]
  obtain bin ik iv sl' where r: "read_bin (os_path_join ''d'' PACKED_BIN_NAME) example_ssd = Inr bin"
    "item_ok (int (length bin)) ik" "item_ok (int (length bin)) iv" "ti_offset iv = ti_end ik"
    "load_packed_layer_to_gpu \<lparr>or_waits = (\<lambda>_. 0), or_most = (\<lambda>_. 0)\<rparr> (\<lambda>_. 0) ''d'' example_meta 0 example_ssd empty_slot =
      (if ti_nbytes ik mod int (element_size (ti_dtype iv)) = 0
       then Inr ((file_tensor bin ik, file_tensor bin iv), sl') else Inl (RuntimeError ''view dtype''))"
    by (metis zero_less_one order_refl)
  with b have "bin = [1, 2, 3]" by simp
  with r l show ?thesis by (intro conjI exI [of _ bin] exI [of _ ik] exI [of _ iv] exI [of _ sl']) simp_all
qed

end
