(* ===== verification/QueryCache.thy ===== *)
theory QueryCache
  imports PackedCorrect DigestIndex
begin

text \<open>
  The query cache of \<open>srt/utils/kv_ssd_manager.py\<close>: one binary file with the materialized digest
  K/V of the QCOMPUTE layers followed by the raw K/V of the critical layers, and one JSON file with
  the digest metadata and index and the byte ranges of both sections. \<open>_load_query_meta\<close> validates
  the pair once and caches the result; the digest section is loaded layer by layer from one open
  file, the critical section as one block.
\<close>

section \<open>Names\<close>

definition QUERY_CACHE_FORMAT :: string where "QUERY_CACHE_FORMAT = ''sgblend_query_cache_v1''"
definition QUERY_BIN_NAME :: string where "QUERY_BIN_NAME = ''query_packed.bin''"
definition QUERY_META_NAME :: string where "QUERY_META_NAME = ''query_packed_meta.json''"

section \<open>int(x)\<close>

definition is_digit :: "char \<Rightarrow> bool" where
  "is_digit c \<longleftrightarrow> (let n = of_char c :: nat in 48 \<le> n \<and> n \<le> 57)"

definition is_space :: "char \<Rightarrow> bool" where
  "is_space c \<longleftrightarrow> (let n = of_char c :: nat in n = 32 \<or> (9 \<le> n \<and> n \<le> 13))"

definition strip :: "string \<Rightarrow> string" where
  "strip s = rev (dropWhile is_space (rev (dropWhile is_space s)))"

text \<open>Digits, with single underscores between them.\<close>

fun digits_of :: "string \<Rightarrow> string option" where
  "digits_of [] = None"
| "digits_of [c] = (if is_digit c then Some [c] else None)"
| "digits_of (c # d # s) =
     (if \<not> is_digit c then None
      else if d = CHR ''_'' then map_option (Cons c) (digits_of s)
      else map_option (Cons c) (digits_of (d # s)))"

definition int_of_string :: "string \<Rightarrow> int option" where
  "int_of_string s =
     (case strip s of
        [] \<Rightarrow> None
      | c # cs \<Rightarrow>
          if c = CHR ''-'' then map_option (\<lambda>ds. - int (digits_value 0 ds)) (digits_of cs)
          else if c = CHR ''+'' then map_option (\<lambda>ds. int (digits_value 0 ds)) (digits_of cs)
          else map_option (\<lambda>ds. int (digits_value 0 ds)) (digits_of (c # cs)))"

fun py_int :: "json \<Rightarrow> int res" where
  "py_int (JInt i) = Inr i"
| "py_int (JBool b) = Inr (if b then 1 else 0)"
| "py_int (JFloat r) = Inr (if 0 \<le> r then \<lfloor>r\<rfloor> else \<lceil>r\<rceil>)"
| "py_int (JStr s) = (case int_of_string s of None \<Rightarrow> Inl (ValueError ''int'') | Some i \<Rightarrow> Inr i)"
| "py_int _ = Inl TypeError"

section \<open>Saving\<close>

definition write_query_layer ::
    "byte list \<Rightarrow> int \<Rightarrow> tensor option \<times> tensor option \<Rightarrow> int list option
     \<Rightarrow> (byte list \<times> int \<times> (string \<times> json) list) res" where
  "write_query_layer f offset okv token_indices =
     rbind (require_kv ''Missing KV tensor for query cache'' okv) (\<lambda>kv.
     rbind (select_rows token_indices kv) (\<lambda>(full_k, full_v).
     write_tensors f offset [] [(''k'', full_k), (''v'', full_v)]))"

text \<open>The two loops differ in where the row indices of a layer come from.\<close>

fun save_query_loop ::
    "(int \<Rightarrow> int list option res) \<Rightarrow> kv_pool \<Rightarrow> byte list \<Rightarrow> int \<Rightarrow> (string \<times> json) list \<Rightarrow> int list
     \<Rightarrow> (byte list \<times> int \<times> (string \<times> json) list) res" where
  "save_query_loop indices p f offset layers [] = Inr (f, offset, layers)"
| "save_query_loop indices p f offset layers (layer_id # ids) =
     rbind (indices layer_id) (\<lambda>token_indices.
     rbind (get_kv p layer_id) (\<lambda>okv.
     rbind (write_query_layer f offset okv token_indices) (\<lambda>(f', offset', layer_meta).
     save_query_loop indices p f' offset' (dict_set (py_str layer_id) (JObj layer_meta) layers) ids)))"

definition query_meta_json ::
    "(string \<times> json) list \<Rightarrow> (string \<times> json) list \<Rightarrow> string \<Rightarrow> int \<Rightarrow> int list
     \<Rightarrow> (string \<times> json) list \<Rightarrow> (string \<times> json) list \<Rightarrow> json" where
  "query_meta_json digest_meta indices_by_method m num_digest_layers critical_layers digest_layers crit_layers =
     (let get = (\<lambda>key dflt. case map_of digest_meta key of None \<Rightarrow> dflt | Some v \<Rightarrow> v)
      in JObj
        [(''format'', JStr QUERY_CACHE_FORMAT),
         (''digest_index_version'', get ''digest_index_version'' JNull),
         (''available_methods'', get ''available_methods'' (JList [JStr m])),
         (''num_layers'', JInt num_digest_layers),
         (''digest_ratio'', get ''digest_ratio'' JNull),
         (''digest_index_method'', JStr m),
         (''critical_layers'', json_ints critical_layers),
         (''qcompute_end'', JInt num_digest_layers),
         (''materialized_digest'', JBool True),
         (''metadata'', JObj digest_meta),
         (''indices_by_method'', JObj indices_by_method),
         (''digest'', JObj [(''num_layers'', JInt num_digest_layers), (''layers'', JObj digest_layers)]),
         (''critical'', JObj [(''layer_ids'', json_ints critical_layers), (''layers'', JObj crit_layers)])])"

definition save_all_query_cache ::
    "string \<Rightarrow> int \<Rightarrow> int list list \<Rightarrow> int list option \<Rightarrow> int list option \<Rightarrow> 's digest_state \<Rightarrow> kv_pool
     \<Rightarrow> ssd \<Rightarrow> ssd res" where
  "save_all_query_cache sample_dir num_digest_layers digest_token_indices_by_layer critical_layers
       critical_token_indices d p s =
     rbind (export_payload None d) (\<lambda>(digest_meta, indices_by_method).
     rbind (rbind (json_method (map_of digest_meta ''digest_index_method'')) normalize_method) (\<lambda>m.
     let crit = (case critical_layers of None \<Rightarrow> [] | Some l \<Rightarrow> l)
     in rbind (save_query_loop (\<lambda>l. rbind (py_get digest_token_indices_by_layer l) (\<lambda>x. Inr (Some x))) p [] 0 []
                (py_range 0 num_digest_layers)) (\<lambda>(f1, offset1, digest_layers).
        rbind (save_query_loop (\<lambda>_. Inr critical_token_indices) p f1 offset1 [] crit) (\<lambda>(f2, _, crit_layers).
        Inr (write_json (os_path_join sample_dir QUERY_META_NAME)
               (query_meta_json digest_meta indices_by_method m num_digest_layers crit digest_layers crit_layers)
               (write_bin (os_path_join sample_dir QUERY_BIN_NAME) f2 s))))))"

section \<open>Validating, with the cache of the last result\<close>

type_synonym meta_cache = "json option \<times> string"

definition validate_query_layer :: "json \<Rightarrow> int \<Rightarrow> int \<Rightarrow> int \<Rightarrow> int res" where
  "validate_query_layer sect layer_id file_size expected_offset =
     rbind (json_get sect ''layers'' JNull) (\<lambda>jl.
     case as_dict jl of
       None \<Rightarrow> Inl (ValueError ''Bad query cache layers metadata'')
     | Some layers \<Rightarrow> validate_layer layers layer_id file_size expected_offset)"

fun validate_query_layers :: "json \<Rightarrow> int \<Rightarrow> int \<Rightarrow> json list \<Rightarrow> int res" where
  "validate_query_layers sect file_size expected_offset [] = Inr expected_offset"
| "validate_query_layers sect file_size expected_offset (layer_id # ids) =
     rbind (py_int layer_id) (\<lambda>l.
     rbind (validate_query_layer sect l file_size expected_offset)
       (\<lambda>offset. validate_query_layers sect file_size offset ids))"

definition load_query_file :: "string \<Rightarrow> ssd \<Rightarrow> (json \<times> meta_cache) res" where
  "load_query_file sample_dir s =
     rbind (read_json (os_path_join sample_dir QUERY_META_NAME) s) (\<lambda>meta.
     rbind (read_bin (os_path_join sample_dir QUERY_BIN_NAME) s) (\<lambda>bin.
     rbind (json_get meta ''format'' JNull) (\<lambda>fmt.
     if fmt \<noteq> JStr QUERY_CACHE_FORMAT then Inl (ValueError ''Unsupported query cache format'')
     else
       rbind (json_get meta ''digest'' JNull) (\<lambda>digest.
       rbind (json_get meta ''critical'' JNull) (\<lambda>critical.
       if as_dict digest = None \<or> as_dict critical = None
       then Inl (ValueError ''Bad query cache sections'')
       else
         rbind (json_get digest ''num_layers'' JNull) (\<lambda>jn.
         case as_int jn of
           None \<Rightarrow> Inl (ValueError ''Bad query cache digest num_layers'')
         | Some num_digest_layers \<Rightarrow>
             if num_digest_layers < 0 then Inl (ValueError ''Bad query cache digest num_layers'')
             else
               rbind (json_get critical ''layer_ids'' (JList [])) (\<lambda>jids.
               case as_list jids of
                 None \<Rightarrow> Inl (ValueError ''Bad query cache critical layer_ids'')
               | Some critical_layer_ids \<Rightarrow>
                   let file_size = int (length bin)
                   in rbind (validate_query_layers digest file_size 0
                               (map JInt (py_range 0 num_digest_layers))) (\<lambda>offset1.
                      rbind (validate_query_layers critical file_size offset1 critical_layer_ids) (\<lambda>offset2.
                      if offset2 \<noteq> file_size then Inl (ValueError ''Query cache size mismatch'')
                      else Inr (meta, (Some meta, sample_dir)))))))))))"

definition load_query_meta :: "string \<Rightarrow> ssd \<Rightarrow> meta_cache \<Rightarrow> (json \<times> meta_cache) res" where
  "load_query_meta sample_dir s cache =
     (case fst cache of
        None \<Rightarrow> load_query_file sample_dir s
      | Some meta \<Rightarrow>
          if snd cache = sample_dir then Inr (meta, cache) else load_query_file sample_dir s)"

section \<open>Loading\<close>

fun packed_section_loop :: "json \<Rightarrow> (string \<times> json) list \<Rightarrow> int list \<Rightarrow> (string \<times> json) list res" where
  "packed_section_loop sect layers [] = Inr layers"
| "packed_section_loop sect layers (layer_id # ids) =
     rbind (rbind (json_sub sect ''layers'') (\<lambda>ls. json_sub ls (py_str layer_id))) (\<lambda>layer.
       packed_section_loop sect (dict_set (py_str layer_id) layer layers) ids)"

definition query_section_layers_as_packed_meta :: "json \<Rightarrow> string \<Rightarrow> int list \<Rightarrow> json res" where
  "query_section_layers_as_packed_meta query_meta section_name layer_ids =
     rbind (json_sub query_meta section_name) (\<lambda>sect.
     rbind (packed_section_loop sect [] layer_ids) (\<lambda>layers. Inr (JObj [(''layers'', JObj layers)])))"

definition read_query_layers_to_slot ::
    "os_reader \<Rightarrow> (nat \<Rightarrow> byte) \<Rightarrow> string \<Rightarrow> json \<Rightarrow> string \<Rightarrow> int list \<Rightarrow> ssd \<Rightarrow> slot \<Rightarrow> slot res" where
  "read_query_layers_to_slot os junk sample_dir query_meta section_name layer_ids s sl =
     (if layer_ids = [] then Inl (ValueError ''Cannot read empty query cache layer block'')
      else
        rbind (query_section_layers_as_packed_meta query_meta section_name layer_ids) (\<lambda>packed_meta.
        read_block_to_slot os junk (os_path_join sample_dir QUERY_BIN_NAME) packed_meta layer_ids s sl))"

text \<open>One layer from the open file \<open>f\<close>; there is no range check here.\<close>

definition read_query_layer_from_open_file ::
    "os_reader \<Rightarrow> (nat \<Rightarrow> byte) \<Rightarrow> byte list \<Rightarrow> json \<Rightarrow> string \<Rightarrow> int \<Rightarrow> slot \<Rightarrow> slot res" where
  "read_query_layer_from_open_file os junk f query_meta section_name layer_id sl =
     rbind (query_section_layers_as_packed_meta query_meta section_name [layer_id]) (\<lambda>packed_meta.
     rbind (packed_tensor_meta packed_meta layer_id ''k'') (\<lambda>first_k.
     rbind (packed_tensor_meta packed_meta layer_id ''v'') (\<lambda>last_v.
     let block_offset = ti_offset first_k; block_nbytes = ti_end last_v - block_offset;
         sl1 = ensure_slot_byte_buf junk block_nbytes sl
     in rbind (read_exact_into os f block_offset (the (sl_buf sl1)) block_nbytes) (\<lambda>buf.
        Inr (sl1\<lparr>sl_buf := Some buf,
                 sl_block := Some \<lparr>bl_layer_ids = [layer_id], bl_offset = block_offset,
                                    bl_nbytes = block_nbytes, bl_meta = packed_meta\<rparr>\<rparr>)))))"

text \<open>The digest loop; \<open>on_layer\<close> hands a loaded layer to the caller's state.\<close>

fun progressive_loop ::
    "os_reader \<Rightarrow> (nat \<Rightarrow> byte) \<Rightarrow> byte list \<Rightarrow> json \<Rightarrow> string \<Rightarrow> ('st \<Rightarrow> int \<Rightarrow> tensor \<times> tensor \<Rightarrow> 'st res)
     \<Rightarrow> int list \<Rightarrow> 'st \<times> slot \<Rightarrow> ('st \<times> slot) res" where
  "progressive_loop os junk f query_meta section_name on_layer [] st = Inr st"
| "progressive_loop os junk f query_meta section_name on_layer (layer_id # ids) st =
     rbind (read_query_layer_from_open_file os junk f query_meta section_name layer_id
              (clear_slot_metadata (snd st))) (\<lambda>sl'.
     rbind (copy_packed_layer_from_block_to_gpu sl' layer_id) (\<lambda>kv.
     rbind (on_layer (fst st) layer_id kv) (\<lambda>st'.
     progressive_loop os junk f query_meta section_name on_layer ids (st', sl'))))"

definition load_query_layers_progressively ::
    "os_reader \<Rightarrow> (nat \<Rightarrow> byte) \<Rightarrow> string \<Rightarrow> json \<Rightarrow> string \<Rightarrow> int list
     \<Rightarrow> ('st \<Rightarrow> int \<Rightarrow> tensor \<times> tensor \<Rightarrow> 'st res) \<Rightarrow> ssd \<Rightarrow> 'st \<times> slot \<Rightarrow> ('st \<times> slot) res" where
  "load_query_layers_progressively os junk sample_dir query_meta section_name layer_ids on_layer s st =
     (if layer_ids = [] then Inr st
      else
        rbind (read_bin (os_path_join sample_dir QUERY_BIN_NAME) s) (\<lambda>f.
        progressive_loop os junk f query_meta section_name on_layer layer_ids st))"

definition load_query_layers_to_gpu ::
    "os_reader \<Rightarrow> (nat \<Rightarrow> byte) \<Rightarrow> string \<Rightarrow> json \<Rightarrow> string \<Rightarrow> int list \<Rightarrow> ssd \<Rightarrow> slot
     \<Rightarrow> ((int \<times> tensor \<times> tensor) list \<times> slot) res" where
  "load_query_layers_to_gpu os junk sample_dir query_meta section_name layer_ids s sl =
     (if layer_ids = [] then Inr ([], sl)
      else
        rbind (read_query_layers_to_slot os junk sample_dir query_meta section_name layer_ids s
                 (clear_slot_metadata sl)) (\<lambda>sl'.
        rbind (rmap (\<lambda>l. rbind (copy_packed_layer_from_block_to_gpu sl' l) (\<lambda>kv. Inr (l, kv))) layer_ids)
          (\<lambda>kvs. Inr (kvs, sl'))))"

definition load_query_layer_to_gpu ::
    "os_reader \<Rightarrow> (nat \<Rightarrow> byte) \<Rightarrow> string \<Rightarrow> json \<Rightarrow> string \<Rightarrow> int \<Rightarrow> ssd \<Rightarrow> slot
     \<Rightarrow> ((tensor \<times> tensor) \<times> slot) res" where
  "load_query_layer_to_gpu os junk sample_dir query_meta section_name layer_id s sl =
     rbind (load_query_layers_to_gpu os junk sample_dir query_meta section_name [layer_id] s sl)
       (\<lambda>(kvs, sl'). case map_of kvs layer_id of None \<Rightarrow> Inl KeyError | Some kv \<Rightarrow> Inr (kv, sl'))"

end
