(* ===== verification/QueryCorrect.thy ===== *)
theory QueryCorrect
  imports QueryCache
begin

text \<open>
  Correctness of the query cache: a saved pair of files passes the validation, the digest section
  read layer by layer and the critical section read as one block are the tensors that were saved,
  and validated metadata is cached per directory.
\<close>

section \<open>A laid-out section inside a file\<close>

definition uniform_dtype :: "dtype \<Rightarrow> layer_kv list \<Rightarrow> bool" where
  "uniform_dtype d kvs \<longleftrightarrow> (\<forall>(l, k, v) \<in> set kvs. t_dtype k = d \<and> t_dtype v = d)"

lemma nb_dvd: "t_dtype t = d \<Longrightarrow> int (element_size d) dvd nb t"
  by (simp add: nb_def tensor_nbytes_def)

lemma kv_bytes_dvd:
  "uniform_dtype d kvs \<Longrightarrow> \<forall>(l, k, v) \<in> set kvs. packable k \<and> packable v \<Longrightarrow>
   int (element_size d) dvd int (length (kv_bytes kvs))"
proof (induction kvs rule: kv_bytes.induct)
  case (2 l k v r)
  then have IH: "int (element_size d) dvd int (length (kv_bytes r))"
    and p: "packable k" "packable v" "t_dtype k = d" "t_dtype v = d"
    by (auto simp: uniform_dtype_def)
  have "int (length (kv_bytes ((l, k, v) # r))) = nb k + (nb v + int (length (kv_bytes r)))"
    using p by (simp add: packable_data [symmetric])
  then show ?case using nb_dvd [OF p(3)] nb_dvd [OF p(4)] IH by (simp only: dvd_add)
qed simp

lemma laid_out_packable: "laid_out layers off kvs \<Longrightarrow> \<forall>(l, k, v) \<in> set kvs. packable k \<and> packable v"
  by (induction layers off kvs rule: laid_out.induct) auto

lemma laid_out_cong:
  "(\<And>l. l \<in> fst ` set kvs \<Longrightarrow> map_of layers' (py_str l) = map_of layers (py_str l)) \<Longrightarrow>
   laid_out layers off kvs \<Longrightarrow> laid_out layers' off kvs"
  by (induction layers off kvs rule: laid_out.induct) auto

text \<open>The items of one layer of a section that starts at \<open>off = length pre\<close> of the file.\<close>

lemma section_items:
  assumes "laid_out layers off kvs" "(l, k, v) \<in> set kvs" "json_sub meta ''layers'' = Inr (JObj layers)"
    and "bin = pre @ kv_bytes kvs @ post" "off = int (length pre)" "uniform_dtype d kvs"
  shows "\<exists>a. off \<le> a \<and> a + nb k + nb v \<le> off + int (length (kv_bytes kvs)) \<and>
    packed_tensor_meta meta l ''k'' = Inr (item_at a k) \<and>
    packed_tensor_meta meta l ''v'' = Inr (item_at (a + nb k) v) \<and>
    item_ok (int (length bin)) (item_at a k) \<and> item_ok (int (length bin)) (item_at (a + nb k) v) \<and>
    file_tensor bin (item_at a k) = k \<and> file_tensor bin (item_at (a + nb k) v) = v \<and>
    int (element_size d) dvd a - off"
proof -
  obtain xs ys where split: "kvs = xs @ (l, k, v) # ys" using assms(2) by (meson split_list)
  define a where "a = off + int (length (kv_bytes xs))"
  have lay: "map_of layers (py_str l) = Some (layer_entry a k v)" "packable k" "packable v"
    "laid_out layers off xs"
    using assms(1) by (simp_all add: split laid_out_append a_def)
  have bin: "bin = (pre @ kv_bytes xs) @ t_data k @ (t_data v @ kv_bytes ys @ post)"
    "bin = (pre @ kv_bytes xs @ t_data k) @ t_data v @ kv_bytes ys @ post"
    by (simp_all add: split kv_bytes_append assms(4))
  have nn: "0 \<le> off" "0 \<le> a" "0 \<le> nb k" "0 \<le> nb v"
    using lay nb_nonneg assms(5) by (auto simp: a_def)
  have size: "a + nb k + nb v \<le> off + int (length (kv_bytes kvs))"
    using lay by (simp add: split kv_bytes_append packable_data [symmetric] a_def)
  have size2: "off + int (length (kv_bytes kvs)) \<le> int (length bin)" by (simp add: assms(4,5))
  have "uniform_dtype d xs" using assms(6) by (auto simp: split uniform_dtype_def)
  then have "int (element_size d) dvd a - off"
    using kv_bytes_dvd [OF _ laid_out_packable [OF lay(4)]] by (simp add: a_def)
  moreover have "file_tensor bin (item_at a k) = k"
    by (rule file_tensor_item_at [OF lay(2) bin(1)]) (simp add: a_def assms(5))
  moreover have "file_tensor bin (item_at (a + nb k) v) = v"
    by (rule file_tensor_item_at [OF lay(3) bin(2)]) (simp add: a_def assms(5) packable_data [OF lay(2)])
  moreover have "item_ok (int (length bin)) (item_at a k)" "item_ok (int (length bin)) (item_at (a + nb k) v)"
    using lay nn size size2 by (auto intro!: item_ok_item_at)
  ultimately show ?thesis
    using packed_tensor_meta_entry [OF assms(3) lay(1-3)] size by (intro exI [of _ a]) (simp add: a_def)
qed

lemma packed_section_ok:
  "json_sub sect ''layers'' = Inr (JObj ls) \<Longrightarrow> \<forall>l \<in> set ids. map_of ls (py_str l) \<noteq> None \<Longrightarrow>
   \<exists>layers'. packed_section_loop sect layers ids = Inr layers' \<and>
     (\<forall>l \<in> set ids. map_of layers' (py_str l) = map_of ls (py_str l)) \<and>
     (\<forall>key. key \<notin> py_str ` set ids \<longrightarrow> map_of layers' key = map_of layers key)"
proof (induction ids arbitrary: layers)
  case (Cons l ids)
  then obtain layer where layer: "map_of ls (py_str l) = Some layer" by auto
  from Cons.IH [of "dict_set (py_str l) layer layers"] Cons.prems
  obtain layers' where "packed_section_loop sect (dict_set (py_str l) layer layers) ids = Inr layers'"
    and k: "\<forall>l \<in> set ids. map_of layers' (py_str l) = map_of ls (py_str l)"
    "\<And>key. key \<notin> py_str ` set ids \<Longrightarrow> map_of layers' key = map_of (dict_set (py_str l) layer layers) key"
    by auto
  moreover have "map_of layers' (py_str l) = map_of ls (py_str l)"
  proof (cases "py_str l \<in> py_str ` set ids")
    case True
    then obtain l' where "l' \<in> set ids" "py_str l = py_str l'" by auto
    then show ?thesis using k(1) by metis
  qed (simp add: k(2) layer)
  ultimately show ?case
    using Cons.prems layer by (intro exI [of _ layers']) simp
qed simp

text \<open>A section as the block loaders see it.\<close>

lemma section_meta:
  assumes "json_sub query_meta name = Inr sect" "json_sub sect ''layers'' = Inr (JObj ls)"
    and "laid_out ls off kvs" "set ids \<subseteq> fst ` set kvs"
  shows "\<exists>layers'. query_section_layers_as_packed_meta query_meta name ids = Inr (JObj [(''layers'', JObj layers')]) \<and>
    (\<forall>l \<in> set ids. map_of layers' (py_str l) = map_of ls (py_str l))"
proof -
  have "\<forall>(l, k, v) \<in> set kvs. map_of ls (py_str l) \<noteq> None"
    using assms(3) by (induction ls off kvs rule: laid_out.induct) auto
  then have "\<forall>l \<in> set ids. map_of ls (py_str l) \<noteq> None" using assms(4) by fastforce
  from packed_section_ok [OF assms(2) this, of "[]"] assms(1) show ?thesis
    by (auto simp: query_section_layers_as_packed_meta_def)
qed

section \<open>Reading a section\<close>

text \<open>A slot that holds one section: every layer is copied out of it unchanged.\<close>

lemma copy_from_section:
  assumes "laid_out layers off kvs" "bin = pre @ kv_bytes kvs @ post" "off = int (length pre)"
    and "uniform_dtype d kvs" "(l, k, v) \<in> set kvs"
    and "sl_buf sl = Some (file_slice bin off (int (length (kv_bytes kvs))) @ rest)"
    and "sl_block sl = Some \<lparr>bl_layer_ids = ids, bl_offset = off, bl_nbytes = int (length (kv_bytes kvs)),
      bl_meta = JObj [(''layers'', JObj layers)]\<rparr>"
  shows "copy_packed_layer_from_block_to_gpu sl l = Inr (k, v)"
proof -
  let ?b = "\<lparr>bl_layer_ids = ids, bl_offset = off, bl_nbytes = int (length (kv_bytes kvs)),
      bl_meta = JObj [(''layers'', JObj layers)]\<rparr>"
  have js: "json_sub (JObj [(''layers'', JObj layers)]) ''layers'' = Inr (JObj layers)" by simp
  from section_items [OF assms(1,5) js assms(2-4)] obtain a where
    a: "off \<le> a" "a + nb k + nb v \<le> off + int (length (kv_bytes kvs))"
    "packed_tensor_meta (bl_meta ?b) l ''k'' = Inr (item_at a k)"
    "packed_tensor_meta (bl_meta ?b) l ''v'' = Inr (item_at (a + nb k) v)"
    "item_ok (int (length bin)) (item_at a k)" "item_ok (int (length bin)) (item_at (a + nb k) v)"
    "file_tensor bin (item_at a k) = k" "file_tensor bin (item_at (a + nb k) v) = v"
    "int (element_size d) dvd a - off" by (elim exE conjE) (rule that, simp_all)
  have dt: "t_dtype k = d" "t_dtype v = d" using assms(4,5) by (auto simp: uniform_dtype_def)
  have p: "0 \<le> nb k" "0 \<le> nb v" using laid_out_packable [OF assms(1)] assms(5) nb_nonneg by fastforce+
  have e: "ti_offset (item_at x t) = x" "ti_end (item_at x t) = x + nb t" "ti_dtype (item_at x t) = t_dtype t" for x t
    by (simp_all add: item_at_def)
  have bb: "bl_offset ?b = off" "bl_nbytes ?b = int (length (kv_bytes kvs))" "0 \<le> off"
    "off + int (length (kv_bytes kvs)) \<le> int (length bin)"
    by (simp_all add: assms(2,3))
  have "view_from_block sl ?b l ''k'' = Inr (file_tensor bin (item_at a k))"
    using view_from_block_ok [OF a(3,5), of sl rest] a bb assms(6) dt p by (simp add: e)
  moreover have "int (element_size d) dvd a - off + nb k"
    using a(9) nb_dvd [OF dt(1)] by (rule dvd_add)
  then have "int (element_size d) dvd a + nb k - off" by (simp add: algebra_simps)
  then have "view_from_block sl ?b l ''v'' = Inr (file_tensor bin (item_at (a + nb k) v))"
    using view_from_block_ok [OF a(4,6), of sl rest] a bb assms(6) dt p by (simp add: e)
  ultimately show ?thesis
    using a(7,8) by (simp add: copy_packed_layer_from_block_to_gpu_def assms(7))
qed

text \<open>The whole section read as one block.\<close>

lemma read_section_block:
  assumes "laid_out layers off kvs" "bin = pre @ kv_bytes kvs @ post" "off = int (length pre)"
    and "uniform_dtype d kvs" "kvs \<noteq> []" "distinct (map fst kvs)" "read_bin path s = Inr bin" "slot_wf sl"
  shows "\<exists>sl' rest. read_block_to_slot os junk path (JObj [(''layers'', JObj layers)]) (map fst kvs) s sl = Inr sl' \<and>
    slot_wf sl' \<and> sl_buf sl' = Some (file_slice bin off (int (length (kv_bytes kvs))) @ rest) \<and>
    sl_block sl' = Some \<lparr>bl_layer_ids = map fst kvs, bl_offset = off,
      bl_nbytes = int (length (kv_bytes kvs)), bl_meta = JObj [(''layers'', JObj layers)]\<rparr>"
proof -
  let ?meta = "JObj [(''layers'', JObj layers)]"
  have js: "json_sub ?meta ''layers'' = Inr (JObj layers)" by simp
  obtain l1 k1 v1 r where h: "kvs = (l1, k1, v1) # r" using assms(5) by (cases kvs) auto
  obtain xs l2 k2 v2 where t: "kvs = xs @ [(l2, k2, v2)]" using assms(5) by (cases kvs rule: rev_cases) auto
  have lay1: "map_of layers (py_str l1) = Some (layer_entry off k1 v1)" "packable k1" "packable v1"
    using assms(1) by (simp_all add: h)
  have lay2: "map_of layers (py_str l2) = Some (layer_entry (off + int (length (kv_bytes xs))) k2 v2)"
    "packable k2" "packable v2"
    using assms(1) by (simp_all add: t laid_out_append)
  have fk: "packed_tensor_meta ?meta (hd (map fst kvs)) ''k'' = Inr (item_at off k1)"
    using packed_tensor_meta_entry [OF js lay1] by (simp add: h)
  have lv: "packed_tensor_meta ?meta (last (map fst kvs)) ''v''
      = Inr (item_at (off + int (length (kv_bytes xs)) + nb k2) v2)"
    using packed_tensor_meta_entry [OF js lay2] by (simp add: t)
  have e: "ti_offset (item_at x t) = x" "ti_end (item_at x t) = x + nb t" for x t
    by (simp_all add: item_at_def)
  have stop: "off + int (length (kv_bytes xs)) + nb k2 + nb v2 = off + int (length (kv_bytes kvs))"
    using lay2 by (simp add: t kv_bytes_append packable_data [symmetric])
  have chk: "check_block_items ?meta off (off + int (length (kv_bytes kvs))) items = Inr ()"
    if "set items \<subseteq> (\<Union>l \<in> fst ` set kvs. {(l, ''k''), (l, ''v'')})" for items
    using that
  proof (induction items)
    case (Cons it items)
    then obtain l where l: "l \<in> fst ` set kvs" "it = (l, ''k'') \<or> it = (l, ''v'')" by auto
    then obtain k v where x: "(l, k, v) \<in> set kvs" by auto
    have pk: "0 \<le> nb k" "0 \<le> nb v" using laid_out_packable [OF assms(1)] x nb_nonneg by fastforce+
    from section_items [OF assms(1) x js assms(2-4)] Cons l(2) pk show ?case by (auto simp: e)
  qed simp
  have "set (block_items (map fst kvs)) \<subseteq> (\<Union>l \<in> fst ` set kvs. {(l, ''k''), (l, ''v'')})"
    by (auto simp: block_items_def)
  from read_block_to_slot_ok [OF fk lv _ _ _ _ assms(7,8), unfolded e stop, of os junk] chk [OF this]
  show ?thesis using assms(2,3) by simp
qed

text \<open>One layer read from the open file.\<close>

lemma read_open_layer:
  assumes "query_section_layers_as_packed_meta qm name [l] = Inr (JObj [(''layers'', JObj layers)])"
    and "laid_out layers off [(l, k, v)]" "bin = pre @ kv_bytes [(l, k, v)] @ post" "off = int (length pre)"
    and "t_dtype k = d" "t_dtype v = d" "slot_wf sl"
  shows "\<exists>sl'. read_query_layer_from_open_file os junk bin qm name l sl = Inr sl' \<and> slot_wf sl' \<and>
    copy_packed_layer_from_block_to_gpu sl' l = Inr (k, v)"
proof -
  let ?meta = "JObj [(''layers'', JObj layers)]" and ?n = "int (length (kv_bytes [(l, k, v)]))"
  have js: "json_sub ?meta ''layers'' = Inr (JObj layers)" by simp
  have lay: "map_of layers (py_str l) = Some (layer_entry off k v)" "packable k" "packable v"
    using assms(2) by simp_all
  note m = packed_tensor_meta_entry [OF js lay]
  have n: "nb k + nb v = ?n" using lay by (simp add: packable_data [symmetric])
  let ?sl = "ensure_slot_byte_buf junk ?n sl"
  obtain buf where buf: "sl_buf ?sl = Some buf" "?n \<le> int (length buf)" "int (length buf) = sl_capacity ?sl"
    by (rule ensure_slot_byte_buf_ok [OF assms(7)])
  have r: "read_exact_into os bin off buf ?n = Inr (file_slice bin off ?n @ drop (nat ?n) buf)"
    by (rule read_exact_into_ok) (use assms(3,4) buf(2) in simp_all)
  let ?sl' = "?sl\<lparr>sl_buf := Some (file_slice bin off ?n @ drop (nat ?n) buf),
    sl_block := Some \<lparr>bl_layer_ids = [l], bl_offset = off, bl_nbytes = ?n, bl_meta = ?meta\<rparr>\<rparr>"
  have blk: "ti_offset (item_at off k) = off" "ti_end (item_at (off + nb k) v) - off = ?n"
    using lay by (simp_all add: item_at_def packable_data)
  have "read_query_layer_from_open_file os junk bin qm name l sl = Inr ?sl'"
    by (simp only: read_query_layer_from_open_file_def assms(1) m rbind_simps Let_def blk buf(1) option.sel r)
  moreover have "slot_wf ?sl'"
  proof -
    have "int (length (file_slice bin off ?n)) = ?n"
      using assms(3,4) by (intro length_file_slice) simp_all
    then show ?thesis using buf by (simp add: slot_wf_def)
  qed
  moreover have "copy_packed_layer_from_block_to_gpu ?sl' l = Inr (k, v)"
    by (rule copy_from_section [OF assms(2-4), of d _ _ _ _ "drop (nat ?n) buf" "[l]"])
      (use assms(5,6) in \<open>simp_all add: uniform_dtype_def\<close>)
  ultimately show ?thesis by blast
qed

text \<open>The digest section layer by layer, the layers handed over in order.\<close>

lemma progressive_section:
  assumes "json_sub qm name = Inr sect" "json_sub sect ''layers'' = Inr (JObj ls)"
    and "laid_out ls off kvs" "bin = pre @ kv_bytes kvs @ post" "off = int (length pre)"
    and "uniform_dtype d kvs" "slot_wf sl"
  shows "\<exists>sl'. progressive_loop os junk bin qm name (\<lambda>st l kv. Inr (st @ [(l, kv)])) (map fst kvs) (st, sl)
      = Inr (st @ kvs, sl') \<and> slot_wf sl'"
  using assms(3-7)
proof (induction kvs arbitrary: off pre st sl)
  case (Cons x r)
  obtain l k v where x: "x = (l, k, v)" by (cases x)
  have d: "t_dtype k = d" "t_dtype v = d" "uniform_dtype d r"
    using Cons.prems(4) by (auto simp: uniform_dtype_def x)
  have p: "packable k" "packable v" using Cons.prems(1) by (simp_all add: x)
  from section_meta [OF assms(1,2) Cons.prems(1), of "[l]"] obtain layers' where
    m: "query_section_layers_as_packed_meta qm name [l] = Inr (JObj [(''layers'', JObj layers')])"
    "map_of layers' (py_str l) = map_of ls (py_str l)"
    by (auto simp: x)
  have lay: "laid_out layers' off [(l, k, v)]" using Cons.prems(1) m(2) by (simp add: x)
  have b: "bin = pre @ kv_bytes [(l, k, v)] @ (kv_bytes r @ post)" using Cons.prems(2) by (simp add: x)
  from read_open_layer [OF m(1) lay b Cons.prems(3) d(1,2), of "clear_slot_metadata sl" os junk] Cons.prems(5)
  obtain sl1 where s1: "read_query_layer_from_open_file os junk bin qm name l (clear_slot_metadata sl) = Inr sl1"
    "slot_wf sl1" "copy_packed_layer_from_block_to_gpu sl1 l = Inr (k, v)" by auto
  have "\<exists>sl'. progressive_loop os junk bin qm name (\<lambda>st l kv. Inr (st @ [(l, kv)])) (map fst r)
      (st @ [(l, k, v)], sl1) = Inr ((st @ [(l, k, v)]) @ r, sl') \<and> slot_wf sl'"
  proof (rule Cons.IH)
    show "laid_out ls (off + nb k + nb v) r" using Cons.prems(1) by (simp add: x)
    show "bin = (pre @ t_data k @ t_data v) @ kv_bytes r @ post" using Cons.prems(2) by (simp add: x)
    show "off + nb k + nb v = int (length (pre @ t_data k @ t_data v))"
      using Cons.prems(3) p by (simp add: packable_data [symmetric])
  qed (fact d(3) s1(2))+
  then show ?case using s1 by (simp add: x)
qed simp

section \<open>Saving\<close>

definition saved_as :: "(int \<Rightarrow> int list option res) \<Rightarrow> kv_pool \<Rightarrow> layer_kv \<Rightarrow> bool" where
  "saved_as indices p x \<longleftrightarrow> (\<exists>idx k v. indices (fst x) = Inr idx \<and>
     get_kv p (fst x) = Inr (Some k, Some v) \<and> select_rows idx (k, v) = Inr (snd x))"

lemma get_kv_wf: "pool_wf p \<Longrightarrow> get_kv p l = Inr (Some k, Some v) \<Longrightarrow> tensor_wf k \<and> tensor_wf v"
  by (auto simp: get_kv_def rbind_Inr_iff pool_wf_def buffer_wf_def dest!: py_get_in_set)

lemma save_query_loop_laid_out:
  assumes "save_query_loop indices p f off layers ids = Inr (f', off', layers')"
    and "distinct ids" "\<forall>l \<in> set ids. 0 \<le> l" "pool_wf p"
  shows "\<exists>kvs. map fst kvs = ids \<and> f' = f @ kv_bytes kvs \<and> off' = off + int (length (kv_bytes kvs)) \<and>
    laid_out layers' off kvs \<and> (\<forall>x \<in> set kvs. saved_as indices p x) \<and>
    (\<forall>key. key \<notin> py_str ` set ids \<longrightarrow> map_of layers' key = map_of layers key)"
  using assms(1-3)
proof (induction ids arbitrary: f off layers)
  case (Cons l ids)
  from Cons.prems(1) obtain idx k v k' v' f1 off1 lm where i: "indices l = Inr idx"
    and g: "get_kv p l = Inr (Some k, Some v)" and sel: "select_rows idx (k, v) = Inr (k', v')"
    and w: "write_tensors f off [] [(''k'', k'), (''v'', v')] = Inr (f1, off1, lm)"
    and rec: "save_query_loop indices p f1 off1 (dict_set (py_str l) (JObj lm) layers) ids = Inr (f', off', layers')"
    by (auto simp: rbind_Inr_iff require_kv_Inr_iff write_query_layer_def simp del: write_tensors.simps)
  note wf = select_rows_wf [OF sel] get_kv_wf [OF assms(4) g]
  have wk: "f1 = f @ t_data k' @ t_data v'" "off1 = off + nb k' + nb v'" "JObj lm = layer_entry off k' v'"
    "packable k'" "packable v'"
    using write_kv_ok [OF _ _ w] wf by auto
  from Cons.IH [OF rec] Cons.prems obtain kvs where kvs: "map fst kvs = ids" "f' = f1 @ kv_bytes kvs"
    "off' = off1 + int (length (kv_bytes kvs))" "laid_out layers' off1 kvs" "\<forall>x \<in> set kvs. saved_as indices p x"
    "\<And>key. key \<notin> py_str ` set ids \<Longrightarrow> map_of layers' key = map_of (dict_set (py_str l) (JObj lm) layers) key"
    by auto
  have "py_str l \<notin> py_str ` set ids" using Cons.prems(2,3) by (auto dest: py_str_inj)
  then have "map_of layers' (py_str l) = Some (layer_entry off k' v')" using kvs(6) wk(3) by simp
  moreover have "saved_as indices p (l, k', v')" using i g sel by (auto simp: saved_as_def)
  moreover have "map_of layers' key = map_of layers key" if "key \<notin> py_str ` set (l # ids)" for key
    using kvs(6) [of key] that by auto
  moreover have "off' = off + int (length (kv_bytes ((l, k', v') # kvs)))"
    using kvs(3) wk by (simp add: packable_data [symmetric])
  ultimately show ?case using kvs wk by (intro exI [of _ "(l, k', v') # kvs"]) auto
qed (auto intro: exI [of _ "[]"])

lemma saved_uniform:
  assumes "\<forall>l k v. get_kv p l = Inr (Some k, Some v) \<longrightarrow> t_dtype k = d \<and> t_dtype v = d"
    and "\<forall>x \<in> set kvs. saved_as indices p x"
  shows "uniform_dtype d kvs"
proof -
  have "t_dtype (fst kv) = d \<and> t_dtype (snd kv) = d"
    if "get_kv p l = Inr (Some k, Some v)" "select_rows idx (k, v) = Inr kv" for l k v idx kv
    using that assms(1) by (auto simp: select_rows_def rbind_Inr_iff index_select_def split: option.splits if_splits)
  with assms(2) show ?thesis by (fastforce simp: uniform_dtype_def saved_as_def)
qed

lemma validate_query_layers_laid_out:
  "json_get sect ''layers'' JNull = Inr (JObj layers) \<Longrightarrow> laid_out layers off kvs \<Longrightarrow> 0 \<le> off \<Longrightarrow> off + int (length (kv_bytes kvs)) \<le> fsize \<Longrightarrow>
   validate_query_layers sect fsize off (map (JInt \<circ> fst) kvs) = Inr (off + int (length (kv_bytes kvs)))"
proof (induction layers off kvs rule: laid_out.induct)
  case (2 layers off l k v r)
  then have p: "packable k" "packable v" and m: "laid_out layers off [(l, k, v)]" by simp_all
  have len: "int (length (kv_bytes ((l, k, v) # r))) = nb k + nb v + int (length (kv_bytes r))"
    using p by (simp add: packable_data [symmetric])
  have nn: "0 \<le> nb k" "0 \<le> nb v" using p nb_nonneg by auto
  have "validate_layers layers fsize off (map fst [(l, k, v)]) = Inr (off + int (length (kv_bytes [(l, k, v)])))"
    using 2(4,5) len nn p by (intro validate_laid_out [OF m]) (simp_all add: packable_data [symmetric])
  then have "validate_layer layers l fsize off = Inr (off + nb k + nb v)"
    using p by (simp add: packable_data [symmetric] rbind_Inr_iff)
  with 2 len nn show ?case
    by (simp add: validate_query_layer_def packable_data [OF p(1)] packable_data [OF p(2)])
qed simp

lemma query_cache_saved:
  assumes "save_all_query_cache dir n digest_idx (Some crit) crit_idx d p s = Inr s'" "0 \<le> n"
    and "distinct crit" "\<forall>l \<in> set crit. 0 \<le> l" "pool_wf p" "slot_wf sl"
    and "\<forall>l k v. get_kv p l = Inr (Some k, Some v) \<longrightarrow> t_dtype k = dt \<and> t_dtype v = dt"
  shows "\<exists>meta ibm digest_kvs crit_kvs sl1 sl2.
    load_query_meta dir s' (None, cached_dir) = Inr (meta, (Some meta, dir)) \<and>
    export_payload None d = Inr (dm_metadata d, ibm) \<and>
    (\<forall>x. json_get meta ''metadata'' x = Inr (JObj (dm_metadata d))) \<and>
    (\<forall>x. json_get meta ''indices_by_method'' x = Inr (JObj ibm)) \<and>
    map fst digest_kvs = py_range 0 n \<and> map fst crit_kvs = crit \<and>
    (\<forall>x \<in> set digest_kvs. saved_as (\<lambda>l. rbind (py_get digest_idx l) (\<lambda>i. Inr (Some i))) p x) \<and>
    (\<forall>x \<in> set crit_kvs. saved_as (\<lambda>_. Inr crit_idx) p x) \<and>
    load_query_layers_progressively os junk dir meta ''digest'' (py_range 0 n)
      (\<lambda>st l kv. Inr (st @ [(l, kv)])) s' ([], sl) = Inr (digest_kvs, sl1) \<and>
    load_query_layers_to_gpu os junk dir meta ''critical'' crit s' sl = Inr (crit_kvs, sl2)"
proof -
  let ?di = "\<lambda>l. rbind (py_get digest_idx l) (\<lambda>i. Inr (Some i))"
  from assms(1) obtain dmeta ibm m f1 off1 dl f2 off2 cl where
    ex: "export_payload None d = Inr (dmeta, ibm)"
    and l1: "save_query_loop ?di p [] 0 [] (py_range 0 n) = Inr (f1, off1, dl)"
    and l2: "save_query_loop (\<lambda>_. Inr crit_idx) p f1 off1 [] crit = Inr (f2, off2, cl)"
    and s': "s' = write_json (os_path_join dir QUERY_META_NAME) (query_meta_json dmeta ibm m n crit dl cl)
        (write_bin (os_path_join dir QUERY_BIN_NAME) f2 s)"
    by (auto simp: save_all_query_cache_def rbind_Inr_iff Let_def)
  have dm: "dmeta = dm_metadata d"
    using ex by (auto simp: export_payload_def rbind_Inr_iff split: if_splits option.splits)
  let ?meta = "query_meta_json dmeta ibm m n crit dl cl"
  have g: "json_get ?meta ''format'' JNull = Inr (JStr QUERY_CACHE_FORMAT)"
    "\<forall>x. json_get ?meta ''metadata'' x = Inr (JObj dmeta)" "\<forall>x. json_get ?meta ''indices_by_method'' x = Inr (JObj ibm)"
    "json_get ?meta ''digest'' JNull = Inr (JObj [(''num_layers'', JInt n), (''layers'', JObj dl)])"
    "json_sub ?meta ''digest'' = Inr (JObj [(''num_layers'', JInt n), (''layers'', JObj dl)])"
    "json_get ?meta ''critical'' JNull = Inr (JObj [(''layer_ids'', json_ints crit), (''layers'', JObj cl)])"
    "json_sub ?meta ''critical'' = Inr (JObj [(''layer_ids'', json_ints crit), (''layers'', JObj cl)])"
    by (simp_all add: query_meta_json_def Let_def)
  from save_query_loop_laid_out [OF l1 distinct_py_range _ assms(5)] obtain dk where dk:
    "map fst dk = py_range 0 n" "f1 = kv_bytes dk" "off1 = int (length (kv_bytes dk))" "laid_out dl 0 dk"
    "\<forall>x \<in> set dk. saved_as ?di p x" by auto
  from save_query_loop_laid_out [OF l2 assms(3,4,5)] obtain ck where ck:
    "map fst ck = crit" "f2 = f1 @ kv_bytes ck" "laid_out cl off1 ck" "\<forall>x \<in> set ck. saved_as (\<lambda>_. Inr crit_idx) p x"
    by auto
  note ud = saved_uniform [OF assms(7) dk(5)] and uc = saved_uniform [OF assms(7) ck(4)]
  have bins: "f2 = [] @ kv_bytes dk @ kv_bytes ck" "f2 = kv_bytes dk @ kv_bytes ck @ []"
    by (simp_all add: dk(2) ck(2))
  have rb: "read_bin (os_path_join dir QUERY_BIN_NAME) s' = Inr f2" by (simp add: s')
  have v1: "validate_query_layers (JObj [(''num_layers'', JInt n), (''layers'', JObj dl)]) (int (length f2)) 0
      (map JInt (py_range 0 n)) = Inr off1"
    using validate_query_layers_laid_out [OF _ dk(4), of "JObj [(''num_layers'', JInt n), (''layers'', JObj dl)]" "int (length f2)"]
    by (simp add: bins dk(1) [symmetric] dk(3))
  have v2: "validate_query_layers (JObj [(''layer_ids'', json_ints crit), (''layers'', JObj cl)]) (int (length f2)) off1
      (map JInt crit) = Inr (int (length f2))"
    using validate_query_layers_laid_out [OF _ ck(3), of "JObj [(''layer_ids'', json_ints crit), (''layers'', JObj cl)]" "int (length f2)"]
    by (simp add: bins ck(1) [symmetric] dk(3))
  have load: "load_query_meta dir s' (None, cached_dir) = Inr (?meta, (Some ?meta, dir))"
    using assms(2) v1 v2 rb
    by (simp add: load_query_meta_def load_query_file_def s' g json_ints_def del: validate_query_layers.simps)
  have off0: "(0 :: int) = int (length ([] :: byte list))" by simp
  from progressive_section [OF g(5) _ dk(4) bins(1) off0 ud assms(6), of os junk "[]"] obtain sl1 where
    p1: "progressive_loop os junk f2 ?meta ''digest'' (\<lambda>st l kv. Inr (st @ [(l, kv)])) (py_range 0 n) ([], sl)
      = Inr (dk, sl1)"
    by (auto simp: dk(1))
  have prog: "load_query_layers_progressively os junk dir ?meta ''digest'' (py_range 0 n)
      (\<lambda>st l kv. Inr (st @ [(l, kv)])) s' ([], sl) = Inr (dk, if py_range 0 n = [] then sl else sl1)"
    using p1 rb dk(1) by (auto simp: load_query_layers_progressively_def)
  have crit: "\<exists>sl2. load_query_layers_to_gpu os junk dir ?meta ''critical'' crit s' sl = Inr (ck, sl2)"
  proof (cases "crit = []")
    case True
    then show ?thesis using ck(1) by (simp add: load_query_layers_to_gpu_def)
  next
    case False
    then have ne: "ck \<noteq> []" using ck(1) by auto
    from section_meta [OF g(7) _ ck(3), of crit] obtain layers' where
      sm: "query_section_layers_as_packed_meta ?meta ''critical'' crit = Inr (JObj [(''layers'', JObj layers')])"
      and eq: "\<forall>l \<in> set crit. map_of layers' (py_str l) = map_of cl (py_str l)"
      by (auto simp: ck(1) [symmetric])
    have lo: "laid_out layers' off1 ck"
      by (rule laid_out_cong [OF _ ck(3)]) (use eq in \<open>auto simp: ck(1) [symmetric]\<close>)
    have dist: "distinct (map fst ck)" by (simp add: ck(1) assms(3))
    from read_section_block [OF lo bins(2) dk(3) uc ne dist rb, of "clear_slot_metadata sl" os junk] assms(6)
    obtain sl' rest where rd: "read_block_to_slot os junk (os_path_join dir QUERY_BIN_NAME)
          (JObj [(''layers'', JObj layers')]) crit s' (clear_slot_metadata sl) = Inr sl'"
      and b: "sl_buf sl' = Some (file_slice f2 off1 (int (length (kv_bytes ck))) @ rest)"
        "sl_block sl' = Some \<lparr>bl_layer_ids = crit, bl_offset = off1, bl_nbytes = int (length (kv_bytes ck)),
           bl_meta = JObj [(''layers'', JObj layers')]\<rparr>"
      by (auto simp: ck(1))
    have cp: "copy_packed_layer_from_block_to_gpu sl' l = Inr (k, v)" if "(l, k, v) \<in> set ck" for l k v
      by (rule copy_from_section [OF lo bins(2) dk(3) uc that b])
    have "rmap (\<lambda>l. rbind (copy_packed_layer_from_block_to_gpu sl' l) (\<lambda>kv. Inr (l, kv))) (map fst xs) = Inr xs"
      if "set xs \<subseteq> set ck" for xs
      using that by (induction xs) (auto simp: cp)
    from this [of ck] have "rmap (\<lambda>l. rbind (copy_packed_layer_from_block_to_gpu sl' l) (\<lambda>kv. Inr (l, kv))) crit = Inr ck"
      by (simp add: ck(1))
    then show ?thesis
      using False sm rd by (simp add: load_query_layers_to_gpu_def read_query_layers_to_slot_def)
  qed
  from load prog crit ex g(2,3) dk(1,5) ck(1,4) show ?thesis unfolding dm by blast
qed

section \<open>Properties\<close>

text \<open>C3: what QCOMPUTE will read is what the offline pass saved. After a successful
  \<open>save_all_query_cache\<close> with distinct critical layers, the metadata passes the validation and is
  cached, the digest section loaded layer by layer gives the selected rows of the pool's K and V for
  every layer in order, and the critical section loaded as one block gives those of every critical
  layer, for every reader and whatever the slots held before.\<close>

theorem query_cache_roundtrip:
  assumes "save_all_query_cache dir n digest_idx (Some crit) crit_idx d p s = Inr s'" "0 \<le> n"
    and "distinct crit" "\<forall>l \<in> set crit. 0 \<le> l" "pool_wf p" "slot_wf sl"
    and "\<forall>l k v. get_kv p l = Inr (Some k, Some v) \<longrightarrow> t_dtype k = dt \<and> t_dtype v = dt"
  shows "\<exists>meta digest_kvs crit_kvs sl1 sl2.
    load_query_meta dir s' (None, cached_dir) = Inr (meta, (Some meta, dir)) \<and>
    json_get meta ''metadata'' JNull = Inr (JObj (dm_metadata d)) \<and>
    map fst digest_kvs = py_range 0 n \<and> map fst crit_kvs = crit \<and>
    (\<forall>x \<in> set digest_kvs. saved_as (\<lambda>l. rbind (py_get digest_idx l) (\<lambda>i. Inr (Some i))) p x) \<and>
    (\<forall>x \<in> set crit_kvs. saved_as (\<lambda>_. Inr crit_idx) p x) \<and>
    load_query_layers_progressively os junk dir meta ''digest'' (py_range 0 n)
      (\<lambda>st l kv. Inr (st @ [(l, kv)])) s' ([], sl) = Inr (digest_kvs, sl1) \<and>
    load_query_layers_to_gpu os junk dir meta ''critical'' crit s' sl = Inr (crit_kvs, sl2)"
  using query_cache_saved [OF assms, of cached_dir os junk] by (elim exE conjE) (intro exI conjI; (assumption | simp))

text \<open>The two-layer pool of byte tensors: row 1 of layer 0 is the digest, row 0 of layer 1 critical.\<close>

definition example_digest :: "int digest_state" where
  "example_digest = digest_clear\<lparr>dm_metadata := [(''digest_index_method'', JStr ''kvzip'')],
     dm_indices := [(''kvzip'', JObj [])]\<rparr>"

theorem query_cache_roundtrip_witness:
  "\<exists>s' meta sl1 sl2.
     save_all_query_cache ''q'' 1 [[1]] (Some [1]) (Some [0]) example_digest example_pool empty_ssd = Inr s' \<and>
     load_query_meta ''q'' s' (None, []) = Inr (meta, (Some meta, ''q'')) \<and>
     load_query_layers_progressively \<lparr>or_waits = (\<lambda>_. 1), or_most = (\<lambda>_. 0)\<rparr> (\<lambda>_. 0) ''q'' meta ''digest'' [0]
       (\<lambda>st l kv. Inr (st @ [(l, kv)])) s' ([], example_slot)
       = Inr ([(0, example_tensor [2], example_tensor [4])], sl1) \<and>
     load_query_layers_to_gpu \<lparr>or_waits = (\<lambda>_. 1), or_most = (\<lambda>_. 0)\<rparr> (\<lambda>_. 0) ''q'' meta ''critical'' [1] s' example_slot
       = Inr ([(1, example_tensor [5], example_tensor [7])], sl2)"
proof -
  let ?os = "\<lparr>or_waits = (\<lambda>_. 1), or_most = (\<lambda>_. 0)\<rparr>" and ?junk = "\<lambda>_. 0 :: byte"
  have r: "py_range 0 1 = [0]" by code_simp
  have n: "dtype_to_packed_name Uint8 = Inr ''U8''" by code_simp
  have ex: "export_payload None example_digest = Inr ([(''digest_index_method'', JStr ''kvzip'')], [(''kvzip'', JObj [])])"
    "normalize_method (Some ''kvzip'') = Inr ''kvzip''"
    by (code_simp, code_simp)
  have "\<exists>s'. save_all_query_cache ''q'' 1 [[1]] (Some [1]) (Some [0]) example_digest example_pool empty_ssd = Inr s'"
    by (simp add: save_all_query_cache_def r ex example_get_kv write_query_layer_def require_kv_def
        select_rows_def example_select Let_def) (simp add: example_tensor_def n write_tensor_bytes_def Let_def)
  then obtain s' where s': "save_all_query_cache ''q'' 1 [[1]] (Some [1]) (Some [0]) example_digest example_pool empty_ssd = Inr s'" ..
  have w: "slot_wf example_slot" by (simp add: slot_wf_def example_slot_def)
  have dt: "\<forall>l k v. get_kv example_pool l = Inr (Some k, Some v) \<longrightarrow> t_dtype k = Uint8 \<and> t_dtype v = Uint8"
    by (auto simp: get_kv_def rbind_Inr_iff example_pool_def example_tensor_def dest!: py_get_in_set)
  have h: "(0 :: int) \<le> 1" "distinct [1 :: int]" "\<forall>l \<in> set [1 :: int]. 0 \<le> l" by simp_all
  from query_cache_roundtrip [OF s' h example_pool_wf w dt, of "[]" ?os ?junk, unfolded r]
  obtain meta dk ck sl1 sl2 where m: "load_query_meta ''q'' s' (None, []) = Inr (meta, (Some meta, ''q''))"
    "map fst dk = [0]" "map fst ck = [1]"
    "\<forall>x \<in> set dk. saved_as (\<lambda>l. rbind (py_get [[1]] l) (\<lambda>i. Inr (Some i))) example_pool x"
    "\<forall>x \<in> set ck. saved_as (\<lambda>_. Inr (Some [0])) example_pool x"
    "load_query_layers_progressively ?os ?junk ''q'' meta ''digest'' [0]
       (\<lambda>st l kv. Inr (st @ [(l, kv)])) s' ([], example_slot) = Inr (dk, sl1)"
    "load_query_layers_to_gpu ?os ?junk ''q'' meta ''critical'' [1] s' example_slot = Inr (ck, sl2)"
    by (elim exE conjE) (rule that; assumption)
  have "dk = [(0, example_tensor [2], example_tensor [4])]"
    using m(2,4) by (auto simp: saved_as_def example_get_kv select_rows_def example_select)
  moreover have "ck = [(1, example_tensor [5], example_tensor [7])]"
    using m(3,5) by (auto simp: saved_as_def example_get_kv select_rows_def example_select)
  ultimately show ?thesis using s' m(1,6,7) by blast
qed

text \<open>Once loaded, the metadata of a directory is not read again, whatever happens to the files.\<close>

lemma load_query_file_cache: "load_query_file dir s = Inr (meta, cache) \<Longrightarrow> cache = (Some meta, dir)"
  unfolding load_query_file_def
  by (elim rbind_Inr_iff [THEN iffD1, elim_format] exE conjE
      | simp add: Let_def split: if_splits option.splits prod.splits)+

lemma load_query_meta_cached:
  "load_query_meta dir s cache = Inr (meta, cache') \<Longrightarrow> load_query_meta dir s'' cache' = Inr (meta, cache')"
  using load_query_file_cache [of dir s meta cache']
  by (cases "fst cache") (auto simp: load_query_meta_def split: if_splits)

end
