(* ===== verification/SSDManager.thy ===== *)
theory SSDManager
  imports QueryCorrect
begin

text \<open>
  The state of \<open>KVSSDManager\<close> (\<open>srt/utils/kv_ssd_manager.py\<close>) and of the pools it fills, with the
  operations of the main thread: configuration and reset, the ready events, the loader error, the
  transfer pools, restoring the context metadata from a query cache, and clearing the layers a
  DO_BLEND round loaded. The threads are in \<open>Loader\<close>.
\<close>

section \<open>State\<close>

text \<open>\<open>sm_task_b\<close> is the module's \<open>task_b_event\<close>; an event is whether it is set. A transfer pool is
  its device and slot (its lock and stream have no state of their own here).\<close>

record ssd_manager =
  sm_online :: bool
  sm_offline :: bool
  sm_dir_chunk :: string
  sm_dir_query :: string
  sm_num_layers :: int
  sm_device :: string
  sm_events :: "bool list"
  sm_error :: "py_error option"
  sm_meta_cache :: meta_cache
  sm_task_b :: bool
  sm_pools :: "string \<Rightarrow> (string \<times> slot) option"

record 's world =
  w_mgr :: ssd_manager
  w_hack :: kv_pool
  w_ctx :: "tensor ctx_pool"
  w_digest :: "'s digest_state"
  w_ssd :: ssd

definition initial_manager :: ssd_manager where
  "initial_manager =
     \<lparr>sm_online = False, sm_offline = False, sm_dir_chunk = [], sm_dir_query = [], sm_num_layers = 0,
      sm_device = ''cuda:0'', sm_events = [], sm_error = None, sm_meta_cache = (None, []),
      sm_task_b = False, sm_pools = (\<lambda>_. None)\<rparr>"

section \<open>Configuration, events and the loader error\<close>

definition ensure_transfer_pool :: "string \<Rightarrow> string \<Rightarrow> ssd_manager \<Rightarrow> ssd_manager" where
  "ensure_transfer_pool pool_key device m =
     (case sm_pools m pool_key of
        Some (dev, _) \<Rightarrow> if dev = device then m
          else m\<lparr>sm_pools := (sm_pools m)(pool_key \<mapsto> (device, empty_slot))\<rparr>
      | None \<Rightarrow> m\<lparr>sm_pools := (sm_pools m)(pool_key \<mapsto> (device, empty_slot))\<rparr>)"

definition clear_loader_error :: "ssd_manager \<Rightarrow> ssd_manager" where
  "clear_loader_error m = m\<lparr>sm_error := None\<rparr>"

definition record_loader_error :: "py_error \<Rightarrow> ssd_manager \<Rightarrow> ssd_manager" where
  "record_loader_error e m = (if sm_error m = None then m\<lparr>sm_error := Some e\<rparr> else m)"

definition raise_loader_error :: "ssd_manager \<Rightarrow> unit res" where
  "raise_loader_error m =
     (if sm_error m \<noteq> None then Inl (RuntimeError ''SSD KV loader failed'') else Inr ())"

definition configure ::
    "bool \<Rightarrow> bool \<Rightarrow> string \<Rightarrow> string \<Rightarrow> int \<Rightarrow> string \<Rightarrow> 's world \<Rightarrow> 's world" where
  "configure online offline dir_chunk dir_query num_layers device w =
     (let m = clear_loader_error ((w_mgr w)
            \<lparr>sm_online := online, sm_offline := offline, sm_dir_chunk := dir_chunk,
             sm_dir_query := dir_query, sm_num_layers := num_layers, sm_device := device,
             sm_events := replicate (nat num_layers) False, sm_meta_cache := (None, []),
             sm_task_b := False\<rparr>);
          d = (if offline then digest_clear else w_digest w);
          m' = ensure_transfer_pool ''query_critical'' device
                 (ensure_transfer_pool ''query_digest'' device
                   (ensure_transfer_pool ''query'' device (ensure_transfer_pool ''chunk'' device m)))
      in w\<lparr>w_mgr := m', w_digest := d\<rparr>)"

definition clear_events :: "ssd_manager \<Rightarrow> ssd_manager" where
  "clear_events m = m\<lparr>sm_events := map (\<lambda>_. False) (sm_events m)\<rparr>"

definition ssd_reset :: "ssd_manager \<Rightarrow> ssd_manager" where
  "ssd_reset m = clear_events ((clear_loader_error
     (m\<lparr>sm_online := False, sm_offline := False, sm_task_b := False\<rparr>))\<lparr>sm_meta_cache := (None, [])\<rparr>)"

definition cleanup_runtime_state :: "'s world \<Rightarrow> 's world" where
  "cleanup_runtime_state w =
     w\<lparr>w_hack := pool_clear, w_ctx := ctx_clear, w_digest := digest_clear, w_mgr := ssd_reset (w_mgr w)\<rparr>"

definition reset_layer_events :: "ssd_manager \<Rightarrow> ssd_manager" where
  "reset_layer_events m = clear_events m"

definition set_layer_ready :: "int \<Rightarrow> ssd_manager \<Rightarrow> ssd_manager res" where
  "set_layer_ready layer_id m =
     rbind (py_set (sm_events m) layer_id True) (\<lambda>evts. Inr (m\<lparr>sm_events := evts\<rparr>))"

fun set_layers_ready :: "int list \<Rightarrow> ssd_manager \<Rightarrow> ssd_manager" where
  "set_layers_ready [] m = m"
| "set_layers_ready (layer_id # ids) m =
     set_layers_ready ids
       (if 0 \<le> layer_id \<and> layer_id < int (length (sm_events m))
        then m\<lparr>sm_events := (sm_events m)[nat layer_id := True]\<rparr> else m)"

text \<open>Waiting: \<open>None\<close> while the event is not set, then the loader's error if there is one.\<close>

definition wait_layer_ready :: "int \<Rightarrow> ssd_manager \<Rightarrow> unit res option" where
  "wait_layer_ready layer_id m =
     (case py_get (sm_events m) layer_id of
        Inl e \<Rightarrow> Some (Inl e)
      | Inr ready \<Rightarrow> if ready then Some (raise_loader_error m) else None)"

definition wait_task_b :: "ssd_manager \<Rightarrow> unit res option" where
  "wait_task_b m = (if sm_task_b m then Some (raise_loader_error m) else None)"

section \<open>Restoring the context metadata\<close>

fun json_truthy :: "json \<Rightarrow> bool" where
  "json_truthy JNull = False"
| "json_truthy (JBool b) = b"
| "json_truthy (JInt i) = (i \<noteq> 0)"
| "json_truthy (JFloat r) = (r \<noteq> 0)"
| "json_truthy (JStr s) = (s \<noteq> [])"
| "json_truthy (JList xs) = (xs \<noteq> [])"
| "json_truthy (JObj kvs) = (kvs \<noteq> [])"

text \<open>Iterating over a JSON value; metadata files only have lists there.\<close>

definition json_iter :: "(json \<Rightarrow> 'a res) \<Rightarrow> json \<Rightarrow> 'a list res" where
  "json_iter f j = (case as_list j of None \<Rightarrow> Inl TypeError | Some xs \<Rightarrow> rmap f xs)"

text \<open>One range of \<open>orig_chunk_ranges\<close>: kept when it is a pair inside the context.\<close>

definition restore_range :: "int \<Rightarrow> json \<Rightarrow> (int \<times> int) option res" where
  "restore_range total_toks r =
     (case as_list r of
        None \<Rightarrow> Inl TypeError
      | Some [a, b] \<Rightarrow>
          rbind (py_int a) (\<lambda>s.
          if \<not> s < total_toks then Inr None
          else rbind (py_int b) (\<lambda>e. Inr (if e \<le> total_toks then Some (s, e) else None)))
      | Some _ \<Rightarrow> Inr None)"

definition restore_context_pool_metadata ::
    "json \<Rightarrow> json \<Rightarrow> f64 option \<Rightarrow> int \<Rightarrow> 't ctx_pool \<Rightarrow> 't ctx_pool res" where
  "restore_context_pool_metadata meta index digest_ratio mgr_num_layers ctx =
     rbind (rbind (json_get index ''ranked_indices_by_chunk'' (JList [])) (json_iter (json_iter py_int))) (\<lambda>by_chunk.
     rbind (rbind (json_get index ''ranked_indices_by_layer_chunk'' (JList []))
              (json_iter (json_iter (json_iter py_int)))) (\<lambda>by_layer_chunk.
     rbind (rbind (json_get meta ''total_tokens'' (JInt 0)) py_int) (\<lambda>total_toks.
     rbind (rbind (json_get meta ''num_layers'' (JInt mgr_num_layers))
              (\<lambda>j. if json_truthy j then py_int j else Inr 0)) (\<lambda>num_layers.
     rbind (rbind (json_get meta ''orig_chunk_ranges'' (JList [])) (json_iter (restore_range total_toks))) (\<lambda>ranges.
     let orig_ranges = map the (filter (\<lambda>r. r \<noteq> None) ranges);
         ctx1 = set_index_metadata (Some by_chunk) (Some by_layer_chunk) orig_ranges total_toks
                  (Some num_layers) ctx
     in rbind (json_get meta ''materialized_digest'' JNull) (\<lambda>jm.
        rbind (json_get meta ''context_positions_by_layer'' JNull) (\<lambda>jp.
        if json_truthy jm \<and> json_truthy jp then
          rbind (json_iter (json_iter py_int) jp) (\<lambda>positions. Inr (set_materialized_positions positions ctx1))
        else
          let fallback = (case digest_ratio of None \<Rightarrow> DEFAULT_DIGEST_RATIO | Some r \<Rightarrow> r)
          in Inr (snd (build_context_positions fallback ctx1)))))))))"

definition restore_query_metadata ::
    "string \<Rightarrow> string option \<Rightarrow> f64 option \<Rightarrow> 's world \<Rightarrow> (json \<times> 's world) res" where
  "restore_query_metadata sample_dir digest_index_method digest_ratio w =
     (let dir = (if sample_dir = [] then sm_dir_query (w_mgr w) else sample_dir)
      in rbind (load_query_meta dir (w_ssd w) (sm_meta_cache (w_mgr w))) (\<lambda>(query_meta, cache).
         rbind (normalize_method digest_index_method) (\<lambda>m.
         rbind (json_get query_meta ''metadata'' (JObj [])) (\<lambda>meta.
         rbind (json_get query_meta ''indices_by_method'' (JObj [])) (\<lambda>ibm.
         case as_dict ibm of
           None \<Rightarrow> Inl TypeError
         | Some kvs \<Rightarrow>
             (case map_of kvs m of
                None \<Rightarrow> Inl (ValueError ''Digest method is not available in query cache'')
              | Some index \<Rightarrow>
                  rbind (restore_context_pool_metadata meta index digest_ratio (sm_num_layers (w_mgr w)) (w_ctx w)) (\<lambda>ctx.
                  Inr (query_meta, w\<lparr>w_ctx := ctx, w_mgr := (w_mgr w)\<lparr>sm_meta_cache := cache\<rparr>\<rparr>))))))))"

section \<open>After a DO_BLEND round\<close>

fun clear_layers :: "int list \<Rightarrow> int list \<Rightarrow> kv_pool \<Rightarrow> kv_pool res" where
  "clear_layers keep [] p = Inr p"
| "clear_layers keep (l # ls) p =
     (if l \<notin> set keep then rbind (clear_layer l p) (clear_layers keep ls) else clear_layers keep ls p)"

definition clear_do_blend_layers :: "int \<Rightarrow> int list \<Rightarrow> 's world \<Rightarrow> 's world res" where
  "clear_do_blend_layers num_layers keep_layers_set w =
     rbind (clear_layers keep_layers_set (py_range 0 num_layers) (w_hack w)) (\<lambda>p.
       Inr (w\<lparr>w_hack := p, w_mgr := clear_events (w_mgr w)\<rparr>))"

section \<open>Lemmas\<close>

lemma json_iter_ints [simp]: "json_iter py_int (json_ints xs) = Inr xs"
  by (induction xs) (simp_all add: json_iter_def json_ints_def)

lemma json_iter_map:
  "(\<And>x. x \<in> set xs \<Longrightarrow> f (g x) = Inr x) \<Longrightarrow> json_iter f (JList (map g xs)) = Inr xs"
  by (induction xs) (simp_all add: json_iter_def)

lemma json_iter_ints2: "json_iter (json_iter py_int) (JList (map json_ints xss)) = Inr xss"
  by (rule json_iter_map) simp

lemma json_iter_ints3:
  "json_iter (json_iter (json_iter py_int)) (JList (map (\<lambda>l. JList (map json_ints l)) xsss)) = Inr xsss"
  by (rule json_iter_map) (rule json_iter_ints2)

lemma restore_ranges:
  "json_iter (restore_range t) (json_ranges rs) =
     Inr (map (\<lambda>(s, e). if s < t \<and> e \<le> t then Some (s, e) else None) rs)"
proof -
  have "rmap (restore_range t) (map (\<lambda>(s, e). json_ints [s, e]) rs)
      = Inr (map (\<lambda>(s, e). if s < t \<and> e \<le> t then Some (s, e) else None) rs)"
    by (induction rs) (auto simp: restore_range_def json_ints_def)
  then show ?thesis by (simp add: json_iter_def json_ranges_def)
qed

lemma restored_ranges:
  "map the (filter (\<lambda>r. r \<noteq> None) (map (\<lambda>(s, e). if s < t \<and> e \<le> t then Some (s, e) else None) rs))
   = filter (\<lambda>(s, e). s < t \<and> e \<le> t) rs"
  by (induction rs) (auto split: if_splits)

lemma build_materialize:
  "set_materialized_positions (context_positions_by_layer (snd (build_context_positions r (set_index_metadata a b rs t n c))))
     (set_index_metadata a b rs' t' n' c')
   = (set_index_metadata a b rs' t' n' c')
       \<lparr>context_positions_by_layer := context_positions_by_layer (snd (build_context_positions r (set_index_metadata a b rs t n c))),
        context_position_spans_by_layer := context_position_spans_by_layer (snd (build_context_positions r (set_index_metadata a b rs t n c))),
        context_positions := context_positions (snd (build_context_positions r (set_index_metadata a b rs t n c))),
        context_position_spans := context_position_spans (snd (build_context_positions r (set_index_metadata a b rs t n c)))\<rparr>"
  by (simp add: build_context_positions_def set_materialized_positions_def Let_def)

lemma build_positions_nonempty: "context_positions_by_layer (snd (build_context_positions r c)) \<noteq> []"
proof -
  have "0 < build_num_layers c" by (simp add: build_num_layers_def)
  then show ?thesis by (simp add: build_context_positions_def Let_def py_range_rec)
qed

lemma clear_layer_slots:
  assumes "clear_layer l p = Inr p'" "0 \<le> l" "length (v_buffer p) = length (k_buffer p)"
  shows "length (k_buffer p') = length (k_buffer p)" "length (v_buffer p') = length (v_buffer p)"
    "slots (k_buffer p') j = (if j = l then None else slots (k_buffer p) j)"
    "slots (v_buffer p') j = (if j = l then None else slots (v_buffer p) j)"
  using assms by (auto simp: clear_layer_def rbind_Inr_iff slots_update split: if_splits) (auto simp: slots_def)

lemma clear_layers_slots:
  assumes "\<forall>l \<in> set ls. 0 \<le> l" "length (v_buffer p) = length (k_buffer p)"
  shows "\<exists>p'. clear_layers keep ls p = Inr p' \<and> length (k_buffer p') = length (k_buffer p) \<and>
    length (v_buffer p') = length (k_buffer p) \<and>
    (\<forall>j. slots (k_buffer p') j = (if j \<in> set ls \<and> j \<notin> set keep then None else slots (k_buffer p) j) \<and>
         slots (v_buffer p') j = (if j \<in> set ls \<and> j \<notin> set keep then None else slots (v_buffer p) j))"
  using assms
proof (induction ls arbitrary: p)
  case (Cons l ls)
  show ?case
  proof (cases "l \<in> set keep")
    case True
    with Cons.IH [of p] Cons.prems show ?thesis by (auto split: if_splits)
  next
    case False
    have "\<exists>p1. clear_layer l p = Inr p1"
      using Cons.prems by (cases "l < int (length (k_buffer p))") (auto simp: clear_layer_def)
    then obtain p1 where p1: "clear_layer l p = Inr p1" ..
    note c = clear_layer_slots [OF p1 _ Cons.prems(2)]
    have c': "length (v_buffer p1) = length (k_buffer p1)" using c(1,2) Cons.prems by simp
    from Cons.IH [OF _ c'] Cons.prems(1) obtain p' where p': "clear_layers keep ls p1 = Inr p'"
      "length (k_buffer p') = length (k_buffer p1)" "length (v_buffer p') = length (k_buffer p1)"
      "\<forall>j. slots (k_buffer p') j = (if j \<in> set ls \<and> j \<notin> set keep then None else slots (k_buffer p1) j) \<and>
         slots (v_buffer p') j = (if j \<in> set ls \<and> j \<notin> set keep then None else slots (v_buffer p1) j)"
      by auto
    with c Cons.prems(1) False p1 show ?thesis by (intro exI [of _ p']) auto
  qed
qed auto

lemma clear_do_blend_layers_ok:
  assumes "length (v_buffer (w_hack w)) = length (k_buffer (w_hack w))"
  shows "\<exists>w'. clear_do_blend_layers n keep w = Inr w' \<and>
    (\<forall>l. slots (k_buffer (w_hack w')) l =
           (if 0 \<le> l \<and> l < n \<and> l \<notin> set keep then None else slots (k_buffer (w_hack w)) l) \<and>
         slots (v_buffer (w_hack w')) l =
           (if 0 \<le> l \<and> l < n \<and> l \<notin> set keep then None else slots (v_buffer (w_hack w)) l)) \<and>
    sm_events (w_mgr w') = replicate (length (sm_events (w_mgr w))) False \<and>
    w_ctx w' = w_ctx w"
proof -
  have "\<forall>l \<in> set (py_range 0 n). 0 \<le> l" by simp
  from clear_layers_slots [OF this assms, of keep] show ?thesis
    by (auto simp: clear_do_blend_layers_def clear_events_def map_replicate_const)
qed

lemma restore_built_context:
  assumes "2 \<le> length (index_locs bi)" "sorted (index_locs bi)"
    and "build_all_indices argsort zero pool_layers bi (d, ctx) = Inr (d', ctx')"
  shows "\<exists>payload ctx''. dm_indices d' = [(''kvzip'', payload)] \<and>
    restore_context_pool_metadata (JObj (dm_metadata d')) payload ratio layers ctx0 = Inr ctx'' \<and>
    context_positions_by_layer ctx'' = context_positions_by_layer ctx' \<and>
    context_position_spans_by_layer ctx'' = context_position_spans_by_layer ctx' \<and>
    context_positions ctx'' = context_positions ctx' \<and>
    ranked_indices_by_layer_chunk ctx'' = ranked_indices_by_layer_chunk ctx' \<and>
    total_tokens ctx'' = total_tokens ctx' \<and>
    orig_chunk_ranges ctx'' = filter (\<lambda>(s, e). s < total_tokens ctx') (orig_chunk_ranges ctx')"
proof -
  obtain rankings n r crit payload where
    md: "dm_metadata d' = index_metadata (chunk_abs_ranges (index_locs bi)) (fst (last (chunk_abs_ranges (index_locs bi))))
       ''kvzip'' n r crit @
       [(''context_positions_by_layer'', JList (map json_ints (context_positions_by_layer ctx')))]"
    and ix: "dm_indices d' = [(''kvzip'', JObj payload)]"
    "map_of payload ''ranked_indices_by_chunk''
       = Some (JList (map json_ints (if rankings = [] then [] else hd rankings)))"
    "map_of payload ''ranked_indices_by_layer_chunk''
       = Some (JList (map (\<lambda>layer. JList (map json_ints layer)) rankings))"
    and cx: "ctx' = snd (build_context_positions r
       (set_index_metadata (Some (if rankings = [] then [] else hd rankings)) (Some rankings)
         (butlast (chunk_abs_ranges (index_locs bi))) (fst (last (chunk_abs_ranges (index_locs bi)))) (Some n) ctx))"
    by (rule build_all_indices_explicit [OF assms(1,3)])
  let ?rs = "chunk_abs_ranges (index_locs bi)"
  let ?t = "fst (last ?rs)" and ?sh = "if rankings = [] then [] else hd rankings"
  define ctx1 where "ctx1 = set_index_metadata (Some ?sh) (Some rankings)
    (filter (\<lambda>(s, e). s < ?t \<and> e \<le> ?t) ?rs) ?t (Some n) ctx0"
  have pos: "json_truthy (JList (map json_ints (context_positions_by_layer ctx')))"
    by (simp add: cx build_positions_nonempty)
  have nl: "(if json_truthy (JInt n) then py_int (JInt n) else Inr 0) = Inr n" by simp
  have get: "json_get (JObj (dm_metadata d')) ''total_tokens'' (JInt 0) = Inr (JInt ?t)"
    "json_get (JObj (dm_metadata d')) ''num_layers'' (JInt layers) = Inr (JInt n)"
    "json_get (JObj (dm_metadata d')) ''orig_chunk_ranges'' (JList []) = Inr (json_ranges ?rs)"
    "json_get (JObj (dm_metadata d')) ''materialized_digest'' JNull = Inr (JBool True)"
    "json_get (JObj (dm_metadata d')) ''context_positions_by_layer'' JNull
       = Inr (JList (map json_ints (context_positions_by_layer ctx')))"
    "json_get (JObj payload) ''ranked_indices_by_chunk'' (JList []) = Inr (JList (map json_ints ?sh))"
    "json_get (JObj payload) ''ranked_indices_by_layer_chunk'' (JList [])
       = Inr (JList (map (\<lambda>layer. JList (map json_ints layer)) rankings))"
    using ix by (simp_all add: md index_metadata_def)
  have res: "restore_context_pool_metadata (JObj (dm_metadata d')) (JObj payload) ratio layers ctx0
      = Inr (set_materialized_positions (context_positions_by_layer ctx') ctx1)"
    unfolding restore_context_pool_metadata_def get rbind_simps json_iter_ints2 json_iter_ints3 nl restore_ranges
      Let_def restored_ranges
    using pos by (simp add: json_iter_ints2 ctx1_def)
  have rs: "filter (\<lambda>(s, e). s < ?t \<and> e \<le> ?t) ?rs = filter (\<lambda>(s, e). s < ?t) (butlast ?rs)"
  proof -
    have ne: "?rs \<noteq> []" using assms(1) by (auto simp: chunk_abs_ranges_def)
    have app: "?rs = butlast ?rs @ [last ?rs]" using ne by simp
    have ok: "ranges_ok (butlast ?rs @ [last ?rs])" using chunk_abs_ranges_ok [OF assms(2)] ne by simp
    then have "\<forall>(s, e) \<in> set (butlast ?rs). e \<le> ?t"
      by (auto simp: ranges_ok_def sorted_wrt_append split: prod.splits)
    then have "filter (\<lambda>(s, e). s < ?t \<and> e \<le> ?t) (butlast ?rs) = filter (\<lambda>(s, e). s < ?t) (butlast ?rs)"
      by (intro filter_cong) auto
    moreover have "filter (\<lambda>(s, e). s < ?t \<and> e \<le> ?t) [last ?rs] = []" by (cases "last ?rs") simp
    ultimately show ?thesis by (subst app) (simp only: filter_append append_Nil2)
  qed
  note same = build_materialize [of r "Some ?sh" "Some rankings" "butlast ?rs" ?t "Some n" ctx, folded cx]
  show ?thesis
    using ix(1) res
    by (intro exI [of _ "JObj payload"] exI [of _ "set_materialized_positions (context_positions_by_layer ctx') ctx1"])
      (simp add: ctx1_def same rs, simp add: cx set_index_metadata_def build_context_positions_def Let_def)
qed

section \<open>Properties\<close>

text \<open>After a DO_BLEND round the pool holds exactly the layers that are kept. Clearing never
  fails, every layer of the model outside the keep set is empty, every other layer is unchanged, and
  all ready events are down for the next round.\<close>

theorem clear_do_blend_keeps_task_b:
  assumes "length (v_buffer (w_hack w)) = length (k_buffer (w_hack w))"
  shows "\<exists>w'. clear_do_blend_layers n keep w = Inr w' \<and>
    (\<forall>l. slots (k_buffer (w_hack w')) l =
           (if 0 \<le> l \<and> l < n \<and> l \<notin> set keep then None else slots (k_buffer (w_hack w)) l) \<and>
         slots (v_buffer (w_hack w')) l =
           (if 0 \<le> l \<and> l < n \<and> l \<notin> set keep then None else slots (v_buffer (w_hack w)) l)) \<and>
    sm_events (w_mgr w') = replicate (length (sm_events (w_mgr w))) False \<and>
    w_ctx w' = w_ctx w"
  using clear_do_blend_layers_ok [OF assms] by blast

definition example_world :: "int world" where
  "example_world = \<lparr>w_mgr = initial_manager\<lparr>sm_events := [True, False]\<rparr>, w_hack = example_pool, w_ctx = ctx_clear,
     w_digest = digest_clear, w_ssd = empty_ssd\<rparr>"

theorem clear_do_blend_keeps_task_b_witness:
  "\<exists>w'. clear_do_blend_layers 2 [1] example_world = Inr w' \<and>
     slots (k_buffer (w_hack w')) 0 = None \<and> slots (k_buffer (w_hack w')) 1 = Some (example_tensor [5, 6]) \<and>
     sm_events (w_mgr w') = [False, False]"
proof -
  have e: "length (v_buffer (w_hack example_world)) = length (k_buffer (w_hack example_world))"
    "length (sm_events (w_mgr example_world)) = 2"
    "slots (k_buffer (w_hack example_world)) 1 = Some (example_tensor [5, 6])"
    by (simp_all add: example_world_def example_pool_def slots_def)
  obtain w' where w': "clear_do_blend_layers 2 [1] example_world = Inr w'"
    "\<forall>l. slots (k_buffer (w_hack w')) l =
       (if 0 \<le> l \<and> l < 2 \<and> l \<notin> set [1] then None else slots (k_buffer (w_hack example_world)) l)"
    "sm_events (w_mgr w') = replicate (length (sm_events (w_mgr example_world))) False"
    using clear_do_blend_keeps_task_b [OF e(1), of 2 "[1]"] by auto
  then show ?thesis using e by (auto simp: numeral_2_eq_2)
qed

text \<open>C23: the context that QCOMPUTE restores is the context that the offline pass built. Restoring
  from the metadata and index that \<open>build_all_indices\<close> produced installs the same digest positions
  and spans for every layer, the same rankings and the same token count, whatever ratio the request
  asks for; the chunk ranges are the ones that start inside the context.\<close>

theorem restore_gives_built_context:
  assumes "2 \<le> length (index_locs bi)" "sorted (index_locs bi)"
    and "build_all_indices argsort zero pool_layers bi (d, ctx) = Inr (d', ctx')"
  shows "\<exists>payload ctx''. dm_indices d' = [(''kvzip'', payload)] \<and>
    restore_context_pool_metadata (JObj (dm_metadata d')) payload ratio layers ctx0 = Inr ctx'' \<and>
    context_positions_by_layer ctx'' = context_positions_by_layer ctx' \<and>
    context_position_spans_by_layer ctx'' = context_position_spans_by_layer ctx' \<and>
    context_positions ctx'' = context_positions ctx' \<and>
    ranked_indices_by_layer_chunk ctx'' = ranked_indices_by_layer_chunk ctx' \<and>
    total_tokens ctx'' = total_tokens ctx' \<and>
    orig_chunk_ranges ctx'' = filter (\<lambda>(s, e). s < total_tokens ctx') (orig_chunk_ranges ctx')"
  by (rule restore_built_context [OF assms])

theorem restore_gives_built_context_witness:
  "\<exists>payload ctx''. dm_indices (fst example_index) = [(''kvzip'', payload)] \<and>
    restore_context_pool_metadata (JObj (dm_metadata (fst example_index))) payload None 0 (ctx_clear :: unit ctx_pool) = Inr ctx'' \<and>
    ranked_indices_by_layer_chunk ctx'' = [[[], [0, 2, 1], [0, 1, 2, 3]], [[], [0, 1, 2], [0, 3, 2, 1]]]"
proof -
  have "2 \<le> length (index_locs example_batch)" "sorted (index_locs example_batch)"
    by (simp_all add: example_batch_def new_blend_info_def index_locs_def)
  from restore_gives_built_context [OF this example_index_built, of None 0 "ctx_clear :: unit ctx_pool"]
  show ?thesis by (auto simp: example_index_rankings)
qed

end
