(* ===== verification/Loader.thy ===== *)
theory Loader
  imports SSDManager
begin

text \<open>
  The loader threads of \<open>KVSSDManager\<close>: \<open>start_query_cache\<close> (a root thread that checks the
  metadata and starts a digest and a critical thread), \<open>start_task_b\<close> and
  \<open>start_do_blend_prefetch\<close>, all run by the worker of \<open>_start_loader_thread\<close>.

  A thread is the list of the atomic actions it still has to do, with its local variables. An action
  that raises replaces the rest by the worker's exception handler: record the error, release the
  layers, set \<open>task_b_event\<close>. Locks only protect single actions here, so they need no state. The
  system is the shared state with the threads; a step runs the next action of one thread, in any
  order, and a wait for an event that is not set cannot step.
\<close>

section \<open>Actions and threads\<close>

datatype action =
    CheckQuery "json option" "int list" "int list"
  | SpawnQuery "int list" "int list"
  | ReadDigest int
  | StoreCtx int
  | SetReady int
  | WaitReady int
  | ReadCritical "int list"
  | StoreCritical int
  | LoadPackedMeta "int option"
  | ReadChunk int
  | StoreHack int
  | PrefetchLayer int
  | RecordError py_error
  | ReleaseLayers "int list"
  | SetTaskB

record thread =
  th_prog :: "action list"
  th_meta :: json
  th_kvs :: "(int \<times> tensor \<times> tensor) list"
  th_release :: "int list"
  th_release_b :: bool
  th_handling :: bool

record 's sys =
  sy_world :: "'s world"
  sy_threads :: "thread list"

text \<open>\<open>_start_loader_thread\<close>: the worker runs the load function and then, when asked to, sets
  \<open>task_b_event\<close>.\<close>

definition loader_thread :: "json \<Rightarrow> action list \<Rightarrow> int list \<Rightarrow> bool \<Rightarrow> thread" where
  "loader_thread meta load_fn release_layer_ids release_task_b =
     \<lparr>th_prog = load_fn @ (if release_task_b then [SetTaskB] else []), th_meta = meta, th_kvs = [],
      th_release = release_layer_ids, th_release_b = release_task_b, th_handling = False\<rparr>"

definition handler :: "py_error \<Rightarrow> thread \<Rightarrow> thread" where
  "handler e th = th\<lparr>th_prog := [RecordError e, ReleaseLayers (th_release th)] @
     (if th_release_b th then [SetTaskB] else []), th_handling := True\<rparr>"

text \<open>The loops of the load functions.\<close>

definition digest_actions :: "int list \<Rightarrow> action list" where
  "digest_actions ids = concat (map (\<lambda>l. [ReadDigest l, StoreCtx l, SetReady l]) ids)"

definition critical_actions :: "int list \<Rightarrow> int list \<Rightarrow> action list" where
  "critical_actions digest_ids crit_ids =
     (case digest_ids of [] \<Rightarrow> [] | l # _ \<Rightarrow> [WaitReady l]) @ [ReadCritical crit_ids] @ map StoreCritical crit_ids"

definition task_b_actions :: "int list \<Rightarrow> action list" where
  "task_b_actions ids = LoadPackedMeta None # concat (map (\<lambda>l. [ReadChunk l, StoreHack l]) ids)"

definition do_blend_actions :: "int \<Rightarrow> int list \<Rightarrow> action list" where
  "do_blend_actions num_layers ids = LoadPackedMeta (Some num_layers) # map PrefetchLayer ids"

definition digest_thread :: "json \<Rightarrow> int list \<Rightarrow> thread" where
  "digest_thread meta ids = loader_thread meta (digest_actions ids) ids False"

definition critical_thread :: "json \<Rightarrow> int list \<Rightarrow> int list \<Rightarrow> thread" where
  "critical_thread meta digest_ids crit_ids =
     loader_thread meta (critical_actions digest_ids crit_ids) crit_ids True"

text \<open>The three entry points. The root thread of \<open>start_query_cache\<close> handles its own exceptions,
  with the same effect; it does not set \<open>task_b_event\<close> when it succeeds.\<close>

definition start_query_cache :: "int \<Rightarrow> int list option \<Rightarrow> json option \<Rightarrow> thread" where
  "start_query_cache num_digest_layers critical_layers query_meta =
     (let digest_ids = py_range 0 num_digest_layers;
          crit_ids = (case critical_layers of None \<Rightarrow> [] | Some l \<Rightarrow> l)
      in \<lparr>th_prog = [CheckQuery query_meta digest_ids crit_ids, SpawnQuery digest_ids crit_ids],
          th_meta = JNull, th_kvs = [], th_release = digest_ids @ crit_ids, th_release_b = True,
          th_handling = False\<rparr>)"

definition start_task_b :: "int list \<Rightarrow> thread" where
  "start_task_b layer_list = loader_thread JNull (task_b_actions layer_list) layer_list True"

definition start_do_blend_prefetch :: "int \<Rightarrow> int \<Rightarrow> thread" where
  "start_do_blend_prefetch prefetch_from num_layers =
     loader_thread JNull (do_blend_actions num_layers (py_range prefetch_from num_layers))
       (py_range prefetch_from num_layers) False"

section \<open>One action\<close>

text \<open>The slot of a transfer pool, made when the pool is missing or on another device.\<close>

definition with_slot ::
    "string \<Rightarrow> (slot \<Rightarrow> ('a \<times> slot) res) \<Rightarrow> ssd_manager \<Rightarrow> ('a \<times> ssd_manager) res" where
  "with_slot key f m =
     (let m1 = ensure_transfer_pool key (sm_device m) m;
          sl = snd (the (sm_pools m1 key))
      in rbind (f sl) (\<lambda>(x, sl'). Inr (x, m1\<lparr>sm_pools := (sm_pools m1)(key \<mapsto> (sm_device m, sl'))\<rparr>)))"

text \<open>The checks of the root thread, in order.\<close>

definition check_query ::
    "json option \<Rightarrow> int list \<Rightarrow> int list \<Rightarrow> 's world \<Rightarrow> (json \<times> 's world) res" where
  "check_query query_meta digest_ids crit_ids w =
     rbind (case query_meta of
              Some meta \<Rightarrow> Inr (meta, sm_meta_cache (w_mgr w))
            | None \<Rightarrow> load_query_meta (sm_dir_query (w_mgr w)) (w_ssd w) (sm_meta_cache (w_mgr w))) (\<lambda>(meta, cache).
     rbind (json_get meta ''digest'' (JObj [])) (\<lambda>digest.
     rbind (json_get meta ''critical'' (JObj [])) (\<lambda>critical.
     rbind (rbind (json_get digest ''num_layers'' (JInt 0)) py_int) (\<lambda>n.
     if n < int (length digest_ids) then Inl (ValueError ''Query cache has fewer digest layers than requested'')
     else
       rbind (rbind (json_get critical ''layer_ids'' (JList [])) (json_iter py_int)) (\<lambda>available.
       if \<exists>x \<in> set crit_ids. x \<notin> set available then Inl (ValueError ''Query cache missing critical layers'')
       else Inr (meta, w\<lparr>w_mgr := (w_mgr w)\<lparr>sm_meta_cache := cache\<rparr>\<rparr>))))))"

text \<open>The result of an action: \<open>None\<close> when it blocks, an error, or the thread with the rest of its
  program, the shared state and new threads.\<close>

type_synonym 's outcome = "(thread \<times> 's world \<times> thread list) res option"

definition go :: "thread \<Rightarrow> 's world \<Rightarrow> 's outcome" where
  "go th w = Some (Inr (th, w, []))"

definition go_res :: "thread \<Rightarrow> 's world res \<Rightarrow> 's outcome" where
  "go_res th r = Some (rbind r (\<lambda>w. Inr (th, w, [])))"

fun exec_action :: "os_reader \<Rightarrow> (nat \<Rightarrow> byte) \<Rightarrow> action \<Rightarrow> thread \<Rightarrow> 's world \<Rightarrow> 's outcome" where
  "exec_action os junk (CheckQuery qm d c) th w =
     Some (rbind (check_query qm d c w) (\<lambda>(meta, w'). Inr (th\<lparr>th_meta := meta\<rparr>, w', [])))"
| "exec_action os junk (SpawnQuery d c) th w =
     Some (Inr (th, w, [digest_thread (th_meta th) d, critical_thread (th_meta th) d c]))"
| "exec_action os junk (ReadDigest l) th w =
     Some (rbind (with_slot ''query_digest'' (\<lambda>sl.
         rbind (read_bin (os_path_join (sm_dir_query (w_mgr w)) QUERY_BIN_NAME) (w_ssd w)) (\<lambda>f.
         rbind (read_query_layer_from_open_file os junk f (th_meta th) ''digest'' l (clear_slot_metadata sl)) (\<lambda>sl'.
         rbind (copy_packed_layer_from_block_to_gpu sl' l) (\<lambda>kv. Inr (kv, sl'))))) (w_mgr w))
       (\<lambda>(kv, m). Inr (th\<lparr>th_kvs := [(l, kv)]\<rparr>, w\<lparr>w_mgr := m\<rparr>, [])))"
| "exec_action os junk (StoreCtx l) th w =
     go_res th (rbind (ctx_store (w_ctx w) l (snd (hd (th_kvs th)))) (\<lambda>c. Inr (w\<lparr>w_ctx := c\<rparr>)))"
| "exec_action os junk (SetReady l) th w =
     go_res th (rbind (set_layer_ready l (w_mgr w)) (\<lambda>m. Inr (w\<lparr>w_mgr := m\<rparr>)))"
| "exec_action os junk (WaitReady l) th w =
     map_option (\<lambda>r. rbind r (\<lambda>_. Inr (th, w, []))) (wait_layer_ready l (w_mgr w))"
| "exec_action os junk (ReadCritical ids) th w =
     (if ids = [] then go (th\<lparr>th_kvs := []\<rparr>) w
      else
        Some (rbind (with_slot ''query_critical'' (\<lambda>sl.
          load_query_layers_to_gpu os junk (sm_dir_query (w_mgr w)) (th_meta th) ''critical'' ids (w_ssd w) sl) (w_mgr w))
        (\<lambda>(kvs, m). Inr (th\<lparr>th_kvs := kvs\<rparr>, w\<lparr>w_mgr := m\<rparr>, []))))"
| "exec_action os junk (StoreCritical l) th w =
     go_res th (case map_of (th_kvs th) l of
         None \<Rightarrow> Inl KeyError
       | Some kv \<Rightarrow> rbind (pool_store (w_hack w) l kv) (\<lambda>p. Inr (w\<lparr>w_hack := p\<rparr>)))"
| "exec_action os junk (LoadPackedMeta fallback) th w =
     Some (rbind (load_packed_meta (sm_dir_chunk (w_mgr w))
         (if sm_num_layers (w_mgr w) = 0 then fallback else Some (sm_num_layers (w_mgr w))) (w_ssd w))
       (\<lambda>meta. Inr (th\<lparr>th_meta := meta\<rparr>, w, [])))"
| "exec_action os junk (ReadChunk l) th w =
     Some (rbind (with_slot ''chunk'' (\<lambda>sl.
         load_packed_layer_to_gpu os junk (sm_dir_chunk (w_mgr w)) (th_meta th) l (w_ssd w) sl) (w_mgr w))
       (\<lambda>(kv, m). Inr (th\<lparr>th_kvs := [(l, kv)]\<rparr>, w\<lparr>w_mgr := m\<rparr>, [])))"
| "exec_action os junk (StoreHack l) th w =
     go_res th (rbind (pool_store (w_hack w) l (snd (hd (th_kvs th)))) (\<lambda>p. Inr (w\<lparr>w_hack := p\<rparr>)))"
| "exec_action os junk (PrefetchLayer l) th w =
     Some (rbind (has_kv (w_hack w) l) (\<lambda>present.
       if present then rbind (set_layer_ready l (w_mgr w)) (\<lambda>m. Inr (th, w\<lparr>w_mgr := m\<rparr>, []))
       else Inr (th\<lparr>th_prog := [ReadChunk l, StoreHack l, SetReady l] @ th_prog th\<rparr>, w, [])))"
| "exec_action os junk (RecordError e) th w = go th (w\<lparr>w_mgr := record_loader_error e (w_mgr w)\<rparr>)"
| "exec_action os junk (ReleaseLayers ids) th w = go th (w\<lparr>w_mgr := set_layers_ready ids (w_mgr w)\<rparr>)"
| "exec_action os junk SetTaskB th w = go th (w\<lparr>w_mgr := (w_mgr w)\<lparr>sm_task_b := True\<rparr>\<rparr>)"

section \<open>Steps of the system\<close>

text \<open>Thread \<open>i\<close> does its next action. An exception outside the handler starts the handler; inside
  it, it would end the thread.\<close>

definition thread_step :: "os_reader \<Rightarrow> (nat \<Rightarrow> byte) \<Rightarrow> nat \<Rightarrow> 's sys \<Rightarrow> 's sys option" where
  "thread_step os junk i s =
     (if i < length (sy_threads s) then
        (let th = sy_threads s ! i
         in case th_prog th of
              [] \<Rightarrow> None
            | a # rest \<Rightarrow>
                (case exec_action os junk a (th\<lparr>th_prog := rest\<rparr>) (sy_world s) of
                   None \<Rightarrow> None
                 | Some (Inr (th', w', new)) \<Rightarrow>
                     Some (s\<lparr>sy_world := w', sy_threads := (sy_threads s)[i := th'] @ new\<rparr>)
                 | Some (Inl e) \<Rightarrow>
                     Some (s\<lparr>sy_threads := (sy_threads s)[i :=
                       (if th_handling th then th\<lparr>th_prog := []\<rparr> else handler e th)]\<rparr>)))
      else None)"

inductive sys_step :: "os_reader \<Rightarrow> (nat \<Rightarrow> byte) \<Rightarrow> 's sys \<Rightarrow> 's sys \<Rightarrow> bool"
  for os :: os_reader and junk :: "nat \<Rightarrow> byte" where
  run_thread: "thread_step os junk i s = Some s' \<Longrightarrow> sys_step os junk s s'"

inductive_cases sys_stepE: "sys_step os junk s s'"
inductive_simps sys_step_iff: "sys_step os junk s s'"

text \<open>A schedule names the thread of every step; one that cannot step is skipped.\<close>

fun run_schedule :: "os_reader \<Rightarrow> (nat \<Rightarrow> byte) \<Rightarrow> nat list \<Rightarrow> 's sys \<Rightarrow> 's sys" where
  "run_schedule os junk [] s = s"
| "run_schedule os junk (i # is) s =
     run_schedule os junk is (case thread_step os junk i s of None \<Rightarrow> s | Some s' \<Rightarrow> s')"

lemma run_schedule_reachable: "(sys_step os junk)\<^sup>*\<^sup>* s (run_schedule os junk is s)"
proof (induction "is" arbitrary: s)
  case (Cons i "is")
  show ?case
  proof (cases "thread_step os junk i s")
    case (Some s')
    then have "sys_step os junk s s'" by (rule run_thread)
    with Cons.IH [of s'] Some show ?thesis by (auto intro: converse_rtranclp_into_rtranclp)
  qed (use Cons.IH in simp)
qed simp

end
