(* ===== verification/BatchPrep.thy ===== *)
theory BatchPrep
  imports Loader
begin

text \<open>
  The blend part of \<open>ScheduleBatch.prepare_for_extend\<close> (\<open>srt/managers/schedule_batch.py\<close>): from the
  requests of a batch it makes the \<open>BatchBlendInfo\<close>, prepares the pools and the SSD manager, and
  starts the loader threads. The blend parameters come from the first request, the chunk boundaries
  from all. \<open>attn_start\<close>, \<open>attn_end\<close>, \<open>start\<close> and \<open>ratio\<close>, which the request class types as Optional,
  carry their values here (the model does not cover a blend request that leaves one of them None); an
  absent SSD path is the empty directory name.
\<close>

section \<open>Requests and the model\<close>

record blend_req =
  rq_style :: "blend_style option"
  rq_blend_locs :: "int list"
  rq_origin_len :: int
  rq_attn_start :: int
  rq_attn_end :: int
  rq_start :: int
  rq_ratio :: f64
  rq_method :: "string option"
  rq_is_contextblend :: bool
  rq_cache_source :: "string option"
  rq_n_sink :: "int option"
  rq_digest_ratio :: "f64 option"
  rq_digest_method :: "string option"
  rq_critical_layers :: "int list option"
  rq_path_chunk :: "string option"
  rq_path_query :: "string option"

record model_config =
  mc_num_heads :: int
  mc_head_dim :: "int option"
  mc_hidden_size :: int
  mc_num_kv_heads :: int
  mc_num_layers :: int

definition build_att_params :: "model_config \<Rightarrow> att_params" where
  "build_att_params mc =
     \<lparr>ap_num_heads = mc_num_heads mc, ap_num_kv_heads = mc_num_kv_heads mc,
      ap_head_dim = (case mc_head_dim mc of Some d \<Rightarrow> d | None \<Rightarrow> mc_hidden_size mc div mc_num_heads mc),
      ap_num_layers = mc_num_layers mc\<rparr>"

definition has_ssd_paths :: "blend_req \<Rightarrow> bool" where
  "has_ssd_paths r \<longleftrightarrow> rq_path_chunk r \<noteq> None \<or> rq_path_query r \<noteq> None"

definition str_or :: "string option \<Rightarrow> string \<Rightarrow> string" where
  "str_or s dflt = (case s of None \<Rightarrow> dflt | Some [] \<Rightarrow> dflt | Some t \<Rightarrow> t)"

definition path_of :: "string option \<Rightarrow> string" where
  "path_of p = (case p of None \<Rightarrow> [] | Some s \<Rightarrow> s)"

section \<open>Augmented offline prompts\<close>

record digest_fields =
  df_original_lens :: "int list"
  df_keep_indices :: "int list"
  df_sys_range :: "(int \<times> int) option"
  df_doc_ranges :: "(int \<times> int) list"
  df_zip_ranges :: "(int \<times> int) list"

definition shift_range :: "int \<Rightarrow> int \<times> int \<Rightarrow> int \<times> int" where
  "shift_range d r = (d + fst r, d + snd r)"

definition loc_lens :: "int list \<Rightarrow> int list" where
  "loc_lens locs = map (\<lambda>(x, y). y - x) (zip locs (tl locs))"

text \<open>The loop over the transformed requests; \<open>seq_offset\<close> is the first token of the request.\<close>

fun digest_loop :: "int \<Rightarrow> digest_fields \<Rightarrow> (aug_locs \<times> blend_req) list \<Rightarrow> digest_fields" where
  "digest_loop seq_offset df [] = df"
| "digest_loop seq_offset df ((item, req) # rest) =
     digest_loop (seq_offset + rq_origin_len req)
       \<lparr>df_original_lens = df_original_lens df @ loc_lens (al_original_locs item),
        df_keep_indices = df_keep_indices df @ map (\<lambda>i. seq_offset + i) (al_keep_indices item),
        df_sys_range = (if df_sys_range df = None then Some (shift_range seq_offset (al_sys_range item)) else df_sys_range df),
        df_doc_ranges = df_doc_ranges df @ map (shift_range seq_offset) (al_doc_ranges item),
        df_zip_ranges = df_zip_ranges df @ map (shift_range seq_offset) (al_zip_ranges item)\<rparr> rest"

definition is_query_offline :: "blend_req \<Rightarrow> bool" where
  "is_query_offline r \<longleftrightarrow> rq_style r = Some KVCOMPUTE \<and> rq_is_contextblend r \<and> rq_path_query r \<noteq> None"

definition forward_blend_locs :: "blend_req list \<Rightarrow> (int list list \<times> digest_fields option) res" where
  "forward_blend_locs reqs =
     (let raw = map rq_blend_locs reqs
      in if is_query_offline (hd reqs) then
           (let transformed = map prepare_augmented_locs_for_request raw
            in if transformed = [] \<or> None \<in> set transformed then
                 Inl (ValueError ''ContextBlend query KVCOMPUTE expects augmented chunks'')
               else
                 Inr (map (al_forward_locs \<circ> the) transformed,
                      Some (digest_loop 0 \<lparr>df_original_lens = [], df_keep_indices = [], df_sys_range = None,
                              df_doc_ranges = [], df_zip_ranges = []\<rparr> (zip (map the transformed) reqs))))
         else Inr (raw, None))"

section \<open>The batch record\<close>

definition batch_chunk_lens :: "int list list \<Rightarrow> int list" where
  "batch_chunk_lens blend_locs = concat (map loc_lens blend_locs)"

definition batch_req_len_list :: "int list list \<Rightarrow> int list" where
  "batch_req_len_list blend_locs = running_sums 0 (map (\<lambda>loc. int (length loc) - 1) blend_locs)"

definition context_cache_source :: "blend_req \<Rightarrow> string res" where
  "context_cache_source r =
     (let s = (if rq_is_contextblend r then str_or (rq_cache_source r) ''query'' else ''none'')
      in if s \<noteq> ''query'' \<and> s \<noteq> ''none'' then Inl (ValueError ''Unsupported context_cache_source'') else Inr s)"

definition critical_of :: "blend_req \<Rightarrow> int list" where
  "critical_of r = (case rq_critical_layers r of None \<Rightarrow> [] | Some l \<Rightarrow> l)"

definition base_info :: "model_config \<Rightarrow> blend_req \<Rightarrow> int list list \<Rightarrow> digest_fields option \<Rightarrow> blend_info res" where
  "base_info mc r blend_locs digest =
     rbind (context_cache_source r) (\<lambda>source.
     let crit = critical_of r; chunk_lens = batch_chunk_lens blend_locs;
         info = new_blend_info
           \<lparr>bi_style := rq_style r, bi_chunk_lens := chunk_lens, bi_chunk_loc_list := 0 # running_sums 0 chunk_lens,
            bi_req_len_list := batch_req_len_list blend_locs, bi_attn_start := Some (rq_attn_start r),
            bi_attn_end := Some (if rq_attn_end r \<noteq> - 1 then rq_attn_end r else mc_num_layers mc),
            bi_is_contextblend := rq_is_contextblend r, bi_context_cache_source := source,
            bi_context_n_sink := (case rq_n_sink r of None \<Rightarrow> 4 | Some n \<Rightarrow> n),
            bi_digest_ratio := Some (case rq_digest_ratio r of None \<Rightarrow> DEFAULT_DIGEST_RATIO | Some x \<Rightarrow> x),
            bi_digest_index_method := str_or (rq_digest_method r) ''kvzip'', bi_critical_layers := Some crit,
            bi_critical_layers_set := Some crit, bi_qcompute_end := (if crit = [] then None else Some (Max (set crit) + 1))\<rparr>
     in Inr (case digest of
               None \<Rightarrow> info
             | Some df \<Rightarrow> info\<lparr>bi_original_chunk_loc_list := Some (cumsum_lens (df_original_lens df)),
                 bi_keep_indices := Some (df_keep_indices df), bi_aug_sys_range := df_sys_range df,
                 bi_aug_doc_ranges := Some (df_doc_ranges df), bi_aug_zip_ranges := Some (df_zip_ranges df)\<rparr>))"

section \<open>QCOMPUTE: the query tokens\<close>

text \<open>\<open>raw[mask]\<close>: the rows \<open>start, start + 1, ..., start + length - 1\<close> one after another; \<open>arange\<close>
  rejects a negative maximum.\<close>

definition ragged_indices :: "int list \<Rightarrow> int list \<Rightarrow> int list option res" where
  "ragged_indices starts lengths =
     (if lengths = [] then Inr None
      else if Max (set lengths) < 0 then Inl (RuntimeError ''arange'')
      else Inr (Some (concat (map (\<lambda>(s, n). py_range s (s + n)) (zip starts lengths)))))"

definition query_setup :: "blend_info \<Rightarrow> kv_pool \<Rightarrow> (blend_info \<times> kv_pool) res" where
  "query_setup info p =
     (let chunk_loc = bi_chunk_loc_list info; starts_idx = butlast (0 # bi_req_len_list info);
          second_idxs = map (\<lambda>i. i + 1) starts_idx
      in rbind (rmap (py_get chunk_loc) starts_idx) (\<lambda>req_starts.
         rbind (rmap (py_get chunk_loc) second_idxs) (\<lambda>starts.
         rbind (rmap (py_get chunk_loc) (map (\<lambda>i. i + 1) second_idxs)) (\<lambda>ends.
         let lengths = map2 (-) ends starts; offsets = map2 (-) starts req_starts;
             query_lengths = map2 (+) offsets lengths
         in rbind (ragged_indices starts lengths) (\<lambda>quest.
            rbind (ragged_indices req_starts query_lengths) (\<lambda>query.
            Inr (info\<lparr>bi_quest_indices := quest, bi_query_indices := query\<rparr>,
                 p\<lparr>q_lens := lengths, q_offsets := offsets, query_k_lens := query_lengths\<rparr>)))))))"

section \<open>DO_BLEND: the layers to keep\<close>

text \<open>The layers that stay in the pool over the DO_BLEND rounds, from the fields of the batch record
  once its select mode is set (a Python set, here the list of its members).\<close>

definition keep_layers_set :: "blend_info \<Rightarrow> int \<Rightarrow> int list" where
  "keep_layers_set info num_layers =
     (case bi_select_mode info of
        ATTN \<Rightarrow>
          (let critical_layers = (case bi_critical_layers info of None \<Rightarrow> [] | Some l \<Rightarrow> l)
           in if critical_layers \<noteq> [] then critical_layers
              else if bi_attn_start info = Some 0 \<and> bi_attn_end info = Some num_layers then py_range 0 num_layers
              else [the (bi_attn_start info)]))"

definition do_blend_info :: "model_config \<Rightarrow> blend_req \<Rightarrow> blend_info \<Rightarrow> blend_info res" where
  "do_blend_info mc r info =
     (case rq_method r of
        None \<Rightarrow> Inl (ValueError ''SelectMode'')
      | Some s \<Rightarrow>
          rbind (parse_select_mode s) (\<lambda>mode.
          let info' = info\<lparr>bi_select_mode := mode, bi_ratio := rq_ratio r, bi_start := rq_start r,
                        bi_att_params := Some (build_att_params mc)\<rparr>
          in Inr (info'\<lparr>bi_keep_layers_set := Some (keep_layers_set info' (mc_num_layers mc))\<rparr>)))"

section \<open>The SSD pipeline\<close>

definition online_setup :: "model_config \<Rightarrow> string \<Rightarrow> blend_req \<Rightarrow> 's world \<Rightarrow> 's world" where
  "online_setup mc device r w =
     configure True False (path_of (rq_path_chunk r)) (path_of (rq_path_query r)) (mc_num_layers mc) device
       (w\<lparr>w_hack := pool_init_buffers (mc_num_layers mc)\<rparr>)"

text \<open>The layers that the loader of a QCOMPUTE batch reads: a function of its own in the code, over the
  critical layers and the attention range that the enclosing function has read from the batch record.\<close>

definition selection_chunk_layers :: "int list \<Rightarrow> int \<Rightarrow> int \<Rightarrow> int \<Rightarrow> int list" where
  "selection_chunk_layers critical_layers attn_start attn_end num_layers =
     (if critical_layers \<noteq> [] then critical_layers
      else if attn_start = 0 \<and> attn_end = num_layers then py_range 0 num_layers
      else [attn_start])"

definition selection_chunk_loader :: "model_config \<Rightarrow> blend_req \<Rightarrow> blend_info \<Rightarrow> thread list" where
  "selection_chunk_loader mc r info =
     (let ls = selection_chunk_layers (critical_of r) (rq_attn_start r) (the (bi_attn_end info)) (mc_num_layers mc)
      in if ls = [] then [] else [start_task_b ls])"

definition qcompute_pipeline :: "model_config \<Rightarrow> blend_req \<Rightarrow> blend_info \<Rightarrow> 's world \<Rightarrow> ('s world \<times> thread list) res" where
  "qcompute_pipeline mc r info w =
     (if rq_is_contextblend r \<and> bi_context_cache_source info = ''query'' then
        if critical_of r = [] then Inl (ValueError ''context_cache_source=query requires critical_layers'')
        else
          rbind (restore_query_metadata (path_of (rq_path_query r)) (Some (bi_digest_index_method info)) (bi_digest_ratio info) w)
            (\<lambda>(query_meta, w').
            Inr (w', [start_query_cache (int_or (bi_qcompute_end info) (the (bi_attn_end info))) (Some (critical_of r)) (Some query_meta)]))
      else Inr (w, selection_chunk_loader mc r info))"

definition do_blend_pipeline :: "model_config \<Rightarrow> string \<Rightarrow> blend_req \<Rightarrow> blend_info \<Rightarrow> 's world \<Rightarrow> 's world \<times> thread list" where
  "do_blend_pipeline mc device r info w =
     (let w1 = (if \<not> sm_online (w_mgr w) then online_setup mc device r w else w);
          w2 = w1\<lparr>w_mgr := reset_layer_events (w_mgr w1)\<rparr>;
          prefetch_from = (if bi_ratio info \<le> 0 \<or> bi_select_mode info = ATTN then bi_start info + 1 else bi_start info)
      in (w2, [start_do_blend_prefetch prefetch_from (mc_num_layers mc)]))"

text \<open>The whole part: the batch record (\<open>None\<close> without blending), the shared state and the started
  threads. The QCOMPUTE buffers are initialised before the query lengths are stored, since
  \<open>init_buffers\<close> clears them.\<close>

definition prepare_blend ::
    "model_config \<Rightarrow> string \<Rightarrow> blend_req list \<Rightarrow> 's world \<Rightarrow> (blend_info option \<times> 's world \<times> thread list) res" where
  "prepare_blend mc device reqs w =
     (let r = hd reqs; ssd = has_ssd_paths r; num_layers = mc_num_layers mc
      in if rq_style r = None then Inr (None, w, [])
         else
           rbind (forward_blend_locs reqs) (\<lambda>(blend_locs, digest).
           rbind (base_info mc r blend_locs digest) (\<lambda>info.
           if rq_style r = Some QCOMPUTE then
             let w1 = (if ssd then online_setup mc device r (w\<lparr>w_ctx := ctx_init_buffers num_layers (w_ctx w)\<rparr>) else w)
             in rbind (query_setup info (w_hack w1)) (\<lambda>(info', p).
                let w2 = w1\<lparr>w_hack := p\<rparr>
                in rbind (if ssd then qcompute_pipeline mc r info' w2 else Inr (w2, [])) (\<lambda>(w3, ths).
                   Inr (Some info', w3, ths)))
           else if rq_style r = Some KVCOMPUTE then
             let info' = info\<lparr>bi_att_params := Some (build_att_params mc), bi_init_attmeta := True\<rparr>;
                 w1 = (if ssd then configure False True (path_of (rq_path_chunk r)) (path_of (rq_path_query r))
                                     num_layers ''cuda:0'' w else w)
             in Inr (Some info', w1, [])
           else
             rbind (do_blend_info mc r info) (\<lambda>info'.
             let (w1, ths) = (if ssd then do_blend_pipeline mc device r info' w else (w, []))
             in Inr (Some info', w1, ths)))))"

end
