(* ===== verification/LoaderCorrect.thy ===== *)
theory LoaderCorrect
  imports Loader
begin

text \<open>
  Correctness of the loader threads, in every interleaving: an event is only seen set when the layer
  it stands for is in its pool or an error is recorded (so a waiter that is let through either finds
  the data or raises), no thread and no waiter is left waiting once the threads have stopped, and the
  threads do stop. The two facts a system of threads needs, an invariant its steps keep and a weight
  they decrease, are the locale \<open>worker_system\<close>.
\<close>

section \<open>Systems with an invariant and a weight\<close>

locale worker_system =
  fixes step :: "'s \<Rightarrow> 's \<Rightarrow> bool"
    and inv :: "'s \<Rightarrow> bool"
    and weight :: "'s \<Rightarrow> nat"
  assumes step_inv: "inv s \<Longrightarrow> step s s' \<Longrightarrow> inv s'"
    and step_weight: "inv s \<Longrightarrow> step s s' \<Longrightarrow> weight s' < weight s"
begin

lemma reachable_inv: "step\<^sup>*\<^sup>* s s' \<Longrightarrow> inv s \<Longrightarrow> inv s'"
  by (induction rule: rtranclp_induct) (auto intro: step_inv)

lemma run_bounded: "(step ^^ n) s s' \<Longrightarrow> inv s \<Longrightarrow> n + weight s' \<le> weight s"
proof (induction n arbitrary: s')
  case (Suc n)
  then obtain s1 where s1: "(step ^^ n) s s1" "step s1 s'" by auto
  have "inv s1"
    using s1(1) Suc.prems(2) by (meson reachable_inv relpowp_imp_rtranclp)
  from Suc.IH [OF s1(1) Suc.prems(2)] step_weight [OF this s1(2)] show ?case by simp
qed simp

lemma run_ends: "inv s \<Longrightarrow> \<exists>s'. step\<^sup>*\<^sup>* s s' \<and> (\<forall>s''. \<not> step s' s'')"
proof (induction "weight s" arbitrary: s rule: less_induct)
  case less
  show ?case
  proof (cases "\<exists>s1. step s s1")
    case True
    then obtain s1 where s1: "step s s1" ..
    from less.hyps [OF step_weight [OF less.prems s1] step_inv [OF less.prems s1]]
    show ?thesis using s1 by (meson converse_rtranclp_into_rtranclp)
  qed auto
qed

end

section \<open>What is loaded\<close>

definition ctx_set :: "'s world \<Rightarrow> int set" where
  "ctx_set w = {l. slots (ctx_k_buffer (w_ctx w)) l \<noteq> None \<and> slots (ctx_v_buffer (w_ctx w)) l \<noteq> None}"

definition hack_set :: "'s world \<Rightarrow> int set" where
  "hack_set w = {l. slots (k_buffer (w_hack w)) l \<noteq> None \<and> slots (v_buffer (w_hack w)) l \<noteq> None}"

definition failed :: "'s world \<Rightarrow> bool" where
  "failed w \<longleftrightarrow> sm_error (w_mgr w) \<noteq> None"

definition ready :: "'s world \<Rightarrow> int \<Rightarrow> bool" where
  "ready w l \<longleftrightarrow> 0 \<le> l \<and> l < int (length (sm_events (w_mgr w))) \<and> sm_events (w_mgr w) ! nat l"

text \<open>K and V are stored together.\<close>

definition paired :: "'s world \<Rightarrow> bool" where
  "paired w \<longleftrightarrow> length (k_buffer (w_hack w)) = length (v_buffer (w_hack w)) \<and>
     (\<forall>l. slots (k_buffer (w_hack w)) l \<noteq> None \<longleftrightarrow> slots (v_buffer (w_hack w)) l \<noteq> None)"

text \<open>The pool an event speaks about: the context pool while QCOMPUTE is loaded, the K/V pool while
  DO_BLEND is.\<close>

datatype phase = QueryPhase | BlendPhase

fun target :: "phase \<Rightarrow> int set \<Rightarrow> int set \<Rightarrow> int set" where
  "target QueryPhase C H = C"
| "target BlendPhase C H = H"

section \<open>Effects of the operations\<close>

lemma pool_store_sets:
  assumes "pool_store (w_hack w) l kv = Inr p" "0 \<le> l" "paired w"
  shows "hack_set (w\<lparr>w_hack := p\<rparr>) = insert l (hack_set w)" "paired (w\<lparr>w_hack := p\<rparr>)"
proof -
  obtain ks vs where ks: "py_set (k_buffer (w_hack w)) l (Some (fst kv)) = Inr ks"
    and vs: "py_set (v_buffer (w_hack w)) l (Some (snd kv)) = Inr vs"
    and p: "p = (w_hack w)\<lparr>k_buffer := ks, v_buffer := vs\<rparr>"
    using assms(1) by (auto simp: pool_store_def rbind_Inr_iff)
  have n: "l < int (length (k_buffer (w_hack w)))" "l < int (length (v_buffer (w_hack w)))"
    using ks vs assms(2) by (auto simp: py_set_def py_idx_def split: option.splits if_splits)
  have e: "ks = (k_buffer (w_hack w))[nat l := Some (fst kv)]" "vs = (v_buffer (w_hack w))[nat l := Some (snd kv)]"
    using ks vs n assms(2) by simp_all
  show "hack_set (w\<lparr>w_hack := p\<rparr>) = insert l (hack_set w)" "paired (w\<lparr>w_hack := p\<rparr>)"
    using assms(2,3) n by (auto simp: hack_set_def paired_def p e slots_update split: if_splits)
qed

lemma ctx_store_sets:
  assumes "ctx_store (w_ctx w) l kv = Inr c" "0 \<le> l"
  shows "ctx_set (w\<lparr>w_ctx := c\<rparr>) = insert l (ctx_set w)"
proof -
  obtain ks vs where ks: "py_set (ctx_k_buffer (w_ctx w)) l (Some (fst kv)) = Inr ks"
    and vs: "py_set (ctx_v_buffer (w_ctx w)) l (Some (snd kv)) = Inr vs"
    and c: "c = (w_ctx w)\<lparr>ctx_k_buffer := ks, ctx_v_buffer := vs\<rparr>"
    using assms(1) by (auto simp: ctx_store_def rbind_Inr_iff)
  have n: "l < int (length (ctx_k_buffer (w_ctx w)))" "l < int (length (ctx_v_buffer (w_ctx w)))"
    using ks vs assms(2) by (auto simp: py_set_def py_idx_def split: option.splits if_splits)
  have e: "ks = (ctx_k_buffer (w_ctx w))[nat l := Some (fst kv)]" "vs = (ctx_v_buffer (w_ctx w))[nat l := Some (snd kv)]"
    using ks vs n assms(2) by simp_all
  show ?thesis using assms(2) n by (auto simp: ctx_set_def c e slots_update split: if_splits)
qed

lemma has_kv_set: "has_kv (w_hack w) l = Inr True \<Longrightarrow> 0 \<le> l \<Longrightarrow> paired w \<Longrightarrow> l \<in> hack_set w"
  by (auto simp: has_kv_def hack_set_def paired_def rbind_Inr_iff slots_def split: if_splits option.splits)

text \<open>The part of the manager that the loads do not touch.\<close>

definition same_signals :: "ssd_manager \<Rightarrow> ssd_manager \<Rightarrow> bool" where
  "same_signals m m' \<longleftrightarrow> sm_events m' = sm_events m \<and> sm_error m' = sm_error m \<and> sm_task_b m' = sm_task_b m"

lemma with_slot_signals: "with_slot key f m = Inr (x, m') \<Longrightarrow> same_signals m m'"
  by (auto simp: with_slot_def rbind_Inr_iff Let_def same_signals_def ensure_transfer_pool_def
      split: option.splits if_splits prod.splits)

lemma check_query_signals:
  "check_query qm d c w = Inr (meta, w') \<Longrightarrow> \<exists>cache. w' = w\<lparr>w_mgr := (w_mgr w)\<lparr>sm_meta_cache := cache\<rparr>\<rparr>"
  by (auto simp: check_query_def rbind_Inr_iff split: if_splits option.splits)

lemma set_layers_ready_frame:
  "sm_error (set_layers_ready ids m) = sm_error m \<and> sm_task_b (set_layers_ready ids m) = sm_task_b m \<and>
   length (sm_events (set_layers_ready ids m)) = length (sm_events m)"
  by (induction ids m rule: set_layers_ready.induct) auto

lemma set_layers_ready_event:
  "0 \<le> l \<Longrightarrow> l < int (length (sm_events m)) \<Longrightarrow>
   sm_events (set_layers_ready ids m) ! nat l \<longleftrightarrow> sm_events m ! nat l \<or> l \<in> set ids"
  by (induction ids m rule: set_layers_ready.induct) (auto simp: nth_list_update nat_eq_iff split: if_splits)

lemma set_layer_ready_ok:
  assumes "set_layer_ready l m = Inr m'" "0 \<le> l"
  shows "m' = m\<lparr>sm_events := (sm_events m)[nat l := True]\<rparr>" "l < int (length (sm_events m))"
  using assms by (auto simp: set_layer_ready_def rbind_Inr_iff py_set_def py_idx_def split: option.splits if_splits)

section \<open>Programs that only announce what they have stored\<close>

text \<open>\<open>C\<close> and \<open>H\<close> are the layers known to be in the two pools when the program runs on, \<open>e\<close>
  whether an error is known to be recorded.\<close>

fun just :: "phase \<Rightarrow> int set \<Rightarrow> int set \<Rightarrow> int set \<Rightarrow> bool \<Rightarrow> action list \<Rightarrow> bool" where
  "just ph crit C H e [] \<longleftrightarrow> True"
| "just ph crit C H e (a # p) \<longleftrightarrow>
     (case a of
        SpawnQuery d c \<Rightarrow> ph = QueryPhase \<and> crit \<subseteq> set c \<and> (\<forall>l \<in> set d \<union> set c. 0 \<le> l) \<and> just ph crit C H e p
      | StoreCtx l \<Rightarrow> 0 \<le> l \<and> just ph crit (insert l C) H e p
      | StoreCritical l \<Rightarrow> 0 \<le> l \<and> just ph crit C (insert l H) e p
      | StoreHack l \<Rightarrow> 0 \<le> l \<and> just ph crit C (insert l H) e p
      | SetReady l \<Rightarrow> 0 \<le> l \<and> (e \<or> l \<in> target ph C H) \<and> just ph crit C H e p
      | PrefetchLayer l \<Rightarrow> 0 \<le> l \<and> ph = BlendPhase \<and> just ph crit C H e p
      | RecordError x \<Rightarrow> just ph crit C H True p
      | ReleaseLayers ids \<Rightarrow> e \<and> just ph crit C H e p
      | SetTaskB \<Rightarrow> (e \<or> crit \<subseteq> H) \<and> just ph crit C H e p
      | _ \<Rightarrow> just ph crit C H e p)"

lemma just_mono:
  "just ph crit C H e p \<Longrightarrow> C \<subseteq> C' \<Longrightarrow> H \<subseteq> H' \<Longrightarrow> (e \<Longrightarrow> e') \<Longrightarrow> just ph crit C' H' e' p"
proof (induction p arbitrary: C H e C' H' e')
  case (Cons a p)
  have t: "target ph C H \<subseteq> target ph C' H'" using Cons.prems by (cases ph) auto
  show ?case
  proof (cases a)
    case (StoreCtx l)
    with Cons.prems Cons.IH [of "insert l C" H e "insert l C'" H' e'] show ?thesis by auto
  next
    case (StoreCritical l)
    with Cons.prems Cons.IH [of C "insert l H" e C' "insert l H'" e'] show ?thesis by auto
  next
    case (StoreHack l)
    with Cons.prems Cons.IH [of C "insert l H" e C' "insert l H'" e'] show ?thesis by auto
  next
    case (RecordError x)
    with Cons.prems Cons.IH [of C H True C' H' True] show ?thesis by auto
  qed (use Cons.prems Cons.IH [of C H e C' H' e'] t in auto)
qed simp

lemma just_append:
  "just ph crit C H e p \<Longrightarrow> (\<And>C' H' e'. C \<subseteq> C' \<Longrightarrow> H \<subseteq> H' \<Longrightarrow> (e \<Longrightarrow> e') \<Longrightarrow> just ph crit C' H' e' q) \<Longrightarrow>
   just ph crit C H e (p @ q)"
proof (induction p arbitrary: C H e)
  case (Cons a p)
  have "just ph crit C1 H1 e1 (p @ q)" if "just ph crit C1 H1 e1 p" "C \<subseteq> C1" "H \<subseteq> H1" "e \<Longrightarrow> e1" for C1 H1 e1
    using that Cons.prems(2) by (intro Cons.IH) (auto intro: order_trans)
  with Cons.prems(1) show ?case by (cases a) auto
qed simp

lemma just_digest: "\<forall>l \<in> set ids. 0 \<le> l \<Longrightarrow> just QueryPhase crit C H e (digest_actions ids)"
  by (induction ids arbitrary: C) (auto simp: digest_actions_def)

lemma just_critical_stores:
  "\<forall>l \<in> set ids. 0 \<le> l \<Longrightarrow> crit \<subseteq> H \<union> set ids \<Longrightarrow> just ph crit C H e (map StoreCritical ids @ [SetTaskB])"
proof (induction ids arbitrary: H)
  case (Cons l ids)
  have "crit \<subseteq> insert l H \<union> set ids" using Cons.prems(2) by auto
  with Cons show ?case by simp
qed auto

lemma just_critical:
  "\<forall>l \<in> set c. 0 \<le> l \<Longrightarrow> crit \<subseteq> set c \<Longrightarrow> just ph crit C H e (critical_actions d c @ [SetTaskB])"
  using just_critical_stores [of c crit H ph C e] by (auto simp: critical_actions_def split: list.splits)

lemma just_task_b:
  "\<forall>l \<in> set ids. 0 \<le> l \<Longrightarrow> crit \<subseteq> H \<union> set ids \<Longrightarrow> just ph crit C H e (task_b_actions ids @ [SetTaskB])"
proof -
  have "\<forall>l \<in> set ids. 0 \<le> l \<Longrightarrow> crit \<subseteq> H \<union> set ids \<Longrightarrow>
    just ph crit C H e (concat (map (\<lambda>l. [ReadChunk l, StoreHack l]) ids) @ [SetTaskB])" for H
  proof (induction ids arbitrary: H)
    case (Cons l ids)
    have "crit \<subseteq> insert l H \<union> set ids" using Cons.prems(2) by auto
    with Cons show ?case by simp
  qed auto
  then show "\<forall>l \<in> set ids. 0 \<le> l \<Longrightarrow> crit \<subseteq> H \<union> set ids \<Longrightarrow> ?thesis"
    by (simp add: task_b_actions_def)
qed

lemma just_do_blend: "\<forall>l \<in> set ids. 0 \<le> l \<Longrightarrow> just BlendPhase crit C H e (do_blend_actions n ids)"
  by (induction ids) (auto simp: do_blend_actions_def)

lemma just_handler: "just ph crit C H e (th_prog (handler x th))"
  by (simp add: handler_def)

section \<open>Safety\<close>

definition signals_ok :: "phase \<Rightarrow> int set \<Rightarrow> 's world \<Rightarrow> bool" where
  "signals_ok ph crit w \<longleftrightarrow> (\<forall>l. ready w l \<longrightarrow> failed w \<or> l \<in> target ph (ctx_set w) (hack_set w)) \<and>
     (sm_task_b (w_mgr w) \<longrightarrow> failed w \<or> crit \<subseteq> hack_set w)"

definition safe :: "phase \<Rightarrow> int set \<Rightarrow> 's sys \<Rightarrow> bool" where
  "safe ph crit s \<longleftrightarrow> paired (sy_world s) \<and> signals_ok ph crit (sy_world s) \<and>
     (\<forall>th \<in> set (sy_threads s).
        just ph crit (ctx_set (sy_world s)) (hack_set (sy_world s)) (failed (sy_world s)) (th_prog th))"

definition grows :: "'s world \<Rightarrow> 's world \<Rightarrow> bool" where
  "grows w w' \<longleftrightarrow> ctx_set w \<subseteq> ctx_set w' \<and> hack_set w \<subseteq> hack_set w' \<and> (failed w \<longrightarrow> failed w') \<and>
     length (sm_events (w_mgr w')) = length (sm_events (w_mgr w)) \<and> (\<forall>l. ready w l \<longrightarrow> ready w' l) \<and>
     (sm_task_b (w_mgr w) \<longrightarrow> sm_task_b (w_mgr w'))"

lemma set_simps [simp]:
  "ctx_set (w\<lparr>w_mgr := m\<rparr>) = ctx_set w" "hack_set (w\<lparr>w_mgr := m\<rparr>) = hack_set w"
  "ctx_set (w\<lparr>w_hack := p\<rparr>) = ctx_set w" "hack_set (w\<lparr>w_ctx := c\<rparr>) = hack_set w"
  "failed (w\<lparr>w_hack := p\<rparr>) = failed w" "failed (w\<lparr>w_ctx := c\<rparr>) = failed w"
  "ready (w\<lparr>w_hack := p\<rparr>) = ready w" "ready (w\<lparr>w_ctx := c\<rparr>) = ready w"
  "paired (w\<lparr>w_mgr := m\<rparr>) = paired w" "paired (w\<lparr>w_ctx := c\<rparr>) = paired w"
  by (auto simp: ctx_set_def hack_set_def failed_def ready_def paired_def fun_eq_iff)

lemma grows_refl [simp]: "grows w w"
  by (simp add: grows_def)

lemma same_signals_world:
  assumes "same_signals (w_mgr w) m"
  shows "failed (w\<lparr>w_mgr := m\<rparr>) = failed w" "ready (w\<lparr>w_mgr := m\<rparr>) = ready w" "grows w (w\<lparr>w_mgr := m\<rparr>)"
    "signals_ok ph crit (w\<lparr>w_mgr := m\<rparr>) = signals_ok ph crit w"
  using assms by (auto simp: same_signals_def failed_def ready_def fun_eq_iff grows_def signals_ok_def)

lemma same_signals_cache [simp]: "same_signals m (m\<lparr>sm_meta_cache := c\<rparr>)"
  by (simp add: same_signals_def)

text \<open>What a successful action does, given that its program is justified.\<close>

definition effect_ok :: "phase \<Rightarrow> int set \<Rightarrow> thread \<Rightarrow> 's world \<Rightarrow> thread \<times> 's world \<times> thread list \<Rightarrow> bool" where
  "effect_ok ph crit th w r \<longleftrightarrow> (case r of (th', w', new) \<Rightarrow>
     grows w w' \<and> paired w' \<and> signals_ok ph crit w' \<and>
     (\<forall>t \<in> set (th' # new). just ph crit (ctx_set w') (hack_set w') (failed w') (th_prog t)))"

lemma effect_same_signals:
  assumes "same_signals (w_mgr w) m" "paired w" "signals_ok ph crit w"
    and "just ph crit (ctx_set w) (hack_set w) (failed w) (th_prog th')"
  shows "effect_ok ph crit th w (th', w\<lparr>w_mgr := m\<rparr>, [])"
  using assms same_signals_world [OF assms(1)] by (simp add: effect_ok_def)

lemma ready_update:
  "0 \<le> l \<Longrightarrow> l < int (length (sm_events (w_mgr w))) \<Longrightarrow>
   ready (w\<lparr>w_mgr := (w_mgr w)\<lparr>sm_events := (sm_events (w_mgr w))[nat l := True]\<rparr>\<rparr>) j \<longleftrightarrow> j = l \<or> ready w j"
  by (auto simp: ready_def nth_list_update nat_eq_iff)

lemma effect_set_ready:
  assumes "set_layer_ready l (w_mgr w) = Inr m" "0 \<le> l" "paired w" "signals_ok ph crit w"
    and "failed w \<or> l \<in> target ph (ctx_set w) (hack_set w)"
    and "just ph crit (ctx_set w) (hack_set w) (failed w) (th_prog th')"
  shows "effect_ok ph crit th w (th', w\<lparr>w_mgr := m\<rparr>, [])"
proof -
  note m = set_layer_ready_ok [OF assms(1,2)]
  have f: "failed (w\<lparr>w_mgr := m\<rparr>) = failed w" by (simp add: failed_def m(1))
  have r: "ready (w\<lparr>w_mgr := m\<rparr>) j \<longleftrightarrow> j = l \<or> ready w j" for j
    using ready_update [OF assms(2) m(2)] by (simp add: m(1))
  have l: "length (sm_events m) = length (sm_events (w_mgr w))" "sm_task_b m = sm_task_b (w_mgr w)"
    by (simp_all add: m(1))
  show ?thesis
    using assms(3-6) l by (auto simp: effect_ok_def grows_def f r signals_ok_def)
qed

lemma exec_action_effect:
  assumes "exec_action os junk a th w = Some (Inr r)" "paired w" "signals_ok ph crit w"
    and "just ph crit (ctx_set w) (hack_set w) (failed w) (a # th_prog th)"
  shows "effect_ok ph crit th w r"
proof (cases a)
  case (CheckQuery qm d c)
  with assms obtain meta w' where cq: "check_query qm d c w = Inr (meta, w')" "r = (th\<lparr>th_meta := meta\<rparr>, w', [])"
    by (auto simp: rbind_Inr_iff)
  from check_query_signals [OF cq(1)] obtain cache where "w' = w\<lparr>w_mgr := (w_mgr w)\<lparr>sm_meta_cache := cache\<rparr>\<rparr>" ..
  with cq assms CheckQuery show ?thesis by (auto intro!: effect_same_signals)
next
  case (SpawnQuery d c)
  with assms just_digest [of d] just_critical [of c] show ?thesis
    by (auto simp: effect_ok_def digest_thread_def critical_thread_def loader_thread_def)
next
  case (ReadDigest l)
  with assms show ?thesis by (auto simp: rbind_Inr_iff intro!: effect_same_signals dest: with_slot_signals)
next
  case (StoreCtx l)
  with assms obtain c where c: "ctx_store (w_ctx w) l (snd (hd (th_kvs th))) = Inr c" "r = (th, w\<lparr>w_ctx := c\<rparr>, [])" "0 \<le> l"
    by (auto simp: rbind_Inr_iff go_res_def)
  note s = ctx_store_sets [OF c(1,3)]
  have "signals_ok ph crit (w\<lparr>w_ctx := c\<rparr>)"
    using assms(3) s by (cases ph) (auto simp: signals_ok_def)
  with assms StoreCtx s c show ?thesis by (auto simp: effect_ok_def grows_def)
next
  case (SetReady l)
  with assms show ?thesis by (auto simp: rbind_Inr_iff go_res_def intro!: effect_set_ready)
next
  case (WaitReady l)
  with assms show ?thesis by (auto simp: rbind_Inr_iff effect_ok_def)
next
  case (ReadCritical ids)
  with assms show ?thesis
    by (auto simp: rbind_Inr_iff go_def effect_ok_def dest!: with_slot_signals split: if_splits)
      (auto simp: same_signals_world)
next
  case (StoreCritical l)
  with assms obtain kv p where p: "pool_store (w_hack w) l kv = Inr p" "r = (th, w\<lparr>w_hack := p\<rparr>, [])" "0 \<le> l"
    by (auto simp: rbind_Inr_iff go_res_def split: option.splits)
  note s = pool_store_sets [OF p(1,3) assms(2)]
  have "signals_ok ph crit (w\<lparr>w_hack := p\<rparr>)"
    using assms(3) s by (cases ph) (auto simp: signals_ok_def)
  with assms StoreCritical s p show ?thesis by (auto simp: effect_ok_def grows_def)
next
  case (LoadPackedMeta fb)
  with assms show ?thesis by (auto simp: rbind_Inr_iff effect_ok_def)
next
  case (ReadChunk l)
  with assms show ?thesis by (auto simp: rbind_Inr_iff intro!: effect_same_signals dest: with_slot_signals)
next
  case (StoreHack l)
  with assms obtain p where p: "pool_store (w_hack w) l (snd (hd (th_kvs th))) = Inr p" "r = (th, w\<lparr>w_hack := p\<rparr>, [])" "0 \<le> l"
    by (auto simp: rbind_Inr_iff go_res_def)
  note s = pool_store_sets [OF p(1,3) assms(2)]
  have "signals_ok ph crit (w\<lparr>w_hack := p\<rparr>)"
    using assms(3) s by (cases ph) (auto simp: signals_ok_def)
  with assms StoreHack s p show ?thesis by (auto simp: effect_ok_def grows_def)
next
  case (PrefetchLayer l)
  from assms(1) PrefetchLayer obtain b where b: "has_kv (w_hack w) l = Inr b"
    by (auto simp: rbind_Inr_iff)
  from assms(4) PrefetchLayer have j: "0 \<le> l" "ph = BlendPhase"
    "just ph crit (ctx_set w) (hack_set w) (failed w) (th_prog th)" by auto
  show ?thesis
  proof (cases b)
    case True
    with assms PrefetchLayer b j has_kv_set [of w l] show ?thesis
      by (auto simp: rbind_Inr_iff intro!: effect_set_ready)
  next
    case False
    have "just ph crit (ctx_set w) (insert l (hack_set w)) (failed w) (th_prog th)"
      using j(3) by (rule just_mono) auto
    with False assms PrefetchLayer b j show ?thesis by (auto simp: effect_ok_def)
  qed
next
  case (RecordError x)
  have "failed (w\<lparr>w_mgr := record_loader_error x (w_mgr w)\<rparr>)"
    by (simp add: failed_def record_loader_error_def)
  moreover have "ready (w\<lparr>w_mgr := record_loader_error x (w_mgr w)\<rparr>) = ready w"
    by (auto simp: ready_def fun_eq_iff record_loader_error_def)
  moreover have "sm_task_b (record_loader_error x (w_mgr w)) = sm_task_b (w_mgr w)"
    "length (sm_events (record_loader_error x (w_mgr w))) = length (sm_events (w_mgr w))"
    by (simp_all add: record_loader_error_def)
  ultimately show ?thesis
    using assms RecordError by (auto simp: go_def effect_ok_def grows_def signals_ok_def)
next
  case (ReleaseLayers ids)
  let ?w = "w\<lparr>w_mgr := set_layers_ready ids (w_mgr w)\<rparr>"
  have "failed w" using assms(4) ReleaseLayers by simp
  moreover have f: "failed ?w = failed w" by (simp add: failed_def set_layers_ready_frame)
  moreover have "\<forall>l. ready w l \<longrightarrow> ready ?w l"
    by (auto simp: ready_def set_layers_ready_frame set_layers_ready_event)
  ultimately show ?thesis
    using assms ReleaseLayers by (auto simp: go_def effect_ok_def grows_def signals_ok_def set_layers_ready_frame)
next
  case SetTaskB
  let ?w = "w\<lparr>w_mgr := (w_mgr w)\<lparr>sm_task_b := True\<rparr>\<rparr>"
  have "failed ?w = failed w" "ready ?w = ready w" by (auto simp: failed_def ready_def fun_eq_iff)
  with assms SetTaskB show ?thesis by (auto simp: go_def effect_ok_def grows_def signals_ok_def)
qed

text \<open>How a step comes about.\<close>

lemma thread_step_cases:
  assumes "thread_step os junk i s = Some s'"
  obtains (ok) a rest th' w' new where "i < length (sy_threads s)" "th_prog (sy_threads s ! i) = a # rest"
      "exec_action os junk a ((sy_threads s ! i)\<lparr>th_prog := rest\<rparr>) (sy_world s) = Some (Inr (th', w', new))"
      "s' = s\<lparr>sy_world := w', sy_threads := (sy_threads s)[i := th'] @ new\<rparr>"
  | (fail) a rest e where "i < length (sy_threads s)" "th_prog (sy_threads s ! i) = a # rest"
      "exec_action os junk a ((sy_threads s ! i)\<lparr>th_prog := rest\<rparr>) (sy_world s) = Some (Inl e)"
      "s' = s\<lparr>sy_threads := (sy_threads s)[i := (if th_handling (sy_threads s ! i)
          then (sy_threads s ! i)\<lparr>th_prog := []\<rparr> else handler e (sy_threads s ! i))]\<rparr>"
  using assms
  by (auto simp: thread_step_def Let_def split: if_splits list.splits option.splits sum.splits prod.splits)

lemma set_update_app: "i < length xs \<Longrightarrow> set (xs[i := x] @ ys) \<subseteq> insert x (set xs \<union> set ys)"
  using set_update_subset_insert [of xs i x] by auto

lemma safe_step:
  assumes "safe ph crit s" "thread_step os junk i s = Some s'"
  shows "safe ph crit s' \<and> grows (sy_world s) (sy_world s')"
  using assms(2)
proof (cases rule: thread_step_cases)
  case (ok a rest th' w' new)
  let ?w = "sy_world s" and ?th = "sy_threads s ! i"
  have js: "just ph crit (ctx_set ?w) (hack_set ?w) (failed ?w) (th_prog t)" if "t \<in> set (sy_threads s)" for t
    using assms(1) that by (simp add: safe_def)
  have "just ph crit (ctx_set ?w) (hack_set ?w) (failed ?w) (a # th_prog (?th\<lparr>th_prog := rest\<rparr>))"
    using js [of ?th] ok(1,2) by simp
  from exec_action_effect [OF ok(3) _ _ this] assms(1)
  have e: "grows ?w w'" "paired w'" "signals_ok ph crit w'"
    "\<forall>t \<in> set (th' # new). just ph crit (ctx_set w') (hack_set w') (failed w') (th_prog t)"
    by (auto simp: effect_ok_def safe_def)
  have "just ph crit (ctx_set w') (hack_set w') (failed w') (th_prog t)" if "t \<in> set (sy_threads s)" for t
    using js [OF that] e(1) by (intro just_mono [OF js [OF that]]) (auto simp: grows_def)
  with e ok(1,4) set_update_app [OF ok(1), of th' new] show ?thesis by (auto simp: safe_def)
next
  case (fail a rest e)
  let ?w = "sy_world s"
  have "just ph crit (ctx_set ?w) (hack_set ?w) (failed ?w) (th_prog t)"
    if "t \<in> set (sy_threads s')" for t
    using that set_update_app [OF fail(1), of _ "[]"] assms(1) fail(4) just_handler
    by (fastforce simp: safe_def split: if_splits)
  with assms(1) fail(4) show ?thesis by (simp add: safe_def)
qed

section \<open>No lost wake-up\<close>

text \<open>A thread promises to set the event of layer \<open>l\<close> whatever happens: by an action that is still
  to come and, should it fail before, by its handler.\<close>

definition promises :: "thread \<Rightarrow> int \<Rightarrow> bool" where
  "promises t l \<longleftrightarrow>
     (if th_handling t then \<exists>ids. ReleaseLayers ids \<in> set (th_prog t) \<and> l \<in> set ids
      else l \<in> set (th_release t) \<and> (SetReady l \<in> set (th_prog t) \<or> PrefetchLayer l \<in> set (th_prog t) \<or>
        (\<exists>d c. SpawnQuery d c \<in> set (th_prog t) \<and> l \<in> set d)))"

definition promises_b :: "thread \<Rightarrow> bool" where
  "promises_b t \<longleftrightarrow>
     (if th_handling t then SetTaskB \<in> set (th_prog t)
      else th_release_b t \<and> (SetTaskB \<in> set (th_prog t) \<or> (\<exists>d c. SpawnQuery d c \<in> set (th_prog t))))"

fun announces :: "action \<Rightarrow> bool" where
  "announces (SetReady l) = True"
| "announces (PrefetchLayer l) = True"
| "announces (SpawnQuery d c) = True"
| "announces _ = False"

fun handles :: "action \<Rightarrow> bool" where
  "handles (RecordError e) = True"
| "handles (ReleaseLayers ids) = True"
| "handles SetTaskB = True"
| "handles _ = False"

text \<open>A thread that waits for a layer announces none itself, and the layer is one of \<open>D\<close>; a spawning
  thread passes this on; a thread in its handler only handles.\<close>

definition well_behaved :: "int set \<Rightarrow> thread \<Rightarrow> bool" where
  "well_behaved D t \<longleftrightarrow>
     (\<forall>l. WaitReady l \<in> set (th_prog t) \<longrightarrow> \<not> th_handling t \<and> 0 \<le> l \<and> l \<in> D \<and> (\<forall>a \<in> set (th_prog t). \<not> announces a)) \<and>
     (\<forall>d c. SpawnQuery d c \<in> set (th_prog t) \<longrightarrow> set d \<subseteq> D \<and> (\<forall>l \<in> set d. 0 \<le> l)) \<and>
     (th_handling t \<longrightarrow> (\<forall>a \<in> set (th_prog t). handles a))"

definition live :: "int set \<Rightarrow> bool \<Rightarrow> 's sys \<Rightarrow> bool" where
  "live D b s \<longleftrightarrow>
     (\<forall>l \<in> D. 0 \<le> l \<and> l < int (length (sm_events (w_mgr (sy_world s)))) \<longrightarrow>
        ready (sy_world s) l \<or> (\<exists>t \<in> set (sy_threads s). promises t l)) \<and>
     (b \<longrightarrow> sm_task_b (w_mgr (sy_world s)) \<or> (\<exists>t \<in> set (sy_threads s). promises_b t)) \<and>
     (\<forall>t \<in> set (sy_threads s). well_behaved D t)"

lemma handling_actions_succeed:
  "handles a \<Longrightarrow> exec_action os junk a th w = Some r \<Longrightarrow> \<exists>w'. r = Inr (th, w', [])"
  by (cases a) (auto simp: go_def)

text \<open>The thread after a successful action: unchanged but for its local variables, or with the three
  actions of a layer to prefetch.\<close>

lemma exec_action_thread:
  assumes "exec_action os junk a th w = Some (Inr (th', w', new))"
  shows "th_release th' = th_release th \<and> th_release_b th' = th_release_b th \<and> th_handling th' = th_handling th \<and>
    (th_prog th' = th_prog th \<or> (\<exists>l. a = PrefetchLayer l \<and> th_prog th' = [ReadChunk l, StoreHack l, SetReady l] @ th_prog th)) \<and>
    (case a of SpawnQuery d c \<Rightarrow> \<exists>m. new = [digest_thread m d, critical_thread m d c] | _ \<Rightarrow> new = [])"
  using assms
  by (cases a) (auto simp: go_def go_res_def rbind_Inr_iff split: if_splits option.splits)

lemma digest_thread_promises: "l \<in> set d \<Longrightarrow> promises (digest_thread m d) l"
  by (auto simp: promises_def digest_thread_def loader_thread_def digest_actions_def)

lemma critical_thread_promises: "promises_b (critical_thread m d c)"
  by (simp add: promises_b_def critical_thread_def loader_thread_def)

lemma handler_promises:
  "\<not> th_handling t \<Longrightarrow> promises t l \<Longrightarrow> promises (handler e t) l"
  "\<not> th_handling t \<Longrightarrow> promises_b t \<Longrightarrow> promises_b (handler e t)"
  by (auto simp: promises_def promises_b_def handler_def split: if_splits)

lemma handler_well_behaved: "well_behaved D (handler e t)"
  by (auto simp: well_behaved_def handler_def)

lemma digest_thread_well_behaved: "well_behaved D (digest_thread m d)"
  by (auto simp: well_behaved_def digest_thread_def loader_thread_def digest_actions_def)

lemma critical_thread_well_behaved:
  "set d \<subseteq> D \<Longrightarrow> \<forall>l \<in> set d. 0 \<le> l \<Longrightarrow> well_behaved D (critical_thread m d c)"
  by (auto simp: well_behaved_def critical_thread_def loader_thread_def critical_actions_def split: list.splits)

lemma promises_mono:
  "promises t l \<Longrightarrow> set (th_prog t) \<subseteq> set (th_prog t') \<Longrightarrow> th_release t' = th_release t \<Longrightarrow>
   th_handling t' = th_handling t \<Longrightarrow> promises t' l"
  "promises_b t \<Longrightarrow> set (th_prog t) \<subseteq> set (th_prog t') \<Longrightarrow> th_release_b t' = th_release_b t \<Longrightarrow>
   th_handling t' = th_handling t \<Longrightarrow> promises_b t'"
  unfolding promises_def promises_b_def by (auto split: if_splits)

lemma set_layer_ready_ready: "set_layer_ready l (w_mgr w) = Inr m \<Longrightarrow> 0 \<le> l \<Longrightarrow> ready (w\<lparr>w_mgr := m\<rparr>) l"
  by (frule (1) set_layer_ready_ok(1), drule (1) set_layer_ready_ok(2)) (simp add: ready_def)

text \<open>A promise is kept or passed on by a successful action.\<close>

lemma promise_kept:
  assumes "exec_action os junk a th w = Some (Inr (th', w', new))" "promises (th\<lparr>th_prog := a # th_prog th\<rparr>) l"
    and "0 \<le> l" "l < int (length (sm_events (w_mgr w)))"
  shows "ready w' l \<or> promises th' l \<or> (\<exists>t \<in> set new. promises t l)"
proof (cases "promises th l")
  case True
  from exec_action_thread [OF assms(1)] have "set (th_prog th) \<subseteq> set (th_prog th')" by auto
  from promises_mono(1) [OF True this] exec_action_thread [OF assms(1)] show ?thesis by blast
next
  case False
  consider "a = SetReady l" "\<not> th_handling th" | "a = PrefetchLayer l" "\<not> th_handling th" "l \<in> set (th_release th)"
    | d c where "a = SpawnQuery d c" "l \<in> set d" | ids where "a = ReleaseLayers ids" "l \<in> set ids"
    using assms(2) False by (auto simp: promises_def split: if_splits)
  then show ?thesis
  proof cases
    case 1
    with assms obtain m where "set_layer_ready l (w_mgr w) = Inr m" "w' = w\<lparr>w_mgr := m\<rparr>"
      by (auto simp: go_res_def rbind_Inr_iff)
    with set_layer_ready_ready assms(3) show ?thesis by blast
  next
    case 2
    from assms(1) 2(1) obtain b where b: "has_kv (w_hack w) l = Inr b" by (auto simp: rbind_Inr_iff)
    show ?thesis
    proof (cases b)
      case True
      with b assms 2 obtain m where "set_layer_ready l (w_mgr w) = Inr m" "w' = w\<lparr>w_mgr := m\<rparr>"
        by (auto simp: rbind_Inr_iff)
      with set_layer_ready_ready assms(3) show ?thesis by blast
    next
      case False
      with b assms(1) 2 show ?thesis by (auto simp: promises_def)
    qed
  next
    case 3
    with assms(1) show ?thesis by (auto simp: digest_thread_promises)
  next
    case 4
    with assms show ?thesis by (auto simp: go_def ready_def set_layers_ready_event set_layers_ready_frame)
  qed
qed

lemma promise_b_kept:
  assumes "exec_action os junk a th w = Some (Inr (th', w', new))" "promises_b (th\<lparr>th_prog := a # th_prog th\<rparr>)"
  shows "sm_task_b (w_mgr w') \<or> promises_b th' \<or> (\<exists>t \<in> set new. promises_b t)"
proof (cases "promises_b th")
  case True
  from exec_action_thread [OF assms(1)] have "set (th_prog th) \<subseteq> set (th_prog th')" by auto
  from promises_mono(2) [OF True this] exec_action_thread [OF assms(1)] show ?thesis by blast
next
  case False
  then consider "a = SetTaskB" | d c where "a = SpawnQuery d c"
    using assms(2) by (auto simp: promises_b_def split: if_splits)
  then show ?thesis
  proof cases
    case 1
    with assms(1) show ?thesis by (auto simp: go_def)
  next
    case 2
    with assms(1) show ?thesis by (auto simp: critical_thread_promises)
  qed
qed

lemma well_behaved_kept:
  assumes "exec_action os junk a th w = Some (Inr (th', w', new))" "well_behaved D (th\<lparr>th_prog := a # th_prog th\<rparr>)"
  shows "\<forall>t \<in> set (th' # new). well_behaved D t"
proof -
  have t: "well_behaved D th" using assms(2) by (auto simp: well_behaved_def)
  note e = exec_action_thread [OF assms(1)]
  have "well_behaved D th'"
  proof (cases "th_prog th' = th_prog th")
    case True
    with e t show ?thesis by (simp add: well_behaved_def)
  next
    case False
    with e obtain l where "a = PrefetchLayer l" "th_prog th' = [ReadChunk l, StoreHack l, SetReady l] @ th_prog th" by auto
    with e assms(2) show ?thesis by (auto simp: well_behaved_def)
  qed
  moreover have "well_behaved D t" if "t \<in> set new" for t
  proof -
    from e that obtain d c m where a: "a = SpawnQuery d c" "t = digest_thread m d \<or> t = critical_thread m d c"
      by (auto split: action.splits)
    then have "set d \<subseteq> D" "\<forall>l \<in> set d. 0 \<le> l" using assms(2) by (auto simp: well_behaved_def)
    with a digest_thread_well_behaved critical_thread_well_behaved show ?thesis by metis
  qed
  ultimately show ?thesis by simp
qed

lemma in_update_app: "i < length xs \<Longrightarrow> t \<in> set xs \<Longrightarrow> t = xs ! i \<or> t \<in> set (xs[i := x] @ ys)"
  by (metis (no_types, lifting) Un_iff in_set_conv_nth length_list_update nth_list_update_neq set_append)

lemma new_in_update: "i < length xs \<Longrightarrow> x \<in> set (xs[i := x] @ ys)"
  by (simp add: set_update_memI)

lemma live_step:
  assumes "live D b s" "safe ph crit s" "thread_step os junk i s = Some s'"
  shows "live D b s'"
  using assms(3)
proof (cases rule: thread_step_cases)
  case (ok a rest th' w' new)
  let ?w = "sy_world s" and ?th = "sy_threads s ! i"
  have g: "grows ?w w'" using safe_step [OF assms(2,3)] ok(4) by simp
  have th: "?th = (?th\<lparr>th_prog := rest\<rparr>)\<lparr>th_prog := a # th_prog (?th\<lparr>th_prog := rest\<rparr>)\<rparr>"
    using ok(2) by (cases ?th) simp
  have ts: "sy_threads s' = (sy_threads s)[i := th'] @ new" "sy_world s' = w'" using ok(4) by simp_all
  have wb: "well_behaved D t" if "t \<in> set (sy_threads s')" for t
  proof -
    have "\<forall>t \<in> set (th' # new). well_behaved D t"
      using well_behaved_kept [OF ok(3)] assms(1) ok(1) th nth_mem by (metis live_def)
    then show ?thesis
      using that assms(1) set_update_app [OF ok(1), of th' new] ts by (auto simp: live_def)
  qed
  have pr: "ready w' l \<or> (\<exists>t \<in> set (sy_threads s'). promises t l)"
    if "l \<in> D" "0 \<le> l \<and> l < int (length (sm_events (w_mgr w')))" for l
  proof -
    have l: "l < int (length (sm_events (w_mgr ?w)))" using that g by (simp add: grows_def)
    with that assms(1) consider "ready ?w l" | t where "t \<in> set (sy_threads s)" "promises t l"
      by (auto simp: live_def)
    then show ?thesis
    proof cases
      case 1
      with g show ?thesis by (simp add: grows_def)
    next
      case 2
      show ?thesis
      proof (cases "t = ?th")
        case True
        then have "promises ((?th\<lparr>th_prog := rest\<rparr>)\<lparr>th_prog := a # th_prog (?th\<lparr>th_prog := rest\<rparr>)\<rparr>) l"
          using 2(2) th by simp
        from promise_kept [OF ok(3) this _ l] that(2) show ?thesis
          using new_in_update [OF ok(1), of th' new] by (auto simp: ts)
      next
        case False
        with 2 in_update_app [OF ok(1) 2(1), of th' new] show ?thesis by (auto simp: ts)
      qed
    qed
  qed
  have prb: "sm_task_b (w_mgr w') \<or> (\<exists>t \<in> set (sy_threads s'). promises_b t)" if b
  proof -
    from that assms(1) consider "sm_task_b (w_mgr ?w)" | t where "t \<in> set (sy_threads s)" "promises_b t"
      by (auto simp: live_def)
    then show ?thesis
    proof cases
      case 1
      with g show ?thesis by (simp add: grows_def)
    next
      case 2
      show ?thesis
      proof (cases "t = ?th")
        case True
        then have "promises_b ((?th\<lparr>th_prog := rest\<rparr>)\<lparr>th_prog := a # th_prog (?th\<lparr>th_prog := rest\<rparr>)\<rparr>)"
          using 2(2) th by simp
        from promise_b_kept [OF ok(3) this] show ?thesis
          using new_in_update [OF ok(1), of th' new] by (auto simp: ts)
      next
        case False
        with 2 in_update_app [OF ok(1) 2(1), of th' new] show ?thesis by (auto simp: ts)
      qed
    qed
  qed
  from wb pr prb show ?thesis by (simp add: live_def ts(2))
next
  case (fail a rest e)
  let ?th = "sy_threads s ! i"
  have nh: "\<not> th_handling ?th"
  proof
    assume "th_handling ?th"
    then have "handles a" using assms(1) fail(1,2) nth_mem [OF fail(1)] by (auto simp: live_def well_behaved_def)
    with handling_actions_succeed [OF this fail(3)] show False by auto
  qed
  have ts: "sy_threads s' = (sy_threads s)[i := handler e ?th]" "sy_world s' = sy_world s"
    using fail(4) nh by simp_all
  have p: "\<exists>t' \<in> set (sy_threads s'). promises t' l" if "t \<in> set (sy_threads s)" "promises t l" for t l
  proof (cases "t = ?th")
    case True
    with handler_promises(1) [OF nh, of l e] that new_in_update [OF fail(1), of "handler e ?th" "[]"] show ?thesis
      by (auto simp: ts)
  next
    case False
    with that in_update_app [OF fail(1) that(1), of "handler e ?th" "[]"] show ?thesis by (auto simp: ts)
  qed
  have pb: "\<exists>t' \<in> set (sy_threads s'). promises_b t'" if "t \<in> set (sy_threads s)" "promises_b t" for t
  proof (cases "t = ?th")
    case True
    with handler_promises(2) [OF nh, of e] that new_in_update [OF fail(1), of "handler e ?th" "[]"] show ?thesis
      by (auto simp: ts)
  next
    case False
    with that in_update_app [OF fail(1) that(1), of "handler e ?th" "[]"] show ?thesis by (auto simp: ts)
  qed
  have "well_behaved D t" if "t \<in> set (sy_threads s')" for t
    using that assms(1) set_update_app [OF fail(1), of "handler e ?th" "[]"] handler_well_behaved
    by (auto simp: ts live_def)
  with assms(1) p pb show ?thesis unfolding live_def ts(2) by blast
qed

section \<open>Runs end\<close>

text \<open>The weight of an action counts the steps it can lead to, the weight of a thread those of its
  program and, outside the handler, of the handler it may still run.\<close>

fun act_weight :: "action \<Rightarrow> nat" where
  "act_weight (SpawnQuery d c) = 3 * length d + length c + 12"
| "act_weight (PrefetchLayer l) = 4"
| "act_weight _ = 1"

definition prog_weight :: "action list \<Rightarrow> nat" where
  "prog_weight p = sum_list (map act_weight p)"

definition thread_weight :: "thread \<Rightarrow> nat" where
  "thread_weight t = (if th_handling t then 0 else 4) + prog_weight (th_prog t)"

definition sys_weight :: "'s sys \<Rightarrow> nat" where
  "sys_weight s = sum_list (map thread_weight (sy_threads s))"

lemma act_weight_pos: "0 < act_weight a"
  by (cases a) simp_all

lemma prog_weight_simps [simp]:
  "prog_weight [] = 0" "prog_weight (a # p) = act_weight a + prog_weight p"
  "prog_weight (p @ q) = prog_weight p + prog_weight q"
  by (simp_all add: prog_weight_def)

lemma digest_actions_weight [simp]: "prog_weight (digest_actions ids) = 3 * length ids"
  by (induction ids) (simp_all add: digest_actions_def)

lemma store_critical_weight [simp]: "prog_weight (map StoreCritical ids) = length ids"
  by (induction ids) simp_all

lemma prefetch_weight [simp]: "prog_weight (map PrefetchLayer ids) = 4 * length ids"
  by (induction ids) simp_all

lemma task_b_weight: "prog_weight (task_b_actions ids) = 2 * length ids + 1"
proof -
  have "prog_weight (concat (map (\<lambda>l. [ReadChunk l, StoreHack l]) ids)) = 2 * length ids" by (induction ids) simp_all
  then show ?thesis by (simp add: task_b_actions_def)
qed

lemma critical_actions_weight: "prog_weight (critical_actions d c) \<le> length c + 2"
  by (simp add: critical_actions_def split: list.splits)

lemma spawn_weight: "thread_weight (digest_thread m d) + thread_weight (critical_thread m d c) < 3 * length d + length c + 12"
  using critical_actions_weight [of d c]
  by (simp add: thread_weight_def digest_thread_def critical_thread_def loader_thread_def)

lemma sum_list_update_less:
  assumes "i < length xs" "f y + sum_list (map f ys) < f (xs ! i)"
  shows "sum_list (map f (xs[i := y] @ ys)) < (sum_list (map f xs) :: nat)"
proof -
  have "sum_list (map f (xs[i := y])) = sum_list (map f xs) + f y - f (xs ! i)"
    using assms(1) by (simp add: map_update sum_list_update)
  moreover have "f (xs ! i) \<le> sum_list (map f xs)"
    using assms(1) by (metis length_map nth_map nth_mem member_le_sum_list zero_le)
  ultimately show ?thesis using assms(2) by simp
qed

lemma step_lighter:
  assumes "thread_step os junk i s = Some s'"
  shows "sys_weight s' < sys_weight s"
  using assms
proof (cases rule: thread_step_cases)
  case (ok a rest th' w' new)
  let ?th = "sy_threads s ! i"
  note e = exec_action_thread [OF ok(3)]
  have "thread_weight th' + sum_list (map thread_weight new) < thread_weight ?th"
  proof (cases "\<exists>d c. a = SpawnQuery d c")
    case True
    with e obtain d c m where a: "a = SpawnQuery d c" "new = [digest_thread m d, critical_thread m d c]"
      "th_prog th' = rest" "th_handling th' = th_handling ?th" by auto
    with spawn_weight [of m d c] ok(2) show ?thesis by (simp add: thread_weight_def)
  next
    case False
    then have "new = []" using e by (auto split: action.splits)
    with e ok(2) act_weight_pos [of a] show ?thesis by (auto simp: thread_weight_def)
  qed
  from sum_list_update_less [OF ok(1), of thread_weight, OF this] ok(4) show ?thesis by (simp add: sys_weight_def)
next
  case (fail a rest e)
  let ?th = "sy_threads s ! i"
  let ?t = "if th_handling ?th then ?th\<lparr>th_prog := []\<rparr> else handler e ?th"
  have "thread_weight ?t + sum_list (map thread_weight []) < thread_weight ?th"
    using fail(2) act_weight_pos [of a] by (simp add: thread_weight_def handler_def)
  from sum_list_update_less [OF fail(1), of thread_weight, OF this] fail(4) show ?thesis by (simp add: sys_weight_def)
qed

section \<open>Where no thread can step\<close>

definition stopped :: "os_reader \<Rightarrow> (nat \<Rightarrow> byte) \<Rightarrow> 's sys \<Rightarrow> bool" where
  "stopped os junk s \<longleftrightarrow> (\<forall>i < length (sy_threads s). thread_step os junk i s = None)"

lemma stopped_iff: "stopped os junk s \<longleftrightarrow> (\<forall>s'. \<not> sys_step os junk s s')"
proof -
  have "thread_step os junk i s = None" if "\<not> i < length (sy_threads s)" for i
    using that by (simp add: thread_step_def)
  then have "stopped os junk s \<longleftrightarrow> (\<forall>i. thread_step os junk i s = None)" by (auto simp: stopped_def)
  also have "\<dots> \<longleftrightarrow> (\<forall>s'. \<not> sys_step os junk s s')"
    by (metis sys_step_iff option.exhaust option.distinct(1))
  finally show ?thesis .
qed

text \<open>Only a wait for an event that is not set can block.\<close>

lemma blocked_action:
  "exec_action os junk a th w = None \<Longrightarrow> \<exists>l. a = WaitReady l \<and> wait_layer_ready l (w_mgr w) = None"
  by (cases a) (auto simp: go_def go_res_def split: if_splits)

lemma wait_blocked:
  "wait_layer_ready l m = None \<Longrightarrow> 0 \<le> l \<Longrightarrow> l < int (length (sm_events m)) \<and> \<not> sm_events m ! nat l"
  by (auto simp: wait_layer_ready_def py_get_def py_idx_def split: if_splits option.splits sum.splits)

lemma stopped_thread:
  assumes "stopped os junk s" "t \<in> set (sy_threads s)"
  shows "th_prog t = [] \<or> (\<exists>l rest. th_prog t = WaitReady l # rest \<and> wait_layer_ready l (w_mgr (sy_world s)) = None)"
proof (cases "th_prog t")
  case (Cons a rest)
  from assms(2) obtain i where i: "i < length (sy_threads s)" "t = sy_threads s ! i"
    by (auto simp: in_set_conv_nth)
  then have "thread_step os junk i s = None" using assms(1) by (simp add: stopped_def)
  then have "exec_action os junk a (t\<lparr>th_prog := rest\<rparr>) (sy_world s) = None"
    using i Cons by (auto simp: thread_step_def Let_def split: option.splits sum.splits)
  with blocked_action [OF this] Cons show ?thesis by blast
qed simp

lemma blocked_promises_nothing:
  assumes "well_behaved D t" "th_prog t = [] \<or> (\<exists>l. WaitReady l \<in> set (th_prog t))"
  shows "\<not> promises t j"
proof (cases "th_prog t = []")
  case False
  with assms have "\<not> th_handling t" "\<forall>a \<in> set (th_prog t). \<not> announces a" by (auto simp: well_behaved_def)
  then show ?thesis by (force simp: promises_def)
qed (simp add: promises_def)

lemma stopped_done:
  assumes "stopped os junk s" "live D b s"
  shows "(\<forall>t \<in> set (sy_threads s). th_prog t = []) \<and>
    (\<forall>l \<in> D. 0 \<le> l \<and> l < int (length (sm_events (w_mgr (sy_world s)))) \<longrightarrow> ready (sy_world s) l) \<and>
    (b \<longrightarrow> sm_task_b (w_mgr (sy_world s)))"
proof -
  have np: "\<not> promises t j" if "t \<in> set (sy_threads s)" for t j
    using stopped_thread [OF assms(1) that] assms(2) that
    by (intro blocked_promises_nothing [where D = D]) (force simp: live_def)+
  have r: "\<forall>l \<in> D. 0 \<le> l \<and> l < int (length (sm_events (w_mgr (sy_world s)))) \<longrightarrow> ready (sy_world s) l"
    using assms(2) np by (auto simp: live_def)
  have e: "th_prog t = []" if t: "t \<in> set (sy_threads s)" for t
    using stopped_thread [OF assms(1) t]
  proof (elim disjE exE conjE)
    fix l rest
    assume a: "th_prog t = WaitReady l # rest" "wait_layer_ready l (w_mgr (sy_world s)) = None"
    have "0 \<le> l" "l \<in> D" using assms(2) t a(1) by (auto simp: live_def well_behaved_def)
    with wait_blocked [OF a(2)] r show ?thesis by (auto simp: ready_def)
  qed
  have "\<not> promises_b t" if "t \<in> set (sy_threads s)" for t
    using e [OF that] by (simp add: promises_b_def)
  with assms(2) r e show ?thesis by (auto simp: live_def)
qed

section \<open>The rounds\<close>

interpretation loaders: worker_system "sys_step os junk" "\<lambda>s. safe ph crit s \<and> live D b s" sys_weight
  for os junk ph crit D b
  by unfold_locales (auto simp: sys_step_iff dest: safe_step live_step intro: step_lighter)

text \<open>A round starts with one thread, right after \<open>configure\<close> or \<open>reset_layer_events\<close>.\<close>

definition query_round :: "'s world \<Rightarrow> int \<Rightarrow> int list \<Rightarrow> json option \<Rightarrow> 's sys" where
  "query_round w num_digest_layers critical_layers query_meta =
     \<lparr>sy_world = w, sy_threads = [start_query_cache num_digest_layers (Some critical_layers) query_meta]\<rparr>"

definition task_b_round :: "'s world \<Rightarrow> int list \<Rightarrow> 's sys" where
  "task_b_round w layer_list = \<lparr>sy_world = w, sy_threads = [start_task_b layer_list]\<rparr>"

definition do_blend_round :: "'s world \<Rightarrow> int \<Rightarrow> int \<Rightarrow> 's sys" where
  "do_blend_round w prefetch_from num_layers =
     \<lparr>sy_world = w\<lparr>w_mgr := reset_layer_events (w_mgr w)\<rparr>,
      sy_threads = [start_do_blend_prefetch prefetch_from num_layers]\<rparr>"

lemma pools_signals: "same_signals m (ensure_transfer_pool key dev m)"
  by (simp add: same_signals_def ensure_transfer_pool_def split: option.splits prod.splits)

lemma configure_signals:
  "sm_events (w_mgr (configure on off dc dq n dev w)) = replicate (nat n) False"
  "sm_error (w_mgr (configure on off dc dq n dev w)) = None"
  "\<not> sm_task_b (w_mgr (configure on off dc dq n dev w))"
  using pools_signals by (simp_all add: configure_def Let_def same_signals_def clear_loader_error_def)

lemma configure_pools [simp]:
  "paired (configure on off dc dq n dev w) = paired w"
  by (simp add: configure_def Let_def paired_def)

lemma configure_ready: "\<not> ready (configure on off dc dq n dev w) l"
  by (simp add: ready_def configure_signals)

lemma round_weights:
  "sys_weight (query_round w d crit qm) = 3 * length (py_range 0 d) + length crit + 17"
  "sys_weight (task_b_round w ids) = 2 * length ids + 6"
  "sys_weight (do_blend_round w a n) = 4 * length (py_range a n) + 5"
  by (simp_all add: sys_weight_def thread_weight_def query_round_def start_query_cache_def Let_def task_b_round_def
      start_task_b_def loader_thread_def task_b_weight do_blend_round_def start_do_blend_prefetch_def do_blend_actions_def)

lemma query_round_start:
  assumes "paired w" "\<forall>l \<in> set crit. 0 \<le> l"
  shows "safe QueryPhase (set crit) (query_round (configure on off dc dq n dev w) d crit qm)"
    "live (set (py_range 0 d)) True (query_round (configure on off dc dq n dev w) d crit qm)"
  using assms
  by (auto simp: safe_def query_round_def signals_ok_def configure_ready configure_signals start_query_cache_def Let_def
      live_def promises_def promises_b_def well_behaved_def)

lemma task_b_round_start:
  assumes "paired w" "\<forall>l \<in> set ids. 0 \<le> l"
  shows "safe QueryPhase (set ids) (task_b_round (configure on off dc dq n dev w) ids)"
    "live {} True (task_b_round (configure on off dc dq n dev w) ids)"
  using assms just_task_b [of ids "set ids"]
  by (auto simp: safe_def task_b_round_def signals_ok_def configure_ready configure_signals start_task_b_def
      loader_thread_def live_def promises_b_def well_behaved_def)
    (auto simp: task_b_actions_def)

lemma reset_ready: "\<not> ready (w\<lparr>w_mgr := reset_layer_events (w_mgr w)\<rparr>) l"
  by (auto simp: ready_def reset_layer_events_def clear_events_def)

lemma do_blend_round_start:
  assumes "paired w" "0 \<le> a"
  shows "safe BlendPhase {} (do_blend_round w a n)"
    "live (set (py_range a n)) False (do_blend_round w a n)"
  using assms just_do_blend [of "py_range a n"]
  by (auto simp: safe_def do_blend_round_def signals_ok_def reset_ready start_do_blend_prefetch_def
      loader_thread_def live_def promises_def well_behaved_def do_blend_actions_def)

lemma grows_trans: "grows w1 w2 \<Longrightarrow> grows w2 w3 \<Longrightarrow> grows w1 w3"
  by (auto simp: grows_def)

lemma reachable_grows:
  "(sys_step os junk)\<^sup>*\<^sup>* s s' \<Longrightarrow> safe ph crit s \<Longrightarrow> grows (sy_world s) (sy_world s')"
proof -
  assume r: "(sys_step os junk)\<^sup>*\<^sup>* s s'" and s: "safe ph crit s"
  from r have "safe ph crit s' \<and> grows (sy_world s) (sy_world s')"
    by (induction rule: rtranclp_induct) (use s in \<open>auto simp: sys_step_iff dest: safe_step intro: grows_trans\<close>)
  then show ?thesis ..
qed

text \<open>What a waiter that is let through knows.\<close>

lemma wait_layer_ok: "wait_layer_ready l (w_mgr w) = Some (Inr ()) \<Longrightarrow> 0 \<le> l \<Longrightarrow> ready w l \<and> \<not> failed w"
  by (auto simp: wait_layer_ready_def ready_def failed_def raise_loader_error_def py_get_def py_idx_def
      split: if_splits option.splits sum.splits)

lemma wait_task_ok: "wait_task_b (w_mgr w) = Some (Inr ()) \<Longrightarrow> sm_task_b (w_mgr w) \<and> \<not> failed w"
  by (auto simp: wait_task_b_def failed_def raise_loader_error_def split: if_splits)

lemma ready_no_wait: "ready w l \<Longrightarrow> wait_layer_ready l (w_mgr w) \<noteq> None"
  by (auto simp: wait_layer_ready_def ready_def split: sum.splits)

text \<open>A round on an empty disk: the root thread finds no query cache and handles the error. A round
  on \<open>example_ssd\<close>: layer 0 is in the pool already, so its event is set at once.\<close>

abbreviation quick_reader :: os_reader where
  "quick_reader \<equiv> \<lparr>or_waits = (\<lambda>_. 0), or_most = (\<lambda>_. 0)\<rparr>"

lemma example_paired: "paired example_world"
  by (auto simp: paired_def example_world_def example_pool_def slots_def nth_Cons' split: if_splits)

lemma run_schedule_step:
  "thread_step os junk i s = Some s' \<Longrightarrow> run_schedule os junk (i # is) s = run_schedule os junk is s'"
  by simp

definition failed_query_run :: "int sys" where
  "failed_query_run = run_schedule quick_reader (\<lambda>_. 0) [0, 0, 0, 0]
     (query_round (configure True False ''d'' ''q'' 2 ''cuda:0'' example_world) 2 [1] None)"

lemma failed_query_run:
  "map th_prog (sy_threads failed_query_run) = [[]]"
  "sm_events (w_mgr (sy_world failed_query_run)) = [True, True]"
  "sm_task_b (w_mgr (sy_world failed_query_run))"
  "sm_error (w_mgr (sy_world failed_query_run)) \<noteq> None"
proof -
  let ?w = "configure True False ''d'' ''q'' 2 ''cuda:0'' example_world"
  have r: "py_range 0 2 = [0, 1]" by code_simp
  have f: "w_ssd ?w = empty_ssd" "sm_meta_cache (w_mgr ?w) = (None, [])" "sm_dir_query (w_mgr ?w) = ''q''"
    "sm_events (w_mgr ?w) = [False, False]" "sm_error (w_mgr ?w) = None" "\<not> sm_task_b (w_mgr ?w)"
    by (simp_all add: configure_def example_world_def Let_def ensure_transfer_pool_def initial_manager_def
        clear_loader_error_def numeral_2_eq_2)
  have "\<exists>e. load_query_meta ''q'' empty_ssd (None, []) = Inl e"
    by (simp add: load_query_meta_def load_query_file_def read_json_def empty_ssd_def)
  then obtain e where e: "load_query_meta ''q'' empty_ssd (None, []) = Inl e" ..
  note d = failed_query_run_def query_round_def start_query_cache_def Let_def thread_step_def check_query_def r f e
    go_def handler_def record_loader_error_def
  show "map th_prog (sy_threads failed_query_run) = [[]]"
    "sm_events (w_mgr (sy_world failed_query_run)) = [True, True]"
    "sm_task_b (w_mgr (sy_world failed_query_run))"
    "sm_error (w_mgr (sy_world failed_query_run)) \<noteq> None"
    by (simp_all add: d)
qed

text \<open>A round whose digest and critical layer are read from the disk; the critical thread is tried
  before the digest layer is there.\<close>

definition round_meta :: json where
  "round_meta =
     (let kv = (\<lambda>i j. JObj [(''k'', item_meta i 1 [1] ''U8''), (''v'', item_meta j 1 [1] ''U8'')])
      in JObj [(''digest'', JObj [(''num_layers'', JInt 1), (''layers'', JObj [(''0'', kv 0 1)])]),
               (''critical'', JObj [(''layer_ids'', JList [JInt 0]), (''layers'', JObj [(''0'', kv 2 3)])])])"

definition round_world :: "int world" where
  "round_world = example_world\<lparr>w_ssd := write_bin (os_path_join ''q'' QUERY_BIN_NAME) [3, 4, 5, 6] empty_ssd,
     w_mgr := initial_manager\<lparr>sm_pools := (\<lambda>key. Some (''cuda:0'',
       \<lparr>sl_buf = Some [9, 9], sl_capacity = 2, sl_block = None\<rparr>))\<rparr>,
     w_hack := pool_clear\<lparr>k_buffer := [None], v_buffer := [None]\<rparr>,
     w_ctx := ctx_clear\<lparr>ctx_k_buffer := [None], ctx_v_buffer := [None]\<rparr>\<rparr>"

definition query_run :: "int sys" where
  "query_run = run_schedule quick_reader (\<lambda>_. 0) [0, 0, 2, 1, 1, 1, 2, 2, 2, 2]
     (query_round (configure True False ''d'' ''q'' 1 ''cuda:0'' round_world) 1 [0] (Some round_meta))"

lemma query_run:
  "(wait_layer_ready 0 (w_mgr (sy_world query_run)), wait_task_b (w_mgr (sy_world query_run))) = (Some (Inr ()), Some (Inr ()))"
  by code_simp

lemma round_paired: "paired round_world"
  by (auto simp: paired_def round_world_def slots_def)

section \<open>Properties\<close>

text \<open>C1: what QCOMPUTE reads after its waits is really loaded, in every interleaving of the root, the
  digest and the critical thread. Whenever the wait for a layer returns, K and V of that layer's
  digest are in the context pool; whenever the wait for \<open>task_b_event\<close> returns, K and V of every
  critical layer are in the K/V pool. A failed load makes the waits raise instead.\<close>

theorem query_prefetch_safe:
  assumes "paired w" "\<forall>l \<in> set crit. 0 \<le> l"
    and "(sys_step os junk)\<^sup>*\<^sup>* (query_round (configure online offline dc dq n dev w) d crit qm) s"
  shows "(\<forall>l. 0 \<le> l \<and> wait_layer_ready l (w_mgr (sy_world s)) = Some (Inr ()) \<longrightarrow>
      slots (ctx_k_buffer (w_ctx (sy_world s))) l \<noteq> None \<and> slots (ctx_v_buffer (w_ctx (sy_world s))) l \<noteq> None) \<and>
    (wait_task_b (w_mgr (sy_world s)) = Some (Inr ()) \<longrightarrow>
      (\<forall>l \<in> set crit. slots (k_buffer (w_hack (sy_world s))) l \<noteq> None \<and> slots (v_buffer (w_hack (sy_world s))) l \<noteq> None))"
proof -
  note start = query_round_start [OF assms(1,2)]
  have "safe QueryPhase (set crit) s" using loaders.reachable_inv [OF assms(3) conjI [OF start]] by simp
  then have s: "signals_ok QueryPhase (set crit) (sy_world s)" by (simp add: safe_def)
  then have "l \<in> ctx_set (sy_world s)" if "0 \<le> l" "wait_layer_ready l (w_mgr (sy_world s)) = Some (Inr ())" for l
    using wait_layer_ok [OF that(2,1)] by (auto simp: signals_ok_def)
  moreover have "set crit \<subseteq> hack_set (sy_world s)" if "wait_task_b (w_mgr (sy_world s)) = Some (Inr ())"
    using wait_task_ok [OF that] s by (auto simp: signals_ok_def)
  ultimately show ?thesis by (auto simp: ctx_set_def hack_set_def)
qed

theorem query_prefetch_safe_witness:
  "slots (ctx_k_buffer (w_ctx (sy_world query_run))) 0 \<noteq> None \<and> slots (k_buffer (w_hack (sy_world query_run))) 0 \<noteq> None"
proof -
  have "(sys_step quick_reader (\<lambda>_. 0))\<^sup>*\<^sup>*
      (query_round (configure True False ''d'' ''q'' 1 ''cuda:0'' round_world) 1 [0] (Some round_meta)) query_run"
    unfolding query_run_def by (rule run_schedule_reachable)
  from query_prefetch_safe [OF round_paired _ this] query_run show ?thesis by simp
qed

text \<open>C2: the query prefetch always comes to an end and leaves nobody waiting. Every run of its three
  threads has at most \<open>3 * d + |critical| + 17\<close> steps, whatever fails; and where no thread can step any
  more all of them have ended, no wait for a digest layer blocks, and the wait for \<open>task_b_event\<close> does
  not block either. A forever waiting critical thread is impossible even when the digest thread
  fails.\<close>

theorem query_prefetch_completes:
  assumes "paired w" "\<forall>l \<in> set crit. 0 \<le> l"
  shows "((sys_step os junk ^^ k) (query_round (configure online offline dc dq n dev w) d crit qm) s \<longrightarrow>
      k \<le> 3 * nat d + length crit + 17) \<and>
    ((sys_step os junk)\<^sup>*\<^sup>* (query_round (configure online offline dc dq n dev w) d crit qm) s \<and> stopped os junk s \<longrightarrow>
      (\<forall>t \<in> set (sy_threads s). th_prog t = []) \<and>
      (\<forall>l. 0 \<le> l \<and> l < d \<and> l < n \<longrightarrow> wait_layer_ready l (w_mgr (sy_world s)) \<noteq> None) \<and>
      wait_task_b (w_mgr (sy_world s)) \<noteq> None)"
proof -
  let ?s0 = "query_round (configure online offline dc dq n dev w) d crit qm"
  note start = query_round_start [OF assms]
  have b: "k \<le> 3 * nat d + length crit + 17" if "(sys_step os junk ^^ k) ?s0 s"
    using loaders.run_bounded [OF that conjI [OF start]] by (simp add: round_weights)
  have c: "(\<forall>t \<in> set (sy_threads s). th_prog t = []) \<and>
      (\<forall>l. 0 \<le> l \<and> l < d \<and> l < n \<longrightarrow> wait_layer_ready l (w_mgr (sy_world s)) \<noteq> None) \<and>
      wait_task_b (w_mgr (sy_world s)) \<noteq> None"
    if r: "(sys_step os junk)\<^sup>*\<^sup>* ?s0 s" "stopped os junk s"
  proof -
    have "live (set (py_range 0 d)) True s" using loaders.reachable_inv [OF r(1) conjI [OF start]] by simp
    from stopped_done [OF r(2) this] have e: "\<forall>t \<in> set (sy_threads s). th_prog t = []"
      "sm_task_b (w_mgr (sy_world s))"
      "\<forall>l \<in> set (py_range 0 d). 0 \<le> l \<and> l < int (length (sm_events (w_mgr (sy_world s)))) \<longrightarrow> ready (sy_world s) l"
      by simp_all
    have "grows (sy_world ?s0) (sy_world s)" using reachable_grows [OF r(1) start(1)] .
    then have "length (sm_events (w_mgr (sy_world s))) = nat n"
      by (simp add: grows_def query_round_def configure_signals)
    with e show ?thesis using ready_no_wait [of "sy_world s"] by (auto simp: wait_task_b_def)
  qed
  from b c show ?thesis by blast
qed

lemma ended_stopped: "\<forall>p \<in> set (map th_prog (sy_threads s)). p = [] \<Longrightarrow> stopped os junk s"
  by (auto simp: stopped_def thread_step_def)

theorem query_prefetch_completes_witness:
  "wait_layer_ready 0 (w_mgr (sy_world failed_query_run)) = Some (Inl (RuntimeError ''SSD KV loader failed'')) \<and>
   wait_layer_ready 1 (w_mgr (sy_world failed_query_run)) \<noteq> None \<and>
   wait_task_b (w_mgr (sy_world failed_query_run)) \<noteq> None"
proof -
  have r: "(sys_step quick_reader (\<lambda>_. 0))\<^sup>*\<^sup>*
      (query_round (configure True False ''d'' ''q'' 2 ''cuda:0'' example_world) 2 [1] None) failed_query_run"
    unfolding failed_query_run_def by (rule run_schedule_reachable)
  have "stopped quick_reader (\<lambda>_. 0) failed_query_run" using failed_query_run(1) by (intro ended_stopped) simp
  with r conjunct2 [OF query_prefetch_completes [OF example_paired, where crit = "[1]" and d = 2 and n = 2]]
  have "\<forall>l. 0 \<le> l \<and> l < 2 \<and> l < 2 \<longrightarrow> wait_layer_ready l (w_mgr (sy_world failed_query_run)) \<noteq> None"
    "wait_task_b (w_mgr (sy_world failed_query_run)) \<noteq> None" by simp_all
  moreover have "wait_layer_ready 0 (w_mgr (sy_world failed_query_run)) = Some (Inl (RuntimeError ''SSD KV loader failed''))"
    using failed_query_run(2,4) by (simp add: wait_layer_ready_def raise_loader_error_def)
  ultimately show ?thesis by simp
qed

text \<open>C33: the chunk loader of QCOMPUTE is correct in the same way: the wait for \<open>task_b_event\<close> never
  lets a caller through before every requested layer is in the K/V pool, a run takes at most
  \<open>2 * |layers| + 6\<close> steps, and after it the wait does not block.\<close>

theorem task_b_load_correct:
  assumes "paired w" "\<forall>l \<in> set ids. 0 \<le> l"
    and "(sys_step os junk)\<^sup>*\<^sup>* (task_b_round (configure online offline dc dq n dev w) ids) s"
  shows "(wait_task_b (w_mgr (sy_world s)) = Some (Inr ()) \<longrightarrow>
      (\<forall>l \<in> set ids. slots (k_buffer (w_hack (sy_world s))) l \<noteq> None \<and> slots (v_buffer (w_hack (sy_world s))) l \<noteq> None)) \<and>
    ((sys_step os junk ^^ k) (task_b_round (configure online offline dc dq n dev w) ids) s \<longrightarrow> k \<le> 2 * length ids + 6) \<and>
    (stopped os junk s \<longrightarrow> wait_task_b (w_mgr (sy_world s)) \<noteq> None)"
proof -
  note start = task_b_round_start [OF assms(1,2)]
  have i: "safe QueryPhase (set ids) s" "live {} True s"
    using loaders.reachable_inv [OF assms(3) conjI [OF start]] by simp_all
  have "set ids \<subseteq> hack_set (sy_world s)" if "wait_task_b (w_mgr (sy_world s)) = Some (Inr ())"
    using wait_task_ok [OF that] i(1) by (auto simp: safe_def signals_ok_def)
  moreover have "k \<le> 2 * length ids + 6"
    if "(sys_step os junk ^^ k) (task_b_round (configure online offline dc dq n dev w) ids) s"
    using loaders.run_bounded [OF that conjI [OF start]] by (simp add: round_weights)
  moreover have "wait_task_b (w_mgr (sy_world s)) \<noteq> None" if "stopped os junk s"
    using stopped_done [OF that i(2)] by (simp add: wait_task_b_def)
  ultimately show ?thesis by (auto simp: hack_set_def)
qed

definition missing_chunk_run :: "int sys" where
  "missing_chunk_run = run_schedule quick_reader (\<lambda>_. 0) [0, 0, 0, 0]
     (task_b_round (configure True False ''d'' ''q'' 2 ''cuda:0'' example_world) [0, 1])"

theorem task_b_load_correct_witness:
  "stopped quick_reader (\<lambda>_. 0) missing_chunk_run \<and> wait_task_b (w_mgr (sy_world missing_chunk_run)) \<noteq> None"
proof -
  let ?w = "configure True False ''d'' ''q'' 2 ''cuda:0'' example_world"
  have f: "w_ssd ?w = empty_ssd" "sm_dir_chunk (w_mgr ?w) = ''d''" "sm_num_layers (w_mgr ?w) = 2"
    "sm_error (w_mgr ?w) = None"
    by (simp_all add: configure_def example_world_def Let_def ensure_transfer_pool_def initial_manager_def
        clear_loader_error_def)
  have "\<exists>e. load_packed_meta ''d'' (Some 2) empty_ssd = Inl e"
    by (simp add: load_packed_meta_def read_json_def empty_ssd_def)
  then obtain e where e: "load_packed_meta ''d'' (Some 2) empty_ssd = Inl e" ..
  have "map th_prog (sy_threads missing_chunk_run) = [[]]"
    by (simp add: missing_chunk_run_def task_b_round_def start_task_b_def task_b_actions_def loader_thread_def
        Let_def thread_step_def f e go_def handler_def)
  then have st: "stopped quick_reader (\<lambda>_. 0) missing_chunk_run" by (intro ended_stopped) simp
  have "(sys_step quick_reader (\<lambda>_. 0))\<^sup>*\<^sup>* (task_b_round ?w [0, 1]) missing_chunk_run"
    unfolding missing_chunk_run_def by (rule run_schedule_reachable)
  from task_b_load_correct [OF example_paired _ this] st show ?thesis by simp
qed

text \<open>C22: the layer-wise prefetch of DO_BLEND. Whenever the wait for a layer returns, K and V of that
  layer are in the K/V pool, loaded now or kept from an earlier round, so the blend never reads an
  absent layer; a run takes at most \<open>4 * |layers| + 5\<close> steps, and after it no wait for a prefetched
  layer blocks.\<close>

theorem do_blend_prefetch_correct:
  assumes "paired w" "0 \<le> a" "(sys_step os junk)\<^sup>*\<^sup>* (do_blend_round w a n) s"
  shows "(\<forall>l. 0 \<le> l \<and> wait_layer_ready l (w_mgr (sy_world s)) = Some (Inr ()) \<longrightarrow>
      slots (k_buffer (w_hack (sy_world s))) l \<noteq> None \<and> slots (v_buffer (w_hack (sy_world s))) l \<noteq> None) \<and>
    ((sys_step os junk ^^ k) (do_blend_round w a n) s \<longrightarrow> k \<le> 4 * nat (n - a) + 5) \<and>
    (stopped os junk s \<longrightarrow>
      (\<forall>l. a \<le> l \<and> l < n \<and> l < int (length (sm_events (w_mgr w))) \<longrightarrow> wait_layer_ready l (w_mgr (sy_world s)) \<noteq> None))"
proof -
  note start = do_blend_round_start [OF assms(1,2), of n]
  have i: "safe BlendPhase {} s" "live (set (py_range a n)) False s"
    using loaders.reachable_inv [OF assms(3) conjI [OF start]] by simp_all
  have "l \<in> hack_set (sy_world s)" if "0 \<le> l" "wait_layer_ready l (w_mgr (sy_world s)) = Some (Inr ())" for l
    using wait_layer_ok [OF that(2,1)] i(1) by (auto simp: safe_def signals_ok_def)
  moreover have "k \<le> 4 * nat (n - a) + 5" if "(sys_step os junk ^^ k) (do_blend_round w a n) s"
    using loaders.run_bounded [OF that conjI [OF start]] by (simp add: round_weights)
  moreover have "wait_layer_ready l (w_mgr (sy_world s)) \<noteq> None"
    if "stopped os junk s" "a \<le> l" "l < n" "l < int (length (sm_events (w_mgr w)))" for l
  proof -
    have "grows (sy_world (do_blend_round w a n)) (sy_world s)" using reachable_grows [OF assms(3) start(1)] .
    then have "length (sm_events (w_mgr (sy_world s))) = length (sm_events (w_mgr w))"
      by (simp add: grows_def do_blend_round_def reset_layer_events_def clear_events_def)
    with stopped_done [OF that(1) i(2)] that assms(2) show ?thesis by (intro ready_no_wait) auto
  qed
  ultimately show ?thesis by (auto simp: hack_set_def)
qed

definition kept_layer_run :: "int sys" where
  "kept_layer_run = run_schedule quick_reader (\<lambda>_. 0) [0, 0]
     (do_blend_round (configure True False ''d'' ''q'' 1 ''cuda:0'' (example_world\<lparr>w_ssd := example_ssd\<rparr>)) 0 1)"

theorem do_blend_prefetch_correct_witness:
  "wait_layer_ready 0 (w_mgr (sy_world kept_layer_run)) = Some (Inr ()) \<and>
   slots (k_buffer (w_hack (sy_world kept_layer_run))) 0 \<noteq> None"
proof -
  let ?w = "configure True False ''d'' ''q'' 1 ''cuda:0'' (example_world\<lparr>w_ssd := example_ssd\<rparr>)"
  have f: "w_ssd ?w = example_ssd" "sm_dir_chunk (w_mgr ?w) = ''d''" "sm_num_layers (w_mgr ?w) = 1"
    "sm_error (w_mgr ?w) = None" "sm_events (w_mgr ?w) = [False]" "w_hack ?w = example_pool"
    by (simp_all add: configure_def example_world_def Let_def ensure_transfer_pool_def initial_manager_def
        clear_loader_error_def)
  have m: "load_packed_meta ''d'' (Some 1) example_ssd = Inr example_meta" by code_simp
  have h: "has_kv example_pool 0 = Inr True" by code_simp
  have r: "py_range 0 1 = [0]" by code_simp
  have s: "set_layer_ready 0 m = (case sm_events m of [] \<Rightarrow> Inl IndexError | e # es \<Rightarrow> Inr (m\<lparr>sm_events := True # es\<rparr>))" for m
    by (simp add: set_layer_ready_def py_set_def py_idx_def split: list.splits)
  have w: "wait_layer_ready 0 (w_mgr (sy_world kept_layer_run)) = Some (Inr ())"
    by (simp add: kept_layer_run_def do_blend_round_def start_do_blend_prefetch_def do_blend_actions_def loader_thread_def
        Let_def thread_step_def f m h r s reset_layer_events_def clear_events_def wait_layer_ready_def raise_loader_error_def)
  have "(sys_step quick_reader (\<lambda>_. 0))\<^sup>*\<^sup>* (do_blend_round ?w 0 1) kept_layer_run"
    unfolding kept_layer_run_def by (rule run_schedule_reachable)
  moreover have "paired ?w" using example_paired f(6) by (simp add: paired_def example_world_def)
  ultimately show ?thesis using do_blend_prefetch_correct [of ?w 0 quick_reader "\<lambda>_. 0" 1 kept_layer_run] w by simp
qed

section \<open>A round that waits forever\<close>

text \<open>A thread that will never set \<open>task_b_event\<close>.\<close>

fun touches_task_b :: "action \<Rightarrow> bool" where
  "touches_task_b SetTaskB = True"
| "touches_task_b (SpawnQuery d c) = True"
| "touches_task_b _ = False"

definition quiet :: "'s sys \<Rightarrow> bool" where
  "quiet s \<longleftrightarrow> \<not> sm_task_b (w_mgr (sy_world s)) \<and>
     (\<forall>t \<in> set (sy_threads s). \<not> th_release_b t \<and> (\<forall>a \<in> set (th_prog t). \<not> touches_task_b a))"

lemma with_slot_task_b: "with_slot key f m = Inr (x, m') \<Longrightarrow> sm_task_b m' = sm_task_b m"
  by (drule with_slot_signals) (simp add: same_signals_def)

lemma quiet_action:
  assumes "exec_action os junk a th w = Some (Inr (th', w', new))" "\<not> touches_task_b a"
  shows "sm_task_b (w_mgr w') = sm_task_b (w_mgr w)"
  using assms
  by (cases a)
    (auto simp: go_def go_res_def rbind_Inr_iff set_layers_ready_frame record_loader_error_def set_layer_ready_def
      dest!: with_slot_task_b check_query_signals split: if_splits option.splits)

lemma quiet_step:
  assumes "quiet s" "thread_step os junk i s = Some s'"
  shows "quiet s'"
  using assms(2)
proof (cases rule: thread_step_cases)
  case (ok a rest th' w' new)
  let ?th = "sy_threads s ! i"
  have th: "?th \<in> set (sy_threads s)" using ok(1) by simp
  with assms(1) ok(2) have a: "\<not> touches_task_b a" "\<not> th_release_b ?th" "\<forall>b \<in> set rest. \<not> touches_task_b b"
    by (auto simp: quiet_def)
  note e = exec_action_thread [OF ok(3)]
  have n: "new = []" using e a(1) by (cases a) auto
  have "\<not> th_release_b th' \<and> (\<forall>b \<in> set (th_prog th'). \<not> touches_task_b b)" using e a by auto
  with assms(1) quiet_action [OF ok(3) a(1)] ok(1,4) n set_update_app [OF ok(1), of th' "[]"] show ?thesis
    by (auto simp: quiet_def)
next
  case (fail a rest e)
  let ?th = "sy_threads s ! i"
  have "\<not> th_release_b ?th" using assms(1) fail(1) by (auto simp: quiet_def)
  then obtain t where t: "sy_threads s' = (sy_threads s)[i := t]" "\<not> th_release_b t" "\<forall>b \<in> set (th_prog t). \<not> touches_task_b b"
    using fail(4) by (auto simp: handler_def intro!: that)
  have "set ((sy_threads s)[i := t]) \<subseteq> insert t (set (sy_threads s))"
    using set_update_subset_insert [of "sy_threads s" i t] by simp
  with t assms(1) fail(4) show ?thesis by (auto simp: quiet_def)
qed

interpretation quiet_loaders: worker_system "sys_step os junk" quiet sys_weight for os junk
  by unfold_locales (auto simp: sys_step_iff dest: quiet_step intro: step_lighter)

lemma quiet_forever:
  assumes "(sys_step os junk)\<^sup>*\<^sup>* s0 s" "quiet s0"
  shows "wait_task_b (w_mgr (sy_world s)) = None"
  using quiet_loaders.reachable_inv [OF assms] by (simp add: quiet_def wait_task_b_def)

lemma do_blend_prefetch_quiet:
  assumes "\<not> sm_task_b (w_mgr w)"
  shows "quiet \<lparr>sy_world = w, sy_threads = [start_do_blend_prefetch a n]\<rparr>"
  using assms by (auto simp: quiet_def start_do_blend_prefetch_def loader_thread_def do_blend_actions_def)

end
