(* ===== verification/BatchPrepCorrect.thy ===== *)
theory BatchPrepCorrect
  imports BatchPrep LoaderCorrect
begin

text \<open>
  Correctness of the batch preparation: where the chunks and the query tokens of each request lie in
  the batch, that a DO_BLEND batch keeps exactly the layers a QCOMPUTE batch loads, and what happens
  when DO_BLEND comes first.
\<close>

section \<open>Chunk boundaries of a batch\<close>

lemma running_sums_shift: "running_sums (d + t) xs = map (\<lambda>x. d + x) (running_sums t xs)"
  by (induction xs arbitrary: t) (simp_all add: add.assoc)

lemma running_sums_loc_lens: "running_sums s (loc_lens (s # es)) = es"
  by (induction es arbitrary: s) (simp_all add: loc_lens_def)

lemma length_loc_lens [simp]: "length (loc_lens locs) = length locs - 1"
  by (simp add: loc_lens_def)

lemma sum_loc_lens: "s + sum_list (loc_lens (s # es)) = last (s # es)"
  by (induction es arbitrary: s) (auto simp: loc_lens_def)

text \<open>The first chunk and the first token of request \<open>r\<close>.\<close>

definition first_chunk :: "int list list \<Rightarrow> nat \<Rightarrow> nat" where
  "first_chunk locs r = sum_list (map (\<lambda>l. length l - 1) (take r locs))"

definition first_token :: "int list list \<Rightarrow> nat \<Rightarrow> int" where
  "first_token locs r = sum_list (map last (take r locs))"

definition locs_ok :: "int list list \<Rightarrow> bool" where
  "locs_ok locs \<longleftrightarrow> (\<forall>l \<in> set locs. l \<noteq> [] \<and> hd l = 0)"

lemma chunk_loc_nth:
  assumes "locs_ok locs" "r < length locs" "j < length (locs ! r)"
  shows "(off # running_sums off (batch_chunk_lens locs)) ! (first_chunk locs r + j) = off + first_token locs r + locs ! r ! j"
  using assms
proof (induction locs arbitrary: r off)
  case (Cons l ls)
  obtain es where l: "l = 0 # es" using Cons.prems(1) by (cases l) (auto simp: locs_ok_def)
  let ?rest = "batch_chunk_lens ls" and ?off = "off + last l"
  have "running_sums (off + 0) (loc_lens l) = map (\<lambda>x. off + x) es"
    by (simp only: running_sums_shift l running_sums_loc_lens)
  moreover have "off + sum_list (loc_lens l) = ?off" using sum_loc_lens [of 0 es] by (simp add: l)
  ultimately have app: "off # running_sums off (batch_chunk_lens (l # ls)) = map (\<lambda>x. off + x) l @ running_sums ?off ?rest"
    by (simp add: batch_chunk_lens_def running_sums_append) (simp add: l)
  show ?case
  proof (cases r)
    case 0
    then show ?thesis using Cons.prems(3) by (simp only: app) (simp add: first_chunk_def first_token_def nth_append)
  next
    case (Suc r')
    have "locs_ok ls" "r' < length ls" "j < length (ls ! r')" using Cons.prems Suc by (auto simp: locs_ok_def)
    from Cons.IH [OF this, of ?off]
    have ih: "(?off # running_sums ?off ?rest) ! (first_chunk ls r' + j) = ?off + first_token ls r' + ls ! r' ! j" .
    have fc: "first_chunk (l # ls) r = length es + first_chunk ls r'" "first_token (l # ls) r = last l + first_token ls r'"
      using Suc by (simp_all add: first_chunk_def first_token_def l)
    have "l \<noteq> []" by (simp add: l)
    then have "map (\<lambda>x. off + x) l = butlast (map (\<lambda>x. off + x) l) @ [?off]"
      using append_butlast_last_id [of "map (\<lambda>x. off + x) l"] by (simp only: last_map map_is_Nil_conv not_False_eq_True simp_thms)
    then have "off # running_sums off (batch_chunk_lens (l # ls)) = butlast (map (\<lambda>x. off + x) l) @ (?off # running_sums ?off ?rest)"
      by (metis app append.assoc append_Cons append_Nil)
    then have "(off # running_sums off (batch_chunk_lens (l # ls))) ! (length es + (first_chunk ls r' + j))
        = (?off # running_sums ?off ?rest) ! (first_chunk ls r' + j)"
      by (simp add: nth_append l)
    then show ?thesis using ih Suc fc by (simp add: add.assoc)
  qed
qed simp

lemma length_batch_chunk_lens: "length (batch_chunk_lens locs) = first_chunk locs (length locs)"
  by (induction locs) (simp_all add: batch_chunk_lens_def first_chunk_def)

lemma req_boundary:
  assumes "\<forall>l \<in> set locs. l \<noteq> []" "r \<le> length locs"
  shows "(0 # batch_req_len_list locs) ! r = int (first_chunk locs r)"
proof -
  have s: "sum_list (map (\<lambda>l. int (length l) - 1) ls) = int (sum_list (map (\<lambda>l. length l - 1) ls))"
    if "\<forall>l \<in> set ls. l \<noteq> []" for ls :: "int list list"
    using that by (induction ls) (auto simp: of_nat_diff Suc_leI)
  have "\<forall>l \<in> set (take r locs). l \<noteq> []" using assms(1) by (meson in_set_takeD)
  from s [OF this] show ?thesis
    using assms by (cases r) (simp_all add: batch_req_len_list_def nth_running_sums take_map first_chunk_def)
qed

section \<open>The parts of a prepared batch\<close>

lemma base_info_fields:
  assumes "base_info mc r locs dg = Inr info"
  shows "bi_style info = rq_style r" "bi_chunk_loc_list info = 0 # running_sums 0 (batch_chunk_lens locs)"
    "bi_req_len_list info = batch_req_len_list locs" "bi_is_contextblend info = rq_is_contextblend r"
    "bi_attn_end info = Some (if rq_attn_end r \<noteq> - 1 then rq_attn_end r else mc_num_layers mc)"
    "bi_critical_layers info = Some (critical_of r)" "context_cache_source r = Inr (bi_context_cache_source info)"
proof -
  obtain source where src: "context_cache_source r = Inr source"
    using assms by (auto simp: base_info_def rbind_Inr_iff)
  show "bi_style info = rq_style r" "bi_chunk_loc_list info = 0 # running_sums 0 (batch_chunk_lens locs)"
    "bi_req_len_list info = batch_req_len_list locs" "bi_is_contextblend info = rq_is_contextblend r"
    "bi_attn_end info = Some (if rq_attn_end r \<noteq> - 1 then rq_attn_end r else mc_num_layers mc)"
    "bi_critical_layers info = Some (critical_of r)" "context_cache_source r = Inr (bi_context_cache_source info)"
    using assms by (cases dg; simp add: base_info_def src Let_def; hypsubst; simp)+
qed

lemma base_info_attn_start:
  "base_info mc r locs dg = Inr info \<Longrightarrow> bi_attn_start info = Some (rq_attn_start r)"
  by (cases dg) (auto simp: base_info_def rbind_Inr_iff Let_def)

lemma query_setup_fields:
  assumes "query_setup info p = Inr (info', p')"
  shows "bi_chunk_loc_list info' = bi_chunk_loc_list info" "bi_req_len_list info' = bi_req_len_list info"
    "bi_context_cache_source info' = bi_context_cache_source info" "bi_attn_end info' = bi_attn_end info"
  using assms by (auto simp: query_setup_def rbind_Inr_iff Let_def)

lemma prepare_blend_base:
  assumes "prepare_blend mc dev reqs w = Inr (Some info, w', ths)"
  shows "\<exists>locs dg info0. forward_blend_locs reqs = Inr (locs, dg) \<and> base_info mc (hd reqs) locs dg = Inr info0 \<and>
    bi_chunk_loc_list info = bi_chunk_loc_list info0 \<and> bi_req_len_list info = bi_req_len_list info0"
proof -
  from assms obtain locs dg info0 where b: "forward_blend_locs reqs = Inr (locs, dg)" "base_info mc (hd reqs) locs dg = Inr info0"
    by (auto simp: prepare_blend_def rbind_Inr_iff Let_def split: if_splits)
  have "bi_chunk_loc_list info = bi_chunk_loc_list info0 \<and> bi_req_len_list info = bi_req_len_list info0"
    using assms b query_setup_fields(1,2) [of info0]
    by (auto simp: prepare_blend_def rbind_Inr_iff Let_def do_blend_info_def split: if_splits option.splits prod.splits)
  with b show ?thesis by blast
qed

lemma restore_query_metadata_hack: "restore_query_metadata d meth ratio w = Inr (meta, w') \<Longrightarrow> w_hack w' = w_hack w"
  by (auto simp: restore_query_metadata_def rbind_Inr_iff Let_def option.case_eq_if split: if_split_asm)

lemma qcompute_pipeline_hack: "qcompute_pipeline mc r info w = Inr (w', ths) \<Longrightarrow> w_hack w' = w_hack w"
  by (auto simp: qcompute_pipeline_def rbind_Inr_iff restore_query_metadata_hack split: if_splits)

lemma prepare_qcompute:
  assumes "prepare_blend mc dev reqs w = Inr (Some info, w', ths)" "rq_style (hd reqs) = Some QCOMPUTE"
  defines "w1 \<equiv> (if has_ssd_paths (hd reqs)
      then online_setup mc dev (hd reqs) (w\<lparr>w_ctx := ctx_init_buffers (mc_num_layers mc) (w_ctx w)\<rparr>) else w)"
  shows "\<exists>locs dg info0 p. forward_blend_locs reqs = Inr (locs, dg) \<and> base_info mc (hd reqs) locs dg = Inr info0 \<and>
    query_setup info0 (w_hack w1) = Inr (info, p) \<and>
    (if has_ssd_paths (hd reqs) then qcompute_pipeline mc (hd reqs) info (w1\<lparr>w_hack := p\<rparr>) else Inr (w1\<lparr>w_hack := p\<rparr>, [])) = Inr (w', ths)"
  using assms(1,2) by (auto simp: prepare_blend_def w1_def rbind_Inr_iff Let_def split: if_splits)

lemma prepare_do_blend:
  assumes "prepare_blend mc dev reqs w = Inr (Some info, w', ths)" "rq_style (hd reqs) \<in> {Some DO_BLEND, Some DO_BLEND_FINISH}"
  shows "\<exists>locs dg info0. forward_blend_locs reqs = Inr (locs, dg) \<and> base_info mc (hd reqs) locs dg = Inr info0 \<and>
    do_blend_info mc (hd reqs) info0 = Inr info \<and>
    (w', ths) = (if has_ssd_paths (hd reqs) then do_blend_pipeline mc dev (hd reqs) info w else (w, []))"
  using assms by (auto simp: prepare_blend_def rbind_Inr_iff Let_def split: if_splits prod.splits)

lemma first_chunk_Suc: "r < length locs \<Longrightarrow> first_chunk locs (Suc r) = first_chunk locs r + (length (locs ! r) - 1)"
  by (simp add: first_chunk_def take_Suc_conv_app_nth)

lemma first_chunk_mono: "r \<le> s \<Longrightarrow> s \<le> length locs \<Longrightarrow> first_chunk locs r \<le> first_chunk locs s"
proof (induction s)
  case (Suc s)
  then show ?case by (cases "r = Suc s") (auto simp: first_chunk_Suc)
qed simp

lemma py_get_chunk_loc:
  assumes "locs_ok locs" "r < length locs" "j < length (locs ! r)"
  shows "py_get (0 # running_sums 0 (batch_chunk_lens locs)) (int (first_chunk locs r) + int j) = Inr (first_token locs r + locs ! r ! j)"
proof -
  have "first_chunk locs (Suc r) \<le> first_chunk locs (length locs)" using assms(2) by (intro first_chunk_mono) simp_all
  then have "first_chunk locs r + j < length (0 # running_sums 0 (batch_chunk_lens locs))"
    using first_chunk_Suc [OF assms(2)] assms(3) by (simp add: length_batch_chunk_lens)
  from py_get_nat [OF this] chunk_loc_nth [OF assms, of 0] show ?thesis by simp
qed

lemma request_starts:
  assumes "\<forall>l \<in> set locs. l \<noteq> []"
  shows "butlast (0 # batch_req_len_list locs) = map (\<lambda>r. int (first_chunk locs r)) [0..<length locs]"
proof (rule nth_equalityI)
  show l: "length (butlast (0 # batch_req_len_list locs)) = length (map (\<lambda>r. int (first_chunk locs r)) [0..<length locs])"
    by (simp add: batch_req_len_list_def)
  fix r assume "r < length (butlast (0 # batch_req_len_list locs))"
  with l have r: "r < length locs" by simp
  have "butlast (0 # batch_req_len_list locs) ! r = (0 # batch_req_len_list locs) ! r"
    using r by (intro nth_butlast) (auto simp: batch_req_len_list_def)
  then show "butlast (0 # batch_req_len_list locs) ! r = map (\<lambda>r. int (first_chunk locs r)) [0..<length locs] ! r"
    using req_boundary [OF assms, of r] r by simp
qed

text \<open>The boundary lookups of a batch: boundary \<open>j\<close> of every request.\<close>

lemma boundaries_of_requests:
  assumes "locs_ok locs" "\<forall>l \<in> set locs. j < length l"
  shows "rmap (py_get (0 # running_sums 0 (batch_chunk_lens locs))) (map (\<lambda>r. int (first_chunk locs r) + int j) [0..<length locs])
    = Inr (map (\<lambda>r. first_token locs r + locs ! r ! j) [0..<length locs])"
proof -
  have "rmap (\<lambda>r. py_get (0 # running_sums 0 (batch_chunk_lens locs)) (int (first_chunk locs r) + int j)) [0..<length locs]
      = Inr (map (\<lambda>r. first_token locs r + locs ! r ! j) [0..<length locs])"
    using assms by (intro rmap_all_Inr py_get_chunk_loc) auto
  moreover have "rmap f (map g xs) = rmap (\<lambda>x. f (g x)) xs" for f :: "int \<Rightarrow> int res" and g :: "nat \<Rightarrow> int" and xs
    by (induction xs) simp_all
  ultimately show ?thesis by simp
qed

lemma query_setup_batch:
  assumes "query_setup info0 p0 = Inr (info, p)" "bi_chunk_loc_list info0 = 0 # running_sums 0 (batch_chunk_lens locs)"
    and "bi_req_len_list info0 = batch_req_len_list locs" "locs_ok locs" "\<forall>l \<in> set locs. 3 \<le> length l \<and> sorted l" "locs \<noteq> []"
  shows "q_lens p = map (\<lambda>l. l ! 2 - l ! 1) locs \<and> q_offsets p = map (\<lambda>l. l ! 1) locs \<and> query_k_lens p = map (\<lambda>l. l ! 2) locs \<and>
    bi_quest_indices info = Some (concat (map (\<lambda>r. py_range (first_token locs r + locs ! r ! 1) (first_token locs r + locs ! r ! 2)) [0..<length locs])) \<and>
    bi_query_indices info = Some (concat (map (\<lambda>r. py_range (first_token locs r) (first_token locs r + locs ! r ! 2)) [0..<length locs]))"
proof -
  let ?n = "length locs" and ?cl = "0 # running_sums 0 (batch_chunk_lens locs)"
  have ne: "\<forall>l \<in> set locs. l \<noteq> []" and z: "\<forall>l \<in> set locs. hd l = 0" using assms(4) by (auto simp: locs_ok_def)
  have len: "\<forall>l \<in> set locs. 0 < length l" "\<forall>l \<in> set locs. 1 < length l" "\<forall>l \<in> set locs. 2 < length l"
    using assms(5) by auto
  have b0: "rmap (py_get ?cl) (map (\<lambda>r. int (first_chunk locs r)) [0..<?n]) = Inr (map (\<lambda>r. first_token locs r) [0..<?n])"
    using boundaries_of_requests [OF assms(4) len(1)] z ne by (simp add: hd_conv_nth cong: map_cong)
  have b1: "rmap (py_get ?cl) (map (\<lambda>r. int (first_chunk locs r) + 1) [0..<?n]) = Inr (map (\<lambda>r. first_token locs r + locs ! r ! 1) [0..<?n])"
    using boundaries_of_requests [OF assms(4) len(2)] by simp
  have b2: "rmap (py_get ?cl) (map (\<lambda>r. int (first_chunk locs r) + 2) [0..<?n]) = Inr (map (\<lambda>r. first_token locs r + locs ! r ! 2) [0..<?n])"
    using boundaries_of_requests [OF assms(4) len(3)] by simp
  have lens: "map2 (-) (map (\<lambda>r. first_token locs r + locs ! r ! 2) [0..<?n]) (map (\<lambda>r. first_token locs r + locs ! r ! 1) [0..<?n])
      = map (\<lambda>r. locs ! r ! 2 - locs ! r ! 1) [0..<?n]"
    "map2 (-) (map (\<lambda>r. first_token locs r + locs ! r ! 1) [0..<?n]) (map (\<lambda>r. first_token locs r) [0..<?n]) = map (\<lambda>r. locs ! r ! 1) [0..<?n]"
    "map2 (+) (map (\<lambda>r. locs ! r ! 1) [0..<?n]) (map (\<lambda>r. locs ! r ! 2 - locs ! r ! 1) [0..<?n]) = map (\<lambda>r. locs ! r ! 2) [0..<?n]"
    by (simp_all add: map2_map_map)
  have srt: "0 \<le> l ! 1 \<and> l ! 1 \<le> l ! 2" if "l \<in> set locs" for l
  proof -
    have s: "sorted l" "3 \<le> length l" "hd l = 0" using that assms(5) z by auto
    then have "l ! 0 \<le> l ! 1" "l ! 1 \<le> l ! 2" by (auto intro: sorted_nth_mono)
    then show ?thesis using s by (cases l) auto
  qed
  have mx: "\<not> Max (f ` {0..<?n}) < 0" if "\<And>r. r < ?n \<Longrightarrow> 0 \<le> f r" for f :: "nat \<Rightarrow> int"
  proof -
    have "f 0 \<le> Max (f ` {0..<?n})" using assms(6) by (intro Max_ge) auto
    moreover have "0 \<le> f 0" using assms(6) that by simp
    ultimately show ?thesis by simp
  qed
  have r1: "ragged_indices (map (\<lambda>r. first_token locs r + locs ! r ! 1) [0..<?n]) (map (\<lambda>r. locs ! r ! 2 - locs ! r ! 1) [0..<?n])
      = Inr (Some (concat (map (\<lambda>r. py_range (first_token locs r + locs ! r ! 1) (first_token locs r + locs ! r ! 2)) [0..<?n])))"
    using assms(6) mx [of "\<lambda>r. locs ! r ! 2 - locs ! r ! 1"] srt by (simp add: ragged_indices_def zip_map_map comp_def zip_same_conv_map)
  have le2: "\<And>r. r < ?n \<Longrightarrow> 0 \<le> locs ! r ! 2" using srt nth_mem by (meson order_trans)
  have r2: "ragged_indices (map (\<lambda>r. first_token locs r) [0..<?n]) (map (\<lambda>r. locs ! r ! 2) [0..<?n])
      = Inr (Some (concat (map (\<lambda>r. py_range (first_token locs r) (first_token locs r + locs ! r ! 2)) [0..<?n])))"
    using assms(6) mx [of "\<lambda>r. locs ! r ! 2"] le2 by (simp add: ragged_indices_def zip_map_map comp_def zip_same_conv_map)
  have nth: "map (\<lambda>r. f (locs ! r)) [0..<?n] = map f locs" for f :: "int list \<Rightarrow> int" by (rule nth_equalityI) simp_all
  have two: "x + 1 + 1 = x + (2::int)" for x by simp
  have "Inr (info0\<lparr>bi_quest_indices := Some (concat (map (\<lambda>r. py_range (first_token locs r + locs ! r ! 1) (first_token locs r + locs ! r ! 2)) [0..<?n])),
        bi_query_indices := Some (concat (map (\<lambda>r. py_range (first_token locs r) (first_token locs r + locs ! r ! 2)) [0..<?n]))\<rparr>,
      p0\<lparr>q_lens := map (\<lambda>r. locs ! r ! 2 - locs ! r ! 1) [0..<?n], q_offsets := map (\<lambda>r. locs ! r ! 1) [0..<?n],
        query_k_lens := map (\<lambda>r. locs ! r ! 2) [0..<?n]\<rparr>) = (Inr (info, p) :: (blend_info \<times> kv_pool) res)"
    using assms(1)
    unfolding query_setup_def Let_def assms(2,3) request_starts [OF ne] map_map comp_def two b0 b1 b2 rbind_simps lens r1 r2 .
  then show ?thesis by (auto simp: nth [of "\<lambda>l. l ! 2 - l ! 1", simplified] nth [of "\<lambda>l. l ! 1", simplified] nth [of "\<lambda>l. l ! 2"])
qed

section \<open>Properties\<close>

text \<open>C16: where the tokens of a QCOMPUTE batch lie. Boundary \<open>j\<close> of request \<open>r\<close> is its own boundary
  shifted by the tokens of the requests before it; the query chunk of every request gives the rows
  whose queries are collected, request after request, the system and query chunks the rows whose keys
  are collected, and the lengths stored in the pool are the lengths of these pieces.\<close>

theorem qcompute_batch_locates_queries:
  assumes "prepare_blend mc dev reqs w = Inr (Some info, w', ths)" "rq_style (hd reqs) = Some QCOMPUTE"
    and "locs = map rq_blend_locs reqs" "locs \<noteq> []" "\<forall>l \<in> set locs. 3 \<le> length l \<and> sorted l \<and> hd l = 0"
  shows "(\<forall>r j. r < length locs \<and> j < length (locs ! r) \<longrightarrow>
      bi_chunk_loc_list info ! (first_chunk locs r + j) = first_token locs r + locs ! r ! j) \<and>
    bi_quest_indices info = Some (concat (map (\<lambda>r. py_range (first_token locs r + locs ! r ! 1) (first_token locs r + locs ! r ! 2)) [0..<length locs])) \<and>
    bi_query_indices info = Some (concat (map (\<lambda>r. py_range (first_token locs r) (first_token locs r + locs ! r ! 2)) [0..<length locs])) \<and>
    q_lens (w_hack w') = map (\<lambda>l. l ! 2 - l ! 1) locs \<and> q_offsets (w_hack w') = map (\<lambda>l. l ! 1) locs \<and>
    query_k_lens (w_hack w') = map (\<lambda>l. l ! 2) locs"
proof -
  have ok: "locs_ok locs" using assms(5) by (auto simp: locs_ok_def)
  have q3: "\<forall>l \<in> set locs. 3 \<le> length l \<and> sorted l" using assms(5) by blast
  obtain locs' dg info0 p w1 where fl: "forward_blend_locs reqs = Inr (locs', dg)"
    and b: "base_info mc (hd reqs) locs' dg = Inr info0"
    and q: "query_setup info0 (w_hack w1) = Inr (info, p)"
    and pl: "(if has_ssd_paths (hd reqs) then qcompute_pipeline mc (hd reqs) info (w1\<lparr>w_hack := p\<rparr>)
       else Inr (w1\<lparr>w_hack := p\<rparr>, [])) = Inr (w', ths)"
    using prepare_qcompute [OF assms(1,2)] by blast
  have l: "locs' = locs" using fl assms(2,3) by (simp add: forward_blend_locs_def is_query_offline_def)
  note f = base_info_fields [OF b, unfolded l] and s = query_setup_batch [OF q f(2)[unfolded l] f(3)[unfolded l] ok q3 assms(4)]
  have "w_hack w' = p" using pl by (auto dest: qcompute_pipeline_hack split: if_splits)
  moreover have "bi_chunk_loc_list info ! (first_chunk locs r + j) = first_token locs r + locs ! r ! j"
    if "r < length locs" "j < length (locs ! r)" for r j
    using chunk_loc_nth [OF ok that, of 0] query_setup_fields(1) [OF q] f(2) by simp
  ultimately show ?thesis using s by blast
qed

definition example_mc :: model_config where
  "example_mc = \<lparr>mc_num_heads = 1, mc_head_dim = Some 1, mc_hidden_size = 1, mc_num_kv_heads = 1, mc_num_layers = 3\<rparr>"

definition example_req :: "blend_style \<Rightarrow> int list \<Rightarrow> blend_req" where
  "example_req st locs = \<lparr>rq_style = Some st, rq_blend_locs = locs, rq_origin_len = last locs, rq_attn_start = 0, rq_attn_end = - 1,
     rq_start = 0, rq_ratio = 1 / 2, rq_method = Some ''attn'', rq_is_contextblend = False, rq_cache_source = None, rq_n_sink = None,
     rq_digest_ratio = Some 1, rq_digest_method = None, rq_critical_layers = Some [1], rq_path_chunk = Some ''c'', rq_path_query = None\<rparr>"

theorem qcompute_batch_locates_queries_witness:
  "\<exists>info w' ths. prepare_blend example_mc ''cuda:0'' [example_req QCOMPUTE [0, 2, 5], example_req QCOMPUTE [0, 1, 3]] example_world
      = Inr (Some info, w', ths) \<and> bi_quest_indices info = Some [2, 3, 4, 6, 7] \<and> q_lens (w_hack w') = [3, 2]"
proof -
  let ?reqs = "[example_req QCOMPUTE [0, 2, 5], example_req QCOMPUTE [0, 1, 3]]"
  let ?w1 = "online_setup example_mc ''cuda:0'' (hd ?reqs) (example_world\<lparr>w_ctx := ctx_init_buffers 3 (w_ctx example_world)\<rparr>)"
  obtain info0 where b: "base_info example_mc (hd ?reqs) [[0, 2, 5], [0, 1, 3]] None = Inr info0"
    by (simp add: base_info_def context_cache_source_def example_req_def Let_def)
  have cl: "batch_chunk_lens [[0, 2, 5], [0, 1, 3]] = [2, 3, 1, 2]" "batch_req_len_list [[0, 2, 5], [0, 1, 3]] = [2, 4]"
    by (simp_all add: batch_chunk_lens_def loc_lens_def batch_req_len_list_def)
  note f = base_info_fields [OF b, unfolded cl]
  have "py_get [0, 2, 5, 6, 8 :: int] 0 = Inr 0" "py_get [0, 2, 5, 6, 8 :: int] 2 = Inr 5" "py_get [0, 2, 5, 6, 8 :: int] 1 = Inr 2"
    "py_get [0, 2, 5, 6, 8 :: int] 3 = Inr 6" "py_get [0, 2, 5, 6, 8 :: int] 4 = Inr 8" by code_simp+
  then obtain info p where q: "query_setup info0 (w_hack ?w1) = Inr (info, p)"
    by (auto simp: query_setup_def f ragged_indices_def)
  have "forward_blend_locs ?reqs = Inr ([[0, 2, 5], [0, 1, 3]], None)"
    by (simp add: forward_blend_locs_def is_query_offline_def example_req_def)
  then obtain w' ths where p: "prepare_blend example_mc ''cuda:0'' ?reqs example_world = Inr (Some info, w', ths)"
    using b q by (auto simp: prepare_blend_def Let_def example_req_def has_ssd_paths_def qcompute_pipeline_def example_mc_def)
  have "py_range 2 5 = [2, 3, 4]" "py_range 6 8 = [6, 7]" by code_simp+
  with qcompute_batch_locates_queries [OF p _ refl] p show ?thesis
    by (simp add: example_req_def first_token_def)
qed


lemma ensure_pool_task_b: "sm_task_b (ensure_transfer_pool key dev m) = sm_task_b m"
  by (simp add: ensure_transfer_pool_def split: option.split)

text \<open>C34: when DO_BLEND is the first blend request of a process (no QCOMPUTE has configured the online
  pipeline), preparing the batch starts only the prefetch of the later layers; whatever the started
  threads do, the wait of the token selection for the chunk loader never returns.\<close>

theorem first_do_blend_waits_forever:
  assumes "prepare_blend mc dev reqs w = Inr (Some info, w', ths)" "rq_style (hd reqs) \<in> {Some DO_BLEND, Some DO_BLEND_FINISH}"
    and "has_ssd_paths (hd reqs)" "\<not> sm_online (w_mgr w)" "(sys_step os junk)\<^sup>*\<^sup>* \<lparr>sy_world = w', sy_threads = ths\<rparr> s"
  shows "wait_task_b (w_mgr (sy_world s)) = None"
proof -
  from prepare_do_blend [OF assms(1,2)] assms(3) have p: "(w', ths) = do_blend_pipeline mc dev (hd reqs) info w" by auto
  have "\<not> sm_task_b (w_mgr w')"
    using p assms(4) by (auto simp: do_blend_pipeline_def Let_def online_setup_def configure_def reset_layer_events_def
      clear_events_def clear_loader_error_def ensure_pool_task_b)
  moreover have "\<exists>a n. ths = [start_do_blend_prefetch a n]" using p by (auto simp: do_blend_pipeline_def Let_def)
  ultimately show ?thesis using quiet_forever [OF assms(5)] do_blend_prefetch_quiet by blast
qed

theorem first_do_blend_waits_forever_witness:
  "\<exists>info w' ths. prepare_blend example_mc ''cuda:0'' [example_req DO_BLEND [0, 2, 5]] example_world = Inr (Some info, w', ths) \<and>
     wait_task_b (w_mgr (sy_world \<lparr>sy_world = w', sy_threads = ths\<rparr>)) = None"
proof -
  let ?reqs = "[example_req DO_BLEND [0, 2, 5]]"
  have "forward_blend_locs ?reqs = Inr ([[0, 2, 5]], None)"
    by (simp add: forward_blend_locs_def is_query_offline_def example_req_def)
  moreover obtain info0 where "base_info example_mc (hd ?reqs) [[0, 2, 5]] None = Inr info0"
    by (simp add: base_info_def context_cache_source_def example_req_def Let_def)
  ultimately obtain info w' ths where p: "prepare_blend example_mc ''cuda:0'' ?reqs example_world = Inr (Some info, w', ths)"
    by (auto simp: prepare_blend_def Let_def example_req_def has_ssd_paths_def do_blend_info_def parse_select_mode_def do_blend_pipeline_def)
  have o: "\<not> sm_online (w_mgr example_world)" by (simp add: example_world_def initial_manager_def)
  show ?thesis
    using p first_do_blend_waits_forever [OF p _ _ o rtranclp.rtrancl_refl] by (auto simp: example_req_def has_ssd_paths_def)
qed

text \<open>The two places of the code that derive the selection layers, from the batch record and from the
  loader's own arguments, written down once as a set.\<close>

definition selection_layers :: "model_config \<Rightarrow> blend_req \<Rightarrow> int set" where
  "selection_layers mc r =
     (if critical_of r \<noteq> [] then set (critical_of r)
      else if rq_attn_start r = 0 \<and> rq_attn_end r \<in> {- 1, mc_num_layers mc} then {0..<mc_num_layers mc}
      else {rq_attn_start r})"

lemma keep_layers_set_of_request:
  assumes "base_info mc r locs dg = Inr info0" "do_blend_info mc r info0 = Inr info"
  shows "\<exists>K. bi_keep_layers_set info = Some K \<and> set K = selection_layers mc r"
proof -
  note f = base_info_fields(5,6) [OF assms(1)] base_info_attn_start [OF assms(1)]
  show ?thesis
    using assms(2) by (auto simp: do_blend_info_def rbind_Inr_iff Let_def keep_layers_set_def f selection_layers_def
        split: option.splits select_mode.splits)
qed

lemma selection_chunk_layers_of_request:
  assumes "bi_attn_end info = Some (if rq_attn_end r \<noteq> - 1 then rq_attn_end r else mc_num_layers mc)"
  shows "set (selection_chunk_layers (critical_of r) (rq_attn_start r) (the (bi_attn_end info)) (mc_num_layers mc)) =
    selection_layers mc r"
  using assms by (auto simp: selection_chunk_layers_def selection_layers_def)

text \<open>C26: the QCOMPUTE and the DO_BLEND batches of a sample agree on the selection layers, which the
  code derives in two places. Whatever layers the loader of the QCOMPUTE batch puts into the pool,
  before it raises the event the selection waits for, are exactly the layers a later DO_BLEND batch
  keeps when it clears the pool between rounds: the critical layers of the request, without any all
  layers when the attention range is the whole model, and otherwise the first layer of the range. The
  QCOMPUTE batch starts no loader exactly when there are no such layers.\<close>

theorem do_blend_keeps_what_qcompute_loaded:
  assumes "prepare_blend mc dev reqs w = Inr (Some info, w1, ths)" "rq_style (hd reqs) = Some QCOMPUTE" "has_ssd_paths (hd reqs)"
    and "prepare_blend mc dev' reqs' w' = Inr (Some info', w1', ths')" "rq_style (hd reqs') \<in> {Some DO_BLEND, Some DO_BLEND_FINISH}"
    and "critical_of (hd reqs') = critical_of (hd reqs)" "rq_attn_start (hd reqs') = rq_attn_start (hd reqs)"
    and "rq_attn_end (hd reqs') = rq_attn_end (hd reqs)"
  shows "\<exists>K L. bi_keep_layers_set info' = Some K \<and> set K = set L \<and>
    set L = (if critical_of (hd reqs) \<noteq> [] then set (critical_of (hd reqs))
       else if rq_attn_start (hd reqs) = 0 \<and> rq_attn_end (hd reqs) \<in> {- 1, mc_num_layers mc} then {0..<mc_num_layers mc}
       else {rq_attn_start (hd reqs)}) \<and>
    ((ths = [] \<and> L = []) \<or> (ths = [start_task_b L] \<and> L \<noteq> []) \<or>
     (rq_is_contextblend (hd reqs) \<and> L \<noteq> [] \<and> (\<exists>n meta. ths = [start_query_cache n (Some L) (Some meta)])))"
proof -
  let ?r = "hd reqs"
  obtain locs' dg' info0' where b': "base_info mc (hd reqs') locs' dg' = Inr info0'" "do_blend_info mc (hd reqs') info0' = Inr info'"
    using prepare_do_blend [OF assms(4,5)] by blast
  have sel: "selection_layers mc (hd reqs') = selection_layers mc ?r" unfolding selection_layers_def assms(6-8) ..
  obtain K where k: "bi_keep_layers_set info' = Some K" "set K = selection_layers mc ?r"
    using keep_layers_set_of_request [OF b'] sel by auto
  obtain locs dg info0 p wq pq where b: "base_info mc ?r locs dg = Inr info0"
    and q: "query_setup info0 wq = Inr (info, pq)" and pl: "qcompute_pipeline mc ?r info p = Inr (w1, ths)"
    using prepare_qcompute [OF assms(1,2)] assms(3) by auto
  have e: "bi_attn_end info = Some (if rq_attn_end ?r \<noteq> - 1 then rq_attn_end ?r else mc_num_layers mc)"
    using query_setup_fields(4) [OF q] base_info_fields(5) [OF b] by simp
  define L where "L = selection_chunk_layers (critical_of ?r) (rq_attn_start ?r) (the (bi_attn_end info)) (mc_num_layers mc)"
  have l: "set L = selection_layers mc ?r" unfolding L_def by (rule selection_chunk_layers_of_request [OF e])
  have "selection_chunk_loader mc ?r info = (if L = [] then [] else [start_task_b L])"
    by (simp add: selection_chunk_loader_def Let_def L_def)
  moreover have "critical_of ?r \<noteq> [] \<Longrightarrow> L = critical_of ?r" by (simp add: L_def selection_chunk_layers_def)
  ultimately have "(ths = [] \<and> L = []) \<or> (ths = [start_task_b L] \<and> L \<noteq> []) \<or>
     (rq_is_contextblend ?r \<and> L \<noteq> [] \<and> (\<exists>n meta. ths = [start_query_cache n (Some L) (Some meta)]))"
    using pl by (auto simp: qcompute_pipeline_def rbind_Inr_iff split: if_splits)
  with k l show ?thesis unfolding selection_layers_def by blast
qed

theorem do_blend_keeps_what_qcompute_loaded_witness:
  "\<exists>info w1 ths info' w1' ths' K L.
     prepare_blend example_mc ''cuda:0'' [example_req QCOMPUTE [0, 2, 5]] example_world = Inr (Some info, w1, ths) \<and>
     prepare_blend example_mc ''cuda:0'' [example_req DO_BLEND [0, 2, 5]] w1 = Inr (Some info', w1', ths') \<and>
     bi_keep_layers_set info' = Some K \<and> set K = {1} \<and> ths = [start_task_b L] \<and> set L = {1}"
proof -
  let ?q = "[example_req QCOMPUTE [0, 2, 5]]" and ?d = "[example_req DO_BLEND [0, 2, 5]]"
  have fl: "forward_blend_locs ?q = Inr ([[0, 2, 5]], None)" "forward_blend_locs ?d = Inr ([[0, 2, 5]], None)"
    by (simp_all add: forward_blend_locs_def is_query_offline_def example_req_def)
  obtain i where b: "base_info example_mc (hd ?q) [[0, 2, 5]] None = Inr i"
    by (simp add: base_info_def context_cache_source_def example_req_def Let_def)
  obtain j where c: "base_info example_mc (hd ?d) [[0, 2, 5]] None = Inr j"
    by (simp add: base_info_def context_cache_source_def example_req_def Let_def)
  have cl: "batch_chunk_lens [[0, 2, 5]] = [2, 3]" "batch_req_len_list [[0, 2, 5]] = [2]"
    by (simp_all add: batch_chunk_lens_def loc_lens_def batch_req_len_list_def)
  note f = base_info_fields [OF b, unfolded cl]
  have "py_get [0, 2, 5 :: int] 0 = Inr 0" "py_get [0, 2, 5 :: int] 1 = Inr 2" "py_get [0, 2, 5 :: int] 2 = Inr 5" by code_simp+
  then have "\<exists>info p. query_setup i p0 = Inr (info, p)" for p0 by (auto simp: query_setup_def f ragged_indices_def)
  then obtain info p where qs: "query_setup i (w_hack (online_setup example_mc ''cuda:0'' (hd ?q)
      (example_world\<lparr>w_ctx := ctx_init_buffers 3 (w_ctx example_world)\<rparr>))) = Inr (info, p)" by blast
  from fl(1) b qs obtain w1 ths where p1: "prepare_blend example_mc ''cuda:0'' ?q example_world = Inr (Some info, w1, ths)"
    by (auto simp: prepare_blend_def Let_def example_req_def has_ssd_paths_def qcompute_pipeline_def example_mc_def)
  from fl(2) c obtain info' w1' ths' where p2: "prepare_blend example_mc ''cuda:0'' ?d w1 = Inr (Some info', w1', ths')"
    by (auto simp: prepare_blend_def Let_def example_req_def has_ssd_paths_def do_blend_info_def parse_select_mode_def do_blend_pipeline_def)
  have r: "rq_style (hd ?q) = Some QCOMPUTE" "has_ssd_paths (hd ?q)" "rq_style (hd ?d) \<in> {Some DO_BLEND, Some DO_BLEND_FINISH}"
    "critical_of (hd ?d) = critical_of (hd ?q)" "rq_attn_start (hd ?d) = rq_attn_start (hd ?q)"
    "rq_attn_end (hd ?d) = rq_attn_end (hd ?q)" "critical_of (hd ?q) = [1]" "rq_is_contextblend (hd ?q) = False"
    by (auto simp: example_req_def has_ssd_paths_def critical_of_def example_mc_def)
  from do_blend_keeps_what_qcompute_loaded [OF p1 r(1,2) p2 r(3-6), unfolded r(7)]
  obtain K L where kl: "bi_keep_layers_set info' = Some K" "set K = set L" "set L = {1}"
    "(ths = [] \<and> L = []) \<or> (ths = [start_task_b L] \<and> L \<noteq> []) \<or>
     (rq_is_contextblend (hd ?q) \<and> L \<noteq> [] \<and> (\<exists>n meta. ths = [start_query_cache n (Some L) (Some meta)]))"
    by auto
  have "ths = [start_task_b L]" using kl r(8) by auto
  with p1 p2 kl show ?thesis by auto
qed

end
