(* ===== verification/Selector.thy ===== *)
theory Selector
  imports BlendInfo KVPool
begin

text \<open>
  \<open>srt/utils/indice_select.py\<close>: which tokens of a prompt DO_BLEND recomputes. The query chunk is
  always recomputed; in ATTN mode also the tokens of the retrieved chunks with the highest attention
  importance, up to a budget. The importance kernel and \<open>torch.topk\<close> are parameters
  (\<open>sel_env\<close>); what the selection needs of top-k is the locale \<open>top_k\<close>, which a sorting
  reference provides. Stacked tensors are lists of their layers; layers of different dtype, which
  \<open>torch.stack\<close> would promote, raise here.
\<close>

section \<open>Requests\<close>

record req_region =
  rr_req_start :: int
  rr_quest_start :: int
  rr_quest_end :: int
  rr_rag_start :: int
  rr_rag_len :: int

definition compute_request_boundaries :: "blend_info \<Rightarrow> nat \<times> int list" where
  "compute_request_boundaries info =
     (length (bi_req_len_list info), 0 # running_sums 0 (bi_req_len_list info))"

definition get_request_region :: "int list \<Rightarrow> int list \<Rightarrow> nat \<Rightarrow> req_region res" where
  "get_request_region chunk_loc req_boundaries req_idx =
     rbind (py_get req_boundaries (int req_idx)) (\<lambda>prefix_idx.
     rbind (py_get req_boundaries (int req_idx + 1)) (\<lambda>req_end_chunk.
     let quest_idx = req_end_chunk - 1
     in rbind (py_get chunk_loc prefix_idx) (\<lambda>req_start.
        rbind (py_get chunk_loc quest_idx) (\<lambda>quest_start.
        rbind (py_get chunk_loc (quest_idx + 1)) (\<lambda>quest_end.
        if quest_idx > prefix_idx + 1 then
          rbind (py_get chunk_loc (prefix_idx + 1)) (\<lambda>rag_start.
          Inr \<lparr>rr_req_start = req_start, rr_quest_start = quest_start, rr_quest_end = quest_end,
               rr_rag_start = rag_start, rr_rag_len = quest_start - rag_start\<rparr>)
        else
          Inr \<lparr>rr_req_start = req_start, rr_quest_start = quest_start, rr_quest_end = quest_end,
               rr_rag_start = quest_start, rr_rag_len = 0\<rparr>)))))"

text \<open>\<open>torch.arange\<close> and \<open>torch.cat\<close>; the latter rejects an empty list.\<close>

definition arange :: "int \<Rightarrow> int \<Rightarrow> int list res" where
  "arange a b = (if b < a then Inl (RuntimeError ''arange'') else Inr (py_range a b))"

definition build_final_output :: "int list list \<Rightarrow> int list \<Rightarrow> (int list \<times> int list) res" where
  "build_final_output final_indices_list req_lens_list =
     (if final_indices_list = [] then Inl (RuntimeError ''cat'') else Inr (concat final_indices_list, req_lens_list))"

definition compute_budget :: "int \<Rightarrow> f64 \<Rightarrow> int" where
  "compute_budget n ratio = (if ratio \<le> 0 then 0 else min n (max 1 \<lfloor>f64_mul_int n ratio\<rfloor>))"

section \<open>Query only\<close>

definition compute_query_only :: "blend_info \<Rightarrow> (int list \<times> int list) res" where
  "compute_query_only info =
     (let (num_reqs, req_boundaries) = compute_request_boundaries info
      in rbind (rmap (\<lambda>req_idx.
             rbind (get_request_region (bi_chunk_loc_list info) req_boundaries req_idx) (\<lambda>r.
             arange (rr_quest_start r) (rr_quest_end r))) [0..<num_reqs]) (\<lambda>final_indices_list.
         build_final_output final_indices_list (map (\<lambda>xs. int (length xs)) final_indices_list)))"

section \<open>Tensors of layers\<close>

text \<open>Rows \<open>a:b\<close> of a tensor, and \<open>reshape(n, heads, dim)\<close> of one layer.\<close>

definition slice0 :: "tensor \<Rightarrow> int \<Rightarrow> int \<Rightarrow> tensor" where
  "slice0 t a b =
     (let n = nat (hd (t_shape t)); i = py_bound n a; j = py_bound n b
      in t\<lparr>t_shape := int (j - i) # tl (t_shape t),
           t_data := take ((j - i) * row_nbytes t) (drop (i * row_nbytes t) (t_data t))\<rparr>)"

definition reshape_heads :: "int \<Rightarrow> int \<Rightarrow> int \<Rightarrow> tensor \<Rightarrow> tensor res" where
  "reshape_heads n num_heads head_dim t =
     (if n < 0 \<or> t_numel t \<noteq> n * num_heads * head_dim then Inl (RuntimeError ''reshape'')
      else Inr (t\<lparr>t_shape := [n, num_heads, head_dim]\<rparr>))"

definition stack0 :: "tensor option list \<Rightarrow> tensor list res" where
  "stack0 ts =
     (if ts = [] then Inl (RuntimeError ''stack'')
      else
        rbind (rmap (\<lambda>t. case t of None \<Rightarrow> Inl TypeError | Some x \<Rightarrow> Inr x) ts) (\<lambda>xs.
        if \<exists>x \<in> set xs. t_shape x \<noteq> t_shape (hd xs) \<or> t_dtype x \<noteq> t_dtype (hd xs)
        then Inl (RuntimeError ''stack'') else Inr xs))"

text \<open>The rotary embedding: from positions, a query and a key, the rotated query and key, and what
  is then in the memory of the key that was passed (the CUDA kernel works in place).\<close>

type_synonym rotary = "int list \<Rightarrow> tensor \<Rightarrow> tensor \<Rightarrow> (tensor \<times> tensor \<times> tensor) res"

definition rotate_stacked ::
    "rotary \<Rightarrow> int list \<Rightarrow> tensor list \<Rightarrow> nat \<Rightarrow> int \<Rightarrow> int \<Rightarrow> bool \<Rightarrow> tensor list res" where
  "rotate_stacked rot token_positions ts num_layers num_heads head_dim is_query =
     (let data = concat (map t_data ts); width = num_heads * head_dim;
          numel = sum_list (map t_numel ts);
          flat = (hd ts)\<lparr>t_shape := [numel div width, width], t_data := data\<rparr>
      in if width = 0 \<or> numel mod width \<noteq> 0 then Inl (RuntimeError ''reshape'')
         else
           rbind (rot (concat (replicate num_layers token_positions)) flat flat) (\<lambda>(q_rot, k_rot, _).
           let r = (if is_query then q_rot else k_rot); n = t_numel r div (int num_layers * width);
               nb = length (t_data r) div num_layers
           in if t_numel r \<noteq> n * int num_layers * width then Inl (RuntimeError ''reshape'')
              else Inr (map (\<lambda>l. r\<lparr>t_shape := [n, num_heads, head_dim],
                       t_data := take nb (drop (l * nb) (t_data r))\<rparr>) [0..<num_layers])))"

section \<open>Attention selection\<close>

text \<open>\<open>se_importance q_chunk k_full target_start target_len q_start\<close> is the kernel
  \<open>compute_att_full_softmax_importance\<close>; \<open>se_topk scores k\<close> are the indices \<open>torch.topk\<close>
  returns.\<close>

record 's sel_env =
  se_cuda :: bool
  se_importance :: "tensor list \<Rightarrow> tensor list \<Rightarrow> int \<Rightarrow> int \<Rightarrow> int \<Rightarrow> 's list res"
  se_topk :: "'s list \<Rightarrow> nat \<Rightarrow> int list"

definition rotate_opt ::
    "rotary option \<Rightarrow> int list option \<Rightarrow> int \<Rightarrow> int \<Rightarrow> tensor list \<Rightarrow> nat \<Rightarrow> int \<Rightarrow> int \<Rightarrow> bool \<Rightarrow> tensor list res" where
  "rotate_opt rotary_emb positions a b ts num_layers num_heads head_dim is_query =
     (case (rotary_emb, positions) of
        (Some rot, Some pos) \<Rightarrow> rotate_stacked rot (py_slice pos a b) ts num_layers num_heads head_dim is_query
      | _ \<Rightarrow> Inr ts)"

text \<open>The importance of the retrieved tokens of one request.\<close>

definition request_importance ::
    "'s sel_env \<Rightarrow> rotary option \<Rightarrow> int list option \<Rightarrow> att_params option \<Rightarrow> nat \<Rightarrow> tensor list \<Rightarrow> tensor list
     \<Rightarrow> tensor list \<Rightarrow> req_region \<Rightarrow> int \<Rightarrow> int \<Rightarrow> int \<Rightarrow> int \<Rightarrow> int \<Rightarrow> 's list res" where
  "request_importance env rotary_emb positions params num_layers old_k old_q query_k_layers r q_len q_offset query_k_len
      q_loc query_k_loc =
     (case params of
        None \<Rightarrow> Inl AttributeError
      | Some ap \<Rightarrow>
          (let prefix_len = rr_quest_start r - rr_req_start r;
               target_start = rr_rag_start r - rr_req_start r;
               q_pos_start = rr_quest_start r + q_offset; q_pos_end = q_pos_start + q_len
           in if length old_q \<noteq> num_layers \<or> length old_k \<noteq> num_layers \<or> length query_k_layers \<noteq> num_layers
              then Inl (RuntimeError ''reshape'')
              else
              rbind (rmap (\<lambda>t. reshape_heads q_len (ap_num_heads ap) (ap_head_dim ap) (slice0 t q_loc (q_loc + q_len))) old_q)
                (\<lambda>q_chunk.
              rbind (rmap (\<lambda>(k, qk). cat0 (slice0 k (rr_req_start r) (rr_quest_start r))
                                        (slice0 qk query_k_loc (query_k_loc + query_k_len))) (zip old_k query_k_layers))
                (\<lambda>k_cat.
              rbind (rmap (reshape_heads (prefix_len + query_k_len) (ap_num_kv_heads ap) (ap_head_dim ap)) k_cat) (\<lambda>k_full.
              rbind (rotate_opt rotary_emb positions q_pos_start q_pos_end q_chunk num_layers
                       (ap_num_heads ap) (ap_head_dim ap) True) (\<lambda>q_rot.
              rbind (rotate_opt rotary_emb positions (rr_req_start r) q_pos_end k_full num_layers
                       (ap_num_kv_heads ap) (ap_head_dim ap) False) (\<lambda>k_rot.
              se_importance env q_rot k_rot target_start (rr_rag_len r) (prefix_len + q_offset))))))))"

text \<open>What is selected from the importance: the budget's highest tokens, in order, and the query.\<close>

definition pick_tokens :: "'s sel_env \<Rightarrow> f64 \<Rightarrow> req_region \<Rightarrow> int list \<Rightarrow> 's list \<Rightarrow> int list" where
  "pick_tokens env ratio r quest_indices importance =
     (let k_budget = compute_budget (rr_rag_len r) ratio
      in if k_budget > 0 then
           sort (map (\<lambda>i. i + rr_rag_start r)
             (se_topk env importance (min (nat k_budget) (length importance)))) @ quest_indices
         else quest_indices)"

definition request_selection ::
    "'s sel_env \<Rightarrow> rotary option \<Rightarrow> int list option \<Rightarrow> blend_info \<Rightarrow> nat \<Rightarrow> tensor list \<Rightarrow> tensor list
     \<Rightarrow> tensor list \<Rightarrow> req_region \<Rightarrow> int \<Rightarrow> int \<Rightarrow> int \<Rightarrow> int \<Rightarrow> int \<Rightarrow> int list \<Rightarrow> int list res" where
  "request_selection env rotary_emb positions info num_layers old_k old_q query_k r q_len q_offset query_k_len
      q_loc query_k_loc quest_indices =
     (if rr_rag_len r > 0 then
        rbind (request_importance env rotary_emb positions (bi_att_params info) num_layers old_k old_q query_k r
                 q_len q_offset query_k_len q_loc query_k_loc) (\<lambda>importance.
        Inr (pick_tokens env (bi_ratio info) r quest_indices importance))
      else Inr quest_indices)"

fun fusion_loop ::
    "'s sel_env \<Rightarrow> rotary option \<Rightarrow> int list option \<Rightarrow> blend_info \<Rightarrow> kv_pool \<Rightarrow> nat \<Rightarrow> tensor list \<Rightarrow> tensor list
     \<Rightarrow> tensor list \<Rightarrow> int list \<Rightarrow> nat list \<Rightarrow> int \<Rightarrow> int \<Rightarrow> int list list res" where
  "fusion_loop env rotary_emb positions info p num_layers old_k old_q query_k bounds [] q_loc query_k_loc = Inr []"
| "fusion_loop env rotary_emb positions info p num_layers old_k old_q query_k bounds (req_idx # reqs) q_loc query_k_loc =
     rbind (get_request_region (bi_chunk_loc_list info) bounds req_idx) (\<lambda>r.
     rbind (py_get (q_lens p) (int req_idx)) (\<lambda>q_len.
     rbind (py_get (q_offsets p) (int req_idx)) (\<lambda>q_offset.
     rbind (py_get (query_k_lens p) (int req_idx)) (\<lambda>query_k_len.
     rbind (arange (rr_quest_start r) (rr_quest_end r)) (\<lambda>quest_indices.
     rbind (request_selection env rotary_emb positions info num_layers old_k old_q query_k r q_len q_offset
              query_k_len q_loc query_k_loc quest_indices) (\<lambda>req_selection.
     rbind (fusion_loop env rotary_emb positions info p num_layers old_k old_q query_k bounds reqs
              (q_loc + q_len) (query_k_loc + query_k_len)) (\<lambda>rest.
     Inr (req_selection # rest))))))))"

definition fusion_layers :: "blend_info \<Rightarrow> int list res" where
  "fusion_layers info =
     (case bi_critical_layers info of
        Some (l # ls) \<Rightarrow> Inr (l # ls)
      | _ \<Rightarrow> (case (bi_attn_start info, bi_attn_end info) of
               (Some a, Some b) \<Rightarrow> Inr (py_range a b) | _ \<Rightarrow> Inl TypeError))"

definition fusion_query_k :: "blend_info \<Rightarrow> kv_pool \<Rightarrow> int list \<Rightarrow> tensor option list res" where
  "fusion_query_k info p layer_ids =
     (case bi_critical_layers info of
        Some (l # ls) \<Rightarrow> get_query_k_layers p layer_ids
      | _ \<Rightarrow> (case (bi_attn_start info, bi_attn_end info) of
               (Some a, Some b) \<Rightarrow> Inr (get_all_query_k p a b) | _ \<Rightarrow> Inl TypeError))"

definition compute_layer_fusion ::
    "'s sel_env \<Rightarrow> rotary option \<Rightarrow> int list option \<Rightarrow> blend_info \<Rightarrow> kv_pool \<Rightarrow> tensor option list \<Rightarrow> tensor option list
     \<Rightarrow> (int list \<times> int list) res" where
  "compute_layer_fusion env rotary_emb positions info p old_k old_q =
     rbind (fusion_layers info) (\<lambda>layer_ids.
     let (num_reqs, req_boundaries) = compute_request_boundaries info
     in rbind (stack0 old_k) (\<lambda>old_k_stacked.
        rbind (stack0 old_q) (\<lambda>old_q_stacked.
        if \<not> se_cuda env then Inl (RuntimeError ''ATTN selection requires CUDA.'')
        else
          rbind (rbind (fusion_query_k info p layer_ids) stack0) (\<lambda>query_k_stacked.
          rbind (fusion_loop env rotary_emb positions info p (length layer_ids) old_k_stacked old_q_stacked
                   query_k_stacked req_boundaries [0..<num_reqs] 0 0) (\<lambda>final_indices_list.
          build_final_output final_indices_list (map (\<lambda>xs. int (length xs)) final_indices_list))))))"

text \<open>\<open>IndiceSelector.select\<close>; \<open>SelectMode\<close> has no other member than ATTN.\<close>

definition select_indices ::
    "'s sel_env \<Rightarrow> rotary option \<Rightarrow> blend_info \<Rightarrow> kv_pool \<Rightarrow> tensor option list option \<Rightarrow> tensor option list option
     \<Rightarrow> int list option \<Rightarrow> (int list \<times> int list) res" where
  "select_indices env rotary_emb info p old_k old_q positions =
     (if bi_ratio info \<le> 0 then compute_query_only info
      else
        (case (old_k, old_q) of
           (Some ks, Some qs) \<Rightarrow> compute_layer_fusion env rotary_emb positions info p ks qs
         | _ \<Rightarrow> Inl (ValueError ''ATTN mode requires old_k and old_q'')))"


section \<open>What the selection needs of top-k\<close>

locale top_k =
  fixes topk :: "'s::linorder list \<Rightarrow> nat \<Rightarrow> int list"
  assumes topk_length: "k \<le> length xs \<Longrightarrow> length (topk xs k) = k"
    and topk_distinct: "k \<le> length xs \<Longrightarrow> distinct (topk xs k)"
    and topk_bound: "k \<le> length xs \<Longrightarrow> i \<in> set (topk xs k) \<Longrightarrow> 0 \<le> i \<and> i < int (length xs)"
    and topk_best: "k \<le> length xs \<Longrightarrow> i \<in> set (topk xs k) \<Longrightarrow> 0 \<le> j \<Longrightarrow> j < int (length xs) \<Longrightarrow>
      j \<notin> set (topk xs k) \<Longrightarrow> xs ! nat j \<le> xs ! nat i"
begin

lemma picked_sorted:
  "k \<le> length xs \<Longrightarrow> sorted_wrt (<) (sort (map (\<lambda>i. i + d) (topk xs k)))"
  by (intro strict_sorted_sort) (simp add: distinct_map topk_distinct)

lemma picked_set:
  "k \<le> length xs \<Longrightarrow> set (sort (map (\<lambda>i. i + d) (topk xs k))) \<subseteq> {d..<d + int (length xs)}"
  using topk_bound [of k xs] by auto

lemma picked_length: "k \<le> length xs \<Longrightarrow> length (sort (map (\<lambda>i. i + d) (topk xs k))) = k"
  by (simp add: topk_length)

lemma picked_best:
  assumes "k \<le> length xs" "i \<in> set (sort (map (\<lambda>i. i + d) (topk xs k)))"
    and "d \<le> j" "j < d + int (length xs)" "j \<notin> set (sort (map (\<lambda>i. i + d) (topk xs k)))"
  shows "xs ! nat (j - d) \<le> xs ! nat (i - d)"
proof -
  from assms(2) obtain i' where i': "i' \<in> set (topk xs k)" "i = i' + d" by auto
  have "j - d \<notin> set (topk xs k)"
  proof
    assume "j - d \<in> set (topk xs k)"
    then have "j - d + d \<in> (\<lambda>i. i + d) ` set (topk xs k)" by (rule imageI)
    with assms(5) show False by simp
  qed
  with topk_best [OF assms(1) i'(1), of "j - d"] assms(3,4) i'(2) show ?thesis by simp
qed

lemmas picked_facts = picked_sorted picked_set picked_length picked_best

end

text \<open>The reference: the indices sorted by falling score, the first \<open>k\<close> of them.\<close>

definition topk_ref :: "rat list \<Rightarrow> nat \<Rightarrow> int list" where
  "topk_ref xs k = take k (map int (sort_key (\<lambda>i. - (xs ! i)) [0..<length xs]))"

interpretation reference_topk: top_k topk_ref
proof unfold_locales
  fix xs :: "rat list" and k assume k: "k \<le> length xs"
  let ?s = "sort_key (\<lambda>i. - (xs ! i)) [0..<length xs]"
  have t: "topk_ref xs k = map int (take k ?s)" by (simp add: topk_ref_def take_map)
  show "length (topk_ref xs k) = k" using k by (simp add: topk_ref_def)
  show "distinct (topk_ref xs k)" by (simp add: t distinct_map)
  show "0 \<le> i \<and> i < int (length xs)" if "i \<in> set (topk_ref xs k)" for i
    using that set_take_subset [of k ?s] by (auto simp: t)
  show "xs ! nat j \<le> xs ! nat i"
    if "i \<in> set (topk_ref xs k)" "0 \<le> j" "j < int (length xs)" "j \<notin> set (topk_ref xs k)" for i j
  proof -
    have app: "?s = take k ?s @ drop k ?s" by simp
    have "nat j \<in> set ?s" using that by auto
    moreover have "nat j \<notin> set (take k ?s)"
    proof
      assume "nat j \<in> set (take k ?s)"
      then have "int (nat j) \<in> int ` set (take k ?s)" by (rule imageI)
      with that show False by (simp add: t)
    qed
    ultimately have "nat j \<in> set (drop k ?s)" by (metis UnE app set_append)
    moreover have "nat i \<in> set (take k ?s)" using that(1) by (auto simp: t)
    moreover have "sorted (map (\<lambda>i. - (xs ! i)) (take k ?s @ drop k ?s))" by simp
    then have "\<forall>a \<in> set (take k ?s). \<forall>b \<in> set (drop k ?s). - (xs ! a) \<le> - (xs ! b)"
      by (simp only: map_append sorted_append) simp
    ultimately show ?thesis by fastforce
  qed
qed

section \<open>One request\<close>

lemma compute_budget_bounds:
  "0 < ratio \<Longrightarrow> 0 < n \<Longrightarrow> 1 \<le> compute_budget n ratio \<and> compute_budget n ratio \<le> n"
  "0 < ratio \<Longrightarrow> 0 \<le> n \<Longrightarrow> 0 \<le> compute_budget n ratio \<and> compute_budget n ratio \<le> n"
  by (auto simp: compute_budget_def)

lemma compute_budget_mono:
  "0 \<le> n \<Longrightarrow> r \<le> s \<Longrightarrow> compute_budget n r \<le> compute_budget n s"
proof -
  assume n: "0 \<le> n" and rs: "r \<le> s"
  show ?thesis
  proof (cases "r \<le> 0")
    case True
    then show ?thesis using n by (auto simp: compute_budget_def)
  next
    case False
    then have "\<lfloor>f64_mul_int n r\<rfloor> \<le> \<lfloor>f64_mul_int n s\<rfloor>" using n rs by (intro floor_mono f64_mul_int_mono) auto
    with False rs show ?thesis by (auto simp: compute_budget_def)
  qed
qed

definition region_of :: "int list \<Rightarrow> int \<Rightarrow> req_region" where
  "region_of locs n =
     \<lparr>rr_req_start = locs ! 0, rr_quest_start = locs ! nat (n - 1), rr_quest_end = locs ! nat n,
      rr_rag_start = (if 3 \<le> n then locs ! 1 else locs ! nat (n - 1)),
      rr_rag_len = (if 3 \<le> n then locs ! nat (n - 1) - locs ! 1 else 0)\<rparr>"

lemma single_region:
  assumes "int (length locs) = n + 1" "1 \<le> n"
  shows "get_request_region locs [0, n] 0 = Inr (region_of locs n)"
proof -
  have b: "py_get [0, n] (int 0) = Inr 0" "py_get [0, n] (int 0 + 1) = Inr n"
    by (simp_all add: py_get_def py_idx_def)
  have l: "py_get locs 0 = Inr (locs ! 0)" "py_get locs (n - 1) = Inr (locs ! nat (n - 1))"
    "py_get locs n = Inr (locs ! nat n)" "2 \<le> n \<Longrightarrow> py_get locs 1 = Inr (locs ! 1)"
    using assms by simp_all
  show ?thesis
    unfolding get_request_region_def b rbind_simps Let_def
    using l assms(2) by (auto simp: region_of_def)
qed

lemma single_boundaries: "bi_req_len_list info = [n] \<Longrightarrow> compute_request_boundaries info = (1, [0, n])"
  by (simp add: compute_request_boundaries_def)

lemma region_of_order:
  assumes "sorted locs" "int (length locs) = n + 1" "1 \<le> n"
  shows "rr_rag_start (region_of locs n) \<le> rr_quest_start (region_of locs n)"
    "rr_quest_start (region_of locs n) \<le> rr_quest_end (region_of locs n)"
    "rr_rag_len (region_of locs n) = rr_quest_start (region_of locs n) - rr_rag_start (region_of locs n)"
  using assms by (auto simp: region_of_def intro!: sorted_nth_mono)

text \<open>What a pick gives.\<close>

definition picked_ok :: "'s::linorder list \<Rightarrow> req_region \<Rightarrow> f64 \<Rightarrow> int list \<Rightarrow> bool" where
  "picked_ok imp r ratio sel \<longleftrightarrow>
     sorted_wrt (<) sel \<and> set sel \<subseteq> {rr_rag_start r..<rr_quest_start r} \<and>
     int (length sel) = compute_budget (rr_rag_len r) ratio \<and> int (length imp) = rr_rag_len r \<and>
     (\<forall>i \<in> set sel. \<forall>j \<in> {rr_rag_start r..<rr_quest_start r} - set sel.
        imp ! nat (j - rr_rag_start r) \<le> imp ! nat (i - rr_rag_start r))"

lemma pick_tokens_ok:
  assumes "top_k (se_topk env)" "0 < ratio" "0 < rr_rag_len r" "int (length imp) = rr_rag_len r"
    and "rr_rag_len r = rr_quest_start r - rr_rag_start r"
  shows "\<exists>sel. pick_tokens env ratio r quest imp = sel @ quest \<and> picked_ok imp r ratio sel"
proof -
  let ?b = "compute_budget (rr_rag_len r) ratio"
  have b: "1 \<le> ?b" "?b \<le> rr_rag_len r" using compute_budget_bounds(1) [OF assms(2,3)] by simp_all
  have k: "min (nat ?b) (length imp) = nat ?b" "nat ?b \<le> length imp" using b assms(4) by simp_all
  let ?sel = "sort (map (\<lambda>i. i + rr_rag_start r) (se_topk env imp (nat ?b)))"
  have e: "pick_tokens env ratio r quest imp = ?sel @ quest" using b by (simp add: pick_tokens_def k Let_def)
  note p = top_k.picked_facts [OF assms(1) k(2), where d = "rr_rag_start r"]
  have "rr_rag_start r + int (length imp) = rr_quest_start r" using assms(4,5) by simp
  then have "picked_ok imp r ratio ?sel"
    using p b assms(4) by (auto simp: picked_ok_def simp del: set_sort)
  with e show ?thesis by blast
qed

lemma sum_list_ge_length: "\<forall>n \<in> set ns. 1 \<le> n \<Longrightarrow> int (length ns) \<le> sum_list ns"
  by (induction ns) auto

lemma running_sums_pos: "\<forall>n \<in> set ns. 1 \<le> n \<Longrightarrow> 0 \<le> t \<Longrightarrow> \<forall>x \<in> set (running_sums t ns). 1 \<le> x"
proof (induction ns arbitrary: t)
  case (Cons n ns)
  from Cons.IH [of "t + n"] Cons.prems show ?case by simp
qed simp

text \<open>The last request of the doubly summed boundaries ends behind the chunk boundaries.\<close>

lemma double_sum_region:
  assumes "bi_req_len_list info = running_sums 0 ns" "2 \<le> length ns" "\<forall>n \<in> set ns. 1 \<le> n"
    and "int (length (bi_chunk_loc_list info)) = sum_list ns + 1"
  shows "\<exists>e. get_request_region (bi_chunk_loc_list info) (0 # running_sums 0 (bi_req_len_list info)) (length ns - 1) = Inl e"
proof -
  let ?rs = "running_sums 0 ns" and ?m = "length ns"
  let ?b = "0 # running_sums 0 ?rs" and ?locs = "bi_chunk_loc_list info"
  obtain ns' n where ns: "ns = ns' @ [n]" using assms(2) by (cases ns rule: rev_cases) auto
  have ne: "ns' \<noteq> []" using assms(2) ns by auto
  have rs: "?rs = running_sums 0 ns' @ [sum_list ns]" by (simp add: ns running_sums_snoc)
  have pos: "1 \<le> sum_list (running_sums 0 ns')"
    using sum_list_ge_length [OF running_sums_pos [of ns' 0]] assms(3) ne ns by (cases ns') auto
  have e: "py_get ?b (int (?m - 1) + 1) = Inr (sum_list (running_sums 0 ns') + sum_list ns)"
  proof -
    have "int (?m - 1) + 1 = int ?m" using assms(2) by simp
    moreover have "?b ! ?m = sum_list (running_sums 0 ns') + sum_list ns"
      using nth_append_length [of "0 # running_sums 0 (running_sums 0 ns')"] by (simp add: rs running_sums_snoc ns)
    ultimately show ?thesis by simp
  qed
  have "py_get ?locs (sum_list (running_sums 0 ns') + sum_list ns - 1 + 1) = Inl IndexError"
    using pos assms(4) by (intro py_get_above) simp
  then have "get_request_region ?locs ?b (?m - 1) \<noteq> Inr r" for r
    unfolding get_request_region_def e Let_def by (auto simp: rbind_Inr_iff)
  then show ?thesis
    unfolding assms(1) by (cases "get_request_region ?locs ?b (?m - 1)") auto
qed

section \<open>Properties\<close>

text \<open>The importance of the retrieved tokens of the only request of a batch, stated layer by layer:
  the kernel on the query tokens the request has in \<open>old_q\<close> (its first \<open>q_lens[0]\<close> rows) against the
  prefix rows of \<open>old_k\<close> followed by the query's own keys, both rotated at their positions, over the
  retrieved region, with the queries placed \<open>q_offsets[0]\<close> tokens behind the prefix.\<close>

definition kernel_importance ::
    "'s sel_env \<Rightarrow> rotary option \<Rightarrow> int list option \<Rightarrow> blend_info \<Rightarrow> kv_pool \<Rightarrow> tensor option list \<Rightarrow> tensor option list
     \<Rightarrow> req_region \<Rightarrow> 's list res" where
  "kernel_importance env rotary_emb positions info p old_k old_q r =
     rbind (fusion_layers info) (\<lambda>layer_ids.
     rbind (case bi_att_params info of None \<Rightarrow> Inl AttributeError | Some ap \<Rightarrow> Inr ap) (\<lambda>ap.
     rbind (stack0 old_k) (\<lambda>ks. rbind (stack0 old_q) (\<lambda>qs.
     rbind (rbind (fusion_query_k info p layer_ids) stack0) (\<lambda>query_ks.
     let q_len = q_lens p ! 0; q_offset = q_offsets p ! 0; query_k_len = query_k_lens p ! 0;
         prefix_len = rr_quest_start r - rr_req_start r
     in rbind (rmap (\<lambda>q. reshape_heads q_len (ap_num_heads ap) (ap_head_dim ap) (slice0 q 0 q_len)) qs) (\<lambda>q_layers.
        rbind (rmap (\<lambda>(k, query_k).
            rbind (cat0 (slice0 k (rr_req_start r) (rr_quest_start r)) (slice0 query_k 0 query_k_len)) (\<lambda>k_all.
            reshape_heads (prefix_len + query_k_len) (ap_num_kv_heads ap) (ap_head_dim ap) k_all)) (zip ks query_ks)) (\<lambda>k_layers.
        rbind (rotate_opt rotary_emb positions (rr_quest_start r + q_offset) (rr_quest_start r + q_offset + q_len) q_layers
                 (length layer_ids) (ap_num_heads ap) (ap_head_dim ap) True) (\<lambda>q_rot.
        rbind (rotate_opt rotary_emb positions (rr_req_start r) (rr_quest_start r + q_offset + q_len) k_layers
                 (length layer_ids) (ap_num_kv_heads ap) (ap_head_dim ap) False) (\<lambda>k_rot.
        se_importance env q_rot k_rot (rr_rag_start r - rr_req_start r) (rr_rag_len r) (prefix_len + q_offset))))))))))"

lemma rmap_compose:
  "rmap f xs = Inr ys \<Longrightarrow> rmap g ys = Inr zs \<Longrightarrow> rmap (\<lambda>x. rbind (f x) g) xs = Inr zs"
  by (induction xs arbitrary: ys zs) (auto simp: rbind_Inr_iff)

lemma request_importance_kernel:
  assumes "request_importance env rotary_emb positions (bi_att_params info) (length layer_ids) ks qs query_ks r
      (q_lens p ! 0) (q_offsets p ! 0) (query_k_lens p ! 0) 0 0 = Inr imp"
    and "fusion_layers info = Inr layer_ids" "stack0 old_k = Inr ks" "stack0 old_q = Inr qs"
    and "rbind (fusion_query_k info p layer_ids) stack0 = Inr query_ks"
  shows "kernel_importance env rotary_emb positions info p old_k old_q r = Inr imp"
proof -
  let ?q_len = "q_lens p ! 0" and ?off = "q_offsets p ! 0" and ?qk_len = "query_k_lens p ! 0"
  let ?pre = "rr_quest_start r - rr_req_start r" and ?stop = "rr_quest_start r + q_offsets p ! 0 + q_lens p ! 0"
  obtain ap where ap: "bi_att_params info = Some ap"
    using assms(1) by (auto simp: request_importance_def split: option.splits)
  from assms(1) obtain q_chunk k_cat k_full q_rot k_rot where
    q: "rmap (\<lambda>t. reshape_heads ?q_len (ap_num_heads ap) (ap_head_dim ap) (slice0 t 0 (0 + ?q_len))) qs = Inr q_chunk"
    and k: "rmap (\<lambda>(k, qk). cat0 (slice0 k (rr_req_start r) (rr_quest_start r)) (slice0 qk 0 (0 + ?qk_len)))
      (zip ks query_ks) = Inr k_cat"
    "rmap (reshape_heads (?pre + ?qk_len) (ap_num_kv_heads ap) (ap_head_dim ap)) k_cat = Inr k_full"
    and rot: "rotate_opt rotary_emb positions (rr_quest_start r + ?off) ?stop q_chunk (length layer_ids)
      (ap_num_heads ap) (ap_head_dim ap) True = Inr q_rot"
    "rotate_opt rotary_emb positions (rr_req_start r) ?stop k_full (length layer_ids)
      (ap_num_kv_heads ap) (ap_head_dim ap) False = Inr k_rot"
    and imp: "se_importance env q_rot k_rot (rr_rag_start r - rr_req_start r) (rr_rag_len r) (?pre + ?off) = Inr imp"
    unfolding request_importance_def ap option.case Let_def by (auto simp: rbind_Inr_iff split: if_splits)
  have kl: "rmap (\<lambda>(k, qk). rbind (cat0 (slice0 k (rr_req_start r) (rr_quest_start r)) (slice0 qk 0 ?qk_len)) (\<lambda>k_all.
      reshape_heads (?pre + ?qk_len) (ap_num_kv_heads ap) (ap_head_dim ap) k_all)) (zip ks query_ks) = Inr k_full"
    using rmap_compose [OF k] by (simp add: case_prod_unfold)
  show ?thesis
    unfolding kernel_importance_def assms(2-5) ap option.case rbind_simps Let_def q [unfolded add_0] kl rot imp ..
qed

lemma request_selection_picked:
  fixes env :: "'s::linorder sel_env"
  assumes "top_k (se_topk env)"
    and len: "\<forall>q k ts tl qs imp. se_importance env q k ts tl qs = Inr imp \<longrightarrow> int (length imp) = tl"
    and "0 < bi_ratio info" "rr_rag_len r = rr_quest_start r - rr_rag_start r" "0 \<le> rr_rag_len r"
    and sel: "request_selection env rotary_emb positions info (length layer_ids) ks qs query_ks r
       (q_lens p ! 0) (q_offsets p ! 0) (query_k_lens p ! 0) 0 0 quest = Inr selection"
    and st: "fusion_layers info = Inr layer_ids" "stack0 old_k = Inr ks" "stack0 old_q = Inr qs"
      "rbind (fusion_query_k info p layer_ids) stack0 = Inr query_ks"
  shows "\<exists>s. selection = s @ quest \<and> set s \<subseteq> {rr_rag_start r..<rr_quest_start r} \<and> sorted_wrt (<) s \<and>
    (if rr_rag_len r = 0 then s = []
     else \<exists>imp. kernel_importance env rotary_emb positions info p old_k old_q r = Inr imp \<and>
       picked_ok imp r (bi_ratio info) s)"
proof (cases "rr_rag_len r > 0")
  case True
  with sel [unfolded request_selection_def] obtain imp where
    imp: "request_importance env rotary_emb positions (bi_att_params info) (length layer_ids) ks qs query_ks r
       (q_lens p ! 0) (q_offsets p ! 0) (query_k_lens p ! 0) 0 0 = Inr imp"
    and pick: "selection = pick_tokens env (bi_ratio info) r quest imp" by (auto simp: rbind_Inr_iff)
  note ker = request_importance_kernel [OF imp st]
  have "int (length imp) = rr_rag_len r"
    using imp len by (auto simp: request_importance_def Let_def rbind_Inr_iff split: option.splits if_splits)
  from pick_tokens_ok [OF assms(1,3) True this assms(4), of quest] obtain s where
    s: "selection = s @ quest" "picked_ok imp r (bi_ratio info) s" using pick by auto
  then have "set s \<subseteq> {rr_rag_start r..<rr_quest_start r} \<and> sorted_wrt (<) s" by (simp add: picked_ok_def)
  with s ker True show ?thesis by auto
next
  case False
  with assms(5) have "rr_rag_len r = 0" by simp
  with sel [unfolded request_selection_def] show ?thesis by simp
qed

text \<open>C28: what ATTN selection recomputes for the only request of a batch. With retrieved tokens, the
  kernel has run on the request's query and key rows of every stacked layer and returned an importance
  for each of them, and the indices are strictly increasing: first the budget's number of retrieved
  tokens, between the first and the query chunk, none of which has a lower importance, as the kernel
  computed it, than a token that is left out; then every token of the query chunk. The budget is at
  least one token and at most all of them. Without retrieved tokens only the query chunk is selected.\<close>

theorem attn_selection_is_top_budget:
  fixes env :: "'s::linorder sel_env"
  assumes "top_k (se_topk env)"
    and "\<forall>q k ts tl qs imp. se_importance env q k ts tl qs = Inr imp \<longrightarrow> int (length imp) = tl"
    and "bi_req_len_list info = [n]" "1 \<le> n" "int (length (bi_chunk_loc_list info)) = n + 1"
    and "sorted (bi_chunk_loc_list info)" "0 < bi_ratio info"
    and "select_indices env rotary_emb info p (Some old_k) (Some old_q) positions = Inr (indices, lens)"
  shows "\<exists>sel. indices = sel @ py_range (bi_chunk_loc_list info ! nat (n - 1)) (bi_chunk_loc_list info ! nat n) \<and>
    (if rr_rag_len (region_of (bi_chunk_loc_list info) n) = 0 then sel = []
     else \<exists>imp. kernel_importance env rotary_emb positions info p old_k old_q
            (region_of (bi_chunk_loc_list info) n) = Inr imp \<and>
          picked_ok imp (region_of (bi_chunk_loc_list info) n) (bi_ratio info) sel) \<and>
    lens = [int (length indices)] \<and> sorted_wrt (<) indices"
proof -
  let ?r = "region_of (bi_chunk_loc_list info) n"
  let ?quest = "py_range (rr_quest_start ?r) (rr_quest_end ?r)"
  note ord = region_of_order [OF assms(6,5,4)]
  note reg = single_region [OF assms(5,4)]
  have ar: "arange (rr_quest_start ?r) (rr_quest_end ?r) = Inr ?quest" using ord(2) by (simp add: arange_def)
  obtain layer_ids ks qs query_k selection where
    st: "fusion_layers info = Inr layer_ids" "stack0 old_k = Inr ks" "stack0 old_q = Inr qs"
      "rbind (fusion_query_k info p layer_ids) stack0 = Inr query_k"
    and sel: "request_selection env rotary_emb positions info (length layer_ids) ks qs query_k ?r
       (q_lens p ! 0) (q_offsets p ! 0) (query_k_lens p ! 0) 0 0 ?quest = Inr selection"
    and out: "indices = selection" "lens = [int (length selection)]"
    using assms(7,8)
    by (auto simp: select_indices_def compute_layer_fusion_def single_boundaries [OF assms(3)] reg ar rbind_Inr_iff
        build_final_output_def py_get_def py_idx_def Let_def split: option.splits if_splits)
  have "0 \<le> rr_rag_len ?r" using ord by simp
  note request_selection_picked [OF assms(1,2,7) ord(3) this sel st]
  then obtain s where s: "selection = s @ ?quest" "set s \<subseteq> {rr_rag_start ?r..<rr_quest_start ?r}" "sorted_wrt (<) s"
    "if rr_rag_len ?r = 0 then s = []
     else \<exists>imp. kernel_importance env rotary_emb positions info p old_k old_q ?r = Inr imp \<and>
       picked_ok imp ?r (bi_ratio info) s" by blast
  have "sorted_wrt (<) (s @ ?quest)"
    using s(2,3) by (auto simp: sorted_wrt_append)
  with s out show ?thesis by (intro exI [of _ s]) (simp add: region_of_def)
qed

text \<open>The example: a sink chunk of two tokens, two retrieved chunks of three tokens, a query of two;
  the importance of the retrieved tokens is given, the tensors have no elements.\<close>

definition example_sel_env :: "rat sel_env" where
  "example_sel_env = \<lparr>se_cuda = True,
     se_importance = (\<lambda>q k ts tl qs. if tl < 0 then Inl IndexError
       else Inr (take (nat tl) ([5, 1, 7, 3, 9, 2] @ replicate (nat tl) 0))),
     se_topk = topk_ref\<rparr>"

definition example_blend :: blend_info where
  "example_blend = new_blend_info\<lparr>bi_ratio := 1 / 2, bi_chunk_loc_list := [0, 2, 5, 8, 10], bi_req_len_list := [4],
     bi_critical_layers := Some [0],
     bi_att_params := Some \<lparr>ap_num_heads = 0, ap_num_kv_heads = 0, ap_head_dim = 1, ap_num_layers = 1\<rparr>\<rparr>"

definition flat_rows :: "int \<Rightarrow> tensor" where
  "flat_rows n = \<lparr>t_dtype = Uint8, t_shape = [n, 0], t_data = []\<rparr>"

definition example_sel_pool :: kv_pool where
  "example_sel_pool = pool_clear\<lparr>query_k_buffer := [Some (flat_rows 2)], q_lens := [2], q_offsets := [0], query_k_lens := [2]\<rparr>"

theorem attn_selection_is_top_budget_witness:
  "select_indices example_sel_env None example_blend example_sel_pool (Some [Some (flat_rows 10)])
     (Some [Some (flat_rows 2)]) None = Inr ([2, 4, 6, 8, 9], [5]) \<and>
   sorted_wrt (<) [2, 4, 6, 8, 9 :: int]"
proof -
  have t: "top_k (se_topk example_sel_env)" by (simp add: example_sel_env_def reference_topk.top_k_axioms)
  have i: "\<forall>q k ts tl qs imp. se_importance example_sel_env q k ts tl qs = Inr imp \<longrightarrow> int (length imp) = tl"
    by (auto simp: example_sel_env_def split: if_splits)
  have b: "bi_req_len_list example_blend = [4]" "bi_chunk_loc_list example_blend = [0, 2, 5, 8, 10]" "bi_ratio example_blend = 1 / 2"
    "bi_critical_layers example_blend = Some [0]"
    "bi_att_params example_blend = Some \<lparr>ap_num_heads = 0, ap_num_kv_heads = 0, ap_head_dim = 1, ap_num_layers = 1\<rparr>"
    by (simp_all add: example_blend_def)
  have g: "get_request_region [0, 2, 5, 8, 10] [0, 4] 0 = Inr \<lparr>rr_req_start = 0, rr_quest_start = 8, rr_quest_end = 10,
      rr_rag_start = 2, rr_rag_len = 6\<rparr>" by code_simp
  have s: "stack0 [Some (flat_rows 10)] = Inr [flat_rows 10]" "stack0 [Some (flat_rows 2)] = Inr [flat_rows 2]"
    "rbind (get_query_k_layers example_sel_pool [0]) stack0 = Inr [flat_rows 2]"
    "arange 8 10 = Inr [8, 9]" "py_get (q_lens example_sel_pool) 0 = Inr 2" "py_get (q_offsets example_sel_pool) 0 = Inr 0"
    "py_get (query_k_lens example_sel_pool) 0 = Inr 2"
    by code_simp+
  have im: "request_importance example_sel_env None None
      (Some \<lparr>ap_num_heads = 0, ap_num_kv_heads = 0, ap_head_dim = 1, ap_num_layers = 1\<rparr>) 1 [flat_rows 10] [flat_rows 2]
      [flat_rows 2] \<lparr>rr_req_start = 0, rr_quest_start = 8, rr_quest_end = 10, rr_rag_start = 2, rr_rag_len = 6\<rparr>
      2 0 2 0 0 = Inr [5, 1, 7, 3, 9, 2]" by code_simp
  have pk: "pick_tokens example_sel_env (1 / 2) \<lparr>rr_req_start = 0, rr_quest_start = 8, rr_quest_end = 10,
      rr_rag_start = 2, rr_rag_len = 6\<rparr> [8, 9] [5, 1, 7, 3, 9, 2] = [2, 4, 6, 8, 9]" by code_simp
  have c: "se_cuda example_sel_env" by (simp add: example_sel_env_def)
  have r: "select_indices example_sel_env None example_blend example_sel_pool (Some [Some (flat_rows 10)])
      (Some [Some (flat_rows 2)]) None = Inr ([2, 4, 6, 8, 9], [5])"
    by (simp add: select_indices_def compute_layer_fusion_def compute_request_boundaries_def b fusion_layers_def
        fusion_query_k_def s g request_selection_def c im [unfolded One_nat_def] pk build_final_output_def)
  have h: "(1 :: int) \<le> 4" "int (length (bi_chunk_loc_list example_blend)) = 4 + 1" "sorted (bi_chunk_loc_list example_blend)"
    "0 < bi_ratio example_blend" by (simp_all add: b)
  from attn_selection_is_top_budget [OF t i b(1) h r] r show ?thesis by simp
qed

text \<open>C37: a batch of two or more requests cannot be selected. \<open>prepare_for_extend\<close> stores the
  cumulative chunk counts of the requests, and \<open>_compute_request_boundaries\<close> sums them up once more,
  so the last request's query chunk lies behind the end of \<open>chunk_loc_list\<close>: the selection raises,
  in query-only and in ATTN mode, whatever the tensors are.\<close>

theorem batch_selection_fails:
  assumes "bi_req_len_list info = running_sums 0 ns" "2 \<le> length ns" "\<forall>n \<in> set ns. 1 \<le> n"
    and "int (length (bi_chunk_loc_list info)) = sum_list ns + 1"
  shows "\<exists>e. select_indices env rotary_emb info p old_k old_q positions = Inl e"
proof -
  let ?b = "0 # running_sums 0 (bi_req_len_list info)" and ?m = "length ns"
  have m: "length (bi_req_len_list info) = ?m" by (simp add: assms(1))
  have nn: "ns \<noteq> []" using assms(2) by auto
  have last: "\<exists>e. get_request_region (bi_chunk_loc_list info) ?b (?m - 1) = Inl e"
    by (rule double_sum_region [OF assms])
  have no_query: "compute_query_only info \<noteq> Inr r" for r
  proof
    assume "compute_query_only info = Inr r"
    then obtain xs where "rmap (\<lambda>req_idx. rbind (get_request_region (bi_chunk_loc_list info) ?b req_idx)
        (\<lambda>r. arange (rr_quest_start r) (rr_quest_end r))) [0..<?m] = Inr xs"
      by (auto simp: compute_query_only_def compute_request_boundaries_def m rbind_Inr_iff)
    from rmap_Inr_nth [OF this, of "?m - 1"] last nn show False by (auto simp: rbind_Inr_iff)
  qed
  have no_loop: "fusion_loop env rotary_emb positions info p nl ks qs qk ?b reqs ql qkl \<noteq> Inr xs"
    if "?m - 1 \<in> set reqs" for nl ks qs qk reqs ql qkl xs
    using that
  proof (induction reqs arbitrary: ql qkl xs)
    case (Cons i reqs)
    then show ?case using last by (auto simp: rbind_Inr_iff)
  qed simp
  have "select_indices env rotary_emb info p old_k old_q positions \<noteq> Inr r" for r
  proof
    assume "select_indices env rotary_emb info p old_k old_q positions = Inr r"
    then obtain nl ks qs qk xs where
      "fusion_loop env rotary_emb positions info p nl ks qs qk ?b [0..<?m] 0 0 = Inr xs"
      using no_query [of r]
      by (auto simp: select_indices_def compute_layer_fusion_def compute_request_boundaries_def m rbind_Inr_iff Let_def
          split: if_splits option.splits)
    then show False using no_loop nn by auto
  qed
  then show ?thesis by (cases "select_indices env rotary_emb info p old_k old_q positions") auto
qed

theorem batch_selection_fails_witness:
  "\<exists>e. select_indices example_sel_env None
     (new_blend_info\<lparr>bi_ratio := 0, bi_req_len_list := [2, 4], bi_chunk_loc_list := [0, 3, 5, 8, 10]\<rparr>)
     pool_clear None None None = Inl e"
  by (rule batch_selection_fails [where ns = "[2, 2]"]) simp_all

end
