(* ===== verification/AttnMeta.thy ===== *)
theory AttnMeta
  imports Selector
begin

text \<open>
  What the attention backends and the logits processor compute from a batch's blend information:
  the ragged-attention metadata of \<open>TritonAttnBackend._init_triton_blend_metadata\<close>
  (\<open>srt/layers/attention/triton_backend.py\<close>), the row pointers of
  \<open>FlashInferAttnBackend.forward_extend_blend\<close> (\<open>flashinfer_backend.py\<close>) and the rows whose
  logits are computed (\<open>LogitsProcessor.forward\<close>, \<open>srt/layers/logits_processor.py\<close>). Token counts
  fit 32 bits, so the casts to \<open>int32\<close> are the identity.
\<close>

section \<open>Forward modes\<close>

datatype forward_mode =
  EXTEND | DECODE | MIXED | IDLE | TARGET_VERIFY | DRAFT_EXTEND | DRAFT_EXTEND_V2 | SPLIT_PREFILL

definition is_extend :: "forward_mode \<Rightarrow> bool" where
  "is_extend m \<longleftrightarrow> m = EXTEND \<or> m = MIXED \<or> m = DRAFT_EXTEND \<or> m = TARGET_VERIFY"

definition is_prefill :: "forward_mode \<Rightarrow> bool" where
  "is_prefill m = is_extend m"

definition is_decode_or_idle :: "forward_mode \<Rightarrow> bool" where
  "is_decode_or_idle m \<longleftrightarrow> m = DECODE \<or> m = IDLE"

section \<open>Triton metadata\<close>

record triton_meta =
  tm_q_start_loc :: "int list"
  tm_q_lens :: "int list"
  tm_kv_start_loc :: "int list"
  tm_kv_lens :: "int list"
  tm_max_q_len :: int
  tm_q_positions :: "int list option"

text \<open>The difference of two tensors. Both uses have tensors of one length (all but the first and all but
  the last of the chunk boundaries; one entry per request), except that without requests torch
  broadcasts one element against none, which gives none as \<open>zip\<close> does.\<close>

definition diff :: "int list \<Rightarrow> int list \<Rightarrow> int list" where
  "diff xs ys = map (\<lambda>(x, y). x - y) (zip xs ys)"

definition max_or :: "int \<Rightarrow> int list \<Rightarrow> int" where
  "max_or d xs = (if xs = [] then d else Max (set xs))"

definition do_blend_meta :: "blend_info \<Rightarrow> int list \<Rightarrow> int list \<Rightarrow> triton_meta res" where
  "do_blend_meta info top_lens top_indices =
     (let chunk_bounds = bi_chunk_loc_list info; req_len_list = bi_req_len_list info;
          num_reqs = length top_lens
      in rbind (rmap (py_get chunk_bounds) (0 # butlast req_len_list)) (\<lambda>kv_start_loc.
         rbind (rmap (py_get chunk_bounds) req_len_list) (\<lambda>kv_end.
         Inr \<lparr>tm_q_start_loc = (if num_reqs > 1 then 0 # running_sums 0 (butlast top_lens) else replicate num_reqs 0),
              tm_q_lens = top_lens, tm_kv_start_loc = kv_start_loc, tm_kv_lens = diff kv_end kv_start_loc,
              tm_max_q_len = max_or 0 top_lens, tm_q_positions = Some top_indices\<rparr>)))"

definition kvcompute_meta :: "blend_info \<Rightarrow> triton_meta" where
  "kvcompute_meta info =
     (let chunk_bounds = bi_chunk_loc_list info;
          seq_lens = diff (tl chunk_bounds) (butlast chunk_bounds)
      in \<lparr>tm_q_start_loc = butlast chunk_bounds, tm_q_lens = seq_lens, tm_kv_start_loc = butlast chunk_bounds,
          tm_kv_lens = seq_lens, tm_max_q_len = max_or 1 seq_lens, tm_q_positions = None\<rparr>)"

definition init_triton_blend_metadata :: "blend_info \<Rightarrow> bool \<Rightarrow> (triton_meta \<times> blend_info) res" where
  "init_triton_blend_metadata info is_do_blend =
     (let info' = info\<lparr>bi_init_attmeta := False\<rparr>
      in if is_do_blend then
           (case (bi_top_lens info, bi_top_indices info) of
              (Some top_lens, Some top_indices) \<Rightarrow>
                rbind (do_blend_meta info top_lens top_indices) (\<lambda>m. Inr (m, info'))
            | _ \<Rightarrow> Inl AttributeError)
         else Inr (kvcompute_meta info, info'))"

section \<open>FlashInfer row pointers\<close>


section \<open>Rows that get logits\<close>

record logits_metadata =
  lm_forward_mode :: forward_mode
  lm_is_prefill_only :: bool
  lm_blend_style :: "blend_style option"
  lm_blend_seq_lens :: "int list option"
  lm_extend_return_logprob :: bool
  lm_need_capture :: bool
  lm_padded_static_len :: int
  lm_extend_seq_lens :: "int list"

text \<open>The branches of \<open>forward\<close>: multi-item scoring, no logits at all, every row (decoding), the
  given rows, or the input log probabilities (whose index computation is not part of this model).\<close>

datatype logits_plan = MultiItem | NoLogits | AllRows | Rows "int list" | InputLogprobs

definition last_index :: "logits_metadata \<Rightarrow> int list res" where
  "last_index lm =
     (if lm_blend_style lm \<in> {Some DO_BLEND, Some DO_BLEND_FINISH} then
        (case lm_blend_seq_lens lm of
           None \<Rightarrow> Inl TypeError
         | Some lens \<Rightarrow> Inr (map (\<lambda>x. x - 1) (running_sums 0 lens)))
      else if lm_padded_static_len lm < 0 then Inr (map (\<lambda>x. x - 1) (running_sums 0 (lm_extend_seq_lens lm)))
      else Inr (map (\<lambda>(i, n). int i * lm_padded_static_len lm + n - 1)
                 (enumerate 0 (lm_extend_seq_lens lm))))"

definition logits_rows :: "bool \<Rightarrow> logits_metadata \<Rightarrow> logits_plan res" where
  "logits_rows multi_item_scoring lm =
     (if multi_item_scoring \<and> lm_is_prefill_only lm then Inr MultiItem
      else if lm_is_prefill_only lm \<and> lm_blend_style lm = Some QCOMPUTE \<and> \<not> lm_extend_return_logprob lm \<and>
              \<not> lm_need_capture lm then Inr NoLogits
      else if is_decode_or_idle (lm_forward_mode lm) \<or> lm_forward_mode lm = TARGET_VERIFY \<or>
              lm_forward_mode lm = DRAFT_EXTEND_V2 then Inr AllRows
      else if (is_extend (lm_forward_mode lm) \<or> lm_forward_mode lm = SPLIT_PREFILL) \<and>
              \<not> lm_extend_return_logprob lm then rbind (last_index lm) (\<lambda>is. Inr (Rows is))
      else Inr InputLogprobs)"

section \<open>Lemmas\<close>

lemma running_sums_butlast_eq: "running_sums t (butlast xs) = butlast (running_sums t xs)"
  by (induction xs arbitrary: t) auto

lemma running_sums_diff: "running_sums s (diff es (s # butlast es)) = es"
proof (induction es arbitrary: s)
  case (Cons e es)
  then show ?case by (cases "es = []") (simp_all add: diff_def)
qed (simp add: diff_def)

lemma triton_do_blend:
  assumes "init_triton_blend_metadata info True = Inr (tm, info')"
    and "bi_top_lens info = Some lens" "bi_top_indices info = Some indices"
  shows "do_blend_meta info lens indices = Inr tm"
  using assms by (auto simp: init_triton_blend_metadata_def Let_def rbind_Inr_iff)

lemma do_blend_meta_fields:
  assumes "do_blend_meta info lens indices = Inr tm"
  shows "tm_q_lens tm = lens" "tm_q_positions tm = Some indices" "lens \<noteq> [] \<Longrightarrow> tm_q_start_loc tm = butlast (0 # running_sums 0 lens)"
    "rmap (py_get (bi_chunk_loc_list info)) (0 # butlast (bi_req_len_list info)) = Inr (tm_kv_start_loc tm)"
    "\<exists>es. rmap (py_get (bi_chunk_loc_list info)) (bi_req_len_list info) = Inr es \<and> tm_kv_lens tm = diff es (tm_kv_start_loc tm)"
  using assms
  by (auto simp: do_blend_meta_def Let_def rbind_Inr_iff running_sums_butlast_eq neq_Nil_conv split: if_splits)

lemma butlast_running_sums_nth:
  "i < length xs \<Longrightarrow> butlast (t # running_sums t xs) ! i = (t # running_sums t xs) ! i"
  by (subst nth_butlast) auto

lemma loc_Suc: "i < length xs \<Longrightarrow> (t # running_sums t xs) ! Suc i = (t # running_sums t xs) ! i + xs ! i"
  by (cases i) (simp_all add: nth_running_sums take_Suc_conv_app_nth)


section \<open>Properties\<close>

text \<open>C39: the queries of a DO_BLEND batch and the rows its next tokens come from. The selection
  concatenates the rows of the requests; the metadata of the attention kernel cuts it back into them,
  and the logits are computed for the last selected row of every request.\<close>

theorem do_blend_rows_of_requests:
  assumes "build_final_output parts (map (\<lambda>xs. int (length xs)) parts) = Inr (indices, lens)"
    and "bi_top_lens info = Some lens" "bi_top_indices info = Some indices"
    and "init_triton_blend_metadata info True = Inr (tm, info')"
    and "lm_blend_style lm \<in> {Some DO_BLEND, Some DO_BLEND_FINISH}" "lm_blend_seq_lens lm = Some lens"
    and "last_index lm = Inr rows" "i < length parts"
  shows "py_slice indices (tm_q_start_loc tm ! i) (tm_q_start_loc tm ! i + tm_q_lens tm ! i) = parts ! i \<and>
    tm_q_positions tm = Some indices \<and> length rows = length parts \<and>
    (parts ! i \<noteq> [] \<longrightarrow> py_get indices (rows ! i) = Inr (last (parts ! i)))"
proof -
  have il: "indices = concat parts" "lens = map (\<lambda>xs. int (length xs)) parts"
    using assms(1) by (auto simp: build_final_output_def split: if_splits)
  let ?locs = "0 # running_sums 0 lens"
  have i: "i < length lens" using assms(8) il by simp
  note f = do_blend_meta_fields [OF triton_do_blend [OF assms(4,2,3)]]
  have q: "tm_q_start_loc tm ! i = ?locs ! i" using f(3) i butlast_running_sums_nth [OF i, of 0] by fastforce
  have s: "?locs ! Suc i = ?locs ! i + lens ! i" by (rule loc_Suc [OF i])
  have slice: "py_slice indices (?locs ! i) (?locs ! Suc i) = parts ! i"
    using slice_concat [OF assms(8)] by (simp add: il)
  have rows: "rows = map (\<lambda>x. x - 1) (running_sums 0 lens)" using assms(5-7) by (auto simp: last_index_def)
  have r: "rows ! i = ?locs ! Suc i - 1" using i by (simp add: rows)
  have pre: "?locs ! i = int (length (concat (take i parts)))"
    using concat_loc [of i parts] assms(8) by (simp add: il)
  have "py_get indices (rows ! i) = Inr (last (parts ! i))" if ne: "parts ! i \<noteq> []"
  proof -
    let ?n = "length (concat (take i parts))" and ?m = "length (parts ! i) - 1"
    have r': "rows ! i = int (?n + ?m)" using r s pre i ne by (simp add: il of_nat_diff Suc_leI)
    have "concat parts = concat (take i parts) @ parts ! i @ concat (drop (Suc i) parts)"
      using assms(8) by (metis concat.simps(2) concat_append id_take_nth_drop)
    then have "py_get indices (int (?n + ?m)) = Inr (parts ! i ! ?m)"
      using ne by (simp only: il) (rule py_get_middle, simp)
    with ne show ?thesis by (simp add: r' last_conv_nth)
  qed
  with slice show ?thesis using q s f(1,2) i by (auto simp: rows il)
qed

definition example_blend_rows :: blend_info where
  "example_blend_rows = new_blend_info\<lparr>bi_style := Some DO_BLEND_FINISH, bi_chunk_loc_list := [0, 2, 5, 6, 8],
     bi_req_len_list := [2, 4], bi_top_indices := Some [1, 3, 4, 6, 7], bi_top_lens := Some [3, 2]\<rparr>"

lemma example_blend_rows_fields:
  "bi_chunk_loc_list example_blend_rows = [0, 2, 5, 6, 8]" "bi_req_len_list example_blend_rows = [2, 4]"
  "bi_top_indices example_blend_rows = Some [1, 3, 4, 6, 7]" "bi_top_lens example_blend_rows = Some [3, 2]"
  "bi_style example_blend_rows = Some DO_BLEND_FINISH"
  by (simp_all add: example_blend_rows_def)

definition example_triton :: triton_meta where
  "example_triton = \<lparr>tm_q_start_loc = [0, 3], tm_q_lens = [3, 2], tm_kv_start_loc = [0, 5], tm_kv_lens = [5, 3],
     tm_max_q_len = 3, tm_q_positions = Some [1, 3, 4, 6, 7]\<rparr>"

lemma example_triton_init:
  "init_triton_blend_metadata example_blend_rows True = Inr (example_triton, example_blend_rows\<lparr>bi_init_attmeta := False\<rparr>)"
  by (simp add: init_triton_blend_metadata_def do_blend_meta_def example_blend_rows_fields diff_def max_or_def example_triton_def)

theorem do_blend_rows_of_requests_witness:
  "py_slice [1, 3, 4, 6, 7 :: int] (tm_q_start_loc example_triton ! 1) (tm_q_start_loc example_triton ! 1 + tm_q_lens example_triton ! 1)
     = [6, 7] \<and> py_get [1, 3, 4, 6, 7 :: int] ([2, 4] ! 1) = Inr 7"
proof -
  let ?parts = "[[1, 3, 4], [6, 7]] :: int list list"
  let ?lm = "\<lparr>lm_forward_mode = EXTEND, lm_is_prefill_only = False, lm_blend_style = Some DO_BLEND_FINISH,
     lm_blend_seq_lens = Some [3, 2], lm_extend_return_logprob = False, lm_need_capture = False,
     lm_padded_static_len = - 1, lm_extend_seq_lens = [5, 3]\<rparr>"
  have "build_final_output ?parts (map (\<lambda>xs. int (length xs)) ?parts) = Inr ([1, 3, 4, 6, 7], [3, 2])"
    by (simp add: build_final_output_def)
  from do_blend_rows_of_requests [OF this example_blend_rows_fields(4,3) example_triton_init, of ?lm "[2, 4]" 1]
  show ?thesis by (simp add: last_index_def)
qed

text \<open>The keys of a DO_BLEND batch. The key ranges of the requests, taken from the chunk boundaries
  at the cumulated chunk counts, follow each other without gap and end at the last token of the batch,
  whatever is selected.\<close>

theorem do_blend_keys_tile_batch:
  assumes "init_triton_blend_metadata info True = Inr (tm, info')"
    and "bi_chunk_loc_list info = 0 # locs" "bi_req_len_list info = running_sums 0 counts"
    and "counts \<noteq> []" "sum_list counts = int (length locs)"
  shows "tm_kv_start_loc tm = butlast (0 # running_sums 0 (tm_kv_lens tm)) \<and>
    sum_list (tm_kv_lens tm) = last (0 # locs) \<and> length (tm_kv_lens tm) = length counts"
proof -
  obtain lens indices where l: "bi_top_lens info = Some lens" "bi_top_indices info = Some indices"
    using assms(1) by (auto simp: init_triton_blend_metadata_def Let_def split: option.splits)
  note f = do_blend_meta_fields [OF triton_do_blend [OF assms(1) l], unfolded assms(2,3)]
  obtain es where es: "rmap (py_get (0 # locs)) (running_sums 0 counts) = Inr es"
    "tm_kv_lens tm = diff es (tm_kv_start_loc tm)"
    using f(5) by auto
  have le: "length es = length counts" using rmap_Inr_length [OF es(1)] by simp
  have eb: "running_sums 0 counts = butlast (running_sums 0 counts) @ [int (length locs)]"
    using running_sums_butlast [OF assms(4), of 0] assms(5) by simp
  obtain bs where bs: "rmap (py_get (0 # locs)) (butlast (running_sums 0 counts)) = Inr bs"
    "tm_kv_start_loc tm = 0 # bs"
    using f(4) by (auto simp: rbind_Inr_iff)
  have lst: "py_get (0 # locs) (int (length locs)) = Inr (last (0 # locs))"
    by (simp add: last_conv_nth)
  have "es = bs @ [last (0 # locs)]"
    using es(1) by (subst (asm) eb) (simp only: rmap_append bs(1) rbind_simps rmap.simps lst, simp)
  then have st: "tm_kv_start_loc tm = 0 # butlast es" and le': "last es = last (0 # locs)" "es \<noteq> []"
    using bs by auto
  have r: "running_sums 0 (tm_kv_lens tm) = es" unfolding es(2) st by (rule running_sums_diff)
  have "tm_kv_lens tm \<noteq> []" using r le'(2) by (metis running_sums_Nil_iff)
  from last_running_sums [OF this, of 0] have "sum_list (tm_kv_lens tm) = last (0 # locs)" using r le' by simp
  moreover have "length (tm_kv_lens tm) = length counts" using r le by (metis length_running_sums)
  ultimately show ?thesis using st r le'(2) by simp
qed

theorem do_blend_keys_tile_batch_witness:
  "tm_kv_start_loc example_triton = butlast (0 # running_sums 0 (tm_kv_lens example_triton)) \<and>
   sum_list (tm_kv_lens example_triton) = 8"
  using do_blend_keys_tile_batch [OF example_triton_init, of "[2, 5, 6, 8]" "[2, 2]"]
  by (simp add: example_blend_rows_fields)



end
