(* ===== verification/Blend.thy ===== *)
theory Blend
  imports AttnMeta KVzip SSDManager
begin

text \<open>
  \<open>CacheBlender.build_context_pool\<close> and \<open>CacheBlender.blend\<close> of \<open>srt/utils/cache_blender.py\<close>,
  the call each attention layer makes: KVCOMPUTE saves the caches after the last layer, QCOMPUTE puts
  the digest of the context before the query, DO_BLEND selects tokens at the start layer and in the
  later layers writes their new K/V rows into the loaded ones.

  A call gives \<open>None\<close> while it waits for a loader event, else an error or the tensors with the run
  state and the shared state. The rotary embedding works in place on the GPU: its result includes what
  the key's memory holds afterwards, and where the code passes a tensor of a pool, the pool changes.
\<close>

section \<open>Row assignment\<close>

definition set_row :: "tensor \<Rightarrow> nat \<times> byte list \<Rightarrow> tensor" where
  "set_row t ir =
     (let (i, r) = ir; nb = row_nbytes t
      in t\<lparr>t_data := take (i * nb) (t_data t) @ r @ drop ((i + 1) * nb) (t_data t)\<rparr>)"

text \<open>\<open>t[idx]\<close> and \<open>t[idx] = k\<close>; one row of \<open>k\<close> is broadcast.\<close>

definition row_indices :: "tensor \<Rightarrow> int list \<Rightarrow> nat list res" where
  "row_indices t idx =
     (if t_shape t = [] then Inl IndexError
      else rmap (\<lambda>i. case py_idx (nat (hd (t_shape t))) i of None \<Rightarrow> Inl IndexError | Some j \<Rightarrow> Inr j) idx)"

definition take_rows :: "tensor \<Rightarrow> int list \<Rightarrow> tensor res" where
  "take_rows t idx = rbind (row_indices t idx) (\<lambda>js. index_select t (map int js))"

definition put_rows :: "tensor \<Rightarrow> int list \<Rightarrow> tensor \<Rightarrow> tensor res" where
  "put_rows t idx k =
     rbind (row_indices t idx) (\<lambda>js.
       if t_shape k = [] \<or> tl (t_shape k) \<noteq> tl (t_shape t) \<or> t_dtype k \<noteq> t_dtype t then Inl (RuntimeError ''index_put'')
       else if hd (t_shape k) = int (length js) then
         Inr (fold (\<lambda>x u. set_row u x) (zip js (map (\<lambda>m. t_row k (int m)) [0..<length js])) t)
       else if hd (t_shape k) = 1 then Inr (fold (\<lambda>x u. set_row u x) (map (\<lambda>j. (j, t_row k 0)) js) t)
       else Inl (RuntimeError ''index_put''))"

definition apply_rotary :: "rotary option \<Rightarrow> int list \<Rightarrow> tensor \<Rightarrow> tensor \<Rightarrow> (tensor \<times> tensor) res" where
  "apply_rotary rotary_emb positions q k =
     (case rotary_emb of
        None \<Rightarrow> Inr (q, k)
      | Some rot \<Rightarrow> rbind (rot positions q k) (\<lambda>(q', k', _). Inr (q', k')))"

section \<open>State of a forward pass\<close>

text \<open>\<open>BatchBlendInfo\<close> with the attributes the first blended layer and the attention backend add to it. \<open>br_ctx_pos\<close> is
  \<open>_context_positions_t_by_layer\<close>.\<close>

record blend_run =
  br_info :: blend_info
  br_ctx_pos :: "int \<Rightarrow> int list option"
  br_fake_q :: "tensor option"
  br_q_len :: int
  br_kv_len :: int
  br_q_positions :: "int list"
  br_q_start_loc :: "int list"
  br_q_lens :: "int list"
  br_kv_start_loc :: "int list"
  br_kv_lens :: "int list"
  br_triton :: "triton_meta option"

definition new_run :: "blend_info \<Rightarrow> blend_run" where
  "new_run info =
     \<lparr>br_info = info, br_ctx_pos = (\<lambda>_. None), br_fake_q = None, br_q_len = 0, br_kv_len = 0, br_q_positions = [],
      br_q_start_loc = [], br_q_lens = [], br_kv_start_loc = [], br_kv_lens = [], br_triton = None\<rparr>"

text \<open>What the code is given from outside: the selection's kernel and top-k, the rotary embedding,
  \<open>torch.argsort\<close> and the zero score, the content of fresh memory, and the memory of the two
  outputs of the position kernel.\<close>

record ('c, 's) blend_env =
  be_sel :: "'c sel_env"
  be_rotary :: "rotary option"
  be_argsort :: "'s list \<Rightarrow> int list"
  be_zero :: 's
  be_empty :: "tensor \<Rightarrow> tensor"
  be_empty_pos :: "int list"
  be_empty_loc :: "int list"

type_synonym qkv = "tensor \<times> tensor \<times> tensor"

type_synonym 's blended = "(qkv \<times> blend_run \<times> 's world) res option"

definition done_with :: "blend_run \<Rightarrow> 's world \<Rightarrow> qkv res \<Rightarrow> 's blended" where
  "done_with run w r = Some (rbind r (\<lambda>x. Inr (x, run, w)))"

section \<open>KVCOMPUTE\<close>

definition build_context_pool :: "('c, 's) blend_env \<Rightarrow> blend_info \<Rightarrow> 's world \<Rightarrow> 's world res" where
  "build_context_pool env info w =
     rbind (build_all_indices (be_argsort env) (be_zero env) (int (length (k_buffer (w_hack w)))) info
              (w_digest w, ctx_clear)) (\<lambda>(d, c). Inr (w\<lparr>w_digest := d, w_ctx := c\<rparr>))"

definition model_layers :: "blend_info \<Rightarrow> 's world \<Rightarrow> int" where
  "model_layers info w =
     (case bi_att_params info of Some ap \<Rightarrow> ap_num_layers ap | None \<Rightarrow> int (length (k_buffer (w_hack w))))"

definition digest_token_indices :: "int list option \<Rightarrow> int list list \<Rightarrow> int list list res" where
  "digest_token_indices keep_indices positions_by_layer =
     (case keep_indices of
        Some keep \<Rightarrow> rmap (rmap (py_get keep)) positions_by_layer
      | None \<Rightarrow> Inr positions_by_layer)"

text \<open>The offline save after the last layer.\<close>

definition save_caches :: "blend_info \<Rightarrow> int \<Rightarrow> 's world \<Rightarrow> 's world res" where
  "save_caches info num_layers w =
     rbind (save_all_chunk_cache (sm_dir_chunk (w_mgr w)) num_layers (bi_keep_indices info) (w_hack w) (w_ssd w)) (\<lambda>ssd1.
     if bi_is_contextblend info then
       (let qcompute_end = max 0 (min (int_or (bi_qcompute_end info) num_layers) num_layers);
            compact_positions = py_slice (context_positions_by_layer (w_ctx w)) 0 qcompute_end
        in rbind (digest_token_indices (bi_keep_indices info) compact_positions) (\<lambda>tokens.
           rbind (save_all_query_cache (sm_dir_query (w_mgr w)) qcompute_end tokens (bi_critical_layers info)
                    (bi_keep_indices info) (w_digest w) (w_hack w) ssd1) (\<lambda>ssd2.
           Inr (w\<lparr>w_ssd := ssd2\<rparr>))))
     else Inr (w\<lparr>w_ssd := ssd1\<rparr>))"

definition blend_kvcompute ::
    "('c, 's) blend_env \<Rightarrow> int \<Rightarrow> qkv \<Rightarrow> blend_run \<Rightarrow> 's world \<Rightarrow> 's blended" where
  "blend_kvcompute env layer_id t run w =
     (let (q, k, v) = t
      in Some (
        rbind (ensure_forward_positions (be_empty_pos env) (be_empty_loc env) (br_info run)) (\<lambda>(positions, info).
        rbind (apply_rotary (be_rotary env) positions q k) (\<lambda>(q', k').
        let is_last = (layer_id = model_layers info w - 1)
        in rbind (if bi_is_contextblend info \<and> is_last then build_context_pool env info w else Inr w) (\<lambda>w1.
           rbind (if sm_offline (w_mgr w1) \<and> is_last then save_caches info (model_layers info w1) w1 else Inr w1) (\<lambda>w2.
           Inr ((q', k', v), run\<lparr>br_info := info\<rparr>, w2)))))))"

section \<open>QCOMPUTE with a context\<close>

text \<open>Building the digest positions of the layer when the pool has none, and the cached index tensor
  of a layer, which is kept while its length fits.\<close>

definition ensure_context_positions :: "blend_info \<Rightarrow> int \<Rightarrow> 's world \<Rightarrow> 's world" where
  "ensure_context_positions info layer_id w =
     (if get_context_positions (w_ctx w) layer_id = []
      then w\<lparr>w_ctx := snd (build_context_positions
             (case bi_digest_ratio info of None \<Rightarrow> DEFAULT_DIGEST_RATIO | Some r \<Rightarrow> r) (w_ctx w))\<rparr>
      else w)"

definition cache_context_pos :: "int \<Rightarrow> int list \<Rightarrow> blend_run \<Rightarrow> int list \<times> blend_run" where
  "cache_context_pos layer_id pos run =
     (let pos_t = (case br_ctx_pos run layer_id of Some c \<Rightarrow> if length c = length pos then c else pos | None \<Rightarrow> pos)
      in (pos_t, run\<lparr>br_ctx_pos := (br_ctx_pos run)(layer_id \<mapsto> pos_t)\<rparr>))"

text \<open>The digest K/V of the layer and its positions: from the context pool when online, else
  selected from the K/V pool.\<close>

definition context_kv ::
    "int \<Rightarrow> blend_run \<Rightarrow> 's world \<Rightarrow> ((tensor option \<times> tensor option) \<times> blend_run \<times> 's world) res option" where
  "context_kv layer_id run w =
     (if sm_online (w_mgr w) then
        map_option (\<lambda>r. rbind r (\<lambda>_. rbind (ctx_get (w_ctx w) layer_id) (\<lambda>kv. Inr (kv, run, w))))
          (wait_layer_ready layer_id (w_mgr w))
      else
        (let w1 = ensure_context_positions (br_info run) layer_id w;
             (pos_t, run1) = cache_context_pos layer_id (get_context_positions (w_ctx w1) layer_id) run
         in Some (rbind (get_kv (w_hack w1) layer_id) (\<lambda>(k, v).
               case (k, v) of
                 (Some kt, Some vt) \<Rightarrow>
                   rbind (index_select kt pos_t) (\<lambda>ck. rbind (index_select vt pos_t) (\<lambda>cv.
                   Inr ((Some ck, Some cv), run1, w1)))
               | _ \<Rightarrow> Inl AttributeError))))"

text \<open>The rotation of the digest K at its original positions; online it happens in the pool's own
  memory.\<close>

definition rotate_context ::
    "('c, 's) blend_env \<Rightarrow> int \<Rightarrow> int list \<Rightarrow> tensor \<Rightarrow> 's world \<Rightarrow> (tensor \<times> 's world) res" where
  "rotate_context env layer_id pos_t ctx_k w =
     (case be_rotary env of
        None \<Rightarrow> Inr (ctx_k, w)
      | Some rot \<Rightarrow>
          if t_shape ctx_k \<noteq> [] \<and> 0 < hd (t_shape ctx_k) then
            rbind (rot pos_t (be_empty env ctx_k) ctx_k) (\<lambda>(_, k', mem).
              if sm_online (w_mgr w) then
                rbind (py_set (ctx_k_buffer (w_ctx w)) layer_id (Some mem)) (\<lambda>ks.
                Inr (k', w\<lparr>w_ctx := (w_ctx w)\<lparr>ctx_k_buffer := ks\<rparr>\<rparr>))
              else Inr (k', w))
          else Inr (ctx_k, w))"

text \<open>The metadata the attention backend needs, set by the first layer.\<close>

definition context_metadata :: "int \<Rightarrow> int \<Rightarrow> int \<Rightarrow> blend_run \<Rightarrow> blend_run" where
  "context_metadata ctx_total query_len ctx_len run =
     (if bi_positions (br_info run) = None then
        run\<lparr>br_info := (br_info run)\<lparr>bi_positions := Some (py_range ctx_total (ctx_total + query_len))\<rparr>,
            br_q_len := query_len, br_kv_len := ctx_len + query_len,
            br_q_positions := py_range ctx_len (ctx_len + query_len),
            br_q_start_loc := [0], br_q_lens := [query_len], br_kv_start_loc := [0],
            br_kv_lens := [ctx_len + query_len]\<rparr>
      else run)"

definition rows :: "tensor \<Rightarrow> int res" where
  "rows t = (case t_shape t of [] \<Rightarrow> Inl IndexError | n # _ \<Rightarrow> Inr n)"

definition cat_kv :: "tensor option \<Rightarrow> tensor \<Rightarrow> tensor res" where
  "cat_kv ctx t = (case ctx of None \<Rightarrow> Inl TypeError | Some c \<Rightarrow> cat0 c t)"

definition finish_qcompute ::
    "('c, 's) blend_env \<Rightarrow> int \<Rightarrow> qkv \<Rightarrow> tensor option \<times> tensor option \<Rightarrow> blend_run \<Rightarrow> 's world
     \<Rightarrow> (qkv \<times> blend_run \<times> 's world) res" where
  "finish_qcompute env layer_id t kv run w =
     (let (q, k, v) = t; (ctx_k, ctx_v) = kv;
          w1 = ensure_context_positions (br_info run) layer_id w;
          pos = get_context_positions (w_ctx w1) layer_id
      in case ctx_k of
           None \<Rightarrow> Inl AttributeError
         | Some ck \<Rightarrow>
             rbind (rows ck) (\<lambda>n.
             if int (length pos) \<noteq> n then Inl (ValueError ''ContextBlend QCOMPUTE position/KV mismatch'')
             else
               let (pos_t, run1) = cache_context_pos layer_id pos run
               in rbind (rotate_context env layer_id pos_t ck w1) (\<lambda>(ck', w2).
                  rbind (rows q) (\<lambda>query_len.
                  rbind (rows ck') (\<lambda>n'.
                  let run2 = context_metadata (total_tokens (w_ctx w2)) query_len n' run1
                  in rbind (apply_rotary (be_rotary env) (the (bi_positions (br_info run2))) q k) (\<lambda>(q', k').
                     rbind (cat0 ck' k') (\<lambda>k_cat.
                     rbind (cat_kv ctx_v v) (\<lambda>v_cat.
                     Inr ((q', k_cat, v_cat), run2, w2)))))))))"

definition blend_qcompute ::
    "('c, 's) blend_env \<Rightarrow> int \<Rightarrow> qkv \<Rightarrow> blend_run \<Rightarrow> 's world \<Rightarrow> 's blended" where
  "blend_qcompute env layer_id t run w =
     map_option (\<lambda>r. rbind r (\<lambda>(kv, run1, w1). finish_qcompute env layer_id t kv run1 w1)) (context_kv layer_id run w)"

section \<open>DO_BLEND\<close>

text \<open>The K and Q layers the ATTN selection reads.\<close>

definition selection_layers :: "blend_info \<Rightarrow> kv_pool \<Rightarrow> (tensor option list \<times> tensor option list) res" where
  "selection_layers info p =
     (case bi_critical_layers info of
        Some (l # ls) \<Rightarrow>
          rbind (get_kv_layers p (l # ls)) (\<lambda>(ks, _). rbind (get_q_layers p (l # ls)) (\<lambda>qs. Inr (ks, qs)))
      | _ \<Rightarrow> (case (bi_attn_start info, bi_attn_end info) of
               (Some a, Some b) \<Rightarrow> Inr (fst (get_all_kv p a b), get_all_q p a b)
             | _ \<Rightarrow> Inl TypeError))"

definition start_selection ::
    "('c, 's) blend_env \<Rightarrow> int list \<Rightarrow> blend_info \<Rightarrow> 's world \<Rightarrow> (int list \<times> int list) res option" where
  "start_selection env positions info w =
     (if bi_ratio info \<le> 0 then Some (select_indices (be_sel env) (be_rotary env) info (w_hack w) None None None)
      else
        map_option (\<lambda>r. rbind r (\<lambda>_. rbind (selection_layers info (w_hack w)) (\<lambda>(old_k, old_q).
            select_indices (be_sel env) (be_rotary env) info (w_hack w) (Some old_k) (Some old_q) (Some positions))))
          (if sm_online (w_mgr w) then wait_task_b (w_mgr w) else Some (Inr ())))"

definition zeros_like :: "tensor \<Rightarrow> tensor" where
  "zeros_like t = t\<lparr>t_data := replicate (length (t_data t)) 0\<rparr>"

definition blend_start_layer ::
    "('c, 's) blend_env \<Rightarrow> qkv \<Rightarrow> int list \<Rightarrow> blend_run \<Rightarrow> 's world \<Rightarrow> 's blended" where
  "blend_start_layer env t positions run w =
     (let (q, k, v) = t; info = (br_info run)\<lparr>bi_init_attmeta := True\<rparr>
      in map_option (\<lambda>r. rbind r (\<lambda>(indices, lens).
           rbind (rmap (py_get positions) indices) (\<lambda>pos.
           let run1 = run\<lparr>br_info := info\<lparr>bi_top_indices := Some indices, bi_top_lens := Some lens,
                                            bi_positions := Some pos\<rparr>,
                          br_fake_q := Some (zeros_like q)\<rparr>
           in rbind (apply_rotary (be_rotary env) positions q k) (\<lambda>(q', k').
              rbind (take_rows q' indices) (\<lambda>q_sel. Inr ((q_sel, k', v), run1, w))))))
         (start_selection env positions info w))"

text \<open>Whether a later layer may write into the tensors of the pool instead of a copy.\<close>

definition mutates_pool :: "blend_info \<Rightarrow> int \<Rightarrow> 's world \<Rightarrow> bool res" where
  "mutates_pool info layer_id w =
     (if bi_style info = Some DO_BLEND_FINISH then Inr True
      else if sm_online (w_mgr w) then
        (case bi_keep_layers_set info of None \<Rightarrow> Inl TypeError | Some keep \<Rightarrow> Inr (layer_id \<notin> set keep))
      else Inr False)"

text \<open>\<open>_, old_k = rotary_emb(positions, blend_info.fake_q, old_k)\<close>: the rotated K and the memory of
  the argument.\<close>

definition rotate_old :: "rotary option \<Rightarrow> int list \<Rightarrow> tensor option \<Rightarrow> tensor \<Rightarrow> (tensor \<times> tensor) res" where
  "rotate_old rotary_emb positions fake_q old_k =
     (case rotary_emb of
        None \<Rightarrow> Inr (old_k, old_k)
      | Some rot \<Rightarrow>
          (case fake_q of
             None \<Rightarrow> Inl AttributeError
           | Some fq \<Rightarrow> rbind (rot positions fq old_k) (\<lambda>(_, k', mem). Inr (k', mem))))"

definition finish_later_layer ::
    "('c, 's) blend_env \<Rightarrow> int \<Rightarrow> qkv \<Rightarrow> int list \<Rightarrow> blend_run \<Rightarrow> 's world \<Rightarrow> (qkv \<times> blend_run \<times> 's world) res" where
  "finish_later_layer env layer_id t positions run w =
     (let (q, k, v) = t; info = br_info run
      in rbind (get_kv (w_hack w) layer_id) (\<lambda>(ok, ov).
         rbind (mutates_pool info layer_id w) (\<lambda>in_place.
         case (ok, ov, bi_top_indices info) of
           (Some old_k, Some old_v, Some indices) \<Rightarrow>
             rbind (put_rows old_k indices k) (\<lambda>new_k.
             rbind (put_rows old_v indices v) (\<lambda>new_v.
             rbind (case bi_positions info of None \<Rightarrow> Inl TypeError
                    | Some pos \<Rightarrow> apply_rotary (be_rotary env) pos q k) (\<lambda>(q', _).
             rbind (rotate_old (be_rotary env) positions (br_fake_q run) new_k) (\<lambda>(k', mem).
             rbind (if in_place then rbind (pool_store (w_hack w) layer_id (mem, new_v)) (\<lambda>p. Inr (w\<lparr>w_hack := p\<rparr>))
                    else Inr w) (\<lambda>w'.
             Inr ((q', k', new_v), run, w'))))))
         | _ \<Rightarrow> Inl TypeError)))"

definition blend_later_layer ::
    "('c, 's) blend_env \<Rightarrow> int \<Rightarrow> qkv \<Rightarrow> int list \<Rightarrow> blend_run \<Rightarrow> 's world \<Rightarrow> 's blended" where
  "blend_later_layer env layer_id t positions run w =
     map_option (\<lambda>r. rbind r (\<lambda>_. finish_later_layer env layer_id t positions run w))
       (if sm_online (w_mgr w) then wait_layer_ready layer_id (w_mgr w) else Some (Inr ()))"

section \<open>The dispatch\<close>

definition plain_rotary ::
    "('c, 's) blend_env \<Rightarrow> qkv \<Rightarrow> int list \<Rightarrow> blend_run \<Rightarrow> 's world \<Rightarrow> 's blended" where
  "plain_rotary env t positions run w =
     (let (q, k, v) = t
      in done_with run w (rbind (apply_rotary (be_rotary env) positions q k) (\<lambda>(q', k'). Inr (q', k', v))))"

definition blend ::
    "('c, 's) blend_env \<Rightarrow> int \<Rightarrow> qkv \<Rightarrow> int list \<Rightarrow> blend_run \<Rightarrow> 's world \<Rightarrow> 's blended" where
  "blend env layer_id t positions run w =
     (let info = br_info run
      in case bi_style info of
           Some KVCOMPUTE \<Rightarrow> blend_kvcompute env layer_id t run w
         | Some QCOMPUTE \<Rightarrow>
             if bi_is_contextblend info then blend_qcompute env layer_id t run w
             else plain_rotary env t positions run w
         | None \<Rightarrow> plain_rotary env t positions run w
         | Some _ \<Rightarrow>
             if layer_id < bi_start info then plain_rotary env t positions run w
             else if layer_id = bi_start info then blend_start_layer env t positions run w
             else blend_later_layer env layer_id t positions run w)"

end
