(* ===== verification/Hooks.thy ===== *)
theory Hooks
  imports Blend
begin

text \<open>
  A forward pass with blending: \<open>TritonAttnBackend.forward_extend_blend\<close> and the dispatch of
  \<open>AttentionBackend.forward\<close>, the attention, decoder layer, layer loop and \<open>end_layer\<close> handling of
  \<open>srt/models/qwen3.py\<close> (the loop is in \<open>qwen2.py\<close>), and \<open>_post_forward_blend_cleanup\<close> of
  \<open>srt/managers/tp_worker.py\<close>. One pipeline stage. The projections, norms, MLPs and attention kernels
  are functions of the environment; the paged K/V memory is a state of its own type that only
  the kernels and \<open>set_kv_buffer\<close> use.
\<close>

section \<open>Environment and state\<close>

record ('c, 's, 'p) forward_env =
  fe_blend :: "('c, 's) blend_env"
  fe_ops :: "'s num_ops"
  fe_mat :: "tensor \<Rightarrow> 's mat"
  fe_mat_rotary :: "(int list \<Rightarrow> 's mat \<Rightarrow> 's mat \<Rightarrow> 's mat \<times> 's mat) option"
  fe_qkv :: "int \<Rightarrow> tensor \<Rightarrow> qkv res"
  fe_new_empty :: "tensor \<Rightarrow> tensor"
  fe_decode :: "int \<Rightarrow> qkv \<Rightarrow> 'p \<Rightarrow> (tensor \<times> 'p) res"
  fe_extend :: "int \<Rightarrow> qkv \<Rightarrow> 'p \<Rightarrow> (tensor \<times> 'p) res"
  fe_ragged :: "int \<Rightarrow> qkv \<Rightarrow> triton_meta \<Rightarrow> tensor res"
  fe_context :: "int \<Rightarrow> qkv \<Rightarrow> triton_meta \<Rightarrow> tensor res"
  fe_set_kv :: "int \<Rightarrow> tensor \<Rightarrow> tensor \<Rightarrow> 'p \<Rightarrow> 'p res"
  fe_o_proj :: "int \<Rightarrow> tensor \<Rightarrow> tensor"
  fe_prepare_attn :: "int \<Rightarrow> tensor \<Rightarrow> tensor option \<Rightarrow> tensor \<times> tensor"
  fe_prepare_mlp :: "int \<Rightarrow> tensor \<Rightarrow> tensor \<Rightarrow> tensor \<times> tensor"
  fe_mlp :: "int \<Rightarrow> tensor \<Rightarrow> tensor"
  fe_postprocess :: "int \<Rightarrow> tensor \<Rightarrow> tensor \<Rightarrow> tensor \<times> tensor"
  fe_add :: "tensor \<Rightarrow> tensor \<Rightarrow> tensor"

record ('s, 'p) fstate =
  fs_run :: "blend_run option"
  fs_world :: "'s world"
  fs_kv :: 'p

text \<open>Sequencing of steps that may still wait.\<close>

definition wbind :: "'a res option \<Rightarrow> ('a \<Rightarrow> 'b res option) \<Rightarrow> 'b res option" where
  "wbind m f = (case m of None \<Rightarrow> None | Some (Inl e) \<Rightarrow> Some (Inl e) | Some (Inr x) \<Rightarrow> f x)"

lemma wbind_simps [simp]:
  "wbind None f = None" "wbind (Some (Inl e)) f = Some (Inl e)" "wbind (Some (Inr x)) f = f x"
  by (simp_all add: wbind_def)

lemma wbind_Inr_iff: "wbind m f = Some (Inr y) \<longleftrightarrow> (\<exists>x. m = Some (Inr x) \<and> f x = Some (Inr y))"
  by (auto simp: wbind_def split: option.splits sum.splits)

section \<open>Attention backend\<close>

definition context_meta :: "blend_run \<Rightarrow> triton_meta" where
  "context_meta run =
     \<lparr>tm_q_start_loc = br_q_start_loc run, tm_q_lens = br_q_lens run, tm_kv_start_loc = br_kv_start_loc run,
      tm_kv_lens = br_kv_lens run, tm_max_q_len = br_q_len run, tm_q_positions = Some (br_q_positions run)\<rparr>"

definition triton_blend_meta :: "blend_run \<Rightarrow> bool \<Rightarrow> (triton_meta \<times> blend_run) res" where
  "triton_blend_meta run is_do_blend =
     (if bi_init_attmeta (br_info run) then
        rbind (init_triton_blend_metadata (br_info run) is_do_blend) (\<lambda>(m, info).
        Inr (m, run\<lparr>br_info := info, br_triton := Some m\<rparr>))
      else (case br_triton run of None \<Rightarrow> Inl AttributeError | Some m \<Rightarrow> Inr (m, run)))"

definition forward_extend_blend ::
    "('c, 's, 'p) forward_env \<Rightarrow> int \<Rightarrow> qkv \<Rightarrow> blend_run \<Rightarrow> 'p \<Rightarrow> (tensor \<times> blend_run \<times> 'p) res" where
  "forward_extend_blend env layer_id t run p =
     (let info = br_info run; is_do_blend = (bi_style info \<in> {Some DO_BLEND, Some DO_BLEND_FINISH});
          extend = rbind (fe_extend env layer_id t p) (\<lambda>(out, p'). Inr (out, run, p'))
      in if bi_style info = Some QCOMPUTE then
           if bi_is_contextblend info then rbind (fe_ragged env layer_id t (context_meta run)) (\<lambda>out. Inr (out, run, p))
           else extend
         else if is_do_blend \<and> bi_top_lens info = None then extend
         else
           rbind (triton_blend_meta run is_do_blend) (\<lambda>(m, run').
           rbind (fe_set_kv env layer_id (fst (snd t)) (snd (snd t)) p) (\<lambda>p'.
           rbind (if is_do_blend then fe_ragged env layer_id t m else fe_context env layer_id t m) (\<lambda>out.
           Inr (out, run', p')))))"

definition backend_forward ::
    "('c, 's, 'p) forward_env \<Rightarrow> forward_mode \<Rightarrow> int \<Rightarrow> qkv \<Rightarrow> blend_run option \<Rightarrow> 'p
     \<Rightarrow> (tensor \<times> blend_run option \<times> 'p) res" where
  "backend_forward env mode layer_id t run p =
     (let plain = (\<lambda>f. rbind (f layer_id t p) (\<lambda>(out, p'). Inr (out, run, p')))
      in if mode = IDLE then Inr (fe_new_empty env (fst t), run, p)
         else if mode = DECODE then plain (fe_decode env)
         else
           (case run of
              Some r \<Rightarrow>
                if bi_style (br_info r) \<noteq> None then
                  rbind (forward_extend_blend env layer_id t r p) (\<lambda>(out, r', p'). Inr (out, Some r', p'))
                else plain (fe_extend env)
            | None \<Rightarrow> plain (fe_extend env)))"

section \<open>The attention layer\<close>

text \<open>\<open>tensor[idx]\<close>; indexing with \<open>None\<close> adds a leading dimension.\<close>

definition index_opt :: "tensor \<Rightarrow> int list option \<Rightarrow> tensor res" where
  "index_opt t idx = (case idx of Some js \<Rightarrow> take_rows t js | None \<Rightarrow> Inr (t\<lparr>t_shape := 1 # t_shape t\<rparr>))"

definition collect_kv ::
    "('c, 's, 'p) forward_env \<Rightarrow> int \<Rightarrow> qkv \<Rightarrow> blend_info \<Rightarrow> 's world \<Rightarrow> (blend_info \<times> 's world) res" where
  "collect_kv env layer_id t info w =
     (let (q, k, v) = t
      in if bi_style info = Some KVCOMPUTE then
           rbind (put_kv k v layer_id (w_hack w)) (\<lambda>p.
           rbind (accumulate_kvzip_layer_score (fe_ops env) (be_empty_pos (fe_blend env)) (be_empty_loc (fe_blend env))
                    (Some info) layer_id (fe_mat env q) (fe_mat env k) (fe_mat_rotary env) (w_digest w)) (\<lambda>(d, oi).
           Inr (case oi of None \<Rightarrow> info | Some i \<Rightarrow> i, w\<lparr>w_hack := p, w_digest := d\<rparr>)))
         else Inr (info, w))"

definition collect_q :: "int \<Rightarrow> tensor \<Rightarrow> tensor \<Rightarrow> blend_info \<Rightarrow> 's world \<Rightarrow> 's world res" where
  "collect_q layer_id q k info w =
     (if should_collect_q info layer_id then
        rbind (rbind (index_opt q (bi_quest_indices info)) (\<lambda>qs. put_q qs layer_id (w_hack w))) (\<lambda>p.
        case bi_query_indices info of
          None \<Rightarrow> Inr (w\<lparr>w_hack := p\<rparr>)
        | Some idx \<Rightarrow>
            rbind (rbind (take_rows k idx) (\<lambda>ks. put_query_k ks layer_id p)) (\<lambda>p'. Inr (w\<lparr>w_hack := p'\<rparr>)))
      else Inr w)"

definition blend_hook ::
    "('c, 's, 'p) forward_env \<Rightarrow> int \<Rightarrow> qkv \<Rightarrow> int list \<Rightarrow> blend_run \<Rightarrow> 's world \<Rightarrow> 's blended" where
  "blend_hook env layer_id t positions run w =
     wbind (Some (collect_kv env layer_id t (br_info run) w)) (\<lambda>(info, w1).
     wbind (Some (collect_q layer_id (fst t) (fst (snd t)) info w1)) (\<lambda>w2.
     blend (fe_blend env) layer_id t positions (run\<lparr>br_info := info\<rparr>) w2))"

definition attention_forward ::
    "('c, 's, 'p) forward_env \<Rightarrow> forward_mode \<Rightarrow> int \<Rightarrow> int list \<Rightarrow> tensor \<Rightarrow> ('s, 'p) fstate
     \<Rightarrow> (tensor \<times> ('s, 'p) fstate) res option" where
  "attention_forward env mode layer_id positions hidden st =
     wbind (Some (fe_qkv env layer_id hidden)) (\<lambda>t.
     wbind (case (is_prefill mode, fs_run st) of
              (True, Some run) \<Rightarrow>
                wbind (blend_hook env layer_id t positions run (fs_world st)) (\<lambda>(t', run', w').
                Some (Inr (t', st\<lparr>fs_run := Some run', fs_world := w'\<rparr>)))
            | _ \<Rightarrow>
                Some (case be_rotary (fe_blend env) of
                        None \<Rightarrow> Inl TypeError
                      | Some rot \<Rightarrow> (case t of (q, k, v) \<Rightarrow>
                          rbind (rot positions q k) (\<lambda>(q', k', _). Inr ((q', k', v), st))))) (\<lambda>(t', st').
     wbind (Some (backend_forward env mode layer_id t' (fs_run st') (fs_kv st'))) (\<lambda>(out, run', p').
     Some (Inr (fe_o_proj env layer_id out, st'\<lparr>fs_run := run', fs_kv := p'\<rparr>)))))"

section \<open>The decoder layers\<close>

text \<open>The residual rows that go on after the start layer of a blend round.\<close>

definition blend_residual ::
    "forward_mode \<Rightarrow> int \<Rightarrow> blend_run option \<Rightarrow> tensor \<Rightarrow> tensor res" where
  "blend_residual mode layer_id run residual =
     (case (is_prefill mode, run) of
        (True, Some r) \<Rightarrow>
          (let info = br_info r
           in if layer_id = bi_start info \<and> bi_style info \<in> {Some DO_BLEND, Some DO_BLEND_FINISH}
              then index_opt residual (bi_top_indices info) else Inr residual)
      | _ \<Rightarrow> Inr residual)"

definition decoder_layer ::
    "('c, 's, 'p) forward_env \<Rightarrow> forward_mode \<Rightarrow> int \<Rightarrow> int list \<Rightarrow> tensor \<Rightarrow> tensor option \<Rightarrow> ('s, 'p) fstate
     \<Rightarrow> ((tensor \<times> tensor) \<times> ('s, 'p) fstate) res option" where
  "decoder_layer env mode layer_id positions hidden residual st =
     (let (h, r) = fe_prepare_attn env layer_id hidden residual
      in wbind (Some (rows h)) (\<lambda>n.
         wbind (if n \<noteq> 0 then attention_forward env mode layer_id positions h st else Some (Inr (h, st))) (\<lambda>(h', st').
         wbind (Some (blend_residual mode layer_id (fs_run st') r)) (\<lambda>r'.
         let (h2, r2) = fe_prepare_mlp env layer_id h' r'
         in Some (Inr (fe_postprocess env layer_id (fe_mlp env layer_id h2) r2, st'))))))"

text \<open>The loop over the layers; \<open>capture\<close> are the layers whose input is also returned.\<close>

fun run_layers ::
    "('c, 's, 'p) forward_env \<Rightarrow> forward_mode \<Rightarrow> int \<Rightarrow> int list \<Rightarrow> int list \<Rightarrow> int list \<Rightarrow> tensor \<times> tensor option
     \<Rightarrow> tensor list \<Rightarrow> ('s, 'p) fstate \<Rightarrow> ((tensor \<times> tensor option) \<times> tensor list \<times> ('s, 'p) fstate) res option" where
  "run_layers env mode num_layers capture positions [] hr aux st = Some (Inr (hr, aux, st))"
| "run_layers env mode num_layers capture positions (i # is) hr aux st =
     (let (h, r) = hr;
          aux' = (if i \<in> set capture then aux @ [case r of None \<Rightarrow> h | Some x \<Rightarrow> fe_add env h x] else aux)
      in if i < 0 \<or> num_layers \<le> i then Some (Inl IndexError)
         else wbind (decoder_layer env mode i positions h r st) (\<lambda>((h', r'), st').
              run_layers env mode num_layers capture positions is (h', Some r') aux' st'))"

text \<open>The layers a pass runs, and \<open>end_layer\<close> afterwards.\<close>

definition is_qcompute :: "forward_mode \<Rightarrow> blend_run option \<Rightarrow> bool" where
  "is_qcompute mode run \<longleftrightarrow>
     is_prefill mode \<and> (case run of None \<Rightarrow> False | Some r \<Rightarrow> bi_style (br_info r) = Some QCOMPUTE)"

definition pass_end_layer :: "forward_mode \<Rightarrow> blend_run option \<Rightarrow> int \<Rightarrow> int res" where
  "pass_end_layer mode run end_layer =
     (case run of
        Some r \<Rightarrow>
          if is_qcompute mode run then
            (case bi_qcompute_end (br_info r) of
               Some e \<Rightarrow> if e \<noteq> 0 then Inr e
                 else (case bi_attn_end (br_info r) of None \<Rightarrow> Inl TypeError | Some a \<Rightarrow> Inr a)
             | None \<Rightarrow> (case bi_attn_end (br_info r) of None \<Rightarrow> Inl TypeError | Some a \<Rightarrow> Inr a))
          else Inr end_layer
      | None \<Rightarrow> Inr end_layer)"

definition model_forward ::
    "('c, 's, 'p) forward_env \<Rightarrow> forward_mode \<Rightarrow> int \<Rightarrow> int list \<Rightarrow> int list \<Rightarrow> tensor \<Rightarrow> int \<Rightarrow> ('s, 'p) fstate
     \<Rightarrow> (((tensor \<times> tensor option) \<times> tensor list) \<times> int \<times> ('s, 'p) fstate) res option" where
  "model_forward env mode num_layers capture positions embeds end_layer st =
     wbind (Some (pass_end_layer mode (fs_run st) end_layer)) (\<lambda>stop.
     wbind (run_layers env mode num_layers capture positions (py_range 0 stop) (embeds, None) [] st) (\<lambda>(hr, aux, st').
     Some (Inr ((hr, aux), if is_qcompute mode (fs_run st') then num_layers else stop, st'))))"

section \<open>After the pass\<close>

definition post_forward_blend_cleanup :: "blend_info option \<Rightarrow> 's world \<Rightarrow> 's world res" where
  "post_forward_blend_cleanup obi w =
     (case obi of
        None \<Rightarrow> Inr w
      | Some info \<Rightarrow>
          if bi_style info = Some KVCOMPUTE \<and> sm_offline (w_mgr w) then Inr (w\<lparr>w_hack := pool_clear, w_ctx := ctx_clear\<rparr>)
          else if bi_style info = Some DO_BLEND \<and> sm_online (w_mgr w) then
            clear_do_blend_layers (case bi_att_params info of Some ap \<Rightarrow> ap_num_layers ap | None \<Rightarrow> 32)
              (case bi_keep_layers_set info of None \<Rightarrow> [] | Some s \<Rightarrow> s) w
          else if bi_style info = Some DO_BLEND_FINISH then Inr (cleanup_runtime_state w)
          else Inr w)"

definition forward_batch_generation ::
    "('c, 's, 'p) forward_env \<Rightarrow> forward_mode \<Rightarrow> int \<Rightarrow> int list \<Rightarrow> int list \<Rightarrow> tensor \<Rightarrow> int \<Rightarrow> ('s, 'p) fstate
     \<Rightarrow> (((tensor \<times> tensor option) \<times> tensor list) \<times> int \<times> ('s, 'p) fstate) res option" where
  "forward_batch_generation env mode num_layers capture positions embeds end_layer st =
     wbind (model_forward env mode num_layers capture positions embeds end_layer st) (\<lambda>(out, end_layer', st').
     wbind (Some (post_forward_blend_cleanup (map_option br_info (fs_run st')) (fs_world st'))) (\<lambda>w'.
     Some (Inr (out, end_layer', st'\<lparr>fs_world := w'\<rparr>))))"

end
