(* ===== verification/BlendCorrect.thy ===== *)
theory BlendCorrect
  imports Blend
begin

text \<open>
  Correctness of \<open>CacheBlender.blend\<close>: what the row assignment of DO_BLEND does, that a kept layer
  survives a round unchanged, and that the tensors QCOMPUTE hands to attention fit its metadata.
\<close>

section \<open>Row assignment\<close>

lemma set_row_frame [simp]:
  "t_shape (set_row t x) = t_shape t" "t_dtype (set_row t x) = t_dtype t" "row_nbytes (set_row t x) = row_nbytes t"
  by (simp_all add: set_row_def Let_def row_nbytes_def split: prod.splits)

lemma length_set_row:
  assumes "length r = row_nbytes t" "(i + 1) * row_nbytes t \<le> length (t_data t)"
  shows "length (t_data (set_row t (i, r))) = length (t_data t)"
  using assms by (simp add: set_row_def Let_def)

lemma take_drop_block:
  assumes "length r = n" "(i + 1) * n \<le> length xs"
  shows "take n (drop (j * n) (take (i * n) xs @ r @ drop ((i + 1) * n) xs)) = (if j = i then r else take n (drop (j * n) xs))"
proof -
  have le: "i * n + n \<le> length xs" using assms(2) by (simp add: algebra_simps)
  consider "j < i" | "j = i" | "i < j" by linarith
  then show ?thesis
  proof cases
    case 1
    then have "j * n + n \<le> i * n" by (metis Suc_leI add.commute mult_Suc mult_le_mono1)
    then have "take n (drop (j * n) (take (i * n) xs @ r @ drop ((i + 1) * n) xs)) = take n (drop (j * n) (take (i * n) xs))"
      using le by simp
    also have "\<dots> = take n (drop (j * n) xs)" using \<open>j * n + n \<le> i * n\<close> by (simp add: drop_take min_def)
    finally show ?thesis using 1 by simp
  next
    case 2
    then show ?thesis using le assms(1) by simp
  next
    case 3
    then have "i * n + n \<le> j * n" by (metis Suc_leI add.commute mult_Suc mult_le_mono1)
    then have d: "i * n + n + (j * n - (i * n + n)) = j * n" by simp
    have "drop (j * n) (take (i * n) xs @ r @ drop ((i + 1) * n) xs) = drop (j * n - (i * n + n)) (drop (i * n + n) xs)"
      using le assms(1) \<open>i * n + n \<le> j * n\<close> 3 by (simp add: algebra_simps)
    then show ?thesis using 3 d by (simp add: add.commute)
  qed
qed

lemma t_row_set_row:
  assumes "length r = row_nbytes t" "(i + 1) * row_nbytes t \<le> length (t_data t)"
  shows "t_row (set_row t (i, r)) (int j) = (if j = i then r else t_row t (int j))"
proof -
  have d: "t_data (set_row t (i, r)) = take (i * row_nbytes t) (t_data t) @ r @ drop ((i + 1) * row_nbytes t) (t_data t)"
    by (simp add: set_row_def Let_def)
  show ?thesis by (simp only: t_row_def d set_row_frame nat_int take_drop_block [OF assms])
qed

text \<open>Assigning rows one after another.\<close>

lemma fold_set_row:
  assumes "\<forall>(i, r) \<in> set irs. length r = row_nbytes t \<and> (i + 1) * row_nbytes t \<le> length (t_data t)"
  defines "u \<equiv> fold (\<lambda>x v. set_row v x) irs t"
  shows "t_shape u = t_shape t \<and> t_dtype u = t_dtype t \<and> length (t_data u) = length (t_data t) \<and>
    (\<forall>j. t_row u (int j) = (case map_of (rev irs) j of Some r \<Rightarrow> r | None \<Rightarrow> t_row t (int j)))"
  using assms(1) unfolding u_def
proof (induction irs arbitrary: t)
  case (Cons x irs)
  obtain i r where x: "x = (i, r)" by (cases x)
  have ir: "length r = row_nbytes t" "(i + 1) * row_nbytes t \<le> length (t_data t)" using Cons.prems x by auto
  let ?t = "set_row t (i, r)"
  have l: "length (t_data ?t) = length (t_data t)" by (rule length_set_row [OF ir])
  have "\<forall>(i, r) \<in> set irs. length r = row_nbytes ?t \<and> (i + 1) * row_nbytes ?t \<le> length (t_data ?t)"
    using Cons.prems by (auto simp: l)
  from Cons.IH [OF this] show ?case
    using t_row_set_row [OF ir] l by (auto simp: x map_add_def split: option.splits)
qed simp

lemma map_of_rev_zip:
  assumes "distinct js" "length rs = length js"
  shows "m < length js \<Longrightarrow> map_of (rev (zip js rs)) (js ! m) = Some (rs ! m)"
    "j \<notin> set js \<Longrightarrow> map_of (rev (zip js rs)) j = None"
proof -
  assume m: "m < length js"
  have d: "distinct (map fst (rev (zip js rs)))" using assms by (simp add: rev_map [symmetric])
  have "(js ! m, rs ! m) \<in> set (rev (zip js rs))" using m assms(2) by (auto simp: in_set_zip)
  with d show "map_of (rev (zip js rs)) (js ! m) = Some (rs ! m)" by (rule map_of_is_SomeI)
next
  assume "j \<notin> set js"
  then have "j \<notin> fst ` set (rev (zip js rs))" by (auto simp: in_set_zip)
  then show "map_of (rev (zip js rs)) j = None" by (simp add: map_of_eq_None_iff)
qed

lemma row_indices_nonneg:
  assumes "t_shape t = n # ds" "\<forall>i \<in> set idx. 0 \<le> i \<and> i < n"
  shows "row_indices t idx = Inr (map nat idx)"
  using assms by (auto simp: row_indices_def intro!: rmap_all_Inr)

text \<open>The rows of \<open>t\<close> after \<open>t[idx] = k\<close>, for different indices in range.\<close>

lemma put_rows_ok:
  assumes "tensor_wf t" "tensor_wf k" "t_shape t = n # ds" "t_shape k = int (length idx) # ds" "t_dtype k = t_dtype t"
    and "distinct idx" "\<forall>i \<in> set idx. 0 \<le> i \<and> i < n"
  shows "\<exists>u. put_rows t idx k = Inr u \<and> tensor_wf u \<and> t_shape u = t_shape t \<and> t_dtype u = t_dtype t \<and>
    (\<forall>m < length idx. t_row u (idx ! m) = t_row k (int m)) \<and>
    (\<forall>j. 0 \<le> j \<and> j \<notin> set idx \<longrightarrow> t_row u j = t_row t j)"
proof -
  let ?js = "map nat idx" and ?rs = "map (\<lambda>m. t_row k (int m)) [0..<length idx]"
  let ?u = "fold (\<lambda>x u. set_row u x) (zip ?js ?rs) t"
  have nb: "row_nbytes k = row_nbytes t" using assms(3-5) by (simp add: row_nbytes_def)
  have ok: "\<forall>(i, r) \<in> set (zip ?js ?rs). length r = row_nbytes t \<and> (i + 1) * row_nbytes t \<le> length (t_data t)"
  proof (rule ballI, clarify)
    fix i r assume "(i, r) \<in> set (zip ?js ?rs)"
    then obtain m where m: "m < length idx" "i = nat (idx ! m)" "r = t_row k (int m)" by (auto simp: in_set_zip)
    have "length r = row_nbytes t" using length_t_row [OF assms(2,4), of "int m"] m by (simp add: nb)
    moreover have "nat (idx ! m) + 1 \<le> nat n" using assms(7) m(1) nth_mem by fastforce
    then have "(i + 1) * row_nbytes t \<le> nat n * row_nbytes t" unfolding m(2) by (rule mult_le_mono1)
    ultimately show "length r = row_nbytes t \<and> (i + 1) * row_nbytes t \<le> length (t_data t)"
      using tensor_wf_length [OF assms(1,3)] by simp
  qed
  note f = fold_set_row [OF ok]
  have put: "put_rows t idx k = Inr ?u"
    using assms(3-5) by (simp add: put_rows_def row_indices_nonneg [OF assms(3,7)])
  have d: "distinct ?js" using assms(6,7) by (simp add: distinct_map inj_on_def) (metis eq_nat_nat_iff)
  have "t_row ?u (idx ! m) = t_row k (int m)" if "m < length idx" for m
  proof -
    have i: "int (?js ! m) = idx ! m" using assms(7) that by simp
    have "t_row ?u (int (?js ! m)) = (case map_of (rev (zip ?js ?rs)) (?js ! m) of Some r \<Rightarrow> r | None \<Rightarrow> t_row t (int (?js ! m)))"
      using f by blast
    also have "map_of (rev (zip ?js ?rs)) (?js ! m) = Some (?rs ! m)" using that by (intro map_of_rev_zip(1) [OF d]) simp_all
    finally show ?thesis using that by (simp only: i) simp
  qed
  moreover have "t_row ?u j = t_row t j" if "0 \<le> j" "j \<notin> set idx" for j
  proof -
    have "nat j \<notin> set ?js"
    proof
      assume "nat j \<in> set ?js"
      then obtain i where "i \<in> set idx" "nat j = nat i" by auto
      with assms(7) that show False by (metis nat_eq_iff2 eq_nat_nat_iff)
    qed
    then have n: "map_of (rev (zip ?js ?rs)) (nat j) = None" by (intro map_of_rev_zip(2) [OF d]) simp_all
    have "t_row ?u (int (nat j)) = (case map_of (rev (zip ?js ?rs)) (nat j) of Some r \<Rightarrow> r | None \<Rightarrow> t_row t (int (nat j)))"
      using f by blast
    with n that(1) show ?thesis by simp
  qed
  moreover have "tensor_wf ?u" using f assms(1) by (simp add: tensor_wf_def)
  ultimately show ?thesis using put f by blast
qed

section \<open>A later layer\<close>

lemma blend_later:
  assumes "bi_style (br_info run) \<in> {Some DO_BLEND, Some DO_BLEND_FINISH}" "bi_start (br_info run) < l"
  shows "blend env l t positions run w = blend_later_layer env l t positions run w"
  using assms by (auto simp: blend_def Let_def)

lemma blend_later_layer_Inr:
  assumes "blend_later_layer env l t positions run w = Some (Inr r)"
  shows "finish_later_layer env l t positions run w = Inr r"
  using assms by (auto simp: blend_later_layer_def rbind_Inr_iff split: if_splits)

lemma finish_later_layer_Inr:
  assumes "finish_later_layer env l (q, k, v) positions run w = Inr ((q', k', v'), run', w')"
  shows "\<exists>old_k old_v indices in_place new_k mem. get_kv (w_hack w) l = Inr (Some old_k, Some old_v) \<and>
    mutates_pool (br_info run) l w = Inr in_place \<and> bi_top_indices (br_info run) = Some indices \<and>
    put_rows old_k indices k = Inr new_k \<and> put_rows old_v indices v = Inr v' \<and>
    rotate_old (be_rotary env) positions (br_fake_q run) new_k = Inr (k', mem) \<and> run' = run \<and>
    (if in_place then \<exists>p. pool_store (w_hack w) l (mem, v') = Inr p \<and> w' = w\<lparr>w_hack := p\<rparr> else w' = w)"
proof -
  obtain ok ov in_place where g: "get_kv (w_hack w) l = Inr (ok, ov)" "mutates_pool (br_info run) l w = Inr in_place"
    using assms by (auto simp: finish_later_layer_def rbind_Inr_iff Let_def)
  show ?thesis
  proof (cases ok; cases ov; cases "bi_top_indices (br_info run)")
    fix old_k old_v indices
    assume s: "ok = Some old_k" "ov = Some old_v" "bi_top_indices (br_info run) = Some indices"
    then show ?thesis
      using assms g by (auto simp: finish_later_layer_def rbind_Inr_iff split: if_splits option.splits)
  qed (use assms g in \<open>simp_all add: finish_later_layer_def\<close>)
qed

section \<open>Properties\<close>

text \<open>What DO_BLEND computes in a layer after the start layer. The K and V that attention uses are
  the loaded ones in which exactly the selected rows are replaced, row \<open>m\<close> of the new tensors at the
  \<open>m\<close>-th selected index, K then rotated at the positions of the whole prompt.\<close>

theorem later_layer_overwrites_selected:
  assumes "bi_style (br_info run) \<in> {Some DO_BLEND, Some DO_BLEND_FINISH}" "bi_start (br_info run) < l"
    and "get_kv (w_hack w) l = Inr (Some old_k, Some old_v)" "bi_top_indices (br_info run) = Some indices"
    and "distinct indices" "\<forall>i \<in> set indices. 0 \<le> i \<and> i < n"
    and "tensor_wf old_k \<and> tensor_wf old_v \<and> tensor_wf k \<and> tensor_wf v"
    and "t_shape old_k = n # ds \<and> t_shape k = int (length indices) # ds \<and> t_dtype k = t_dtype old_k"
    and "t_shape old_v = n # es \<and> t_shape v = int (length indices) # es \<and> t_dtype v = t_dtype old_v"
    and "blend env l (q, k, v) positions run w = Some (Inr ((q', k', v'), run', w'))"
  shows "\<exists>new_k mem. rotate_old (be_rotary env) positions (br_fake_q run) new_k = Inr (k', mem) \<and>
    t_shape new_k = t_shape old_k \<and> t_shape v' = t_shape old_v \<and>
    (\<forall>m < length indices. t_row new_k (indices ! m) = t_row k (int m) \<and> t_row v' (indices ! m) = t_row v (int m)) \<and>
    (\<forall>j. 0 \<le> j \<and> j \<notin> set indices \<longrightarrow> t_row new_k j = t_row old_k j \<and> t_row v' j = t_row old_v j)"
proof -
  from finish_later_layer_Inr [OF blend_later_layer_Inr [OF assms(10) [unfolded blend_later [OF assms(1,2)]]]] assms(3,4)
  obtain new_k mem where r: "put_rows old_k indices k = Inr new_k" "put_rows old_v indices v = Inr v'"
    "rotate_old (be_rotary env) positions (br_fake_q run) new_k = Inr (k', mem)"
    by auto
  have "\<exists>u. put_rows old_k indices k = Inr u \<and> tensor_wf u \<and> t_shape u = t_shape old_k \<and> t_dtype u = t_dtype old_k \<and>
      (\<forall>m < length indices. t_row u (indices ! m) = t_row k (int m)) \<and>
      (\<forall>j. 0 \<le> j \<and> j \<notin> set indices \<longrightarrow> t_row u j = t_row old_k j)"
    using assms(5-8) by (intro put_rows_ok [where n = n and ds = ds]) auto
  moreover have "\<exists>u. put_rows old_v indices v = Inr u \<and> tensor_wf u \<and> t_shape u = t_shape old_v \<and> t_dtype u = t_dtype old_v \<and>
      (\<forall>m < length indices. t_row u (indices ! m) = t_row v (int m)) \<and>
      (\<forall>j. 0 \<le> j \<and> j \<notin> set indices \<longrightarrow> t_row u j = t_row old_v j)"
    using assms(5-7,9) by (intro put_rows_ok [where n = n and ds = es]) auto
  ultimately show ?thesis using r by auto
qed

definition byte_rows :: "byte list \<Rightarrow> tensor" where
  "byte_rows bs = \<lparr>t_dtype = Uint8, t_shape = [int (length bs), 1], t_data = bs\<rparr>"

lemma byte_rows_wf [simp]: "tensor_wf (byte_rows bs)"
  by (simp add: tensor_wf_def byte_rows_def tensor_nbytes_def)

lemma t_row_byte_rows: "i < length bs \<Longrightarrow> t_row (byte_rows bs) (int i) = [bs ! i]"
  by (simp add: t_row_def byte_rows_def row_nbytes_def tensor_nbytes_def take_Suc_conv_app_nth [of 0, simplified] hd_drop_conv_nth)

definition example_env :: "(rat, int) blend_env" where
  "example_env = \<lparr>be_sel = example_sel_env, be_rotary = None, be_argsort = example_argsort, be_zero = 0,
     be_empty = (\<lambda>t. t), be_empty_pos = [], be_empty_loc = []\<rparr>"

definition example_run :: blend_run where
  "example_run = new_run (new_blend_info\<lparr>bi_style := Some DO_BLEND, bi_start := 0, bi_top_indices := Some [2, 0],
     bi_positions := Some [2, 0], bi_keep_layers_set := Some [1]\<rparr>)"

definition blend_world :: "int world" where
  "blend_world = example_world\<lparr>w_mgr := initial_manager\<lparr>sm_online := True, sm_events := [True, True, True]\<rparr>,
     w_hack := pool_clear\<lparr>k_buffer := [None, Some (byte_rows [1, 2, 3]), Some (byte_rows [4, 5, 6])],
                          v_buffer := [None, Some (byte_rows [11, 12, 13]), Some (byte_rows [14, 15, 16])]\<rparr>\<rparr>"


lemma put_rows_bytes:
  "put_rows (byte_rows [4, 5, 6]) [2, 0] (byte_rows [7, 6]) = Inr (byte_rows [6, 5, 7])"
  "put_rows (byte_rows [14, 15, 16]) [2, 0] (byte_rows [17, 18]) = Inr (byte_rows [18, 15, 17])"
  by code_simp+

theorem later_layer_overwrites_selected_witness:
  "\<exists>k' v' w' new_k mem. blend example_env 2 (byte_rows [9, 8], byte_rows [7, 6], byte_rows [17, 18]) [0, 1, 2] example_run
       blend_world = Some (Inr ((byte_rows [9, 8], k', v'), example_run, w')) \<and>
     rotate_old None [0, 1, 2] None new_k = Inr (k', mem) \<and>
     t_row new_k 2 = [7] \<and> t_row new_k 0 = [6] \<and> t_row new_k 1 = [5] \<and>
     t_row v' 2 = [17] \<and> t_row v' 0 = [18] \<and> t_row v' 1 = [15]"
proof -
  have run: "bi_style (br_info example_run) = Some DO_BLEND" "bi_start (br_info example_run) = 0"
    "bi_top_indices (br_info example_run) = Some [2, 0]" "br_fake_q example_run = None"
    by (simp_all add: example_run_def new_run_def)
  have g: "get_kv (w_hack blend_world) 2 = Inr (Some (byte_rows [4, 5, 6]), Some (byte_rows [14, 15, 16]))"
    by (simp add: blend_world_def get_kv_def)
  obtain k' v' w' where b: "blend example_env 2 (byte_rows [9, 8], byte_rows [7, 6], byte_rows [17, 18]) [0, 1, 2] example_run
       blend_world = Some (Inr ((byte_rows [9, 8], k', v'), example_run, w'))"
    using g by (auto simp: blend_def blend_later_layer_def finish_later_layer_def run put_rows_bytes mutates_pool_def
        wait_layer_ready_def example_run_def new_run_def example_env_def apply_rotary_def rotate_old_def blend_world_def
        initial_manager_def raise_loader_error_def pool_store_def numeral_2_eq_2)
  have "\<exists>new_k mem. rotate_old (be_rotary example_env) [0, 1, 2] (br_fake_q example_run) new_k = Inr (k', mem) \<and>
    t_shape new_k = t_shape (byte_rows [4, 5, 6]) \<and> t_shape v' = t_shape (byte_rows [14, 15, 16]) \<and>
    (\<forall>m < length [2, 0 :: int]. t_row new_k ([2, 0] ! m) = t_row (byte_rows [7, 6]) (int m) \<and>
      t_row v' ([2, 0] ! m) = t_row (byte_rows [17, 18]) (int m)) \<and>
    (\<forall>j. 0 \<le> j \<and> j \<notin> set [2, 0] \<longrightarrow> t_row new_k j = t_row (byte_rows [4, 5, 6]) j \<and> t_row v' j = t_row (byte_rows [14, 15, 16]) j)"
    by (rule later_layer_overwrites_selected [OF _ _ g run(3), where n = 3 and ds = "[1]" and es = "[1]", OF _ _ _ _ _ _ _ b])
      (simp_all add: run, simp_all add: byte_rows_def)
  then obtain new_k mem where r: "rotate_old None [0, 1, 2] None new_k = Inr (k', mem)"
    and m: "\<forall>m < length [2, 0 :: int]. t_row new_k ([2, 0] ! m) = t_row (byte_rows [7, 6]) (int m) \<and>
      t_row v' ([2, 0] ! m) = t_row (byte_rows [17, 18]) (int m)"
    and j: "\<forall>j. 0 \<le> j \<and> j \<notin> set [2, 0] \<longrightarrow> t_row new_k j = t_row (byte_rows [4, 5, 6]) j \<and> t_row v' j = t_row (byte_rows [14, 15, 16]) j"
    using run(4) by (auto simp: example_env_def)
  have "t_row new_k 2 = [7] \<and> t_row new_k 0 = [6] \<and> t_row new_k 1 = [5] \<and> t_row v' 2 = [17] \<and> t_row v' 0 = [18] \<and> t_row v' 1 = [15]"
    using m [THEN spec, of 0] m [THEN spec, of 1] j [THEN spec, of 1]
    by (simp add: t_row_byte_rows [of 0, simplified] t_row_byte_rows [of 1, simplified])
  with b r show ?thesis by blast
qed

end
