(* ===== verification/Passes.thy ===== *)
theory Passes
  imports Hooks BlendCorrect
begin

text \<open>
  What a forward pass preserves. The locale \<open>layered_pass\<close> lifts what the blend hook of one layer
  keeps to the whole pass; it is interpreted for DO_BLEND, whose rounds keep the Task B layers, and
  for QCOMPUTE, which only collects queries.
\<close>

section \<open>What a hook keeps, a pass keeps\<close>

locale layered_pass =
  fixes env :: "('c, 's, 'p) forward_env" and I :: "int \<Rightarrow> blend_run \<Rightarrow> 's world \<Rightarrow> bool"
  assumes hook: "0 \<le> l \<Longrightarrow> I l run w \<Longrightarrow> blend_hook env l t positions run w = Some (Inr (t', run', w')) \<Longrightarrow>
      I (l + 1) run' w'"
    and meta: "I l run w \<Longrightarrow> I l (run\<lparr>br_info := (br_info run)\<lparr>bi_init_attmeta := False\<rparr>, br_triton := m\<rparr>) w"
    and skip: "I l run w \<Longrightarrow> I (l + 1) run w"
begin

definition holds :: "int \<Rightarrow> ('s, 'p) fstate \<Rightarrow> bool" where
  "holds l st \<longleftrightarrow> (\<exists>run. fs_run st = Some run \<and> I l run (fs_world st))"

lemma triton_pass:
  "triton_blend_meta run d = Inr (m, run') \<Longrightarrow> I l run w \<Longrightarrow> I l run' w"
  by (auto simp: triton_blend_meta_def init_triton_blend_metadata_def Let_def rbind_Inr_iff
      split: if_splits option.splits intro: meta)

lemma backend_pass:
  assumes "backend_forward env mode layer t (Some run) p = Inr (out, run', p')" "I l run w"
  shows "\<exists>r. run' = Some r \<and> I l r w"
  using assms triton_pass
  by (auto simp: backend_forward_def forward_extend_blend_def Let_def rbind_Inr_iff split: if_splits)

lemma attention_pass:
  assumes "attention_forward env mode l positions h st = Some (Inr (out, st'))" "is_prefill mode" "0 \<le> l" "holds l st"
  shows "holds (l + 1) st'"
proof -
  obtain run where run: "fs_run st = Some run" "I l run (fs_world st)" using assms(4) by (auto simp: holds_def)
  from assms(1,2) run(1) obtain t t' run1 w1 out' r2 p2 where
    h: "blend_hook env l t positions run (fs_world st) = Some (Inr (t', run1, w1))"
    and b: "backend_forward env mode l t' (Some run1) (fs_kv st) = Inr (out', r2, p2)"
    and s: "st' = st\<lparr>fs_run := r2, fs_world := w1, fs_kv := p2\<rparr>"
    by (auto simp: attention_forward_def wbind_Inr_iff)
  from backend_pass [OF b hook [OF assms(3) run(2) h]] show ?thesis by (auto simp: holds_def s)
qed

lemma decoder_pass:
  assumes "decoder_layer env mode l positions h r st = Some (Inr (hr, st'))" "is_prefill mode" "0 \<le> l" "holds l st"
  shows "holds (l + 1) st'"
proof -
  obtain h' r' where p: "fe_prepare_attn env l h r = (h', r')" by (cases "fe_prepare_attn env l h r")
  from assms(1) obtain n where "rows h' = Inr n"
    "st' = st \<or> (\<exists>out. attention_forward env mode l positions h' st = Some (Inr (out, st')))"
    by (auto simp: decoder_layer_def p case_prod_beta Let_def wbind_Inr_iff split: if_splits)
  with attention_pass assms(2-4) skip show ?thesis by (auto simp: holds_def)
qed

lemma layers_pass:
  assumes "run_layers env mode n capture positions (py_range l stop) hr aux st = Some (Inr (hr', aux', st'))"
    and "is_prefill mode" "0 \<le> l" "l \<le> stop" "holds l st"
  shows "holds stop st'"
  using assms
proof (induction "nat (stop - l)" arbitrary: l hr aux st)
  case (Suc k)
  then have l: "l < stop" by simp
  with Suc.prems(1) obtain h r hr1 st1 hr2 aux2 where d: "decoder_layer env mode l positions h r st = Some (Inr (hr1, st1))"
    and rest: "run_layers env mode n capture positions (py_range (l + 1) stop) hr2 aux2 st1 = Some (Inr (hr', aux', st'))"
    by (auto simp: py_range_rec Let_def wbind_Inr_iff split: if_splits prod.splits)
  show ?case using Suc.hyps(1) [OF _ rest] decoder_pass [OF d] Suc.prems Suc.hyps(2) l by simp
qed auto

lemma model_pass:
  assumes "model_forward env mode n capture positions embeds end_layer st = Some (Inr (out, end_layer', st'))"
    and "pass_end_layer mode (fs_run st) end_layer = Inr stop" "is_prefill mode" "0 \<le> stop" "holds 0 st"
  shows "holds stop st'"
  using assms layers_pass by (auto simp: model_forward_def wbind_Inr_iff)

lemmas pass_facts = attention_pass decoder_pass layers_pass model_pass

end

section \<open>A DO_BLEND round\<close>

text \<open>What does not change during a round that keeps the layers \<open>K\<close>.\<close>

definition round_inv :: "int list \<Rightarrow> att_params option \<Rightarrow> 's world \<Rightarrow> int \<Rightarrow> blend_run \<Rightarrow> 's world \<Rightarrow> bool" where
  "round_inv K ap w0 l run w \<longleftrightarrow>
     bi_style (br_info run) = Some DO_BLEND \<and> bi_keep_layers_set (br_info run) = Some K \<and>
     bi_att_params (br_info run) = ap \<and> sm_online (w_mgr w0) \<and>
     w_mgr w = w_mgr w0 \<and> w_ctx w = w_ctx w0 \<and> w_digest w = w_digest w0 \<and> w_ssd w = w_ssd w0 \<and>
     length (k_buffer (w_hack w)) = length (k_buffer (w_hack w0)) \<and>
     length (v_buffer (w_hack w)) = length (v_buffer (w_hack w0)) \<and>
     (\<forall>j \<in> set K. slots (k_buffer (w_hack w)) j = slots (k_buffer (w_hack w0)) j \<and>
                   slots (v_buffer (w_hack w)) j = slots (v_buffer (w_hack w0)) j)"

lemma blend_do_blend_frame:
  assumes "blend env l t positions run w = Some (Inr (t', run', w'))" "bi_style (br_info run) = Some DO_BLEND"
    and "bi_keep_layers_set (br_info run) = Some K" "sm_online (w_mgr w)"
  shows "bi_style (br_info run') = Some DO_BLEND \<and> bi_keep_layers_set (br_info run') = Some K \<and>
    bi_att_params (br_info run') = bi_att_params (br_info run) \<and>
    (w' = w \<or> l \<notin> set K \<and> (\<exists>kv p. pool_store (w_hack w) l kv = Inr p \<and> w' = w\<lparr>w_hack := p\<rparr>))"
proof -
  consider "l < bi_start (br_info run)" | "l = bi_start (br_info run)" | "bi_start (br_info run) < l" by linarith
  then show ?thesis
  proof cases
    case 1
    then show ?thesis using assms
      by (auto simp: blend_def plain_rotary_def done_with_def Let_def rbind_Inr_iff case_prod_beta)
  next
    case 2
    then show ?thesis using assms
      by (auto simp: blend_def blend_start_layer_def Let_def rbind_Inr_iff case_prod_beta)
  next
    case 3
    obtain q k v q' k' v' where t: "t = (q, k, v)" "t' = (q', k', v')" by (cases t, cases t')
    have st: "bi_style (br_info run) \<in> {Some DO_BLEND, Some DO_BLEND_FINISH}" using assms(2) by simp
    have "finish_later_layer env l (q, k, v) positions run w = Inr ((q', k', v'), run', w')"
      using assms(1) unfolding blend_later [OF st 3] t by (rule blend_later_layer_Inr)
    from finish_later_layer_Inr [OF this] show ?thesis
      using assms(2-4) by (auto simp: mutates_pool_def split: if_splits)
  qed
qed

lemma blend_hook_do_blend:
  assumes "bi_style (br_info run) = Some DO_BLEND"
  shows "blend_hook env l t positions run w = blend (fe_blend env) l t positions run w"
  using assms by (simp add: blend_hook_def collect_kv_def collect_q_def should_collect_q_def Let_def case_prod_beta)

lemma pool_store_slots:
  assumes "pool_store p l kv = Inr p'" "0 \<le> l"
  shows "length (k_buffer p') = length (k_buffer p)" "length (v_buffer p') = length (v_buffer p)"
    "slots (k_buffer p') = (slots (k_buffer p))(l \<mapsto> fst kv)" "slots (v_buffer p') = (slots (v_buffer p))(l \<mapsto> snd kv)"
  using assms py_set_Inr_length
  by (auto simp: pool_store_def py_set_def py_idx_def rbind_Inr_iff slots_update split: option.splits if_splits)

interpretation do_blend_round: layered_pass env "round_inv K ap w0" for env :: "('c, 's, 'p) forward_env" and K ap w0
proof unfold_locales
  fix l run w t positions t' run' w'
  assume l: "0 \<le> l" and inv: "round_inv K ap w0 l run w"
    and b: "blend_hook env l t positions run w = Some (Inr (t', run', w'))"
  have d: "bi_style (br_info run) = Some DO_BLEND" "bi_keep_layers_set (br_info run) = Some K" "sm_online (w_mgr w)"
    using inv by (simp_all add: round_inv_def)
  from blend_do_blend_frame [OF b [unfolded blend_hook_do_blend [OF d(1)]] d] inv
  show "round_inv K ap w0 (l + 1) run' w'" using pool_store_slots [OF _ l] by (auto simp: round_inv_def)
qed (simp_all add: round_inv_def)

section \<open>A QCOMPUTE pass\<close>

text \<open>The fields of the batch that decide which layers collect.\<close>

definition same_collection :: "blend_info \<Rightarrow> blend_info \<Rightarrow> bool" where
  "same_collection a b \<longleftrightarrow>
     bi_style a = bi_style b \<and> bi_critical_layers_set a = bi_critical_layers_set b \<and>
     bi_attn_start a = bi_attn_start b \<and> bi_attn_end a = bi_attn_end b"

lemma same_collection_collect: "same_collection a b \<Longrightarrow> should_collect_q a l = should_collect_q b l"
  by (simp add: same_collection_def should_collect_q_def)

definition collect_inv :: "blend_info \<Rightarrow> 's world \<Rightarrow> int \<Rightarrow> blend_run \<Rightarrow> 's world \<Rightarrow> bool" where
  "collect_inv info0 w0 l run w \<longleftrightarrow>
     bi_style info0 = Some QCOMPUTE \<and> same_collection (br_info run) info0 \<and>
     w_mgr w = w_mgr w0 \<and> w_digest w = w_digest w0 \<and> w_ssd w = w_ssd w0 \<and>
     k_buffer (w_hack w) = k_buffer (w_hack w0) \<and> v_buffer (w_hack w) = v_buffer (w_hack w0) \<and>
     (\<forall>j. slots (q_buffer (w_hack w)) j \<noteq> slots (q_buffer (w_hack w0)) j \<longrightarrow> 0 \<le> j \<and> j < l \<and> should_collect_q info0 j) \<and>
     (\<forall>j. slots (query_k_buffer (w_hack w)) j \<noteq> slots (query_k_buffer (w_hack w0)) j \<longrightarrow> 0 \<le> j \<and> j < l \<and> should_collect_q info0 j)"

lemma rotate_context_frame:
  "rotate_context env l pos ck w = Inr (ck', w') \<Longrightarrow> w_mgr w' = w_mgr w \<and> w_digest w' = w_digest w \<and> w_ssd w' = w_ssd w \<and> w_hack w' = w_hack w"
  by (auto simp: rotate_context_def rbind_Inr_iff split: option.splits if_splits)

lemma ensure_context_positions_frame [simp]:
  "w_mgr (ensure_context_positions info l w) = w_mgr w" "w_digest (ensure_context_positions info l w) = w_digest w"
  "w_ssd (ensure_context_positions info l w) = w_ssd w" "w_hack (ensure_context_positions info l w) = w_hack w"
  by (simp_all add: ensure_context_positions_def)

lemma cache_context_pos_frame: "cache_context_pos l pos run = (c, run') \<Longrightarrow> br_info run' = br_info run"
  by (auto simp: cache_context_pos_def Let_def)

lemma context_kv_frame:
  assumes "context_kv l run w = Some (Inr (kv, run', w'))"
  shows "w_mgr w' = w_mgr w \<and> w_digest w' = w_digest w \<and> w_ssd w' = w_ssd w \<and> w_hack w' = w_hack w \<and> br_info run' = br_info run"
proof (cases "sm_online (w_mgr w)")
  case False
  obtain c run1 where c: "cache_context_pos l (get_context_positions (w_ctx (ensure_context_positions (br_info run) l w)) l) run = (c, run1)"
    by fastforce
  from assms False obtain k v where "get_kv (w_hack w) l = Inr (k, v)"
    "(case (k, v) of (Some kt, Some vt) \<Rightarrow>
        rbind (index_select kt c) (\<lambda>ck. rbind (index_select vt c) (\<lambda>cv.
        Inr ((Some ck, Some cv), run1, ensure_context_positions (br_info run) l w))) | _ \<Rightarrow> Inl AttributeError) = Inr (kv, run', w')"
    by (auto simp: context_kv_def c rbind_Inr_iff)
  then show ?thesis using cache_context_pos_frame [OF c] by (auto simp: rbind_Inr_iff split: option.splits)
qed (use assms in \<open>auto simp: context_kv_def rbind_Inr_iff\<close>)

lemma finish_qcompute_frame:
  assumes "finish_qcompute env l t kv run w = Inr (t', run', w')"
  shows "w_mgr w' = w_mgr w \<and> w_digest w' = w_digest w \<and> w_ssd w' = w_ssd w \<and> w_hack w' = w_hack w \<and>
    same_collection (br_info run') (br_info run)"
proof -
  obtain q k v ck cv where t: "t = (q, k, v)" "kv = (ck, cv)" by (cases t, cases kv)
  from assms obtain c pos run1 ck' qn n' p where r: "rotate_context env l pos c (ensure_context_positions (br_info run) l w) = Inr (ck', w')"
    and run': "cache_context_pos l p run = (pos, run1)" "run' = context_metadata (total_tokens (w_ctx w')) qn n' run1"
    by (auto simp: finish_qcompute_def t Let_def rbind_Inr_iff split: option.splits if_splits prod.splits)
  from rotate_context_frame [OF r] cache_context_pos_frame [OF run'(1)] show ?thesis
    by (simp add: run'(2) context_metadata_def same_collection_def)
qed

lemma blend_qcompute_frame:
  assumes "blend env l t positions run w = Some (Inr (t', run', w'))" "bi_style (br_info run) = Some QCOMPUTE"
  shows "w_mgr w' = w_mgr w \<and> w_digest w' = w_digest w \<and> w_ssd w' = w_ssd w \<and> w_hack w' = w_hack w \<and>
    same_collection (br_info run') (br_info run)"
proof (cases "bi_is_contextblend (br_info run)")
  case False
  then show ?thesis using assms
    by (auto simp: blend_def plain_rotary_def done_with_def Let_def rbind_Inr_iff case_prod_beta same_collection_def)
next
  case True
  with assms obtain kv run1 w1 where c: "context_kv l run w = Some (Inr (kv, run1, w1))"
    and f: "finish_qcompute env l t kv run1 w1 = Inr (t', run', w')"
    by (auto simp: blend_def blend_qcompute_def rbind_Inr_iff)
  from context_kv_frame [OF c]
  have "w_mgr w1 = w_mgr w \<and> w_digest w1 = w_digest w \<and> w_ssd w1 = w_ssd w \<and> w_hack w1 = w_hack w \<and> br_info run1 = br_info run" .
  with finish_qcompute_frame [OF f] show ?thesis by simp
qed

lemma append_pad_slots:
  assumes "append_slot (pad_to buf (length buf) l) l t = Inr buf'" "0 \<le> l"
  shows "j \<noteq> l \<Longrightarrow> slots buf' j = slots buf j"
proof -
  have "l < int (length (pad_to buf (length buf) l))" using assms(2) by (simp add: length_pad_to)
  from append_slot_slots [OF assms(2) this assms(1)] show "j \<noteq> l \<Longrightarrow> slots buf' j = slots buf j" by auto
qed

lemma put_q_frame:
  assumes "put_q t l p = Inr p'" "0 \<le> l"
  shows "k_buffer p' = k_buffer p" "v_buffer p' = v_buffer p" "query_k_buffer p' = query_k_buffer p"
    "j \<noteq> l \<Longrightarrow> slots (q_buffer p') j = slots (q_buffer p) j"
  using assms by (auto simp: put_q_def rbind_Inr_iff intro: append_pad_slots)

lemma put_query_k_frame:
  assumes "put_query_k t l p = Inr p'" "0 \<le> l"
  shows "k_buffer p' = k_buffer p" "v_buffer p' = v_buffer p" "q_buffer p' = q_buffer p"
    "j \<noteq> l \<Longrightarrow> slots (query_k_buffer p') j = slots (query_k_buffer p) j"
  using assms by (auto simp: put_query_k_def rbind_Inr_iff intro: append_pad_slots)

lemma collect_q_frame:
  assumes "collect_q l q k info w = Inr w'" "0 \<le> l"
  shows "(w_mgr w' = w_mgr w \<and> w_digest w' = w_digest w \<and> w_ssd w' = w_ssd w \<and> k_buffer (w_hack w') = k_buffer (w_hack w) \<and>
    v_buffer (w_hack w') = v_buffer (w_hack w)) \<and>
    (\<forall>j. j \<noteq> l \<or> \<not> should_collect_q info l \<longrightarrow> slots (q_buffer (w_hack w')) j = slots (q_buffer (w_hack w)) j \<and>
       slots (query_k_buffer (w_hack w')) j = slots (query_k_buffer (w_hack w)) j)"
proof (cases "should_collect_q info l")
  case True
  have "\<exists>qs p. put_q qs l (w_hack w) = Inr p \<and>
      (w' = w\<lparr>w_hack := p\<rparr> \<or> (\<exists>ks p'. put_query_k ks l p = Inr p' \<and> w' = w\<lparr>w_hack := p'\<rparr>))"
    using assms(1) True by (cases "bi_query_indices info") (auto simp: collect_q_def rbind_Inr_iff)
  then obtain qs p where p: "put_q qs l (w_hack w) = Inr p"
    and w': "w' = w\<lparr>w_hack := p\<rparr> \<or> (\<exists>ks p'. put_query_k ks l p = Inr p' \<and> w' = w\<lparr>w_hack := p'\<rparr>)"
    by blast
  from w' show ?thesis
    using True put_q_frame [OF p assms(2)] put_query_k_frame [OF _ assms(2)] by auto
qed (use assms in \<open>simp add: collect_q_def\<close>)

interpretation qcompute_pass: layered_pass env "collect_inv info0 w0" for env :: "('c, 's, 'p) forward_env" and info0 w0
proof unfold_locales
  fix l run w t positions t' run' w'
  assume l: "0 \<le> l" and inv: "collect_inv info0 w0 l run w"
    and b: "blend_hook env l t positions run w = Some (Inr (t', run', w'))"
  have st: "bi_style (br_info run) = Some QCOMPUTE" using inv by (simp add: collect_inv_def same_collection_def)
  from b st obtain w2 where c: "collect_q l (fst t) (fst (snd t)) (br_info run) w = Inr w2"
    and bl: "blend (fe_blend env) l t positions run w2 = Some (Inr (t', run', w'))"
    by (auto simp: blend_hook_def collect_kv_def Let_def case_prod_beta wbind_Inr_iff)
  have sc: "should_collect_q (br_info run) = should_collect_q info0"
    using inv by (intro ext same_collection_collect) (simp add: collect_inv_def)
  have sm: "same_collection (br_info run') info0"
    using blend_qcompute_frame [OF bl st] inv by (simp add: collect_inv_def same_collection_def)
  note f = collect_q_frame [OF c l, unfolded sc] and g = blend_qcompute_frame [OF bl st]
  have "0 \<le> j \<and> j < l + 1 \<and> should_collect_q info0 j"
    if "slots (q_buffer (w_hack w')) j \<noteq> slots (q_buffer (w_hack w0)) j \<or>
        slots (query_k_buffer (w_hack w')) j \<noteq> slots (query_k_buffer (w_hack w0)) j" for j
  proof (cases "j = l \<and> should_collect_q info0 l")
    case False
    then have "slots (q_buffer (w_hack w')) j = slots (q_buffer (w_hack w)) j \<and>
        slots (query_k_buffer (w_hack w')) j = slots (query_k_buffer (w_hack w)) j"
      using f g by auto
    with that inv show ?thesis by (auto simp: collect_inv_def)
  qed (use l in simp)
  moreover have "w_mgr w' = w_mgr w0 \<and> w_digest w' = w_digest w0 \<and> w_ssd w' = w_ssd w0 \<and>
      k_buffer (w_hack w') = k_buffer (w_hack w0) \<and> v_buffer (w_hack w') = v_buffer (w_hack w0)"
    using conjunct1 [OF f] g inv unfolding collect_inv_def by simp
  moreover have "bi_style info0 = Some QCOMPUTE" using inv unfolding collect_inv_def by simp
  ultimately show "collect_inv info0 w0 (l + 1) run' w'" using sm unfolding collect_inv_def by blast
qed (auto simp: collect_inv_def same_collection_def)

end
