(* ===== verification/HooksCorrect.thy ===== *)
theory HooksCorrect
  imports Passes
begin

text \<open>
  Correctness of a whole forward pass with its clean-up: what a DO_BLEND round leaves for the next
  ratio, and what a QCOMPUTE pass collects.
\<close>

section \<open>Properties\<close>

text \<open>C11: a DO_BLEND round keeps the Task B layers for the next ratio. After the forward pass over
  all layers and its clean-up, every kept layer still holds the K and V it held before the pass,
  although the pass wrote the selected rows into what it handed to attention; every other layer of the
  model is empty and all ready events are down.\<close>

theorem do_blend_round_keeps_task_b:
  assumes "forward_batch_generation env mode n capture positions embeds n st = Some (Inr (out, e, st'))"
    and "is_prefill mode" "fs_run st = Some run" "bi_style (br_info run) = Some DO_BLEND"
    and "bi_keep_layers_set (br_info run) = Some K" "bi_att_params (br_info run) = Some ap" "ap_num_layers ap = n" "0 \<le> n"
    and "sm_online (w_mgr (fs_world st))"
    and "length (v_buffer (w_hack (fs_world st))) = length (k_buffer (w_hack (fs_world st)))"
  shows "e = n \<and>
    (\<forall>l \<in> set K. slots (k_buffer (w_hack (fs_world st'))) l = slots (k_buffer (w_hack (fs_world st))) l \<and>
                  slots (v_buffer (w_hack (fs_world st'))) l = slots (v_buffer (w_hack (fs_world st))) l) \<and>
    (\<forall>l. 0 \<le> l \<and> l < n \<and> l \<notin> set K \<longrightarrow>
       slots (k_buffer (w_hack (fs_world st'))) l = None \<and> slots (v_buffer (w_hack (fs_world st'))) l = None) \<and>
    sm_events (w_mgr (fs_world st')) = replicate (length (sm_events (w_mgr (fs_world st)))) False"
proof -
  let ?w0 = "fs_world st"
  obtain st1 w' where m: "model_forward env mode n capture positions embeds n st = Some (Inr (out, e, st1))"
    and c: "post_forward_blend_cleanup (map_option br_info (fs_run st1)) (fs_world st1) = Inr w'"
    and st': "st' = st1\<lparr>fs_world := w'\<rparr>"
    using assms(1) by (auto simp: forward_batch_generation_def wbind_Inr_iff)
  have nq: "\<not> is_qcompute mode (fs_run st)" using assms(3,4) by (simp add: is_qcompute_def)
  have stop: "pass_end_layer mode (fs_run st) n = Inr n" using assms(3) nq by (simp add: pass_end_layer_def)
  have i0: "do_blend_round.holds K (Some ap) ?w0 0 st"
    using assms by (simp add: do_blend_round.holds_def round_inv_def)
  from do_blend_round.model_pass [OF m stop assms(2,8) i0] obtain run1
    where r1: "fs_run st1 = Some run1" "round_inv K (Some ap) ?w0 n run1 (fs_world st1)"
    by (auto simp: do_blend_round.holds_def)
  then have "\<not> is_qcompute mode (fs_run st1)" by (simp add: is_qcompute_def round_inv_def)
  then have e: "e = n" using m by (auto simp: model_forward_def wbind_Inr_iff stop)
  have len: "length (v_buffer (w_hack (fs_world st1))) = length (k_buffer (w_hack (fs_world st1)))"
    using r1(2) assms(10) by (simp add: round_inv_def)
  have "clear_do_blend_layers n K (fs_world st1) = Inr w'"
    using c r1 assms(7,9) by (simp add: post_forward_blend_cleanup_def round_inv_def)
  with clear_do_blend_layers_ok [OF len, of n K] r1(2) e show ?thesis by (auto simp: st' round_inv_def)
qed

definition example_forward_env :: "(rat, int, unit) forward_env" where
  "example_forward_env = \<lparr>fe_blend = example_env, fe_ops = example_ops, fe_mat = (\<lambda>_. example_mat []), fe_mat_rotary = None,
     fe_qkv = (\<lambda>_ h. Inr (h, h, h)), fe_new_empty = (\<lambda>t. t), fe_decode = (\<lambda>_ t p. Inr (fst t, p)),
     fe_extend = (\<lambda>_ t p. Inr (fst t, p)), fe_ragged = (\<lambda>_ t _. Inr (fst t)), fe_context = (\<lambda>_ t _. Inr (fst t)),
     fe_set_kv = (\<lambda>_ _ _ p. Inr p), fe_o_proj = (\<lambda>_ t. t), fe_prepare_attn = (\<lambda>_ h r. (h, case r of None \<Rightarrow> h | Some x \<Rightarrow> x)),
     fe_prepare_mlp = (\<lambda>_ h r. (h, r)), fe_mlp = (\<lambda>_ h. h), fe_postprocess = (\<lambda>_ h r. (h, r)), fe_add = (\<lambda>h r. h)\<rparr>"

definition example_round :: blend_info where
  "example_round =
     \<lparr>bi_style = Some DO_BLEND, bi_select_mode = ATTN, bi_ratio = 0,
      bi_att_params = Some \<lparr>ap_num_heads = 1, ap_num_kv_heads = 1, ap_head_dim = 1, ap_num_layers = 3\<rparr>,
      bi_start = 0, bi_attn_start = Some 0, bi_attn_end = Some 3, bi_chunk_lens = [2, 1], bi_chunk_loc_list = [0, 2, 3],
      bi_req_len_list = [2], bi_top_indices = None, bi_top_lens = None, bi_quest_indices = None,
      bi_query_indices = None, bi_positions = None, bi_init_attmeta = False, bi_is_contextblend = False,
      bi_context_cache_source = ''none'', bi_context_n_sink = 4, bi_digest_index_method = ''kvzip'',
      bi_digest_ratio = None, bi_critical_layers = Some [], bi_critical_layers_set = Some [], bi_qcompute_end = None,
      bi_keep_indices = None, bi_original_chunk_loc_list = None, bi_aug_sys_range = None,
      bi_aug_doc_ranges = None, bi_aug_zip_ranges = None, bi_keep_layers_set = Some [1]\<rparr>"

definition round_start :: "(int, unit) fstate" where
  "round_start = \<lparr>fs_run = Some (new_run example_round), fs_world = blend_world, fs_kv = ()\<rparr>"

lemma example_pass:
  "case forward_batch_generation example_forward_env EXTEND 3 [] [0, 1, 2] (byte_rows [7, 8, 9]) 3 round_start of
     Some (Inr (out, e, st)) \<Rightarrow> fst (fst out) = byte_rows [9] | _ \<Rightarrow> False"
  by code_simp

theorem do_blend_round_keeps_task_b_witness:
  "\<exists>out e st'. forward_batch_generation example_forward_env EXTEND 3 [] [0, 1, 2] (byte_rows [7, 8, 9]) 3 round_start
       = Some (Inr (out, e, st')) \<and> fst (fst out) = byte_rows [9] \<and> e = 3 \<and>
     slots (k_buffer (w_hack (fs_world st'))) 1 = Some (byte_rows [1, 2, 3]) \<and>
     slots (k_buffer (w_hack (fs_world st'))) 2 = None"
proof -
  obtain out e st' where f: "forward_batch_generation example_forward_env EXTEND 3 [] [0, 1, 2] (byte_rows [7, 8, 9]) 3
      round_start = Some (Inr (out, e, st'))" "fst (fst out) = byte_rows [9]"
    using example_pass by (auto split: option.splits sum.splits)
  have k: "slots (k_buffer (w_hack (fs_world round_start))) 1 = Some (byte_rows [1, 2, 3])"
    by (simp add: round_start_def blend_world_def slots_def)
  from do_blend_round_keeps_task_b [OF f(1), of "new_run example_round" "[1]"
      "\<lparr>ap_num_heads = 1, ap_num_kv_heads = 1, ap_head_dim = 1, ap_num_layers = 3\<rparr>"] f k
  show ?thesis
    by (auto simp: is_prefill_def is_extend_def round_start_def new_run_def example_round_def blend_world_def initial_manager_def)
qed

text \<open>C38: a QCOMPUTE pass runs the layers below \<open>qcompute_end\<close> and collects the queries (and query
  keys) of the selected layers among them only. It leaves the collected K and V, the loader state and
  the SSD alone, and the model has all its layers again afterwards.\<close>

theorem qcompute_collects_selected_layers:
  assumes "forward_batch_generation env mode n capture positions embeds n st = Some (Inr (out, e, st'))"
    and "is_prefill mode" "fs_run st = Some run" "bi_style (br_info run) = Some QCOMPUTE"
    and "bi_qcompute_end (br_info run) = Some stop" "0 < stop"
  shows "e = n \<and> w_mgr (fs_world st') = w_mgr (fs_world st) \<and> w_ssd (fs_world st') = w_ssd (fs_world st) \<and>
    k_buffer (w_hack (fs_world st')) = k_buffer (w_hack (fs_world st)) \<and>
    v_buffer (w_hack (fs_world st')) = v_buffer (w_hack (fs_world st)) \<and>
    (\<forall>j. slots (q_buffer (w_hack (fs_world st'))) j \<noteq> slots (q_buffer (w_hack (fs_world st))) j \<longrightarrow>
       0 \<le> j \<and> j < stop \<and> should_collect_q (br_info run) j) \<and>
    (\<forall>j. slots (query_k_buffer (w_hack (fs_world st'))) j \<noteq> slots (query_k_buffer (w_hack (fs_world st))) j \<longrightarrow>
       0 \<le> j \<and> j < stop \<and> should_collect_q (br_info run) j)"
proof -
  let ?w0 = "fs_world st"
  obtain st1 w' where m: "model_forward env mode n capture positions embeds n st = Some (Inr (out, e, st1))"
    and c: "post_forward_blend_cleanup (map_option br_info (fs_run st1)) (fs_world st1) = Inr w'"
    and st': "st' = st1\<lparr>fs_world := w'\<rparr>"
    using assms(1) by (auto simp: forward_batch_generation_def wbind_Inr_iff)
  have q: "is_qcompute mode (fs_run st)" using assms(2-4) by (simp add: is_qcompute_def)
  have stop: "pass_end_layer mode (fs_run st) n = Inr stop" using assms(3,5,6) q by (simp add: pass_end_layer_def)
  have i0: "qcompute_pass.holds (br_info run) ?w0 0 st"
    using assms by (simp add: qcompute_pass.holds_def collect_inv_def same_collection_def)
  from qcompute_pass.model_pass [OF m stop assms(2) _ i0] assms(6) obtain run1
    where r1: "fs_run st1 = Some run1" "collect_inv (br_info run) ?w0 stop run1 (fs_world st1)"
    by (auto simp: qcompute_pass.holds_def)
  then have s1: "bi_style (br_info run1) = Some QCOMPUTE" unfolding collect_inv_def same_collection_def by simp
  then have "is_qcompute mode (fs_run st1)" using assms(2) r1(1) by (simp add: is_qcompute_def)
  then have e: "e = n" using m by (auto simp: model_forward_def wbind_Inr_iff stop)
  have "w' = fs_world st1" using c r1(1) s1 by (simp add: post_forward_blend_cleanup_def)
  with r1(2) e show ?thesis unfolding collect_inv_def st' by simp
qed

definition qcompute_start :: "(int, unit) fstate" where
  "qcompute_start = \<lparr>fs_run = Some (new_run (example_round\<lparr>bi_style := Some QCOMPUTE, bi_critical_layers := Some [1],
     bi_critical_layers_set := Some [1], bi_qcompute_end := Some 2, bi_quest_indices := Some [1, 2],
     bi_query_indices := Some [0, 1, 2]\<rparr>)), fs_world = blend_world, fs_kv = ()\<rparr>"

lemma example_qcompute_pass:
  "case forward_batch_generation example_forward_env EXTEND 3 [] [0, 1, 2] (byte_rows [7, 8, 9]) 3 qcompute_start of
     Some (Inr (out, e, st)) \<Rightarrow> q_buffer (w_hack (fs_world st)) = [None, Some (byte_rows [8, 9])] \<and>
       query_k_buffer (w_hack (fs_world st)) = [None, Some (byte_rows [7, 8, 9])]
   | _ \<Rightarrow> False"
  by code_simp

theorem qcompute_collects_selected_layers_witness:
  "\<exists>out e st'. forward_batch_generation example_forward_env EXTEND 3 [] [0, 1, 2] (byte_rows [7, 8, 9]) 3 qcompute_start
       = Some (Inr (out, e, st')) \<and> e = 3 \<and> q_buffer (w_hack (fs_world st')) = [None, Some (byte_rows [8, 9])] \<and>
     k_buffer (w_hack (fs_world st')) = k_buffer (w_hack blend_world)"
proof -
  obtain out e st' where f: "forward_batch_generation example_forward_env EXTEND 3 [] [0, 1, 2] (byte_rows [7, 8, 9]) 3
      qcompute_start = Some (Inr (out, e, st'))" "q_buffer (w_hack (fs_world st')) = [None, Some (byte_rows [8, 9])]"
    using example_qcompute_pass by (auto split: option.splits sum.splits)
  have m: "is_prefill EXTEND" by (simp add: is_prefill_def is_extend_def)
  obtain run where run: "fs_run qcompute_start = Some run" "bi_style (br_info run) = Some QCOMPUTE"
    "bi_qcompute_end (br_info run) = Some 2"
    by (simp add: qcompute_start_def new_run_def)
  from qcompute_collects_selected_layers [OF f(1) m run] f show ?thesis by (simp add: qcompute_start_def)
qed

end
