(* ===== verification/ContextFlow.thy ===== *)
theory ContextFlow
  imports Passes
begin

text \<open>
  The context from the offline pass to the online one: what KVCOMPUTE builds and saves in its last
  layer is what QCOMPUTE restores and loads. Combines the digest index, the query cache, the restore
  of its metadata and the last-layer branch of \<open>CacheBlender.blend\<close>.
\<close>

section \<open>The last KVCOMPUTE layer\<close>

lemma ensure_forward_positions_info:
  "ensure_forward_positions ep el info = Inr (pos, info') \<Longrightarrow> info' = info \<or> info' = info\<lparr>bi_positions := Some pos\<rparr>"
  by (auto simp: ensure_forward_positions_def rbind_Inr_iff Let_def split: option.splits)

text \<open>The information a KVCOMPUTE layer works with; all fields but the positions are the batch's.\<close>

definition same_saving :: "blend_info \<Rightarrow> blend_info \<Rightarrow> bool" where
  "same_saving a b \<longleftrightarrow>
     bi_is_contextblend a = bi_is_contextblend b \<and> bi_att_params a = bi_att_params b \<and>
     bi_keep_indices a = bi_keep_indices b \<and> bi_qcompute_end a = bi_qcompute_end b \<and>
     bi_critical_layers a = bi_critical_layers b \<and> bi_digest_ratio a = bi_digest_ratio b \<and>
     bi_context_n_sink a = bi_context_n_sink b \<and> index_locs a = index_locs b"

lemma last_kvcompute_layer:
  assumes "blend_kvcompute env l t run w = Some (Inr (t', run', w'))" "bi_is_contextblend (br_info run)"
    and "sm_offline (w_mgr w)" "bi_att_params (br_info run) = Some ap" "l = ap_num_layers ap - 1"
  shows "\<exists>info d c w1. same_saving info (br_info run) \<and>
    build_all_indices (be_argsort env) (be_zero env) (int (length (k_buffer (w_hack w)))) info (w_digest w, ctx_clear) = Inr (d, c) \<and>
    w1 = w\<lparr>w_digest := d, w_ctx := c\<rparr> \<and> save_caches info (ap_num_layers ap) w1 = Inr w'"
proof -
  obtain q k v where t: "t = (q, k, v)" by (cases t)
  from assms(1) obtain pos info where e: "ensure_forward_positions (be_empty_pos env) (be_empty_loc env) (br_info run) = Inr (pos, info)"
    and rest: "rbind (apply_rotary (be_rotary env) pos q k) (\<lambda>(q', k').
        let is_last = (l = model_layers info w - 1)
        in rbind (if bi_is_contextblend info \<and> is_last then build_context_pool env info w else Inr w) (\<lambda>w1.
           rbind (if sm_offline (w_mgr w1) \<and> is_last then save_caches info (model_layers info w1) w1 else Inr w1) (\<lambda>w2.
           Inr ((q', k', v), run\<lparr>br_info := info\<rparr>, w2)))) = Inr (t', run', w')"
    by (auto simp: blend_kvcompute_def t rbind_Inr_iff)
  have s: "same_saving info (br_info run)"
    using ensure_forward_positions_info [OF e] by (auto simp: same_saving_def index_locs_def split: option.splits)
  then have "bi_is_contextblend info" "bi_att_params info = Some ap" using assms(2,4) by (auto simp: same_saving_def)
  with rest obtain w1 where b: "build_context_pool env info w = Inr w1"
    and sv: "(if sm_offline (w_mgr w1) then save_caches info (ap_num_layers ap) w1 else Inr w1) = Inr w'"
    using assms(5) by (auto simp: rbind_Inr_iff model_layers_def Let_def cong: if_cong)
  then obtain d c where "build_all_indices (be_argsort env) (be_zero env) (int (length (k_buffer (w_hack w)))) info
      (w_digest w, ctx_clear) = Inr (d, c)" "w1 = w\<lparr>w_digest := d, w_ctx := c\<rparr>"
    by (auto simp: build_context_pool_def rbind_Inr_iff)
  with s sv assms(3) show ?thesis by auto
qed

section \<open>What is saved\<close>

text \<open>The prompt tokens whose K/V the query cache holds for a layer.\<close>

definition digest_tokens :: "blend_info \<Rightarrow> 't ctx_pool \<Rightarrow> int \<Rightarrow> int list res" where
  "digest_tokens info c l =
     (case bi_keep_indices info of
        None \<Rightarrow> Inr (get_context_positions c l)
      | Some keep \<Rightarrow> rmap (py_get keep) (get_context_positions c l))"

lemma digest_token_indices_get:
  assumes "digest_token_indices keep ps = Inr tokens" "py_get tokens l = Inr ts" "0 \<le> l"
  shows "\<exists>p. l < int (length ps) \<and> p = ps ! nat l \<and> (case keep of None \<Rightarrow> ts = p | Some ks \<Rightarrow> rmap (py_get ks) p = Inr ts)"
proof (cases keep)
  case None
  then show ?thesis using assms by (auto simp: digest_token_indices_def py_get_def py_idx_def split: if_splits)
next
  case (Some ks)
  with assms(1) have r: "rmap (rmap (py_get ks)) ps = Inr tokens" by (simp add: digest_token_indices_def)
  have l: "l < int (length ps)" "ts = tokens ! nat l"
    using assms(2,3) rmap_Inr_length [OF r] by (auto simp: py_get_def py_idx_def split: if_splits)
  with rmap_Inr_nth [OF r, of "nat l"] assms(3) Some show ?thesis by auto
qed

lemma exported_kvzip:
  assumes "export_payload None d = Inr (md, ibm)" "dm_indices d = [(''kvzip'', payload)]"
  shows "map_of ibm ''kvzip'' = Some payload"
  using assms(1)
  by (auto simp: assms(2) export_payload_def rbind_Inr_iff normalize_method_def Let_def split: if_splits option.splits)

lemma saved_context_layer:
  assumes "saved_as (\<lambda>l. rbind (py_get tokens l) (\<lambda>i. Inr (Some i))) p (l, k, v)" "0 \<le> l" "l < e"
    and "digest_token_indices (bi_keep_indices info) (py_slice (context_positions_by_layer c) 0 e) = Inr tokens"
  shows "\<exists>K V ts. get_kv p l = Inr (Some K, Some V) \<and> digest_tokens info c l = Inr ts \<and>
    index_select K ts = Inr k \<and> index_select V ts = Inr v \<and> rows k = Inr (int (length (get_context_positions c l)))"
proof -
  let ?ps = "context_positions_by_layer c"
  from assms(1) obtain ts K V where ts: "py_get tokens l = Inr ts" "get_kv p l = Inr (Some K, Some V)"
    "index_select K ts = Inr k" "index_select V ts = Inr v"
    by (auto simp: saved_as_def rbind_Inr_iff select_rows_def)
  have sl: "py_slice ?ps 0 e = take (nat e) ?ps" using assms(2,3) by (simp add: py_slice_nonneg)
  from digest_token_indices_get [OF assms(4) ts(1) assms(2)] obtain q where q:
    "l < int (length (take (nat e) ?ps))" "q = take (nat e) ?ps ! nat l"
    "case bi_keep_indices info of None \<Rightarrow> ts = q | Some ks \<Rightarrow> rmap (py_get ks) q = Inr ts"
    by (auto simp: sl)
  have lt: "l < int (length ?ps)" "nat l < nat e" using q(1) assms(2,3) by auto
  then have g: "get_context_positions c l = q" using q(2) assms(2) by (auto simp: get_context_positions_def)
  have "length ts = length q" using q(3) rmap_Inr_length by (cases "bi_keep_indices info") auto
  moreover have "t_shape k = int (length ts) # tl (t_shape K)" using ts(3) by (auto simp: index_select_def split: if_splits)
  moreover have "digest_tokens info c l = Inr ts" using q(3) g by (cases "bi_keep_indices info") (simp_all add: digest_tokens_def)
  ultimately show ?thesis using ts g by (simp add: rows_def)
qed

lemma save_caches_context: "save_caches info n w = Inr w' \<Longrightarrow> w_ctx w' = w_ctx w \<and> w_digest w' = w_digest w"
  by (auto simp: save_caches_def rbind_Inr_iff Let_def split: if_splits)

text \<open>Restoring the metadata of a saved query cache gives back the positions that were built.\<close>

lemma restore_query_built:
  assumes locs: "2 \<le> length (index_locs info)" "sorted (index_locs info)"
    and b: "build_all_indices srt z n info (d0, ctx_clear) = Inr (d, c)"
    and m: "load_query_meta dir (w_ssd w2) (None, cd) = Inr (meta, (Some meta, dir))"
    and ex: "export_payload None d = Inr (dm_metadata d, ibm)"
    and mm: "\<forall>x. json_get meta ''metadata'' x = Inr (JObj (dm_metadata d))" "\<forall>x. json_get meta ''indices_by_method'' x = Inr (JObj ibm)"
    and w2: "sm_dir_query (w_mgr w2) = dir" "sm_meta_cache (w_mgr w2) = (None, cd)"
    and meth: "normalize_method digest_method = Inr ''kvzip''"
  shows "\<exists>w3. restore_query_metadata dir digest_method ratio w2 = Inr (meta, w3) \<and> w_ssd w3 = w_ssd w2 \<and>
    context_positions_by_layer (w_ctx w3) = context_positions_by_layer c \<and> context_positions (w_ctx w3) = context_positions c"
proof -
  from restore_built_context [OF locs b, of ratio "sm_num_layers (w_mgr w2)" "w_ctx w2"] obtain payload ctx2 where
    p: "dm_indices d = [(''kvzip'', payload)]"
    and r: "restore_context_pool_metadata (JObj (dm_metadata d)) payload ratio (sm_num_layers (w_mgr w2)) (w_ctx w2) = Inr ctx2"
    and cp: "context_positions_by_layer ctx2 = context_positions_by_layer c" "context_positions ctx2 = context_positions c"
    by blast
  define w3 where "w3 = w2\<lparr>w_ctx := ctx2, w_mgr := (w_mgr w2)\<lparr>sm_meta_cache := (Some meta, dir)\<rparr>\<rparr>"
  have dir: "(if dir = [] then sm_dir_query (w_mgr w2) else dir) = dir" using w2(1) by simp
  have "restore_query_metadata dir digest_method ratio w2 = Inr (meta, w3)"
    unfolding restore_query_metadata_def dir Let_def
    using m mm r exported_kvzip [OF ex p] w2 meth by (simp add: w3_def)
  then show ?thesis using cp by (intro exI [of _ w3]) (simp add: w3_def)
qed

section \<open>Property\<close>

text \<open>C7: the online context is the offline one. The last KVCOMPUTE layer of a context-blend sample
  leaves in the context pool what the digest index builds from the collected scores (\<open>d\<close> with
  \<open>w_ctx w'\<close>). A later QCOMPUTE that restores the query metadata gets exactly these positions, in every
  layer, and loading the digest layers gives, for every layer below \<open>qcompute_end\<close>, exactly the K and V
  rows the offline pass had for the prompt tokens at these positions; so the number of loaded rows is
  the number of positions, which QCOMPUTE checks.\<close>

theorem offline_context_reaches_online:
  assumes "blend env l t positions run w = Some (Inr (t', run', w'))" "bi_style (br_info run) = Some KVCOMPUTE"
    and "bi_is_contextblend (br_info run)" "sm_offline (w_mgr w)" "bi_att_params (br_info run) = Some ap"
    and "l = ap_num_layers ap - 1" "bi_qcompute_end (br_info run) = Some e" "0 < e" "e \<le> ap_num_layers ap"
    and "2 \<le> length (index_locs (br_info run))" "sorted (index_locs (br_info run))"
    and "bi_critical_layers (br_info run) = Some crit" "distinct crit" "\<forall>l \<in> set crit. 0 \<le> l"
    and "pool_wf (w_hack w)" "\<forall>l k v. get_kv (w_hack w) l = Inr (Some k, Some v) \<longrightarrow> t_dtype k = dt \<and> t_dtype v = dt"
    and "w_ssd w2 = w_ssd w'" "sm_dir_query (w_mgr w2) = sm_dir_query (w_mgr w)" "sm_meta_cache (w_mgr w2) = (None, cd)"
    and "normalize_method digest_method = Inr ''kvzip''" "slot_wf sl"
  shows "(\<exists>info d. same_saving info (br_info run) \<and> w_digest w' = d \<and>
      build_all_indices (be_argsort env) (be_zero env) (int (length (k_buffer (w_hack w)))) info (w_digest w, ctx_clear) =
        Inr (d, w_ctx w')) \<and>
    (\<exists>meta w3 kvs sl'. restore_query_metadata (sm_dir_query (w_mgr w)) digest_method ratio w2 = Inr (meta, w3) \<and>
    context_positions_by_layer (w_ctx w3) = context_positions_by_layer (w_ctx w') \<and>
    context_positions (w_ctx w3) = context_positions (w_ctx w') \<and>
    load_query_layers_progressively os junk (sm_dir_query (w_mgr w)) meta ''digest'' (py_range 0 e)
      (\<lambda>st l kv. Inr (st @ [(l, kv)])) (w_ssd w3) ([], sl) = Inr (kvs, sl') \<and> map fst kvs = py_range 0 e \<and>
    (\<forall>(j, k, v) \<in> set kvs. \<exists>K V ts. get_kv (w_hack w) j = Inr (Some K, Some V) \<and>
       digest_tokens (br_info run) (w_ctx w') j = Inr ts \<and> index_select K ts = Inr k \<and> index_select V ts = Inr v \<and>
       rows k = Inr (int (length (get_context_positions (w_ctx w') j)))))"
proof -
  let ?dir = "sm_dir_query (w_mgr w)"
  have bk: "blend_kvcompute env l t run w = Some (Inr (t', run', w'))" using assms(1,2) by (simp add: blend_def)
  obtain info d c where i: "same_saving info (br_info run)"
    and b: "build_all_indices (be_argsort env) (be_zero env) (int (length (k_buffer (w_hack w)))) info (w_digest w, ctx_clear) = Inr (d, c)"
    and sv: "save_caches info (ap_num_layers ap) (w\<lparr>w_digest := d, w_ctx := c\<rparr>) = Inr w'"
    using last_kvcompute_layer [OF bk assms(3,4,5,6)] by auto
  note same = i [unfolded same_saving_def]
  have e: "max 0 (min (int_or (bi_qcompute_end (br_info run)) (ap_num_layers ap)) (ap_num_layers ap)) = e"
    using assms(7-9) by (simp add: int_or_def)
  from sv same assms(3,12) obtain ssd1 tokens ssd2 where
    tk: "digest_token_indices (bi_keep_indices info) (py_slice (context_positions_by_layer c) 0 e) = Inr tokens"
    and sq: "save_all_query_cache ?dir e tokens (Some crit) (bi_keep_indices info) d (w_hack w) ssd1 = Inr ssd2"
    and w': "w_ssd w' = ssd2"
    by (auto simp: save_caches_def rbind_Inr_iff e Let_def)
  from query_cache_saved [OF sq _ assms(13,14,15,21,16), of cd os junk] assms(8) obtain meta ibm kvs sl1 where
    m: "load_query_meta ?dir ssd2 (None, cd) = Inr (meta, (Some meta, ?dir))"
    and ex: "export_payload None d = Inr (dm_metadata d, ibm)"
    and mm: "\<forall>x. json_get meta ''metadata'' x = Inr (JObj (dm_metadata d))" "\<forall>x. json_get meta ''indices_by_method'' x = Inr (JObj ibm)"
    and kvs: "map fst kvs = py_range 0 e" "\<forall>x \<in> set kvs. saved_as (\<lambda>l. rbind (py_get tokens l) (\<lambda>i. Inr (Some i))) (w_hack w) x"
    and ld: "load_query_layers_progressively os junk ?dir meta ''digest'' (py_range 0 e)
      (\<lambda>st l kv. Inr (st @ [(l, kv)])) ssd2 ([], sl) = Inr (kvs, sl1)"
    by auto
  have locs: "2 \<le> length (index_locs info)" "sorted (index_locs info)" using same assms(10,11) by simp_all
  have wc: "w_ctx w' = c" "w_digest w' = d" using save_caches_context [OF sv] by simp_all
  have m2: "load_query_meta ?dir (w_ssd w2) (None, cd) = Inr (meta, (Some meta, ?dir))" using m assms(17) w' by simp
  from restore_query_built [OF locs b m2 ex mm assms(18-20), of ratio] obtain w3 where
    rq: "restore_query_metadata ?dir digest_method ratio w2 = Inr (meta, w3)" and ssd: "w_ssd w3 = ssd2"
    and rp: "context_positions_by_layer (w_ctx w3) = context_positions_by_layer (w_ctx w')"
      "context_positions (w_ctx w3) = context_positions (w_ctx w')"
    using assms(17) w' wc by auto
  have built: "\<exists>info d. same_saving info (br_info run) \<and> w_digest w' = d \<and>
      build_all_indices (be_argsort env) (be_zero env) (int (length (k_buffer (w_hack w)))) info (w_digest w, ctx_clear) =
        Inr (d, w_ctx w')"
    using i b wc by blast
  have dt: "digest_tokens (br_info run) (w_ctx w') j = digest_tokens info c j" for j
    using same by (simp add: digest_tokens_def wc cong: option.case_cong)
  have "\<exists>K V ts. get_kv (w_hack w) j = Inr (Some K, Some V) \<and>
       digest_tokens (br_info run) (w_ctx w') j = Inr ts \<and> index_select K ts = Inr k \<and> index_select V ts = Inr v \<and>
       rows k = Inr (int (length (get_context_positions (w_ctx w') j)))" if "(j, k, v) \<in> set kvs" for j k v
  proof -
    have "j \<in> set (map fst kvs)" using that by force
    then have "0 \<le> j" "j < e" by (simp_all add: kvs(1))
    from saved_context_layer [OF bspec [OF kvs(2) that] this tk] show ?thesis unfolding dt unfolding wc .
  qed
  then show ?thesis
    using rq ssd ld kvs(1) rp built
    by (intro conjI [OF built] exI [of _ meta] exI [of _ w3] exI [of _ kvs] exI [of _ sl1]) auto
qed

definition last_layer_run :: blend_run where
  "last_layer_run = new_run
     \<lparr>bi_style = Some KVCOMPUTE, bi_select_mode = ATTN, bi_ratio = 0,
      bi_att_params = Some \<lparr>ap_num_heads = 1, ap_num_kv_heads = 1, ap_head_dim = 1, ap_num_layers = 2\<rparr>,
      bi_start = 0, bi_attn_start = Some 0, bi_attn_end = Some 2, bi_chunk_lens = [1, 2, 1], bi_chunk_loc_list = [0, 1, 3, 4],
      bi_req_len_list = [3], bi_top_indices = None, bi_top_lens = None, bi_quest_indices = None,
      bi_query_indices = None, bi_positions = Some [0, 1, 2, 3], bi_init_attmeta = True, bi_is_contextblend = True,
      bi_context_cache_source = ''query'', bi_context_n_sink = 1, bi_digest_index_method = ''kvzip'',
      bi_digest_ratio = Some (1 / 2), bi_critical_layers = Some [0], bi_critical_layers_set = Some [0], bi_qcompute_end = Some 1,
      bi_keep_indices = None, bi_original_chunk_loc_list = None, bi_aug_sys_range = None,
      bi_aug_doc_ranges = None, bi_aug_zip_ranges = None, bi_keep_layers_set = None\<rparr>"

definition last_layer_world :: "int world" where
  "last_layer_world = example_world\<lparr>w_mgr := initial_manager\<lparr>sm_offline := True, sm_dir_chunk := ''c'', sm_dir_query := ''q''\<rparr>,
     w_hack := pool_clear\<lparr>k_buffer := [Some (byte_rows [1, 2, 3, 4]), Some (byte_rows [5, 6, 7, 8])],
                          v_buffer := [Some (byte_rows [11, 12, 13, 14]), Some (byte_rows [15, 16, 17, 18])]\<rparr>\<rparr>"

lemma last_layer_blend:
  "case blend example_env 1 (byte_rows [1], byte_rows [1], byte_rows [1]) [] last_layer_run last_layer_world of
     Some (Inr (t, r, w)) \<Rightarrow> context_positions_by_layer (w_ctx w) = [[0, 1]] | _ \<Rightarrow> False"
  by code_simp

theorem offline_context_reaches_online_witness:
  "\<exists>t' run' w' meta w3 k v sl' K ts.
     blend example_env 1 (byte_rows [1], byte_rows [1], byte_rows [1]) [] last_layer_run last_layer_world = Some (Inr (t', run', w')) \<and>
     restore_query_metadata ''q'' None None (last_layer_world\<lparr>w_ssd := w_ssd w'\<rparr>) = Inr (meta, w3) \<and>
     load_query_layers_progressively \<lparr>or_waits = (\<lambda>_. 1), or_most = (\<lambda>_. 0)\<rparr> (\<lambda>_. 0) ''q'' meta ''digest'' [0]
       (\<lambda>st l kv. Inr (st @ [(l, kv)])) (w_ssd w3) ([], example_slot) = Inr ([(0, k, v)], sl') \<and>
     get_kv (w_hack last_layer_world) 0 = Inr (Some K, Some (byte_rows [11, 12, 13, 14])) \<and>
     digest_tokens (br_info last_layer_run) (w_ctx w') 0 = Inr ts \<and> index_select K ts = Inr k \<and>
     context_positions_by_layer (w_ctx w3) = [[0, 1]]"
proof -
  let ?ap = "\<lparr>ap_num_heads = 1, ap_num_kv_heads = 1, ap_head_dim = 1, ap_num_layers = 2\<rparr>"
  let ?os = "\<lparr>or_waits = (\<lambda>_. 1), or_most = (\<lambda>_. 0)\<rparr>"
  obtain t' run' w' where b: "blend example_env 1 (byte_rows [1], byte_rows [1], byte_rows [1]) [] last_layer_run
      last_layer_world = Some (Inr (t', run', w'))"
    and lp: "context_positions_by_layer (w_ctx w') = [[0, 1]]"
    using last_layer_blend by (auto split: option.splits sum.splits)
  have q: "sm_dir_query (w_mgr last_layer_world) = ''q''" by (simp add: last_layer_world_def)
  have g: "get_kv (w_hack last_layer_world) 0 = Inr (Some (byte_rows [1, 2, 3, 4]), Some (byte_rows [11, 12, 13, 14]))"
    by (simp add: last_layer_world_def get_kv_def)
  have wf: "pool_wf (w_hack last_layer_world)"
    by (simp add: last_layer_world_def pool_wf_def buffer_wf_def pool_clear_def)
  have dt: "\<forall>l k v. get_kv (w_hack last_layer_world) l = Inr (Some k, Some v) \<longrightarrow> t_dtype k = Uint8 \<and> t_dtype v = Uint8"
    by (auto simp: get_kv_def rbind_Inr_iff last_layer_world_def byte_rows_def dest!: py_get_in_set)
  have r: "py_range 0 1 = [0]" by code_simp
  let ?built = "\<exists>info d. same_saving info (br_info last_layer_run) \<and> w_digest w' = d \<and>
      build_all_indices (be_argsort example_env) (be_zero example_env) (int (length (k_buffer (w_hack last_layer_world)))) info
        (w_digest last_layer_world, ctx_clear) = Inr (d, w_ctx w')"
  have "?built \<and> (\<exists>meta w3 kvs sl'. restore_query_metadata (sm_dir_query (w_mgr last_layer_world)) None None (last_layer_world\<lparr>w_ssd := w_ssd w'\<rparr>) = Inr (meta, w3) \<and>
    context_positions_by_layer (w_ctx w3) = context_positions_by_layer (w_ctx w') \<and>
    context_positions (w_ctx w3) = context_positions (w_ctx w') \<and>
    load_query_layers_progressively ?os (\<lambda>_. 0) (sm_dir_query (w_mgr last_layer_world)) meta ''digest'' (py_range 0 1)
      (\<lambda>st l kv. Inr (st @ [(l, kv)])) (w_ssd w3) ([], example_slot) = Inr (kvs, sl') \<and> map fst kvs = py_range 0 1 \<and>
    (\<forall>(j, k, v) \<in> set kvs. \<exists>K V ts. get_kv (w_hack last_layer_world) j = Inr (Some K, Some V) \<and>
       digest_tokens (br_info last_layer_run) (w_ctx w') j = Inr ts \<and> index_select K ts = Inr k \<and> index_select V ts = Inr v \<and>
       rows k = Inr (int (length (get_context_positions (w_ctx w') j)))))"
    by (rule offline_context_reaches_online [OF b, where ap = ?ap and crit = "[0]" and dt = Uint8 and cd = "[]"])
      (use wf dt in \<open>simp_all add: last_layer_run_def new_run_def last_layer_world_def initial_manager_def index_locs_def
         normalize_method_def ascii_lower_def slot_wf_def example_slot_def\<close>)
  then obtain meta w3 kvs sl' where m: "restore_query_metadata ''q'' None None (last_layer_world\<lparr>w_ssd := w_ssd w'\<rparr>) = Inr (meta, w3)"
    "load_query_layers_progressively ?os (\<lambda>_. 0) ''q'' meta ''digest'' [0]
      (\<lambda>st l kv. Inr (st @ [(l, kv)])) (w_ssd w3) ([], example_slot) = Inr (kvs, sl')" "map fst kvs = [0]"
    "\<forall>(j, k, v) \<in> set kvs. \<exists>K V ts. get_kv (w_hack last_layer_world) j = Inr (Some K, Some V) \<and>
       digest_tokens (br_info last_layer_run) (w_ctx w') j = Inr ts \<and> index_select K ts = Inr k \<and> index_select V ts = Inr v \<and>
       rows k = Inr (int (length (get_context_positions (w_ctx w') j)))"
    "context_positions_by_layer (w_ctx w3) = context_positions_by_layer (w_ctx w')"
    unfolding q r by (elim exE conjE) (rule that; assumption)
  from m(3) obtain k v where kv: "kvs = [(0, k, v)]" by (cases kvs) auto
  with m(4) g obtain ts where "digest_tokens (br_info last_layer_run) (w_ctx w') 0 = Inr ts" "index_select (byte_rows [1, 2, 3, 4]) ts = Inr k"
    by auto
  with b m(1,2) m(5) [unfolded lp] kv g show ?thesis by blast
qed

end
