(* ===== verification/RadixKey.thy ===== *)
theory RadixKey
  imports Prelude "HOL-Library.Sublist"
begin

text \<open>
  The keys of the radix cache (\<open>srt/mem_cache/radix_cache.py\<close>): token sequences with an optional
  extra key, their comparison token by token or page by page, the key of a child, and the bigram
  keys of EAGLE. The lemmas say that the comparison returns the longest common run of whole pages.
\<close>

text \<open>A token id, or the pair that a bigram key holds in its place.\<close>

datatype tok = Tok int | Bigram tok tok

record radix_key =
  rk_tokens :: "tok list"
  rk_extra :: "string option"

definition key_from :: "nat \<Rightarrow> radix_key \<Rightarrow> radix_key" where
  "key_from n key = key\<lparr>rk_tokens := drop n (rk_tokens key)\<rparr>"

definition key_upto :: "nat \<Rightarrow> radix_key \<Rightarrow> radix_key" where
  "key_upto n key = key\<lparr>rk_tokens := take n (rk_tokens key)\<rparr>"

definition key_len :: "radix_key \<Rightarrow> nat" where
  "key_len key = length (rk_tokens key)"

definition check_extra_key :: "radix_key \<Rightarrow> radix_key \<Rightarrow> unit res" where
  "check_extra_key key0 key1 =
     (if rk_extra key0 \<noteq> rk_extra key1 then Inl (ValueError ''_key_match should be run on the same extra key'')
      else Inr ())"

fun match_page_size1 :: "tok list \<Rightarrow> tok list \<Rightarrow> nat" where
  "match_page_size1 (x # xs) (y # ys) = (if x \<noteq> y then 0 else Suc (match_page_size1 xs ys))"
| "match_page_size1 xs ys = 0"

text \<open>The loop of the paged comparison at index \<open>i\<close>; page sizes are positive.\<close>

function match_paged_loop :: "nat \<Rightarrow> tok list \<Rightarrow> tok list \<Rightarrow> nat \<Rightarrow> nat" where
  "match_paged_loop page xs ys i =
     (if page = 0 \<or> \<not> i < min (length xs) (length ys) then i
      else if take page (drop i xs) \<noteq> take page (drop i ys) then i
      else match_paged_loop page xs ys (i + page))"
  by pat_completeness auto
termination by (relation "measure (\<lambda>(page, xs, ys, i). length xs - i)") auto

declare match_paged_loop.simps [simp del]

definition key_match :: "nat \<Rightarrow> radix_key \<Rightarrow> radix_key \<Rightarrow> nat res" where
  "key_match page key0 key1 =
     rbind (check_extra_key key0 key1) (\<lambda>_.
     Inr (if page = 1 then match_page_size1 (rk_tokens key0) (rk_tokens key1)
          else match_paged_loop page (rk_tokens key0) (rk_tokens key1) 0))"

text \<open>The key a node has in its parent's dict. A plain key and a pair with an extra key never
  coincide, so both are a pair here; the plain key of page size 1 is the one-token page.\<close>

type_synonym child_key = "string option \<times> tok list"

definition get_child_key :: "nat \<Rightarrow> radix_key \<Rightarrow> child_key" where
  "get_child_key page key = (rk_extra key, take page (rk_tokens key))"

definition convert_to_bigram_key :: "tok list \<Rightarrow> tok list" where
  "convert_to_bigram_key tokens =
     (if length tokens < 2 then []
      else (case hd tokens of Bigram _ _ \<Rightarrow> tokens | Tok _ \<Rightarrow> map2 Bigram (butlast tokens) (tl tokens)))"

definition key_convert :: "bool \<Rightarrow> radix_key \<Rightarrow> radix_key" where
  "key_convert is_eagle key =
     (if is_eagle then key\<lparr>rk_tokens := convert_to_bigram_key (rk_tokens key)\<rparr> else key)"

section \<open>The common whole pages\<close>

text \<open>The reference: drop page after page while they agree.\<close>

function page_prefix :: "nat \<Rightarrow> tok list \<Rightarrow> tok list \<Rightarrow> nat" where
  "page_prefix page xs ys =
     (if page = 0 \<or> xs = [] \<or> ys = [] \<or> take page xs \<noteq> take page ys then 0
      else page + page_prefix page (drop page xs) (drop page ys))"
  by pat_completeness auto
termination by (relation "measure (\<lambda>(page, xs, ys). length xs)") auto

declare page_prefix.simps [simp del]

definition paged :: "nat \<Rightarrow> 'a list \<Rightarrow> bool" where
  "paged page xs \<longleftrightarrow> page dvd length xs"

lemma paged_Nil [simp]: "paged page []"
  by (simp add: paged_def)

lemma paged_1 [simp]: "paged (Suc 0) xs"
  by (simp add: paged_def)

lemma paged_drop [simp]: "paged page xs \<Longrightarrow> page dvd n \<Longrightarrow> paged page (drop n xs)"
  by (auto simp: paged_def dvd_diff_nat)

lemma paged_take [simp]: "paged page xs \<Longrightarrow> page dvd n \<Longrightarrow> paged page (take n xs)"
  by (auto simp: paged_def min_def)

lemma paged_page: "paged page xs \<Longrightarrow> xs \<noteq> [] \<Longrightarrow> page \<le> length xs"
  by (auto simp: paged_def dvd_imp_le)

lemma match_paged_loop_prefix: "match_paged_loop page xs ys i = i + page_prefix page (drop i xs) (drop i ys)"
proof (induction page xs ys i rule: match_paged_loop.induct)
  case (1 page xs ys i)
  then show ?case
    by (subst match_paged_loop.simps, subst page_prefix.simps) (auto simp: drop_drop add.commute)
qed

lemma match_page_size1_prefix: "match_page_size1 xs ys = page_prefix 1 xs ys"
  by (induction xs ys rule: match_page_size1.induct) (subst page_prefix.simps, simp)+

lemma key_match_eq: "rk_extra key0 = rk_extra key1 \<Longrightarrow>
    key_match page key0 key1 = Inr (page_prefix page (rk_tokens key0) (rk_tokens key1))"
  by (simp add: key_match_def check_extra_key_def match_page_size1_prefix match_paged_loop_prefix)

lemma page_prefix_dvd: "page dvd page_prefix page xs ys"
proof (induction page xs ys rule: page_prefix.induct)
  case (1 page xs ys)
  then show ?case by (subst page_prefix.simps) simp
qed

lemma page_prefix_le: "paged page xs \<Longrightarrow> paged page ys \<Longrightarrow> page_prefix page xs ys \<le> length xs \<and> page_prefix page xs ys \<le> length ys"
proof (induction page xs ys rule: page_prefix.induct)
  case (1 page xs ys)
  then show ?case
    using paged_page [OF 1(2)] paged_page [OF 1(3)] by (subst (1 2) page_prefix.simps) auto
qed

lemma page_prefix_take: "take (page_prefix page xs ys) xs = take (page_prefix page xs ys) ys"
proof (induction page xs ys rule: page_prefix.induct)
  case (1 page xs ys)
  then show ?case by (subst (1 2) page_prefix.simps) (auto simp: take_add)
qed

lemma page_prefix_sym: "page_prefix page xs ys = page_prefix page ys xs"
proof (induction page xs ys rule: page_prefix.induct)
  case (1 page xs ys)
  then show ?case by (subst (1 2) page_prefix.simps) auto
qed

text \<open>After the common pages the next pages differ, so a walk that stopped inside a node ends there.\<close>

lemma page_prefix_stop:
  "0 < page \<Longrightarrow> page_prefix page xs ys < length xs \<Longrightarrow> page_prefix page xs ys < length ys \<Longrightarrow>
    take page (drop (page_prefix page xs ys) xs) \<noteq> take page (drop (page_prefix page xs ys) ys)"
proof (induction page xs ys rule: page_prefix.induct)
  case (1 page xs ys)
  then show ?case
    by (subst (asm) (1 2) page_prefix.simps, subst (1 2) page_prefix.simps) (auto split: if_splits simp: add.commute)
qed

lemma page_prefix_pos:
  assumes "0 < page" "xs \<noteq> []" "ys \<noteq> []" "take page xs = take page ys"
  shows "page \<le> page_prefix page xs ys"
  using assms by (subst page_prefix.simps) simp

lemma page_prefix_drop:
  "page dvd s \<Longrightarrow> s \<le> page_prefix page xs ys \<Longrightarrow> page_prefix page (drop s xs) (drop s ys) = page_prefix page xs ys - s"
proof (induction page xs ys arbitrary: s rule: page_prefix.induct)
  case (1 page xs ys)
  show ?case
  proof (cases "s = 0")
    case False
    have c: "\<not> (page = 0 \<or> xs = [] \<or> ys = [] \<or> take page xs \<noteq> take page ys)"
      using 1(3) False by (subst (asm) page_prefix.simps) (auto split: if_splits)
    then have e: "page_prefix page xs ys = page + page_prefix page (drop page xs) (drop page ys)"
      by (subst page_prefix.simps) simp
    have "page \<le> s" "page dvd s - page" using 1(2) False by (auto simp: dvd_imp_le dvd_diff_nat)
    moreover have "s - page \<le> page_prefix page (drop page xs) (drop page ys)" using 1(3) e by simp
    ultimately show ?thesis using 1(1) [OF c, of "s - page"] e by simp
  qed simp
qed

lemma page_prefix_take_left: "paged page xs \<Longrightarrow> page dvd s \<Longrightarrow> s \<le> length xs \<Longrightarrow> page_prefix page (take s xs) ys = min s (page_prefix page xs ys)"
proof (induction page xs ys arbitrary: s rule: page_prefix.induct)
  case (1 page xs ys)
  show ?case
  proof (cases "page = 0 \<or> xs = [] \<or> ys = [] \<or> take page xs \<noteq> take page ys")
    case True
    then show ?thesis
    proof (cases "s = 0")
      case False
      then have "page \<le> s" using 1(3) by (auto simp: dvd_imp_le)
      then have "take page (take s xs) = take page xs" by (simp add: min_def)
      then show ?thesis using True by (subst (1 2) page_prefix.simps) auto
    qed (simp add: page_prefix.simps)
  next
    case False
    show ?thesis
    proof (cases "s = 0")
      case s: False
      have ps: "page \<le> s" "page dvd s - page" using 1(3) s by (auto simp: dvd_imp_le dvd_diff_nat)
      moreover have "paged page (drop page xs)" using 1(2) by simp
      ultimately have ih: "page_prefix page (take (s - page) (drop page xs)) (drop page ys) = min (s - page) (page_prefix page (drop page xs) (drop page ys))"
        using 1(1) [OF False] 1(4) by simp
      have "take page (take s xs) = take page xs" "drop page (take s xs) = take (s - page) (drop page xs)" "take s xs \<noteq> []"
        using ps s False by (auto simp: min_def drop_take)
      then have "page_prefix page (take s xs) ys = page + page_prefix page (take (s - page) (drop page xs)) (drop page ys)"
        using False by (subst page_prefix.simps) simp
      moreover have "page_prefix page xs ys = page + page_prefix page (drop page xs) (drop page ys)"
        using False by (subst page_prefix.simps) simp
      ultimately show ?thesis unfolding ih using ps by linarith
    qed (simp add: page_prefix.simps)
  qed
qed

lemma page_prefix_prefix: "0 < page \<Longrightarrow> paged page xs \<Longrightarrow> prefix xs ys \<Longrightarrow> page_prefix page xs ys = length xs"
proof (induction page xs ys rule: page_prefix.induct)
  case (1 page xs ys)
  show ?case
  proof (cases "xs = []")
    case False
    obtain zs where ys: "ys = xs @ zs" using 1(4) by (auto simp: prefix_def)
    have l: "page \<le> length xs" using paged_page 1(3) False by blast
    then have "take page xs = take page ys" by (simp add: ys)
    moreover have "prefix (drop page xs) (drop page ys)" using l by (simp add: ys)
    ultimately show ?thesis using 1 False l by (subst page_prefix.simps) (simp add: ys)
  qed (simp add: page_prefix.simps)
qed

end
