(* ===== verification/HeapQ.thy ===== *)
theory HeapQ
  imports Prelude "HOL-Library.Multiset"
begin

text \<open>
  The eviction queue of the radix cache: Python's \<open>heapq\<close> on a list of (priority, item) pairs, as the
  interpreter runs it (\<open>heapify\<close>, \<open>heappush\<close>, \<open>heappop\<close> over \<open>_siftup\<close> and \<open>_siftdown\<close>), its contract
  as the locale \<open>min_queue\<close>, and the proof that the array heap keeps that contract.
\<close>

section \<open>The heap algorithms\<close>

definition parent :: "nat \<Rightarrow> nat" where
  "parent pos = (pos - 1) div 2"

lemma parent_less [termination_simp]: "0 < j \<Longrightarrow> parent j < j"
  by (simp add: parent_def)

lemma parent_neq: "0 < j \<Longrightarrow> parent j \<noteq> j" "0 < j \<Longrightarrow> j \<noteq> parent j" "0 < j \<Longrightarrow> \<not> j \<le> parent j"
  by (auto simp: parent_def)

lemma parent_child [simp]: "parent (2 * p + 1) = p" "parent (2 * p + 2) = p" "parent (Suc (2 * p)) = p" "parent (Suc (Suc (2 * p))) = p"
  by (simp_all add: parent_def)

lemma parent_cases: "0 < j \<Longrightarrow> parent j = p \<Longrightarrow> j = 2 * p + 1 \<or> j = 2 * p + 2"
  unfolding parent_def by presburger

fun siftdown :: "('k::linorder \<times> 'v) list \<Rightarrow> nat \<Rightarrow> nat \<Rightarrow> 'k \<times> 'v \<Rightarrow> ('k \<times> 'v) list" where
  "siftdown h start pos new =
     (if start < pos then
        let up = h ! parent pos
        in if fst new < fst up then siftdown (h[pos := up]) start (parent pos) new
           else h[pos := new]
      else h[pos := new])"

function siftup_loop :: "('k::linorder \<times> 'v) list \<Rightarrow> nat \<Rightarrow> ('k \<times> 'v) list \<times> nat" where
  "siftup_loop h pos =
     (let c = 2 * pos + 1
      in if c < length h then
           let c' = (if c + 1 < length h \<and> \<not> fst (h ! c) < fst (h ! (c + 1)) then c + 1 else c)
           in siftup_loop (h[pos := h ! c']) c'
         else (h, pos))"
  by pat_completeness auto
termination by (relation "measure (\<lambda>(h, pos). length h - pos)") auto

definition siftup :: "('k::linorder \<times> 'v) list \<Rightarrow> nat \<Rightarrow> ('k \<times> 'v) list" where
  "siftup h pos = (let new = h ! pos; (h', leaf) = siftup_loop h pos in siftdown h' pos leaf new)"

fun heapify_from :: "nat \<Rightarrow> ('k::linorder \<times> 'v) list \<Rightarrow> ('k \<times> 'v) list" where
  "heapify_from 0 h = h"
| "heapify_from (Suc i) h = heapify_from i (siftup h i)"

definition heapify :: "('k::linorder \<times> 'v) list \<Rightarrow> ('k \<times> 'v) list" where
  "heapify h = heapify_from (length h div 2) h"

definition heappush :: "('k::linorder \<times> 'v) list \<Rightarrow> 'k \<times> 'v \<Rightarrow> ('k \<times> 'v) list" where
  "heappush h x = siftdown (h @ [x]) 0 (length h) x"

definition heappop :: "('k::linorder \<times> 'v) list \<Rightarrow> ('k \<times> 'v) \<times> ('k \<times> 'v) list" where
  "heappop h =
     (let l = last h; h' = butlast h
      in if h' = [] then (l, []) else (h' ! 0, siftup (h'[0 := l]) 0))"

declare siftdown.simps [simp del] siftup_loop.simps [simp del]

section \<open>The contract of a priority queue\<close>

locale min_queue =
  fixes valid :: "('k::linorder \<times> 'v) list \<Rightarrow> bool"
    and of_list :: "('k \<times> 'v) list \<Rightarrow> ('k \<times> 'v) list"
    and push :: "('k \<times> 'v) list \<Rightarrow> 'k \<times> 'v \<Rightarrow> ('k \<times> 'v) list"
    and pop :: "('k \<times> 'v) list \<Rightarrow> ('k \<times> 'v) \<times> ('k \<times> 'v) list"
  assumes of_list_valid: "valid (of_list xs)"
    and of_list_elems: "mset (of_list xs) = mset xs"
    and push_valid: "valid q \<Longrightarrow> valid (push q x)"
    and push_elems: "mset (push q x) = add_mset x (mset q)"
    and pop_valid: "valid q \<Longrightarrow> q \<noteq> [] \<Longrightarrow> valid (snd (pop q))"
    and pop_elems: "q \<noteq> [] \<Longrightarrow> mset q = add_mset (fst (pop q)) (mset (snd (pop q)))"
    and pop_min: "valid q \<Longrightarrow> q \<noteq> [] \<Longrightarrow> y \<in> set q \<Longrightarrow> fst (fst (pop q)) \<le> fst y"
begin

lemma set_of_list: "set (of_list xs) = set xs"
  by (rule mset_eq_setD) (rule of_list_elems)

lemma set_push: "set (push q x) = insert x (set q)"
  by (metis push_elems set_mset_add_mset_insert set_mset_mset)

lemma length_push: "length (push q x) = Suc (length q)"
  by (metis push_elems size_add_mset size_mset)

lemma set_pop: "q \<noteq> [] \<Longrightarrow> set q = insert (fst (pop q)) (set (snd (pop q)))"
  by (metis pop_elems set_mset_add_mset_insert set_mset_mset)

lemma length_pop: "q \<noteq> [] \<Longrightarrow> Suc (length (snd (pop q))) = length q"
  by (metis pop_elems size_add_mset size_mset)

lemma distinct_push: "distinct (map f q) \<Longrightarrow> f x \<notin> f ` set q \<Longrightarrow> distinct (map f (push q x))"
  by (metis (no_types) distinct.simps(2) list.simps(9) mset.simps(2) mset_eq_imp_distinct_iff mset_map push_elems set_map)

lemma distinct_pop:
  assumes "q \<noteq> []" "distinct (map f q)"
  shows "distinct (map f (snd (pop q)))" "f (fst (pop q)) \<notin> f ` set (snd (pop q))"
proof -
  have "mset (map f q) = mset (map f (fst (pop q) # snd (pop q)))" using pop_elems [OF assms(1)] by (metis mset.simps(2) mset_map)
  from mset_eq_imp_distinct_iff [OF this] assms(2)
  show "distinct (map f (snd (pop q)))" "f (fst (pop q)) \<notin> f ` set (snd (pop q))" by simp_all
qed

end

section \<open>The array heap keeps the contract\<close>

text \<open>The heap order below index \<open>s\<close>, and the same with a hole at \<open>p\<close>.\<close>

definition heap_from :: "nat \<Rightarrow> ('k::linorder \<times> 'v) list \<Rightarrow> bool" where
  "heap_from s h \<longleftrightarrow> (\<forall>j. 0 < j \<and> j < length h \<and> s \<le> parent j \<longrightarrow> fst (h ! parent j) \<le> fst (h ! j))"

definition hole_heap :: "nat \<Rightarrow> ('k::linorder \<times> 'v) list \<Rightarrow> nat \<Rightarrow> bool" where
  "hole_heap s h p \<longleftrightarrow>
     (\<forall>j. 0 < j \<and> j < length h \<and> s \<le> parent j \<and> parent j \<noteq> p \<and> j \<noteq> p \<longrightarrow> fst (h ! parent j) \<le> fst (h ! j)) \<and>
     (\<forall>j. 0 < j \<and> j < length h \<and> parent j = p \<and> 0 < p \<and> s \<le> parent p \<longrightarrow> fst (h ! parent p) \<le> fst (h ! j))"

inductive under :: "nat \<Rightarrow> nat \<Rightarrow> bool" for s where
  top: "under s s"
| left: "under s p \<Longrightarrow> under s (2 * p + 1)"
| right: "under s p \<Longrightarrow> under s (2 * p + 2)"

lemma under_ge: "under s p \<Longrightarrow> s \<le> p"
  by (induction rule: under.induct) auto

lemma under_parent: "under s p \<Longrightarrow> s < p \<Longrightarrow> under s (parent p) \<and> s \<le> parent p"
  by (cases rule: under.cases) (auto dest: under_ge)

lemma under_0: "under 0 n"
proof (induction n rule: less_induct)
  case (less n)
  show ?case
  proof (cases "n = 0")
    case False
    then have "under 0 (parent n)" using less parent_less [of n] by simp
    then show ?thesis using parent_cases [of n "parent n"] False under.left under.right by fastforce
  qed (simp add: under.top)
qed

lemma mset_move: "i < length h \<Longrightarrow> j < length h \<Longrightarrow> i \<noteq> j \<Longrightarrow> mset (h[i := h ! j, j := x]) = mset (h[i := x])"
  by (simp add: mset_update nth_list_update add_mset_commute)

lemma siftdown_mset: "pos < length h \<Longrightarrow> mset (siftdown h s pos new) = mset (h[pos := new])"
proof (induction h s pos new rule: siftdown.induct)
  case (1 h s pos new)
  show ?case
  proof (cases "s < pos \<and> fst new < fst (h ! parent pos)")
    case True
    then have "parent pos < pos" using parent_less [of pos] by simp
    then have "parent pos < length h" "pos \<noteq> parent pos" using 1(2) by simp_all
    then have "mset (siftdown h s pos new) = mset ((h[pos := h ! parent pos])[parent pos := new])"
      using 1(1) [OF _ refl] 1(2) True by (subst siftdown.simps) (simp add: Let_def)
    then show ?thesis using mset_move [of pos h "parent pos" new] \<open>parent pos < length h\<close> \<open>pos \<noteq> parent pos\<close> 1(2) by metis
  qed (subst siftdown.simps, auto simp: Let_def)
qed

lemma siftdown_heap:
  "hole_heap s h pos \<Longrightarrow> under s pos \<Longrightarrow> pos < length h \<Longrightarrow>
    (\<forall>j. 0 < j \<and> j < length h \<and> parent j = pos \<longrightarrow> fst new \<le> fst (h ! j)) \<Longrightarrow> heap_from s (siftdown h s pos new)"
proof (induction h s pos new rule: siftdown.induct)
  case (1 h s pos new)
  note hole = 1(2)[unfolded hole_heap_def] and small = 1(5)
  show ?case
  proof (cases "s < pos \<and> fst new < fst (h ! parent pos)")
    case True
    let ?pp = "parent pos" and ?h = "h[pos := h ! parent pos]"
    have pp: "under s ?pp" "s \<le> ?pp" "?pp < pos" using under_parent [OF 1(3)] True parent_less [of pos] by auto
    have le: "fst (h ! ?pp) \<le> fst (?h ! j)" if "0 < j" "j < length h" "parent j = ?pp" for j
      using hole that pp by (cases "j = pos") auto
    have "hole_heap s ?h ?pp"
      unfolding hole_heap_def
    proof (intro conjI allI impI)
      fix j assume j: "0 < j \<and> j < length ?h \<and> s \<le> parent j \<and> parent j \<noteq> ?pp \<and> j \<noteq> ?pp"
      show "fst (?h ! parent j) \<le> fst (?h ! j)"
      proof (cases "parent j = pos")
        case True
        then have "j \<noteq> pos" using j parent_neq(1) [of j] by simp
        then have "fst (h ! parent pos) \<le> fst (h ! j)" using hole j pp True by simp
        then show ?thesis using True \<open>j \<noteq> pos\<close> 1(4) by simp
      next
        case False
        have "j \<noteq> pos" using j by auto
        moreover have "fst (h ! parent j) \<le> fst (h ! j)" using hole j False \<open>j \<noteq> pos\<close> by simp
        ultimately show ?thesis using False by simp
      qed
    next
      fix j assume j: "0 < j \<and> j < length ?h \<and> parent j = ?pp \<and> 0 < ?pp \<and> s \<le> parent ?pp"
      then have "parent ?pp < pos" using parent_less [of ?pp] pp(3) by linarith
      then have "parent ?pp \<noteq> pos" "?pp \<noteq> pos" using pp(3) by simp_all
      moreover have "?pp < length h" using pp(3) 1(4) by simp
      ultimately have "fst (h ! parent ?pp) \<le> fst (h ! ?pp)" using hole j by blast
      also have "\<dots> \<le> fst (?h ! j)" using le [of j] j by simp
      finally show "fst (?h ! parent ?pp) \<le> fst (?h ! j)" using \<open>parent ?pp \<noteq> pos\<close> by simp
    qed
    moreover have "\<forall>j. 0 < j \<and> j < length ?h \<and> parent j = ?pp \<longrightarrow> fst new \<le> fst (?h ! j)"
    proof (intro allI impI)
      fix j assume "0 < j \<and> j < length ?h \<and> parent j = ?pp"
      then have "fst (h ! ?pp) \<le> fst (?h ! j)" using le [of j] by simp
      then show "fst new \<le> fst (?h ! j)" using True by (meson less_imp_le less_le_trans)
    qed
    moreover have "?pp < length ?h" using pp(3) 1(4) by simp
    ultimately have "heap_from s (siftdown ?h s ?pp new)" using 1(1) [OF _ refl] True pp(1) by simp
    then show ?thesis using True by (subst siftdown.simps) (simp add: Let_def)
  next
    case False
    then have e: "siftdown h s pos new = h[pos := new]" by (subst siftdown.simps) (auto simp: Let_def)
    have "fst (h[pos := new] ! parent j) \<le> fst (h[pos := new] ! j)" if j: "0 < j" "j < length h" "s \<le> parent j" for j
    proof (cases "j = pos")
      case True
      then have "s < pos" "parent j \<noteq> pos" using j parent_less [of pos] by simp_all
      then show ?thesis using False True 1(4) by (auto simp: not_less)
    next
      case False
      show ?thesis
      proof (cases "parent j = pos")
        case True
        then have "fst new \<le> fst (h ! j)" using small j by blast
        then show ?thesis using True False 1(4) by simp
      next
        case par: False
        then have "fst (h ! parent j) \<le> fst (h ! j)" using hole j False by blast
        then show ?thesis using par False by simp
      qed
    qed
    then show ?thesis by (simp add: e heap_from_def)
  qed
qed

lemma siftup_loop_correct:
  "siftup_loop h pos = (h', leaf) \<Longrightarrow> pos < length h \<Longrightarrow>
    length h' = length h \<and> leaf < length h \<and> \<not> 2 * leaf + 1 < length h \<and> mset (h'[leaf := x]) = mset (h[pos := x]) \<and>
    (under s pos \<longrightarrow> under s leaf) \<and> (hole_heap s h pos \<longrightarrow> under s pos \<longrightarrow> hole_heap s h' leaf)"
proof (induction h pos rule: siftup_loop.induct)
  case (1 h pos)
  show ?case
  proof (cases "2 * pos + 1 < length h")
    case True
    define c where "c = (if 2 * pos + 2 < length h \<and> \<not> fst (h ! (2 * pos + 1)) < fst (h ! (2 * pos + 2)) then 2 * pos + 2 else 2 * pos + 1)"
    have c: "c < length h" "parent c = pos" "c = 2 * pos + 1 \<or> c = 2 * pos + 2" "pos < c" "0 < c" using True by (auto simp: c_def simp del: add_2_eq_Suc')
    have small: "fst (h ! c) \<le> fst (h ! j)" if "0 < j" "j < length h" "parent j = pos" for j
    proof -
      have "j = 2 * pos + 1 \<or> j = 2 * pos + 2" using that parent_cases by blast
      then show ?thesis using that by (auto simp: c_def)
    qed
    let ?h = "h[pos := h ! c]"
    have cc: "(if 2 * pos + 1 + 1 < length h \<and> \<not> fst (h ! (2 * pos + 1)) < fst (h ! (2 * pos + 1 + 1)) then 2 * pos + 1 + 1 else 2 * pos + 1) = c"
      by (simp add: c_def)
    have r: "siftup_loop ?h c = (h', leaf)"
      using 1(2) True by (subst (asm) siftup_loop.simps) (simp only: Let_def cc if_True)
    have IH: "length h' = length ?h \<and> leaf < length ?h \<and> \<not> 2 * leaf + 1 < length ?h \<and> mset (h'[leaf := x]) = mset (?h[c := x]) \<and>
      (under s c \<longrightarrow> under s leaf) \<and> (hole_heap s ?h c \<longrightarrow> under s c \<longrightarrow> hole_heap s h' leaf)"
      using 1(1) [OF refl True refl] r c unfolding cc by auto
    have "under s c" if "under s pos" using c(3) under.left [OF that] under.right [OF that] by auto
    moreover have "hole_heap s ?h c" if hole: "hole_heap s h pos" and "under s pos"
      unfolding hole_heap_def
    proof (intro conjI allI impI)
      fix j assume j: "0 < j \<and> j < length ?h \<and> s \<le> parent j \<and> parent j \<noteq> c \<and> j \<noteq> c"
      then have m: "parent j \<noteq> j" "j < length h" using parent_neq [of j] by simp_all
      show "fst (?h ! parent j) \<le> fst (?h ! j)"
      proof (cases "parent j = pos")
        case True
        then have "j \<noteq> pos" using m by metis
        then show ?thesis using small [of j] j m True 1(3) by auto
      next
        case False
        then show ?thesis
          using hole j c 1(3) unfolding hole_heap_def by (cases "j = pos") auto
      qed
    next
      fix j assume j: "0 < j \<and> j < length ?h \<and> parent j = c \<and> 0 < c \<and> s \<le> parent c"
      then have "c < j" using parent_less [of j] by simp
      then have "j \<noteq> pos" using c by auto
      then show "fst (?h ! parent c) \<le> fst (?h ! j)" using hole j c 1(3) unfolding hole_heap_def by auto
    qed
    ultimately show ?thesis using IH mset_move [of pos h c x] c 1(3) by auto
  next
    case False
    then have "h' = h \<and> leaf = pos" using 1(2) by (subst (asm) siftup_loop.simps) (auto simp: Let_def)
    then show ?thesis using 1(3) False by simp
  qed
qed

lemma siftup_correct:
  assumes "pos < length h"
  shows "mset (siftup h pos) = mset h" "heap_from (Suc pos) h \<Longrightarrow> heap_from pos (siftup h pos)"
proof -
  obtain h' leaf where l: "siftup_loop h pos = (h', leaf)" by fastforce
  note c = siftup_loop_correct [OF l assms, of "h ! pos" pos]
  have s: "siftup h pos = siftdown h' pos leaf (h ! pos)" by (simp add: siftup_def l Let_def)
  show "mset (siftup h pos) = mset h" using c by (simp add: s siftdown_mset)
  assume "heap_from (Suc pos) h"
  then have "hole_heap pos h pos"
    using parent_neq(3) [of pos] by (fastforce simp: hole_heap_def heap_from_def)
  then show "heap_from pos (siftup h pos)"
    unfolding s using c under.top [of pos]
  proof (intro siftdown_heap allI impI)
    fix j assume "0 < j \<and> j < length h' \<and> parent j = leaf"
    then have "j = 2 * leaf + 1 \<or> j = 2 * leaf + 2" "j < length h" using parent_cases [of j leaf] c by simp_all
    then show "fst (h ! pos) \<le> fst (h' ! j)" using c by auto
  qed simp_all
qed

lemma length_siftup: "pos < length h \<Longrightarrow> length (siftup h pos) = length h"
  by (metis siftup_correct(1) size_mset)

lemma heapify_from_correct:
  "i \<le> length h \<Longrightarrow> mset (heapify_from i h) = mset h \<and> (heap_from i h \<longrightarrow> heap_from 0 (heapify_from i h))"
  by (induction i arbitrary: h) (auto simp: siftup_correct length_siftup)

lemma heapify_correct: "mset (heapify h) = mset h" "heap_from 0 (heapify h)"
proof -
  have "\<not> length h div 2 \<le> parent j" if "0 < j" "j < length h" for j using that unfolding parent_def by presburger
  then have "heap_from (length h div 2) h" by (auto simp: heap_from_def)
  then show "mset (heapify h) = mset h" "heap_from 0 (heapify h)"
    using heapify_from_correct [of "length h div 2" h] by (auto simp: heapify_def)
qed

lemma heappush_heap: "heap_from 0 h \<Longrightarrow> heap_from 0 (heappush h x)"
proof -
  assume h: "heap_from 0 h"
  have "hole_heap 0 (h @ [x]) (length h)"
    unfolding hole_heap_def
  proof (intro conjI allI impI)
    fix j assume "0 < j \<and> j < length (h @ [x]) \<and> 0 \<le> parent j \<and> parent j \<noteq> length h \<and> j \<noteq> length h"
    then show "fst ((h @ [x]) ! parent j) \<le> fst ((h @ [x]) ! j)"
      using h by (auto simp: heap_from_def nth_append dest: less_trans [OF parent_less])
  next
    fix j assume j: "0 < j \<and> j < length (h @ [x]) \<and> parent j = length h \<and> 0 < length h \<and> 0 \<le> parent (length h)"
    then have False using parent_less [of j] by simp
    then show "fst ((h @ [x]) ! parent (length h)) \<le> fst ((h @ [x]) ! j)" ..
  qed
  moreover have "\<not> (0 < j \<and> j < length (h @ [x]) \<and> parent j = length h)" for j 
  proof
    assume "0 < j \<and> j < length (h @ [x]) \<and> parent j = length h"
    then show False using parent_less [of j] by simp
  qed
  ultimately show ?thesis unfolding heappush_def using under_0 by (intro siftdown_heap) auto
qed

lemma heap_least: "heap_from 0 h \<Longrightarrow> j < length h \<Longrightarrow> fst (h ! 0) \<le> fst (h ! j)"
proof (induction j rule: less_induct)
  case (less j)
  show ?case
  proof (cases "j = 0")
    case False
    then have "fst (h ! 0) \<le> fst (h ! parent j)" using less parent_less [of j] by auto
    also have "\<dots> \<le> fst (h ! j)" using less.prems False by (auto simp: heap_from_def)
    finally show ?thesis .
  qed simp
qed

lemma heappop_fst: "h \<noteq> [] \<Longrightarrow> fst (heappop h) = h ! 0"
  by (cases h rule: rev_cases) (auto simp: heappop_def Let_def nth_append)

lemma heappop_elems: "h \<noteq> [] \<Longrightarrow> mset h = add_mset (fst (heappop h)) (mset (snd (heappop h)))"
proof (cases h rule: rev_cases)
  case (snoc h' l)
  then show ?thesis
    by (cases h') (auto simp: heappop_def Let_def siftup_correct)
qed simp

lemma heappop_heap: "heap_from 0 h \<Longrightarrow> h \<noteq> [] \<Longrightarrow> heap_from 0 (snd (heappop h))"
proof (cases h rule: rev_cases)
  case (snoc h' l)
  assume h: "heap_from 0 h"
  show ?thesis
  proof (cases "h' = []")
    case False
    have "fst (h'[0 := l] ! parent j) \<le> fst (h'[0 := l] ! j)" if j: "0 < j" "j < length h'" "Suc 0 \<le> parent j" for j
    proof -
      have "parent j < length h'" "parent j \<noteq> 0" using j parent_less [of j] by linarith+
      moreover have "fst (h ! parent j) \<le> fst (h ! j)" using h j by (simp add: heap_from_def snoc)
      ultimately show ?thesis using j by (simp add: snoc nth_append)
    qed
    then have "heap_from (Suc 0) (h'[0 := l])" by (simp add: heap_from_def)
    then show ?thesis using siftup_correct(2) [of 0 "h'[0 := l]"] False snoc by (simp add: heappop_def Let_def)
  qed (simp add: heappop_def snoc heap_from_def)
qed simp

interpretation heapq: min_queue "heap_from 0" heapify heappush heappop
proof
  fix h :: "('k::linorder \<times> 'v) list" and x y
  show "mset (heappush h x) = add_mset x (mset h)" by (simp add: heappush_def siftdown_mset)
  show "heap_from 0 h \<Longrightarrow> h \<noteq> [] \<Longrightarrow> y \<in> set h \<Longrightarrow> fst (fst (heappop h)) \<le> fst y"
    by (auto simp: heappop_fst in_set_conv_nth heap_least)
qed (simp_all add: heapify_correct heappush_heap heappop_heap heappop_elems)

end
