(* ===== verification/RadixTree.thy ===== *)
theory RadixTree
  imports RadixKey HeapQ "HOL-Library.AList" "HOL-Library.List_Lexorder"
begin

text \<open>
  The nodes of the radix cache and the operations on them (\<open>srt/mem_cache/radix_cache.py\<close>,
  \<open>evict_policy.py\<close>): the walk of a lookup and of an insertion with the splitting of nodes, the lock
  counters along the path to the root, and the eviction of leaves. The tree of the code, nodes with a
  dict of children and a parent pointer, is a tree value; a reference to a node, as requests hold it,
  is the node's id, which splitting keeps with the lower part. A walk towards the root is a change of
  the nodes on the path from the root. Clock readings come from the parameter \<open>cf_clock\<close> in the order
  in which the code takes them; hashes of pages from \<open>cf_hash\<close>.
\<close>

section \<open>State\<close>

datatype evict_policy = LRU | LFU | FIFO | MRU | FILO

record cache_config =
  cf_page :: nat
  cf_disable :: bool
  cf_events :: bool
  cf_eagle :: bool
  cf_policy :: evict_policy
  cf_clock :: "nat \<Rightarrow> int"
  cf_hash :: "tok list \<Rightarrow> int"

record node_info =
  ni_id :: nat
  ni_key :: radix_key
  ni_value :: "int list"
  ni_lock :: int
  ni_access :: int
  ni_created :: int
  ni_hits :: int

datatype rnode = RNode (info: node_info) (kids: "(child_key \<times> rnode) list")

datatype kv_event = BlockStored int "int option" "tok list" nat | BlockRemoved int | AllBlocksCleared

text \<open>The fields of the cache beside the tree; \<open>te_next\<close> is \<open>TreeNode.counter\<close>, \<open>te_ticks\<close> counts
  the readings of the clock.\<close>

record tree_env =
  te_next :: nat
  te_ticks :: nat
  te_root :: nat
  te_evictable :: int
  te_protected :: int
  te_queue :: "kv_event list"

definition node_len :: "node_info \<Rightarrow> nat" where
  "node_len i = key_len (ni_key i)"

definition read_clock :: "cache_config \<Rightarrow> tree_env \<Rightarrow> int \<times> tree_env" where
  "read_clock cf e = (cf_clock cf (te_ticks e), e\<lparr>te_ticks := te_ticks e + 1\<rparr>)"

definition new_tree_node :: "cache_config \<Rightarrow> radix_key \<Rightarrow> int list \<Rightarrow> int \<Rightarrow> tree_env \<Rightarrow> node_info \<times> tree_env" where
  "new_tree_node cf key value lock e =
     (let (access, e1) = read_clock cf e; (created, e2) = read_clock cf e1
      in (\<lparr>ni_id = te_next e2, ni_key = key, ni_value = value, ni_lock = lock, ni_access = access,
           ni_created = created, ni_hits = 0\<rparr>, e2\<lparr>te_next := te_next e2 + 1\<rparr>))"

section \<open>Cache events\<close>

function pages_of :: "nat \<Rightarrow> tok list \<Rightarrow> tok list list" where
  "pages_of page toks = (if page = 0 \<or> toks = [] then [] else take page toks # pages_of page (drop page toks))"
  by pat_completeness auto
termination by (relation "measure (\<lambda>(page, toks). length toks)") auto

declare pages_of.simps [simp del]

fun chain_blocks :: "(tok list \<Rightarrow> int) \<Rightarrow> int option \<Rightarrow> tok list list \<Rightarrow> kv_event list" where
  "chain_blocks h parent_hash [] = []"
| "chain_blocks h parent_hash (p # ps) = BlockStored (h p) parent_hash p (length p) # chain_blocks h (Some (h p)) ps"

text \<open>As in the code, a node other than the root gets no parent hash.\<close>

definition parent_block_hash :: "cache_config \<Rightarrow> node_info option \<Rightarrow> node_info \<Rightarrow> tree_env \<Rightarrow> int option" where
  "parent_block_hash cf par i e =
     (case par of
        None \<Rightarrow> None
      | Some p \<Rightarrow>
          if ni_id i \<noteq> te_root e then None
          else
            let last_page_start = (node_len p - 1) div cf_page cf * cf_page cf
            in Some (cf_hash cf (drop last_page_start (rk_tokens (ni_key p)))))"

definition record_store_event :: "cache_config \<Rightarrow> node_info option \<Rightarrow> node_info \<Rightarrow> tree_env \<Rightarrow> tree_env" where
  "record_store_event cf par i e =
     (if cf_events cf then
        e\<lparr>te_queue := te_queue e @ chain_blocks (cf_hash cf) (parent_block_hash cf par i e)
            (pages_of (cf_page cf) (rk_tokens (ni_key i)))\<rparr>
      else e)"

definition record_remove_event :: "cache_config \<Rightarrow> node_info \<Rightarrow> tree_env \<Rightarrow> tree_env" where
  "record_remove_event cf i e =
     (if cf_events cf then
        e\<lparr>te_queue := te_queue e @ map (\<lambda>p. BlockRemoved (cf_hash cf p)) (pages_of (cf_page cf) (rk_tokens (ni_key i)))\<rparr>
      else e)"

definition record_all_cleared_event :: "cache_config \<Rightarrow> tree_env \<Rightarrow> tree_env" where
  "record_all_cleared_event cf e = (if cf_events cf then e\<lparr>te_queue := te_queue e @ [AllBlocksCleared]\<rparr> else e)"

definition take_events :: "cache_config \<Rightarrow> tree_env \<Rightarrow> kv_event list \<times> tree_env" where
  "take_events cf e = (if \<not> cf_events cf then ([], e) else (te_queue e, e\<lparr>te_queue := []\<rparr>))"

section \<open>Walks from the root\<close>

lemma size_kid_mem [termination_simp]: "(k, c) \<in> set cs \<Longrightarrow> size c < Suc (size_list (\<lambda>x. Suc (size (snd x))) cs)"
  by (induction cs) auto

lemma size_kid [termination_simp]: "map_of cs k = Some c \<Longrightarrow> size c < Suc (size_list (\<lambda>x. Suc (size (snd x))) cs)"
  by (rule size_kid_mem) (rule map_of_SomeD)

definition touch :: "int \<Rightarrow> rnode \<Rightarrow> rnode" where
  "touch t n = RNode ((info n)\<lparr>ni_access := t\<rparr>) (kids n)"

text \<open>\<open>_split_node\<close>: the new upper part with the rest as its only child.\<close>

definition split_node :: "cache_config \<Rightarrow> node_info \<Rightarrow> rnode \<Rightarrow> nat \<Rightarrow> tree_env \<Rightarrow> rnode \<times> tree_env" where
  "split_node cf par child split_len e =
     (let ci = info child; key = ni_key ci;
          e1 = record_remove_event cf ci e;
          (upper, e2) = new_tree_node cf (key_upto split_len key) (take split_len (ni_value ci)) (ni_lock ci) e1;
          lower = ci\<lparr>ni_key := key_from split_len key, ni_value := drop split_len (ni_value ci)\<rparr>;
          e3 = record_store_event cf (Some par) upper e2;
          e4 = record_store_event cf (Some upper) lower e3
      in (RNode upper [(get_child_key (cf_page cf) (key_from split_len key), RNode lower (kids child))], e4))"

text \<open>The lookup from a node: the tree with the new access times and at most one split, the values on
  the way, and the id of the last node.\<close>

fun match_prefix_helper :: "cache_config \<Rightarrow> rnode \<Rightarrow> radix_key \<Rightarrow> tree_env \<Rightarrow> (rnode \<times> int list list \<times> nat \<times> tree_env) res" where
  "match_prefix_helper cf (RNode i cs) key e =
     (let (now, e1) = read_clock cf e; i' = i\<lparr>ni_access := now\<rparr>; child_key = get_child_key (cf_page cf) key
      in if rk_tokens key = [] then Inr (RNode i' cs, [], ni_id i, e1)
         else case map_of cs child_key of
           None \<Rightarrow> Inr (RNode i' cs, [], ni_id i, e1)
         | Some child \<Rightarrow>
             rbind (key_match (cf_page cf) (ni_key (info child)) key) (\<lambda>prefix_len.
             if prefix_len < node_len (info child) then
               let (t, e2) = read_clock cf e1;
                   (upper, e3) = split_node cf i' (touch t child) prefix_len e2
               in Inr (RNode i' (AList.update (get_child_key (cf_page cf) (ni_key (info child))) upper cs),
                       [ni_value (info upper)], ni_id (info upper), e3)
             else
               rbind (match_prefix_helper cf child (key_from prefix_len key) e1) (\<lambda>(child', vs, last_node, e2).
               Inr (RNode i' (AList.update child_key child' cs), ni_value (info child) # vs, last_node, e2))))"

text \<open>The insertion from a node: the tree and the number of tokens that were there. A walk that splits
  a node ends at the upper part: by \<open>page_prefix_stop\<close> the lower part is not the child for the rest of
  the key.\<close>

definition add_leaf :: "cache_config \<Rightarrow> rnode \<Rightarrow> radix_key \<Rightarrow> int list \<Rightarrow> tree_env \<Rightarrow> rnode \<times> tree_env" where
  "add_leaf cf node key value e =
     (let (i, e1) = new_tree_node cf key value 0 e;
          e2 = e1\<lparr>te_evictable := te_evictable e1 + int (key_len key)\<rparr>
      in (RNode (info node) (AList.update (get_child_key (cf_page cf) key) (RNode i []) (kids node)),
          record_store_event cf (Some (info node)) i e2))"

fun insert_helper :: "cache_config \<Rightarrow> rnode \<Rightarrow> radix_key \<Rightarrow> int list \<Rightarrow> tree_env \<Rightarrow> (rnode \<times> nat \<times> tree_env) res" where
  "insert_helper cf (RNode i cs) key value e =
     (let (now, e1) = read_clock cf e; i' = i\<lparr>ni_access := now\<rparr>; child_key = get_child_key (cf_page cf) key
      in if rk_tokens key = [] then Inr (RNode i' cs, 0, e1)
         else case map_of cs child_key of
           None \<Rightarrow> (let (t, e2) = add_leaf cf (RNode i' cs) key value e1 in Inr (t, 0, e2))
         | Some child \<Rightarrow>
             rbind (key_match (cf_page cf) (ni_key (info child)) key) (\<lambda>prefix_len.
             let key' = key_from prefix_len key; value' = drop prefix_len value
             in if prefix_len < node_len (info child) then
                  let (t, e2) = read_clock cf e1;
                      (upper, e3) = split_node cf i' (touch t child) prefix_len e2;
                      (upper', e4) = (if rk_tokens key' = [] then (upper, e3) else add_leaf cf upper key' value' e3)
                  in Inr (RNode i' (AList.update (get_child_key (cf_page cf) (ni_key (info child))) upper' cs), prefix_len, e4)
                else
                  rbind (insert_helper cf child key' value' e1) (\<lambda>(child', n, e2).
                  Inr (RNode i' (AList.update child_key child' cs), prefix_len + n, e2))))"

section \<open>Locks\<close>

text \<open>What one node on the way to the root gets, and by how much the evictable size grows.\<close>

definition inc_node :: "node_info \<Rightarrow> node_info \<times> int" where
  "inc_node i = (i\<lparr>ni_lock := ni_lock i + 1\<rparr>, if ni_lock i = 0 then - int (node_len i) else 0)"

definition dec_node :: "node_info \<Rightarrow> node_info \<times> int" where
  "dec_node i = (i\<lparr>ni_lock := ni_lock i - 1\<rparr>, if ni_lock i = 1 then int (node_len i) else 0)"

text \<open>\<open>None\<close> when the node is not below.\<close>

fun lock_path :: "(node_info \<Rightarrow> node_info \<times> int) \<Rightarrow> nat \<Rightarrow> rnode \<Rightarrow> (rnode \<times> int) option"
  and lock_kids :: "(node_info \<Rightarrow> node_info \<times> int) \<Rightarrow> nat \<Rightarrow> (child_key \<times> rnode) list \<Rightarrow> ((child_key \<times> rnode) list \<times> int) option" where
  "lock_path f n (RNode i cs) =
     (let (i', d) = f i
      in if ni_id i = n then Some (RNode i' cs, d)
         else case lock_kids f n cs of
                None \<Rightarrow> None
              | Some (cs', delta) \<Rightarrow> Some (RNode i' cs', d + delta))"
| "lock_kids f n [] = None"
| "lock_kids f n ((k, c) # cs) =
     (case lock_path f n c of
        Some (c', delta) \<Rightarrow> Some ((k, c') # cs, delta)
      | None \<Rightarrow> (case lock_kids f n cs of None \<Rightarrow> None | Some (cs', delta) \<Rightarrow> Some ((k, c) # cs', delta)))"

section \<open>Eviction\<close>

definition get_priority :: "evict_policy \<Rightarrow> node_info \<Rightarrow> int list" where
  "get_priority pol i =
     (case pol of
        LRU \<Rightarrow> [ni_access i]
      | LFU \<Rightarrow> [ni_hits i, ni_access i]
      | FIFO \<Rightarrow> [ni_created i]
      | MRU \<Rightarrow> [- ni_access i]
      | FILO \<Rightarrow> [- ni_created i])"

text \<open>An entry of the eviction heap, \<open>(priority, node)\<close>: entries of equal priority compare by
  \<open>TreeNode.__lt__\<close>, the access time.\<close>

definition heap_entry :: "evict_policy \<Rightarrow> node_info \<Rightarrow> int list \<times> nat" where
  "heap_entry pol i = (get_priority pol i @ [ni_access i], ni_id i)"

fun node_count :: "rnode \<Rightarrow> nat" where
  "node_count (RNode i cs) = Suc (sum_list (map (\<lambda>kc. node_count (snd kc)) cs))"

lemma node_count_pos [simp]: "0 < node_count t"
  by (cases t) simp

function collect_leaves :: "rnode list \<Rightarrow> node_info list" where
  "collect_leaves stack =
     (if stack = [] then []
      else let cur = last stack; rest = butlast stack
           in if kids cur = [] then info cur # collect_leaves rest
              else collect_leaves (rest @ map snd (kids cur)))"
  by pat_completeness auto
termination
proof (relation "measure (\<lambda>stack. sum_list (map node_count stack))")
  have split: "sum_list (map node_count stack) = sum_list (map node_count (butlast stack)) + node_count (last stack)"
    if "stack \<noteq> []" for stack using that by (induction stack) auto
  fix stack :: "rnode list" and cur rest
  assume s: "stack \<noteq> []" "cur = last stack" "rest = butlast stack"
  show "(rest, stack) \<in> measure (\<lambda>stack. sum_list (map node_count stack))" using split [OF s(1)] s by simp
  have "sum_list (map node_count (map snd (kids cur))) < node_count cur" by (cases cur) (simp add: comp_def)
  then show "(rest @ map snd (kids cur), stack) \<in> measure (\<lambda>stack. sum_list (map node_count stack))"
    using split [OF s(1)] s by simp
qed simp

declare collect_leaves.simps [simp del]

text \<open>Cut the node with id \<open>x\<close> below the given node: the cut node, the remaining tree, its parent after
  the cut.\<close>

fun cut_kid :: "nat \<Rightarrow> (child_key \<times> rnode) list \<Rightarrow> (rnode \<times> (child_key \<times> rnode) list) option" where
  "cut_kid x [] = None"
| "cut_kid x ((k, c) # cs) =
     (if ni_id (info c) = x then Some (c, cs)
      else case cut_kid x cs of None \<Rightarrow> None | Some (n, cs') \<Rightarrow> Some (n, (k, c) # cs'))"

fun delete_leaf :: "nat \<Rightarrow> rnode \<Rightarrow> (rnode \<times> rnode \<times> rnode) option"
  and delete_in_kids :: "nat \<Rightarrow> (child_key \<times> rnode) list \<Rightarrow> (rnode \<times> (child_key \<times> rnode) list \<times> rnode) option" where
  "delete_leaf x (RNode i cs) =
     (case cut_kid x cs of
        Some (n, cs') \<Rightarrow> Some (n, RNode i cs', RNode i cs')
      | None \<Rightarrow> (case delete_in_kids x cs of None \<Rightarrow> None | Some (n, cs', par) \<Rightarrow> Some (n, RNode i cs', par)))"
| "delete_in_kids x [] = None"
| "delete_in_kids x ((k, c) # cs) =
     (case delete_leaf x c of
        Some (n, c', par) \<Rightarrow> Some (n, (k, c') # cs, par)
      | None \<Rightarrow> (case delete_in_kids x cs of None \<Rightarrow> None | Some (n, cs', par) \<Rightarrow> Some (n, (k, c) # cs', par)))"

lemma cut_kid_count: "cut_kid x cs = Some (n, cs') \<Longrightarrow>
    sum_list (map (\<lambda>kc. node_count (snd kc)) cs) = node_count n + sum_list (map (\<lambda>kc. node_count (snd kc)) cs')"
  by (induction cs arbitrary: cs') (auto split: if_splits option.splits)

lemma delete_leaf_count:
  "delete_leaf x t = Some (n, t', par) \<Longrightarrow> node_count t' < node_count t"
  "delete_in_kids x cs = Some (n, cs', par) \<Longrightarrow>
    sum_list (map (\<lambda>kc. node_count (snd kc)) cs') < sum_list (map (\<lambda>kc. node_count (snd kc)) cs)"
proof (induction x t and x cs arbitrary: t' and cs' rule: delete_leaf_delete_in_kids.induct)
  case (1 x i cs)
  then show ?case by (auto split: option.splits dest!: cut_kid_count)
next
  case (3 x k c cs)
  then show ?case by (auto split: option.splits)
qed simp

text \<open>The eviction loop: the heap, the tokens evicted so far, the tree, the fields of the cache and the
  allocator, whose \<open>free\<close> is the parameter.\<close>

function evict_loop ::
    "cache_config \<Rightarrow> (int list \<Rightarrow> 'a \<Rightarrow> 'a) \<Rightarrow> int \<Rightarrow> (int list \<times> nat) list \<Rightarrow> int \<Rightarrow> rnode \<Rightarrow> tree_env \<Rightarrow> 'a \<Rightarrow> rnode \<times> tree_env \<times> 'a" where
  "evict_loop cf free num_tokens heap num_evicted t e al =
     (if num_evicted < num_tokens \<and> heap \<noteq> [] then
        let (entry, heap') = heappop heap; x = snd entry
        in if x = te_root e then (t, e, al)
           else case delete_leaf x t of
             None \<Rightarrow> evict_loop cf free num_tokens heap' num_evicted t e al
           | Some (n, t', par) \<Rightarrow>
               if ni_lock (info n) > 0 then evict_loop cf free num_tokens heap' num_evicted t e al
               else
                 let al' = free (ni_value (info n)) al;
                     e1 = e\<lparr>te_evictable := te_evictable e - int (node_len (info n))\<rparr>;
                     heap'' = (if kids par = [] then heappush heap' (heap_entry (cf_policy cf) (info par)) else heap')
                 in evict_loop cf free num_tokens heap'' (num_evicted + int (length (ni_value (info n)))) t'
                      (record_remove_event cf (info n) e1) al'
      else (t, e, al))"
  by pat_completeness auto
termination
proof (relation "measure (\<lambda>(cf, free, num, heap, ev, t, e, al). length heap + 2 * node_count t)", goal_cases)
  case (2 cf free num heap ev t e al p entry heap' x)
  then have "Suc (length heap') = length heap" using heapq.length_pop [of heap] by (metis snd_conv)
  then show ?case by simp
next
  case (3 cf free num heap ev t e al p entry heap' x q n r t' par)
  then have "Suc (length heap') = length heap" using heapq.length_pop [of heap] by (metis snd_conv)
  then show ?case by simp
next
  case (4 cf free num heap ev t e al p entry heap' x q n r t' par al' e1 heap'')
  then have "Suc (length heap') = length heap" using heapq.length_pop [of heap] by (metis snd_conv)
  moreover have "node_count t' < node_count t" using 4 delete_leaf_count(1) by metis
  moreover have "length heap'' \<le> Suc (length heap')" using 4 by (simp add: heapq.length_push)
  ultimately show ?case by simp
qed simp

declare evict_loop.simps [simp del]

end
