(* ===== verification/KVAlloc.thy ===== *)
theory KVAlloc
  imports Prelude "HOL-Library.Multiset"
begin

text \<open>
  The slots of the KV cache and the rows of requests: the token allocator
  (\<open>TokenToKVPoolAllocator\<close> with its base class, \<open>srt/mem_cache/allocator.py\<close>) and the request
  pool (\<open>ReqToTokenPool\<close>, \<open>srt/mem_cache/memory_pool.py\<close>). The locale \<open>kv_allocator\<close> is what the
  prefix caches rely on: freeing gives exactly the freed slots back, allocation takes its slots away.
\<close>

section \<open>The token allocator\<close>

record token_allocator =
  ta_size :: nat
  ta_need_sort :: bool
  ta_free_pages :: "int list"
  ta_release_pages :: "int list"
  ta_not_in_group :: bool
  ta_free_group :: "int list list"

definition alloc_clear :: "token_allocator \<Rightarrow> token_allocator" where
  "alloc_clear al = al\<lparr>ta_free_pages := py_range 1 (int (ta_size al) + 1), ta_not_in_group := True,
     ta_free_group := [], ta_release_pages := []\<rparr>"

definition new_token_allocator :: "nat \<Rightarrow> bool \<Rightarrow> token_allocator" where
  "new_token_allocator n need_sort = alloc_clear
     \<lparr>ta_size = n, ta_need_sort = need_sort, ta_free_pages = [], ta_release_pages = [], ta_not_in_group = True, ta_free_group = []\<rparr>"

definition alloc_available_size :: "token_allocator \<Rightarrow> nat" where
  "alloc_available_size al = length (ta_free_pages al) + length (ta_release_pages al)"

definition merge_and_sort_free :: "'z token_allocator_scheme \<Rightarrow> 'z token_allocator_scheme" where
  "merge_and_sort_free al =
     (if ta_release_pages al \<noteq> [] then
        al\<lparr>ta_free_pages := sort (ta_free_pages al @ ta_release_pages al), ta_release_pages := []\<rparr>
      else al)"

definition token_alloc :: "nat \<Rightarrow> token_allocator \<Rightarrow> int list option \<times> token_allocator" where
  "token_alloc need_size al =
     (let al1 = (if ta_need_sort al \<and> need_size > length (ta_free_pages al) then merge_and_sort_free al else al)
      in if need_size > length (ta_free_pages al1) then (None, al1)
         else (Some (take need_size (ta_free_pages al1)), al1\<lparr>ta_free_pages := drop need_size (ta_free_pages al1)\<rparr>))"

definition token_free :: "int list \<Rightarrow> token_allocator \<Rightarrow> token_allocator" where
  "token_free free_index al =
     (if free_index = [] then al
      else if ta_not_in_group al then
        (if ta_need_sort al then al\<lparr>ta_release_pages := ta_release_pages al @ free_index\<rparr>
         else al\<lparr>ta_free_pages := ta_free_pages al @ free_index\<rparr>)
      else al\<lparr>ta_free_group := ta_free_group al @ [free_index]\<rparr>)"

definition free_group_begin :: "'z token_allocator_scheme \<Rightarrow> 'z token_allocator_scheme" where
  "free_group_begin al = al\<lparr>ta_not_in_group := False, ta_free_group := []\<rparr>"

definition free_group_end :: "token_allocator \<Rightarrow> token_allocator" where
  "free_group_end al =
     (let al1 = al\<lparr>ta_not_in_group := True\<rparr>
      in if ta_free_group al \<noteq> [] then token_free (concat (ta_free_group al)) al1 else al1)"

definition backup_state :: "'z token_allocator_scheme \<Rightarrow> int list \<times> int list" where
  "backup_state al = (ta_free_pages al, ta_release_pages al)"

definition restore_state :: "int list \<times> int list \<Rightarrow> 'z token_allocator_scheme \<Rightarrow> 'z token_allocator_scheme" where
  "restore_state st al = al\<lparr>ta_free_pages := fst st, ta_release_pages := snd st\<rparr>"

section \<open>The request pool\<close>

record req_pool =
  rp_size :: nat
  rp_max_context_len :: nat
  rp_table :: "int list list"
  rp_free_slots :: "nat list"

definition new_req_pool :: "nat \<Rightarrow> nat \<Rightarrow> req_pool" where
  "new_req_pool n max_len = \<lparr>rp_size = n, rp_max_context_len = max_len,
     rp_table = replicate n (replicate max_len 0), rp_free_slots = [0..<n]\<rparr>"

definition req_pool_alloc :: "nat \<Rightarrow> req_pool \<Rightarrow> nat list option \<times> req_pool" where
  "req_pool_alloc need_size p =
     (if need_size > length (rp_free_slots p) then (None, p)
      else (Some (take need_size (rp_free_slots p)), p\<lparr>rp_free_slots := drop need_size (rp_free_slots p)\<rparr>))"

definition req_pool_free :: "nat \<Rightarrow> req_pool \<Rightarrow> req_pool" where
  "req_pool_free idx p = p\<lparr>rp_free_slots := rp_free_slots p @ [idx]\<rparr>"

definition req_pool_clear :: "req_pool \<Rightarrow> req_pool" where
  "req_pool_clear p = p\<lparr>rp_free_slots := [0..<rp_size p]\<rparr>"

text \<open>\<open>req_to_token[idx, :n]\<close>, and the write of a slice \<open>(idx, slice(a, b))\<close>: torch requires as many
  values as the slice has places, or one value for all of them.\<close>

definition req_tokens :: "nat \<Rightarrow> int \<Rightarrow> req_pool \<Rightarrow> int list" where
  "req_tokens idx n p = py_slice (rp_table p ! idx) 0 n"

definition req_pool_write :: "nat \<Rightarrow> int \<Rightarrow> int \<Rightarrow> int list \<Rightarrow> req_pool \<Rightarrow> req_pool res" where
  "req_pool_write idx a b vs p =
     (let row = rp_table p ! idx; lo = py_bound (length row) a; hi = max lo (py_bound (length row) b)
      in if length vs \<noteq> hi - lo \<and> length vs \<noteq> 1 then Inl (RuntimeError ''shape mismatch'')
         else
           let vs' = (if length vs = hi - lo then vs else replicate (hi - lo) (hd vs))
           in Inr (p\<lparr>rp_table := (rp_table p)[idx := take lo row @ vs' @ drop hi row]\<rparr>))"

section \<open>What a prefix cache relies on\<close>

locale kv_allocator =
  fixes avail :: "'a \<Rightarrow> int multiset"
    and alloc :: "nat \<Rightarrow> 'a \<Rightarrow> int list option \<times> 'a"
    and free :: "int list \<Rightarrow> 'a \<Rightarrow> 'a"
  assumes avail_free: "avail (free xs al) = avail al + mset xs"
    and avail_alloc: "alloc n al = (Some xs, al') \<Longrightarrow> length xs = n \<and> avail al = avail al' + mset xs"
    and avail_alloc_None: "alloc n al = (None, al') \<Longrightarrow> avail al' = avail al"
begin

lemma free_alloc: "alloc n al = (Some xs, al') \<Longrightarrow> avail (free xs al') = avail al"
  by (simp add: avail_free avail_alloc)

lemma avail_free_all: "avail (fold free xss al) = avail al + mset (concat xss)"
  by (induction xss arbitrary: al) (simp_all add: avail_free)

lemma in_free: "x \<in> set xs \<Longrightarrow> x \<in># avail (free xs al)"
  by (simp add: avail_free)

end

text \<open>Every slot the allocator can still hand out, those of an open group of frees included (a closed
  group stays in its field until the next one begins).\<close>

definition token_avail :: "token_allocator \<Rightarrow> int multiset" where
  "token_avail al = mset (ta_free_pages al) + mset (ta_release_pages al) +
     (if ta_not_in_group al then {#} else mset (concat (ta_free_group al)))"

lemma merge_avail [simp]: "token_avail (merge_and_sort_free al) = token_avail al"
  by (simp add: token_avail_def merge_and_sort_free_def)

lemma token_alloc_avail:
  "token_alloc n al = (Some xs, al') \<Longrightarrow> length xs = n \<and> token_avail al = token_avail al' + mset xs"
proof -
  assume a: "token_alloc n al = (Some xs, al')"
  define al1 where "al1 = (if ta_need_sort al \<and> n > length (ta_free_pages al) then merge_and_sort_free al else al)"
  have e: "token_avail al = token_avail al1" by (simp add: al1_def)
  have n: "n \<le> length (ta_free_pages al1)" "xs = take n (ta_free_pages al1)" "al' = al1\<lparr>ta_free_pages := drop n (ta_free_pages al1)\<rparr>"
    using a by (auto simp: token_alloc_def Let_def al1_def split: if_splits)
  have "mset (ta_free_pages al1) = mset xs + mset (drop n (ta_free_pages al1))"
    unfolding n(2) by (metis append_take_drop_id mset_append)
  then have "token_avail al1 = token_avail al' + mset xs" by (simp add: token_avail_def n(3) ac_simps)
  then show ?thesis using n e by simp
qed

interpretation token_kv: kv_allocator token_avail token_alloc token_free
proof
  fix n al al'
  show "token_alloc n al = (None, al') \<Longrightarrow> token_avail al' = token_avail al"
    by (auto simp: token_alloc_def Let_def split: if_splits)
qed (auto simp: token_free_def token_avail_def dest: token_alloc_avail)

text \<open>Opening and closing a group of frees keeps the slots.\<close>

lemma free_group_begin_avail: "ta_not_in_group al \<Longrightarrow> token_avail (free_group_begin al) = token_avail al"
  by (simp add: token_avail_def free_group_begin_def)

lemma free_group_end_avail: "\<not> ta_not_in_group al \<Longrightarrow> token_avail (free_group_end al) = token_avail al"
  by (auto simp: token_avail_def free_group_end_def Let_def token_free_def)

text \<open>Outside a group of frees every slot of an allocator that keeps its lists is on one of the free lists.\<close>

definition alloc_ok :: "token_allocator \<Rightarrow> bool" where
  "alloc_ok al \<longleftrightarrow> ta_not_in_group al \<and> (ta_need_sort al \<or> ta_release_pages al = [])"

lemma alloc_ok_avail: "alloc_ok al \<Longrightarrow> size (token_avail al) = alloc_available_size al"
  by (simp add: alloc_ok_def token_avail_def alloc_available_size_def)

lemma token_alloc_ok: "alloc_ok al \<Longrightarrow> n \<le> alloc_available_size al \<Longrightarrow> \<exists>xs al'. token_alloc n al = (Some xs, al') \<and> alloc_ok al' \<and> ta_size al' = ta_size al"
  by (auto simp: token_alloc_def alloc_ok_def alloc_available_size_def merge_and_sort_free_def Let_def)

lemma token_free_ok: "alloc_ok al \<Longrightarrow> alloc_ok (token_free xs al) \<and> ta_size (token_free xs al) = ta_size al"
  by (auto simp: token_free_def alloc_ok_def)

lemma mset_slots: "mset (py_range 1 (int k + 1)) = mset_set {1..int k}"
proof -
  have d: "distinct (py_range 1 (int k + 1))" by (simp add: py_range_def)
  have "set (py_range 1 (int k + 1)) = {1..int k}" by auto
  then show ?thesis using mset_set_set [OF d] by simp
qed

lemma new_token_allocator_ok:
  "alloc_ok (new_token_allocator n need_sort) \<and> ta_size (new_token_allocator n need_sort) = n \<and>
   token_avail (new_token_allocator n need_sort) = mset_set {1..int n}"
  by (simp add: new_token_allocator_def alloc_clear_def alloc_ok_def token_avail_def mset_slots)

end
