(* ===== verification/RadixCache.thy ===== *)
theory RadixCache
  imports RadixTree KVAlloc SSDManager
begin

text \<open>
  The public operations of the radix cache (\<open>RadixCache\<close> in \<open>srt/mem_cache/radix_cache.py\<close>) on its
  state: the tree, the counters, the KV allocator and the request pool. The operation \<open>free\<close> of the
  allocator is an argument, so that the same definitions serve every allocator. Locking a node that is
  no longer in the tree is \<open>Inl\<close>: the code would follow the parent pointers of a dead node. The
  cache of requests without prefix sharing (\<open>ChunkCache\<close>, \<open>srt/mem_cache/chunk_cache.py\<close>) is at the
  end.
\<close>

section \<open>State\<close>

record 'a radix_cache =
  rx_root :: rnode
  rx_env :: tree_env
  rx_alloc :: 'a
  rx_pool :: req_pool

record radix_req =
  rr_origin :: "int list"
  rr_output :: "int list"
  rr_fill :: "int list"
  rr_pool_idx :: nat
  rr_style :: "blend_style option"
  rr_extra :: "string option"
  rr_prefix :: "int list"
  rr_last_matched :: int
  rr_last_node :: nat

definition py_tail :: "'a list \<Rightarrow> int \<Rightarrow> 'a list" where
  "py_tail xs a = drop (py_bound (length xs) a) xs"

definition radix_reset :: "cache_config \<Rightarrow> 'a radix_cache \<Rightarrow> 'a radix_cache" where
  "radix_reset cf rx =
     (let (i, e) = new_tree_node cf \<lparr>rk_tokens = [], rk_extra = None\<rparr> [] 1 (rx_env rx)
      in rx\<lparr>rx_root := RNode i [],
            rx_env := record_all_cleared_event cf (e\<lparr>te_root := ni_id i, te_evictable := 0, te_protected := 0\<rparr>)\<rparr>)"

section \<open>Lookup and insertion\<close>

text \<open>\<open>match_prefix\<close>: the slots of the longest cached prefix and the node where it ends.\<close>

definition match_prefix :: "cache_config \<Rightarrow> radix_key \<Rightarrow> 'a radix_cache \<Rightarrow> (int list \<times> nat \<times> 'a radix_cache) res" where
  "match_prefix cf key0 rx =
     (let key = key_convert (cf_eagle cf) key0
      in if cf_disable cf \<or> key_len key = 0 then Inr ([], te_root (rx_env rx), rx)
         else
           let key' = (if cf_page cf \<noteq> 1 then key_upto (key_len key div cf_page cf * cf_page cf) key else key)
           in if key_len key' = 0 then Inr ([], te_root (rx_env rx), rx)
              else rbind (match_prefix_helper cf (rx_root rx) key' (rx_env rx)) (\<lambda>(t, vs, last_node, e).
                   Inr (concat vs, last_node, rx\<lparr>rx_root := t, rx_env := e\<rparr>)))"

definition radix_insert :: "cache_config \<Rightarrow> radix_key \<Rightarrow> int list \<Rightarrow> 'a radix_cache \<Rightarrow> (nat \<times> 'a radix_cache) res" where
  "radix_insert cf key0 value rx =
     (if cf_disable cf then Inr (0, rx)
      else
        let key = key_convert (cf_eagle cf) key0; value' = (if cf_eagle cf then take (key_len key) value else value)
        in rbind (insert_helper cf (rx_root rx) key value' (rx_env rx)) (\<lambda>(t, n, e).
           Inr (n, rx\<lparr>rx_root := t, rx_env := e\<rparr>)))"

section \<open>Locks and eviction\<close>

definition change_lock :: "(node_info \<Rightarrow> node_info \<times> int) \<Rightarrow> cache_config \<Rightarrow> nat \<Rightarrow> 'a radix_cache \<Rightarrow> (int \<times> 'a radix_cache) res" where
  "change_lock f cf node rx =
     (if cf_disable cf then Inr (0, rx)
      else if node = te_root (rx_env rx) then Inr (0, rx)
      else case lock_kids f node (kids (rx_root rx)) of
        None \<Rightarrow> Inl (RuntimeError ''node is not in the tree'')
      | Some (cs, delta) \<Rightarrow>
          Inr (delta, rx\<lparr>rx_root := RNode (info (rx_root rx)) cs,
                 rx_env := (rx_env rx)\<lparr>te_evictable := te_evictable (rx_env rx) + delta,
                                       te_protected := te_protected (rx_env rx) - delta\<rparr>\<rparr>))"

definition inc_lock_ref :: "cache_config \<Rightarrow> nat \<Rightarrow> 'a radix_cache \<Rightarrow> (int \<times> 'a radix_cache) res" where
  "inc_lock_ref = change_lock inc_node"

definition dec_lock_ref :: "cache_config \<Rightarrow> nat \<Rightarrow> 'a radix_cache \<Rightarrow> (int \<times> 'a radix_cache) res" where
  "dec_lock_ref = change_lock dec_node"

definition evict :: "cache_config \<Rightarrow> (int list \<Rightarrow> 'a \<Rightarrow> 'a) \<Rightarrow> int \<Rightarrow> 'a radix_cache \<Rightarrow> 'a radix_cache" where
  "evict cf free num_tokens rx =
     (if cf_disable cf then rx
      else
        let heap = heapify (map (heap_entry (cf_policy cf)) (collect_leaves [rx_root rx]));
            (t, e, al) = evict_loop cf free num_tokens heap 0 (rx_root rx) (rx_env rx) (rx_alloc rx)
        in rx\<lparr>rx_root := t, rx_env := e, rx_alloc := al\<rparr>)"

fun total_size :: "rnode \<Rightarrow> nat" where
  "total_size (RNode i cs) = length (ni_value i) + sum_list (map (\<lambda>kc. total_size (snd kc)) cs)"

fun all_values :: "rnode \<Rightarrow> int list" where
  "all_values (RNode i cs) = concat (map (\<lambda>kc. ni_value (info (snd kc)) @ all_values (snd kc)) cs)"

definition evictable_size :: "'a radix_cache \<Rightarrow> int" where
  "evictable_size rx = te_evictable (rx_env rx)"

definition protected_size :: "'a radix_cache \<Rightarrow> int" where
  "protected_size rx = te_protected (rx_env rx)"

section \<open>Requests\<close>

definition is_blend :: "radix_req \<Rightarrow> bool" where
  "is_blend r \<longleftrightarrow> rr_style r \<in> {Some KVCOMPUTE, Some QCOMPUTE, Some DO_BLEND, Some DO_BLEND_FINISH}"

definition finished_len :: "radix_req \<Rightarrow> int" where
  "finished_len r = int (length (rr_origin r)) + max (int (length (rr_output r)) - 1) 0"

definition free_req_slot :: "nat \<Rightarrow> 'a radix_cache \<Rightarrow> 'a radix_cache" where
  "free_req_slot idx rx = rx\<lparr>rx_pool := req_pool_free idx (rx_pool rx)\<rparr>"

definition free_kv :: "(int list \<Rightarrow> 'a \<Rightarrow> 'a) \<Rightarrow> int list \<Rightarrow> 'a radix_cache \<Rightarrow> 'a radix_cache" where
  "free_kv free xs rx = rx\<lparr>rx_alloc := free xs (rx_alloc rx)\<rparr>"

definition aligned_len :: "cache_config \<Rightarrow> int \<Rightarrow> int" where
  "aligned_len cf actual_kv_len =
     (if cf_page cf \<noteq> 1 then actual_kv_len div int (cf_page cf) * int (cf_page cf) else actual_kv_len)"

definition aligned_kv :: "cache_config \<Rightarrow> int \<Rightarrow> int list \<Rightarrow> int list" where
  "aligned_kv cf page_aligned_len kv = (if cf_page cf \<noteq> 1 then py_slice kv 0 page_aligned_len else kv)"

definition old_prefix_len :: "cache_config \<Rightarrow> radix_req \<Rightarrow> int" where
  "old_prefix_len cf r =
     (let n = int (length (rr_prefix r)) in if cf_eagle cf \<and> n > rr_last_matched r then n - 1 else n)"

text \<open>A blend request gives back all its slots and its row; DO_BLEND_FINISH also ends the blend state.\<close>

definition finish_uncached :: "(int list \<Rightarrow> 'a \<Rightarrow> 'a) \<Rightarrow> radix_req \<Rightarrow> 'a radix_cache \<Rightarrow> 's world \<Rightarrow> 'a radix_cache \<times> 's world" where
  "finish_uncached free r rx w =
     (let kv = req_tokens (rr_pool_idx r) (finished_len r) (rx_pool rx)
      in (free_req_slot (rr_pool_idx r) (free_kv free kv rx),
          if rr_style r = Some DO_BLEND_FINISH then cleanup_runtime_state w else w))"

definition cache_finished_req ::
    "cache_config \<Rightarrow> (int list \<Rightarrow> 'a \<Rightarrow> 'a) \<Rightarrow> bool \<Rightarrow> radix_req \<Rightarrow> 'a radix_cache \<Rightarrow> 's world \<Rightarrow> ('a radix_cache \<times> 's world) res" where
  "cache_finished_req cf free is_insert r rx w =
     (if cf_disable cf \<or> is_blend r then Inr (finish_uncached free r rx w)
      else
        let all_len = finished_len r;
            token_ids = py_slice (rr_origin r @ rr_output r) 0 all_len;
            actual_kv_len = (if cf_eagle cf then all_len - 1 else all_len);
            kv = req_tokens (rr_pool_idx r) all_len (rx_pool rx);
            page_aligned_len = aligned_len cf actual_kv_len;
            page_aligned_kv = aligned_kv cf page_aligned_len kv;
            page_aligned_token_len = (if cf_eagle cf then page_aligned_len + 1 else page_aligned_len);
            old = old_prefix_len cf r
        in rbind
             (if is_insert then
                rbind (radix_insert cf \<lparr>rk_tokens = map Tok (py_slice token_ids 0 page_aligned_token_len), rk_extra = rr_extra r\<rparr>
                         page_aligned_kv rx) (\<lambda>(new_prefix_len, rx1).
                Inr (free_kv free (py_slice kv old (int new_prefix_len)) rx1))
              else Inr (free_kv free (py_slice kv old page_aligned_len) rx)) (\<lambda>rx2.
           rbind (dec_lock_ref cf (rr_last_node r)
                    (free_req_slot (rr_pool_idx r) (free_kv free (py_tail kv page_aligned_len) rx2))) (\<lambda>(_, rx3).
           Inr (rx3, w))))"

definition cache_unfinished_req ::
    "cache_config \<Rightarrow> (int list \<Rightarrow> 'a \<Rightarrow> 'a) \<Rightarrow> radix_req \<Rightarrow> 'a radix_cache \<Rightarrow> (radix_req \<times> 'a radix_cache) res" where
  "cache_unfinished_req cf free r rx =
     (if cf_disable cf \<or> is_blend r then Inr (r, rx)
      else
        let all_len = int (length (rr_fill r));
            actual_kv_len = (if cf_eagle cf then all_len - 1 else all_len);
            kv = req_tokens (rr_pool_idx r) all_len (rx_pool rx);
            page_aligned_len = aligned_len cf actual_kv_len;
            page_aligned_kv = aligned_kv cf page_aligned_len kv;
            page_aligned_token_len = (if cf_eagle cf then page_aligned_len + 1 else page_aligned_len);
            key = \<lparr>rk_tokens = map Tok (py_slice (rr_fill r) 0 page_aligned_token_len), rk_extra = rr_extra r\<rparr>;
            old = old_prefix_len cf r
        in rbind (radix_insert cf key page_aligned_kv rx) (\<lambda>(new_prefix_len, rx1).
           let rx2 = free_kv free (py_slice kv old (int new_prefix_len)) rx1
           in rbind (match_prefix cf key rx2) (\<lambda>(new_indices, new_last_node, rx3).
              let m = int (length new_indices)
              in rbind (req_pool_write (rr_pool_idx r) old m (py_tail new_indices old) (rx_pool rx3)) (\<lambda>pool.
                 rbind (dec_lock_ref cf (rr_last_node r) (rx3\<lparr>rx_pool := pool\<rparr>)) (\<lambda>(_, rx4).
                 rbind (inc_lock_ref cf new_last_node rx4) (\<lambda>(_, rx5).
                 Inr (r\<lparr>rr_last_matched := m, rr_last_node := new_last_node,
                        rr_prefix := (if cf_page cf \<noteq> 1 then new_indices @ py_tail kv m
                                      else if cf_eagle cf then new_indices @ py_tail kv actual_kv_len
                                      else new_indices)\<rparr>, rx5)))))))"

section \<open>Caching without prefixes\<close>

record 'a chunk_cache =
  cc_protected :: int
  cc_alloc :: 'a
  cc_pool :: req_pool

definition chunk_match_prefix :: "int list \<times> nat option" where
  "chunk_match_prefix = ([], None)"

definition chunk_finished_req :: "(int list \<Rightarrow> 'a \<Rightarrow> 'a) \<Rightarrow> radix_req \<Rightarrow> 'a chunk_cache \<Rightarrow> 's world \<Rightarrow> 'a chunk_cache \<times> 's world" where
  "chunk_finished_req free r cc w =
     (let kv = req_tokens (rr_pool_idx r) (finished_len r) (cc_pool cc)
      in (cc\<lparr>cc_pool := req_pool_free (rr_pool_idx r) (cc_pool cc), cc_alloc := free kv (cc_alloc cc),
             cc_protected := cc_protected cc - int (length (rr_prefix r))\<rparr>,
          if rr_style r = Some DO_BLEND_FINISH then cleanup_runtime_state w else w))"

definition chunk_unfinished_req :: "radix_req \<Rightarrow> 'a chunk_cache \<Rightarrow> radix_req \<times> 'a chunk_cache" where
  "chunk_unfinished_req r cc =
     (let kv = req_tokens (rr_pool_idx r) (int (length (rr_fill r))) (cc_pool cc)
      in (r\<lparr>rr_prefix := kv\<rparr>, cc\<lparr>cc_protected := cc_protected cc + int (length kv) - int (length (rr_prefix r))\<rparr>))"

text \<open>\<open>SWAChunkCache.evict_swa\<close>: free the sliding-window slots of the chunks the request has left.\<close>

definition evict_swa ::
    "(int list \<Rightarrow> 'a \<Rightarrow> 'a) \<Rightarrow> nat \<Rightarrow> int \<Rightarrow> int \<Rightarrow> int \<Rightarrow> 'a chunk_cache \<Rightarrow> int \<times> 'a chunk_cache" where
  "evict_swa free_swa pool_idx evicted_seqlen_local prelen attention_chunk_size cc =
     (if prelen \<ge> evicted_seqlen_local + attention_chunk_size then
        let new_evicted = attention_chunk_size * (prelen div attention_chunk_size);
            free_slots = py_slice (rp_table (cc_pool cc) ! pool_idx) evicted_seqlen_local new_evicted
        in (new_evicted, cc\<lparr>cc_alloc := free_swa free_slots (cc_alloc cc)\<rparr>)
      else (evicted_seqlen_local, cc))"

end
