(* ===== verification/RadixLookup.thy ===== *)
theory RadixLookup
  imports RadixTree
begin

text \<open>
  What the radix tree stores, as a function: \<open>lookup\<close> returns the slots of the longest cached prefix of
  a key. The walk of a lookup returns it and leaves it unchanged, splits included; an insertion adds
  exactly the prefixes of the inserted key that were not there.
\<close>

section \<open>Well-formed trees\<close>

definition kid_ok :: "nat \<Rightarrow> child_key \<times> rnode \<Rightarrow> bool" where
  "kid_ok page kc \<longleftrightarrow>
     (let i = info (snd kc); key = ni_key i
      in fst kc = get_child_key page key \<and> rk_tokens key \<noteq> [] \<and> paged page (rk_tokens key) \<and>
         length (ni_value i) = key_len key)"

fun tree_ok :: "nat \<Rightarrow> rnode \<Rightarrow> bool" where
  "tree_ok page (RNode i cs) \<longleftrightarrow> distinct (map fst cs) \<and> (\<forall>kc \<in> set cs. kid_ok page kc \<and> tree_ok page (snd kc))"

declare tree_ok.simps [simp del]

fun lookup :: "nat \<Rightarrow> rnode \<Rightarrow> radix_key \<Rightarrow> int list" where
  "lookup page (RNode i cs) key =
     (if rk_tokens key = [] then []
      else case map_of cs (get_child_key page key) of
        None \<Rightarrow> []
      | Some c \<Rightarrow>
          let p = page_prefix page (rk_tokens (ni_key (info c))) (rk_tokens key)
          in take p (ni_value (info c)) @ (if p < node_len (info c) then [] else lookup page c (key_from p key)))"

text \<open>The part of the lookup that a child contributes.\<close>

definition kid_lookup :: "nat \<Rightarrow> rnode \<Rightarrow> radix_key \<Rightarrow> int list" where
  "kid_lookup page c key =
     (let p = page_prefix page (rk_tokens (ni_key (info c))) (rk_tokens key)
      in take p (ni_value (info c)) @ (if p < node_len (info c) then [] else lookup page c (key_from p key)))"

lemma lookup_eq: "lookup page (RNode i cs) key =
    (if rk_tokens key = [] then [] else case map_of cs (get_child_key page key) of None \<Rightarrow> [] | Some c \<Rightarrow> kid_lookup page c key)"
  by (simp add: kid_lookup_def split: option.split)

declare lookup.simps [simp del]

lemma lookup_Nil [simp]: "rk_tokens key = [] \<Longrightarrow> lookup page t key = []"
  by (cases t) (simp add: lookup_eq)

definition key_ok :: "nat \<Rightarrow> radix_key \<Rightarrow> bool" where
  "key_ok page key \<longleftrightarrow> 0 < page \<and> paged page (rk_tokens key)"

lemma key_ok_from [simp]: "key_ok page key \<Longrightarrow> page dvd n \<Longrightarrow> key_ok page (key_from n key)"
  by (simp add: key_ok_def key_from_def)

lemma key_from_simps [simp]:
  "rk_tokens (key_from n key) = drop n (rk_tokens key)" "rk_extra (key_from n key) = rk_extra key"
  "rk_tokens (key_upto n key) = take n (rk_tokens key)" "rk_extra (key_upto n key) = rk_extra key"
  by (simp_all add: key_from_def key_upto_def)

lemma key_from_0 [simp]: "key_from 0 key = key"
  by (simp add: key_from_def)

lemma key_from_from [simp]: "key_from m (key_from n key) = key_from (n + m) key"
  by (simp add: key_from_def drop_drop add.commute)

lemma tree_ok_kid: "tree_ok page (RNode i cs) \<Longrightarrow> map_of cs k = Some c \<Longrightarrow> kid_ok page (k, c) \<and> tree_ok page c"
  by (auto simp: tree_ok.simps dest!: map_of_SomeD)

text \<open>A child found for a key has the key's extra key and first page, so the comparison with it
  succeeds and matches at least that page.\<close>

definition kid_match :: "nat \<Rightarrow> rnode \<Rightarrow> radix_key \<Rightarrow> nat" where
  "kid_match page c key = page_prefix page (rk_tokens (ni_key (info c))) (rk_tokens key)"

lemma found_kid:
  assumes "tree_ok page (RNode i cs)" "map_of cs (get_child_key page key) = Some c" "key_ok page key" "rk_tokens key \<noteq> []"
  shows "key_match page (ni_key (info c)) key = Inr (kid_match page c key)" "kid_ok page (get_child_key page key, c)"
    "tree_ok page c" "0 < kid_match page c key" "page dvd kid_match page c key" "kid_match page c key \<le> node_len (info c)"
    "kid_match page c key \<le> key_len key"
proof -
  show ok: "kid_ok page (get_child_key page key, c)" "tree_ok page c" using tree_ok_kid [OF assms(1,2)] by auto
  then have e: "rk_extra (ni_key (info c)) = rk_extra key" "take page (rk_tokens (ni_key (info c))) = take page (rk_tokens key)"
    by (auto simp: kid_ok_def get_child_key_def Let_def)
  show "key_match page (ni_key (info c)) key = Inr (kid_match page c key)" using e by (simp add: key_match_eq kid_match_def)
  have "rk_tokens (ni_key (info c)) \<noteq> []" using ok by (simp add: kid_ok_def Let_def)
  then show "0 < kid_match page c key"
    using page_prefix_pos [OF _ _ assms(4) e(2)] assms(3) by (fastforce simp: kid_match_def key_ok_def)
  show "page dvd kid_match page c key" by (simp add: kid_match_def page_prefix_dvd)
  have "paged page (rk_tokens (ni_key (info c)))" using ok by (simp add: kid_ok_def Let_def)
  then show "kid_match page c key \<le> node_len (info c)" "kid_match page c key \<le> key_len key"
    using page_prefix_le assms(3) by (auto simp: kid_match_def node_len_def key_len_def key_ok_def)
qed

lemma kid_lookup_match: "kid_lookup page c key = take (kid_match page c key) (ni_value (info c)) @
    (if kid_match page c key < node_len (info c) then [] else lookup page c (key_from (kid_match page c key) key))"
  by (simp add: kid_lookup_def kid_match_def Let_def)

lemma lookup_length:
  "tree_ok page t \<Longrightarrow> key_ok page key \<Longrightarrow> length (lookup page t key) \<le> key_len key \<and> page dvd length (lookup page t key)"
proof (induction page t key rule: lookup.induct)
  case (1 page i cs key)
  show ?case
  proof (cases "rk_tokens key = [] \<or> map_of cs (get_child_key page key) = None")
    case False
    then obtain c where c: "map_of cs (get_child_key page key) = Some c" and ne: "rk_tokens key \<noteq> []" by auto
    note f = found_kid [OF 1(2) c 1(3) ne]
    have l: "length (ni_value (info c)) = node_len (info c)" using f(2) by (simp add: kid_ok_def Let_def node_len_def)
    have IH: "length (lookup page c (key_from (kid_match page c key) key)) \<le> key_len (key_from (kid_match page c key) key) \<and>
        page dvd length (lookup page c (key_from (kid_match page c key) key))" if "\<not> kid_match page c key < node_len (info c)"
      using 1(1) [OF ne c refl] 1(3) f(3,5) that by (simp add: kid_match_def)
    show ?thesis
    proof (cases "kid_match page c key < node_len (info c)")
      case True
      then show ?thesis using c ne l f by (simp add: lookup_eq kid_lookup_match)
    next
      case False
      then have "kid_match page c key = node_len (info c)" using f(6) by simp
      then show ?thesis using IH [OF False] c ne l f(5,7) by (auto simp: lookup_eq kid_lookup_match key_len_def)
    qed
  qed (auto simp: lookup_eq)
qed

section \<open>Changing one child\<close>

lemma set_update_kid: "distinct (map fst cs) \<Longrightarrow> map_of cs k = Some c \<Longrightarrow>
    kc \<in> set (AList.update k c' cs) \<Longrightarrow> kc = (k, c') \<or> kc \<in> set cs"
  by (induction cs) (auto split: if_splits)

lemma tree_ok_update:
  assumes "tree_ok page (RNode i cs)" "kid_ok page (k, c')" "tree_ok page c'"
  shows "tree_ok page (RNode j (AList.update k c' cs))"
proof -
  have "kc \<in> set (AList.update k c' cs) \<Longrightarrow> kc = (k, c') \<or> kc \<in> set cs" for kc
    by (induction cs) (auto split: if_splits)
  then have "\<forall>kc \<in> set (AList.update k c' cs). kid_ok page kc \<and> tree_ok page (snd kc)"
    using assms by (metis snd_conv tree_ok.simps)
  then show ?thesis using assms(1) by (simp add: tree_ok.simps distinct_update)
qed

lemma tree_ok_info: "tree_ok page (RNode i cs) = tree_ok page (RNode j cs)"
  by (simp add: tree_ok.simps)

lemma lookup_info: "lookup page (RNode i cs) key = lookup page (RNode j cs) key"
  by (simp add: lookup_eq)

lemma lookup_touch [simp]: "lookup page (touch t c) key = lookup page c key"
  by (cases c) (simp add: touch_def lookup_eq)

lemma lookup_update: "lookup page (RNode i (AList.update k c' cs)) key =
    (if rk_tokens key \<noteq> [] \<and> get_child_key page key = k then kid_lookup page c' key else lookup page (RNode i cs) key)"
  by (auto simp: lookup_eq update_conv')

section \<open>Splitting a node\<close>

lemma split_node_shape:
  assumes "split_node cf par child s e = (upper, e')"
  shows "\<exists>u. upper = RNode u [(get_child_key (cf_page cf) (key_from s (ni_key (info child))),
      RNode ((info child)\<lparr>ni_key := key_from s (ni_key (info child)), ni_value := drop s (ni_value (info child))\<rparr>) (kids child))] \<and>
    ni_id u = te_next e \<and> ni_key u = key_upto s (ni_key (info child)) \<and> ni_value u = take s (ni_value (info child)) \<and>
    ni_lock u = ni_lock (info child) \<and> te_next e' = te_next e + 1 \<and> te_root e' = te_root e \<and>
    te_evictable e' = te_evictable e \<and> te_protected e' = te_protected e"
  using assms
  by (auto simp: split_node_def new_tree_node_def read_clock_def record_remove_event_def record_store_event_def Let_def)

lemma split_kid_ok:
  assumes "kid_ok page (k, child)" "tree_ok page child" "0 < s" "s < node_len (info child)" "page dvd s" "cf_page cf = page"
    and "split_node cf par (touch t child) s e = (upper, e')"
  shows "kid_ok page (k, upper)" "tree_ok page upper" "ni_value (info upper) = take s (ni_value (info child))"
proof -
  obtain u where u: "upper = RNode u [(get_child_key page (key_from s (ni_key (info child))),
      RNode ((info (touch t child))\<lparr>ni_key := key_from s (ni_key (info child)), ni_value := drop s (ni_value (info child))\<rparr>) (kids child))]"
    "ni_key u = key_upto s (ni_key (info child))" "ni_value u = take s (ni_value (info child))"
    using split_node_shape [OF assms(7)] assms(6) by (auto simp: touch_def)
  have ok: "k = get_child_key page (ni_key (info child))" "paged page (rk_tokens (ni_key (info child)))"
    "length (ni_value (info child)) = length (rk_tokens (ni_key (info child)))" "s < length (rk_tokens (ni_key (info child)))"
    using assms(1,4) by (auto simp: kid_ok_def Let_def key_len_def node_len_def)
  have "page \<le> s" using assms(3,5) by (simp add: dvd_imp_le)
  then show "kid_ok page (k, upper)" using ok u assms(3,5) by (auto simp: kid_ok_def Let_def get_child_key_def key_len_def min_def)
  show "tree_ok page upper"
    using u assms(2,4,5) ok by (cases child) (auto simp: tree_ok.simps kid_ok_def Let_def key_len_def)
  show "ni_value (info upper) = take s (ni_value (info child))" using u by simp
qed

text \<open>Splitting a child is invisible to lookups.\<close>

lemma kid_lookup_split:
  assumes "kid_ok page (k, child)" "0 < s" "s < node_len (info child)" "page dvd s" "cf_page cf = page"
    and "split_node cf par (touch t child) s e = (upper, e')" "key_ok page q" "rk_tokens q \<noteq> []" "get_child_key page q = k"
  shows "kid_lookup page upper q = kid_lookup page child q"
proof -
  let ?ts = "rk_tokens (ni_key (info child))" and ?vs = "ni_value (info child)"
  let ?low = "RNode ((info (touch t child))\<lparr>ni_key := key_from s (ni_key (info child)), ni_value := drop s ?vs\<rparr>) (kids child)"
  obtain u where u: "upper = RNode u [(get_child_key page (key_from s (ni_key (info child))), ?low)]"
    "ni_key u = key_upto s (ni_key (info child))" "ni_value u = take s ?vs"
    using split_node_shape [OF assms(6)] assms(5) by (auto simp: touch_def)
  have ok: "k = get_child_key page (ni_key (info child))" "paged page ?ts" "length ?vs = length ?ts" "s < length ?ts"
    using assms(1,3) by (auto simp: kid_ok_def Let_def key_len_def node_len_def)
  have pq: "0 < page" "paged page (rk_tokens q)" using assms(7) by (auto simp: key_ok_def)
  define m where "m = page_prefix page ?ts (rk_tokens q)"
  have mu: "kid_match page upper q = min s m"
    using page_prefix_take_left [OF ok(2) assms(4), of "rk_tokens q"] ok(4) u by (simp add: kid_match_def m_def)
  have lu: "node_len (info upper) = s" using u ok(4) by (simp add: node_len_def key_len_def)
  have uv: "ni_value (info upper) = take s ?vs" using u by simp
  have up: "kid_lookup page upper q = take (min s m) (ni_value (info upper)) @ (if min s m < s then [] else lookup page upper (key_from (min s m) q))"
    by (simp add: kid_lookup_match mu lu)
  show ?thesis
  proof (cases "m < s")
    case True
    then have "kid_lookup page child q = take m ?vs"
      using ok(4) by (simp add: kid_lookup_match kid_match_def m_def [symmetric] node_len_def key_len_def)
    then show ?thesis using True by (simp add: up uv min_def)
  next
    case False
    have low: "kid_match page ?low (key_from s q) = m - s"
      using page_prefix_drop [OF assms(4), of ?ts "rk_tokens q"] False by (simp add: kid_match_def m_def)
    have lookup_low: "lookup page upper (key_from s q) = drop s (kid_lookup page child q)" if "s < m"
    proof -
      have "m \<le> length ?ts" "m \<le> length (rk_tokens q)" using page_prefix_le [OF ok(2) pq(2)] by (simp_all add: m_def)
      then have ne: "rk_tokens (key_from s q) \<noteq> []" using that by simp
      have "take m ?ts = take m (rk_tokens q)" using page_prefix_take by (simp add: m_def)
      moreover have "s + page \<le> m"
      proof -
        have "page dvd m - s" using page_prefix_dvd [of page] assms(4) by (simp add: m_def dvd_diff_nat)
        then have "page \<le> m - s" using that by (simp add: dvd_imp_le)
        then show ?thesis using that by simp
      qed
      moreover have "take page (drop s xs) = take page (drop s (take m xs))" if "s + page \<le> m" for xs :: "tok list"
        using that by (simp add: drop_take take_take min_def)
      ultimately have "take page (drop s (rk_tokens q)) = take page (drop s ?ts)" by metis
      then have "map_of (kids upper) (get_child_key page (key_from s q)) = Some ?low"
        using u(1) ok(1) assms(9) by (auto simp: get_child_key_def)
      then have "lookup page upper (key_from s q) = kid_lookup page ?low (key_from s q)" using ne u(1) by (simp add: lookup_eq)
      also have "\<dots> = drop s (kid_lookup page child q)"
      proof -
        have "kid_lookup page ?low (key_from s q) = take (m - s) (drop s ?vs) @
          (if m - s < node_len (info ?low) then [] else lookup page ?low (key_from m q))"
          using low that by (simp add: kid_lookup_match)
        moreover have "lookup page ?low (key_from m q) = lookup page child (key_from m q)" by (cases child) (simp add: lookup_eq)
        moreover have "node_len (info ?low) = length ?ts - s" by (simp add: node_len_def key_len_def)
        ultimately show ?thesis
          using that \<open>m \<le> length ?ts\<close> ok
          by (auto simp: kid_lookup_match kid_match_def m_def [symmetric] node_len_def key_len_def drop_take)
      qed
      finally show ?thesis .
    qed
    have ts: "take s (kid_lookup page child q) = take s ?vs"
      using False ok(3,4) by (auto simp: kid_lookup_match kid_match_def m_def [symmetric] min_def)
    show ?thesis
    proof (cases "s = m")
      case True
      have "rk_tokens (key_from s q) = [] \<or> get_child_key page (key_from s q) \<noteq> get_child_key page (key_from s (ni_key (info child)))"
        using page_prefix_stop [OF pq(1), of ?ts "rk_tokens q"] ok(4) by (auto simp: m_def [symmetric] True [symmetric] get_child_key_def)
      then have "lookup page upper (key_from s q) = []" using u(1) by (auto simp: lookup_eq)
      moreover have "kid_lookup page child q = take s ?vs"
        using True ok(4) by (simp add: kid_lookup_match kid_match_def m_def [symmetric] node_len_def key_len_def)
      ultimately show ?thesis using True by (simp add: up uv)
    next
      case neq: False
      then have "s < m" using False by simp
      from lookup_low [OF this] ts show ?thesis
        using append_take_drop_id [of s "kid_lookup page child q"] \<open>s < m\<close> by (simp add: up uv)
    qed
  qed
qed

section \<open>The walk of a lookup\<close>

lemma same_kid_ok: "kid_ok page (k, c) \<Longrightarrow> ni_key (info c') = ni_key (info c) \<Longrightarrow> ni_value (info c') = ni_value (info c) \<Longrightarrow> kid_ok page (k, c')"
  by (simp add: kid_ok_def Let_def)

lemma same_kid_lookup:
  assumes "ni_key (info c') = ni_key (info c)" "ni_value (info c') = ni_value (info c)" "key_ok page q"
    and "\<And>q. key_ok page q \<Longrightarrow> lookup page c' q = lookup page c q"
  shows "kid_lookup page c' q = kid_lookup page c q"
  using assms page_prefix_dvd by (simp add: kid_lookup_def Let_def node_len_def)

text \<open>Replacing a child by one that looks the same.\<close>

lemma lookup_update_same:
  assumes "tree_ok page (RNode i cs)" "map_of cs k = Some c" "key_ok page q"
    and "get_child_key page q = k \<Longrightarrow> rk_tokens q \<noteq> [] \<Longrightarrow> kid_lookup page c' q = kid_lookup page c q"
  shows "lookup page (RNode j (AList.update k c' cs)) q = lookup page (RNode i cs) q"
  using assms by (auto simp: lookup_update) (auto simp: lookup_eq)

lemma rnode_walk_induct:
  assumes "\<And>i cs. (\<And>k c. map_of cs k = Some c \<Longrightarrow> P c) \<Longrightarrow> P (RNode i cs)"
  shows "P t"
proof (induction t rule: measure_induct_rule [of node_count])
  case (less t)
  obtain i cs where t: "t = RNode i cs" by (cases t)
  have "node_count c < node_count t" if "map_of cs k = Some c" for k c
    using that unfolding t by (induction cs) (auto split: if_splits)
  then show ?case unfolding t by (intro assms) (auto intro: less simp: t)
qed

lemma match_prefix_helper_correct:
  "tree_ok page t \<Longrightarrow> key_ok page key \<Longrightarrow> cf_page cf = page \<Longrightarrow>
    \<exists>t' vs last_node e'. match_prefix_helper cf t key e = Inr (t', vs, last_node, e') \<and> concat vs = lookup page t key \<and>
      tree_ok page t' \<and> (\<forall>q. key_ok page q \<longrightarrow> lookup page t' q = lookup page t q) \<and>
      ni_key (info t') = ni_key (info t) \<and> ni_value (info t') = ni_value (info t)"
proof (induction t arbitrary: key e rule: rnode_walk_induct)
  case (1 i cs key e)
  obtain now e1 where rc: "read_clock cf e = (now, e1)" by fastforce
  let ?i = "i\<lparr>ni_access := now\<rparr>"
  show ?case
  proof (cases "rk_tokens key = [] \<or> map_of cs (get_child_key page key) = None")
    case True
    then show ?thesis using 1 rc lookup_info by (auto simp: lookup_eq tree_ok.simps)
  next
    case False
    then obtain c where ne: "rk_tokens key \<noteq> []" and c: "map_of cs (get_child_key page key) = Some c" by auto
    note f = found_kid [OF 1(2) c 1(3) ne]
    let ?m = "kid_match page c key"
    have gck: "get_child_key page (ni_key (info c)) = get_child_key page key" using f(2) by (simp add: kid_ok_def Let_def)
    show ?thesis
    proof (cases "?m < node_len (info c)")
      case True
      obtain t e2 where rc2: "read_clock cf e1 = (t, e2)" by fastforce
      obtain upper e3 where sp: "split_node cf ?i (touch t c) ?m e2 = (upper, e3)" by fastforce
      note s = split_kid_ok [OF f(2) f(3) f(4) True f(5) 1(4) sp]
      have "\<forall>q. key_ok page q \<longrightarrow> lookup page (RNode ?i (AList.update (get_child_key page key) upper cs)) q = lookup page (RNode i cs) q"
        using kid_lookup_split [OF f(2) f(4) True f(5) 1(4) sp] by (intro allI impI lookup_update_same [OF 1(2) c]) auto
      moreover have "match_prefix_helper cf (RNode i cs) key e
          = Inr (RNode ?i (AList.update (get_child_key page key) upper cs), [ni_value (info upper)], ni_id (info upper), e3)"
        using ne c f(1) True 1(4) by (simp add: rc rc2 sp Let_def gck)
      moreover have "lookup page (RNode i cs) key = take ?m (ni_value (info c))"
        using ne c True by (simp add: lookup_eq kid_lookup_match)
      ultimately show ?thesis using tree_ok_update [OF 1(2) s(1,2)] s(3) by simp
    next
      case deep: False
      then have m: "?m = node_len (info c)" using f(6) by simp
      obtain c' vs last_node e' where IH: "match_prefix_helper cf c (key_from ?m key) e1 = Inr (c', vs, last_node, e')"
        "concat vs = lookup page c (key_from ?m key)" "tree_ok page c'" "\<forall>q. key_ok page q \<longrightarrow> lookup page c' q = lookup page c q"
        "ni_key (info c') = ni_key (info c)" "ni_value (info c') = ni_value (info c)"
        using 1(1) [OF c f(3) key_ok_from [OF 1(3) f(5)] 1(4)] by blast
      have "\<forall>q. key_ok page q \<longrightarrow> lookup page (RNode ?i (AList.update (get_child_key page key) c' cs)) q = lookup page (RNode i cs) q"
        using same_kid_lookup [OF IH(5,6)] IH(4) by (intro allI impI lookup_update_same [OF 1(2) c]) auto
      moreover have "match_prefix_helper cf (RNode i cs) key e
          = Inr (RNode ?i (AList.update (get_child_key page key) c' cs), ni_value (info c) # vs, last_node, e')"
        using ne c f(1) deep 1(4) by (simp add: rc IH(1) Let_def)
      moreover have "length (ni_value (info c)) = ?m" using f(2) m by (simp add: kid_ok_def Let_def node_len_def)
      then have "lookup page (RNode i cs) key = ni_value (info c) @ lookup page c (key_from ?m key)"
        using ne c deep by (simp add: lookup_eq kid_lookup_match)
      ultimately show ?thesis using tree_ok_update [OF 1(2) same_kid_ok [OF f(2) IH(5,6)] IH(3)] IH(2) by simp
    qed
  qed
qed

section \<open>Insertion\<close>

lemma page_prefix_ge: "0 < page \<Longrightarrow> page dvd m \<Longrightarrow> m \<le> length xs \<Longrightarrow> m \<le> length ys \<Longrightarrow> take m xs = take m ys \<Longrightarrow> m \<le> page_prefix page xs ys"
proof (induction page xs ys arbitrary: m rule: page_prefix.induct)
  case (1 page xs ys)
  show ?case
  proof (cases "m = 0")
    case False
    then have pm: "page \<le> m" "page dvd m - page" using 1(3) by (auto simp: dvd_imp_le dvd_diff_nat)
    have ne: "xs \<noteq> []" "ys \<noteq> []" using 1(4,5) False by auto
    have t: "take page xs = take page ys" using arg_cong [OF 1(6), of "take page"] pm by (simp add: min_def)
    have "take (m - page) (drop page xs) = take (m - page) (drop page ys)"
      using arg_cong [OF 1(6), of "drop page"] by (simp add: drop_take)
    then have "m - page \<le> page_prefix page (drop page xs) (drop page ys)"
      using 1(1) [of "m - page"] 1(2,4,5) ne t pm by simp
    then show ?thesis using ne t pm 1(2) by (subst page_prefix.simps) simp
  qed simp
qed

text \<open>How many tokens of \<open>q\<close> the inserted key covers, and the lookup after an insertion.\<close>

definition covered :: "nat \<Rightarrow> radix_key \<Rightarrow> radix_key \<Rightarrow> nat" where
  "covered page key q = (if rk_extra q = rk_extra key then page_prefix page (rk_tokens key) (rk_tokens q) else 0)"

definition insert_lookup :: "nat \<Rightarrow> radix_key \<Rightarrow> int list \<Rightarrow> (radix_key \<Rightarrow> int list) \<Rightarrow> radix_key \<Rightarrow> int list" where
  "insert_lookup page key value f q =
     (let n = length (f key); c = covered page key q in if n < c then take c (f key @ drop n value) else f q)"

lemma covered_0: "rk_tokens key = [] \<or> rk_tokens q = [] \<or> get_child_key page q \<noteq> get_child_key page key \<Longrightarrow> covered page key q = 0"
  by (auto simp: covered_def get_child_key_def page_prefix.simps)

lemma covered_pos: "key_ok page key \<Longrightarrow> rk_tokens key \<noteq> [] \<Longrightarrow> rk_tokens q \<noteq> [] \<Longrightarrow> get_child_key page q = get_child_key page key \<Longrightarrow> 0 < covered page key q"
  using page_prefix_pos [of page "rk_tokens key" "rk_tokens q"] by (auto simp: covered_def get_child_key_def key_ok_def)

lemma covered_from:
  assumes "page dvd m" "m \<le> covered page key q" "rk_extra q = rk_extra key"
  shows "covered page (key_from m key) (key_from m q) = covered page key q - m"
  using assms page_prefix_drop by (simp add: covered_def)

lemma covered_facts:
  assumes "key_ok page key" "key_ok page q"
  shows "covered page key q \<le> key_len key" "covered page key q \<le> key_len q" "page dvd covered page key q"
    "rk_extra q = rk_extra key \<Longrightarrow> take (covered page key q) (rk_tokens key) = take (covered page key q) (rk_tokens q)"
  using assms page_prefix_le page_prefix_dvd page_prefix_take by (auto simp: covered_def key_len_def key_ok_def)

lemma covered_ge:
  assumes "key_ok page key" "page dvd m" "m \<le> key_len key" "m \<le> key_len q" "rk_extra q = rk_extra key"
    and "take m (rk_tokens key) = take m (rk_tokens q)"
  shows "m \<le> covered page key q"
  using page_prefix_ge [of page m "rk_tokens key" "rk_tokens q"] assms by (simp add: covered_def key_len_def key_ok_def)

lemma kid_match_ge:
  assumes "kid_ok page (get_child_key page key, c)" "0 < page" "page dvd m" "m \<le> node_len (info c)" "m \<le> key_len q"
    and "take m (rk_tokens (ni_key (info c))) = take m (rk_tokens q)"
  shows "m \<le> kid_match page c q"
  using page_prefix_ge [of page m "rk_tokens (ni_key (info c))" "rk_tokens q"] assms by (simp add: kid_match_def key_len_def node_len_def)

lemma add_leaf_shape:
  assumes "add_leaf cf node key value e = (t, e')"
  shows "\<exists>i. t = RNode (info node) (AList.update (get_child_key (cf_page cf) key) (RNode i []) (kids node)) \<and>
    ni_id i = te_next e \<and> ni_key i = key \<and> ni_value i = value \<and> ni_lock i = 0 \<and> te_next e' = te_next e + 1 \<and> te_root e' = te_root e \<and>
    te_evictable e' = te_evictable e + int (key_len key) \<and> te_protected e' = te_protected e"
  using assms by (auto simp: add_leaf_def new_tree_node_def read_clock_def record_store_event_def Let_def)

lemma leaf_ok:
  "key_ok page key \<Longrightarrow> rk_tokens key \<noteq> [] \<Longrightarrow> length value = key_len key \<Longrightarrow> ni_key i = key \<Longrightarrow> ni_value i = value \<Longrightarrow>
    kid_ok page (get_child_key page key, RNode i []) \<and> tree_ok page (RNode i [])"
  by (simp add: kid_ok_def tree_ok.simps key_ok_def)

lemma leaf_lookup:
  "ni_key i = key \<Longrightarrow> ni_value i = value \<Longrightarrow> get_child_key page q = get_child_key page key \<Longrightarrow>
    kid_lookup page (RNode i []) q = take (covered page key q) value"
  by (auto simp: kid_lookup_def covered_def Let_def lookup_eq get_child_key_def)

text \<open>The new leaf adds what it covers, at a node where the key has no child.\<close>

lemma add_leaf_lookup:
  assumes "add_leaf cf node key value e = (t, e')" "cf_page cf = page" "key_ok page key" "rk_tokens key \<noteq> []"
    and "map_of (kids node) (get_child_key page key) = None"
  shows "lookup page t q = (if 0 < covered page key q then take (covered page key q) value else lookup page node q)"
proof -
  obtain i where i: "t = RNode (info node) (AList.update (get_child_key page key) (RNode i []) (kids node))" "ni_key i = key" "ni_value i = value"
    using add_leaf_shape [OF assms(1)] assms(2) by auto
  have n: "node = RNode (info node) (kids node)" by simp
  show ?thesis
  proof (cases "rk_tokens q \<noteq> [] \<and> get_child_key page q = get_child_key page key")
    case True
    then show ?thesis
      using covered_pos [OF assms(3,4)] leaf_lookup [OF i(2,3)] by (simp add: i(1) lookup_update)
  next
    case False
    then have "covered page key q = 0" using covered_0 by blast
    moreover have "lookup page t q = lookup page (RNode (info node) (kids node)) q" using False by (auto simp: i(1) lookup_update)
    ultimately show ?thesis by simp
  qed
qed

lemma insert_lookup_upper:
  assumes "kid_ok page (get_child_key page key, c)" "key_ok page key" "key_ok page q" "m = kid_match page c key" "m < node_len (info c)"
    and "0 < m" "length value = key_len key" "get_child_key page q = get_child_key page key" "rk_tokens q \<noteq> []"
    and "kid_match page upper q = min m (kid_match page c q)" "ni_value (info upper) = take m (ni_value (info c))" "node_len (info upper) = m"
    and "kid_lookup page upper q = kid_lookup page c q"
    and "lookup page upper' (key_from m q) = (if 0 < covered page (key_from m key) (key_from m q)
        then take (covered page (key_from m key) (key_from m q)) (drop m value) else lookup page upper (key_from m q))"
    and "ni_key (info upper') = ni_key (info upper)" "ni_value (info upper') = ni_value (info upper)"
  shows "kid_lookup page upper' q = (if m < covered page key q then take (covered page key q) (take m (ni_value (info c)) @ drop m value)
    else kid_lookup page c q)"
proof -
  have ok: "length (ni_value (info c)) = node_len (info c)" "paged page (rk_tokens (ni_key (info c)))"
    using assms(1) by (auto simp: kid_ok_def Let_def node_len_def)
  have ex: "rk_extra q = rk_extra key" using assms(8) by (simp add: get_child_key_def)
  have dv: "page dvd m" by (simp add: assms(4) kid_match_def page_prefix_dvd)
  have mk: "m \<le> key_len key" using page_prefix_le [OF ok(2)] assms(2) by (simp add: assms(4) kid_match_def key_ok_def key_len_def)
  have share: "take m (rk_tokens (ni_key (info c))) = take m (rk_tokens key)" by (simp add: assms(4) kid_match_def page_prefix_take)
  have up': "kid_lookup page upper' q = take (min m (kid_match page c q)) (take m (ni_value (info c))) @
      (if kid_match page c q < m then [] else lookup page upper' (key_from (min m (kid_match page c q)) q))"
    using assms(10-12,15,16) by (simp add: kid_lookup_match kid_match_def [of page upper'] kid_match_def [of page upper] node_len_def)
  have up: "kid_lookup page upper q = take (min m (kid_match page c q)) (take m (ni_value (info c))) @
      (if kid_match page c q < m then [] else lookup page upper (key_from (min m (kid_match page c q)) q))"
    using assms(10-12) by (simp add: kid_lookup_match)
  note cf = covered_facts [OF assms(2,3)]
  show ?thesis
  proof (cases "m < covered page key q")
    case True
    have "take m (rk_tokens key) = take m (rk_tokens q)" using arg_cong [OF cf(4) [OF ex], of "take m"] True by simp
    then have q: "m \<le> kid_match page c q" using kid_match_ge [OF assms(1) _ dv] assms(2,5) True cf(2) share by (simp add: key_ok_def)
    have "covered page (key_from m key) (key_from m q) = covered page key q - m" using covered_from [OF dv _ ex] True by simp
    then show ?thesis using q up' assms(14) True assms(5) ok(1) by simp
  next
    case False
    have "lookup page upper' (key_from m q) = lookup page upper (key_from m q)" if "m \<le> kid_match page c q"
    proof -
      have "page_prefix page (rk_tokens (ni_key (info c))) (rk_tokens q) \<le> length (rk_tokens q)"
        using page_prefix_le [OF ok(2)] assms(3) by (simp add: key_ok_def)
      then have mq: "m \<le> key_len q" using that by (simp add: kid_match_def key_len_def)
      have "take m (rk_tokens (ni_key (info c))) = take m (rk_tokens q)"
        using arg_cong [OF page_prefix_take [of page "rk_tokens (ni_key (info c))" "rk_tokens q"], of "take m"] that by (simp add: kid_match_def min_def)
      then have "m \<le> covered page key q" using covered_ge [OF assms(2) dv mk mq ex] share by simp
      then have "covered page (key_from m key) (key_from m q) = 0" using covered_from [OF dv _ ex] False by simp
      then show ?thesis using assms(14) by simp
    qed
    then show ?thesis using False up up' assms(13) by (auto simp: min_def)
  qed
qed

lemma insert_lookup_deep:
  assumes "kid_ok page (get_child_key page key, c)" "key_ok page key" "key_ok page q" "m = kid_match page c key" "m = node_len (info c)"
    and "length value = key_len key" "get_child_key page q = get_child_key page key"
    and "\<And>q. key_ok page q \<Longrightarrow> lookup page c' q = insert_lookup page (key_from m key) (drop m value) (lookup page c) q"
    and "ni_key (info c') = ni_key (info c)" "ni_value (info c') = ni_value (info c)"
    and "full = ni_value (info c) @ lookup page c (key_from m key)"
  shows "kid_lookup page c' q = (if length full < covered page key q
    then take (covered page key q) (full @ drop (length full) value) else kid_lookup page c q)"
proof -
  have ok: "length (ni_value (info c)) = m" "paged page (rk_tokens (ni_key (info c)))"
    using assms(1,5) by (auto simp: kid_ok_def Let_def node_len_def)
  have ex: "rk_extra q = rk_extra key" using assms(7) by (simp add: get_child_key_def)
  have dv: "page dvd m" by (simp add: assms(4) kid_match_def page_prefix_dvd)
  have share: "take m (rk_tokens (ni_key (info c))) = take m (rk_tokens key)" by (simp add: assms(4) kid_match_def page_prefix_take)
  have mk: "m \<le> key_len key" using page_prefix_le [OF ok(2)] assms(2) by (simp add: assms(4) kid_match_def key_ok_def key_len_def)
  note cf = covered_facts [OF assms(2,3)]
  have le: "kid_match page c q \<le> m" using page_prefix_le [OF ok(2)] assms(3,5) by (simp add: kid_match_def key_ok_def node_len_def key_len_def)
  have km: "kid_match page c' q = kid_match page c q" "node_len (info c') = m" using assms(5,9) by (simp_all add: kid_match_def node_len_def)
  show ?thesis
  proof (cases "kid_match page c q < m")
    case True
    have "\<not> m < covered page key q"
    proof
      assume a: "m < covered page key q"
      then have "take m (rk_tokens key) = take m (rk_tokens q)" using arg_cong [OF cf(4) [OF ex], of "take m"] by simp
      then have "m \<le> kid_match page c q"
        using kid_match_ge [OF assms(1) _ dv _ _ _, of q] assms(2,5) a cf(2) share by (simp add: key_ok_def)
      then show False using True by simp
    qed
    then show ?thesis using True km assms(5,10,11) ok(1) by (simp add: kid_lookup_match)
  next
    case False
    then have eq: "kid_match page c q = m" using le by simp
    have "page_prefix page (rk_tokens (ni_key (info c))) (rk_tokens q) \<le> length (rk_tokens q)"
      using page_prefix_le [OF ok(2)] assms(3) by (simp add: key_ok_def)
    then have "m \<le> key_len q" using eq by (simp add: kid_match_def key_len_def)
    moreover have "take m (rk_tokens (ni_key (info c))) = take m (rk_tokens q)" using eq page_prefix_take by (metis kid_match_def)
    ultimately have ge: "m \<le> covered page key q" using covered_ge [OF assms(2) dv mk _ ex] share by simp
    have "key_ok page (key_from m q)" using assms(3) dv by simp
    note L = assms(8) [OF this, unfolded insert_lookup_def Let_def covered_from [OF dv ge ex]]
    show ?thesis
      using L km eq assms(5,10,11) ok(1) ge by (auto simp: kid_lookup_match add.commute)
  qed
qed

lemma insert_helper_correct:
  "tree_ok page t \<Longrightarrow> key_ok page key \<Longrightarrow> cf_page cf = page \<Longrightarrow> length val = key_len key \<Longrightarrow>
    \<exists>t' n e'. insert_helper cf t key val e = Inr (t', n, e') \<and> n = length (lookup page t key) \<and> tree_ok page t' \<and>
      (\<forall>q. key_ok page q \<longrightarrow> lookup page t' q = insert_lookup page key val (lookup page t) q) \<and>
      ni_key (info t') = ni_key (info t) \<and> ni_value (info t') = ni_value (info t)"
proof (induction t arbitrary: key val e rule: rnode_walk_induct)
  case (1 i cs key val e)
  obtain now e1 where rc: "read_clock cf e = (now, e1)" by fastforce
  let ?i = "i\<lparr>ni_access := now\<rparr>" and ?k = "get_child_key page key"
  show ?case
  proof (cases "rk_tokens key = []")
    case True
    then show ?thesis
      using 1 rc lookup_info by (auto simp: tree_ok.simps insert_lookup_def covered_0)
  next
    case ne: False
    show ?thesis
    proof (cases "map_of cs ?k")
      case None
      obtain t e2 where al: "add_leaf cf (RNode ?i cs) key val e1 = (t, e2)" by fastforce
      obtain j where j: "t = RNode ?i (AList.update ?k (RNode j []) cs)" "ni_key j = key" "ni_value j = val"
        using add_leaf_shape [OF al] 1(4) by auto
      have l0: "lookup page (RNode i cs) key = []" using ne None by (simp add: lookup_eq)
      have "\<forall>q. lookup page t q = insert_lookup page key val (lookup page (RNode i cs)) q"
        using add_leaf_lookup [OF al 1(4,3) ne] None lookup_info [of page ?i cs _ i] by (simp add: insert_lookup_def l0)
      moreover have "tree_ok page t" using tree_ok_update [OF 1(2)] leaf_ok [OF 1(3) ne 1(5) j(2,3)] j(1) by simp
      ultimately show ?thesis using ne None 1(4) al j(1) l0 by (simp add: rc Let_def)
    next
      case c: (Some c)
      note f = found_kid [OF 1(2) c 1(3) ne]
      let ?m = "kid_match page c key"
      have gck: "get_child_key page (ni_key (info c)) = ?k" using f(2) by (simp add: kid_ok_def Let_def)
      have mk: "?m \<le> key_len key" by (rule f(7))
      have lv: "length (ni_value (info c)) = node_len (info c)" using f(2) by (simp add: kid_ok_def Let_def node_len_def)
      have outside: "lookup page (RNode ?i (AList.update ?k c' cs)) q = insert_lookup page key val (lookup page (RNode i cs)) q"
        if "key_ok page q" "rk_tokens q = [] \<or> get_child_key page q \<noteq> ?k" for q c'
        using that covered_0 [of key q page] lookup_info [of page ?i cs q i] by (auto simp: lookup_update insert_lookup_def)
      show ?thesis
      proof (cases "?m < node_len (info c)")
        case True
        obtain t e2 where rc2: "read_clock cf e1 = (t, e2)" by fastforce
        obtain upper e3 where sp: "split_node cf ?i (touch t c) ?m e2 = (upper, e3)" by fastforce
        note s = split_kid_ok [OF f(2) f(3) f(4) True f(5) 1(4) sp]
        obtain u where u: "upper = RNode u [(get_child_key page (key_from ?m (ni_key (info c))),
            RNode ((info (touch t c))\<lparr>ni_key := key_from ?m (ni_key (info c)), ni_value := drop ?m (ni_value (info c))\<rparr>) (kids c))]"
          "ni_key u = key_upto ?m (ni_key (info c))" "ni_value u = take ?m (ni_value (info c))"
          using split_node_shape [OF sp] 1(4) by (auto simp: touch_def)
        have lu: "node_len (info upper) = ?m" using u f(6) by (simp add: node_len_def key_len_def)
        have lk: "lookup page (RNode i cs) key = take ?m (ni_value (info c))" using ne c True by (simp add: lookup_eq kid_lookup_match)
        have n: "length (lookup page (RNode i cs) key) = ?m" using lk lv True by simp
        let ?key = "key_from ?m key" and ?val = "drop ?m val"
        obtain upper' e4 where up: "(if rk_tokens ?key = [] then (upper, e3) else add_leaf cf upper ?key ?val e3) = (upper', e4)" by fastforce
        have run: "insert_helper cf (RNode i cs) key val e = Inr (RNode ?i (AList.update ?k upper' cs), ?m, e4)"
          using ne c f(1) True 1(4) by (simp only: insert_helper.simps rc Let_def case_prod_conv option.case rbind_simps gck rc2 sp up if_True if_False)
        have kok: "key_ok page ?key" using 1(3) f(5) by simp
        have stop: "map_of (kids upper) (get_child_key page ?key) = None" if "rk_tokens ?key \<noteq> []"
        proof -
          have "0 < page" using 1(3) by (simp add: key_ok_def)
          from page_prefix_stop [OF this, of "rk_tokens (ni_key (info c))" "rk_tokens key"] that True
          show ?thesis by (simp add: u(1) kid_match_def node_len_def key_len_def get_child_key_def)
        qed
        have same: "ni_key (info upper') = ni_key (info upper)" "ni_value (info upper') = ni_value (info upper)"
          "\<And>q. lookup page upper' q = (if 0 < covered page ?key q then take (covered page ?key q) ?val else lookup page upper q)"
          using up add_leaf_shape [of cf upper ?key ?val e3] add_leaf_lookup [OF _ 1(4) kok _ stop, of ?val e3]
          by (auto simp: covered_0 split: if_splits)
        have "tree_ok page upper'"
        proof (cases "rk_tokens ?key = []")
          case False
          obtain j where j: "upper' = RNode (info upper) (AList.update (get_child_key page ?key) (RNode j []) (kids upper))" "ni_key j = ?key" "ni_value j = ?val"
            using add_leaf_shape [of cf upper ?key ?val e3] up False 1(4) by auto
          have "length ?val = key_len ?key" using 1(5) by (simp add: key_len_def)
          from leaf_ok [OF kok False this j(2,3)] tree_ok_update [of page "info upper" "kids upper"] s(2)
          show ?thesis unfolding j(1) by (metis rnode.collapse)
        qed (use up s(2) in simp)
        then have ok: "tree_ok page (RNode ?i (AList.update ?k upper' cs))"
          using tree_ok_update [OF 1(2) same_kid_ok [OF s(1) same(1,2)]] by simp
        have "lookup page (RNode ?i (AList.update ?k upper' cs)) q = insert_lookup page key val (lookup page (RNode i cs)) q"
          if q: "key_ok page q" for q
        proof (cases "rk_tokens q = [] \<or> get_child_key page q \<noteq> ?k")
          case False
          have km: "kid_match page upper q = min ?m (kid_match page c q)"
            using page_prefix_take_left [of page "rk_tokens (ni_key (info c))" ?m "rk_tokens q"] f(2,5,6) u
            by (simp add: kid_match_def kid_ok_def Let_def node_len_def key_len_def)
          from False kid_lookup_split [OF f(2) f(4) True f(5) 1(4) sp q]
          have ks: "kid_lookup page upper q = kid_lookup page c q" by simp
          from insert_lookup_upper [OF f(2) 1(3) q refl True f(4) 1(5) _ _ km s(3) lu ks same(3) same(1,2)] False
          moreover have "lookup page (RNode i cs) q = kid_lookup page c q" using False c by (simp add: lookup_eq)
          ultimately show ?thesis using False lv True by (simp add: lookup_update insert_lookup_def Let_def lk min_def)
        qed (rule outside [OF q])
        then show ?thesis using run n ok by simp
      next
        case deep: False
        then have m: "?m = node_len (info c)" using f(6) by simp
        let ?key = "key_from ?m key" and ?val = "drop ?m val"
        have "length ?val = key_len ?key" using 1(5) by (simp add: key_len_def)
        then obtain c' n e' where IH: "insert_helper cf c ?key ?val e1 = Inr (c', n, e')" "n = length (lookup page c ?key)" "tree_ok page c'"
          "\<forall>q. key_ok page q \<longrightarrow> lookup page c' q = insert_lookup page ?key ?val (lookup page c) q"
          "ni_key (info c') = ni_key (info c)" "ni_value (info c') = ni_value (info c)"
          using 1(1) [OF c f(3) key_ok_from [OF 1(3) f(5)] 1(4)] by blast
        define full where "full = ni_value (info c) @ lookup page c ?key"
        have lk: "lookup page (RNode i cs) key = full" using ne c deep lv m by (simp add: lookup_eq kid_lookup_match full_def)
        have run: "insert_helper cf (RNode i cs) key val e = Inr (RNode ?i (AList.update ?k c' cs), ?m + n, e')"
          using ne c f(1) deep 1(4) IH(1) by (simp add: rc Let_def)
        have "lookup page (RNode ?i (AList.update ?k c' cs)) q = insert_lookup page key val (lookup page (RNode i cs)) q"
          if q: "key_ok page q" for q
        proof (cases "rk_tokens q = [] \<or> get_child_key page q \<noteq> ?k")
          case False
          from insert_lookup_deep [OF f(2) 1(3) q refl m 1(5) _ _ IH(5,6) full_def] IH(4) False
          moreover have "lookup page (RNode i cs) q = kid_lookup page c q" using False c by (simp add: lookup_eq)
          ultimately show ?thesis using False by (simp add: lookup_update insert_lookup_def Let_def lk)
        qed (rule outside [OF q])
        moreover have "?m + n = length full" using IH(2) lv m by (simp add: full_def)
        ultimately show ?thesis using run lk tree_ok_update [OF 1(2) same_kid_ok [OF f(2) IH(5,6)] IH(3)] by simp
      qed
    qed
  qed
qed

end
