(* ===== verification/RadixSteps.thy ===== *)
theory RadixSteps
  imports RadixLookup
begin

text \<open>
  The changes that the operations make to the tree, as local changes somewhere in it: a node is touched,
  split, gets a new leaf, or loses a leaf. What the cache maintains, sizes, slots, ids, lock counts and
  the path of every held node, is proved once per local change and lifted to the tree.
\<close>

section \<open>Nodes of a tree\<close>

fun nodes :: "rnode \<Rightarrow> node_info multiset" where
  "nodes (RNode i cs) = add_mset i (sum_list (map (\<lambda>kc. nodes (snd kc)) cs))"

definition node_ids :: "rnode \<Rightarrow> nat multiset" where
  "node_ids t = image_mset ni_id (nodes t)"

definition ids_ok :: "nat \<Rightarrow> rnode \<Rightarrow> bool" where
  "ids_ok next_id t \<longleftrightarrow> (\<forall>x. count (node_ids t) x \<le> 1) \<and> (\<forall>x \<in># node_ids t. x < next_id)"

text \<open>The cached tokens of the nodes that may be evicted, of the locked ones, and the slots they hold.\<close>

definition unlocked_len :: "rnode \<Rightarrow> int" where
  "unlocked_len t = (\<Sum>i \<in># nodes t. if ni_lock i = 0 then int (node_len i) else 0)"

definition locked_len :: "rnode \<Rightarrow> int" where
  "locked_len t = (\<Sum>i \<in># nodes t. if ni_lock i = 0 then 0 else int (node_len i))"

definition tree_slots :: "rnode \<Rightarrow> int multiset" where
  "tree_slots t = (\<Sum>i \<in># nodes t. mset (ni_value i))"

lemma node_len_access [simp]: "node_len (i\<lparr>ni_access := a\<rparr>) = node_len i"
  by (simp add: node_len_def)

lemma info_in_nodes [simp]: "info t \<in># nodes t"
  by (cases t) simp

section \<open>Local changes\<close>

inductive in_tree :: "(rnode \<Rightarrow> rnode \<Rightarrow> bool) \<Rightarrow> rnode \<Rightarrow> rnode \<Rightarrow> bool" for R where
  here: "R t t' \<Longrightarrow> in_tree R t t'"
| there: "in_tree R c c' \<Longrightarrow> in_tree R (RNode i (as @ (k, c) # bs)) (RNode i (as @ (k, c') # bs))"

definition touched :: "rnode \<Rightarrow> rnode \<Rightarrow> bool" where
  "touched t t' \<longleftrightarrow> (\<exists>a. t' = touch a t)"

text \<open>The new upper part \<open>u\<close> of \<open>ci\<close> takes the first tokens and the lock count; the rest keeps the id.\<close>

definition split_parts :: "nat \<Rightarrow> node_info \<Rightarrow> node_info \<Rightarrow> node_info \<Rightarrow> bool" where
  "split_parts new ci u low \<longleftrightarrow>
     (\<exists>s. s \<le> node_len ci \<and> ni_id u = new \<and> ni_key u = key_upto s (ni_key ci) \<and> ni_value u = take s (ni_value ci) \<and>
        ni_lock u = ni_lock ci \<and> low = ci\<lparr>ni_key := key_from s (ni_key ci), ni_value := drop s (ni_value ci)\<rparr>)"

definition split_kid :: "nat \<Rightarrow> rnode \<Rightarrow> rnode \<Rightarrow> bool" where
  "split_kid new t t' \<longleftrightarrow>
     (\<exists>i as k c bs u low k'. t = RNode i (as @ (k, c) # bs) \<and> t' = RNode i (as @ (k, RNode u [(k', RNode low (kids c))]) # bs) \<and>
        split_parts new (info c) u low)"

definition new_leaf :: "node_info \<Rightarrow> rnode \<Rightarrow> rnode \<Rightarrow> bool" where
  "new_leaf j t t' \<longleftrightarrow> (\<exists>k. t' = RNode (info t) (kids t @ [(k, RNode j [])]))"

definition cut_leaf :: "rnode \<Rightarrow> rnode \<Rightarrow> rnode \<Rightarrow> bool" where
  "cut_leaf n t t' \<longleftrightarrow> (\<exists>i as k bs. t = RNode i (as @ (k, n) # bs) \<and> t' = RNode i (as @ bs)) \<and> kids n = []"

text \<open>What each change does to the nodes.\<close>

lemma nodes_lift:
  assumes "in_tree R t t'" "\<And>t t'. R t t' \<Longrightarrow> \<exists>A B. P A B \<and> nodes t' + A = nodes t + B"
  shows "\<exists>A B. P A B \<and> nodes t' + A = nodes t + B"
  using assms(1)
proof (induction rule: in_tree.induct)
  case (there c c' i as k bs)
  then obtain A B where "P A B" "nodes c' + A = nodes c + B" by blast
  moreover have "nodes (RNode i (as @ (k, c') # bs)) + A = nodes (RNode i (as @ (k, c) # bs)) + B"
    using calculation(2) by (simp add: ac_simps)
  ultimately show ?case by blast
qed (rule assms(2))

lemma touched_nodes:
  "in_tree touched t t' \<Longrightarrow> \<exists>i a. nodes t' + {#i#} = nodes t + {#i\<lparr>ni_access := a\<rparr>#}"
  using nodes_lift [of touched t t' "\<lambda>A B. \<exists>i a. A = {#i#} \<and> B = {#i\<lparr>ni_access := a\<rparr>#}"]
proof -
  assume s: "in_tree touched t t'"
  have "\<exists>A B. (\<exists>i a. A = {#i#} \<and> B = {#i\<lparr>ni_access := a\<rparr>#}) \<and> nodes t' + A = nodes t + B"
  proof (rule nodes_lift [OF s])
    fix t t' assume "touched t t'"
    then obtain a where "t' = touch a t" by (auto simp: touched_def)
    then have "nodes t' + {#info t#} = nodes t + {#(info t)\<lparr>ni_access := a\<rparr>#}" by (cases t) (simp add: touch_def)
    then show "\<exists>A B. (\<exists>i a. A = {#i#} \<and> B = {#i\<lparr>ni_access := a\<rparr>#}) \<and> nodes t' + A = nodes t + B" by blast
  qed
  then show ?thesis by blast
qed

lemma split_nodes:
  assumes "in_tree (split_kid new) t t'"
  shows "\<exists>ci u low. split_parts new ci u low \<and> nodes t' + {#ci#} = nodes t + {#u, low#}"
proof -
  have "\<exists>A B. (\<exists>ci u low. A = {#ci#} \<and> B = {#u, low#} \<and> split_parts new ci u low) \<and> nodes t' + A = nodes t + B"
  proof (rule nodes_lift [OF assms])
    fix t t' assume "split_kid new t t'"
    then obtain i as k c bs u low k' where s: "t = RNode i (as @ (k, c) # bs)"
      "t' = RNode i (as @ (k, RNode u [(k', RNode low (kids c))]) # bs)" "split_parts new (info c) u low"
      by (auto simp: split_kid_def)
    have "nodes t' + {#info c#} = nodes t + {#u, low#}" using s by (cases c) simp
    then show "\<exists>A B. (\<exists>ci u low. A = {#ci#} \<and> B = {#u, low#} \<and> split_parts new ci u low) \<and> nodes t' + A = nodes t + B"
      using s(3) by blast
  qed
  then show ?thesis by blast
qed

lemma leaf_nodes:
  assumes "in_tree (new_leaf j) t t'"
  shows "nodes t' = nodes t + {#j#}"
proof -
  have "\<exists>A B. (A = {#} \<and> B = {#j#}) \<and> nodes t' + A = nodes t + B"
  proof (rule nodes_lift [OF assms])
    fix t t' assume "new_leaf j t t'"
    then have "nodes t' = nodes t + {#j#}" by (cases t) (auto simp: new_leaf_def)
    then show "\<exists>A B. (A = {#} \<and> B = {#j#}) \<and> nodes t' + A = nodes t + B" by simp
  qed
  then show ?thesis by auto
qed

lemma cut_nodes:
  assumes "in_tree (cut_leaf n) t t'"
  shows "nodes t = nodes t' + {#info n#}"
proof -
  have "\<exists>A B. (A = {#info n#} \<and> B = {#}) \<and> nodes t' + A = nodes t + B"
  proof (rule nodes_lift [OF assms])
    fix t t' assume "cut_leaf n t t'"
    then have "nodes t = nodes t' + {#info n#}" by (cases n) (auto simp: cut_leaf_def)
    then show "\<exists>A B. (A = {#info n#} \<and> B = {#}) \<and> nodes t' + A = nodes t + B" by simp
  qed
  then show ?thesis by auto
qed

lemma sum_nodes_eq:
  fixes f :: "node_info \<Rightarrow> 'b::cancel_comm_monoid_add"
  assumes "nodes t' + A = nodes t + B"
  shows "(\<Sum>i \<in># nodes t'. f i) + (\<Sum>i \<in># A. f i) = (\<Sum>i \<in># nodes t. f i) + (\<Sum>i \<in># B. f i)"
  by (metis assms image_mset_union sum_mset.union)

lemma split_parts_len:
  "split_parts new ci u low \<Longrightarrow> node_len u + node_len low = node_len ci \<and> mset (ni_value u) + mset (ni_value low) = mset (ni_value ci) \<and>
    ni_lock u = ni_lock ci \<and> ni_lock low = ni_lock ci \<and> ni_id low = ni_id ci \<and> ni_id u = new"
  by (auto simp: split_parts_def node_len_def key_len_def key_upto_def key_from_def simp flip: mset_append)

lemma touched_same:
  assumes "in_tree touched t t'"
  shows "unlocked_len t' = unlocked_len t" "locked_len t' = locked_len t" "tree_slots t' = tree_slots t" "node_ids t' = node_ids t"
proof -
  obtain i a where n: "nodes t' + {#i#} = nodes t + {#i\<lparr>ni_access := a\<rparr>#}" using touched_nodes [OF assms] by blast
  show "unlocked_len t' = unlocked_len t" "locked_len t' = locked_len t" "tree_slots t' = tree_slots t"
    using sum_nodes_eq [OF n, of "\<lambda>i. if ni_lock i = 0 then int (node_len i) else 0"]
      sum_nodes_eq [OF n, of "\<lambda>i. if ni_lock i = 0 then 0 else int (node_len i)"] sum_nodes_eq [OF n, of "\<lambda>i. mset (ni_value i)"]
    by (auto simp: unlocked_len_def locked_len_def tree_slots_def split: if_splits)
  show "node_ids t' = node_ids t" using arg_cong [OF n, of "image_mset ni_id"] by (simp add: node_ids_def)
qed

lemma split_same:
  assumes "in_tree (split_kid new) t t'"
  shows "unlocked_len t' = unlocked_len t" "locked_len t' = locked_len t" "tree_slots t' = tree_slots t" "node_ids t' = add_mset new (node_ids t)"
proof -
  obtain ci u low where n: "nodes t' + {#ci#} = nodes t + {#u, low#}" and p: "split_parts new ci u low" using split_nodes [OF assms] by blast
  note l = split_parts_len [OF p]
  show "unlocked_len t' = unlocked_len t" "locked_len t' = locked_len t"
    using sum_nodes_eq [OF n, of "\<lambda>i. if ni_lock i = 0 then int (node_len i) else 0"]
      sum_nodes_eq [OF n, of "\<lambda>i. if ni_lock i = 0 then 0 else int (node_len i)"] l
    by (auto simp: unlocked_len_def locked_len_def split: if_splits)
  have "tree_slots t' + mset (ni_value ci) = tree_slots t + (mset (ni_value u) + mset (ni_value low))"
    using sum_nodes_eq [OF n, of "\<lambda>i. mset (ni_value i)"] by (simp add: tree_slots_def)
  then show "tree_slots t' = tree_slots t" using l by simp
  show "node_ids t' = add_mset new (node_ids t)" using arg_cong [OF n, of "image_mset ni_id"] l by (simp add: node_ids_def)
qed

lemma leaf_same:
  assumes "in_tree (new_leaf j) t t'" "ni_lock j = 0"
  shows "unlocked_len t' = unlocked_len t + int (node_len j)" "locked_len t' = locked_len t" "tree_slots t' = tree_slots t + mset (ni_value j)"
    "node_ids t' = add_mset (ni_id j) (node_ids t)"
  using assms(2) by (simp_all add: unlocked_len_def locked_len_def tree_slots_def node_ids_def leaf_nodes [OF assms(1)])

lemma cut_same:
  assumes "in_tree (cut_leaf n) t t'" "ni_lock (info n) = 0"
  shows "unlocked_len t = unlocked_len t' + int (node_len (info n))" "locked_len t = locked_len t'"
    "tree_slots t = tree_slots t' + mset (ni_value (info n))" "node_ids t = add_mset (ni_id (info n)) (node_ids t')"
  using assms(2) by (simp_all add: unlocked_len_def locked_len_def tree_slots_def node_ids_def cut_nodes [OF assms(1)])

section \<open>Lock counts\<close>

text \<open>\<open>H\<close> holds the id of the last node of every request that locked it: a node is locked as often as
  \<open>H\<close> has ids in its subtree.\<close>

definition holders :: "nat multiset \<Rightarrow> rnode \<Rightarrow> nat" where
  "holders H c = size (filter_mset (\<lambda>h. h \<in># node_ids c) H)"

fun lock_ok :: "nat multiset \<Rightarrow> rnode \<Rightarrow> bool" where
  "lock_ok H (RNode i cs) \<longleftrightarrow> (\<forall>kc \<in> set cs. ni_lock (info (snd kc)) = int (holders H (snd kc)) \<and> lock_ok H (snd kc))"

declare lock_ok.simps [simp del]

lemma lock_lift:
  assumes "in_tree R t t'" "lock_ok H t"
    and "\<And>t t'. R t t' \<Longrightarrow> lock_ok H t \<Longrightarrow> lock_ok H t' \<and> ni_lock (info t') = ni_lock (info t) \<and> holders H t' = holders H t"
    and "\<And>c c' i as k bs. in_tree R c c' \<Longrightarrow> holders H c' = holders H c \<Longrightarrow>
      holders H (RNode i (as @ (k, c') # bs)) = holders H (RNode i (as @ (k, c) # bs))"
  shows "lock_ok H t' \<and> ni_lock (info t') = ni_lock (info t) \<and> holders H t' = holders H t"
  using assms(1,2)
proof (induction rule: in_tree.induct)
  case (there c c' i as k bs)
  then have "lock_ok H c' \<and> ni_lock (info c') = ni_lock (info c) \<and> holders H c' = holders H c" by (auto simp: lock_ok.simps)
  then show ?case using there assms(4) [OF there(1)] by (auto simp: lock_ok.simps)
qed (rule assms(3))

lemma holders_fresh: "node_ids c' = add_mset x (node_ids c) \<Longrightarrow> x \<notin># H \<Longrightarrow> holders H c' = holders H c"
  unfolding holders_def by (metis (mono_tags, lifting) filter_mset_cong insert_iff set_mset_add_mset_insert)

lemma holders_same: "node_ids c' = node_ids c \<Longrightarrow> holders H c' = holders H c"
  by (simp add: holders_def)

lemma touched_lock: "in_tree touched t t' \<Longrightarrow> lock_ok H t \<Longrightarrow> lock_ok H t'"
proof -
  assume s: "in_tree touched t t'" and l: "lock_ok H t"
  have "lock_ok H t' \<and> ni_lock (info t') = ni_lock (info t) \<and> holders H t' = holders H t"
  proof (rule lock_lift [OF s l])
    fix t t' assume r: "touched t t'" and "lock_ok H t"
    then show "lock_ok H t' \<and> ni_lock (info t') = ni_lock (info t) \<and> holders H t' = holders H t"
      using holders_same [OF touched_same(4) [OF in_tree.here [where R = touched, OF r]]] by (cases t) (auto simp: touched_def touch_def lock_ok.simps)
  next
    fix c c' i as k bs assume "in_tree touched c c'"
    from touched_same(4) [OF in_tree.there [OF this]]
    show "holders H (RNode i (as @ (k, c') # bs)) = holders H (RNode i (as @ (k, c) # bs))" by (rule holders_same)
  qed
  then show ?thesis ..
qed

lemma split_lock: "in_tree (split_kid new) t t' \<Longrightarrow> lock_ok H t \<Longrightarrow> new \<notin># H \<Longrightarrow> lock_ok H t'"
proof -
  assume s: "in_tree (split_kid new) t t'" and l: "lock_ok H t" and f: "new \<notin># H"
  have "lock_ok H t' \<and> ni_lock (info t') = ni_lock (info t) \<and> holders H t' = holders H t"
  proof (rule lock_lift [OF s l])
    fix t t' assume r: "split_kid new t t'" and lk: "lock_ok H t"
    then obtain i as k c bs u low k' where d: "t = RNode i (as @ (k, c) # bs)"
      "t' = RNode i (as @ (k, RNode u [(k', RNode low (kids c))]) # bs)" "split_parts new (info c) u low"
      by (auto simp: split_kid_def)
    note p = split_parts_len [OF d(3)]
    have low: "node_ids (RNode low (kids c)) = node_ids c" using p by (cases c) (simp add: node_ids_def)
    have up: "node_ids (RNode u [(k', RNode low (kids c))]) = add_mset new (node_ids c)" using p low by (simp add: node_ids_def)
    have "holders H (RNode u [(k', RNode low (kids c))]) = holders H c" "holders H (RNode low (kids c)) = holders H c"
      using holders_fresh [OF up f] holders_same [OF low] by simp_all
    moreover have "lock_ok H (RNode low (kids c)) = lock_ok H c" by (cases c) (simp add: lock_ok.simps)
    ultimately have "lock_ok H t'" using lk p by (auto simp: d lock_ok.simps)
    then show "lock_ok H t' \<and> ni_lock (info t') = ni_lock (info t) \<and> holders H t' = holders H t"
      using holders_fresh [OF split_same(4) [OF in_tree.here [where R = "split_kid new", OF r]] f] d by simp
  next
    fix c c' i as k bs assume "in_tree (split_kid new) c c'"
    from split_same(4) [OF in_tree.there [OF this]]
    show "holders H (RNode i (as @ (k, c') # bs)) = holders H (RNode i (as @ (k, c) # bs))" using f by (rule holders_fresh)
  qed
  then show ?thesis ..
qed

lemma leaf_lock: "in_tree (new_leaf j) t t' \<Longrightarrow> lock_ok H t \<Longrightarrow> ni_id j \<notin># H \<Longrightarrow> ni_lock j = 0 \<Longrightarrow> lock_ok H t'"
proof -
  assume s: "in_tree (new_leaf j) t t'" and l: "lock_ok H t" and f: "ni_id j \<notin># H" and z: "ni_lock j = 0"
  have "lock_ok H t' \<and> ni_lock (info t') = ni_lock (info t) \<and> holders H t' = holders H t"
  proof (rule lock_lift [OF s l])
    fix t t' assume r: "new_leaf j t t'" and lk: "lock_ok H t"
    then obtain k where t': "t' = RNode (info t) (kids t @ [(k, RNode j [])])" by (auto simp: new_leaf_def)
    have "holders H (RNode j []) = 0" using f by (simp add: holders_def node_ids_def filter_eq_replicate_mset not_in_iff)
    then have "lock_ok H t'" using lk z by (cases t) (auto simp: t' lock_ok.simps)
    then show "lock_ok H t' \<and> ni_lock (info t') = ni_lock (info t) \<and> holders H t' = holders H t"
      using holders_fresh [OF leaf_same(4) [OF in_tree.here [where R = "new_leaf j", OF r] z] f] t' by simp
  next
    fix c c' i as k bs assume "in_tree (new_leaf j) c c'"
    from leaf_same(4) [OF in_tree.there [OF this] z]
    show "holders H (RNode i (as @ (k, c') # bs)) = holders H (RNode i (as @ (k, c) # bs))" using f by (rule holders_fresh)
  qed
  then show ?thesis ..
qed

lemma cut_lock: "in_tree (cut_leaf n) t t' \<Longrightarrow> lock_ok H t \<Longrightarrow> ni_id (info n) \<notin># H \<Longrightarrow> ni_lock (info n) = 0 \<Longrightarrow> lock_ok H t'"
proof -
  assume s: "in_tree (cut_leaf n) t t'" and l: "lock_ok H t" and f: "ni_id (info n) \<notin># H" and z: "ni_lock (info n) = 0"
  have "lock_ok H t' \<and> ni_lock (info t') = ni_lock (info t) \<and> holders H t' = holders H t"
  proof (rule lock_lift [OF s l])
    fix t t' assume r: "cut_leaf n t t'" and lk: "lock_ok H t"
    then have "lock_ok H t'" "info t' = info t" by (auto simp: cut_leaf_def lock_ok.simps)
    then show "lock_ok H t' \<and> ni_lock (info t') = ni_lock (info t) \<and> holders H t' = holders H t"
      using holders_fresh [OF cut_same(4) [OF in_tree.here [where R = "cut_leaf n", OF r] z] f] by simp
  next
    fix c c' i as k bs assume "in_tree (cut_leaf n) c c'"
    from cut_same(4) [OF in_tree.there [OF this] z]
    show "holders H (RNode i (as @ (k, c') # bs)) = holders H (RNode i (as @ (k, c) # bs))" using holders_fresh f by metis
  qed
  then show ?thesis ..
qed

end
