(* ===== verification/RadixInv.thy ===== *)
theory RadixInv
  imports RadixSteps
begin

text \<open>
  The walks and the lock changes as sequences of local changes, and what they keep: the counters of the
  cache agree with the tree, every node is locked as often as it is held below, and the path of every
  node still spells the same key and the same slots.
\<close>

section \<open>Paths\<close>

text \<open>The path from the root to node \<open>n\<close> spells the key and the slots.\<close>

inductive spells :: "rnode \<Rightarrow> nat \<Rightarrow> radix_key \<Rightarrow> int list \<Rightarrow> bool" where
  here: "rk_tokens key = [] \<Longrightarrow> spells t (ni_id (info t)) key []"
| there: "(k, c) \<in> set (kids t) \<Longrightarrow> rk_extra key = rk_extra (ni_key (info c)) \<Longrightarrow>
    rk_tokens key = rk_tokens (ni_key (info c)) @ rest \<Longrightarrow> spells c n (key\<lparr>rk_tokens := rest\<rparr>) vs \<Longrightarrow>
    spells t n key (ni_value (info c) @ vs)"

lemma kid_nodes: "(k, c) \<in> set cs \<Longrightarrow> nodes c \<subseteq># sum_list (map (\<lambda>kc. nodes (snd kc)) cs)"
proof (induction cs)
  case (Cons kc cs)
  then show ?case
    by (cases "kc = (k, c)") (auto intro: subset_mset.order_trans mset_subset_eq_add_right)
qed simp

lemma kid_ids: "(k, c) \<in> set (kids t) \<Longrightarrow> node_ids c \<subseteq># node_ids t"
proof -
  assume "(k, c) \<in> set (kids t)"
  from kid_nodes [OF this] have "nodes c \<subseteq># sum_list (map (\<lambda>kc. nodes (snd kc)) (kids t))" .
  moreover have "nodes t = sum_list (map (\<lambda>kc. nodes (snd kc)) (kids t)) + {#info t#}" by (cases t) simp
  then have "sum_list (map (\<lambda>kc. nodes (snd kc)) (kids t)) \<subseteq># nodes t" by (metis mset_subset_eq_add_left)
  ultimately have "nodes c \<subseteq># nodes t" by (meson subset_mset.order_trans)
  then show ?thesis unfolding node_ids_def by (rule image_mset_subseteq_mono)
qed

lemma spells_id: "spells t n key vs \<Longrightarrow> n \<in># node_ids t"
proof (induction rule: spells.induct)
  case (here key t)
  show ?case unfolding node_ids_def using info_in_nodes [of t] by (metis image_eqI set_image_mset)
next
  case (there k c t key rest n vs)
  then show ?case using mset_subset_eqD [OF kid_ids [OF there(1)]] by simp
qed

text \<open>A change keeps the paths of the nodes in \<open>S\<close>, and the key, value and id of the top node.\<close>

definition keeps :: "(nat \<Rightarrow> bool) \<Rightarrow> rnode \<Rightarrow> rnode \<Rightarrow> bool" where
  "keeps S t t' \<longleftrightarrow> ni_id (info t') = ni_id (info t) \<and> ni_key (info t') = ni_key (info t) \<and> ni_value (info t') = ni_value (info t) \<and>
     (\<forall>n key vs. S n \<longrightarrow> spells t n key vs \<longrightarrow> spells t' n key vs)"

lemma keeps_refl [simp]: "keeps S t t"
  by (simp add: keeps_def)

lemma keeps_trans: "keeps S t u \<Longrightarrow> keeps S u v \<Longrightarrow> keeps S t v"
  by (simp add: keeps_def)

lemma keeps_lift: "in_tree R t t' \<Longrightarrow> (\<And>t t'. R t t' \<Longrightarrow> keeps S t t') \<Longrightarrow> keeps S t t'"
proof (induction rule: in_tree.induct)
  case (there c c' i as k bs)
  then have k: "keeps S c c'" by blast
  have "spells (RNode i (as @ (k, c') # bs)) n key vs" if "S n" "spells (RNode i (as @ (k, c) # bs)) n key vs" for n key vs
    using that(2)
  proof (cases rule: spells.cases)
    case here
    then show ?thesis using spells.here [of key "RNode i (as @ (k, c') # bs)"] by simp
  next
    case (there k2 c2 rest vs2)
    show ?thesis
    proof (cases "(k2, c2) \<in> set (as @ bs)")
      case True
      then show ?thesis using there by (auto intro: spells.there)
    next
      case False
      then have "k2 = k" "c2 = c" using there by auto
      with there k that(1) have "spells c' n (key\<lparr>rk_tokens := rest\<rparr>) vs2" "ni_value (info c') = ni_value (info c)" "ni_key (info c') = ni_key (info c)"
        by (auto simp: keeps_def)
      then show ?thesis
        using spells.there [of k c' "RNode i (as @ (k, c') # bs)" key rest n vs2] there \<open>c2 = c\<close> by simp
    qed
  qed
  then show ?case by (simp add: keeps_def)
qed

lemma spells_same_kids: "spells t n key vs \<Longrightarrow> kids t' = kids t \<Longrightarrow> ni_id (info t') = ni_id (info t) \<Longrightarrow> spells t' n key vs"
proof (cases rule: spells.cases, assumption, goal_cases)
  case 1
  then show ?case using spells.here [of key t'] by simp
qed (auto intro: spells.there)

text \<open>Changes of access times and locks.\<close>

definition relabelled :: "rnode \<Rightarrow> rnode \<Rightarrow> bool" where
  "relabelled t t' \<longleftrightarrow> kids t' = kids t \<and> ni_id (info t') = ni_id (info t) \<and> ni_key (info t') = ni_key (info t) \<and> ni_value (info t') = ni_value (info t)"

lemma keeps_relabelled: "in_tree relabelled t t' \<Longrightarrow> keeps S t t'"
  by (erule keeps_lift) (auto simp: relabelled_def keeps_def intro: spells_same_kids)

lemma touched_relabelled: "in_tree touched t t' \<Longrightarrow> in_tree relabelled t t'"
  by (induction rule: in_tree.induct) (auto intro!: in_tree.intros simp: touched_def touch_def relabelled_def)

lemma keeps_leaf: "in_tree (new_leaf j) t t' \<Longrightarrow> keeps S t t'"
proof (erule keeps_lift)
  fix t t' assume "new_leaf j t t'"
  then obtain k where t': "t' = RNode (info t) (kids t @ [(k, RNode j [])])" by (auto simp: new_leaf_def)
  have "spells t' n key vs" if "spells t n key vs" for n key vs
    using that
  proof (cases rule: spells.cases)
    case here
    then show ?thesis using spells.here [of key t'] by (simp add: t')
  qed (auto intro: spells.there simp: t')
  then show "keeps S t t'" by (simp add: keeps_def t')
qed

lemma keeps_split: "in_tree (split_kid new) t t' \<Longrightarrow> keeps S t t'"
proof (erule keeps_lift)
  fix t t' assume "split_kid new t t'"
  then obtain i as k c bs u low k' where d: "t = RNode i (as @ (k, c) # bs)"
    "t' = RNode i (as @ (k, RNode u [(k', RNode low (kids c))]) # bs)" and p: "split_parts new (info c) u low"
    by (auto simp: split_kid_def)
  obtain s where s: "s \<le> node_len (info c)" "ni_key u = key_upto s (ni_key (info c))" "ni_value u = take s (ni_value (info c))"
    "low = (info c)\<lparr>ni_key := key_from s (ni_key (info c)), ni_value := drop s (ni_value (info c))\<rparr>"
    using p by (auto simp: split_parts_def)
  have "spells t' n key vs" if "spells t n key vs" for n key vs
    using that
  proof (cases rule: spells.cases)
    case here
    then show ?thesis using spells.here [of key t'] by (simp add: d)
  next
    case (there k2 c2 rest vs2)
    show ?thesis
    proof (cases "(k2, c2) \<in> set (as @ bs)")
      case True
      then show ?thesis using there by (auto intro: spells.there simp: d)
    next
      case False
      then have c: "c2 = c" using there d by auto
      have "spells (RNode low (kids c)) n (key\<lparr>rk_tokens := rest\<rparr>) vs2"
        using spells_same_kids [of c n "key\<lparr>rk_tokens := rest\<rparr>" vs2 "RNode low (kids c)"] there c s(4) by simp
      then have "spells (RNode u [(k', RNode low (kids c))]) n (key\<lparr>rk_tokens := drop s (rk_tokens (ni_key (info c))) @ rest\<rparr>)
          (ni_value low @ vs2)"
        using spells.there [of k' "RNode low (kids c)" "RNode u [(k', RNode low (kids c))]" "key\<lparr>rk_tokens := drop s (rk_tokens (ni_key (info c))) @ rest\<rparr>" rest n vs2]
          there c s(4) by simp
      then have "spells t' n key (ni_value u @ ni_value low @ vs2)"
        using spells.there [of k "RNode u [(k', RNode low (kids c))]" t' key "drop s (rk_tokens (ni_key (info c))) @ rest" n "ni_value low @ vs2"]
          there c s(2) d(2) by simp
      moreover have "ni_value u @ ni_value low @ vs2 = vs" using there(1) c s(3,4) by (simp flip: append_assoc)
      ultimately show ?thesis by simp
    qed
  qed
  then show "keeps S t t'" by (simp add: keeps_def d)
qed

lemma keeps_cut: "in_tree (cut_leaf x) t t' \<Longrightarrow> \<not> S (ni_id (info x)) \<Longrightarrow> keeps S t t'"
proof (erule keeps_lift)
  fix t t' assume r: "cut_leaf x t t'" and ns: "\<not> S (ni_id (info x))"
  then obtain i as k bs where d: "t = RNode i (as @ (k, x) # bs)" "t' = RNode i (as @ bs)" "kids x = []"
    by (auto simp: cut_leaf_def)
  have "spells t' n key vs" if "S n" "spells t n key vs" for n key vs
    using that(2)
  proof (cases rule: spells.cases)
    case here
    then show ?thesis using spells.here [of key t'] by (simp add: d)
  next
    case (there k2 c2 rest vs2)
    have "c2 \<noteq> x"
    proof
      assume "c2 = x"
      with there(5) have "n = ni_id (info x)" by (cases rule: spells.cases) (auto simp: d(3))
      then show False using that(1) ns by simp
    qed
    then show ?thesis using there by (auto intro: spells.there simp: d)
  qed
  then show "keeps S t t'" by (simp add: keeps_def d)
qed

text \<open>What is spelled is looked up.\<close>

lemma spells_lookup:
  "spells t n key vs \<Longrightarrow> tree_ok page t \<Longrightarrow> key_ok page q \<Longrightarrow> prefix (rk_tokens key) (rk_tokens q) \<Longrightarrow> rk_extra key = rk_extra q \<Longrightarrow>
    prefix vs (lookup page t q) \<and> length vs = key_len key"
proof (induction arbitrary: q rule: spells.induct)
  case (there k c t key rest n vs)
  obtain i cs where t: "t = RNode i cs" by (cases t)
  have ok: "kid_ok page (k, c)" "tree_ok page c" "distinct (map fst cs)" using there.prems(1) there.hyps(1) by (auto simp: t tree_ok.simps)
  let ?ts = "rk_tokens (ni_key (info c))"
  have pg: "paged page ?ts" "?ts \<noteq> []" "k = get_child_key page (ni_key (info c))" "length (ni_value (info c)) = length ?ts"
    using ok(1) by (auto simp: kid_ok_def Let_def key_len_def)
  obtain zs where q: "rk_tokens q = ?ts @ rest @ zs" using there.prems(3) there.hyps(3) by (auto simp: prefix_def)
  have "page \<le> length ?ts" using paged_page pg by blast
  then have gk: "get_child_key page q = k" using there.hyps(2) there.prems(4) q pg(3) by (simp add: get_child_key_def)
  have km: "kid_match page c q = node_len (info c)"
    using page_prefix_prefix [of page ?ts "rk_tokens q"] there.prems(2) pg(1) q by (simp add: kid_match_def node_len_def key_len_def key_ok_def)
  have "page dvd node_len (info c)" using pg(1) by (simp add: paged_def node_len_def key_len_def)
  then have "prefix vs (lookup page c (key_from (node_len (info c)) q)) \<and> length vs = key_len (key\<lparr>rk_tokens := rest\<rparr>)"
    using there.IH [OF ok(2), of "key_from (node_len (info c)) q"] there.prems(2,4) q by (simp add: node_len_def key_len_def)
  moreover have "lookup page t q = ni_value (info c) @ lookup page c (key_from (node_len (info c)) q)"
    using gk pg km q there.hyps(1) ok(3) by (simp add: t lookup_eq kid_lookup_match node_len_def key_len_def)
  ultimately show ?case using there.hyps(3) pg(4) by (simp add: key_len_def)
qed (simp add: key_len_def)

section \<open>Growing trees\<close>

inductive grows :: "rnode \<times> nat \<times> int \<Rightarrow> rnode \<times> nat \<times> int \<Rightarrow> bool" where
  grow_touch: "in_tree touched t t' \<Longrightarrow> grows (t, n, v) (t', n, v)"
| grow_split: "in_tree (split_kid n) t t' \<Longrightarrow> grows (t, n, v) (t', Suc n, v)"
| grow_leaf: "in_tree (new_leaf j) t t' \<Longrightarrow> ni_id j = n \<Longrightarrow> ni_lock j = 0 \<Longrightarrow> grows (t, n, v) (t', Suc n, v + int (node_len j))"

lemma grows_kid: "grows (c, n, v) (c', n', v') \<Longrightarrow> grows (RNode i (as @ (k, c) # bs), n, v) (RNode i (as @ (k, c') # bs), n', v')"
  by (cases rule: grows.cases, assumption) (auto intro!: grows.intros in_tree.there)

lemma grows_kids:
  "grows\<^sup>*\<^sup>* (c, n, v) (c', n', v') \<Longrightarrow> grows\<^sup>*\<^sup>* (RNode i (as @ (k, c) # bs), n, v) (RNode i (as @ (k, c') # bs), n', v')"
proof (induction "(c', n', v')" arbitrary: c' n' v' rule: rtranclp_induct)
  case (step y)
  obtain d m w where y: "y = (d, m, w)" by (cases y)
  show ?case using step(3) [OF y] grows_kid step(2) unfolding y by (meson rtranclp.rtrancl_into_rtrancl)
qed simp

text \<open>The state of the tree: \<open>v\<close> is the evictable size.\<close>

definition tree_inv :: "nat multiset \<Rightarrow> rnode \<times> nat \<times> int \<Rightarrow> bool" where
  "tree_inv H s \<longleftrightarrow> (case s of (t, n, v) \<Rightarrow>
     ids_ok n t \<and> lock_ok H t \<and> set_mset H \<subseteq> set_mset (node_ids t) \<and> v = unlocked_len t)"

lemma ids_ok_add: "ids_ok n t \<Longrightarrow> node_ids t' = add_mset n (node_ids t) \<Longrightarrow> ids_ok (Suc n) t'"
  by (auto simp: ids_ok_def not_in_iff [symmetric] less_Suc_eq)

lemma grows_inv:
  assumes "grows s s'" "tree_inv H s"
  shows "tree_inv H s'" "locked_len (fst s') = locked_len (fst s)" "keeps S (fst s) (fst s')" "set_mset (node_ids (fst s)) \<subseteq> set_mset (node_ids (fst s'))"
proof -
  have fresh: "n \<notin># H" if "tree_inv H (t, n, v)" for t n v using that by (auto simp: tree_inv_def ids_ok_def)
  show "tree_inv H s'" "locked_len (fst s') = locked_len (fst s)" "keeps S (fst s) (fst s')" "set_mset (node_ids (fst s)) \<subseteq> set_mset (node_ids (fst s'))"
    using assms(1)
  proof (induction rule: grows.cases)
    case (grow_touch t t' n v)
    note u = touched_same [OF grow_touch(3)]
    {
      case 1 show ?case using assms(2) touched_lock [OF grow_touch(3), of H] u by (auto simp: grow_touch tree_inv_def ids_ok_def)
    next
      case 2 show ?case using u by (simp add: grow_touch)
    next
      case 3 show ?case using keeps_relabelled [OF touched_relabelled [OF grow_touch(3)]] by (simp add: grow_touch)
    next
      case 4 show ?case using u by (simp add: grow_touch)
    }
  next
    case (grow_split n t t' v)
    note u = split_same [OF grow_split(3)]
    {
      case 1 show ?case
        using assms(2) split_lock [OF grow_split(3), of H] u ids_ok_add [OF _ u(4)] fresh [of t n v] by (auto simp: grow_split tree_inv_def)
    next
      case 2 show ?case using u by (simp add: grow_split)
    next
      case 3 show ?case using keeps_split [OF grow_split(3)] by (simp add: grow_split)
    next
      case 4 show ?case using u by (auto simp: grow_split)
    }
  next
    case (grow_leaf j t t' n v)
    note u = leaf_same [OF grow_leaf(3,5)]
    {
      case 1 show ?case
        using assms(2) leaf_lock [OF grow_leaf(3), of H] u grow_leaf(4,5) ids_ok_add [of n t t'] fresh [of t n v] by (auto simp: grow_leaf(1,2) tree_inv_def)
    next
      case 2 show ?case using u by (simp add: grow_leaf)
    next
      case 3 show ?case using keeps_leaf [OF grow_leaf(3)] by (simp add: grow_leaf)
    next
      case 4 show ?case using u by (auto simp: grow_leaf)
    }
  qed
qed

lemma grows_star_inv:
  "grows\<^sup>*\<^sup>* s s' \<Longrightarrow> tree_inv H s \<Longrightarrow>
    tree_inv H s' \<and> locked_len (fst s') = locked_len (fst s) \<and> keeps S (fst s) (fst s') \<and> set_mset (node_ids (fst s)) \<subseteq> set_mset (node_ids (fst s'))"
proof (induction rule: rtranclp_induct)
  case (step y z)
  then show ?case using grows_inv [of y z H] keeps_trans [of S "fst s" "fst y" "fst z"] by (metis subset_trans)
qed simp

end
