(* ===== verification/RadixOps.thy ===== *)
theory RadixOps
  imports RadixInv
begin

text \<open>
  The operations on the tree keep its invariant: lookups and insertions are growing steps, and the node
  a lookup returns spells the cached prefix; locking and unlocking change the counts along one path, for
  both by the locale \<open>lock_change\<close>; eviction cuts unlocked leaves, in the order of the queue, until it
  has enough tokens or nothing may go.
\<close>

section \<open>Walks\<close>

lemma update_kid: "map_of cs k = Some c \<Longrightarrow> \<exists>as bs. cs = as @ (k, c) # bs \<and> (\<forall>c'. AList.update k c' cs = as @ (k, c') # bs)"
proof (induction cs)
  case (Cons kc cs)
  show ?case
  proof (cases "fst kc = k")
    case True
    then show ?thesis using Cons.prems by (intro exI [of _ "[]"] exI [of _ cs]) (auto simp: prod_eq_iff)
  next
    case False
    then obtain as bs where "cs = as @ (k, c) # bs" "\<forall>c'. AList.update k c' cs = as @ (k, c') # bs" using Cons by auto
    then show ?thesis using False by (intro exI [of _ "kc # as"] exI [of _ bs]) auto
  qed
qed simp

lemma update_new: "map_of cs k = None \<Longrightarrow> AList.update k c cs = cs @ [(k, c)]"
  by (induction cs) (auto split: if_splits)

abbreviation grows_env :: "rnode \<Rightarrow> tree_env \<Rightarrow> rnode \<Rightarrow> tree_env \<Rightarrow> bool" where
  "grows_env t e t' e' \<equiv> grows\<^sup>*\<^sup>* (t, te_next e, te_evictable e) (t', te_next e', te_evictable e') \<and> te_root e' = te_root e \<and>
     te_protected e' = te_protected e"

lemma grows_env_trans: "grows_env t e u f \<Longrightarrow> grows_env u f v g \<Longrightarrow> grows_env t e v g"
  by auto

lemma touch_grows: "grows\<^sup>*\<^sup>* (RNode i cs, n, v) (RNode (i\<lparr>ni_access := a\<rparr>) cs, n, v)"
  by (intro r_into_rtranclp grow_touch in_tree.here) (auto simp: touched_def touch_def)

lemma read_clock_env: "read_clock cf e = (now, e') \<Longrightarrow> te_next e' = te_next e \<and> te_evictable e' = te_evictable e \<and>
    te_root e' = te_root e \<and> te_protected e' = te_protected e"
  by (auto simp: read_clock_def)

lemma split_grows:
  assumes "split_node cf par (touch t c) s e = (upper, e')" "s \<le> node_len (info c)" "cs = as @ (k, c) # bs"
  shows "grows_env (RNode i cs) e (RNode i (as @ (k, upper) # bs)) e'"
proof -
  let ?ci = "info (touch t c)"
  let ?low = "?ci\<lparr>ni_key := key_from s (ni_key ?ci), ni_value := drop s (ni_value ?ci)\<rparr>"
  from split_node_shape [OF assms(1)] obtain u where u: "upper = RNode u [(get_child_key (cf_page cf) (key_from s (ni_key ?ci)), RNode ?low (kids (touch t c)))]"
    "ni_id u = te_next e" "ni_key u = key_upto s (ni_key ?ci)" "ni_value u = take s (ni_value ?ci)" "ni_lock u = ni_lock ?ci"
    and e: "te_next e' = Suc (te_next e)" "te_root e' = te_root e" "te_evictable e' = te_evictable e" "te_protected e' = te_protected e"
    by auto
  have p: "split_parts (te_next e) ?ci u ?low"
    unfolding split_parts_def using u(2-5) assms(2) by (intro exI [of _ s]) (simp add: touch_def)
  have "in_tree touched (RNode i cs) (RNode i (as @ (k, touch t c) # bs))"
    unfolding assms(3) by (intro in_tree.there in_tree.here) (auto simp: touched_def)
  then have "grows (RNode i cs, te_next e, te_evictable e) (RNode i (as @ (k, touch t c) # bs), te_next e, te_evictable e)" by (rule grow_touch)
  moreover have "split_kid (te_next e) (RNode i (as @ (k, touch t c) # bs)) (RNode i (as @ (k, upper) # bs))"
    using u(1) p unfolding split_kid_def by blast
  then have "grows (RNode i (as @ (k, touch t c) # bs), te_next e, te_evictable e) (RNode i (as @ (k, upper) # bs), Suc (te_next e), te_evictable e)"
    by (intro grow_split in_tree.here)
  ultimately show ?thesis using e by (simp add: converse_rtranclp_into_rtranclp)
qed

lemma leaf_grows:
  assumes "add_leaf cf node key val e = (t, e')" "map_of (kids node) (get_child_key (cf_page cf) key) = None"
  shows "grows_env node e t e'"
proof -
  from add_leaf_shape [OF assms(1)] obtain j where t: "t = RNode (info node) (kids node @ [(get_child_key (cf_page cf) key, RNode j [])])"
    and j: "ni_id j = te_next e" "ni_lock j = 0" "ni_key j = key" and e: "te_next e' = Suc (te_next e)" "te_root e' = te_root e"
    "te_evictable e' = te_evictable e + int (key_len key)" "te_protected e' = te_protected e"
    using update_new [OF assms(2)] by auto
  have "in_tree (new_leaf j) node t" by (intro in_tree.here) (auto simp: new_leaf_def t)
  from grow_leaf [OF this j(1,2), of "te_evictable e"] show ?thesis using e j(3) by (simp add: node_len_def)
qed

lemma match_grows:
  "tree_ok page t \<Longrightarrow> key_ok page key \<Longrightarrow> cf_page cf = page \<Longrightarrow> match_prefix_helper cf t key e = Inr (t', vs, last_node, e') \<Longrightarrow>
    grows_env t e t' e' \<and> ni_id (info t') = ni_id (info t) \<and>
    spells t' last_node (key_upto (length (lookup page t key)) key) (lookup page t key)"
proof (induction t arbitrary: key e t' vs e' rule: rnode_walk_induct)
  case (1 i cs key e t' vs e')
  obtain now e1 where rc: "read_clock cf e = (now, e1)" by fastforce
  note e1 = read_clock_env [OF rc]
  let ?i = "i\<lparr>ni_access := now\<rparr>" and ?k = "get_child_key page key"
  note tg = touch_grows [of i cs "te_next e" "te_evictable e" now]
  show ?case
  proof (cases "rk_tokens key = [] \<or> map_of cs ?k = None")
    case True
    then have t': "t' = RNode ?i cs" "e' = e1" "last_node = ni_id i" using 1(4,5) by (auto simp: rc Let_def split: if_splits)
    have "lookup page (RNode i cs) key = []" using True by (auto simp: lookup_eq)
    moreover have "spells t' last_node (key_upto 0 key) []" using spells.here [of "key_upto 0 key" t'] t' by simp
    ultimately show ?thesis using tg e1 t' by simp
  next
    case False
    then obtain c where ne: "rk_tokens key \<noteq> []" and c: "map_of cs ?k = Some c" by auto
    note f = found_kid [OF 1(2) c 1(3) ne]
    let ?m = "kid_match page c key"
    have gck: "get_child_key page (ni_key (info c)) = ?k" using f(2) by (simp add: kid_ok_def Let_def)
    have lv: "length (ni_value (info c)) = node_len (info c)" using f(2) by (simp add: kid_ok_def Let_def node_len_def)
    have ex: "rk_extra (ni_key (info c)) = rk_extra key" using gck by (simp add: get_child_key_def)
    have share: "take ?m (rk_tokens (ni_key (info c))) = take ?m (rk_tokens key)" by (simp add: kid_match_def page_prefix_take)
    obtain as bs where ab: "cs = as @ (?k, c) # bs" "\<And>c'. AList.update ?k c' cs = as @ (?k, c') # bs" using update_kid [OF c] by blast
    show ?thesis
    proof (cases "?m < node_len (info c)")
      case True
      obtain t e2 where rc2: "read_clock cf e1 = (t, e2)" by fastforce
      obtain upper e3 where sp: "split_node cf ?i (touch t c) ?m e2 = (upper, e3)" by fastforce
      have r: "t' = RNode ?i (as @ (?k, upper) # bs)" "last_node = ni_id (info upper)" "e' = e3"
        using 1(4,5) ne c f(1) True ab(2) by (auto simp: rc rc2 sp gck Let_def)
      have sg: "grows_env (RNode ?i cs) e2 t' e3" using split_grows [OF sp f(6) ab(1)] r by simp
      have lk: "lookup page (RNode i cs) key = take ?m (ni_value (info c))" using ne c True by (simp add: lookup_eq kid_lookup_match)
      have up: "ni_key (info upper) = key_upto ?m (ni_key (info c))" "ni_value (info upper) = take ?m (ni_value (info c))"
        using split_node_shape [OF sp] by (auto simp: touch_def)
      have "spells upper (ni_id (info upper)) ((key_upto ?m key)\<lparr>rk_tokens := []\<rparr>) []" by (rule spells.here) simp
      then have "spells upper last_node ((key_upto ?m key)\<lparr>rk_tokens := []\<rparr>) []" by (simp only: r(2))
      moreover have "(?k, upper) \<in> set (kids t')" using r by simp
      ultimately have "spells t' last_node (key_upto ?m key) (ni_value (info upper) @ [])"
        by (intro spells.there [of ?k upper t' "key_upto ?m key" "[]" last_node "[]"]) (use up share ex in simp_all)
      then show ?thesis using tg e1 read_clock_env [OF rc2] sg r True lv by (simp add: lk up min_def) (metis rtranclp_trans)
    next
      case deep: False
      then have m: "?m = node_len (info c)" using f(6) by simp
      obtain c' vs' where IH: "match_prefix_helper cf c (key_from ?m key) e1 = Inr (c', vs', last_node, e')"
        and r: "t' = RNode ?i (as @ (?k, c') # bs)"
        using 1(4,5) ne c f(1) deep ab(2) by (auto simp: rc rbind_Inr_iff Let_def)
      note IH' = 1(1) [OF c f(3) key_ok_from [OF 1(3) f(5)] 1(4) IH]
      obtain c2 where mc: "match_prefix_helper cf c (key_from ?m key) e1 = Inr c2" "ni_key (info (fst c2)) = ni_key (info c)"
        "ni_value (info (fst c2)) = ni_value (info c)"
        using match_prefix_helper_correct [OF f(3) key_ok_from [OF 1(3) f(5)] 1(4)] by (metis fst_conv)
      then have same: "ni_key (info c') = ni_key (info c)" "ni_value (info c') = ni_value (info c)" using IH by auto
      let ?l = "lookup page c (key_from ?m key)"
      have lk: "lookup page (RNode i cs) key = ni_value (info c) @ ?l" using ne c deep lv m by (simp add: lookup_eq kid_lookup_match)
      have tk: "take (?m + length ?l) (rk_tokens key) = rk_tokens (ni_key (info c')) @ take (length ?l) (drop ?m (rk_tokens key))"
        using share m same(1) by (simp add: take_add node_len_def key_len_def)
      have "(?k, c') \<in> set (kids t')" using r by simp
      then have "spells t' last_node (key_upto (?m + length ?l) key) (ni_value (info c') @ ?l)"
        using IH' tk same ex spells.there [of ?k c' t' "key_upto (?m + length ?l) key" "take (length ?l) (drop ?m (rk_tokens key))" last_node ?l]
        by (simp add: key_upto_def key_from_def)
      moreover have "grows\<^sup>*\<^sup>* (RNode ?i cs, te_next e1, te_evictable e1) (t', te_next e', te_evictable e')"
        unfolding r ab(1) using IH' by (intro grows_kids) simp
      ultimately show ?thesis using tg e1 IH' r lk m lv same by (simp add: rtranclp_trans [OF tg])
    qed
  qed
qed

lemma insert_grows:
  "tree_ok page t \<Longrightarrow> key_ok page key \<Longrightarrow> cf_page cf = page \<Longrightarrow> insert_helper cf t key val e = Inr (t', n, e') \<Longrightarrow>
    grows_env t e t' e' \<and> ni_id (info t') = ni_id (info t)"
proof (induction t arbitrary: key val e t' n e' rule: rnode_walk_induct)
  case (1 i cs key val e t' n e')
  obtain now e1 where rc: "read_clock cf e = (now, e1)" by fastforce
  note e1 = read_clock_env [OF rc]
  let ?i = "i\<lparr>ni_access := now\<rparr>" and ?k = "get_child_key page key"
  note tg = touch_grows [of i cs "te_next e" "te_evictable e" now]
  show ?case
  proof (cases "rk_tokens key = []")
    case True
    then show ?thesis using 1(4,5) tg e1 by (auto simp: rc)
  next
    case ne: False
    show ?thesis
    proof (cases "map_of cs ?k")
      case None
      obtain t e2 where al: "add_leaf cf (RNode ?i cs) key val e1 = (t, e2)" by fastforce
      have "t' = t" "e' = e2" using 1(4,5) ne None by (auto simp: rc al Let_def)
      moreover have "grows_env (RNode ?i cs) e1 t e2" using leaf_grows [OF al] None 1(4) by simp
      moreover have "ni_id (info t) = ni_id i" using add_leaf_shape [OF al] by auto
      ultimately show ?thesis using e1 by (simp add: rtranclp_trans [OF tg])
    next
      case c: (Some c)
      note f = found_kid [OF 1(2) c 1(3) ne]
      let ?m = "kid_match page c key"
      have gck: "get_child_key page (ni_key (info c)) = ?k" using f(2) by (simp add: kid_ok_def Let_def)
      obtain as bs where ab: "cs = as @ (?k, c) # bs" "\<And>c'. AList.update ?k c' cs = as @ (?k, c') # bs" using update_kid [OF c] by blast
      show ?thesis
      proof (cases "?m < node_len (info c)")
        case True
        obtain t e2 where rc2: "read_clock cf e1 = (t, e2)" by fastforce
        obtain upper e3 where sp: "split_node cf ?i (touch t c) ?m e2 = (upper, e3)" by fastforce
        let ?key = "key_from ?m key" and ?val = "drop ?m val"
        obtain upper' e4 where up: "(if rk_tokens ?key = [] then (upper, e3) else add_leaf cf upper ?key ?val e3) = (upper', e4)" by fastforce
        have r: "t' = RNode ?i (as @ (?k, upper') # bs)" "e' = e4"
          using 1(4,5) ne c f(1) True
          by (simp_all only: insert_helper.simps rc Let_def case_prod_conv option.case rbind_simps gck rc2 sp up if_True if_False ab(2) sum.inject prod.inject)
        have stop: "map_of (kids upper) (get_child_key page ?key) = None" if "rk_tokens ?key \<noteq> []"
        proof -
          have "0 < page" using 1(3) by (simp add: key_ok_def)
          from page_prefix_stop [OF this, of "rk_tokens (ni_key (info c))" "rk_tokens key"] that True
          show ?thesis using split_node_shape [OF sp] 1(4) by (auto simp: kid_match_def node_len_def key_len_def get_child_key_def touch_def)
        qed
        have "grows_env upper e3 upper' e4"
          using up leaf_grows [of cf upper ?key ?val e3 upper' e4] stop 1(4) by (auto split: if_splits)
        then have "grows_env (RNode ?i (as @ (?k, upper) # bs)) e3 t' e4" unfolding r using grows_kids by simp
        moreover have "grows_env (RNode ?i cs) e2 (RNode ?i (as @ (?k, upper) # bs)) e3" by (rule split_grows [OF sp f(6) ab(1)])
        ultimately have "grows_env (RNode ?i cs) e2 t' e4" by (meson grows_env_trans)
        then show ?thesis using e1 read_clock_env [OF rc2] r by (simp add: rtranclp_trans [OF tg])
      next
        case deep: False
        obtain c' n' where IH: "insert_helper cf c (key_from ?m key) (drop ?m val) e1 = Inr (c', n', e')"
          and r: "t' = RNode ?i (as @ (?k, c') # bs)"
          using 1(4,5) ne c f(1) deep ab(2) by (auto simp: rc rbind_Inr_iff Let_def)
        note IH' = 1(1) [OF c f(3) key_ok_from [OF 1(3) f(5)] 1(4) IH]
        have "grows\<^sup>*\<^sup>* (RNode ?i cs, te_next e1, te_evictable e1) (t', te_next e', te_evictable e')"
          unfolding r ab(1) using IH' by (intro grows_kids) simp
        then show ?thesis using e1 IH' r by (simp add: rtranclp_trans [OF tg])
      qed
    qed
  qed
qed

end
