(* ===== verification/RadixLocks.thy ===== *)
theory RadixLocks
  imports RadixOps
begin

text \<open>
  Locking and unlocking a node: the counts on the path change, the sizes move between evictable and
  protected, and nothing else of the tree. One proof for both, in the locale \<open>lock_change\<close>.
\<close>

section \<open>Induction over a tree and its children\<close>

lemma rnode_kid_induct:
  assumes "\<And>i cs. (\<And>kc. kc \<in> set cs \<Longrightarrow> P (snd kc)) \<Longrightarrow> P (RNode i cs)"
  shows "P t"
proof (induction t rule: measure_induct_rule [of node_count])
  case (less t)
  obtain i cs where t: "t = RNode i cs" by (cases t)
  have "node_count (snd kc) < node_count t" if "kc \<in> set cs" for kc
    using that member_le_sum_list [of "node_count (snd kc)" "map (\<lambda>kc. node_count (snd kc)) cs"] by (simp add: t)
  then show ?case unfolding t by (intro assms) (auto intro: less simp: t)
qed

lemma rnode_list_induct [case_names Node Nil Cons]:
  assumes node: "\<And>i cs. Q cs \<Longrightarrow> P (RNode i cs)" and nil: "Q []" and cons: "\<And>k c cs. P c \<Longrightarrow> Q cs \<Longrightarrow> Q ((k, c) # cs)"
  shows "P t" and "Q cs"
proof -
  have all: "P t" for t
  proof (induction t rule: rnode_kid_induct)
    case (1 i cs)
    have "Q ds" if "set ds \<subseteq> set cs" for ds
      using that
    proof (induction ds)
      case (Cons kc ds)
      then show ?case using cons [of "snd kc" ds "fst kc"] 1 [of kc] by simp
    qed (rule nil)
    then show ?case by (intro node) simp
  qed
  then show "P t" .
  show "Q cs" by (induction cs) (auto intro: nil cons all)
qed

section \<open>Trees that differ in locks and times only\<close>

inductive alike :: "rnode \<Rightarrow> rnode \<Rightarrow> bool" where
  "ni_id j = ni_id i \<Longrightarrow> ni_key j = ni_key i \<Longrightarrow> ni_value j = ni_value i \<Longrightarrow>
    list_all2 (\<lambda>x y. fst x = fst y \<and> alike (snd x) (snd y)) cs ds \<Longrightarrow> alike (RNode i cs) (RNode j ds)"

lemma alike_refl [simp]: "alike t t"
proof (induction t rule: rnode_kid_induct)
  case (1 i cs)
  have "alike (snd (cs ! m)) (snd (cs ! m))" if "m < length cs" for m using 1 that nth_mem by blast
  then show ?case by (intro alike.intros) (simp_all add: list_all2_conv_all_nth)
qed

lemma alike_info: "alike t t' \<Longrightarrow> ni_id (info t') = ni_id (info t) \<and> ni_key (info t') = ni_key (info t) \<and> ni_value (info t') = ni_value (info t)"
  by (cases rule: alike.cases) auto

lemma alike_kids: "list_all2 (\<lambda>x y. fst x = fst y \<and> P (snd x) (snd y)) cs ds \<Longrightarrow> map fst ds = map fst cs \<and> rel_option P (map_of cs k) (map_of ds k)"
  by (induction rule: list_all2_induct) auto

lemma alike_tree_ok: "alike t t' \<Longrightarrow> tree_ok page t \<Longrightarrow> tree_ok page t'"
proof (induction rule: alike.induct)
  case (1 j i cs ds)
  have "kid_ok page y \<and> tree_ok page (snd y)" if y: "y \<in> set ds" for y
  proof -
    obtain m where m: "m < length ds" "y = ds ! m" using y by (metis in_set_conv_nth)
    define x where "x = cs ! m"
    have x: "x \<in> set cs" "fst x = fst y" "alike (snd x) (snd y)" "tree_ok page (snd x) \<longrightarrow> tree_ok page (snd y)"
      using list_all2_nthD2 [OF 1(4) m(1)] list_all2_lengthD [OF 1(4)] m by (simp_all add: x_def)
    have "kid_ok page x" "tree_ok page (snd x)" using 1(5) x(1) by (auto simp: tree_ok.simps)
    then show ?thesis using x(2,4) alike_info [OF x(3)] by (simp add: kid_ok_def Let_def)
  qed
  moreover have "map fst ds = map fst cs" using 1(4) alike_kids [of "\<lambda>a b. alike a b \<and> (tree_ok page a \<longrightarrow> tree_ok page b)" cs ds] by simp
  ultimately show ?case using 1(5) by (simp add: tree_ok.simps)
qed

lemma alike_keeps: "alike t t' \<Longrightarrow> keeps S t t'"
proof -
  have "spells t n key vs \<Longrightarrow> alike t t' \<Longrightarrow> spells t' n key vs" for n key vs
  proof (induction arbitrary: t' rule: spells.induct)
    case (here key t)
    then show ?case using spells.here [of key t'] alike_info by metis
  next
    case (there k c t key rest n vs)
    obtain i cs j ds where t: "t = RNode i cs" "t' = RNode j ds" and
      l: "list_all2 (\<lambda>x y. fst x = fst y \<and> alike (snd x) (snd y)) cs ds" using there.prems by (cases rule: alike.cases) auto
    obtain c' where c': "(k, c') \<in> set ds" "alike c c'"
      using l there.hyps(1) unfolding t(1) by (auto simp: list_all2_conv_all_nth in_set_conv_nth) (metis eq_fst_iff snd_conv)
    then show ?case
      using spells.there [of k c' t' key rest n vs] there alike_info [OF c'(2)] t by simp
  qed
  then show "alike t t' \<Longrightarrow> keeps S t t'" using alike_info by (simp add: keeps_def)
qed

lemma alike_lookup: "alike t t' \<Longrightarrow> lookup page t' q = lookup page t q"
proof (induction arbitrary: q rule: alike.induct)
  case (1 j i cs ds)
  have "rel_option (\<lambda>a b. alike a b \<and> (\<forall>q. lookup page b q = lookup page a q)) (map_of cs k) (map_of ds k)" for k
    using 1(4) alike_kids [of "\<lambda>a b. alike a b \<and> (\<forall>q. lookup page b q = lookup page a q)" cs ds k] by (simp add: conj_assoc)
  then have "rel_option (\<lambda>a b. kid_lookup page b q = kid_lookup page a q) (map_of cs (get_child_key page q)) (map_of ds (get_child_key page q))"
    by (rule option.rel_mono_strong) (use alike_info in \<open>auto simp: kid_lookup_def node_len_def Let_def\<close>)
  then show ?case by (cases "map_of cs (get_child_key page q)"; cases "map_of ds (get_child_key page q)") (auto simp: lookup_eq)
qed

section \<open>Sums over the children\<close>

lemma node_ids_RNode: "node_ids (RNode i cs) = add_mset (ni_id i) (sum_list (map (\<lambda>kc. node_ids (snd kc)) cs))"
proof -
  have "image_mset f (sum_list (map g cs)) = sum_list (map (\<lambda>x. image_mset f (g x)) cs)" for f :: "node_info \<Rightarrow> nat" and g :: "child_key \<times> rnode \<Rightarrow> node_info multiset"
    by (induction cs) auto
  then show ?thesis by (simp add: node_ids_def)
qed

lemma len_RNode:
  "unlocked_len (RNode i cs) = (if ni_lock i = 0 then int (node_len i) else 0) + sum_list (map (\<lambda>kc. unlocked_len (snd kc)) cs)"
  "locked_len (RNode i cs) = (if ni_lock i = 0 then 0 else int (node_len i)) + sum_list (map (\<lambda>kc. locked_len (snd kc)) cs)"
proof -
  have "(\<Sum>i \<in># sum_list (map g cs). f i) = sum_list (map (\<lambda>x. \<Sum>i \<in># g x. f i) cs)" for f :: "node_info \<Rightarrow> int" and g :: "child_key \<times> rnode \<Rightarrow> node_info multiset"
    by (induction cs) auto
  then show "unlocked_len (RNode i cs) = (if ni_lock i = 0 then int (node_len i) else 0) + sum_list (map (\<lambda>kc. unlocked_len (snd kc)) cs)"
    "locked_len (RNode i cs) = (if ni_lock i = 0 then 0 else int (node_len i)) + sum_list (map (\<lambda>kc. locked_len (snd kc)) cs)"
    by (simp_all add: unlocked_len_def locked_len_def)
qed

definition once :: "nat multiset \<Rightarrow> bool" where
  "once M \<longleftrightarrow> (\<forall>x. count M x \<le> 1)"

lemma once_add [simp]: "once (add_mset x M) \<longleftrightarrow> x \<notin># M \<and> once M"
proof
  assume o: "once (add_mset x M)"
  have "count M y \<le> count (add_mset x M) y" "count (add_mset x M) y \<le> 1" for y using o by (simp_all add: once_def)
  then have "once M" unfolding once_def by (meson le_trans)
  moreover have "count (add_mset x M) x \<le> 1" using o unfolding once_def by blast
  then have "x \<notin># M" by (simp add: not_in_iff)
  ultimately show "x \<notin># M \<and> once M" by blast
qed (auto simp: once_def not_in_iff)

lemma once_union: "once (M + N) \<Longrightarrow> once M \<and> once N \<and> set_mset M \<inter> set_mset N = {}"
proof -
  assume o: "once (M + N)"
  have c: "count M x + count N x \<le> 1" for x using o by (simp add: once_def)
  have "count M x \<le> 1" "count N x \<le> 1" for x using c [of x] by linarith+
  moreover have False if "x \<in># M" "x \<in># N" for x
  proof -
    have "0 < count M x" "0 < count N x" using that by simp_all
    then show False using c [of x] by linarith
  qed
  ultimately show ?thesis by (auto simp: once_def)
qed

definition lock_all :: "nat multiset \<Rightarrow> rnode \<Rightarrow> bool" where
  "lock_all H c \<longleftrightarrow> ni_lock (info c) = int (holders H c) \<and> lock_ok H c"

lemma lock_ok_all: "lock_ok H (RNode i cs) \<longleftrightarrow> (\<forall>kc \<in> set cs. lock_all H (snd kc))"
  by (simp add: lock_ok.simps lock_all_def)

section \<open>Both directions at once\<close>

locale lock_change =
  fixes f :: "node_info \<Rightarrow> node_info \<times> int" and n :: nat and H H' :: "nat multiset" and d :: int
  assumes same: "ni_id (fst (f i)) = ni_id i" "ni_key (fst (f i)) = ni_key i" "ni_value (fst (f i)) = ni_value i"
    and lock: "ni_lock (fst (f i)) = ni_lock i + d"
    and moved: "0 \<le> ni_lock i \<Longrightarrow> 0 \<le> ni_lock i + d \<Longrightarrow>
      (if ni_lock i + d = 0 then int (node_len i) else 0) = (if ni_lock i = 0 then int (node_len i) else 0) + snd (f i)"
    and held: "int (size (filter_mset P H')) = int (size (filter_mset P H)) + (if P n then d else 0)"
begin

lemma holders_change: "int (holders H' c) = int (holders H c) + (if n \<in># node_ids c then d else 0)"
  unfolding holders_def by (rule held)

lemma other: "n \<notin># node_ids c \<Longrightarrow> lock_all H c \<Longrightarrow> lock_all H' c"
proof (induction c rule: rnode_kid_induct)
  case (1 i cs)
  have "lock_all H' (snd kc)" if kc: "kc \<in> set cs" for kc
  proof (rule 1(1) [OF kc])
    have "(fst kc, snd kc) \<in> set (kids (RNode i cs))" using kc by simp
    then show "n \<notin># node_ids (snd kc)" using 1(2) mset_subset_eqD [OF kid_ids] by blast
    show "lock_all H (snd kc)" using 1(3) kc by (auto simp: lock_all_def lock_ok.simps)
  qed
  moreover have "ni_lock i = int (holders H' (RNode i cs))" using 1(2,3) holders_change [of "RNode i cs"] by (simp add: lock_all_def)
  ultimately show ?case by (auto simp: lock_all_def lock_ok_all)
qed

lemma others: "n \<notin># sum_list (map (\<lambda>kc. node_ids (snd kc)) cs) \<Longrightarrow> \<forall>kc \<in> set cs. lock_all H (snd kc) \<Longrightarrow> \<forall>kc \<in> set cs. lock_all H' (snd kc)"
  by (induction cs) (auto intro: other)

text \<open>The top node of a changed subtree.\<close>

lemma top:
  assumes "lock_all H (RNode i cs)" "n \<in># node_ids (RNode i cs)" "node_ids (RNode (fst (f i)) cs') = node_ids (RNode i cs)"
    and "\<forall>kc \<in> set cs'. lock_all H' (snd kc)"
  shows "lock_all H' (RNode (fst (f i)) cs')" "0 \<le> ni_lock i" "0 \<le> ni_lock i + d"
proof -
  have h: "holders H' (RNode (fst (f i)) cs') = holders H' (RNode i cs)" by (rule holders_same) (rule assms(3))
  have l: "ni_lock i = int (holders H (RNode i cs))" using assms(1) by (simp add: lock_all_def)
  have e: "int (holders H' (RNode i cs)) = ni_lock i + d" using holders_change [of "RNode i cs"] assms(2) l by simp
  show "lock_all H' (RNode (fst (f i)) cs')" using assms(4) by (simp add: lock_all_def lock_ok_all lock h e)
  show "0 \<le> ni_lock i" "0 \<le> ni_lock i + d" using l e by simp_all
qed

lemma top_len:
  assumes "0 \<le> ni_lock i" "0 \<le> ni_lock i + d"
    and "sum_list (map (\<lambda>kc. unlocked_len (snd kc)) cs') = sum_list (map (\<lambda>kc. unlocked_len (snd kc)) cs) + x"
    and "sum_list (map (\<lambda>kc. locked_len (snd kc)) cs') = sum_list (map (\<lambda>kc. locked_len (snd kc)) cs) - x"
  shows "unlocked_len (RNode (fst (f i)) cs') = unlocked_len (RNode i cs) + (snd (f i) + x)"
    "locked_len (RNode (fst (f i)) cs') = locked_len (RNode i cs) - (snd (f i) + x)"
proof -
  have "node_len (fst (f i)) = node_len i" by (simp add: node_len_def same)
  then show "unlocked_len (RNode (fst (f i)) cs') = unlocked_len (RNode i cs) + (snd (f i) + x)"
    "locked_len (RNode (fst (f i)) cs') = locked_len (RNode i cs) - (snd (f i) + x)"
    using moved [OF assms(1,2)] assms(3,4) by (auto simp: len_RNode lock split: if_splits)
qed

lemma path_correct:
  "lock_path f n t = Some (t', x) \<Longrightarrow> lock_all H t \<Longrightarrow> once (node_ids t) \<Longrightarrow>
    lock_all H' t' \<and> node_ids t' = node_ids t \<and> unlocked_len t' = unlocked_len t + x \<and> locked_len t' = locked_len t - x \<and>
    n \<in># node_ids t \<and> alike t t'"
  "lock_kids f n cs = Some (cs', x) \<Longrightarrow> \<forall>kc \<in> set cs. lock_all H (snd kc) \<Longrightarrow> once (sum_list (map (\<lambda>kc. node_ids (snd kc)) cs)) \<Longrightarrow>
    (\<forall>kc \<in> set cs'. lock_all H' (snd kc)) \<and> sum_list (map (\<lambda>kc. node_ids (snd kc)) cs') = sum_list (map (\<lambda>kc. node_ids (snd kc)) cs) \<and>
    sum_list (map (\<lambda>kc. unlocked_len (snd kc)) cs') = sum_list (map (\<lambda>kc. unlocked_len (snd kc)) cs) + x \<and>
    sum_list (map (\<lambda>kc. locked_len (snd kc)) cs') = sum_list (map (\<lambda>kc. locked_len (snd kc)) cs) - x \<and>
    n \<in># sum_list (map (\<lambda>kc. node_ids (snd kc)) cs) \<and> list_all2 (\<lambda>a b. fst a = fst b \<and> alike (snd a) (snd b)) cs cs'"
proof (induction t and cs arbitrary: t' x and cs' x rule: rnode_list_induct)
  case (Node i cs)
  note 1 = Node
  show ?case
  proof (cases "ni_id i = n")
    case True
    then have t': "t' = RNode (fst (f i)) cs" "x = snd (f i)" using 1(2) by (auto simp: Let_def split: prod.splits)
    have nin: "n \<notin># sum_list (map (\<lambda>kc. node_ids (snd kc)) cs)" using 1(4) True by (simp add: node_ids_RNode)
    have k: "\<forall>kc \<in> set cs. lock_all H' (snd kc)" using others [OF nin] 1(3) by (simp add: lock_all_def lock_ok_all)
    have ids: "node_ids (RNode (fst (f i)) cs) = node_ids (RNode i cs)" by (simp add: node_ids_RNode same)
    have n: "n \<in># node_ids (RNode i cs)" using True by (simp add: node_ids_RNode)
    note tp = top [OF 1(3) n ids k]
    have "alike (RNode i cs) (RNode (fst (f i)) cs)"
      by (rule alike.intros) (auto simp: same list_all2_conv_all_nth)
    then show ?thesis using tp(1) ids n top_len [OF tp(2,3), of cs cs 0] by (simp add: t')
  next
    case False
    then obtain cs' y where r: "lock_kids f n cs = Some (cs', y)" "t' = RNode (fst (f i)) cs'" "x = snd (f i) + y"
      using 1(2) by (auto simp: Let_def split: prod.splits option.splits)
    have IH: "(\<forall>kc \<in> set cs'. lock_all H' (snd kc)) \<and> sum_list (map (\<lambda>kc. node_ids (snd kc)) cs') = sum_list (map (\<lambda>kc. node_ids (snd kc)) cs) \<and>
      sum_list (map (\<lambda>kc. unlocked_len (snd kc)) cs') = sum_list (map (\<lambda>kc. unlocked_len (snd kc)) cs) + y \<and>
      sum_list (map (\<lambda>kc. locked_len (snd kc)) cs') = sum_list (map (\<lambda>kc. locked_len (snd kc)) cs) - y \<and>
      n \<in># sum_list (map (\<lambda>kc. node_ids (snd kc)) cs) \<and> list_all2 (\<lambda>a b. fst a = fst b \<and> alike (snd a) (snd b)) cs cs'"
      using 1(1) [OF r(1)] 1(3,4) by (simp add: lock_all_def lock_ok_all node_ids_RNode)
    have ids: "node_ids (RNode (fst (f i)) cs') = node_ids (RNode i cs)" using IH by (simp add: node_ids_RNode same)
    have n: "n \<in># node_ids (RNode i cs)" using IH by (simp add: node_ids_RNode)
    have k: "\<forall>kc \<in> set cs'. lock_all H' (snd kc)" using IH by blast
    note tp = top [OF 1(3) n ids k]
    have "alike (RNode i cs) (RNode (fst (f i)) cs')" using IH by (intro alike.intros) (auto simp: same)
    then show ?thesis using tp(1) ids n top_len [OF tp(2,3), of cs' cs y] IH by (simp add: r(2,3))
  qed
next
  case (Cons k c cs)
  note 3 = Cons
  have "once (node_ids c + sum_list (map (\<lambda>kc. node_ids (snd kc)) cs))" using 3(5) by simp
  from once_union [OF this] have o: "once (node_ids c)" "once (sum_list (map (\<lambda>kc. node_ids (snd kc)) cs))"
    "set_mset (node_ids c) \<inter> set_mset (sum_list (map (\<lambda>kc. node_ids (snd kc)) cs)) = {}"
    by blast+
  show ?case
  proof (cases "lock_path f n c")
    case (Some r)
    then obtain c' y where r: "lock_path f n c = Some (c', y)" by (cases r) auto
    then have cs': "cs' = (k, c') # cs" "x = y" using 3(3) by auto
    have IH: "lock_all H' c' \<and> node_ids c' = node_ids c \<and> unlocked_len c' = unlocked_len c + y \<and> locked_len c' = locked_len c - y \<and>
      n \<in># node_ids c \<and> alike c c'" using 3(1) [OF r] 3(4) o by simp
    then have nin: "n \<notin># sum_list (map (\<lambda>kc. node_ids (snd kc)) cs)" using o(3) by blast
    have "\<forall>kc \<in> set cs. lock_all H (snd kc)" using 3(4) by simp
    from others [OF nin this] have "\<forall>kc \<in> set cs. lock_all H' (snd kc)" .
    then show ?thesis using IH by (simp add: cs' list.rel_refl_strong)
  next
    case None
    then obtain ds y where r: "lock_kids f n cs = Some (ds, y)" "cs' = (k, c) # ds" "x = y" using 3(3) by (auto split: option.splits)
    have IH: "(\<forall>kc \<in> set ds. lock_all H' (snd kc)) \<and> sum_list (map (\<lambda>kc. node_ids (snd kc)) ds) = sum_list (map (\<lambda>kc. node_ids (snd kc)) cs) \<and>
      sum_list (map (\<lambda>kc. unlocked_len (snd kc)) ds) = sum_list (map (\<lambda>kc. unlocked_len (snd kc)) cs) + y \<and>
      sum_list (map (\<lambda>kc. locked_len (snd kc)) ds) = sum_list (map (\<lambda>kc. locked_len (snd kc)) cs) - y \<and>
      n \<in># sum_list (map (\<lambda>kc. node_ids (snd kc)) cs) \<and> list_all2 (\<lambda>a b. fst a = fst b \<and> alike (snd a) (snd b)) cs ds"
      using 3(2) [OF r(1)] 3(4) o by simp
    then have "n \<notin># node_ids c" using o(3) by blast
    then have "lock_all H' c" using other 3(4) by simp
    then show ?thesis using IH by (simp add: r)
  qed
qed simp

end

interpretation inc_lock: lock_change inc_node n H "add_mset n H" 1 for n H
  by unfold_locales (auto simp: inc_node_def)

interpretation dec_lock: lock_change dec_node n "add_mset n H" H "- 1" for n H
  by unfold_locales (auto simp: dec_node_def)

text \<open>The change reaches every node of the tree.\<close>

lemma lock_reaches:
  "n \<in># node_ids t \<Longrightarrow> lock_path f n t \<noteq> None"
  "n \<in># sum_list (map (\<lambda>kc. node_ids (snd kc)) cs) \<Longrightarrow> lock_kids f n cs \<noteq> None"
proof (induction f n t and f n cs rule: lock_path_lock_kids.induct)
  case (1 f n i cs)
  obtain j y where f: "f i = (j, y)" by fastforce
  show ?case
  proof (cases "ni_id i = n")
    case False
    then have "n \<in># sum_list (map (\<lambda>kc. node_ids (snd kc)) cs)" using 1(2) by (simp add: node_ids_RNode)
    then have "lock_kids f n cs \<noteq> None" by (rule 1(1) [OF refl f [symmetric] False])
    then show ?thesis using False by (auto simp: f)
  qed (simp add: f)
next
  case (3 f n k c cs)
  have "n \<in># node_ids c \<or> n \<in># sum_list (map (\<lambda>kc. node_ids (snd kc)) cs)" using 3(3) by simp
  then show ?case using 3(1,2) by (cases "lock_path f n c"; cases "lock_kids f n cs") fastforce+
qed simp

end
