(* ===== verification/RadixEvict.thy ===== *)
theory RadixEvict
  imports RadixLocks
begin

text \<open>
  Eviction: the loop cuts leaves that no request holds, gives back exactly their slots, keeps the path of
  every held node, and stops only when it has enough tokens or when every cached token is held.
\<close>

section \<open>Cutting a leaf\<close>

fun leaves :: "rnode \<Rightarrow> node_info set" where
  "leaves (RNode i cs) = (if cs = [] then {i} else (\<Union>kc \<in> set cs. leaves (snd kc)))"

lemma leaves_kids: "cs \<noteq> [] \<Longrightarrow> leaves (RNode i cs) = (\<Union>kc \<in> set cs. leaves (snd kc))"
  by simp

declare leaves.simps [simp del]

lemma leaves_leaf [simp]: "leaves (RNode i []) = {i}"
  by (simp add: leaves.simps)

lemma leaves_nonempty: "leaves t \<noteq> {}"
proof (induction t rule: rnode_kid_induct)
  case (1 i cs)
  then show ?case by (cases cs) (auto simp: leaves_kids)
qed

lemma leaves_nodes: "leaves t \<subseteq> set_mset (nodes t)"
proof (induction t rule: rnode_kid_induct)
  case (1 i cs)
  have k: "nodes (snd kc) \<subseteq># nodes (RNode i cs)" if "kc \<in> set cs" for kc
  proof -
    have "nodes (RNode i cs) = sum_list (map (\<lambda>kc. nodes (snd kc)) cs) + {#i#}" by simp
    then have "sum_list (map (\<lambda>kc. nodes (snd kc)) cs) \<subseteq># nodes (RNode i cs)" by (metis mset_subset_eq_add_left)
    then show ?thesis using kid_nodes [of "fst kc" "snd kc" cs] that by (metis prod.collapse subset_mset.order_trans)
  qed
  show ?case
  proof (cases "cs = []")
    case False
    show ?thesis unfolding leaves_kids [OF False] using 1 set_mset_mono [OF k] by blast
  qed simp
qed

lemma cut_kid_shape: "cut_kid x cs = Some (n, cs') \<Longrightarrow> \<exists>as k bs. cs = as @ (k, n) # bs \<and> cs' = as @ bs \<and> ni_id (info n) = x"
proof (induction cs arbitrary: cs')
  case (Cons kc cs)
  obtain k c where kc: "kc = (k, c)" by (cases kc)
  show ?case
  proof (cases "ni_id (info c) = x")
    case True
    then show ?thesis using Cons.prems by (intro exI [of _ "[]"] exI [of _ k] exI [of _ cs]) (auto simp: kc)
  next
    case False
    then obtain ds where ds: "cut_kid x cs = Some (n, ds)" "cs' = kc # ds" using Cons.prems by (auto simp: kc split: option.splits)
    from Cons.IH [OF ds(1)] obtain as k' bs where "cs = as @ (k', n) # bs" "ds = as @ bs" "ni_id (info n) = x" by blast
    then show ?thesis using ds(2) by (intro exI [of _ "kc # as"] exI [of _ k'] exI [of _ bs]) simp
  qed
qed simp

lemma cut_kid_None: "cut_kid x cs = None \<Longrightarrow> kc \<in> set cs \<Longrightarrow> ni_id (info (snd kc)) \<noteq> x"
  by (induction cs) (auto split: if_splits option.splits)

lemma delete_shape:
  "delete_leaf x t = Some (n, t', par) \<Longrightarrow> ni_id (info n) = x \<and> info t' = info t \<and> x \<in># node_ids t \<and> (kids n = [] \<longrightarrow> in_tree (cut_leaf n) t t')"
  "delete_in_kids x cs = Some (n, cs', par) \<Longrightarrow> ni_id (info n) = x \<and>
    (\<exists>as k c c' bs. cs = as @ (k, c) # bs \<and> cs' = as @ (k, c') # bs \<and> x \<in># node_ids c \<and> (kids n = [] \<longrightarrow> in_tree (cut_leaf n) c c'))"
proof (induction t and cs arbitrary: t' and cs' rule: rnode_list_induct)
  case (Node i cs)
  show ?case
  proof (cases "cut_kid x cs")
    case None
    then obtain cs' where r: "delete_in_kids x cs = Some (n, cs', par)" "t' = RNode i cs'" using Node.prems by (auto split: option.splits)
    from Node.IH [OF r(1)] obtain as k c c' bs where s: "cs = as @ (k, c) # bs" "cs' = as @ (k, c') # bs" "x \<in># node_ids c"
      "kids n = [] \<longrightarrow> in_tree (cut_leaf n) c c'" "ni_id (info n) = x" by blast
    have "x \<in># node_ids (RNode i cs)" using s(1,3) by (simp add: node_ids_RNode)
    then show ?thesis using s r(2) in_tree.there [of "cut_leaf n" c c' i as k bs] by simp
  next
    case (Some p)
    then obtain cs' where c: "cut_kid x cs = Some (n, cs')" "t' = RNode i cs'" using Node.prems by (cases p) auto
    from cut_kid_shape [OF c(1)] obtain as k bs where s: "cs = as @ (k, n) # bs" "cs' = as @ bs" "ni_id (info n) = x" by blast
    have "in_tree (cut_leaf n) (RNode i cs) t'" if "kids n = []"
    proof (rule in_tree.here)
      show "cut_leaf n (RNode i cs) t'" unfolding cut_leaf_def using s c(2) that by blast
    qed
    moreover have "x \<in># node_ids n" using s(3) info_in_nodes [of n] unfolding node_ids_def by (metis image_eqI set_image_mset)
    then have "x \<in># node_ids (RNode i cs)" using s(1) by (simp add: node_ids_RNode)
    ultimately show ?thesis using s(3) c(2) by simp
  qed
next
  case (Cons k c cs)
  show ?case
  proof (cases "delete_leaf x c")
    case None
    then obtain ds where r: "delete_in_kids x cs = Some (n, ds, par)" "cs' = (k, c) # ds" using Cons.prems by (auto split: option.splits)
    from Cons.IH(2) [OF r(1)] obtain as k2 c2 c' bs where "cs = as @ (k2, c2) # bs" "ds = as @ (k2, c') # bs" "x \<in># node_ids c2"
      "kids n = [] \<longrightarrow> in_tree (cut_leaf n) c2 c'" "ni_id (info n) = x" by blast
    then show ?thesis using r(2) by (intro conjI exI [of _ "(k, c) # as"] exI [of _ k2] exI [of _ c2] exI [of _ c'] exI [of _ bs]) simp_all
  next
    case (Some p)
    then obtain c' where r: "delete_leaf x c = Some (n, c', par)" "cs' = (k, c') # cs" using Cons.prems by (cases p) auto
    from Cons.IH(1) [OF r(1)] r(2)
    show ?thesis by (intro conjI exI [of _ "[]"] exI [of _ k] exI [of _ c] exI [of _ c'] exI [of _ cs]) simp_all
  qed
qed simp

lemma delete_reaches:
  "delete_leaf x t = None \<Longrightarrow> x \<in># node_ids t \<Longrightarrow> x = ni_id (info t)"
  "delete_in_kids x cs = None \<Longrightarrow> kc \<in> set cs \<Longrightarrow> x \<in># node_ids (snd kc) \<Longrightarrow> x = ni_id (info (snd kc))"
proof (induction t and cs arbitrary: and kc rule: rnode_list_induct)
  case (Node i cs)
  have c: "cut_kid x cs = None" "delete_in_kids x cs = None" using Node.prems(1) by (auto split: option.splits)
  have "x \<notin># node_ids (snd kc)" if "kc \<in> set cs" for kc
    using Node.IH [OF c(2) that] cut_kid_None [OF c(1) that] by auto
  then show ?case using Node.prems(2) by (auto simp: node_ids_RNode)
next
  case (Cons k c cs)
  have "delete_leaf x c = None" "delete_in_kids x cs = None" using Cons.prems(1) by (auto split: option.splits)
  then show ?case using Cons.IH Cons.prems(2,3) by (cases "kc = (k, c)") auto
qed simp

text \<open>The ids of a tree are unique: a node in one child is in no other.\<close>

lemma delete_leaves:
  "delete_leaf x t = Some (n, t', par) \<Longrightarrow> once (node_ids t) \<Longrightarrow> i0 \<in> leaves t \<Longrightarrow> ni_id i0 = x \<Longrightarrow>
    kids n = [] \<and> info n = i0 \<and> leaves t' = leaves t - {i0} \<union> (if kids par = [] then {info par} else {})"
  "delete_in_kids x cs = Some (n, cs', par) \<Longrightarrow> once (sum_list (map (\<lambda>kc. node_ids (snd kc)) cs)) \<Longrightarrow>
    i0 \<in> (\<Union>kc \<in> set cs. leaves (snd kc)) \<Longrightarrow> ni_id i0 = x \<Longrightarrow>
    kids n = [] \<and> info n = i0 \<and> cs' \<noteq> [] \<and>
    (\<Union>kc \<in> set cs'. leaves (snd kc)) = (\<Union>kc \<in> set cs. leaves (snd kc)) - {i0} \<union> (if kids par = [] then {info par} else {})"
proof (induction t and cs arbitrary: t' and cs' rule: rnode_list_induct)
  case (Node i cs)
  have ne: "cs \<noteq> []" using Node.prems(1) by auto
  have o: "once (sum_list (map (\<lambda>kc. node_ids (snd kc)) cs))" using Node.prems(2) by (simp add: node_ids_RNode)
  show ?case
  proof (cases "cut_kid x cs")
    case None
    then obtain cs' where r: "delete_in_kids x cs = Some (n, cs', par)" "t' = RNode i cs'" using Node.prems(1) by (auto split: option.splits)
    from Node.IH [OF r(1) o] Node.prems(3,4) show ?thesis unfolding r(2) leaves_kids [OF ne] by (auto simp: leaves_kids)
  next
    case (Some p)
    then obtain cs' where c: "cut_kid x cs = Some (n, cs')" "t' = RNode i cs'" "par = RNode i cs'" using Node.prems(1) by (cases p) auto
    from cut_kid_shape [OF c(1)] obtain as k bs where s: "cs = as @ (k, n) # bs" "cs' = as @ bs" "ni_id (info n) = x" by blast
    have xn: "x \<in># node_ids n" using s(3) info_in_nodes [of n] unfolding node_ids_def by (metis image_eqI set_image_mset)
    have "once (sum_list (map (\<lambda>kc. node_ids (snd kc)) (as @ bs)) + node_ids n)" using o s(1) by (simp add: ac_simps)
    from once_union [OF this] have u: "once (node_ids n)" "set_mset (sum_list (map (\<lambda>kc. node_ids (snd kc)) (as @ bs))) \<inter> set_mset (node_ids n) = {}" by blast+
    have away: "ni_id j \<noteq> x" if "kc \<in> set (as @ bs)" "j \<in> leaves (snd kc)" for kc j
    proof -
      have "ni_id j \<in># node_ids (snd kc)" using that(2) leaves_nodes unfolding node_ids_def by fastforce
      then have "ni_id j \<in># sum_list (map (\<lambda>kc. node_ids (snd kc)) (as @ bs))" using that(1) by auto
      then show ?thesis using u(2) xn by blast
    qed
    have L: "leaves (RNode i cs) = (\<Union>kc \<in> set (as @ bs). leaves (snd kc)) \<union> leaves n" by (subst leaves_kids [OF ne]) (auto simp: s(1))
    then have i0: "i0 \<in> leaves n" using away Node.prems(3,4) by blast
    have leaf: "kids n = [] \<and> info n = i0"
    proof (rule ccontr)
      assume a: "\<not> (kids n = [] \<and> info n = i0)"
      obtain j ds where n: "n = RNode j ds" by (cases n)
      have "ds \<noteq> []" using a i0 by (auto simp: n)
      then obtain kc where "kc \<in> set ds" "i0 \<in> leaves (snd kc)" using i0 n leaves_kids by auto
      then have "ni_id i0 \<in># sum_list (map (\<lambda>kc. node_ids (snd kc)) ds)"
        using leaves_nodes by (force simp: node_ids_def)
      then show False using u(1) s(3) Node.prems(4) by (simp add: n node_ids_RNode)
    qed
    then have "leaves n = {i0}" by (cases n) simp
    moreover have "i0 \<notin> (\<Union>kc \<in> set (as @ bs). leaves (snd kc))" using away Node.prems(4) by blast
    ultimately show ?thesis using L leaf c(2,3) s(2) by (cases "as @ bs") (auto simp: leaves_kids)
  qed
next
  case (Cons k c cs)
  have "once (node_ids c + sum_list (map (\<lambda>kc. node_ids (snd kc)) cs))" using Cons.prems(2) by simp
  from once_union [OF this] have o: "once (node_ids c)" "once (sum_list (map (\<lambda>kc. node_ids (snd kc)) cs))"
    "set_mset (node_ids c) \<inter> set_mset (sum_list (map (\<lambda>kc. node_ids (snd kc)) cs)) = {}" by blast+
  have ids: "ni_id j \<in># node_ids t" if "j \<in> leaves t" for j t using that leaves_nodes unfolding node_ids_def by fastforce
  have ids': "ni_id j \<in># sum_list (map (\<lambda>kc. node_ids (snd kc)) cs)" if "j \<in> (\<Union>kc \<in> set cs. leaves (snd kc))" for j
    using that ids by auto
  show ?case
  proof (cases "delete_leaf x c")
    case None
    then obtain ds where r: "delete_in_kids x cs = Some (n, ds, par)" "cs' = (k, c) # ds" using Cons.prems(1) by (auto split: option.splits)
    obtain as k2 c2 c' bs where "cs = as @ (k2, c2) # bs" "x \<in># node_ids c2" using delete_shape(2) [OF r(1)] by blast
    then have "x \<in># sum_list (map (\<lambda>kc. node_ids (snd kc)) cs)" by auto
    then have nc: "i0 \<notin> leaves c" using ids [of i0 c] o(3) Cons.prems(4) by blast
    then have "i0 \<in> (\<Union>kc \<in> set cs. leaves (snd kc))" using Cons.prems(3) by auto
    from Cons.IH(2) [OF r(1) o(2) this Cons.prems(4)] nc show ?thesis by (auto simp: r(2))
  next
    case (Some p)
    then obtain c' where r: "delete_leaf x c = Some (n, c', par)" "cs' = (k, c') # cs" using Cons.prems(1) by (cases p) auto
    have "x \<in># node_ids c" using delete_shape(1) [OF r(1)] by blast
    then have nc: "i0 \<notin> (\<Union>kc \<in> set cs. leaves (snd kc))" using ids' [of i0] o(3) Cons.prems(4) by blast
    then have "i0 \<in> leaves c" using Cons.prems(3) by auto
    from Cons.IH(1) [OF r(1) o(1) this Cons.prems(4)] nc show ?thesis by (auto simp: r(2))
  qed
qed simp

lemma collect_leaves_set: "set (collect_leaves stack) = (\<Union>t \<in> set stack. leaves t)"
proof (induction stack rule: collect_leaves.induct)
  case (1 stack)
  show ?case
  proof (cases stack rule: rev_cases)
    case (snoc rest cur)
    obtain i cs where c: "cur = RNode i cs" by (cases cur)
    have p: "stack \<noteq> []" "cur = last stack" "rest = butlast stack" using snoc by simp_all
    show ?thesis
    proof (cases "cs = []")
      case True
      then have "set (collect_leaves rest) = (\<Union>t \<in> set rest. leaves t)" by (intro 1(1) [OF p]) (simp add: c)
      then show ?thesis using True by (subst collect_leaves.simps) (simp add: snoc c)
    next
      case False
      then have "set (collect_leaves (rest @ map snd (kids cur))) = (\<Union>t \<in> set (rest @ map snd (kids cur)). leaves t)"
        by (intro 1(2) [OF p]) (simp add: c)
      moreover have "collect_leaves stack = collect_leaves (rest @ map snd (kids cur))"
        using False by (subst collect_leaves.simps) (simp add: snoc c)
      ultimately show ?thesis using False by (auto simp: snoc c leaves_kids)
    qed
  qed (simp add: collect_leaves.simps)
qed

section \<open>Facts about leaves\<close>

lemma tree_ok_cut: "in_tree (cut_leaf n) t t' \<Longrightarrow> tree_ok page t \<Longrightarrow> tree_ok page t'"
proof (induction rule: in_tree.induct)
  case (here t t')
  then show ?case by (auto simp: cut_leaf_def tree_ok.simps)
next
  case (there c c' i as k bs)
  have "ni_key (info c') = ni_key (info c) \<and> ni_value (info c') = ni_value (info c)"
    using keeps_cut [OF there(1), of "\<lambda>_. False"] by (simp add: keeps_def)
  then show ?case using there same_kid_ok [of page k c c'] by (auto simp: tree_ok.simps)
qed

lemma once_inj: "once (node_ids t) \<Longrightarrow> i \<in># nodes t \<Longrightarrow> j \<in># nodes t \<Longrightarrow> ni_id i = ni_id j \<Longrightarrow> i = j"
proof (rule ccontr)
  assume o: "once (node_ids t)" and i: "i \<in># nodes t" and j: "j \<in># nodes t" "ni_id i = ni_id j" and n: "i \<noteq> j"
  obtain M where "nodes t = add_mset i (add_mset j M)" using i j n by (metis insert_noteq_member multi_member_split)
  then show False using o j(2) by (simp add: node_ids_def)
qed

lemma leaf_once: "once (node_ids t) \<Longrightarrow> i \<in> leaves t \<Longrightarrow> j \<in> leaves t \<Longrightarrow> ni_id i = ni_id j \<Longrightarrow> i = j"
  using once_inj leaves_nodes by blast

lemma kid_once: "once (node_ids (RNode i cs)) \<Longrightarrow> kc \<in> set cs \<Longrightarrow> once (node_ids (snd kc)) \<and> ni_id i \<notin># node_ids (snd kc)"
proof -
  assume o: "once (node_ids (RNode i cs))" and k: "kc \<in> set cs"
  have sub: "node_ids (snd kc) \<subseteq># sum_list (map (\<lambda>kc. node_ids (snd kc)) cs)" using k
    by (induction cs) (auto intro: subset_mset.order_trans mset_subset_eq_add_right)
  have s: "ni_id i \<notin># sum_list (map (\<lambda>kc. node_ids (snd kc)) cs)" "once (sum_list (map (\<lambda>kc. node_ids (snd kc)) cs))"
    using o unfolding node_ids_RNode once_add by blast+
  have "once (node_ids (snd kc))"
    using mset_subset_eq_count [OF sub] s(2) unfolding once_def by (meson le_trans)
  then show ?thesis using mset_subset_eqD [OF sub] s(1) by blast
qed

lemma leaf_id: "i \<in> leaves t \<Longrightarrow> ni_id i \<in># node_ids t"
  using leaves_nodes unfolding node_ids_def by fastforce

lemma root_leaf: "once (node_ids t) \<Longrightarrow> i \<in> leaves t \<Longrightarrow> ni_id i = ni_id (info t) \<Longrightarrow> kids t = []"
proof (rule ccontr)
  assume o: "once (node_ids t)" and i: "i \<in> leaves t" "ni_id i = ni_id (info t)" and k: "kids t \<noteq> []"
  obtain j cs where t: "t = RNode j cs" by (cases t)
  then obtain kc where kc: "kc \<in> set cs" "i \<in> leaves (snd kc)" using i k leaves_kids by auto
  then show False using kid_once [of j cs kc] o leaf_id [OF kc(2)] i(2) by (simp add: t)
qed

lemma leaf_lock_count: "lock_ok H t \<Longrightarrow> i \<in> leaves t \<Longrightarrow> kids t \<noteq> [] \<Longrightarrow> ni_lock i = int (count H (ni_id i))"
proof (induction t rule: rnode_kid_induct)
  case (1 j cs)
  then obtain kc where kc: "kc \<in> set cs" "i \<in> leaves (snd kc)" using leaves_kids by auto
  have l: "lock_all H (snd kc)" using 1(2) kc(1) by (simp add: lock_ok_all)
  show ?case
  proof (cases "kids (snd kc) = []")
    case True
    then have "snd kc = RNode i []" using kc(2) by (cases "snd kc") auto
    moreover have "size (filter_mset (\<lambda>h. h = ni_id i) H) = count H (ni_id i)" by (simp add: filter_eq_replicate_mset)
    ultimately show ?thesis using l by (simp add: lock_all_def holders_def node_ids_RNode)
  next
    case False
    then show ?thesis using 1(1) [OF kc(1) _ kc(2)] l by (simp add: lock_all_def)
  qed
qed

lemma holders_mono: "kc \<in> set cs \<Longrightarrow> holders H (snd kc) \<le> holders H (RNode i cs)"
proof -
  assume k: "kc \<in> set cs"
  have "x \<in># node_ids (snd kc) \<Longrightarrow> x \<in># node_ids (RNode i cs)" for x using k by (auto simp: node_ids_RNode)
  then have "filter_mset (\<lambda>h. h \<in># node_ids (snd kc)) H \<subseteq># filter_mset (\<lambda>h. h \<in># node_ids (RNode i cs)) H"
    by (simp add: multiset_filter_mono subseteq_mset_def)
  then show ?thesis unfolding holders_def by (rule size_mset_mono)
qed

lemma locked_leaves: "lock_all H c \<Longrightarrow> \<forall>i \<in> leaves c. ni_lock i \<noteq> 0 \<Longrightarrow> unlocked_len c = 0 \<and> 0 < holders H c"
proof (induction c rule: rnode_kid_induct)
  case (1 i cs)
  show ?case
  proof (cases "cs = []")
    case True
    then show ?thesis using 1(2,3) by (simp add: lock_all_def len_RNode)
  next
    case False
    have k: "unlocked_len (snd kc) = 0 \<and> 0 < holders H (snd kc)" if "kc \<in> set cs" for kc
      using 1(1) [OF that] 1(2,3) that by (auto simp: lock_all_def lock_ok.simps leaves_kids [OF False])
    obtain kc where kc: "kc \<in> set cs" using False by (cases cs) auto
    have "0 < holders H (RNode i cs)" using k [OF kc] holders_mono [OF kc, of H i] by linarith
    moreover have "sum_list (map (\<lambda>kc. unlocked_len (snd kc)) cs) = 0" using k by (simp add: map_idI sum_list_0 cong: map_cong)
    ultimately show ?thesis using 1(2) by (simp add: lock_all_def len_RNode)
  qed
qed

lemma all_leaves_locked:
  assumes "lock_ok H t" "once (node_ids t)" "node_len (info t) = 0" "\<forall>i \<in> leaves t. ni_lock i \<noteq> 0 \<or> ni_id i = ni_id (info t)"
  shows "unlocked_len t = 0"
proof -
  obtain j cs where t: "t = RNode j cs" by (cases t)
  have "unlocked_len (snd kc) = 0" if kc: "kc \<in> set cs" for kc
  proof -
    have "\<forall>i \<in> leaves (snd kc). ni_lock i \<noteq> 0"
    proof
      fix i assume i: "i \<in> leaves (snd kc)"
      have "ni_id j \<notin># node_ids (snd kc)" using kid_once [of j cs kc] assms(2) kc by (simp add: t)
      then have "ni_id i \<noteq> ni_id j" using leaf_id [OF i] by metis
      moreover have "i \<in> leaves t" using i kc leaves_kids [of cs j] by (cases "cs = []") (auto simp: t)
      ultimately show "ni_lock i \<noteq> 0" using assms(4) by (auto simp: t)
    qed
    then show ?thesis using locked_leaves assms(1) kc by (auto simp: t lock_ok_all)
  qed
  then have "sum_list (map (\<lambda>kc. unlocked_len (snd kc)) cs) = 0" by (simp add: map_idI sum_list_0 cong: map_cong)
  then show ?thesis using assms(3) by (simp add: t len_RNode)
qed

section \<open>The loop\<close>

lemma ids_ok_once: "ids_ok n t \<Longrightarrow> once (node_ids t)"
  by (simp add: ids_ok_def once_def)

lemma ids_ok_cut: "ids_ok n t \<Longrightarrow> node_ids t = add_mset x (node_ids t') \<Longrightarrow> ids_ok n t'"
  using once_add [of x "node_ids t'"] by (simp add: ids_ok_def once_def)

text \<open>The heap holds leaves (or nodes that are gone), and every leaf that may go.\<close>

definition heap_ok :: "evict_policy \<Rightarrow> nat \<Rightarrow> (int list \<times> nat) list \<Rightarrow> rnode \<Rightarrow> bool" where
  "heap_ok pol root heap t \<longleftrightarrow> heap_from 0 heap \<and>
     (\<forall>y \<in> set heap. \<exists>i. y = heap_entry pol i \<and> (i \<in> leaves t \<or> ni_id i \<notin># node_ids t)) \<and>
     (\<forall>i \<in> leaves t. heap_entry pol i \<in> set heap \<or> ni_lock i \<noteq> 0 \<or> ni_id i = root)"

lemma heap_ok_initial: "heap_ok pol root (heapify (map (heap_entry pol) (collect_leaves [t]))) t"
  by (auto simp: heap_ok_def heapq.of_list_valid heapq.set_of_list collect_leaves_set)

lemma heap_ok_pop:
  assumes "heap_ok pol root heap t" "heappop heap = (entry, heap')" "heap \<noteq> []"
    and "\<And>i. i \<in> leaves t \<Longrightarrow> heap_entry pol i = entry \<Longrightarrow> ni_lock i \<noteq> 0 \<or> ni_id i = root"
  shows "heap_ok pol root heap' t"
  using assms heapq.set_pop [OF assms(3)] heapq.pop_valid [OF _ assms(3)] unfolding heap_ok_def by fastforce

lemma heap_ok_cut:
  assumes "heap_ok pol root heap t" "heappop heap = (entry, heap')" "heap \<noteq> []" "once (node_ids t)" "i \<in> leaves t" "snd entry = ni_id i"
    and "leaves t' = leaves t - {i} \<union> (if kids par = [] then {info par} else {})" "node_ids t = add_mset (ni_id i) (node_ids t')"
  shows "heap_ok pol root (if kids par = [] then heappush heap' (heap_entry pol (info par)) else heap') t'"
proof -
  have h: "heap_from 0 heap'" "set heap = insert entry (set heap')"
    using assms(1-3) heapq.pop_valid [of heap] heapq.set_pop [of heap] by (auto simp: heap_ok_def)
  have gone: "ni_id i \<notin># node_ids t'" using assms(4,8) by simp
  have A: "\<exists>j. y = heap_entry pol j \<and> (j \<in> leaves t' \<or> ni_id j \<notin># node_ids t')" if y: "y \<in> set heap'" for y
  proof -
    obtain j where j: "y = heap_entry pol j" "j \<in> leaves t \<or> ni_id j \<notin># node_ids t" using assms(1) h(2) y by (auto simp: heap_ok_def)
    show ?thesis
    proof (cases "j = i")
      case False
      then show ?thesis using j assms(7,8) by auto
    qed (use j gone in auto)
  qed
  have B: "heap_entry pol j \<in> set heap' \<or> ni_lock j \<noteq> 0 \<or> ni_id j = root" if j: "j \<in> leaves t" "j \<noteq> i" for j
  proof -
    have "heap_entry pol j \<noteq> entry" using leaf_once [OF assms(4) j(1) assms(5)] j(2) assms(6) by (auto simp: heap_entry_def)
    then show ?thesis using assms(1) h(2) j(1) by (auto simp: heap_ok_def)
  qed
  show ?thesis
  proof (cases "kids par = []")
    case True
    then show ?thesis using h(1) A B assms(7) by (fastforce simp: heap_ok_def heapq.push_valid heapq.set_push)
  next
    case False
    then show ?thesis using h(1) A B assms(7) by (auto simp: heap_ok_def)
  qed
qed

lemma remove_event_env [simp]:
  "te_next (record_remove_event cf i e) = te_next e" "te_root (record_remove_event cf i e) = te_root e"
  "te_evictable (record_remove_event cf i e) = te_evictable e" "te_protected (record_remove_event cf i e) = te_protected e"
  by (simp_all add: record_remove_event_def)

text \<open>What a run of the loop does, \<open>rs\<close> being the nodes it cuts in order.\<close>

definition evicts ::
    "nat multiset \<Rightarrow> cache_config \<Rightarrow> (int list \<Rightarrow> 'a \<Rightarrow> 'a) \<Rightarrow> int \<Rightarrow> int \<Rightarrow> rnode \<times> tree_env \<times> 'a \<Rightarrow> rnode \<times> tree_env \<times> 'a \<Rightarrow> node_info list \<Rightarrow> bool" where
  "evicts H cf free num_tokens num_evicted s s' rs \<longleftrightarrow> (case s of (t, e, al) \<Rightarrow> case s' of (t', e', al') \<Rightarrow>
     al' = fold free (map ni_value rs) al \<and> nodes t = nodes t' + mset rs \<and> (\<forall>i \<in> set rs. ni_lock i = 0) \<and>
     tree_inv H (t', te_next e', te_evictable e') \<and> tree_ok (cf_page cf) t' \<and> keeps (\<lambda>m. m \<in># H) t t' \<and> locked_len t' = locked_len t \<and>
     info t' = info t \<and> te_root e' = te_root e \<and> te_next e' = te_next e \<and> te_protected e' = te_protected e \<and>
     (num_tokens \<le> num_evicted + int (length (concat (map ni_value rs))) \<or> unlocked_len t' = 0) \<and>
     (rs \<noteq> [] \<longrightarrow> num_evicted + int (length (concat (map ni_value (butlast rs)))) < num_tokens \<and>
        (\<forall>i \<in> leaves t. ni_lock i = 0 \<and> ni_id i \<noteq> te_root e \<longrightarrow> fst (heap_entry (cf_policy cf) (hd rs)) \<le> fst (heap_entry (cf_policy cf) i))))"

lemma evicts_cut:
  assumes "evicts H cf free num (ev + int (length (ni_value i))) (t1, e1, free (ni_value i) al) s' rs" "nodes t = add_mset i (nodes t1)"
    and "ni_lock i = 0" "keeps (\<lambda>m. m \<in># H) t t1" "locked_len t1 = locked_len t" "info t1 = info t" "te_root e1 = te_root e" "te_next e1 = te_next e"
    and "te_protected e1 = te_protected e" "ev < num"
    and "\<forall>j \<in> leaves t. ni_lock j = 0 \<and> ni_id j \<noteq> te_root e \<longrightarrow> fst (heap_entry (cf_policy cf) i) \<le> fst (heap_entry (cf_policy cf) j)"
  shows "evicts H cf free num ev (t, e, al) s' (i # rs)"
proof -
  obtain t' e' al' where s': "s' = (t', e', al')" by (cases s')
  show ?thesis
    using assms keeps_trans [OF assms(4), of t'] unfolding evicts_def s'
    by (cases "rs = []") (auto simp: add.assoc)
qed

lemma evict_loop_correct:
  "evict_loop cf free num heap ev t e al = s' \<Longrightarrow> tree_inv H (t, te_next e, te_evictable e) \<Longrightarrow> tree_ok (cf_page cf) t \<Longrightarrow>
    ni_id (info t) = te_root e \<Longrightarrow> node_len (info t) = 0 \<Longrightarrow> heap_ok (cf_policy cf) (te_root e) heap t \<Longrightarrow>
    \<exists>rs. evicts H cf free num ev (t, e, al) s' rs"
proof (induction "length heap + 2 * node_count t" arbitrary: heap ev t e al rule: less_induct)
  case less
  note inv = less.prems(2)[unfolded tree_inv_def split] and root = less.prems(4) and heap = less.prems(6)
  have once: "once (node_ids t)" using inv ids_ok_once by blast
  have stop: "evicts H cf free num ev (t, e, al) (t, e, al) []" if "num \<le> ev \<or> unlocked_len t = 0"
    using less.prems(2,3) that by (simp add: evicts_def)
  show ?case
  proof (cases "ev < num \<and> heap \<noteq> []")
    case False
    then have "s' = (t, e, al)" using less.prems(1) by (subst (asm) evict_loop.simps) auto
    moreover have "unlocked_len t = 0" if "\<not> num \<le> ev"
      using heap False that inv root by (intro all_leaves_locked [OF _ once less.prems(5)]) (auto simp: heap_ok_def)
    ultimately show ?thesis using stop by blast
  next
    case True
    obtain entry heap' where pop: "heappop heap = (entry, heap')" by fastforce
    have len: "Suc (length heap') = length heap" using heapq.length_pop [of heap] pop True by simp
    have "entry \<in> set heap" using heapq.set_pop [of heap] pop True by auto
    then obtain i where i: "entry = heap_entry (cf_policy cf) i" "i \<in> leaves t \<or> ni_id i \<notin># node_ids t" using heap by (auto simp: heap_ok_def)
    have x: "snd entry = ni_id i" by (simp add: i(1) heap_entry_def)
    have least: "fst entry \<le> fst (heap_entry (cf_policy cf) j)" if "j \<in> leaves t" "ni_lock j = 0" "ni_id j \<noteq> te_root e" for j
      using heapq.pop_min [of heap "heap_entry (cf_policy cf) j"] heap that True pop by (auto simp: heap_ok_def)
    note loop = less.prems(1)[symmetric, unfolded evict_loop.simps [of cf free num heap]]
    show ?thesis
    proof (cases "ni_id i = te_root e")
      case atroot: True
      then have "s' = (t, e, al)" using loop True pop x by (simp add: Let_def)
      moreover have "kids t = []"
      proof (rule root_leaf [OF once])
        have "ni_id (info t) \<in># node_ids t" using info_in_nodes unfolding node_ids_def by (metis image_eqI set_image_mset)
        then show "i \<in> leaves t" using i(2) atroot root by simp
        show "ni_id i = ni_id (info t)" using atroot root by simp
      qed
      then have "unlocked_len t = 0" using less.prems(5) by (cases t) (simp add: len_RNode)
      ultimately show ?thesis using stop by blast
    next
      case notroot: False
      show ?thesis
      proof (cases "delete_leaf (ni_id i) t")
        case None
        then have gone: "ni_id i \<notin># node_ids t" using delete_reaches(1) [OF None] root notroot by auto
        have "ni_id j \<noteq> ni_id i" if "j \<in> leaves t" for j using leaf_id [OF that] gone by metis
        then have "heap_ok (cf_policy cf) (te_root e) heap' t"
          using x by (intro heap_ok_pop [OF heap pop]) (use True in \<open>auto simp: heap_entry_def\<close>)
        moreover have "evict_loop cf free num heap' ev t e al = s'" using loop True pop x notroot None by (simp add: Let_def)
        ultimately show ?thesis using less.hyps [of heap' t] less.prems(2-5) len by simp
      next
        case (Some p)
        obtain n t1 par where d: "delete_leaf (ni_id i) t = Some (n, t1, par)" using Some by (cases p) auto
        note sh = delete_shape(1) [OF d]
        have leaf: "i \<in> leaves t" using i(2) sh by blast
        note dl = delete_leaves(1) [OF d once leaf refl]
        have kt: "kids t \<noteq> []" using d by (cases t) auto
        have cnt: "ni_lock i = int (count H (ni_id i))" using leaf_lock_count [OF _ leaf kt] inv by blast
        show ?thesis
        proof (cases "ni_lock i = 0")
          case False
          have "ni_lock j \<noteq> 0" if j: "j \<in> leaves t" "heap_entry (cf_policy cf) j = entry" for j
          proof -
            have "ni_id j = ni_id i" using j(2) x by (auto simp: heap_entry_def)
            then show ?thesis using leaf_once [OF once j(1) leaf] False by metis
          qed
          then have "heap_ok (cf_policy cf) (te_root e) heap' t"
            using True by (intro heap_ok_pop [OF heap pop]) auto
          moreover have "evict_loop cf free num heap' ev t e al = s'" using loop True pop x notroot d dl False cnt by (simp add: Let_def)
          ultimately show ?thesis using less.hyps [of heap' t] less.prems(2-5) len by simp
        next
          case zero: True
          define e1 where "e1 = record_remove_event cf i (e\<lparr>te_evictable := te_evictable e - int (node_len i)\<rparr>)"
          define heap2 where "heap2 = (if kids par = [] then heappush heap' (heap_entry (cf_policy cf) (info par)) else heap')"
          have run: "evict_loop cf free num heap2 (ev + int (length (ni_value i))) t1 e1 (free (ni_value i) al) = s'"
            using loop True pop x notroot d dl zero by (simp add: Let_def e1_def heap2_def)
          have cut: "in_tree (cut_leaf n) t t1" and info: "info t1 = info t" using sh dl by auto
          have xH: "ni_id i \<notin># H" using cnt zero by (simp add: not_in_iff)
          have cs: "unlocked_len t = unlocked_len t1 + int (node_len i)" "locked_len t = locked_len t1" "node_ids t = add_mset (ni_id i) (node_ids t1)"
            using cut_same [OF cut] dl zero by auto
          have nodes: "nodes t = add_mset i (nodes t1)" using cut_nodes [OF cut] dl by simp
          have inv1: "tree_inv H (t1, te_next e1, te_evictable e1)"
            using inv cs cut_lock [OF cut, of H] dl zero xH ids_ok_cut [OF _ cs(3)] by (auto simp: tree_inv_def e1_def)
          have heap1: "heap_ok (cf_policy cf) (te_root e1) heap2 t1"
            unfolding heap2_def using heap_ok_cut [OF heap pop _ once leaf x _ cs(3), of par] True dl by (simp add: e1_def)
          have "length heap2 + 2 * node_count t1 < length heap + 2 * node_count t"
            using delete_leaf_count(1) [OF d] len by (simp add: heap2_def heapq.length_push)
          then obtain rs where rs: "evicts H cf free num (ev + int (length (ni_value i))) (t1, e1, free (ni_value i) al) s' rs"
            using less.hyps [OF _ run inv1 tree_ok_cut [OF cut less.prems(3)] _ _ heap1] info root less.prems(5) by (auto simp: e1_def)
          have "evicts H cf free num ev (t, e, al) s' (i # rs)"
            using keeps_cut [OF cut, of "\<lambda>m. m \<in># H"] xH dl True least i(1)
            by (intro evicts_cut [OF rs nodes zero]) (auto simp: cs info e1_def)
          then show ?thesis by blast
        qed
      qed
    qed
  qed
qed

end
