(* ===== verification/RadixCorrect.thy ===== *)
theory RadixCorrect
  imports RadixCache RadixEvict
begin

text \<open>
  Correctness of the radix cache: what it stores is a map from page-aligned token prefixes to slots that
  lookups read and insertions extend; the sizes it reports and the lock counts agree with the tree in
  every reachable state; eviction frees only what no request holds; a finished request neither leaks nor
  frees twice, unless it is a blend request that had matched a cached prefix.
\<close>

section \<open>The invariant of a cache\<close>

text \<open>\<open>H\<close> holds the last node of every request that holds a lock.\<close>

definition radix_inv :: "cache_config \<Rightarrow> nat multiset \<Rightarrow> 'a radix_cache \<Rightarrow> bool" where
  "radix_inv cf H rx \<longleftrightarrow> 0 < cf_page cf \<and> \<not> cf_disable cf \<and> tree_ok (cf_page cf) (rx_root rx) \<and>
     tree_inv H (rx_root rx, te_next (rx_env rx), te_evictable (rx_env rx)) \<and>
     te_protected (rx_env rx) = locked_len (rx_root rx) \<and> ni_id (info (rx_root rx)) = te_root (rx_env rx) \<and>
     rk_tokens (ni_key (info (rx_root rx))) = [] \<and> ni_value (info (rx_root rx)) = [] \<and> te_root (rx_env rx) \<notin># H"

text \<open>The key a lookup really searches, and the slots cached for a key.\<close>

definition search_key :: "cache_config \<Rightarrow> radix_key \<Rightarrow> radix_key" where
  "search_key cf key0 = (let key = key_convert (cf_eagle cf) key0 in key_upto (key_len key div cf_page cf * cf_page cf) key)"

definition cached :: "cache_config \<Rightarrow> 'a radix_cache \<Rightarrow> radix_key \<Rightarrow> int list" where
  "cached cf rx q = lookup (cf_page cf) (rx_root rx) q"

lemma search_key_ok: "0 < cf_page cf \<Longrightarrow> key_ok (cf_page cf) (search_key cf key)"
proof -
  assume p: "0 < cf_page cf"
  have "min n (n div cf_page cf * cf_page cf) = n div cf_page cf * cf_page cf" for n :: nat by (simp add: min_def) (metis div_times_less_eq_dividend le_antisym)
  then show ?thesis using p by (simp add: search_key_def key_ok_def paged_def Let_def key_len_def)
qed

lemma key_upto_all: "key_len key \<le> n \<Longrightarrow> key_upto n key = key"
  by (simp add: key_upto_def key_len_def)

lemma radix_inv_once: "radix_inv cf H rx \<Longrightarrow> once (node_ids (rx_root rx))"
  by (auto simp: radix_inv_def tree_inv_def intro: ids_ok_once)

lemma root_len: "radix_inv cf H rx \<Longrightarrow> node_len (info (rx_root rx)) = 0"
  by (simp add: radix_inv_def node_len_def key_len_def)

section \<open>Growing\<close>

lemma grown_inv:
  assumes "radix_inv cf H rx" "grows_env (rx_root rx) (rx_env rx) t e" "tree_ok (cf_page cf) t"
  shows "radix_inv cf H (rx\<lparr>rx_root := t, rx_env := e\<rparr>)" "keeps S (rx_root rx) t" "set_mset (node_ids (rx_root rx)) \<subseteq> set_mset (node_ids t)"
proof -
  let ?s = "(rx_root rx, te_next (rx_env rx), te_evictable (rx_env rx))"
  have g: "grows\<^sup>*\<^sup>* ?s (t, te_next e, te_evictable e)" and i: "tree_inv H ?s" using assms by (auto simp: radix_inv_def)
  note s = grows_star_inv [OF g i, unfolded fst_conv]
  then have "keeps (\<lambda>_. True) (rx_root rx) t" by blast
  then show "radix_inv cf H (rx\<lparr>rx_root := t, rx_env := e\<rparr>)" using assms s by (auto simp: radix_inv_def keeps_def)
  show "keeps S (rx_root rx) t" "set_mset (node_ids (rx_root rx)) \<subseteq> set_mset (node_ids t)" using s by blast+
qed

lemma slots_RNode: "tree_slots (RNode i cs) = mset (ni_value i) + sum_list (map (\<lambda>kc. tree_slots (snd kc)) cs)"
proof -
  have "(\<Sum>i \<in># sum_list (map g cs). mset (ni_value i)) = sum_list (map (\<lambda>x. \<Sum>i \<in># g x. mset (ni_value i)) cs)" for g :: "child_key \<times> rnode \<Rightarrow> node_info multiset"
    by (induction cs) auto
  then show ?thesis by (simp add: tree_slots_def)
qed

lemma split_slots:
  assumes "split_node cf i (touch t c) m e = (upper, e')"
  shows "tree_slots upper = tree_slots c"
proof -
  obtain u where "upper = RNode u [(get_child_key (cf_page cf) (key_from m (ni_key (info (touch t c)))),
      RNode ((info (touch t c))\<lparr>ni_key := key_from m (ni_key (info (touch t c))), ni_value := drop m (ni_value (info c))\<rparr>) (kids c))]"
    "ni_value u = take m (ni_value (info c))"
    using split_node_shape [OF assms] by (auto simp: touch_def)
  moreover have "mset (take m (ni_value (info c))) + mset (drop m (ni_value (info c))) = mset (ni_value (info c))"
    by (simp flip: mset_append)
  ultimately show ?thesis by (cases c) (simp add: slots_RNode add.assoc [symmetric])
qed

text \<open>A lookup moves no slot.\<close>

lemma match_slots:
  "tree_ok page t \<Longrightarrow> key_ok page key \<Longrightarrow> cf_page cf = page \<Longrightarrow> match_prefix_helper cf t key e = Inr (t', vs, last_node, e') \<Longrightarrow>
    tree_slots t' = tree_slots t"
proof (induction t arbitrary: key e t' vs e' rule: rnode_walk_induct)
  case (1 i cs key e t' vs e')
  obtain now e1 where rc: "read_clock cf e = (now, e1)" by fastforce
  let ?i = "i\<lparr>ni_access := now\<rparr>" and ?k = "get_child_key page key"
  show ?case
  proof (cases "rk_tokens key = [] \<or> map_of cs ?k = None")
    case True
    then show ?thesis using 1(4,5) by (auto simp: rc Let_def slots_RNode split: if_splits)
  next
    case False
    then obtain c where ne: "rk_tokens key \<noteq> []" and c: "map_of cs ?k = Some c" by auto
    note f = found_kid [OF 1(2) c 1(3) ne]
    let ?m = "kid_match page c key"
    have gck: "get_child_key page (ni_key (info c)) = ?k" using f(2) by (simp add: kid_ok_def Let_def)
    obtain as bs where ab: "cs = as @ (?k, c) # bs" "\<And>c'. AList.update ?k c' cs = as @ (?k, c') # bs" using update_kid [OF c] by blast
    show ?thesis
    proof (cases "?m < node_len (info c)")
      case True
      obtain t e2 where rc2: "read_clock cf e1 = (t, e2)" by fastforce
      obtain upper e3 where sp: "split_node cf ?i (touch t c) ?m e2 = (upper, e3)" by fastforce
      have r: "t' = RNode ?i (as @ (?k, upper) # bs)"
        using 1(4,5) ne c f(1) True ab(2) by (auto simp: rc rc2 sp gck Let_def)
      then show ?thesis using split_slots [OF sp] by (simp add: ab(1) slots_RNode)
    next
      case deep: False
      obtain c' vs' where IH: "match_prefix_helper cf c (key_from ?m key) e1 = Inr (c', vs', last_node, e')"
        and r: "t' = RNode ?i (as @ (?k, c') # bs)"
        using 1(4,5) ne c f(1) deep ab(2) by (auto simp: rc rbind_Inr_iff Let_def)
      show ?thesis using 1(1) [OF c f(3) key_ok_from [OF 1(3) f(5)] 1(4) IH] by (simp add: r ab(1) slots_RNode)
    qed
  qed
qed

text \<open>An insertion adds the slots of the tokens that were not there.\<close>

lemma insert_slots:
  "tree_ok page t \<Longrightarrow> key_ok page key \<Longrightarrow> cf_page cf = page \<Longrightarrow> length val = key_len key \<Longrightarrow> insert_helper cf t key val e = Inr (t', n, e') \<Longrightarrow>
    tree_slots t' = tree_slots t + mset (drop n val)"
proof (induction t arbitrary: key val e t' n e' rule: rnode_walk_induct)
  case (1 i cs key val e t' n e')
  obtain now e1 where rc: "read_clock cf e = (now, e1)" by fastforce
  let ?i = "i\<lparr>ni_access := now\<rparr>" and ?k = "get_child_key page key"
  have leafsl: "tree_slots t' = tree_slots node + mset v"
    if al: "add_leaf cf node key v e = (t', e')" and new: "map_of (kids node) (get_child_key (cf_page cf) key) = None" for node key v e t' e'
  proof -
    obtain j where "t' = RNode (info node) (kids node @ [(get_child_key (cf_page cf) key, RNode j [])])" "ni_value j = v"
      using add_leaf_shape [OF al] update_new [OF new] by auto
    then show ?thesis by (cases node) (simp add: slots_RNode)
  qed
  show ?case
  proof (cases "rk_tokens key = []")
    case True
    then show ?thesis using 1(4,5,6) by (auto simp: rc slots_RNode key_len_def Let_def)
  next
    case ne: False
    show ?thesis
    proof (cases "map_of cs ?k")
      case None
      obtain t e2 where al: "add_leaf cf (RNode ?i cs) key val e1 = (t, e2)" by fastforce
      then have "t' = t" "n = 0" using 1(4,6) ne None by (auto simp: rc al Let_def)
      then show ?thesis using leafsl [OF al] None 1(4) by (simp add: slots_RNode)
    next
      case c: (Some c)
      note f = found_kid [OF 1(2) c 1(3) ne]
      let ?m = "kid_match page c key"
      have gck: "get_child_key page (ni_key (info c)) = ?k" using f(2) by (simp add: kid_ok_def Let_def)
      obtain as bs where ab: "cs = as @ (?k, c) # bs" "\<And>c'. AList.update ?k c' cs = as @ (?k, c') # bs" using update_kid [OF c] by blast
      show ?thesis
      proof (cases "?m < node_len (info c)")
        case True
        obtain t e2 where rc2: "read_clock cf e1 = (t, e2)" by fastforce
        obtain upper e3 where sp: "split_node cf ?i (touch t c) ?m e2 = (upper, e3)" by fastforce
        let ?key = "key_from ?m key" and ?val = "drop ?m val"
        obtain upper' e4 where up: "(if rk_tokens ?key = [] then (upper, e3) else add_leaf cf upper ?key ?val e3) = (upper', e4)" by fastforce
        have r: "t' = RNode ?i (as @ (?k, upper') # bs)" "n = ?m"
          using 1(4,6) ne c f(1) True
          by (simp_all only: insert_helper.simps rc Let_def case_prod_conv option.case rbind_simps gck rc2 sp up if_True if_False ab(2) sum.inject prod.inject)
        have stop: "map_of (kids upper) (get_child_key page ?key) = None" if "rk_tokens ?key \<noteq> []"
        proof -
          have "0 < page" using 1(3) by (simp add: key_ok_def)
          from page_prefix_stop [OF this, of "rk_tokens (ni_key (info c))" "rk_tokens key"] that True
          show ?thesis using split_node_shape [OF sp] 1(4) by (auto simp: kid_match_def node_len_def key_len_def get_child_key_def touch_def)
        qed
        have "tree_slots upper = tree_slots c" by (rule split_slots [OF sp])
        moreover have "tree_slots upper' = tree_slots upper + mset ?val"
        proof (cases "rk_tokens ?key = []")
          case True
          then show ?thesis using up 1(5) by (simp add: key_len_def)
        next
          case False
          then show ?thesis using leafsl [of upper ?key ?val e3 upper' e4] stop up 1(4) by simp
        qed
        ultimately show ?thesis unfolding r ab(1) by (simp add: slots_RNode ac_simps)
      next
        case deep: False
        obtain c' n' where IH: "insert_helper cf c (key_from ?m key) (drop ?m val) e1 = Inr (c', n', e')"
          and r: "t' = RNode ?i (as @ (?k, c') # bs)" "n = ?m + n'"
          using 1(4,6) ne c f(1) deep ab(2) by (auto simp: rc rbind_Inr_iff Let_def)
        have "tree_slots c' = tree_slots c + mset (drop n' (drop ?m val))"
          using 1(1) [OF c f(3) key_ok_from [OF 1(3) f(5)] 1(4) _ IH] 1(5) by (simp add: key_len_def)
        then show ?thesis unfolding r ab(1) by (simp add: slots_RNode ac_simps)
      qed
    qed
  qed
qed

lemma match_prefix_correct:
  assumes "radix_inv cf H rx"
  shows "\<exists>last_node rx'. match_prefix cf key rx = Inr (cached cf rx (search_key cf key), last_node, rx') \<and> radix_inv cf H rx' \<and>
    (\<forall>q. key_ok (cf_page cf) q \<longrightarrow> cached cf rx' q = cached cf rx q) \<and>
    spells (rx_root rx') last_node (key_upto (length (cached cf rx (search_key cf key))) (search_key cf key)) (cached cf rx (search_key cf key)) \<and>
    keeps S (rx_root rx) (rx_root rx') \<and> rx_alloc rx' = rx_alloc rx \<and> rx_pool rx' = rx_pool rx \<and>
    set_mset (node_ids (rx_root rx)) \<subseteq> set_mset (node_ids (rx_root rx')) \<and> te_root (rx_env rx') = te_root (rx_env rx) \<and>
    tree_slots (rx_root rx') = tree_slots (rx_root rx)"
proof -
  let ?page = "cf_page cf" and ?k = "search_key cf key"
  have p: "0 < ?page" "\<not> cf_disable cf" "tree_ok ?page (rx_root rx)" "ni_id (info (rx_root rx)) = te_root (rx_env rx)"
    using assms by (auto simp: radix_inv_def)
  show ?thesis
  proof (cases "key_len ?k = 0")
    case True
    then have "rk_tokens ?k = []" by (simp add: key_len_def)
    moreover have "match_prefix cf key rx = Inr ([], te_root (rx_env rx), rx)"
      using True by (auto simp: match_prefix_def search_key_def Let_def key_upto_all)
    moreover have "spells (rx_root rx) (te_root (rx_env rx)) (key_upto 0 ?k) []"
      using spells.here [of "key_upto 0 ?k" "rx_root rx"] p(4) by simp
    ultimately show ?thesis using assms by (simp add: cached_def)
  next
    case False
    have kk: "(if ?page \<noteq> 1 then key_upto (key_len (key_convert (cf_eagle cf) key) div ?page * ?page) (key_convert (cf_eagle cf) key)
        else key_convert (cf_eagle cf) key) = ?k"
      by (auto simp: search_key_def Let_def key_upto_all)
    have nz: "key_len (key_convert (cf_eagle cf) key) \<noteq> 0" using False by (auto simp: search_key_def Let_def key_len_def key_upto_def)
    obtain t vs last_node e where m: "match_prefix_helper cf (rx_root rx) ?k (rx_env rx) = Inr (t, vs, last_node, e)"
      "concat vs = lookup ?page (rx_root rx) ?k" "tree_ok ?page t" "\<forall>q. key_ok ?page q \<longrightarrow> lookup ?page t q = lookup ?page (rx_root rx) q"
      using match_prefix_helper_correct [OF p(3) search_key_ok [OF p(1)] refl] by blast
    note g = match_grows [OF p(3) search_key_ok [OF p(1)] refl m(1)]
    have run: "match_prefix cf key rx = Inr (cached cf rx ?k, last_node, rx\<lparr>rx_root := t, rx_env := e\<rparr>)"
      using p(2) nz False m(1,2) unfolding match_prefix_def Let_def kk by (simp add: cached_def)
    show ?thesis
      using run grown_inv(1,3) [OF assms _ m(3), of e] grown_inv(2) [OF assms _ m(3), of e S] g m(4) match_slots [OF p(3) search_key_ok [OF p(1)] refl m(1)] by (auto simp: cached_def)
  qed
qed

definition insert_value :: "cache_config \<Rightarrow> radix_key \<Rightarrow> int list \<Rightarrow> int list" where
  "insert_value cf key val = (if cf_eagle cf then take (key_len (key_convert (cf_eagle cf) key)) val else val)"

lemma radix_insert_correct:
  assumes "radix_inv cf H rx" "key_ok (cf_page cf) (key_convert (cf_eagle cf) key)"
    and "length (insert_value cf key val) = key_len (key_convert (cf_eagle cf) key)"
  shows "\<exists>rx'. radix_insert cf key val rx = Inr (length (cached cf rx (key_convert (cf_eagle cf) key)), rx') \<and> radix_inv cf H rx' \<and>
    (\<forall>q. key_ok (cf_page cf) q \<longrightarrow> cached cf rx' q = insert_lookup (cf_page cf) (key_convert (cf_eagle cf) key) (insert_value cf key val) (cached cf rx) q) \<and>
    tree_slots (rx_root rx') = tree_slots (rx_root rx) + mset (drop (length (cached cf rx (key_convert (cf_eagle cf) key))) (insert_value cf key val)) \<and>
    keeps S (rx_root rx) (rx_root rx') \<and> rx_alloc rx' = rx_alloc rx \<and> rx_pool rx' = rx_pool rx \<and>
    set_mset (node_ids (rx_root rx)) \<subseteq> set_mset (node_ids (rx_root rx')) \<and> te_root (rx_env rx') = te_root (rx_env rx)"
proof -
  let ?page = "cf_page cf" and ?k = "key_convert (cf_eagle cf) key" and ?v = "insert_value cf key val"
  have p: "\<not> cf_disable cf" "tree_ok ?page (rx_root rx)" using assms by (auto simp: radix_inv_def)
  obtain t n e where m: "insert_helper cf (rx_root rx) ?k ?v (rx_env rx) = Inr (t, n, e)" "n = length (lookup ?page (rx_root rx) ?k)" "tree_ok ?page t"
    "\<forall>q. key_ok ?page q \<longrightarrow> lookup ?page t q = insert_lookup ?page ?k ?v (lookup ?page (rx_root rx)) q"
    using insert_helper_correct [OF p(2) assms(2) refl assms(3)] by blast
  note g = insert_grows [OF p(2) assms(2) refl m(1)] and s = insert_slots [OF p(2) assms(2) refl assms(3) m(1)]
  have run: "radix_insert cf key val rx = Inr (n, rx\<lparr>rx_root := t, rx_env := e\<rparr>)"
    using p(1) m(1) by (simp add: radix_insert_def Let_def insert_value_def)
  have "insert_lookup ?page ?k ?v (cached cf rx) = insert_lookup ?page ?k ?v (lookup ?page (rx_root rx))"
    by (simp add: insert_lookup_def cached_def Let_def fun_eq_iff)
  then show ?thesis
    using run grown_inv(1,3) [OF assms(1) _ m(3), of e] grown_inv(2) [OF assms(1) _ m(3), of e S] g m(2,4) s by (auto simp: cached_def)
qed

end
