(* ===== verification/RadixSystem.thy ===== *)
theory RadixSystem
  imports RadixCorrect
begin

text \<open>
  The cache as a system: locks, eviction and reset keep its invariant, so every reachable state has it;
  requests give their slots to the cache or back to the allocator, each slot exactly once.
\<close>

section \<open>Locks\<close>

lemma alike_slots: "alike t t' \<Longrightarrow> tree_slots t' = tree_slots t"
proof (induction rule: alike.induct)
  case (1 j i cs ds)
  have "map (\<lambda>kc. tree_slots (snd kc)) ds = map (\<lambda>kc. tree_slots (snd kc)) cs"
    using 1(4) by (auto simp: list_all2_conv_all_nth intro!: nth_equalityI)
  then show ?case using 1(3) by (simp add: slots_RNode)
qed

context lock_change
begin

lemma kids_change:
  assumes "lock_kids f n cs = Some (cs', x)" "lock_ok H (RNode i cs)" "once (node_ids (RNode i cs))"
  shows "lock_ok H' (RNode i cs') \<and> node_ids (RNode i cs') = node_ids (RNode i cs) \<and> alike (RNode i cs) (RNode i cs') \<and>
    unlocked_len (RNode i cs') = unlocked_len (RNode i cs) + x \<and> locked_len (RNode i cs') = locked_len (RNode i cs) - x"
proof -
  have o: "once (sum_list (map (\<lambda>kc. node_ids (snd kc)) cs))" using assms(3) by (simp add: node_ids_RNode)
  have l: "\<forall>kc \<in> set cs. lock_all H (snd kc)" using assms(2) by (simp add: lock_ok_all)
  note c = path_correct(2) [OF assms(1) l o]
  have "alike (RNode i cs) (RNode i cs')" using c by (intro alike.intros) auto
  then show ?thesis using c by (simp add: lock_ok_all node_ids_RNode len_RNode)
qed

end

lemma change_lock_correct:
  assumes inv: "radix_inv cf H rx" and law: "lock_change f n H H' d" and n: "n \<in># node_ids (rx_root rx)" "n \<noteq> te_root (rx_env rx)"
    and H': "set_mset H' \<subseteq> set_mset (node_ids (rx_root rx))" "te_root (rx_env rx) \<notin># H'"
  shows "\<exists>delta rx'. change_lock f cf n rx = Inr (delta, rx') \<and> radix_inv cf H' rx' \<and> alike (rx_root rx) (rx_root rx') \<and>
    node_ids (rx_root rx') = node_ids (rx_root rx) \<and> rx_alloc rx' = rx_alloc rx \<and> rx_pool rx' = rx_pool rx \<and>
    te_root (rx_env rx') = te_root (rx_env rx)"
proof -
  obtain i cs where t: "rx_root rx = RNode i cs" by (cases "rx_root rx")
  have i: "0 < cf_page cf" "\<not> cf_disable cf" "tree_ok (cf_page cf) (RNode i cs)" "ni_id i = te_root (rx_env rx)" "lock_ok H (RNode i cs)"
    "te_evictable (rx_env rx) = unlocked_len (RNode i cs)" "te_protected (rx_env rx) = locked_len (RNode i cs)"
    "ids_ok (te_next (rx_env rx)) (RNode i cs)" "rk_tokens (ni_key i) = []" "ni_value i = []"
    using inv by (auto simp: radix_inv_def tree_inv_def t)
  have "n \<in># sum_list (map (\<lambda>kc. node_ids (snd kc)) cs)" using n i(4) by (simp add: t node_ids_RNode)
  from lock_reaches(2) [OF this, of f] obtain cs' x where l: "lock_kids f n cs = Some (cs', x)" by auto
  note c = lock_change.kids_change [OF law l i(5) ids_ok_once [OF i(8)]]
  let ?rx = "rx\<lparr>rx_root := RNode i cs', rx_env := (rx_env rx)\<lparr>te_evictable := te_evictable (rx_env rx) + x,
    te_protected := te_protected (rx_env rx) - x\<rparr>\<rparr>"
  have "change_lock f cf n rx = Inr (x, ?rx)" using i(2) n(2) l by (simp add: change_lock_def t)
  moreover have "ids_ok (te_next (rx_env rx)) (RNode i cs')" using i(8) c by (simp add: ids_ok_def)
  then have "radix_inv cf H' ?rx"
    using c i alike_tree_ok [of "RNode i cs" "RNode i cs'" "cf_page cf"] H' by (simp add: radix_inv_def tree_inv_def t)
  ultimately show ?thesis using c by (simp add: t)
qed

text \<open>The holders after a node is locked: the root is never locked.\<close>

definition holding :: "'a radix_cache \<Rightarrow> nat \<Rightarrow> nat multiset \<Rightarrow> nat multiset" where
  "holding rx n H = (if n = te_root (rx_env rx) then H else add_mset n H)"

lemma lock_root: "radix_inv cf H rx \<Longrightarrow> change_lock f cf (te_root (rx_env rx)) rx = Inr (0, rx)"
  by (simp add: change_lock_def radix_inv_def)

lemma root_in: "radix_inv cf H rx \<Longrightarrow> te_root (rx_env rx) \<in># node_ids (rx_root rx)"
  using info_in_nodes unfolding radix_inv_def node_ids_def by (metis image_eqI set_image_mset)

lemma inv_holders: "radix_inv cf H rx \<Longrightarrow> set_mset H \<subseteq> set_mset (node_ids (rx_root rx)) \<and> te_root (rx_env rx) \<notin># H"
  by (simp add: radix_inv_def tree_inv_def)

lemma inc_lock_correct:
  assumes "radix_inv cf H rx" "n \<in># node_ids (rx_root rx)"
  shows "\<exists>delta rx'. inc_lock_ref cf n rx = Inr (delta, rx') \<and> radix_inv cf (holding rx n H) rx' \<and> alike (rx_root rx) (rx_root rx') \<and>
    node_ids (rx_root rx') = node_ids (rx_root rx) \<and> rx_alloc rx' = rx_alloc rx \<and> rx_pool rx' = rx_pool rx \<and>
    te_root (rx_env rx') = te_root (rx_env rx)"
proof (cases "n = te_root (rx_env rx)")
  case True
  then show ?thesis using lock_root [OF assms(1)] assms(1) by (simp add: inc_lock_ref_def holding_def)
next
  case False
  have "set_mset (add_mset n H) \<subseteq> set_mset (node_ids (rx_root rx))" "te_root (rx_env rx) \<notin># add_mset n H"
    using inv_holders [OF assms(1)] assms(2) False by auto
  from change_lock_correct [OF assms(1) inc_lock.lock_change_axioms assms(2) False this]
  show ?thesis using False by (simp add: inc_lock_ref_def holding_def)
qed

lemma dec_lock_correct:
  assumes "radix_inv cf (holding rx n H) rx"
  shows "\<exists>delta rx'. dec_lock_ref cf n rx = Inr (delta, rx') \<and> radix_inv cf H rx' \<and> alike (rx_root rx) (rx_root rx') \<and>
    node_ids (rx_root rx') = node_ids (rx_root rx) \<and> rx_alloc rx' = rx_alloc rx \<and> rx_pool rx' = rx_pool rx \<and>
    te_root (rx_env rx') = te_root (rx_env rx)"
proof (cases "n = te_root (rx_env rx)")
  case True
  then show ?thesis using lock_root [OF assms] assms by (simp add: dec_lock_ref_def holding_def)
next
  case False
  then have inv: "radix_inv cf (add_mset n H) rx" using assms by (simp add: holding_def)
  have h: "n \<in># node_ids (rx_root rx)" "set_mset H \<subseteq> set_mset (node_ids (rx_root rx))" "te_root (rx_env rx) \<notin># H"
    using inv_holders [OF inv] by auto
  from change_lock_correct [OF inv dec_lock.lock_change_axioms h(1) False h(2,3)]
  show ?thesis by (simp add: dec_lock_ref_def)
qed

section \<open>Eviction\<close>

lemma value_lens: "tree_ok page t \<Longrightarrow> i \<in># nodes t \<Longrightarrow> i = info t \<or> length (ni_value i) = node_len i"
proof (induction t rule: rnode_kid_induct)
  case (1 j cs)
  show ?case
  proof (cases "i = j")
    case False
    then obtain kc where kc: "kc \<in> set cs" "i \<in># nodes (snd kc)" using 1(3) by auto
    have "tree_ok page (snd kc)" "kid_ok page kc" using 1(2) kc(1) by (auto simp: tree_ok.simps)
    then show ?thesis using 1(1) [OF kc(1) _ kc(2)] by (auto simp: kid_ok_def Let_def node_len_def)
  qed simp
qed

lemma total_size_nodes: "int (total_size t) = (\<Sum>i \<in># nodes t. int (length (ni_value i)))"
proof (induction t rule: rnode_kid_induct)
  case (1 i cs)
  have s: "(\<Sum>i \<in># sum_list (map (\<lambda>kc. nodes (snd kc)) ds). int (length (ni_value i))) = int (sum_list (map (\<lambda>kc. total_size (snd kc)) ds))"
    if "set ds \<subseteq> set cs" for ds
    using that by (induction ds) (auto simp: 1)
  show ?case using s [of cs] by simp
qed

lemma total_size_lens: "unlocked_len t + locked_len t = (\<Sum>i \<in># nodes t. int (node_len i))"
proof -
  have "unlocked_len t + locked_len t = (\<Sum>i \<in># nodes t. (if ni_lock i = 0 then int (node_len i) else 0) + (if ni_lock i = 0 then 0 else int (node_len i)))"
    unfolding unlocked_len_def locked_len_def by (simp only: sum_mset.distrib)
  also have "\<dots> = (\<Sum>i \<in># nodes t. int (node_len i))" by (rule arg_cong [where f = sum_mset], rule image_mset_cong) simp
  finally show ?thesis .
qed

lemma inv_lens: "radix_inv cf H rx \<Longrightarrow> i \<in># nodes (rx_root rx) \<Longrightarrow> length (ni_value i) = node_len i"
  using value_lens [of "cf_page cf" "rx_root rx" i] by (auto simp: radix_inv_def node_len_def key_len_def)

lemma inv_sizes:
  assumes "radix_inv cf H rx"
  shows "evictable_size rx = unlocked_len (rx_root rx)" "protected_size rx = locked_len (rx_root rx)"
    "evictable_size rx + protected_size rx = int (total_size (rx_root rx))"
proof -
  show s: "evictable_size rx = unlocked_len (rx_root rx)" "protected_size rx = locked_len (rx_root rx)"
    using assms by (simp_all add: radix_inv_def tree_inv_def evictable_size_def protected_size_def)
  have "(\<Sum>i \<in># nodes (rx_root rx). int (node_len i)) = (\<Sum>i \<in># nodes (rx_root rx). int (length (ni_value i)))"
    using inv_lens [OF assms] by (intro arg_cong [where f = sum_mset] image_mset_cong) simp
  then show "evictable_size rx + protected_size rx = int (total_size (rx_root rx))"
    using s total_size_lens [of "rx_root rx"] total_size_nodes [of "rx_root rx"] by simp
qed

text \<open>\<open>rs\<close> are the nodes that one call evicts, in order.\<close>

definition evicted :: "cache_config \<Rightarrow> int \<Rightarrow> 'a radix_cache \<Rightarrow> 'a radix_cache \<Rightarrow> node_info list \<Rightarrow> bool" where
  "evicted cf num_tokens rx rx' rs \<longleftrightarrow>
     nodes (rx_root rx) = nodes (rx_root rx') + mset rs \<and> (\<forall>i \<in> set rs. ni_lock i = 0) \<and>
     (num_tokens \<le> int (length (concat (map ni_value rs))) \<or> evictable_size rx' = 0) \<and>
     (rs \<noteq> [] \<longrightarrow> int (length (concat (map ni_value (butlast rs)))) < num_tokens \<and>
        (\<forall>i \<in> leaves (rx_root rx). ni_lock i = 0 \<and> ni_id i \<noteq> te_root (rx_env rx) \<longrightarrow>
           get_priority (cf_policy cf) (hd rs) @ [ni_access (hd rs)] \<le> get_priority (cf_policy cf) i @ [ni_access i]))"

lemma slots_nodes: "nodes t = nodes t' + mset rs \<Longrightarrow> tree_slots t = tree_slots t' + mset (concat (map ni_value rs))"
proof -
  have "(\<Sum>i \<in># mset rs. mset (ni_value i)) = mset (concat (map ni_value rs))" by (induction rs) auto
  then show "nodes t = nodes t' + mset rs \<Longrightarrow> tree_slots t = tree_slots t' + mset (concat (map ni_value rs))" by (simp add: tree_slots_def)
qed

lemma evict_inv:
  assumes inv: "radix_inv cf H rx"
  shows "\<exists>rs. evicted cf num rx (evict cf free num rx) rs \<and> radix_inv cf H (evict cf free num rx) \<and>
    rx_alloc (evict cf free num rx) = fold free (map ni_value rs) (rx_alloc rx) \<and>
    tree_slots (rx_root rx) = tree_slots (rx_root (evict cf free num rx)) + mset (concat (map ni_value rs)) \<and>
    keeps (\<lambda>n. n \<in># H) (rx_root rx) (rx_root (evict cf free num rx)) \<and> rx_pool (evict cf free num rx) = rx_pool rx \<and>
    te_root (rx_env (evict cf free num rx)) = te_root (rx_env rx)"
proof -
  let ?t = "rx_root rx" and ?e = "rx_env rx"
  let ?heap = "heapify (map (heap_entry (cf_policy cf)) (collect_leaves [?t]))"
  have i: "\<not> cf_disable cf" "tree_ok (cf_page cf) ?t" "tree_inv H (?t, te_next ?e, te_evictable ?e)" "ni_id (info ?t) = te_root ?e"
    using inv by (auto simp: radix_inv_def)
  obtain t e al where l: "evict_loop cf free num ?heap 0 ?t ?e (rx_alloc rx) = (t, e, al)" by (metis prod_cases3)
  obtain rs where rs: "evicts H cf free num 0 (?t, ?e, rx_alloc rx) (t, e, al) rs"
    using evict_loop_correct [OF l i(3,2,4) root_len [OF inv] heap_ok_initial] by blast
  have ev: "evict cf free num rx = rx\<lparr>rx_root := t, rx_env := e, rx_alloc := al\<rparr>" using i(1) l by (simp add: evict_def)
  have r: "radix_inv cf H (evict cf free num rx)" using rs inv unfolding ev by (clarsimp simp: evicts_def radix_inv_def)
  have "evictable_size (evict cf free num rx) = unlocked_len t" using inv_sizes(1) [OF r] by (simp add: ev)
  then have "evicted cf num rx (evict cf free num rx) rs" using rs by (simp add: evicts_def evicted_def ev heap_entry_def)
  moreover have "nodes ?t = nodes t + mset rs" using rs by (simp add: evicts_def)
  ultimately show ?thesis using r rs slots_nodes [of ?t t rs] by (intro exI [of _ rs]) (simp add: evicts_def ev)
qed

section \<open>Reset\<close>

lemma reset_inv:
  assumes "0 < cf_page cf" "\<not> cf_disable cf"
  shows "radix_inv cf {#} (radix_reset cf rx) \<and> evictable_size (radix_reset cf rx) = 0 \<and> protected_size (radix_reset cf rx) = 0 \<and>
    cached cf (radix_reset cf rx) q = []"
proof -
  have "tree_ok p (RNode i [])" "lock_ok {#} (RNode i [])" "lookup p (RNode i []) q = []" for p i
    by (simp_all add: tree_ok.simps lock_ok.simps lookup_eq)
  then show ?thesis using assms
    by (simp add: radix_reset_def new_tree_node_def read_clock_def record_all_cleared_event_def Let_def radix_inv_def tree_inv_def
        ids_ok_def node_ids_RNode unlocked_len_def locked_len_def evictable_size_def protected_size_def node_len_def key_len_def cached_def)
qed

section \<open>Every reachable state\<close>

text \<open>One operation of the cache, with the holders of its nodes: a match, the insertion of an aligned
  key, a lock, the unlock of a held node, an eviction, and a reset when no request holds a node.\<close>

inductive radix_step :: "cache_config \<Rightarrow> (int list \<Rightarrow> 'a \<Rightarrow> 'a) \<Rightarrow> 'a radix_cache \<times> nat multiset \<Rightarrow> 'a radix_cache \<times> nat multiset \<Rightarrow> bool" for cf free where
  step_match: "match_prefix cf key rx = Inr (vs, n, rx') \<Longrightarrow> radix_step cf free (rx, H) (rx', H)"
| step_insert: "key_ok (cf_page cf) (key_convert (cf_eagle cf) key) \<Longrightarrow>
    length (insert_value cf key val) = key_len (key_convert (cf_eagle cf) key) \<Longrightarrow>
    radix_insert cf key val rx = Inr (n, rx') \<Longrightarrow> radix_step cf free (rx, H) (rx', H)"
| step_lock: "n \<in># node_ids (rx_root rx) \<Longrightarrow> inc_lock_ref cf n rx = Inr (d, rx') \<Longrightarrow> radix_step cf free (rx, H) (rx', holding rx n H)"
| step_unlock: "dec_lock_ref cf n rx = Inr (d, rx') \<Longrightarrow> radix_step cf free (rx, holding rx n H) (rx', H)"
| step_evict: "radix_step cf free (rx, H) (evict cf free num rx, H)"
| step_reset: "radix_step cf free (rx, {#}) (radix_reset cf rx, {#})"

lemma step_inv: "radix_step cf free s s' \<Longrightarrow> radix_inv cf (snd s) (fst s) \<Longrightarrow> radix_inv cf (snd s') (fst s')"
proof (induction rule: radix_step.induct)
  case (step_match key rx vs n rx' H)
  then show ?case using match_prefix_correct [of cf H rx key "\<lambda>_. True"] by auto
next
  case (step_insert key val rx n rx' H)
  then show ?case using radix_insert_correct [of cf H rx key val "\<lambda>_. True"] by auto
next
  case (step_lock n rx d rx' H)
  then show ?case using inc_lock_correct [of cf H rx n] by auto
next
  case (step_unlock n rx d rx' H)
  then show ?case using dec_lock_correct [of cf rx n H] by auto
next
  case (step_evict rx H num)
  then show ?case using evict_inv [of cf H rx num free] by auto
next
  case (step_reset rx)
  then show ?case using reset_inv [of cf rx] by (simp add: radix_inv_def)
qed

lemma radix_reachable_inv:
  assumes "(radix_step cf free)\<^sup>*\<^sup>* (radix_reset cf rx0, {#}) (rx, H)" "0 < cf_page cf" "\<not> cf_disable cf"
  shows "radix_inv cf H rx"
proof -
  have "radix_inv cf (snd s) (fst s)" if "(radix_step cf free)\<^sup>*\<^sup>* (radix_reset cf rx0, {#}) s" for s
    using that reset_inv [OF assms(2,3), of rx0] by (induction rule: rtranclp_induct) (auto intro: step_inv)
  from this [OF assms(1)] show ?thesis by simp
qed

lemma no_holder_lens: "lock_ok {#} t \<Longrightarrow> node_len (info t) = 0 \<Longrightarrow> locked_len t = 0"
proof -
  have z: "lock_all {#} t \<Longrightarrow> locked_len t = 0" for t
  proof (induction t rule: rnode_kid_induct)
    case (1 i cs)
    have "locked_len (snd kc) = 0" if "kc \<in> set cs" for kc using 1 that by (simp add: lock_all_def lock_ok_all)
    then show ?case using 1(2) by (simp add: len_RNode lock_all_def holders_def map_idI sum_list_0 cong: map_cong)
  qed
  obtain i cs where t: "t = RNode i cs" by (cases t)
  assume "lock_ok {#} t" "node_len (info t) = 0"
  moreover have "sum_list (map (\<lambda>kc. locked_len (snd kc)) cs) = 0" if "lock_ok {#} t"
    using that z by (simp add: t lock_ok_all map_idI sum_list_0 cong: map_cong)
  ultimately show ?thesis by (simp add: t len_RNode)
qed

end
