(* ===== verification/RadixRequests.thy ===== *)
theory RadixRequests
  imports RadixSystem
begin

text \<open>
  Requests and the radix cache: a request holds its last node and owns the slots of its row after the
  prefix it matched. Caching it, finished or not, moves these slots into the tree or back to the
  allocator, each exactly once. Proved for every allocator that satisfies \<open>kv_allocator\<close>.
\<close>

section \<open>What a request owns\<close>

definition req_key :: "radix_req \<Rightarrow> int list \<Rightarrow> radix_key" where
  "req_key r toks = \<lparr>rk_tokens = map Tok toks, rk_extra = rr_extra r\<rparr>"

definition req_row :: "radix_req \<Rightarrow> int list \<Rightarrow> 'a radix_cache \<Rightarrow> int list" where
  "req_row r toks rx = req_tokens (rr_pool_idx r) (int (length toks)) (rx_pool rx)"

text \<open>The row is as long as the tokens, and the path to the locked node spells the matched prefix.\<close>

definition owns :: "radix_req \<Rightarrow> int list \<Rightarrow> 'a radix_cache \<Rightarrow> bool" where
  "owns r toks rx \<longleftrightarrow> rr_pool_idx r < length (rp_table (rx_pool rx)) \<and> length (req_row r toks rx) = length toks \<and>
     length (rr_prefix r) \<le> length toks \<and>
     spells (rx_root rx) (rr_last_node r) (req_key r (take (length (rr_prefix r)) toks)) (take (length (rr_prefix r)) (req_row r toks rx))"

lemma req_key_ok [simp]: "key_ok (Suc 0) (req_key r toks)"
  by (simp add: key_ok_def)

lemma req_row_take: "req_row r toks rx = take (length toks) (rp_table (rx_pool rx) ! rr_pool_idx r)"
  by (simp add: req_row_def req_tokens_def py_slice_nonneg)

lemma inv_free_kv [simp]: "radix_inv cf H (free_kv free xs rx) = radix_inv cf H rx"
  by (simp add: radix_inv_def free_kv_def)

lemma inv_free_req [simp]: "radix_inv cf H (free_req_slot idx rx) = radix_inv cf H rx"
  by (simp add: radix_inv_def free_req_slot_def)

lemma inv_pool [simp]: "radix_inv cf H (rx\<lparr>rx_pool := p\<rparr>) = radix_inv cf H rx"
  by (simp add: radix_inv_def)

lemma free_kv_fields [simp]:
  "rx_root (free_kv free xs rx) = rx_root rx" "rx_env (free_kv free xs rx) = rx_env rx" "rx_pool (free_kv free xs rx) = rx_pool rx"
  "rx_alloc (free_kv free xs rx) = free xs (rx_alloc rx)" "cached cf (free_kv free xs rx) = cached cf rx" "owns r toks (free_kv free xs rx) = owns r toks rx"
  by (simp_all add: free_kv_def cached_def fun_eq_iff owns_def req_row_def)

text \<open>The matched prefix is still cached.\<close>

lemma owns_cached:
  assumes "owns r toks rx" "radix_inv cf H rx" "cf_page cf = 1"
  shows "length (rr_prefix r) \<le> length (cached cf rx (req_key r toks))" "length (cached cf rx (req_key r toks)) \<le> length toks"
    "take (length (rr_prefix r)) (cached cf rx (req_key r toks)) = take (length (rr_prefix r)) (req_row r toks rx)"
proof -
  let ?old = "length (rr_prefix r)"
  have ok: "tree_ok (Suc 0) (rx_root rx)" using assms(2,3) by (simp add: radix_inv_def)
  have o: "spells (rx_root rx) (rr_last_node r) (req_key r (take ?old toks)) (take ?old (req_row r toks rx))" "?old \<le> length (req_row r toks rx)"
    using assms(1) by (auto simp: owns_def)
  have "prefix (rk_tokens (req_key r (take ?old toks))) (rk_tokens (req_key r toks))"
    by (simp add: req_key_def take_is_prefix map_mono_prefix)
  from spells_lookup [OF o(1) ok req_key_ok this] have p: "prefix (take ?old (req_row r toks rx)) (cached cf rx (req_key r toks))"
    using assms(3) by (simp add: req_key_def cached_def)
  then show "?old \<le> length (cached cf rx (req_key r toks))" using prefix_length_le [OF p] o(2) by simp
  show "length (cached cf rx (req_key r toks)) \<le> length toks"
    using lookup_length [OF ok req_key_ok [of r toks]] assms(3) by (simp add: cached_def req_key_def key_len_def)
  show "take ?old (cached cf rx (req_key r toks)) = take ?old (req_row r toks rx)" using p o(2) by (auto simp: prefix_def)
qed

lemma page_prefix_refl: "page_prefix (Suc 0) ts ts = length ts"
  using page_prefix_prefix [of "Suc 0" ts ts] by simp

text \<open>Inserting the whole row caches every token.\<close>

lemma insert_row:
  assumes "owns r toks rx" "radix_inv cf H rx" "cf_page cf = 1" "\<not> cf_eagle cf"
  shows "\<exists>rx'. radix_insert cf (req_key r toks) (req_row r toks rx) rx = Inr (length (cached cf rx (req_key r toks)), rx') \<and> radix_inv cf H rx' \<and>
    tree_slots (rx_root rx') = tree_slots (rx_root rx) + mset (drop (length (cached cf rx (req_key r toks))) (req_row r toks rx)) \<and>
    length (cached cf rx' (req_key r toks)) = length toks \<and>
    take (length (rr_prefix r)) (cached cf rx' (req_key r toks)) = take (length (rr_prefix r)) (req_row r toks rx) \<and>
    keeps S (rx_root rx) (rx_root rx') \<and> rx_alloc rx' = rx_alloc rx \<and> rx_pool rx' = rx_pool rx \<and> te_root (rx_env rx') = te_root (rx_env rx)"
proof -
  let ?k = "req_key r toks"
  have k: "key_convert (cf_eagle cf) ?k = ?k" "key_ok (cf_page cf) (key_convert (cf_eagle cf) ?k)"
    "length (insert_value cf ?k (req_row r toks rx)) = key_len (key_convert (cf_eagle cf) ?k)"
    "insert_value cf ?k (req_row r toks rx) = req_row r toks rx"
    using assms by (simp_all add: key_convert_def insert_value_def owns_def key_len_def req_key_def key_ok_def)
  note o = owns_cached [OF assms(1-3)]
  have l: "length (req_row r toks rx) = length toks" using assms(1) by (simp add: owns_def)
  obtain rx' where r: "radix_insert cf ?k (req_row r toks rx) rx = Inr (length (cached cf rx ?k), rx')" "radix_inv cf H rx'"
    "\<forall>q. key_ok (cf_page cf) q \<longrightarrow> cached cf rx' q = insert_lookup (cf_page cf) ?k (req_row r toks rx) (cached cf rx) q"
    "tree_slots (rx_root rx') = tree_slots (rx_root rx) + mset (drop (length (cached cf rx ?k)) (req_row r toks rx))"
    "keeps S (rx_root rx) (rx_root rx')" "rx_alloc rx' = rx_alloc rx" "rx_pool rx' = rx_pool rx" "te_root (rx_env rx') = te_root (rx_env rx)"
    using radix_insert_correct [OF assms(2) k(2,3), of S] unfolding k(1,4) by blast
  have c: "cached cf rx' ?k = take (length toks) (cached cf rx ?k @ drop (length (cached cf rx ?k)) (req_row r toks rx))"
    using r(3) assms(3) o(2) by (simp add: insert_lookup_def covered_def page_prefix_refl Let_def) (simp add: req_key_def)
  then have "length (cached cf rx' ?k) = length toks \<and> take (length (rr_prefix r)) (cached cf rx' ?k) = take (length (rr_prefix r)) (req_row r toks rx)"
    using o l assms(1) by (simp add: owns_def min_def)
  then show ?thesis using r by blast
qed

text \<open>A request that matched nothing holds the root: every other path has a token.\<close>

lemma spells_nil: "spells t n key vs \<Longrightarrow> tree_ok page t \<Longrightarrow> rk_tokens key = [] \<Longrightarrow> n = ni_id (info t)"
proof (induction rule: spells.induct)
  case (there k c t key rest n vs)
  have "kid_ok page (k, c)" using there(1,6) by (cases t) (auto simp: tree_ok.simps)
  then have "rk_tokens (ni_key (info c)) \<noteq> []" by (simp add: kid_ok_def Let_def)
  with there(3,7) show ?case by simp
qed simp

lemma unmatched_holds_root:
  assumes "radix_inv cf H rx" "spells (rx_root rx) n (req_key r []) vs"
  shows "n = te_root (rx_env rx)"
  using spells_nil [OF assms(2), of "cf_page cf"] assms(1) by (simp add: radix_inv_def req_key_def)

section \<open>Finished requests\<close>

definition finished_toks :: "radix_req \<Rightarrow> int list" where
  "finished_toks r = take (nat (finished_len r)) (rr_origin r @ rr_output r)"

lemma finished_toks_len: "int (length (finished_toks r)) = finished_len r"
  by (cases "rr_output r") (auto simp: finished_toks_def finished_len_def min_def nat_add_distrib)

lemma finished_slice: "py_slice (rr_origin r @ rr_output r) 0 (finished_len r) = finished_toks r"
  by (simp add: py_slice_nonneg finished_toks_def finished_len_def)

lemma py_tail_nat: "py_tail xs (int n) = drop n xs"
  by (cases "n \<le> length xs") (simp_all add: py_tail_def)

lemma slice_nat: "py_slice xs (int a) (int b) = drop a (take b xs)"
  by (simp add: py_slice_nonneg)

lemma split_drop: "a \<le> b \<Longrightarrow> mset (drop a (take b xs)) + mset (drop b xs) = mset (drop a xs)"
proof -
  assume "a \<le> b"
  then have "drop a xs = drop a (take b xs) @ drop b xs"
    by (metis append_take_drop_id drop_append drop_drop drop_take le_add_diff_inverse2 take_drop)
  then show ?thesis by simp
qed

context kv_allocator
begin

lemma finished_correct:
  assumes inv: "radix_inv cf (holding rx (rr_last_node r) H) rx" and own: "owns r (finished_toks r) rx"
    and plain: "cf_page cf = 1" "\<not> cf_eagle cf" "\<not> is_blend r"
  shows "\<exists>rx'. cache_finished_req cf free is_insert r rx w = Inr (rx', w) \<and> radix_inv cf H rx' \<and>
    avail (rx_alloc rx') + tree_slots (rx_root rx') =
      avail (rx_alloc rx) + tree_slots (rx_root rx) + mset (drop (length (rr_prefix r)) (req_row r (finished_toks r) rx)) \<and>
    rx_pool rx' = req_pool_free (rr_pool_idx r) (rx_pool rx) \<and> keeps S (rx_root rx) (rx_root rx') \<and>
    (is_insert \<longrightarrow> length (cached cf rx' (req_key r (finished_toks r))) = length (finished_toks r))"
proof -
  let ?toks = "finished_toks r" and ?kv = "req_row r (finished_toks r) rx" and ?old = "length (rr_prefix r)"
  have dis: "\<not> cf_disable cf" using inv by (simp add: radix_inv_def)
  have L: "length ?kv = length ?toks" "?old \<le> length ?toks" using own by (auto simp: owns_def)
  have kv: "req_tokens (rr_pool_idx r) (finished_len r) (rx_pool rx) = ?kv" by (simp add: req_row_def finished_toks_len)
  have key: "\<lparr>rk_tokens = map Tok (py_slice ?toks 0 (finished_len r)), rk_extra = rr_extra r\<rparr> = req_key r ?toks"
    using slice_nat [of ?toks 0 "length ?toks"] by (simp add: req_key_def finished_toks_len)
  have old: "old_prefix_len cf r = int ?old" using plain by (simp add: old_prefix_len_def Let_def)
  have tail: "py_tail ?kv (finished_len r) = []" using py_tail_nat [of ?kv "length ?toks"] L by (simp add: finished_toks_len)
  have rest: "py_slice ?kv (int ?old) (finished_len r) = drop ?old ?kv" using slice_nat [of ?kv ?old "length ?toks"] L by (simp add: finished_toks_len)
  note o = owns_cached [OF own inv plain(1)]
  define n where "n = length (cached cf rx (req_key r ?toks))"
  have run: "cache_finished_req cf free is_insert r rx w =
      rbind (if is_insert then rbind (radix_insert cf (req_key r ?toks) ?kv rx) (\<lambda>(m, rx1). Inr (free_kv free (drop ?old (take m ?kv)) rx1))
             else Inr (free_kv free (drop ?old ?kv) rx)) (\<lambda>rx2.
        rbind (dec_lock_ref cf (rr_last_node r) (free_req_slot (rr_pool_idx r) (free_kv free [] rx2))) (\<lambda>(_, rx3). Inr (rx3, w)))"
    using dis plain L
    by (simp add: cache_finished_req_def Let_def aligned_len_def aligned_kv_def kv finished_slice key old tail rest slice_nat)
  obtain rx2 where m: "(if is_insert then rbind (radix_insert cf (req_key r ?toks) ?kv rx) (\<lambda>(m, rx1). Inr (free_kv free (drop ?old (take m ?kv)) rx1))
             else Inr (free_kv free (drop ?old ?kv) rx)) = Inr rx2" "radix_inv cf (holding rx (rr_last_node r) H) rx2"
    "avail (rx_alloc rx2) + tree_slots (rx_root rx2) = avail (rx_alloc rx) + tree_slots (rx_root rx) + mset (drop ?old ?kv)"
    "rx_pool rx2 = rx_pool rx" "keeps S (rx_root rx) (rx_root rx2)" "te_root (rx_env rx2) = te_root (rx_env rx)"
    "is_insert \<longrightarrow> length (cached cf rx2 (req_key r ?toks)) = length ?toks"
  proof (cases is_insert)
    case True
    obtain rx1 where i: "radix_insert cf (req_key r ?toks) ?kv rx = Inr (n, rx1)" "radix_inv cf (holding rx (rr_last_node r) H) rx1"
      "tree_slots (rx_root rx1) = tree_slots (rx_root rx) + mset (drop n ?kv)" "length (cached cf rx1 (req_key r ?toks)) = length ?toks"
      "keeps S (rx_root rx) (rx_root rx1)" "rx_alloc rx1 = rx_alloc rx" "rx_pool rx1 = rx_pool rx" "te_root (rx_env rx1) = te_root (rx_env rx)"
      using insert_row [OF own inv plain(1,2), of S] unfolding n_def by blast
    have "?old \<le> n" using o(1) by (simp add: n_def)
    from split_drop [OF this, of ?kv]
    have "avail (rx_alloc rx) + mset (drop ?old (take n ?kv)) + (tree_slots (rx_root rx) + mset (drop n ?kv)) =
        avail (rx_alloc rx) + tree_slots (rx_root rx) + mset (drop ?old ?kv)" by (simp add: ac_simps)
    then show thesis using True i
      by (intro that [of "free_kv free (drop ?old (take n ?kv)) rx1"]) (simp_all add: avail_free)
  next
    case False
    then show thesis using inv by (intro that [of "free_kv free (drop ?old ?kv) rx"]) (simp_all add: avail_free ac_simps)
  qed
  let ?rx3 = "free_req_slot (rr_pool_idx r) (free_kv free [] rx2)"
  have "radix_inv cf (holding ?rx3 (rr_last_node r) H) ?rx3" using m(2,6) by (simp add: holding_def free_req_slot_def)
  from dec_lock_correct [OF this] obtain d rx4 where d: "dec_lock_ref cf (rr_last_node r) ?rx3 = Inr (d, rx4)" "radix_inv cf H rx4"
    "alike (rx_root ?rx3) (rx_root rx4)" "rx_alloc rx4 = rx_alloc ?rx3" "rx_pool rx4 = rx_pool ?rx3" by blast
  have a: "alike (rx_root rx2) (rx_root rx4)" using d(3) by (simp add: free_req_slot_def)
  have "cache_finished_req cf free is_insert r rx w = Inr (rx4, w)" unfolding run m(1) using d(1) by simp
  moreover have "keeps S (rx_root rx) (rx_root rx4)" using m(5) alike_keeps [OF a] by (rule keeps_trans)
  moreover have "avail (rx_alloc rx4) + tree_slots (rx_root rx4) = avail (rx_alloc rx) + tree_slots (rx_root rx) + mset (drop ?old ?kv)"
    using m(3) d(4) alike_slots [OF a] by (simp add: free_req_slot_def avail_free)
  ultimately show ?thesis using d(2,5) m(4,7) alike_lookup [OF a] by (simp add: free_req_slot_def cached_def)
qed

text \<open>A blend request gives its whole row back and leaves the tree and its lock alone, which is right when
  it had matched nothing.\<close>

lemma finished_blend:
  assumes inv: "radix_inv cf (holding rx (rr_last_node r) H) rx" and own: "owns r (finished_toks r) rx" and b: "is_blend r"
  shows "\<exists>rx' w'. cache_finished_req cf free is_insert r rx w = Inr (rx', w') \<and>
    w' = (if rr_style r = Some DO_BLEND_FINISH then cleanup_runtime_state w else w) \<and>
    radix_inv cf (holding rx' (rr_last_node r) H) rx' \<and> (rr_prefix r = [] \<longrightarrow> radix_inv cf H rx') \<and>
    avail (rx_alloc rx') = avail (rx_alloc rx) + mset (req_row r (finished_toks r) rx) \<and>
    rx_root rx' = rx_root rx \<and> rx_env rx' = rx_env rx \<and> rx_pool rx' = req_pool_free (rr_pool_idx r) (rx_pool rx)"
proof -
  let ?kv = "req_row r (finished_toks r) rx"
  let ?rx = "free_req_slot (rr_pool_idx r) (free_kv free ?kv rx)"
  have kv: "req_tokens (rr_pool_idx r) (finished_len r) (rx_pool rx) = ?kv" by (simp add: req_row_def finished_toks_len)
  have run: "cache_finished_req cf free is_insert r rx w =
      Inr (?rx, if rr_style r = Some DO_BLEND_FINISH then cleanup_runtime_state w else w)"
    using b by (simp add: cache_finished_req_def finish_uncached_def Let_def kv)
  have f: "rx_root ?rx = rx_root rx" "rx_env ?rx = rx_env rx" "rx_pool ?rx = req_pool_free (rr_pool_idx r) (rx_pool rx)"
    "avail (rx_alloc ?rx) = avail (rx_alloc rx) + mset ?kv"
    by (simp_all add: free_req_slot_def avail_free)
  have h: "holding ?rx (rr_last_node r) H = holding rx (rr_last_node r) H" by (simp add: holding_def f)
  have "radix_inv cf H ?rx" if "rr_prefix r = []"
  proof -
    have "rr_last_node r = te_root (rx_env rx)"
      by (rule unmatched_holds_root [OF inv, of _ r "[]"]) (use own that in \<open>simp add: owns_def\<close>)
    with inv show ?thesis by (simp add: holding_def)
  qed
  then show ?thesis using run f h inv by (intro exI conjI) (rule run, simp_all)
qed

text \<open>Every finished request whose slots are its own: an ordinary one, or a blend request without a match.\<close>

lemma finished_any:
  assumes inv: "radix_inv cf (holding rx (rr_last_node r) H) rx" and own: "owns r (finished_toks r) rx"
    and plain: "cf_page cf = 1" "\<not> cf_eagle cf" and b: "is_blend r \<longrightarrow> rr_prefix r = []"
  shows "\<exists>rx' w'. cache_finished_req cf free is_insert r rx w = Inr (rx', w') \<and> radix_inv cf H rx' \<and>
    avail (rx_alloc rx') + tree_slots (rx_root rx') =
      avail (rx_alloc rx) + tree_slots (rx_root rx) + mset (drop (length (rr_prefix r)) (req_row r (finished_toks r) rx)) \<and>
    rx_pool rx' = req_pool_free (rr_pool_idx r) (rx_pool rx) \<and> keeps S (rx_root rx) (rx_root rx')"
proof (cases "is_blend r")
  case True
  from finished_blend [OF inv own True, of is_insert w] b True show ?thesis
    by (auto simp: ac_simps keeps_def)
next
  case False
  from finished_correct [OF inv own plain False, of is_insert w S] show ?thesis by blast
qed

end

section \<open>Unfinished requests\<close>

lemma search_plain: "cf_page cf = 1 \<Longrightarrow> \<not> cf_eagle cf \<Longrightarrow> search_key cf key = key"
  by (simp add: search_key_def key_convert_def Let_def key_upto_all)

text \<open>The row after the new prefix has been written into it.\<close>

lemma write_row:
  assumes "owns r toks rx" "take (length (rr_prefix r)) vs = take (length (rr_prefix r)) (req_row r toks rx)" "length vs = length toks"
    and "rx_pool rx' = rx_pool rx"
  shows "\<exists>pool. req_pool_write (rr_pool_idx r) (int (length (rr_prefix r))) (int (length vs)) (py_tail vs (int (length (rr_prefix r)))) (rx_pool rx') = Inr pool \<and>
    take (length toks) (rp_table pool ! rr_pool_idx r) = vs \<and> rr_pool_idx r < length (rp_table pool) \<and> rp_free_slots pool = rp_free_slots (rx_pool rx) \<and>
    (\<forall>i. i \<noteq> rr_pool_idx r \<longrightarrow> rp_table pool ! i = rp_table (rx_pool rx) ! i)"
proof -
  let ?idx = "rr_pool_idx r" and ?old = "length (rr_prefix r)" and ?row = "rp_table (rx_pool rx) ! rr_pool_idx r"
  have l: "length toks \<le> length ?row" "?old \<le> length toks" "?idx < length (rp_table (rx_pool rx))"
    using assms(1) by (auto simp: owns_def req_row_take)
  let ?row' = "take ?old ?row @ drop ?old vs @ drop (length toks) ?row"
  have "take ?old ?row = take ?old vs" using assms(2) l by (simp add: req_row_take min_def)
  then have "?row' = vs @ drop (length toks) ?row" by (simp flip: append_assoc)
  from arg_cong [OF this, of "take (length toks)"] have "take (length toks) ?row' = vs" using assms(3) by (simp del: take_append)  (simp add: assms(3))
  moreover have "req_pool_write ?idx (int ?old) (int (length vs)) (py_tail vs (int ?old)) (rx_pool rx') = Inr ((rx_pool rx)\<lparr>rp_table := (rp_table (rx_pool rx))[?idx := ?row']\<rparr>)"
    using l assms(3,4) by (simp add: req_pool_write_def Let_def py_tail_nat min_def max_def)
  ultimately show ?thesis using l by simp
qed

context kv_allocator
begin

lemma unfinished_correct:
  assumes inv: "radix_inv cf (holding rx (rr_last_node r) H) rx" and own: "owns r (rr_fill r) rx"
    and plain: "cf_page cf = 1" "\<not> cf_eagle cf" "\<not> is_blend r"
  shows "\<exists>r' rx'. cache_unfinished_req cf free r rx = Inr (r', rx') \<and> radix_inv cf (holding rx' (rr_last_node r') H) rx' \<and> owns r' (rr_fill r) rx' \<and>
    rr_prefix r' = req_row r' (rr_fill r) rx' \<and> rr_pool_idx r' = rr_pool_idx r \<and>
    avail (rx_alloc rx') + tree_slots (rx_root rx') =
      avail (rx_alloc rx) + tree_slots (rx_root rx) + mset (drop (length (rr_prefix r)) (req_row r (rr_fill r) rx)) \<and>
    rp_free_slots (rx_pool rx') = rp_free_slots (rx_pool rx) \<and> keeps S (rx_root rx) (rx_root rx') \<and>
    (\<forall>i. i \<noteq> rr_pool_idx r \<longrightarrow> rp_table (rx_pool rx') ! i = rp_table (rx_pool rx) ! i)"
proof -
  let ?toks = "rr_fill r" and ?kv = "req_row r (rr_fill r) rx" and ?old = "length (rr_prefix r)" and ?k = "req_key r (rr_fill r)"
  have dis: "\<not> cf_disable cf" using inv by (simp add: radix_inv_def)
  have L: "length ?kv = length ?toks" "?old \<le> length ?toks" using own by (auto simp: owns_def)
  have kv: "req_tokens (rr_pool_idx r) (int (length ?toks)) (rx_pool rx) = ?kv" by (simp add: req_row_def)
  have key: "\<lparr>rk_tokens = map Tok (py_slice ?toks 0 (int (length ?toks))), rk_extra = rr_extra r\<rparr> = ?k"
    using slice_nat [of ?toks 0 "length ?toks"] by (simp add: req_key_def)
  have old: "old_prefix_len cf r = int ?old" using plain by (simp add: old_prefix_len_def Let_def)
  note o = owns_cached [OF own inv plain(1)]
  define n where "n = length (cached cf rx ?k)"
  obtain rx1 where i: "radix_insert cf ?k ?kv rx = Inr (n, rx1)" "radix_inv cf (holding rx (rr_last_node r) H) rx1"
    "tree_slots (rx_root rx1) = tree_slots (rx_root rx) + mset (drop n ?kv)" "length (cached cf rx1 ?k) = length ?toks"
    "take ?old (cached cf rx1 ?k) = take ?old ?kv"
    "keeps S (rx_root rx) (rx_root rx1)" "rx_alloc rx1 = rx_alloc rx" "rx_pool rx1 = rx_pool rx" "te_root (rx_env rx1) = te_root (rx_env rx)"
    using insert_row [OF own inv plain(1,2), of S] unfolding n_def by blast
  let ?rx2 = "free_kv free (drop ?old (take n ?kv)) rx1" and ?new = "cached cf rx1 ?k"
  have "radix_inv cf (holding rx (rr_last_node r) H) ?rx2" using i(2) by simp
  from match_prefix_correct [OF this, of ?k S] obtain last_node rx3 where
    m: "match_prefix cf ?k ?rx2 = Inr (?new, last_node, rx3)" "radix_inv cf (holding rx (rr_last_node r) H) rx3"
    "spells (rx_root rx3) last_node (key_upto (length ?new) ?k) ?new" "keeps S (rx_root rx1) (rx_root rx3)"
    "rx_alloc rx3 = rx_alloc ?rx2" "rx_pool rx3 = rx_pool rx1" "te_root (rx_env rx3) = te_root (rx_env rx1)"
    "tree_slots (rx_root rx3) = tree_slots (rx_root rx1)"
    using search_plain [OF plain(1,2)] by auto
  have "rx_pool rx3 = rx_pool rx" using m(6) i(8) by simp
  from write_row [OF own i(5,4) this] obtain pool where
    w: "req_pool_write (rr_pool_idx r) (int ?old) (int (length ?new)) (py_tail ?new (int ?old)) (rx_pool rx3) = Inr pool"
    "take (length ?toks) (rp_table pool ! rr_pool_idx r) = ?new" "rr_pool_idx r < length (rp_table pool)" "rp_free_slots pool = rp_free_slots (rx_pool rx)"
    "\<forall>i. i \<noteq> rr_pool_idx r \<longrightarrow> rp_table pool ! i = rp_table (rx_pool rx) ! i" by blast
  let ?rx4 = "rx3\<lparr>rx_pool := pool\<rparr>"
  have "radix_inv cf (holding ?rx4 (rr_last_node r) H) ?rx4" using m(2,7) i(9) by (simp add: holding_def)
  from dec_lock_correct [OF this] obtain d5 rx5 where
    d: "dec_lock_ref cf (rr_last_node r) ?rx4 = Inr (d5, rx5)" "radix_inv cf H rx5" "alike (rx_root rx3) (rx_root rx5)"
    "node_ids (rx_root rx5) = node_ids (rx_root rx3)" "rx_alloc rx5 = rx_alloc rx3" "rx_pool rx5 = pool" "te_root (rx_env rx5) = te_root (rx_env rx3)"
    by auto
  have "last_node \<in># node_ids (rx_root rx5)" using spells_id [OF m(3)] d(4) by simp
  from inc_lock_correct [OF d(2) this] obtain d6 rx6 where
    u: "inc_lock_ref cf last_node rx5 = Inr (d6, rx6)" "radix_inv cf (holding rx5 last_node H) rx6" "alike (rx_root rx5) (rx_root rx6)"
    "rx_alloc rx6 = rx_alloc rx5" "rx_pool rx6 = rx_pool rx5" "te_root (rx_env rx6) = te_root (rx_env rx5)" by blast
  let ?r = "r\<lparr>rr_last_matched := int (length ?new), rr_last_node := last_node, rr_prefix := ?new\<rparr>"
  have run: "cache_unfinished_req cf free r rx = Inr (?r, rx6)"
    using dis plain L i(1) m(1) w(1) d(1) u(1)
    by (simp add: cache_unfinished_req_def Let_def aligned_len_def aligned_kv_def kv key old slice_nat)
  have a: "keeps (\<lambda>_. True) (rx_root rx3) (rx_root rx6)" "keeps S (rx_root rx) (rx_root rx6)"
    using alike_keeps [OF d(3)] alike_keeps [OF u(3)] i(6) m(4) by (meson keeps_trans)+
  have row: "req_row ?r ?toks rx6 = ?new" using w(2) u(5) d(6) by (simp add: req_row_take)
  have "spells (rx_root rx6) last_node ?k ?new" using a(1) m(3) i(4) by (simp add: keeps_def key_upto_all key_len_def req_key_def)
  then have "owns ?r ?toks rx6" using w(3) u(5) d(6) i(4) row by (simp add: owns_def req_key_def)
  moreover have "radix_inv cf (holding rx6 last_node H) rx6" using u(2,6) by (simp add: holding_def)
  moreover have "avail (rx_alloc rx6) + tree_slots (rx_root rx6) = avail (rx_alloc rx) + tree_slots (rx_root rx) + mset (drop ?old ?kv)"
  proof -
    have "?old \<le> n" using o(1) by (simp add: n_def)
    from split_drop [OF this, of ?kv] show ?thesis
      using alike_slots [OF d(3)] alike_slots [OF u(3)] m(5,8) i(3,7) u(4) d(5) by (simp add: avail_free ac_simps)
  qed
  ultimately show ?thesis using run a(2) row u(5) d(6) w(4,5) by (intro exI [of _ ?r] exI [of _ rx6]) simp
qed

text \<open>Every unfinished request: what it owns afterwards and what the tree and the allocator have add up to
  what they had; a blend request stays as it is.\<close>

lemma unfinished_any:
  assumes inv: "radix_inv cf (holding rx (rr_last_node r) H) rx" and own: "owns r (rr_fill r) rx"
    and plain: "cf_page cf = 1" "\<not> cf_eagle cf"
  shows "\<exists>r' rx'. cache_unfinished_req cf free r rx = Inr (r', rx') \<and> radix_inv cf (holding rx' (rr_last_node r') H) rx' \<and> owns r' (rr_fill r) rx' \<and>
    rr_pool_idx r' = rr_pool_idx r \<and>
    avail (rx_alloc rx') + tree_slots (rx_root rx') + mset (drop (length (rr_prefix r')) (req_row r' (rr_fill r) rx')) =
      avail (rx_alloc rx) + tree_slots (rx_root rx) + mset (drop (length (rr_prefix r)) (req_row r (rr_fill r) rx)) \<and>
    rp_free_slots (rx_pool rx') = rp_free_slots (rx_pool rx) \<and> keeps S (rx_root rx) (rx_root rx') \<and>
    (\<forall>i. i \<noteq> rr_pool_idx r \<longrightarrow> rp_table (rx_pool rx') ! i = rp_table (rx_pool rx) ! i) \<and>
    (if is_blend r then r' = r \<and> rx' = rx else rr_prefix r' = req_row r' (rr_fill r) rx')"
proof (cases "is_blend r")
  case True
  then have "cache_unfinished_req cf free r rx = Inr (r, rx)" by (simp add: cache_unfinished_req_def)
  with True inv own show ?thesis by (intro exI [of _ r] exI [of _ rx]) (simp add: keeps_def)
next
  case False
  from unfinished_correct [OF inv own plain False, of S] obtain r' rx' where
    u: "cache_unfinished_req cf free r rx = Inr (r', rx')" "radix_inv cf (holding rx' (rr_last_node r') H) rx'" "owns r' (rr_fill r) rx'"
    "rr_prefix r' = req_row r' (rr_fill r) rx'" "rr_pool_idx r' = rr_pool_idx r"
    "avail (rx_alloc rx') + tree_slots (rx_root rx') =
      avail (rx_alloc rx) + tree_slots (rx_root rx) + mset (drop (length (rr_prefix r)) (req_row r (rr_fill r) rx))"
    "rp_free_slots (rx_pool rx') = rp_free_slots (rx_pool rx)" "keeps S (rx_root rx) (rx_root rx')"
    "\<forall>i. i \<noteq> rr_pool_idx r \<longrightarrow> rp_table (rx_pool rx') ! i = rp_table (rx_pool rx) ! i" by blast
  have "drop (length (rr_prefix r')) (req_row r' (rr_fill r) rx') = []" by (simp add: u(4))
  with u False show ?thesis by (intro exI [of _ r'] exI [of _ rx']) simp
qed

end

end
