(* ===== verification/RadixProps.thy ===== *)
theory RadixProps
  imports RadixRequests
begin

text \<open>
  The properties of the radix cache, each with a witness on one small cache: the tokens 1, 2, 3, 4 are
  inserted with slots of the same numbers, and a request for 1, 2, 5 matches two of them, which splits
  the node, and locks the upper part.
\<close>

section \<open>An example\<close>

definition ex_radix_cf :: cache_config where
  "ex_radix_cf = \<lparr>cf_page = 1, cf_disable = False, cf_events = False, cf_eagle = False, cf_policy = LRU, cf_clock = int, cf_hash = (\<lambda>_. 0)\<rparr>"

definition ex_radix_new :: "token_allocator radix_cache" where
  "ex_radix_new = \<lparr>rx_root = RNode \<lparr>ni_id = 0, ni_key = \<lparr>rk_tokens = [], rk_extra = None\<rparr>, ni_value = [], ni_lock = 0, ni_access = 0, ni_created = 0, ni_hits = 0\<rparr> [],
     rx_env = \<lparr>te_next = 0, te_ticks = 0, te_root = 0, te_evictable = 0, te_protected = 0, te_queue = []\<rparr>,
     rx_alloc = \<lparr>ta_size = 8, ta_need_sort = False, ta_free_pages = [6, 7, 8], ta_release_pages = [], ta_not_in_group = True, ta_free_group = []\<rparr>,
     rx_pool = \<lparr>rp_size = 1, rp_max_context_len = 4, rp_table = [[1, 2, 5, 0]], rp_free_slots = []\<rparr>\<rparr>"

definition ex_radix_key :: "int list \<Rightarrow> radix_key" where
  "ex_radix_key toks = \<lparr>rk_tokens = map Tok toks, rk_extra = None\<rparr>"

definition ex_radix_node :: "nat \<Rightarrow> int list \<Rightarrow> int \<Rightarrow> int \<Rightarrow> int \<Rightarrow> (child_key \<times> rnode) list \<Rightarrow> rnode" where
  "ex_radix_node n toks lock access created cs =
     RNode \<lparr>ni_id = n, ni_key = ex_radix_key toks, ni_value = toks, ni_lock = lock, ni_access = access, ni_created = created, ni_hits = 0\<rparr> cs"

definition ex_radix_at :: "rnode \<Rightarrow> nat \<Rightarrow> nat \<Rightarrow> int \<Rightarrow> int \<Rightarrow> token_allocator radix_cache" where
  "ex_radix_at t next_id ticks evictable prot =
     ex_radix_new\<lparr>rx_root := t, rx_env := \<lparr>te_next = next_id, te_ticks = ticks, te_root = 0, te_evictable = evictable, te_protected = prot, te_queue = []\<rparr>\<rparr>"

definition ex_radix_full :: "token_allocator radix_cache" where
  "ex_radix_full = ex_radix_at (ex_radix_node 0 [] 1 2 1 [((None, [Tok 1]), ex_radix_node 1 [1, 2, 3, 4] 0 3 4 [])]) 2 5 4 0"

definition ex_radix_tree :: "int \<Rightarrow> rnode" where
  "ex_radix_tree lock = ex_radix_node 0 [] 1 5 1 [((None, [Tok 1]), ex_radix_node 2 [1, 2] lock 7 8 [((None, [Tok 3]), ex_radix_node 1 [3, 4] 0 6 4 [])])]"

definition ex_radix_held :: "token_allocator radix_cache" where
  "ex_radix_held = ex_radix_at (ex_radix_tree 1) 3 9 2 2"

definition ex_radix_req :: "blend_style option \<Rightarrow> radix_req" where
  "ex_radix_req style = \<lparr>rr_origin = [1, 2, 5], rr_output = [9], rr_fill = [1, 2, 5], rr_pool_idx = 0, rr_style = style, rr_extra = None,
     rr_prefix = [1, 2], rr_last_matched = 2, rr_last_node = 2\<rparr>"

lemma ex_radix_insert: "radix_insert ex_radix_cf (ex_radix_key [1, 2, 3, 4]) [1, 2, 3, 4] (radix_reset ex_radix_cf ex_radix_new) = Inr (0, ex_radix_full)"
  by code_simp

lemma ex_radix_match: "match_prefix ex_radix_cf (ex_radix_key [1, 2, 5]) ex_radix_full = Inr ([1, 2], 2, ex_radix_at (ex_radix_tree 0) 3 9 4 0)"
  by code_simp

lemma ex_radix_lock: "inc_lock_ref ex_radix_cf 2 (ex_radix_at (ex_radix_tree 0) 3 9 4 0) = Inr (- 2, ex_radix_held)"
  by code_simp

lemma ex_radix_cf_simps [simp]: "cf_page ex_radix_cf = Suc 0" "\<not> cf_disable ex_radix_cf" "\<not> cf_eagle ex_radix_cf"
  by (simp_all add: ex_radix_cf_def)

lemma ex_radix_reach: "(radix_step ex_radix_cf token_free)\<^sup>*\<^sup>* (radix_reset ex_radix_cf ex_radix_new, {#}) (ex_radix_held, {#2#})"
proof -
  have "radix_step ex_radix_cf token_free (radix_reset ex_radix_cf ex_radix_new, {#}) (ex_radix_full, {#})"
    by (rule step_insert [OF _ _ ex_radix_insert]) (simp_all add: key_ok_def key_convert_def insert_value_def key_len_def ex_radix_key_def)
  moreover have "radix_step ex_radix_cf token_free (ex_radix_full, {#}) (ex_radix_at (ex_radix_tree 0) 3 9 4 0, {#})"
    by (rule step_match [OF ex_radix_match])
  moreover have "radix_step ex_radix_cf token_free (ex_radix_at (ex_radix_tree 0) 3 9 4 0, {#}) (ex_radix_held, {#2#})"
    using step_lock [OF _ ex_radix_lock, of token_free "{#}"] by (simp add: holding_def ex_radix_at_def ex_radix_tree_def ex_radix_node_def node_ids_RNode)
  ultimately show ?thesis by (meson converse_rtranclp_into_rtranclp rtranclp.rtrancl_refl)
qed

lemma ex_radix_inv: "radix_inv ex_radix_cf {#2#} ex_radix_held"
  by (rule radix_reachable_inv [OF ex_radix_reach]) simp_all

lemma ex_radix_cached: "cached ex_radix_cf ex_radix_held (ex_radix_key [1, 2, 3, 9]) = [1, 2, 3]"
  by code_simp

section \<open>Lookups and insertions\<close>

text \<open>C6: the radix tree implements a map from page-aligned keys to cached slots: a lookup never fails,
  returns exactly the slots cached for the longest stored prefix of the whole pages of its key and
  changes no answer (it only splits nodes and stamps access times), and the node it returns lies at the
  end of that prefix; an insertion never fails, reports how many tokens were cached already, and
  afterwards every key finds what it found before, extended by the new slots where it agrees with the
  inserted key. Both keep the invariant and every path of the tree.\<close>

theorem radix_tree_refines_map:
  assumes "radix_inv cf H rx" "key_ok (cf_page cf) (key_convert (cf_eagle cf) new)"
    and "length (insert_value cf new val) = key_len (key_convert (cf_eagle cf) new)"
  shows "(\<exists>n rx'. match_prefix cf key rx = Inr (cached cf rx (search_key cf key), n, rx') \<and> radix_inv cf H rx' \<and>
      (\<forall>q. key_ok (cf_page cf) q \<longrightarrow> cached cf rx' q = cached cf rx q) \<and> keeps (\<lambda>_. True) (rx_root rx) (rx_root rx') \<and>
      spells (rx_root rx') n (key_upto (length (cached cf rx (search_key cf key))) (search_key cf key)) (cached cf rx (search_key cf key))) \<and>
    (\<exists>rx'. radix_insert cf new val rx = Inr (length (cached cf rx (key_convert (cf_eagle cf) new)), rx') \<and> radix_inv cf H rx' \<and>
      keeps (\<lambda>_. True) (rx_root rx) (rx_root rx') \<and>
      (\<forall>q. key_ok (cf_page cf) q \<longrightarrow>
        cached cf rx' q = insert_lookup (cf_page cf) (key_convert (cf_eagle cf) new) (insert_value cf new val) (cached cf rx) q))"
  using match_prefix_correct [OF assms(1), of key "\<lambda>_. True"] radix_insert_correct [OF assms, of "\<lambda>_. True"] by blast

theorem radix_tree_refines_map_witness:
  "\<exists>rx'. radix_insert ex_radix_cf (ex_radix_key [1, 2, 5]) [1, 2, 5] ex_radix_held = Inr (2, rx') \<and> radix_inv ex_radix_cf {#2#} rx' \<and>
    cached ex_radix_cf rx' (ex_radix_key [1, 2, 5, 7]) = [1, 2, 5]"
proof -
  have c: "cached ex_radix_cf ex_radix_held (ex_radix_key [1, 2, 5]) = [1, 2]" by code_simp
  have i: "insert_lookup 1 (ex_radix_key [1, 2, 5]) [1, 2, 5] (cached ex_radix_cf ex_radix_held) (ex_radix_key [1, 2, 5, 7]) = [1, 2, 5]"
    by code_simp
  show ?thesis
    using radix_tree_refines_map [OF ex_radix_inv, of "ex_radix_key [1, 2, 5]" "[1, 2, 5]"] c i
    by (fastforce simp: key_convert_def key_ok_def insert_value_def key_len_def ex_radix_key_def)
qed

section \<open>Sizes and locks\<close>

text \<open>C12: in every state the cache reaches from a reset by lookups, aligned insertions, locks, unlocks of
  held nodes, evictions and resets, the two sizes it reports are the cached tokens of the unlocked and of
  the locked nodes, together all cached tokens; each node is locked exactly as often as requests hold a
  node of its subtree, every held node is still in the tree, and without holders nothing is protected.\<close>

theorem radix_sizes_and_locks:
  assumes "(radix_step cf free)\<^sup>*\<^sup>* (radix_reset cf rx0, {#}) (rx, H)" "0 < cf_page cf" "\<not> cf_disable cf"
  shows "evictable_size rx = unlocked_len (rx_root rx) \<and> protected_size rx = locked_len (rx_root rx) \<and>
    evictable_size rx + protected_size rx = int (total_size (rx_root rx)) \<and> lock_ok H (rx_root rx) \<and>
    set_mset H \<subseteq> set_mset (node_ids (rx_root rx)) \<and> (H = {#} \<longrightarrow> protected_size rx = 0)"
proof -
  have i: "radix_inv cf H rx" by (rule radix_reachable_inv [OF assms])
  have "H = {#} \<longrightarrow> locked_len (rx_root rx) = 0" using i root_len [OF i] by (auto simp: radix_inv_def tree_inv_def no_holder_lens)
  then show ?thesis using inv_sizes [OF i] inv_holders [OF i] i by (simp add: radix_inv_def tree_inv_def)
qed

theorem radix_sizes_and_locks_witness:
  "evictable_size ex_radix_held = 2 \<and> evictable_size ex_radix_held + protected_size ex_radix_held = int (total_size (rx_root ex_radix_held)) \<and>
    lock_ok {#2#} (rx_root ex_radix_held)"
  using radix_sizes_and_locks [OF ex_radix_reach] by (simp add: evictable_size_def ex_radix_held_def ex_radix_at_def)

section \<open>Eviction\<close>

text \<open>C9: an eviction cuts the nodes \<open>rs\<close> and nothing else: none of them is locked, each slot they hold
  goes back to the allocator and no other slot moves, and the paths of the held nodes stay as they are.
  It stops short of what was asked only when no cached token is evictable any more, never evicts another
  node once it has enough, and starts with a leaf of the least priority under the policy.\<close>

theorem radix_evict_correct:
  assumes "radix_inv cf H rx"
  shows "\<exists>rs. evicted cf num rx (evict cf token_free num rx) rs \<and> radix_inv cf H (evict cf token_free num rx) \<and>
    token_avail (rx_alloc (evict cf token_free num rx)) = token_avail (rx_alloc rx) + mset (concat (map ni_value rs)) \<and>
    tree_slots (rx_root rx) = tree_slots (rx_root (evict cf token_free num rx)) + mset (concat (map ni_value rs)) \<and>
    keeps (\<lambda>n. n \<in># H) (rx_root rx) (rx_root (evict cf token_free num rx))"
  using evict_inv [OF assms, of num token_free] by (auto simp: token_kv.avail_free_all)

theorem radix_evict_correct_witness:
  "\<exists>rs. evicted ex_radix_cf 3 ex_radix_held (evict ex_radix_cf token_free 3 ex_radix_held) rs \<and>
    token_avail (rx_alloc (evict ex_radix_cf token_free 3 ex_radix_held)) = {#6, 7, 8#} + mset (concat (map ni_value rs)) \<and>
    evictable_size (evict ex_radix_cf token_free 3 ex_radix_held) = 0"
proof -
  have a: "token_avail (rx_alloc ex_radix_held) = {#6, 7, 8#}" by code_simp
  have z: "evictable_size (evict ex_radix_cf token_free 3 ex_radix_held) = 0" by code_simp
  show ?thesis using radix_evict_correct [OF ex_radix_inv, of 3] unfolding a by (auto simp: z)
qed

section \<open>Requests\<close>

lemma ex_radix_owns: "owns (ex_radix_req style) [1, 2, 5] ex_radix_held"
proof -
  have "spells (ex_radix_node 2 [1, 2] 1 7 8 [((None, [Tok 3]), ex_radix_node 1 [3, 4] 0 6 4 [])]) 2 (ex_radix_key []) []"
    using spells.here [of "ex_radix_key []" "ex_radix_node 2 [1, 2] 1 7 8 [((None, [Tok 3]), ex_radix_node 1 [3, 4] 0 6 4 [])]"]
    by (simp add: ex_radix_node_def ex_radix_key_def)
  then have "spells (ex_radix_tree 1) 2 (ex_radix_key [1, 2]) ([1, 2] @ [])"
    using spells.there [of "(None, [Tok 1])" "ex_radix_node 2 [1, 2] 1 7 8 [((None, [Tok 3]), ex_radix_node 1 [3, 4] 0 6 4 [])]" "ex_radix_tree 1"
        "ex_radix_key [1, 2]" "[]" 2 "[]"]
    by (simp add: ex_radix_tree_def ex_radix_node_def ex_radix_key_def)
  then show ?thesis
    by (simp add: owns_def req_row_take req_key_def ex_radix_req_def ex_radix_held_def ex_radix_at_def ex_radix_new_def ex_radix_key_def)
qed

lemma ex_radix_row: "req_row (ex_radix_req style) [1, 2, 5] ex_radix_held = [1, 2, 5]"
  by (simp add: req_row_take ex_radix_req_def ex_radix_held_def ex_radix_at_def ex_radix_new_def)

lemma ex_radix_avail: "token_avail (rx_alloc ex_radix_held) = {#6, 7, 8#}" "tree_slots (rx_root ex_radix_held) = {#1, 2, 3, 4#}"
  by (simp_all add: token_avail_def ex_radix_held_def ex_radix_at_def ex_radix_new_def tree_slots_def ex_radix_tree_def ex_radix_node_def)

lemma ex_radix_holding: "radix_inv ex_radix_cf (holding ex_radix_held (rr_last_node (ex_radix_req style)) {#}) ex_radix_held"
  using ex_radix_inv by (simp add: holding_def ex_radix_req_def ex_radix_held_def ex_radix_at_def)

lemma ex_radix_toks: "finished_toks (ex_radix_req style) = [1, 2, 5]"
  by (simp add: finished_toks_def finished_len_def ex_radix_req_def)

text \<open>C10: with one slot per page and no EAGLE, caching a finished request that is ordinary, or a blend
  request that had matched no cached prefix, never fails, releases exactly its lock, and hands each slot
  it owned (its row after the matched prefix) exactly once to the tree or to the allocator: nothing is
  lost and nothing is free twice. The paths other requests rely on stay, the row of the request is free
  again, and an ordinary request that is inserted has the whole text it processed cached. Only
  DO_BLEND_FINISH ends the blend state. (A blend request that had matched a prefix breaks this:
  \<open>blend_request_frees_cached_slots\<close> below.)\<close>

theorem finished_request_conserves_slots:
  assumes "radix_inv cf (holding rx (rr_last_node r) H) rx" "owns r (finished_toks r) rx" "cf_page cf = 1" "\<not> cf_eagle cf"
    and "is_blend r \<longrightarrow> rr_prefix r = []"
  shows "\<exists>rx' w'. cache_finished_req cf token_free is_insert r rx w = Inr (rx', w') \<and> radix_inv cf H rx' \<and>
    token_avail (rx_alloc rx') + tree_slots (rx_root rx') =
      token_avail (rx_alloc rx) + tree_slots (rx_root rx) + mset (drop (length (rr_prefix r)) (req_row r (finished_toks r) rx)) \<and>
    rx_pool rx' = req_pool_free (rr_pool_idx r) (rx_pool rx) \<and> keeps (\<lambda>_. True) (rx_root rx) (rx_root rx') \<and>
    w' = (if rr_style r = Some DO_BLEND_FINISH then cleanup_runtime_state w else w) \<and>
    (is_insert \<and> \<not> is_blend r \<longrightarrow> length (cached cf rx' (req_key r (finished_toks r))) = length (finished_toks r))"
proof (cases "is_blend r")
  case True
  from token_kv.finished_blend [OF assms(1,2) True, of is_insert w] True assms(5) show ?thesis
    by (auto simp: ac_simps keeps_def)
next
  case False
  then have "rr_style r \<noteq> Some DO_BLEND_FINISH" by (auto simp: is_blend_def)
  with token_kv.finished_correct [OF assms(1-4) False, of is_insert w "\<lambda>_. True"] show ?thesis by auto
qed

theorem finished_request_conserves_slots_witness:
  "\<forall>w :: nat world. \<exists>rx' w'. cache_finished_req ex_radix_cf token_free True (ex_radix_req None) ex_radix_held w = Inr (rx', w') \<and>
    token_avail (rx_alloc rx') + tree_slots (rx_root rx') = {#5, 1, 2, 3, 4, 6, 7, 8#}"
proof
  fix w :: "nat world"
  have f: "length (rr_prefix (ex_radix_req None)) = 2" "\<not> is_blend (ex_radix_req None)" by (simp_all add: ex_radix_req_def is_blend_def)
  from finished_request_conserves_slots [OF ex_radix_holding _ _ _ impI, of None True w] ex_radix_owns [of None] f(2)
  show "\<exists>rx' w'. cache_finished_req ex_radix_cf token_free True (ex_radix_req None) ex_radix_held w = Inr (rx', w') \<and>
    token_avail (rx_alloc rx') + tree_slots (rx_root rx') = {#5, 1, 2, 3, 4, 6, 7, 8#}"
    unfolding f(1) ex_radix_toks ex_radix_row ex_radix_avail by simp blast
qed

text \<open>C27: with one slot per page and no EAGLE, caching an unfinished request (between the chunks of its
  prompt) never fails and leaves it in the state it started from: it holds its last node, owns its row,
  and what it owns, the tree has and the allocator has add up to the slots they had before, with no other
  row changed. For an ordinary request the slots it owned move to the tree, it holds the node at the end
  of its text, and its row and its prefix are the cached slots; a blend request is left as it is.\<close>

theorem unfinished_request_stays_owner:
  assumes "radix_inv cf (holding rx (rr_last_node r) H) rx" "owns r (rr_fill r) rx" "cf_page cf = 1" "\<not> cf_eagle cf"
  shows "\<exists>r' rx'. cache_unfinished_req cf token_free r rx = Inr (r', rx') \<and> radix_inv cf (holding rx' (rr_last_node r') H) rx' \<and>
    owns r' (rr_fill r) rx' \<and> rr_pool_idx r' = rr_pool_idx r \<and>
    token_avail (rx_alloc rx') + tree_slots (rx_root rx') + mset (drop (length (rr_prefix r')) (req_row r' (rr_fill r) rx')) =
      token_avail (rx_alloc rx) + tree_slots (rx_root rx) + mset (drop (length (rr_prefix r)) (req_row r (rr_fill r) rx)) \<and>
    rp_free_slots (rx_pool rx') = rp_free_slots (rx_pool rx) \<and> keeps (\<lambda>_. True) (rx_root rx) (rx_root rx') \<and>
    (\<forall>i. i \<noteq> rr_pool_idx r \<longrightarrow> rp_table (rx_pool rx') ! i = rp_table (rx_pool rx) ! i) \<and>
    (if is_blend r then r' = r \<and> rx' = rx else rr_prefix r' = req_row r' (rr_fill r) rx')"
  by (rule token_kv.unfinished_any [OF assms])

theorem unfinished_request_stays_owner_witness:
  "\<exists>r' rx'. cache_unfinished_req ex_radix_cf token_free (ex_radix_req None) ex_radix_held = Inr (r', rx') \<and>
    owns r' [1, 2, 5] rx' \<and> token_avail (rx_alloc rx') + tree_slots (rx_root rx') = {#5, 1, 2, 3, 4, 6, 7, 8#}"
proof -
  have f: "rr_fill (ex_radix_req None) = [1, 2, 5]" "length (rr_prefix (ex_radix_req None)) = 2" by (simp_all add: ex_radix_req_def)
  have b: "is_blend (ex_radix_req None) = False" by (simp add: is_blend_def ex_radix_req_def)
  from unfinished_request_stays_owner [OF ex_radix_holding, of None] ex_radix_owns [of None] obtain r' rx' where
    "cache_unfinished_req ex_radix_cf token_free (ex_radix_req None) ex_radix_held = Inr (r', rx')" "owns r' [1, 2, 5] rx'"
    "rr_prefix r' = req_row r' [1, 2, 5] rx'"
    "token_avail (rx_alloc rx') + tree_slots (rx_root rx') + mset (drop (length (rr_prefix r')) (req_row r' [1, 2, 5] rx')) =
      token_avail (rx_alloc ex_radix_held) + tree_slots (rx_root ex_radix_held) + mset (drop 2 (req_row (ex_radix_req None) [1, 2, 5] ex_radix_held))"
    unfolding f b by auto
  then show ?thesis unfolding ex_radix_row ex_radix_avail by auto
qed

section \<open>Blend requests\<close>

lemma spells_slots: "spells t n key vs \<Longrightarrow> set vs \<subseteq> set_mset (tree_slots t)"
proof (induction rule: spells.induct)
  case (there k c t key rest n vs)
  have "tree_slots c \<subseteq># tree_slots t"
    using there(1) by (cases t) (auto simp: slots_RNode dest!: split_list intro: subset_mset.order_trans [OF _ mset_subset_eq_add_right])
  moreover have "set (ni_value (info c)) \<subseteq> set_mset (tree_slots c)" by (cases c) (auto simp: slots_RNode)
  ultimately show ?case using there.IH set_mset_mono by fastforce
qed simp

text \<open>With prefix caching on, a blend request that matched a cached prefix gives the slots of this prefix
  to the allocator although the tree still maps the prefix to them, and its lock is never released.\<close>

theorem blend_request_frees_cached_slots:
  assumes "radix_inv cf (holding rx (rr_last_node r) H) rx" "owns r (finished_toks r) rx" "is_blend r"
  shows "\<exists>rx' w'. cache_finished_req cf token_free is_insert r rx w = Inr (rx', w') \<and> rx_root rx' = rx_root rx \<and>
    radix_inv cf (holding rx' (rr_last_node r) H) rx' \<and>
    (\<forall>x \<in> set (take (length (rr_prefix r)) (req_row r (finished_toks r) rx)).
      x \<in># tree_slots (rx_root rx') \<and> x \<in># token_avail (rx_alloc rx'))"
proof -
  let ?kv = "req_row r (finished_toks r) rx"
  let ?rx = "free_req_slot (rr_pool_idx r) (free_kv token_free ?kv rx)"
  have kv: "req_tokens (rr_pool_idx r) (finished_len r) (rx_pool rx) = ?kv" by (simp add: req_row_def finished_toks_len)
  obtain w' where "cache_finished_req cf token_free is_insert r rx w = Inr (?rx, w')"
    using assms(3) by (simp add: cache_finished_req_def finish_uncached_def Let_def kv)
  moreover have "holding ?rx (rr_last_node r) H = holding rx (rr_last_node r) H" by (simp add: holding_def free_req_slot_def)
  moreover have "x \<in># tree_slots (rx_root ?rx) \<and> x \<in># token_avail (rx_alloc ?rx)" if "x \<in> set (take (length (rr_prefix r)) ?kv)" for x
    using that assms(2) spells_slots in_set_takeD [OF that] unfolding owns_def by (fastforce simp: free_req_slot_def token_kv.in_free)
  ultimately show ?thesis using assms(1) by (auto simp: free_req_slot_def)
qed

lemma blend_request_frees_cached_slots_witness:
  "\<forall>w :: nat world. \<exists>rx' w'. cache_finished_req ex_radix_cf token_free True (ex_radix_req (Some DO_BLEND)) ex_radix_held w = Inr (rx', w') \<and>
    2 \<in># tree_slots (rx_root rx') \<and> 2 \<in># token_avail (rx_alloc rx')"
proof
  fix w :: "nat world"
  have f: "length (rr_prefix (ex_radix_req (Some DO_BLEND))) = 2" "is_blend (ex_radix_req (Some DO_BLEND))" by (simp_all add: ex_radix_req_def is_blend_def)
  from blend_request_frees_cached_slots [OF ex_radix_holding _ f(2), of True w] ex_radix_owns [of "Some DO_BLEND"]
  show "\<exists>rx' w'. cache_finished_req ex_radix_cf token_free True (ex_radix_req (Some DO_BLEND)) ex_radix_held w = Inr (rx', w') \<and>
      2 \<in># tree_slots (rx_root rx') \<and> 2 \<in># token_avail (rx_alloc rx')"
    unfolding f(1) ex_radix_toks ex_radix_row by simp blast
qed

end
