(* ===== verification/SWAAlloc.thy ===== *)
theory SWAAlloc
  imports KVAlloc
begin

text \<open>
  The allocator of the sliding-window hybrid cache (\<open>SWATokenToKVPoolAllocator\<close>,
  \<open>srt/mem_cache/allocator.py\<close>): two token allocators and the table from full slots to window slots.
  Shown for every run: no window slot is lost or handed out twice, and a free full slot maps to none.
\<close>

section \<open>The allocator\<close>

record swa_allocator =
  sw_full :: token_allocator
  sw_swa :: token_allocator
  sw_map :: "int list"
  sw_not_in_group :: bool
  sw_free_group :: "int list list"

definition swa_clear :: "swa_allocator \<Rightarrow> swa_allocator" where
  "swa_clear s = s\<lparr>sw_swa := alloc_clear (sw_swa s), sw_full := alloc_clear (sw_full s),
     sw_map := replicate (length (sw_map s)) 0, sw_not_in_group := True, sw_free_group := []\<rparr>"

definition new_swa_allocator :: "nat \<Rightarrow> nat \<Rightarrow> bool \<Rightarrow> (nat \<Rightarrow> int) \<Rightarrow> swa_allocator" where
  "new_swa_allocator n n_swa need_sort uninit = swa_clear
     \<lparr>sw_full = new_token_allocator n need_sort, sw_swa = new_token_allocator n_swa need_sort,
      sw_map = map uninit [0..<n + n_swa + 1], sw_not_in_group = True, sw_free_group = []\<rparr>"

text \<open>\<open>mapping[idx] = values\<close> for lists of the same length, and \<open>mapping[None] = values\<close>, which broadcasts.\<close>

fun index_put :: "(int \<times> int) list \<Rightarrow> int list \<Rightarrow> int list res" where
  "index_put [] m = Inr m"
| "index_put ((i, v) # ivs) m =
     (case py_idx (length m) i of None \<Rightarrow> Inl IndexError | Some k \<Rightarrow> index_put ivs (m[k := v]))"

definition put_whole :: "int list \<Rightarrow> int list \<Rightarrow> int list res" where
  "put_whole vs m =
     (if length vs = 1 then Inr (replicate (length m) (hd vs))
      else if length vs = length m then Inr vs else Inl (RuntimeError ''shape mismatch''))"

definition translate_loc :: "swa_allocator \<Rightarrow> int list \<Rightarrow> int list res" where
  "translate_loc s kv_indices = rmap (py_get (sw_map s)) kv_indices"

definition swa_alloc :: "nat \<Rightarrow> swa_allocator \<Rightarrow> (int list option \<times> swa_allocator) res" where
  "swa_alloc need_size s =
     (if need_size > alloc_available_size (sw_full s) then Inr (None, s)
      else if need_size > alloc_available_size (sw_swa s) then Inr (None, s)
      else
        let (full, f') = token_alloc need_size (sw_full s); (swa, w') = token_alloc need_size (sw_swa s)
        in rbind (case (full, swa) of
             (Some fs, Some ws) \<Rightarrow> index_put (zip fs ws) (sw_map s)
           | (None, Some ws) \<Rightarrow> put_whole ws (sw_map s)
           | (_, None) \<Rightarrow> Inl TypeError) (\<lambda>m.
           Inr (full, s\<lparr>sw_full := f', sw_swa := w', sw_map := m\<rparr>)))"

definition free_swa :: "int list \<Rightarrow> swa_allocator \<Rightarrow> swa_allocator res" where
  "free_swa free_index s =
     rbind (translate_loc s free_index) (\<lambda>swa_indices.
     rbind (index_put (map (\<lambda>i. (i, 0)) free_index) (sw_map s)) (\<lambda>m.
     Inr (s\<lparr>sw_swa := token_free (filter (\<lambda>x. x > 0) swa_indices) (sw_swa s), sw_map := m\<rparr>)))"

definition swa_free :: "int list \<Rightarrow> swa_allocator \<Rightarrow> swa_allocator res" where
  "swa_free free_index s =
     (if free_index = [] then Inr s
      else
        rbind (if sw_not_in_group s then free_swa free_index (s\<lparr>sw_full := token_free free_index (sw_full s)\<rparr>)
               else Inr (s\<lparr>sw_free_group := sw_free_group s @ [free_index]\<rparr>)) (\<lambda>s'.
        if alloc_available_size (sw_full s') \<le> ta_size (sw_full s') \<and> alloc_available_size (sw_swa s') \<le> ta_size (sw_swa s')
        then Inr s' else Inl AssertionError))"

definition swa_group_begin :: "swa_allocator \<Rightarrow> swa_allocator" where
  "swa_group_begin s = s\<lparr>sw_not_in_group := False, sw_free_group := []\<rparr>"

definition swa_group_end :: "swa_allocator \<Rightarrow> swa_allocator res" where
  "swa_group_end s =
     (let s1 = s\<lparr>sw_not_in_group := True\<rparr>
      in if sw_free_group s \<noteq> [] then swa_free (concat (sw_free_group s)) s1 else Inr s1)"

definition swa_backup :: "swa_allocator \<Rightarrow> (int list \<times> int list) \<times> (int list \<times> int list)" where
  "swa_backup s = (backup_state (sw_full s), backup_state (sw_swa s))"

definition swa_restore :: "(int list \<times> int list) \<times> (int list \<times> int list) \<Rightarrow> swa_allocator \<Rightarrow> swa_allocator" where
  "swa_restore st s = s\<lparr>sw_full := restore_state (fst st) (sw_full s), sw_swa := restore_state (snd st) (sw_swa s)\<rparr>"

section \<open>Lemmas on the table\<close>

lemma mset_exchange:
  assumes "A + B = C + D" "C + {#x#} = E + {#v#}"
  shows "A + add_mset x B = E + add_mset v D"
proof -
  have "A + add_mset x B = (C + {#x#}) + D" using assms(1) by simp
  then show ?thesis unfolding assms(2) by simp
qed

text \<open>What an indexed assignment leaves: the new values at the indices, and all values accounted for.\<close>

lemma index_put_ok:
  "list_all (\<lambda>(i, v). 0 \<le> i \<and> i < int (length m)) ivs \<Longrightarrow> distinct (map fst ivs) \<Longrightarrow>
   \<exists>m'. index_put ivs m = Inr m' \<and> length m' = length m \<and>
     (\<forall>k < length m. m' ! k = (case map_of ivs (int k) of None \<Rightarrow> m ! k | Some v \<Rightarrow> v)) \<and>
     mset m' + mset (map (\<lambda>(i, v). m ! nat i) ivs) = mset m + mset (map snd ivs)"
proof (induction ivs arbitrary: m)
  case (Cons a ivs)
  obtain i v where a: "a = (i, v)" by (cases a)
  have i: "0 \<le> i" "i < int (length m)" using Cons.prems(1) by (simp_all add: a)
  let ?m = "m[nat i := v]"
  have l: "list_all (\<lambda>(i, v). 0 \<le> i \<and> i < int (length ?m)) ivs" using Cons.prems(1) by (simp add: a)
  from Cons.IH [OF l] Cons.prems(2) obtain m' where m': "index_put ivs ?m = Inr m'" "length m' = length m"
    "\<forall>k < length m. m' ! k = (case map_of ivs (int k) of None \<Rightarrow> ?m ! k | Some v \<Rightarrow> v)"
    "mset m' + mset (map (\<lambda>(i, v). ?m ! nat i) ivs) = mset ?m + mset (map snd ivs)" by (auto simp: a)
  have "map_of ivs i = None" using Cons.prems(2) by (auto simp: a map_of_eq_None_iff)
  then have p: "\<forall>k < length m. m' ! k = (case map_of (a # ivs) (int k) of None \<Rightarrow> m ! k | Some v \<Rightarrow> v)"
    using m'(3) i by (auto simp: a nth_list_update split: option.splits)
  have e1: "map (\<lambda>(i, v). ?m ! nat i) ivs = map (\<lambda>(i, v). m ! nat i) ivs"
    using l Cons.prems(2) i by (auto simp: a list_all_iff nth_list_update rev_image_eqI nat_eq_iff)
  have e2: "mset ?m + {#m ! nat i#} = mset m + {#v#}" using i by (simp add: mset_update)
  have "mset m' + mset (map (\<lambda>(i, v). m ! nat i) (a # ivs)) = mset m + mset (map snd (a # ivs))"
    using mset_exchange [OF m'(4) [unfolded e1] e2] by (simp add: a)
  then show ?case using m' p i by (simp add: a)
qed simp

section \<open>The invariant\<close>

definition pending :: "swa_allocator \<Rightarrow> int list" where
  "pending s = (if sw_not_in_group s then [] else concat (sw_free_group s))"

text \<open>The full slots that are neither free nor waiting in a group of frees.\<close>

definition in_use :: "swa_allocator \<Rightarrow> int set" where
  "in_use s = {1..int (ta_size (sw_full s))} - set_mset (token_avail (sw_full s)) - set (pending s)"

definition swa_conserved :: "swa_allocator \<Rightarrow> bool" where
  "swa_conserved s \<longleftrightarrow> alloc_ok (sw_swa s) \<and> ta_size (sw_full s) < length (sw_map s) \<and>
     token_avail (sw_swa s) + filter_mset (\<lambda>x. x \<noteq> 0) (mset (sw_map s)) = mset_set {1..int (ta_size (sw_swa s))}"

definition swa_inv :: "swa_allocator \<Rightarrow> bool" where
  "swa_inv s \<longleftrightarrow>
     swa_conserved s \<and> alloc_ok (sw_full s) \<and>
     (\<exists>F. finite F \<and> token_avail (sw_full s) = mset_set F \<and> F \<subseteq> {1..int (ta_size (sw_full s))} \<and>
        (\<forall>x \<in> F. sw_map s ! nat x = 0) \<and> F \<inter> set (pending s) = {}) \<and>
     distinct (pending s) \<and> set (pending s) \<subseteq> {1..int (ta_size (sw_full s))}"

lemma mset_set_split:
  assumes "finite F" "mset_set F = A + mset xs"
  shows "distinct xs \<and> set xs \<subseteq> F \<and> A = mset_set (F - set xs)"
proof -
  have c: "count A x + count (mset xs) x \<le> 1" for x
    using assms by (metis count_mset_set(1,3) count_union nle_le zero_le_one)
  have "count (mset xs) x \<le> 1" for x using c [of x] by simp
  then have d: "distinct xs" by (simp add: distinct_count_atmost_1 count_mset) (metis (no_types) le_less less_one not_le count_mset count_mset_0_iff One_nat_def le_Suc_eq)
  have sub: "set xs \<subseteq> F" using assms by (metis finite_set_mset_mset_set mset_subset_eq_add_right set_mset_mset set_mset_mono)
  have "A = mset_set F - mset xs" using assms(2) by simp
  also have "mset xs = mset_set (set xs)" using d by (simp add: mset_set_set)
  also have "mset_set F - mset_set (set xs) = mset_set (F - set xs)" using assms(1) sub by (simp add: mset_set_Diff)
  finally show ?thesis using d sub by simp
qed

section \<open>Every operation keeps the invariant\<close>

text \<open>Allocation: fresh full slots, each mapped to its own window slot.\<close>

lemma swa_alloc_inv:
  assumes "swa_inv s" "n \<le> alloc_available_size (sw_full s)" "n \<le> alloc_available_size (sw_swa s)"
  shows "\<exists>fs ws s'. swa_alloc n s = Inr (Some fs, s') \<and> swa_inv s' \<and> length fs = n \<and> distinct fs \<and> set fs \<subseteq> in_use s' \<and>
    translate_loc s' fs = Inr ws \<and> distinct ws \<and> mset ws \<subseteq># token_avail (sw_swa s)"
proof -
  note inv = assms(1) [unfolded swa_inv_def swa_conserved_def]
  obtain fs f' where f: "token_alloc n (sw_full s) = (Some fs, f')" "alloc_ok f'" "ta_size f' = ta_size (sw_full s)"
    using token_alloc_ok [OF _ assms(2)] inv by blast
  obtain ws w' where w: "token_alloc n (sw_swa s) = (Some ws, w')" "alloc_ok w'" "ta_size w' = ta_size (sw_swa s)"
    using token_alloc_ok [OF _ assms(3)] inv by blast
  note fa = token_kv.avail_alloc [OF f(1)] and wa = token_kv.avail_alloc [OF w(1)]
  obtain F where F: "finite F" "token_avail (sw_full s) = mset_set F" "F \<subseteq> {1..int (ta_size (sw_full s))}" "\<forall>x \<in> F. sw_map s ! nat x = 0" "F \<inter> set (pending s) = {}"
    using inv by blast
  have "mset_set F = token_avail f' + mset fs" using fa F(2) by simp
  from mset_set_split [OF F(1) this] have fs: "distinct fs" "set fs \<subseteq> F" "token_avail f' = mset_set (F - set fs)" by auto
  let ?W = "{1..int (ta_size (sw_swa s))}" and ?nz = "\<lambda>m. filter_mset (\<lambda>x. x \<noteq> (0 :: int)) (mset m)"
  have "mset_set ?W = (token_avail w' + ?nz (sw_map s)) + mset ws" using wa inv by (simp add: ac_simps)
  from mset_set_split [OF _ this] have ws: "distinct ws" "set ws \<subseteq> ?W" by auto
  have r: "\<forall>x \<in> set fs. 0 \<le> x \<and> x < int (length (sw_map s))" using fs(2) F(3) inv by force
  have len: "length fs = n" "length ws = n" using fa wa by simp_all
  have l: "list_all (\<lambda>(i, v). 0 \<le> i \<and> i < int (length (sw_map s))) (zip fs ws)" using r by (auto simp: list_all_iff dest: set_zip_leftD)
  from index_put_ok [OF l] fs(1) len obtain m' where m': "index_put (zip fs ws) (sw_map s) = Inr m'" "length m' = length (sw_map s)"
    "\<forall>k < length (sw_map s). m' ! k = (case map_of (zip fs ws) (int k) of None \<Rightarrow> sw_map s ! k | Some v \<Rightarrow> v)"
    "mset m' + mset (map (\<lambda>(i, v). sw_map s ! nat i) (zip fs ws)) = mset (sw_map s) + mset ws" by auto
  have "\<forall>p \<in> set (zip fs ws). (case p of (i, v) \<Rightarrow> sw_map s ! nat i) = 0" using fs(2) F(4) by (auto dest!: set_zip_leftD)
  then have "filter (\<lambda>x. x \<noteq> 0) (map (\<lambda>(i, v). sw_map s ! nat i) (zip fs ws)) = []" by (simp add: filter_empty_conv)
  then have z: "?nz (map (\<lambda>(i, v). sw_map s ! nat i) (zip fs ws)) = {#}" by (metis mset.simps(1) mset_filter)
  have "filter (\<lambda>x. x \<noteq> 0) ws = ws" using ws(2) by (auto simp: filter_id_conv)
  then have zw: "?nz ws = mset ws" by (metis mset_filter)
  have "?nz m' + {#} = ?nz (sw_map s) + mset ws"
    using arg_cong [OF m'(4), of "filter_mset (\<lambda>x. x \<noteq> 0)"] by (simp only: filter_union_mset z zw)
  then have nz: "?nz m' = ?nz (sw_map s) + mset ws" by simp
  define s' where "s' = s\<lparr>sw_full := f', sw_swa := w', sw_map := m'\<rparr>"
  have a: "swa_alloc n s = Inr (Some fs, s')" using assms(2,3) f(1) w(1) m'(1) by (simp add: swa_alloc_def s'_def)
  have sel: "sw_full s' = f'" "sw_swa s' = w'" "sw_map s' = m'" "pending s' = pending s" by (simp_all add: s'_def pending_def)
  have "\<forall>x \<in> F - set fs. m' ! nat x = 0"
  proof
    fix x assume x: "x \<in> F - set fs"
    then have "nat x < length (sw_map s)" "0 \<le> x" using F(3) inv by force+
    moreover have "map_of (zip fs ws) x = None" using x len by simp
    ultimately show "m' ! nat x = 0" using m'(3) F(4) x by simp
  qed
  then have "swa_inv s'"
    using inv F(1,3,5) fs(3) f(2,3) w(2,3) m'(2) nz wa unfolding swa_inv_def swa_conserved_def sel
    by (auto simp: ac_simps intro!: exI [of _ "F - set fs"])
  moreover have "set fs \<subseteq> in_use s'" using fs F(1,3,5) f(3) by (auto simp: in_use_def sel)
  moreover have "translate_loc s' fs = Inr ws"
  proof -
    have "py_get m' (fs ! k) = Inr (ws ! k)" if "k < n" for k
    proof -
      have "fs ! k \<in> set fs" using that len by simp
      then have b: "0 \<le> fs ! k" "fs ! k < int (length m')" using r m'(2) by auto
      have "map_of (zip fs ws) (fs ! k) = Some (ws ! k)" using fs(1) len that by (simp add: map_of_zip_nth)
      then show ?thesis using m'(2,3) b by simp
    qed
    then have "rmap (py_get m') fs = Inr ws" using len by (induction fs ws arbitrary: n rule: list_induct2') (auto simp: rbind_def, force+)
    then show ?thesis by (simp add: translate_loc_def s'_def)
  qed
  ultimately show ?thesis using a len(1) fs(1) ws(1) wa by auto
qed

text \<open>Freeing window slots: the table forgets them, the window allocator gets them back.\<close>

lemma free_swa_effect:
  assumes "swa_conserved s" "distinct idx" "set idx \<subseteq> {1..int (ta_size (sw_full s))}"
  shows "\<exists>w' m'. free_swa idx s = Inr (s\<lparr>sw_swa := w', sw_map := m'\<rparr>) \<and> alloc_ok w' \<and> ta_size w' = ta_size (sw_swa s) \<and>
    length m' = length (sw_map s) \<and> (\<forall>k < length m'. m' ! k = (if int k \<in> set idx then 0 else sw_map s ! k)) \<and>
    token_avail w' + filter_mset (\<lambda>x. x \<noteq> 0) (mset m') = mset_set {1..int (ta_size (sw_swa s))}"
proof -
  note inv = assms(1) [unfolded swa_conserved_def]
  let ?m = "sw_map s" and ?W = "{1..int (ta_size (sw_swa s))}" and ?nz = "\<lambda>m. filter_mset (\<lambda>x. x \<noteq> (0 :: int)) (mset m)"
  let ?vals = "map (\<lambda>i. ?m ! nat i) idx"
  have r: "\<forall>i \<in> set idx. 0 \<le> i \<and> i < int (length ?m)" using assms(3) inv by force
  then have t: "translate_loc s idx = Inr ?vals" unfolding translate_loc_def by (intro rmap_all_Inr) simp
  have l: "list_all (\<lambda>(i, v). 0 \<le> i \<and> i < int (length ?m)) (map (\<lambda>i. (i, 0 :: int)) idx)" using r by (simp add: list_all_iff)
  from index_put_ok [OF l] assms(2) obtain m' where m': "index_put (map (\<lambda>i. (i, 0)) idx) ?m = Inr m'" "length m' = length ?m"
    "\<forall>k < length ?m. m' ! k = (case map_of (map (\<lambda>i. (i, 0)) idx) (int k) of None \<Rightarrow> ?m ! k | Some v \<Rightarrow> v)"
    "mset m' + mset ?vals = mset ?m + mset (map (\<lambda>i. 0) idx)" by (auto simp: o_def)
  have mo: "map_of (map (\<lambda>i. (i, 0 :: int)) idx) k = (if k \<in> set idx then Some 0 else None)" for k by (induction idx) auto
  have pos: "x > 0" if "x \<in> set ?m" "x \<noteq> 0" for x
  proof -
    have "x \<in># token_avail (sw_swa s) + ?nz ?m" using that by simp
    also have "token_avail (sw_swa s) + ?nz ?m = mset_set ?W" using inv by simp
    finally show ?thesis by simp
  qed
  have "?m ! nat i \<in> set ?m" if "i \<in> set idx" for i using bspec [OF r that] by (intro nth_mem) linarith
  then have fv: "filter (\<lambda>x. x > 0) ?vals = filter (\<lambda>x. x \<noteq> 0) ?vals" using pos by (intro filter_cong refl) auto
  have "?nz (map (\<lambda>i. 0) idx) = {#}" by (auto simp: filter_empty_conv simp flip: mset_filter)
  then have "?nz m' + ?nz ?vals = ?nz ?m" using arg_cong [OF m'(4), of "filter_mset (\<lambda>x. x \<noteq> 0)"] by (simp only: filter_union_mset) simp
  moreover have "token_avail (token_free (filter (\<lambda>x. x > 0) ?vals) (sw_swa s)) = token_avail (sw_swa s) + ?nz ?vals"
    unfolding token_kv.avail_free fv by (simp only: mset_filter)
  ultimately have "token_avail (token_free (filter (\<lambda>x. x > 0) ?vals) (sw_swa s)) + ?nz m' = mset_set ?W"
    using inv by (metis (no_types, lifting) add.assoc add.commute)
  then show ?thesis using t m'(1,2,3) mo token_free_ok inv by (intro exI conjI) (auto simp: free_swa_def)
qed

lemma in_use_range: "set idx \<subseteq> in_use s \<Longrightarrow> set idx \<subseteq> {1..int (ta_size (sw_full s))}"
  by (auto simp: in_use_def)

lemma free_swa_inv:
  assumes "swa_inv s" "distinct idx" "set idx \<subseteq> in_use s"
  shows "\<exists>s'. free_swa idx s = Inr s' \<and> swa_inv s'"
proof -
  have "swa_conserved s" using assms(1) by (simp add: swa_inv_def)
  from free_swa_effect [OF this assms(2) in_use_range [OF assms(3)]] obtain w' m' where e:
    "free_swa idx s = Inr (s\<lparr>sw_swa := w', sw_map := m'\<rparr>)" "alloc_ok w'" "ta_size w' = ta_size (sw_swa s)" "length m' = length (sw_map s)"
    "\<forall>k < length m'. m' ! k = (if int k \<in> set idx then 0 else sw_map s ! k)"
    "token_avail w' + filter_mset (\<lambda>x. x \<noteq> 0) (mset m') = mset_set {1..int (ta_size (sw_swa s))}" by blast
  define s' where "s' = s\<lparr>sw_swa := w', sw_map := m'\<rparr>"
  have sel: "sw_full s' = sw_full s" "sw_swa s' = w'" "sw_map s' = m'" "pending s' = pending s" by (simp_all add: s'_def pending_def)
  note inv = assms(1) [unfolded swa_inv_def swa_conserved_def]
  have z: "m' ! nat x = 0" if "sw_map s ! nat x = 0" "x \<in> {1..int (ta_size (sw_full s))}" for x
    using that e(4,5) inv by force
  have "swa_inv s'" unfolding swa_inv_def swa_conserved_def sel using inv e(2,3,4,6) z by (auto 0 4)
  then show ?thesis using e(1) by (simp add: s'_def)
qed

lemma avail_within: "alloc_ok al \<Longrightarrow> token_avail al = mset_set S \<Longrightarrow> S \<subseteq> {1..int n} \<Longrightarrow> alloc_available_size al \<le> n"
  using card_mono [of "{1..int n}" S] by (simp flip: alloc_ok_avail)

lemma conserved_within: "swa_conserved s \<Longrightarrow> alloc_available_size (sw_swa s) \<le> ta_size (sw_swa s)"
proof -
  assume a: "swa_conserved s"
  then have "size (token_avail (sw_swa s)) \<le> size (mset_set {1..int (ta_size (sw_swa s))})"
    by (metis le_add1 size_union swa_conserved_def)
  then show ?thesis using a by (simp add: swa_conserved_def alloc_ok_avail)
qed

lemma free_now_inv:
  assumes "swa_inv s" "distinct idx" "set idx \<subseteq> in_use s" "sw_not_in_group s"
  shows "\<exists>s'. swa_free idx s = Inr s' \<and> swa_inv s'"
proof (cases "idx = []")
  case False
  define s0 where "s0 = s\<lparr>sw_full := token_free idx (sw_full s)\<rparr>"
  note inv = assms(1) [unfolded swa_inv_def swa_conserved_def]
  have pn: "pending s = []" using assms(4) by (simp add: pending_def)
  have f: "alloc_ok (token_free idx (sw_full s))" "ta_size (token_free idx (sw_full s)) = ta_size (sw_full s)"
    using token_free_ok inv by blast+
  have s0: "sw_full s0 = token_free idx (sw_full s)" "sw_swa s0 = sw_swa s" "sw_map s0 = sw_map s" by (simp_all add: s0_def)
  have c0: "swa_conserved s0" using inv f by (simp add: swa_conserved_def s0)
  have r: "set idx \<subseteq> {1..int (ta_size (sw_full s0))}" using in_use_range [OF assms(3)] f by (simp add: s0)
  from free_swa_effect [OF c0 assms(2) r] obtain w' m' where e:
    "free_swa idx s0 = Inr (s0\<lparr>sw_swa := w', sw_map := m'\<rparr>)" "alloc_ok w'" "ta_size w' = ta_size (sw_swa s)" "length m' = length (sw_map s)"
    "\<forall>k < length m'. m' ! k = (if int k \<in> set idx then 0 else sw_map s ! k)"
    "token_avail w' + filter_mset (\<lambda>x. x \<noteq> 0) (mset m') = mset_set {1..int (ta_size (sw_swa s))}" unfolding s0 by blast
  define s' where "s' = s0\<lparr>sw_swa := w', sw_map := m'\<rparr>"
  have sel: "sw_full s' = token_free idx (sw_full s)" "sw_swa s' = w'" "sw_map s' = m'" "pending s' = []"
    using assms(4) by (simp_all add: s'_def s0_def pending_def)
  obtain F where F: "finite F" "token_avail (sw_full s) = mset_set F" "F \<subseteq> {1..int (ta_size (sw_full s))}" "\<forall>x \<in> F. sw_map s ! nat x = 0"
    using inv by blast
  have dj: "F \<inter> set idx = {}" using assms(3) F(1,2) by (auto simp: in_use_def)
  have "mset idx = mset_set (set idx)" using assms(2) by (simp add: mset_set_set)
  then have av: "token_avail (token_free idx (sw_full s)) = mset_set (F \<union> set idx)"
    using F(1,2) dj by (simp add: token_kv.avail_free mset_set_Union)
  have z: "\<forall>x \<in> F \<union> set idx. m' ! nat x = 0"
  proof
    fix x assume x: "x \<in> F \<union> set idx"
    then have "x \<in> {1..int (ta_size (sw_full s))}" using F(3) r f by (auto simp: s0)
    then have "nat x < length m'" "int (nat x) = x" using e(4) inv by auto
    then show "m' ! nat x = 0" using e(5) x F(4) by (cases "x \<in> set idx") simp_all
  qed
  have sub: "F \<union> set idx \<subseteq> {1..int (ta_size (token_free idx (sw_full s)))}" using F(3) r f by (simp add: s0)
  have i: "swa_inv s'" unfolding swa_inv_def swa_conserved_def sel
    using e(2,3,4,6) f inv F(1) av z sub by (auto intro!: exI [of _ "F \<union> set idx"])
  have "alloc_available_size (sw_full s') \<le> ta_size (sw_full s')" unfolding sel using avail_within [OF f(1) av sub] .
  moreover have "alloc_available_size (sw_swa s') \<le> ta_size (sw_swa s')" using i conserved_within by (simp add: swa_inv_def)
  ultimately show ?thesis using i False assms(4) e(1) by (simp add: swa_free_def s0_def [symmetric] s'_def [symmetric])
qed (use assms(1) in \<open>simp add: swa_free_def\<close>)

lemma swa_free_inv:
  assumes "swa_inv s" "distinct idx" "set idx \<subseteq> in_use s"
  shows "\<exists>s'. swa_free idx s = Inr s' \<and> swa_inv s'"
proof (cases "sw_not_in_group s \<or> idx = []")
  case True
  then show ?thesis using free_now_inv [OF assms] assms(1) by (cases "idx = []") (simp_all add: swa_free_def [of "[]"])
next
  case False
  define s' where "s' = s\<lparr>sw_free_group := sw_free_group s @ [idx]\<rparr>"
  note inv = assms(1) [unfolded swa_inv_def]
  have sel: "sw_full s' = sw_full s" "sw_swa s' = sw_swa s" "sw_map s' = sw_map s" "pending s' = pending s @ idx"
    using False by (simp_all add: s'_def pending_def)
  obtain F where F: "finite F" "token_avail (sw_full s) = mset_set F" "F \<subseteq> {1..int (ta_size (sw_full s))}" "\<forall>x \<in> F. sw_map s ! nat x = 0"
    "F \<inter> set (pending s) = {}" using inv by blast
  have i: "swa_inv s'"
    using inv F assms(2,3) unfolding swa_inv_def swa_conserved_def sel by (auto simp: in_use_def intro!: exI [of _ F])
  have "alloc_available_size (sw_full s') \<le> ta_size (sw_full s')" unfolding sel using avail_within [OF _ F(2,3)] inv by blast
  moreover have "alloc_available_size (sw_swa s') \<le> ta_size (sw_swa s')" using i conserved_within by (simp add: swa_inv_def)
  ultimately show ?thesis using i False by (simp add: swa_free_def s'_def [symmetric])
qed

lemma group_end_inv:
  assumes "swa_inv s" "\<not> sw_not_in_group s"
  shows "\<exists>s'. swa_group_end s = Inr s' \<and> swa_inv s'"
proof -
  define s1 where "s1 = s\<lparr>sw_not_in_group := True\<rparr>"
  have sel: "sw_full s1 = sw_full s" "sw_swa s1 = sw_swa s" "sw_map s1 = sw_map s" "pending s1 = []" by (simp_all add: s1_def pending_def)
  note inv = assms(1) [unfolded swa_inv_def]
  have i: "swa_inv s1" using inv unfolding swa_inv_def swa_conserved_def sel by auto
  have "set (pending s) \<subseteq> in_use s1" using inv by (auto simp: in_use_def sel)
  from free_now_inv [OF i _ this] inv have "\<exists>s'. swa_free (pending s) s1 = Inr s' \<and> swa_inv s'" by (simp add: s1_def)
  then show ?thesis using i assms(2) by (auto simp: swa_group_end_def Let_def s1_def [symmetric] pending_def)
qed

section \<open>Runs\<close>

text \<open>The states a caller reaches that frees only slots in use, each once, and closes a group it opened.\<close>

inductive swa_reach :: "nat \<Rightarrow> nat \<Rightarrow> bool \<Rightarrow> (nat \<Rightarrow> int) \<Rightarrow> swa_allocator \<Rightarrow> bool" for n n_swa need_sort uninit where
  created: "swa_reach n n_swa need_sort uninit (new_swa_allocator n n_swa need_sort uninit)"
| alloc_step: "swa_reach n n_swa need_sort uninit s \<Longrightarrow> swa_alloc k s = Inr (r, s') \<Longrightarrow> swa_reach n n_swa need_sort uninit s'"
| free_step: "swa_reach n n_swa need_sort uninit s \<Longrightarrow> distinct idx \<Longrightarrow> set idx \<subseteq> in_use s \<Longrightarrow> swa_free idx s = Inr s' \<Longrightarrow>
    swa_reach n n_swa need_sort uninit s'"
| free_swa_step: "swa_reach n n_swa need_sort uninit s \<Longrightarrow> distinct idx \<Longrightarrow> set idx \<subseteq> in_use s \<Longrightarrow> free_swa idx s = Inr s' \<Longrightarrow>
    swa_reach n n_swa need_sort uninit s'"
| begin_step: "swa_reach n n_swa need_sort uninit s \<Longrightarrow> sw_not_in_group s \<Longrightarrow> swa_reach n n_swa need_sort uninit (swa_group_begin s)"
| end_step: "swa_reach n n_swa need_sort uninit s \<Longrightarrow> \<not> sw_not_in_group s \<Longrightarrow> swa_group_end s = Inr s' \<Longrightarrow>
    swa_reach n n_swa need_sort uninit s'"

lemma new_swa_inv: "swa_inv (new_swa_allocator n n_swa need_sort uninit)"
proof -
  show ?thesis
    by (auto simp: swa_inv_def swa_conserved_def new_swa_allocator_def swa_clear_def new_token_allocator_def alloc_clear_def alloc_ok_def
        token_avail_def pending_def mset_slots simp del: upt_Suc intro!: exI [of _ "{1..int n}"])
qed

lemma swa_alloc_short: "\<not> (k \<le> alloc_available_size (sw_full s) \<and> k \<le> alloc_available_size (sw_swa s)) \<Longrightarrow> swa_alloc k s = Inr (None, s)"
  by (auto simp: swa_alloc_def)

lemma swa_reach_inv: "swa_reach n n_swa need_sort uninit s \<Longrightarrow> swa_inv s"
proof (induction rule: swa_reach.induct)
  case created
  then show ?case by (rule new_swa_inv)
next
  case (alloc_step s k r s')
  then show ?case using swa_alloc_inv [OF alloc_step.IH, of k] swa_alloc_short [of k s] by fastforce
next
  case (free_step s idx s')
  then show ?case using swa_free_inv [OF free_step.IH free_step.hyps(2,3)] by force
next
  case (free_swa_step s idx s')
  then show ?case using free_swa_inv [OF free_swa_step.IH free_swa_step.hyps(2,3)] by force
next
  case (begin_step s)
  have sel: "sw_full (swa_group_begin s) = sw_full s" "sw_swa (swa_group_begin s) = sw_swa s" "sw_map (swa_group_begin s) = sw_map s"
    "pending (swa_group_begin s) = []" by (simp_all add: swa_group_begin_def pending_def)
  show ?case using begin_step.IH unfolding swa_inv_def swa_conserved_def sel by auto
next
  case (end_step s s')
  then show ?case using group_end_inv [OF end_step.IH end_step.hyps(2)] by force
qed

text \<open>C19: In every state that allocations, frees, window frees and groups of frees reach, the free window slots and the entries
  of the table that are not 0 are together exactly the window slots, each once, and a free full slot maps to 0.
  An allocation there answers None and changes nothing when either allocator is short; otherwise it returns distinct full slots
  that the table sends to as many distinct window slots, all of them free before.
\<close>

theorem swa_allocator_conserves:
  assumes "swa_reach n n_swa need_sort uninit s"
  shows "token_avail (sw_swa s) + filter_mset (\<lambda>x. x \<noteq> 0) (mset (sw_map s)) = mset_set {1..int (ta_size (sw_swa s))} \<and>
    (\<forall>x \<in># token_avail (sw_full s). translate_loc s [x] = Inr [0]) \<and>
    (if k \<le> alloc_available_size (sw_full s) \<and> k \<le> alloc_available_size (sw_swa s)
     then \<exists>fs ws s'. swa_alloc k s = Inr (Some fs, s') \<and> length fs = k \<and> distinct fs \<and> set fs \<subseteq> in_use s' \<and>
       translate_loc s' fs = Inr ws \<and> distinct ws \<and> mset ws \<subseteq># token_avail (sw_swa s)
     else swa_alloc k s = Inr (None, s))"
proof -
  note inv = swa_reach_inv [OF assms]
  obtain F where F: "finite F" "token_avail (sw_full s) = mset_set F" "F \<subseteq> {1..int (ta_size (sw_full s))}" "\<forall>x \<in> F. sw_map s ! nat x = 0"
    using inv by (auto simp: swa_inv_def)
  have "translate_loc s [x] = Inr [0]" if "x \<in># token_avail (sw_full s)" for x
  proof -
    have x: "x \<in> F" using that F(1,2) by simp
    then have "0 \<le> x" "x < int (length (sw_map s))" using F(3) inv by (force simp: swa_inv_def swa_conserved_def)+
    then show ?thesis using F(4) x by (simp add: translate_loc_def)
  qed
  moreover have "token_avail (sw_swa s) + filter_mset (\<lambda>x. x \<noteq> 0) (mset (sw_map s)) = mset_set {1..int (ta_size (sw_swa s))}"
    using inv by (simp add: swa_inv_def swa_conserved_def)
  moreover have "\<exists>fs ws s'. swa_alloc k s = Inr (Some fs, s') \<and> length fs = k \<and> distinct fs \<and> set fs \<subseteq> in_use s' \<and>
       translate_loc s' fs = Inr ws \<and> distinct ws \<and> mset ws \<subseteq># token_avail (sw_swa s)"
    if "k \<le> alloc_available_size (sw_full s) \<and> k \<le> alloc_available_size (sw_swa s)"
    using swa_alloc_inv [OF inv] that by blast
  ultimately show ?thesis using swa_alloc_short by auto
qed

text \<open>After two of three full slots were handed out and the first given back.\<close>

definition ex_swa_held :: swa_allocator where
  "ex_swa_held =
     \<lparr>sw_full = \<lparr>ta_size = 3, ta_need_sort = False, ta_free_pages = [3], ta_release_pages = [], ta_not_in_group = True, ta_free_group = []\<rparr>,
      sw_swa = \<lparr>ta_size = 2, ta_need_sort = False, ta_free_pages = [], ta_release_pages = [], ta_not_in_group = True, ta_free_group = []\<rparr>,
      sw_map = [0, 1, 2, 0, 0, 0], sw_not_in_group = True, sw_free_group = []\<rparr>"

definition ex_swa :: swa_allocator where
  "ex_swa = ex_swa_held\<lparr>sw_full := (sw_full ex_swa_held)\<lparr>ta_free_pages := [3, 1]\<rparr>, sw_swa := (sw_swa ex_swa_held)\<lparr>ta_free_pages := [1]\<rparr>,
      sw_map := [0, 0, 2, 0, 0, 0]\<rparr>"

lemma ex_swa_alloc: "swa_alloc 2 (new_swa_allocator 3 2 False (\<lambda>_. 7)) = Inr (Some [1, 2], ex_swa_held)"
  by code_simp

lemma ex_swa_free: "swa_free [1] ex_swa_held = Inr ex_swa"
  by code_simp

lemma ex_swa_reach: "swa_reach 3 2 False (\<lambda>_. 7) ex_swa"
proof (rule free_step [OF alloc_step [OF created ex_swa_alloc] _ _ ex_swa_free])
  show "set [1] \<subseteq> in_use ex_swa_held" by (simp add: in_use_def ex_swa_held_def token_avail_def pending_def)
qed simp

theorem swa_allocator_conserves_witness:
  "swa_reach 3 2 False (\<lambda>_. 7) ex_swa \<and> token_avail (sw_swa ex_swa) = {#1#} \<and> mset_set {1..int 2} = {#1, 2#} \<and>
   (\<exists>fs ws s'. swa_alloc 1 ex_swa = Inr (Some fs, s') \<and> length fs = 1 \<and> translate_loc s' fs = Inr ws \<and> mset ws \<subseteq># {#1#})"
proof -
  have a: "token_avail (sw_swa ex_swa) = {#1#}" by (simp add: ex_swa_def ex_swa_held_def token_avail_def)
  have k: "1 \<le> alloc_available_size (sw_full ex_swa) \<and> 1 \<le> alloc_available_size (sw_swa ex_swa)" by code_simp
  have n: "filter_mset (\<lambda>x. x \<noteq> 0) (mset (sw_map ex_swa)) = {#2#}" "ta_size (sw_swa ex_swa) = 2"
    by (simp_all add: ex_swa_def ex_swa_held_def)
  note c = swa_allocator_conserves [OF ex_swa_reach, of 1]
  have "mset_set {1..int 2} = {#1, 2#}" using conjunct1 [OF c] by (simp add: a n add_mset_commute)
  then show ?thesis using c ex_swa_reach a k by (simp only: if_True simp_thms a) blast
qed

end
