(* ===== verification/PagedAlloc.thy ===== *)
theory PagedAlloc
  imports KVAlloc Positions
begin

text \<open>
  The paged token allocator (\<open>PagedTokenToKVPoolAllocator\<close> and its two kernels,
  \<open>srt/mem_cache/allocator.py\<close>). As for the positions kernel, a launch is the list of the stores of its
  programs, which reach the tensor in any order. The lanes a load masks off count as zero, which the
  kernel relies on; a load behind the end of the free pages and the memory of \<open>torch.empty\<close> have
  arbitrary values, arguments of the model. Lengths are not negative, so the kernel's division is \<open>div\<close>.
\<close>

section \<open>The allocator\<close>

record paged_allocator = token_allocator +
  pa_page_size :: int
  pa_debug :: bool
  pa_seen_max :: int

definition paged_clear :: "paged_allocator \<Rightarrow> paged_allocator" where
  "paged_clear al = al\<lparr>ta_free_pages := py_range 1 (int (ta_size al) div pa_page_size al + 1), ta_not_in_group := True,
     ta_free_group := [], ta_release_pages := []\<rparr>"

definition new_paged_allocator :: "nat \<Rightarrow> int \<Rightarrow> bool \<Rightarrow> bool \<Rightarrow> paged_allocator" where
  "new_paged_allocator n page_size need_sort debug = paged_clear
     \<lparr>ta_size = n, ta_need_sort = need_sort, ta_free_pages = [], ta_release_pages = [], ta_not_in_group = True, ta_free_group = [],
      pa_page_size = page_size, pa_debug = debug, pa_seen_max = 1\<rparr>"

definition paged_available_size :: "paged_allocator \<Rightarrow> int" where
  "paged_available_size al = int (length (ta_free_pages al) + length (ta_release_pages al)) * pa_page_size al"

definition page_slots :: "int \<Rightarrow> int \<Rightarrow> int list" where
  "page_slots page_size page = map (\<lambda>x. page * page_size + x) (py_range 0 page_size)"

definition paged_alloc :: "nat \<Rightarrow> paged_allocator \<Rightarrow> (int list option \<times> paged_allocator) res" where
  "paged_alloc need_size al =
     (if pa_debug al \<and> int need_size mod pa_page_size al \<noteq> 0 then Inl AssertionError
      else
        let num_pages = nat (int need_size div pa_page_size al);
            al1 = (if ta_need_sort al \<and> num_pages > length (ta_free_pages al) then merge_and_sort_free al else al)
        in if num_pages > length (ta_free_pages al1) then Inr (None, al1)
           else Inr (Some (concat (map (page_slots (pa_page_size al)) (take num_pages (ta_free_pages al1)))),
                     al1\<lparr>ta_free_pages := drop num_pages (ta_free_pages al1)\<rparr>))"

text \<open>\<open>torch.unique\<close> returns the values in increasing order.\<close>

definition paged_free :: "int list \<Rightarrow> paged_allocator \<Rightarrow> paged_allocator res" where
  "paged_free free_index al =
     (if free_index = [] then Inr al
      else
        let pages = sort (remdups (map (\<lambda>i. i div pa_page_size al) free_index));
            al1 = (if ta_not_in_group al then
                     if ta_need_sort al then al\<lparr>ta_release_pages := pages @ ta_release_pages al\<rparr>
                     else al\<lparr>ta_free_pages := pages @ ta_free_pages al\<rparr>
                   else al\<lparr>ta_free_group := ta_free_group al @ [free_index]\<rparr>)
        in if pa_debug al \<and> \<not> distinct (ta_free_pages al1) then Inl AssertionError else Inr al1)"

definition paged_free_group_end :: "paged_allocator \<Rightarrow> paged_allocator res" where
  "paged_free_group_end al =
     (let al1 = al\<lparr>ta_not_in_group := True\<rparr>
      in if ta_free_group al \<noteq> [] then paged_free (concat (ta_free_group al)) al1 else Inr al1)"

section \<open>The kernels\<close>

fun bit_length :: "nat \<Rightarrow> nat" where
  "bit_length n = (if n = 0 then 0 else Suc (bit_length (n div 2)))"

declare bit_length.simps [simp del]

definition next_power_of_2 :: "int \<Rightarrow> int" where
  "next_power_of_2 n = (if n > 0 then push_bit (bit_length (nat (n - 1))) 1 else 1)"

definition page_up :: "int \<Rightarrow> int \<Rightarrow> int" where
  "page_up page_size x = (x + page_size - 1) div page_size"

definition get_num_new_pages :: "int list \<Rightarrow> int \<Rightarrow> int list option \<Rightarrow> bool \<Rightarrow> int res" where
  "get_num_new_pages seq_lens page_size prefix_lens decode =
     (case (prefix_lens, decode) of
        (Some pre, False) \<Rightarrow> Inr (sum_list (map2 (\<lambda>s p. page_up page_size s - page_up page_size p) seq_lens pre))
      | (_, True) \<Rightarrow> Inr (int (length (filter (\<lambda>s. s mod page_size = 1) seq_lens)))
      | (None, False) \<Rightarrow> Inl AssertionError)"

definition load_page :: "(int \<Rightarrow> int) \<Rightarrow> int list \<Rightarrow> int \<Rightarrow> int" where
  "load_page junk free i = (if 0 \<le> i \<and> i < int (length free) then free ! nat i else junk i)"

text \<open>Program \<open>pid\<close> of \<open>alloc_extend_kernel\<close>: the old partial page, the new full pages, the new partial page.\<close>

definition extend_program ::
    "int \<Rightarrow> int \<Rightarrow> (int \<Rightarrow> int) \<Rightarrow> int list \<Rightarrow> int list \<Rightarrow> int list \<Rightarrow> int list \<Rightarrow> nat \<Rightarrow> (int \<times> int) list" where
  "extend_program page_size max_extend junk free pre_lens seq_lens last_loc pid =
     (let seq_len = seq_lens ! pid; pre_len = pre_lens ! pid;
          output_start_loc = sum_list (take (Suc pid) (map2 (-) seq_lens pre_lens)) - (seq_len - pre_len);
          num_pages_self = page_up page_size seq_len - page_up page_size pre_len;
          new_page_start_loc =
            sum_list (take (Suc pid) (map2 (\<lambda>s p. page_up page_size s - page_up page_size p) seq_lens pre_lens)) - num_pages_self;
          num_part1 = min seq_len (page_up page_size pre_len * page_size) - pre_len;
          part1 = map (\<lambda>x. (output_start_loc + x, last_loc ! pid + 1 + x)) (filter (\<lambda>x. x < num_part1) (py_range 0 page_size))
      in if pre_len + num_part1 = seq_len then part1
         else
           let num_part2 = seq_len div page_size * page_size - page_up page_size pre_len * page_size;
               part2 = map (\<lambda>x. (output_start_loc + num_part1 + x,
                   load_page junk free (new_page_start_loc + x div page_size) * page_size + x mod page_size))
                 (filter (\<lambda>x. x < num_part2) (py_range 0 max_extend))
           in if pre_len + num_part1 + num_part2 = seq_len then part1 @ part2
              else
                let num_part3 = seq_len - seq_len div page_size * page_size;
                    start_loc = load_page junk free (new_page_start_loc + num_pages_self - 1)
                in part1 @ part2 @ map (\<lambda>x. (output_start_loc + num_part1 + num_part2 + x, start_loc * page_size + x))
                     (filter (\<lambda>x. x < num_part3) (py_range 0 page_size)))"

definition extend_stores ::
    "int \<Rightarrow> int \<Rightarrow> (int \<Rightarrow> int) \<Rightarrow> int list \<Rightarrow> int list \<Rightarrow> int list \<Rightarrow> int list \<Rightarrow> (int \<times> int) list" where
  "extend_stores page_size max_extend junk free pre_lens seq_lens last_loc =
     concat (map (extend_program page_size max_extend junk free pre_lens seq_lens last_loc) [0..<length pre_lens])"

text \<open>Program \<open>pid\<close> of \<open>alloc_decode_kernel\<close>: one slot for one token.\<close>

definition decode_program :: "int \<Rightarrow> (int \<Rightarrow> int) \<Rightarrow> int list \<Rightarrow> int list \<Rightarrow> int list \<Rightarrow> nat \<Rightarrow> int \<times> int" where
  "decode_program page_size junk free seq_lens last_loc pid =
     (let seq_len = seq_lens ! pid; pre_len = seq_len - 1;
          num_pages_self = page_up page_size seq_len - page_up page_size pre_len;
          new_page_start_loc =
            sum_list (take (Suc pid) (map (\<lambda>s. page_up page_size s - page_up page_size (s - 1)) seq_lens)) - num_pages_self
      in (int pid, if num_pages_self = 0 then last_loc ! pid + 1 else load_page junk free new_page_start_loc * page_size))"

definition decode_stores :: "int \<Rightarrow> (int \<Rightarrow> int) \<Rightarrow> int list \<Rightarrow> int list \<Rightarrow> int list \<Rightarrow> (int \<times> int) list" where
  "decode_stores page_size junk free seq_lens last_loc =
     map (decode_program page_size junk free seq_lens last_loc) [0..<length seq_lens]"

section \<open>Allocation for a batch\<close>

text \<open>The end of both: in debug mode a uniqueness check, then the pages are taken if there are enough.\<close>

definition take_new_pages :: "int list \<Rightarrow> int res \<Rightarrow> paged_allocator \<Rightarrow> (int list option \<times> paged_allocator) res" where
  "take_new_pages out_indices num_pages al =
     (if pa_debug al \<and> \<not> distinct out_indices then Inl AssertionError
      else rbind num_pages (\<lambda>num_new_pages.
        if num_new_pages > int (length (ta_free_pages al)) then Inr (None, al)
        else Inr (Some out_indices, al\<lparr>ta_free_pages := drop (nat num_new_pages) (ta_free_pages al)\<rparr>)))"

definition alloc_extend ::
    "(int \<Rightarrow> int) \<Rightarrow> (nat \<Rightarrow> int) \<Rightarrow> int list \<Rightarrow> int list \<Rightarrow> int list \<Rightarrow> nat \<Rightarrow> paged_allocator
     \<Rightarrow> (int list option \<times> paged_allocator) res" where
  "alloc_extend junk uninit prefix_lens seq_lens last_loc extend_num_tokens al =
     (let ps = pa_page_size al
      in if pa_debug al \<and> \<not> list_all (\<lambda>(l, p). (l + 1) mod ps = p mod ps) (zip last_loc prefix_lens) then Inl AssertionError
         else
           let al1 = al\<lparr>pa_seen_max := max (pa_seen_max al) (next_power_of_2 (int extend_num_tokens))\<rparr>;
               al2 = (if ta_need_sort al1 \<and> int extend_num_tokens div ps + int (length prefix_lens) + 1 > int (length (ta_free_pages al1))
                      then merge_and_sort_free al1 else al1);
               out_indices = run_stores (extend_stores ps (pa_seen_max al2) junk (ta_free_pages al2) prefix_lens seq_lens last_loc)
                 (map uninit [0..<extend_num_tokens])
           in take_new_pages out_indices (get_num_new_pages seq_lens ps (Some prefix_lens) False) al2)"

definition alloc_decode ::
    "(int \<Rightarrow> int) \<Rightarrow> (nat \<Rightarrow> int) \<Rightarrow> int list \<Rightarrow> int list \<Rightarrow> paged_allocator \<Rightarrow> (int list option \<times> paged_allocator) res" where
  "alloc_decode junk uninit seq_lens last_loc al =
     (let ps = pa_page_size al
      in if pa_debug al \<and> \<not> list_all (\<lambda>(l, s). (l + 2) mod ps = s mod ps) (zip last_loc seq_lens) then Inl AssertionError
         else
           let al1 = (if ta_need_sort al \<and> length seq_lens > length (ta_free_pages al) then merge_and_sort_free al else al);
               out_indices = run_stores (decode_stores ps junk (ta_free_pages al1) seq_lens last_loc) (map uninit [0..<length seq_lens])
           in take_new_pages out_indices (get_num_new_pages seq_lens ps None True) al1)"

section \<open>Slots of a request\<close>

text \<open>The slot of token \<open>p\<close> of a request with \<open>pre\<close> tokens, whose last one is in slot \<open>last\<close>: the rest
  of the page of \<open>last\<close>, then the new pages.\<close>

definition extend_slot :: "int \<Rightarrow> int \<Rightarrow> int \<Rightarrow> (int \<Rightarrow> int) \<Rightarrow> int \<Rightarrow> int" where
  "extend_slot ps last_slot pre pages p =
     (if p < page_up ps pre * ps then last_slot + 1 + (p - pre) else pages (p div ps - page_up ps pre) * ps + p mod ps)"

lemma page_up_bounds: "0 < ps \<Longrightarrow> x \<le> page_up ps x * ps \<and> page_up ps x * ps < x + ps"
proof -
  assume ps: "0 < ps"
  have "page_up ps x * ps + (x + ps - 1) mod ps = x + ps - 1" unfolding page_up_def by (rule div_mult_mod_eq)
  moreover have "0 \<le> (x + ps - 1) mod ps" "(x + ps - 1) mod ps < ps" using ps by simp_all
  ultimately show ?thesis by linarith
qed

lemma div_bounds: "0 < ps \<Longrightarrow> x div ps * ps \<le> x \<and> x < x div ps * ps + (ps :: int)"
  using div_mult_mod_eq [of x ps] pos_mod_bound [of ps x] pos_mod_sign [of ps x] by linarith

lemma page_up_mono: "0 < ps \<Longrightarrow> x \<le> y \<Longrightarrow> page_up ps x \<le> page_up ps y"
  by (simp add: page_up_def zdiv_mono1)

lemma page_up_div: "0 < ps \<Longrightarrow> page_up ps x = (if x mod ps = 0 then x div ps else x div ps + 1)"
proof -
  assume ps: "0 < ps"
  have "x = x div ps * ps + x mod ps" by simp
  then have "page_up ps x = (x div ps * ps + (x mod ps + ps - 1)) div ps" by (simp add: page_up_def algebra_simps)
  also have "\<dots> = x div ps + (x mod ps + ps - 1) div ps" using ps by simp
  also have "(x mod ps + ps - 1) div ps = (if x mod ps = 0 then 0 else 1)"
  proof (cases "x mod ps = 0")
    case False
    then have "0 < x mod ps" "x mod ps < ps" using ps pos_mod_sign [of ps x] pos_mod_bound [of ps x] by linarith+
    then have "(x mod ps + ps - 1) div ps = ((x mod ps - 1) + 1 * ps) div ps" by (simp add: algebra_simps)
    also have "\<dots> = 1 + (x mod ps - 1) div ps" using ps by (subst div_mult_self1) simp_all
    also have "(x mod ps - 1) div ps = 0" using \<open>0 < x mod ps\<close> \<open>x mod ps < ps\<close> by (simp add: div_pos_pos_trivial)
    finally show ?thesis using False by simp
  qed (use ps in \<open>simp add: div_pos_pos_trivial\<close>)
  finally show ?thesis by simp
qed

lemma page_up_mult: "0 < ps \<Longrightarrow> page_up ps (k * ps) = k"
  by (simp add: page_up_div)

section \<open>The kernel computes the slots\<close>

lemma filter_below: "n \<le> m \<Longrightarrow> filter (\<lambda>x. x < n) (py_range 0 m) = py_range 0 n"
  by (simp add: filter_py_range min_def)

lemma map_shifted: "map (\<lambda>x. f (d + x)) (py_range 0 n) = map f (py_range d (d + n))"
proof -
  have "map (\<lambda>x. f (d + x)) (py_range 0 n) = map f (map (\<lambda>x. x + d) (py_range 0 n))" by (simp add: add.commute)
  then show ?thesis by (simp only: map_shift_py_range) (simp add: add.commute)
qed

definition extend_store :: "int \<Rightarrow> int \<Rightarrow> int \<Rightarrow> int \<Rightarrow> (int \<Rightarrow> int) \<Rightarrow> int \<Rightarrow> int \<times> int" where
  "extend_store ps start last_slot pre pages p = (start + (p - pre), extend_slot ps last_slot pre pages p)"

lemma part1_stores:
  assumes "0 < ps" "n \<le> page_up ps pre * ps - pre"
  shows "map (\<lambda>x. (start + x, l + 1 + x)) (filter (\<lambda>x. x < n) (py_range 0 ps)) = map (extend_store ps start l pre pages) (py_range pre (pre + n))"
proof -
  have "n \<le> ps" using assms page_up_bounds [of ps pre] by linarith
  then have "map (\<lambda>x. (start + x, l + 1 + x)) (filter (\<lambda>x. x < n) (py_range 0 ps)) = map (\<lambda>x. extend_store ps start l pre pages (pre + x)) (py_range 0 n)"
    using assms by (auto simp: filter_below extend_slot_def extend_store_def)
  also have "\<dots> = map (extend_store ps start l pre pages) (py_range pre (pre + n))" by (rule map_shifted)
  finally show ?thesis .
qed

lemma part2_stores:
  assumes "0 < ps" "D * ps - page_up ps pre * ps \<le> mx"
  shows "map (\<lambda>x. (start + (page_up ps pre * ps - pre) + x, pages (x div ps) * ps + x mod ps))
      (filter (\<lambda>x. x < D * ps - page_up ps pre * ps) (py_range 0 mx)) = map (extend_store ps start l pre pages) (py_range (page_up ps pre * ps) (D * ps))"
proof -
  let ?U = "page_up ps pre"
  have "(?U * ps + x) div ps - ?U = x div ps" "(?U * ps + x) mod ps = x mod ps" for x using assms(1) by simp_all
  then have "map (\<lambda>x. (start + (?U * ps - pre) + x, pages (x div ps) * ps + x mod ps)) (filter (\<lambda>x. x < D * ps - ?U * ps) (py_range 0 mx))
     = map (\<lambda>x. extend_store ps start l pre pages (?U * ps + x)) (py_range 0 (D * ps - ?U * ps))"
    using assms(2) by (auto simp: filter_below extend_slot_def extend_store_def)
  also have "\<dots> = map (extend_store ps start l pre pages) (py_range (?U * ps) (?U * ps + (D * ps - ?U * ps)))" by (rule map_shifted)
  finally show ?thesis by simp
qed

lemma part3_stores:
  assumes "0 < ps" "page_up ps pre * ps \<le> D * ps" "s - D * ps \<le> ps"
  shows "map (\<lambda>x. (start + (D * ps - pre) + x, pages (D - page_up ps pre) * ps + x)) (filter (\<lambda>x. x < s - D * ps) (py_range 0 ps)) =
    map (extend_store ps start l pre pages) (py_range (D * ps) s)"
proof -
  let ?U = "page_up ps pre"
  have "map (\<lambda>x. (start + (D * ps - pre) + x, pages (D - ?U) * ps + x)) (filter (\<lambda>x. x < s - D * ps) (py_range 0 ps)) =
      map (\<lambda>x. extend_store ps start l pre pages (D * ps + x)) (py_range 0 (s - D * ps))"
    unfolding filter_below [OF assms(3)]
  proof (rule map_cong [OF refl])
    fix x assume "x \<in> set (py_range 0 (s - D * ps))"
    then have x: "0 \<le> x" "x < ps" using assms(3) by simp_all
    then have q: "(D * ps + x) div ps = D" "(D * ps + x) mod ps = x" by simp_all
    have nlt: "\<not> D * ps + x < ?U * ps" using assms(2) x by linarith
    have c: "start + (D * ps - pre) + x = start + (D * ps + x - pre)" by simp
    show "(start + (D * ps - pre) + x, pages (D - ?U) * ps + x) = extend_store ps start l pre pages (D * ps + x)"
      by (simp only: extend_store_def extend_slot_def nlt if_False q c)
  qed
  also have "\<dots> = map (extend_store ps start l pre pages) (py_range (D * ps) (D * ps + (s - D * ps)))" by (rule map_shifted)
  finally show ?thesis by simp
qed

definition first_page :: "int \<Rightarrow> int list \<Rightarrow> int list \<Rightarrow> nat \<Rightarrow> int" where
  "first_page ps seq pre pid = sum_list (take pid (map2 (\<lambda>s p. page_up ps s - page_up ps p) seq pre))"

definition first_slot :: "int list \<Rightarrow> int list \<Rightarrow> nat \<Rightarrow> int" where
  "first_slot seq pre pid = sum_list (take pid (map2 (-) seq pre))"

lemma take_Suc_map2:
  "pid < length pre \<Longrightarrow> length seq = length pre \<Longrightarrow> take (Suc pid) (map2 f seq pre) = take pid (map2 f seq pre) @ [f (seq ! pid) (pre ! pid)]"
  by (simp add: take_Suc_conv_app_nth)

lemma extend_program_slots:
  assumes "0 < ps" "pid < length pre" "length seq = length pre" "pre ! pid \<le> seq ! pid" "seq ! pid - pre ! pid \<le> mx"
  shows "extend_program ps mx junk free pre seq last_loc pid =
    map (extend_store ps (first_slot seq pre pid) (last_loc ! pid) (pre ! pid) (\<lambda>i. load_page junk free (first_page ps seq pre pid + i)))
     (py_range (pre ! pid) (seq ! pid))"
proof -
  let ?s = "seq ! pid" and ?p = "pre ! pid" and ?st = "first_slot seq pre pid"
  let ?U = "page_up ps ?p" and ?D = "?s div ps" and ?pg = "\<lambda>i. load_page junk free (first_page ps seq pre pid + i)"
  let ?f = "extend_store ps ?st (last_loc ! pid) ?p ?pg"
  have st: "sum_list (take (Suc pid) (map2 (-) seq pre)) - (?s - ?p) = ?st"
    "sum_list (take (Suc pid) (map2 (\<lambda>s p. page_up ps s - page_up ps p) seq pre)) - (page_up ps ?s - ?U) = first_page ps seq pre pid"
    unfolding take_Suc_map2 [OF assms(2,3)] by (simp_all add: first_slot_def first_page_def)
  have U: "?p \<le> ?U * ps" using page_up_bounds [OF assms(1)] by simp
  have D: "?D * ps \<le> ?s" "?s < ?D * ps + ps" using div_bounds [OF assms(1), of ?s] by simp_all
  note unf = extend_program_def Let_def st
  show ?thesis
  proof (cases "?s \<le> ?U * ps")
    case True
    then have "min ?s (?U * ps) = ?s" by simp
    then show ?thesis unfolding unf using part1_stores [OF assms(1), of "?s - ?p" ?p ?st "last_loc ! pid" ?pg] True by simp
  next
    case False
    then have mn: "min ?s (?U * ps) = ?U * ps" by simp
    have c: "?p + (?U * ps - ?p) = ?s \<longleftrightarrow> False" "?p + (?U * ps - ?p) + (?D * ps - ?U * ps) = ?s \<longleftrightarrow> ?D * ps = ?s" using False by auto
    have "?U \<le> ?D" using zdiv_mono1 [of "?U * ps" ?s ps] False assms(1) by simp
    then have m: "?U * ps \<le> ?D * ps" using assms(1) by simp
    have 1: "map (\<lambda>x. (?st + x, last_loc ! pid + 1 + x)) (filter (\<lambda>x. x < ?U * ps - ?p) (py_range 0 ps)) = map ?f (py_range ?p (?U * ps))"
      using part1_stores [OF assms(1), of "?U * ps - ?p" ?p] by simp
    have 2: "map (\<lambda>x. (?st + (?U * ps - ?p) + x, load_page junk free (first_page ps seq pre pid + x div ps) * ps + x mod ps))
        (filter (\<lambda>x. x < ?D * ps - ?U * ps) (py_range 0 mx)) = map ?f (py_range (?U * ps) (?D * ps))"
      using U D(1) assms(5) by (intro part2_stores [OF assms(1), where pages = ?pg]) simp
    have j: "map ?f (py_range ?p (?U * ps)) @ map ?f (py_range (?U * ps) (?D * ps)) = map ?f (py_range ?p (?D * ps))"
      using U m by (simp add: py_range_append flip: map_append)
    show ?thesis
    proof (cases "?D * ps = ?s")
      case True
      then show ?thesis unfolding unf mn c 1 2 by (simp add: j [unfolded True])
    next
      case F2: False
      have lp: "first_page ps seq pre pid + (page_up ps ?s - ?U) - 1 = first_page ps seq pre pid + (?D - ?U)"
        using F2 page_up_div [OF assms(1), of ?s] by auto
      have s3: "?st + (?U * ps - ?p) + (?D * ps - ?U * ps) + x = ?st + (?D * ps - ?p) + x" for x by simp
      have 3: "map (\<lambda>x. (?st + (?D * ps - ?p) + x, load_page junk free (first_page ps seq pre pid + (?D - ?U)) * ps + x))
          (filter (\<lambda>x. x < ?s - ?D * ps) (py_range 0 ps)) = map ?f (py_range (?D * ps) ?s)"
        using D m by (intro part3_stores [OF assms(1), where pages = ?pg]) simp_all
      have "map ?f (py_range ?p (?D * ps)) @ map ?f (py_range (?D * ps) ?s) = map ?f (py_range ?p ?s)"
        using U m D(1) by (simp add: py_range_append flip: map_append)
      then show ?thesis unfolding unf mn c 1 2 lp s3 3 using F2 j by (simp flip: append_assoc)
    qed
  qed
qed

section \<open>A launch\<close>

definition extend_ok :: "int \<Rightarrow> int list \<Rightarrow> int list \<Rightarrow> int list \<Rightarrow> bool" where
  "extend_ok ps pre seq last_loc \<longleftrightarrow> 0 < ps \<and> length seq = length pre \<and> length last_loc = length pre \<and>
     list_all (\<lambda>i. 0 \<le> pre ! i \<and> pre ! i \<le> seq ! i) [0..<length pre]"

lemma extend_okD:
  "extend_ok ps pre seq last_loc \<Longrightarrow> i < length pre \<Longrightarrow> 0 \<le> pre ! i \<and> pre ! i \<le> seq ! i"
  "extend_ok ps pre seq last_loc \<Longrightarrow> 0 < ps \<and> length seq = length pre \<and> length last_loc = length pre"
  by (simp_all add: extend_ok_def list_all_iff)

definition extend_reference :: "int \<Rightarrow> (int \<Rightarrow> int) \<Rightarrow> int list \<Rightarrow> int list \<Rightarrow> int list \<Rightarrow> int list" where
  "extend_reference ps pages pre seq last_loc =
     concat (map (\<lambda>pid. map (extend_slot ps (last_loc ! pid) (pre ! pid) (\<lambda>i. pages (first_page ps seq pre pid + i)))
       (py_range (pre ! pid) (seq ! pid))) [0..<length pre])"

lemma first_Suc:
  assumes "pid < length pre" "length seq = length pre"
  shows "first_slot seq pre (Suc pid) = first_slot seq pre pid + (seq ! pid - pre ! pid)"
    "first_page ps seq pre (Suc pid) = first_page ps seq pre pid + (page_up ps (seq ! pid) - page_up ps (pre ! pid))"
  unfolding first_slot_def first_page_def take_Suc_map2 [OF assms] by simp_all

lemma first_mono:
  assumes "extend_ok ps pre seq last_loc" "m \<le> n" "n \<le> length pre"
  shows "first_slot seq pre m \<le> first_slot seq pre n \<and> first_page ps seq pre m \<le> first_page ps seq pre n"
  using assms(2,3)
proof (induction n)
  case (Suc n)
  note ok = extend_okD(2) [OF assms(1)]
  show ?case
  proof (cases "m = Suc n")
    case False
    then have "m \<le> n" "n < length pre" using Suc.prems by auto
    then show ?thesis using Suc.IH first_Suc [of n pre seq] ok extend_okD(1) [OF assms(1), of n] page_up_mono [of ps "pre ! n" "seq ! n"] by auto
  qed simp
qed simp

lemma first_0 [simp]: "first_slot seq pre 0 = 0" "first_page ps seq pre 0 = 0"
  by (simp_all add: first_slot_def first_page_def)

lemma map_fst_store: "map fst (map (extend_store ps start l pre pages) (py_range pre s)) = py_range start (start + (s - pre))"
proof -
  have "map fst (map (extend_store ps start l pre pages) (py_range pre s)) = map (\<lambda>x. x + (start - pre)) (py_range pre s)"
    by (simp add: extend_store_def o_def algebra_simps)
  also have "\<dots> = py_range start (start + (s - pre))" unfolding map_shift_py_range by (simp add: algebra_simps)
  finally show ?thesis .
qed

lemma extend_stores_upto:
  assumes "extend_ok ps pre seq last_loc" "m \<le> length pre" "first_slot seq pre (length pre) \<le> mx"
  shows "map fst (concat (map (extend_program ps mx junk free pre seq last_loc) [0..<m])) = py_range 0 (first_slot seq pre m) \<and>
    map snd (concat (map (extend_program ps mx junk free pre seq last_loc) [0..<m])) = concat (map (\<lambda>pid. map (extend_slot ps (last_loc ! pid) (pre ! pid) (\<lambda>i. load_page junk free (first_page ps seq pre pid + i)))
       (py_range (pre ! pid) (seq ! pid))) [0..<m])"
  using assms(2)
proof (induction m)
  case (Suc m)
  note ok = extend_okD(2) [OF assms(1)] and b = extend_okD(1) [OF assms(1), of m]
  have m: "m < length pre" using Suc.prems by simp
  have fs: "first_slot seq pre (Suc m) = first_slot seq pre m + (seq ! m - pre ! m)" using first_Suc(1) m ok by blast
  have nn: "0 \<le> first_slot seq pre m" using first_mono [OF assms(1), of 0 m] m by simp
  have "first_slot seq pre (Suc m) \<le> mx" using first_mono [OF assms(1), of "Suc m" "length pre"] m assms(3) by simp
  then have "seq ! m - pre ! m \<le> mx" using fs nn by simp
  from extend_program_slots [OF _ m _ _ this] b m ok have p: "extend_program ps mx junk free pre seq last_loc m =
     map (extend_store ps (first_slot seq pre m) (last_loc ! m) (pre ! m) (\<lambda>i. load_page junk free (first_page ps seq pre m + i))) (py_range (pre ! m) (seq ! m))"
    by simp
  have s: "map snd (map (extend_store ps st l p pages) xs) = map (extend_slot ps l p pages) xs" for st l p pages xs
    by (simp add: extend_store_def o_def)
  have f: "map fst (extend_program ps mx junk free pre seq last_loc m) = py_range (first_slot seq pre m) (first_slot seq pre (Suc m))"
    unfolding p map_fst_store fs ..
  have j: "py_range 0 (first_slot seq pre m) @ py_range (first_slot seq pre m) (first_slot seq pre (Suc m)) = py_range 0 (first_slot seq pre (Suc m))"
    using nn b m fs by (intro py_range_append) auto
  have x: "concat (map g [0..<Suc m]) = concat (map g [0..<m]) @ g m" for g :: "nat \<Rightarrow> 'z list" by simp
  show ?case using Suc.IH m f j s p by (simp only: x map_append)
qed simp

lemma extend_launch:
  assumes "extend_ok ps pre seq last_loc" "int n = first_slot seq pre (length pre)" "int n \<le> mx"
    and "mset st = mset (extend_stores ps mx junk free pre seq last_loc)"
  shows "run_stores st (map uninit [0..<n]) = extend_reference ps (load_page junk free) pre seq last_loc"
proof -
  note u = extend_stores_upto [OF assms(1) order_refl, of mx junk free]
  have "run_stores st (map uninit [0..<n]) = map snd (extend_stores ps mx junk free pre seq last_loc)"
    using u assms(2,3) by (intro run_stores_any_order [OF assms(4)]) (simp add: extend_stores_def)
  then show ?thesis using u assms(2,3) by (simp add: extend_stores_def extend_reference_def)
qed

section \<open>Block tables\<close>

text \<open>The pages a request writes to: the page of its last token unless that is full, then its new pages.\<close>

definition partial_page :: "int \<Rightarrow> int \<Rightarrow> int \<Rightarrow> int list" where
  "partial_page ps pre last_slot = (if pre mod ps \<noteq> 0 then [last_slot div ps] else [])"

definition new_pages :: "int \<Rightarrow> int list \<Rightarrow> int list \<Rightarrow> int list \<Rightarrow> nat \<Rightarrow> int list" where
  "new_pages ps free pre seq pid =
     take (nat (page_up ps (seq ! pid) - page_up ps (pre ! pid))) (drop (nat (first_page ps seq pre pid)) free)"

definition block_table :: "int \<Rightarrow> int list \<Rightarrow> int list \<Rightarrow> int list \<Rightarrow> int list \<Rightarrow> nat \<Rightarrow> int list" where
  "block_table ps free pre seq last_loc pid = partial_page ps (pre ! pid) (last_loc ! pid) @ new_pages ps free pre seq pid"

definition slot_of :: "int \<Rightarrow> int \<Rightarrow> int list \<Rightarrow> int \<Rightarrow> int" where
  "slot_of ps pre table p = table ! nat (p div ps - pre div ps) * ps + p mod ps"

lemma div_within: "0 < ps \<Longrightarrow> k * ps \<le> x \<Longrightarrow> x < k * ps + ps \<Longrightarrow> x div ps = (k :: int) \<and> x mod ps = x - k * ps"
proof -
  assume a: "0 < ps" "k * ps \<le> x" "x < k * ps + ps"
  have "((x - k * ps) + k * ps) div ps = k + (x - k * ps) div ps" using a(1) by (subst div_mult_self1) simp_all
  also have "(x - k * ps) div ps = 0" using a by (intro div_pos_pos_trivial) simp_all
  finally have "x div ps = k" by simp
  then show ?thesis by (simp add: minus_div_mult_eq_mod [symmetric])
qed

lemma old_page_slot:
  assumes "0 < ps" "pre \<le> p" "p < page_up ps pre * ps" "(l + 1) mod ps = pre mod ps"
  shows "pre mod ps \<noteq> 0 \<and> p div ps = pre div ps \<and> l + 1 + (p - pre) = l div ps * ps + p mod ps"
proof -
  have r: "pre mod ps \<noteq> 0"
  proof
    assume "pre mod ps = 0"
    then have "page_up ps pre * ps = pre" using page_up_div [OF assms(1), of pre] by auto
    then show False using assms(2,3) by simp
  qed
  then have u: "page_up ps pre = pre div ps + 1" using page_up_div [OF assms(1)] by simp
  have pr: "pre = pre div ps * ps + pre mod ps" "0 \<le> pre mod ps" using assms(1) by simp_all
  have dp: "pre div ps * ps \<le> p" using pr assms(2) by linarith
  have p: "p div ps = pre div ps" "p mod ps = p - pre div ps * ps"
    using div_within [OF assms(1) dp] assms(3) by (simp_all add: u algebra_simps)
  have l1: "l + 1 = (l + 1) div ps * ps + pre mod ps" using assms(4) div_mult_mod_eq [of "l + 1" ps] by simp
  have "l div ps = (l + 1) div ps"
    using div_within [OF assms(1), of "(l + 1) div ps" l] l1 r pr(2) assms(1) pos_mod_bound [of ps pre] by linarith
  then have "l div ps * ps = (l + 1) div ps * ps" by simp
  then have "l + 1 + (p - pre) = l div ps * ps + p mod ps" using p(2) l1 pr(1) by linarith
  then show ?thesis using r p(1) by blast
qed

lemma slot_in_table:
  assumes "extend_ok ps pre seq last_loc" "pid < length pre" "pre ! pid \<le> p" "p < seq ! pid"
    and "(last_loc ! pid + 1) mod ps = pre ! pid mod ps" "first_page ps seq pre (length pre) \<le> int (length free)"
  shows "extend_slot ps (last_loc ! pid) (pre ! pid) (\<lambda>i. load_page junk free (first_page ps seq pre pid + i)) p =
    slot_of ps (pre ! pid) (block_table ps free pre seq last_loc pid) p"
proof (cases "p < page_up ps (pre ! pid) * ps")
  case True
  then show ?thesis using old_page_slot [OF _ assms(3) True assms(5)] extend_okD(2) [OF assms(1)]
    by (simp add: extend_slot_def slot_of_def block_table_def partial_page_def)
next
  case False
  let ?U = "page_up ps (pre ! pid)" and ?f = "first_page ps seq pre pid"
  note ok = extend_okD(2) [OF assms(1)]
  define k where "k = p div ps - ?U"
  have k: "0 \<le> k" using zdiv_mono1 [of "?U * ps" p ps] False ok by (simp add: k_def)
  have "p div ps < page_up ps (seq ! pid)"
  proof -
    have "p div ps * ps < page_up ps (seq ! pid) * ps"
      using page_up_bounds [of ps "seq ! pid"] div_bounds [of ps p] assms(4) ok by linarith
    then show ?thesis using ok by simp
  qed
  then have kn: "k < page_up ps (seq ! pid) - ?U" by (simp add: k_def)
  have f0: "0 \<le> ?f" using first_mono [OF assms(1), of 0 pid] assms(2) by simp
  have fl: "?f + k < int (length free)"
    using first_mono [OF assms(1), of "Suc pid" "length pre"] first_Suc(2) [OF assms(2), of seq ps] assms(2,6) ok kn by simp
  have np: "new_pages ps free pre seq pid ! nat k = free ! nat (?f + k)"
    using k kn f0 fl by (simp add: new_pages_def nat_add_distrib)
  have ld: "load_page junk free (?f + k) = free ! nat (?f + k)" using k f0 fl by (simp add: load_page_def)
  have pu: "?U = pre ! pid div ps + (if pre ! pid mod ps = 0 then 0 else 1)" using page_up_div [of ps "pre ! pid"] ok by simp
  have "block_table ps free pre seq last_loc pid ! nat (p div ps - pre ! pid div ps) = new_pages ps free pre seq pid ! nat k"
  proof (cases "pre ! pid mod ps = 0")
    case False
    then have "nat (p div ps - pre ! pid div ps) = Suc (nat k)" using pu k by (simp add: k_def)
    then show ?thesis using False by (simp add: block_table_def partial_page_def)
  qed (use pu in \<open>simp add: block_table_def partial_page_def k_def\<close>)
  then show ?thesis using False np ld by (simp add: extend_slot_def slot_of_def k_def)
qed

lemma new_pages_concat:
  assumes "extend_ok ps pre seq last_loc" "m \<le> length pre"
  shows "concat (map (new_pages ps free pre seq) [0..<m]) = take (nat (first_page ps seq pre m)) free"
  using assms(2)
proof (induction m)
  case (Suc m)
  note ok = extend_okD(2) [OF assms(1)]
  have m: "m < length pre" using Suc.prems by simp
  let ?n = "page_up ps (seq ! m) - page_up ps (pre ! m)"
  have "0 \<le> ?n" using page_up_mono [of ps "pre ! m" "seq ! m"] extend_okD(1) [OF assms(1) m] ok by simp
  moreover have "0 \<le> first_page ps seq pre m" using first_mono [OF assms(1), of 0 m] m by simp
  ultimately have "nat (first_page ps seq pre (Suc m)) = nat (first_page ps seq pre m) + nat ?n"
    using first_Suc(2) [OF m, of seq ps] ok by (simp add: nat_add_distrib)
  then show ?case using Suc m by (simp add: new_pages_def take_add)
qed simp

text \<open>Slots of different tokens lie in different places when the tables share no page.\<close>

lemma distinct_slots:
  assumes "0 < ps" "distinct table" "nat (page_up ps s - pre div ps) \<le> length table" "0 \<le> pre"
  shows "distinct (map (slot_of ps pre table) (py_range pre s)) \<and>
    set (map (\<lambda>x. x div ps) (map (slot_of ps pre table) (py_range pre s))) \<subseteq> set table"
proof -
  have pg: "slot_of ps pre table p div ps = table ! nat (p div ps - pre div ps)" "slot_of ps pre table p mod ps = p mod ps" for p
    using assms(1) by (simp_all add: slot_of_def)
  have i: "nat (p div ps - pre div ps) < length table" "0 \<le> p div ps - pre div ps" if "pre \<le> p" "p < s" for p
  proof -
    have "p div ps * ps < page_up ps s * ps" using page_up_bounds [OF assms(1), of s] div_bounds [OF assms(1), of p] that by linarith
    then have "p div ps < page_up ps s" using assms(1) by simp
    then show "nat (p div ps - pre div ps) < length table" "0 \<le> p div ps - pre div ps"
      using assms(3) zdiv_mono1 [OF that(1) assms(1)] by linarith+
  qed
  have "p = q" if "pre \<le> p" "p < s" "pre \<le> q" "q < s" "slot_of ps pre table p = slot_of ps pre table q" for p q
  proof -
    have "p mod ps = q mod ps" "table ! nat (p div ps - pre div ps) = table ! nat (q div ps - pre div ps)" using that(5) pg by metis+
    then have "nat (p div ps - pre div ps) = nat (q div ps - pre div ps)"
      using assms(2) i that by (simp add: nth_eq_iff_index_eq)
    then have "p div ps = q div ps" using i(2) [OF that(1,2)] i(2) [OF that(3,4)] by simp
    then show ?thesis using \<open>p mod ps = q mod ps\<close> by (metis div_mult_mod_eq)
  qed
  then have "inj_on (slot_of ps pre table) (set (py_range pre s))" by (auto simp: inj_on_def)
  then show ?thesis using i by (auto simp: distinct_map pg)
qed

section \<open>What a batch gets\<close>

definition partial_pages :: "int \<Rightarrow> int list \<Rightarrow> int list \<Rightarrow> int list" where
  "partial_pages ps pre last_loc = concat (map2 (partial_page ps) pre last_loc)"

lemma partial_pages_nth:
  "length last_loc = length pre \<Longrightarrow> partial_pages ps pre last_loc = concat (map (\<lambda>i. partial_page ps (pre ! i) (last_loc ! i)) [0..<length pre])"
  unfolding partial_pages_def by (intro arg_cong [where f = concat] nth_equalityI) simp_all

lemma mset_concat_append: "mset (concat (map (\<lambda>i. f i @ g i) is)) = mset (concat (map f is)) + mset (concat (map g is))"
  by (induction "is") simp_all

lemma mset_tables:
  assumes "extend_ok ps pre seq last_loc"
  shows "mset (concat (map (block_table ps free pre seq last_loc) [0..<length pre])) =
    mset (partial_pages ps pre last_loc) + mset (take (nat (first_page ps seq pre (length pre))) free)"
  using extend_okD(2) [OF assms]
  by (simp add: block_table_def [abs_def] mset_concat_append new_pages_concat [OF assms order_refl] partial_pages_nth)

lemma extend_reference_tables:
  assumes "extend_ok ps pre seq last_loc" "list_all (\<lambda>(l, p). (l + 1) mod ps = p mod ps) (zip last_loc pre)"
    and "first_page ps seq pre (length pre) \<le> int (length free)"
  shows "extend_reference ps (load_page junk free) pre seq last_loc =
    concat (map (\<lambda>i. map (slot_of ps (pre ! i) (block_table ps free pre seq last_loc i)) (py_range (pre ! i) (seq ! i))) [0..<length pre])"
proof -
  have "(last_loc ! i + 1) mod ps = pre ! i mod ps" if "i < length pre" for i
    using assms(2) that extend_okD(2) [OF assms(1)] by (auto simp: list_all_length)
  then show ?thesis unfolding extend_reference_def
    using slot_in_table [OF assms(1) _ _ _ _ assms(3)] by (intro arg_cong [where f = concat] map_cong refl) simp_all
qed

lemma nat_slice: "0 \<le> b \<Longrightarrow> b + a \<le> int n \<Longrightarrow> nat a \<le> n - nat b"
  by arith

lemma nat_pred: "nat (a - b) \<le> Suc (nat (a - (b + 1)))"
  by arith

lemma table_long_enough:
  assumes "extend_ok ps pre seq last_loc" "i < length pre" "first_page ps seq pre (length pre) \<le> int (length free)"
  shows "nat (page_up ps (seq ! i) - pre ! i div ps) \<le> length (block_table ps free pre seq last_loc i)"
proof -
  note ok = extend_okD(2) [OF assms(1)]
  have "first_page ps seq pre (Suc i) \<le> int (length free)" using first_mono [OF assms(1), of "Suc i" "length pre"] assms(2,3) by simp
  then have "nat (page_up ps (seq ! i) - page_up ps (pre ! i)) \<le> length free - nat (first_page ps seq pre i)"
    using first_Suc(2) [OF assms(2), of seq ps] first_mono [OF assms(1), of 0 i] assms(2) ok by (intro nat_slice) simp_all
  then show ?thesis using page_up_div [of ps "pre ! i"] ok by (simp add: block_table_def new_pages_def partial_page_def nat_pred)
qed

lemma distinct_concat_by:
  assumes "\<And>i. i \<in> set is \<Longrightarrow> distinct (f i) \<and> h ` set (f i) \<subseteq> set (t i)" "distinct (concat (map t is))"
  shows "distinct (concat (map f is))"
  using assms
proof (induction "is")
  case (Cons i "is")
  have "set (f i) \<inter> set (concat (map f is)) = {}"
  proof (rule ccontr)
    assume "set (f i) \<inter> set (concat (map f is)) \<noteq> {}"
    then obtain x j where x: "x \<in> set (f i)" "j \<in> set is" "x \<in> set (f j)" by auto
    then have "h x \<in> set (t i)" "h x \<in> set (t j)" using Cons.prems(1) by fastforce+
    then show False using Cons.prems(2) x(2) by auto
  qed
  then show ?case using Cons by auto
qed simp

lemma distinct_reference:
  assumes "extend_ok ps pre seq last_loc" "first_page ps seq pre (length pre) \<le> int (length free)"
    and "distinct (concat (map (block_table ps free pre seq last_loc) [0..<length pre]))"
  shows "distinct (concat (map (\<lambda>i. map (slot_of ps (pre ! i) (block_table ps free pre seq last_loc i)) (py_range (pre ! i) (seq ! i))) [0..<length pre]))"
proof (rule distinct_concat_by [OF _ assms(3), where h = "\<lambda>x. x div ps"])
  fix i assume "i \<in> set [0..<length pre]"
  then have i: "i < length pre" by simp
  have "distinct (block_table ps free pre seq last_loc i)" using assms(3) i by (auto simp: distinct_concat_iff)
  from distinct_slots [OF _ this table_long_enough [OF assms(1) i assms(2)]] extend_okD(1) [OF assms(1) i] extend_okD(2) [OF assms(1)]
  show "distinct (map (slot_of ps (pre ! i) (block_table ps free pre seq last_loc i)) (py_range (pre ! i) (seq ! i))) \<and>
    (\<lambda>x. x div ps) ` set (map (slot_of ps (pre ! i) (block_table ps free pre seq last_loc i)) (py_range (pre ! i) (seq ! i)))
      \<subseteq> set (block_table ps free pre seq last_loc i)" by (simp add: image_image)
qed

text \<open>The contract of an allocation for a batch: block tables that share no page, the slots of the tokens in
  them, and the pages taken from the allocator.\<close>

definition gives_tables ::
    "int \<Rightarrow> int list \<Rightarrow> int list \<Rightarrow> int list \<Rightarrow> paged_allocator \<Rightarrow> int list \<Rightarrow> paged_allocator \<Rightarrow> bool" where
  "gives_tables ps pre seq last_loc al out al' \<longleftrightarrow>
     (\<exists>table. distinct (concat (map table [0..<length pre])) \<and>
        out = concat (map (\<lambda>i. map (slot_of ps (pre ! i) (table i)) (py_range (pre ! i) (seq ! i))) [0..<length pre]) \<and>
        mset (concat (map table [0..<length pre])) + mset (ta_free_pages al' @ ta_release_pages al') =
          mset (partial_pages ps pre last_loc) + mset (ta_free_pages al @ ta_release_pages al)) \<and> distinct out"

lemma taken_tables:
  assumes "take_new_pages (extend_reference ps (load_page junk (ta_free_pages al2)) pre seq last_loc)
      (Inr (first_page ps seq pre (length pre))) al2 = Inr (Some out, al')"
    and "extend_ok ps pre seq last_loc" "list_all (\<lambda>(l, p). (l + 1) mod ps = p mod ps) (zip last_loc pre)"
    and "mset (ta_free_pages al2 @ ta_release_pages al2) = mset (ta_free_pages al @ ta_release_pages al)"
    and "distinct (partial_pages ps pre last_loc @ ta_free_pages al @ ta_release_pages al)"
  shows "gives_tables ps pre seq last_loc al out al'"
proof -
  let ?n = "first_page ps seq pre (length pre)" and ?free = "ta_free_pages al2"
  let ?t = "block_table ps ?free pre seq last_loc"
  from assms(1) have n: "?n \<le> int (length ?free)" and out: "out = extend_reference ps (load_page junk ?free) pre seq last_loc"
    and al': "al' = al2\<lparr>ta_free_pages := drop (nat ?n) ?free\<rparr>"
    by (auto simp: take_new_pages_def split: if_splits)
  note out = out [unfolded extend_reference_tables [OF assms(2,3) n]]
  have split: "mset (take (nat ?n) ?free) + mset (drop (nat ?n) ?free) = mset ?free" by (metis append_take_drop_id mset_append)
  have "distinct (partial_pages ps pre last_loc @ ?free @ ta_release_pages al2)"
    using assms(4,5) by (metis mset_append mset_eq_imp_distinct_iff)
  then have "distinct (partial_pages ps pre last_loc @ take (nat ?n) ?free)"
    by (auto dest: in_set_takeD)
  then have d: "distinct (concat (map ?t [0..<length pre]))"
    using mset_tables [OF assms(2), of ?free] by (metis mset_append mset_eq_imp_distinct_iff)
  have "mset (concat (map ?t [0..<length pre])) + mset (ta_free_pages al' @ ta_release_pages al') =
      mset (partial_pages ps pre last_loc) + mset (ta_free_pages al @ ta_release_pages al)"
    unfolding mset_tables [OF assms(2)] using assms(4) split by (simp add: al' ac_simps)
  then show ?thesis using d out distinct_reference [OF assms(2) n d] unfolding gives_tables_def by blast
qed

lemma merge_pages: "mset (ta_free_pages (merge_and_sort_free al) @ ta_release_pages (merge_and_sort_free al)) = mset (ta_free_pages al @ ta_release_pages al)"
  by (simp add: merge_and_sort_free_def)

lemma bit_length_bound: "n < 2 ^ bit_length n"
proof (induction n rule: bit_length.induct)
  case (1 n)
  then show ?case by (cases "n = 0") (simp_all add: bit_length.simps [of n])
qed

lemma next_power_of_2_bound: "n \<le> next_power_of_2 n"
proof (cases "n > 0")
  case True
  have "int (nat (n - 1)) < int (2 ^ bit_length (nat (n - 1)))" using bit_length_bound by (simp only: of_nat_less_iff)
  then show ?thesis using True by (simp add: next_power_of_2_def push_bit_eq_mult)
qed (simp add: next_power_of_2_def)

lemma new_pages_extend: "get_num_new_pages seq ps (Some pre) False = Inr (first_page ps seq pre (length pre))" if "length seq = length pre"
  using that by (simp add: get_num_new_pages_def first_page_def)

section \<open>The decode kernel is the extend kernel for one token\<close>

lemma page_step: "1 < ps \<Longrightarrow> page_up ps s - page_up ps (s - 1) = (if s mod ps = 1 then 1 else 0)"
proof -
  assume ps: "1 < ps"
  have s: "s = s div ps * ps + s mod ps" "0 \<le> s mod ps" "s mod ps < ps" using ps by simp_all
  show ?thesis
  proof (cases "s mod ps = 0")
    case True
    have "(s div ps - 1) * ps \<le> s - 1" "s - 1 < (s div ps - 1) * ps + ps" using s(1) True ps by (simp_all add: algebra_simps)
    from div_within [OF _ this] have "(s - 1) div ps = s div ps - 1" "(s - 1) mod ps \<noteq> 0"
      using s(1) True ps by (simp_all add: algebra_simps)
    then show ?thesis using True page_up_div [of ps s] page_up_div [of ps "s - 1"] ps by simp
  next
    case False
    then have "s div ps * ps \<le> s - 1" "s - 1 < s div ps * ps + ps" using s by linarith+
    from div_within [OF _ this] have "(s - 1) div ps = s div ps" "(s - 1) mod ps = s mod ps - 1"
      using s(1) ps by linarith+
    then show ?thesis using False page_up_div [of ps s] page_up_div [of ps "s - 1"] ps by simp
  qed
qed

lemma page_up_pred: "0 < ps \<Longrightarrow> page_up ps s = (s - 1) div ps + 1"
proof -
  assume ps: "0 < ps"
  have "s + ps - 1 = s - 1 + 1 * ps" by simp
  then show ?thesis using ps by (simp only: page_up_def div_mult_self1)
qed

lemma map2_self: "map2 f xs (map g xs) = map (\<lambda>x. f x (g x)) xs"
  by (induction xs) simp_all

lemma decode_program_slot:
  assumes "0 < ps" "pid < length seq"
  shows "decode_program ps junk free seq last_loc pid = (int pid, extend_slot ps (last_loc ! pid) (seq ! pid - 1)
    (\<lambda>i. load_page junk free (first_page ps seq (map (\<lambda>s. s - 1) seq) pid + i)) (seq ! pid - 1))"
proof -
  let ?s = "seq ! pid" and ?f = "\<lambda>s. page_up ps s - page_up ps (s - 1)"
  have "take (Suc pid) (map ?f seq) = take pid (map ?f seq) @ [?f ?s]" using assms(2) by (simp add: take_Suc_conv_app_nth)
  then have fp: "sum_list (take (Suc pid) (map ?f seq)) - (page_up ps ?s - page_up ps (?s - 1)) = first_page ps seq (map (\<lambda>s. s - 1) seq) pid"
    by (simp add: first_page_def map2_self)
  have self: "page_up ps ?s - page_up ps (?s - 1) = (if (?s - 1) mod ps = 0 then 1 else 0)"
    using page_up_pred [OF assms(1), of ?s] page_up_div [OF assms(1), of "?s - 1"] by simp
  have old: "?s - 1 < page_up ps (?s - 1) * ps \<longleftrightarrow> (?s - 1) mod ps \<noteq> 0"
    using page_up_div [OF assms(1), of "?s - 1"] div_bounds [OF assms(1), of "?s - 1"] div_mult_mod_eq [of "?s - 1" ps]
    by (auto simp: algebra_simps)
  have up: "(?s - 1) mod ps = 0 \<Longrightarrow> page_up ps (?s - 1) = (?s - 1) div ps" using page_up_div [OF assms(1)] by simp
  show ?thesis unfolding decode_program_def Let_def fp extend_slot_def old unfolding self using up by simp
qed

lemma decode_launch:
  assumes "0 < ps" "mset st = mset (decode_stores ps junk free seq last_loc)"
  shows "run_stores st (map uninit [0..<length seq]) = extend_reference ps (load_page junk free) (map (\<lambda>s. s - 1) seq) seq last_loc"
proof -
  let ?st = "decode_stores ps junk free seq last_loc"
  have s: "?st = map (\<lambda>pid. (int pid, extend_slot ps (last_loc ! pid) (seq ! pid - 1)
    (\<lambda>i. load_page junk free (first_page ps seq (map (\<lambda>s. s - 1) seq) pid + i)) (seq ! pid - 1))) [0..<length seq]"
    unfolding decode_stores_def using decode_program_slot [OF assms(1)] by (intro map_cong refl) simp
  have "map fst ?st = py_range 0 (int (length (map uninit [0..<length seq])))"
    unfolding s by (intro nth_equalityI) simp_all
  from run_stores_any_order [OF assms(2) this] have "run_stores st (map uninit [0..<length seq]) = map snd ?st" .
  also have "\<dots> = extend_reference ps (load_page junk free) (map (\<lambda>s. s - 1) seq) seq last_loc"
  proof -
    have one: "py_range (seq ! i - 1) (seq ! i) = [seq ! i - 1]" for i by (simp add: py_range_rec)
    have r: "extend_reference ps (load_page junk free) (map (\<lambda>s. s - 1) seq) seq last_loc = concat (map (\<lambda>pid. [extend_slot ps (last_loc ! pid) (seq ! pid - 1)
        (\<lambda>i. load_page junk free (first_page ps seq (map (\<lambda>s. s - 1) seq) pid + i)) (seq ! pid - 1)]) [0..<length seq])"
      unfolding extend_reference_def by (intro arg_cong [where f = concat]) (simp add: one)
    show ?thesis unfolding r s by (simp add: o_def)
  qed
  finally show ?thesis .
qed

lemma new_pages_decode:
  assumes "1 < ps"
  shows "get_num_new_pages seq ps None True = Inr (first_page ps seq (map (\<lambda>s. s - 1) seq) (length (map (\<lambda>s. s - 1) seq)))"
proof -
  have "int (length (filter (\<lambda>s. s mod ps = 1) xs)) = sum_list (map (\<lambda>s. page_up ps s - page_up ps (s - 1)) xs)" for xs
    by (induction xs) (simp_all add: page_step [OF assms])
  then show ?thesis by (simp add: get_num_new_pages_def first_page_def map2_self)
qed

section \<open>Whole pages come back\<close>

lemma pages_of_slots:
  assumes "0 < ps" "distinct pages"
  shows "mset (sort (remdups (map (\<lambda>i. i div ps) (concat (map (page_slots ps) pages))))) = mset pages"
proof -
  have "(\<lambda>i. i div ps) ` set (page_slots ps p) = {p}" for p
  proof -
    have "p * ps \<in> set (page_slots ps p)" using assms(1) by (auto simp: page_slots_def)
    moreover have "i div ps = p" if "i \<in> set (page_slots ps p)" for i
      using that div_within [OF assms(1), of p i] by (auto simp: page_slots_def)
    moreover have "p * ps div ps = p" using assms(1) by simp
    ultimately show ?thesis by (auto intro: rev_image_eqI)
  qed
  then have "set (map (\<lambda>i. i div ps) (concat (map (page_slots ps) pages))) = set pages"
    by (simp add: image_UN)
  then have "mset (remdups (map (\<lambda>i. i div ps) (concat (map (page_slots ps) pages)))) = mset (remdups pages)"
    by (simp only: set_eq_iff_mset_remdups_eq)
  then show ?thesis using assms(2) by (simp add: distinct_remdups_id)
qed

theorem paged_alloc_free:
  assumes "paged_alloc need_size al = Inr (Some out, al1)" "paged_free out al1 = Inr al2" "0 < pa_page_size al" "ta_not_in_group al"
    and "distinct (ta_free_pages al @ ta_release_pages al)"
  shows "int (length out) = int need_size div pa_page_size al * pa_page_size al \<and>
    mset (ta_free_pages al2 @ ta_release_pages al2) = mset (ta_free_pages al @ ta_release_pages al)"
proof -
  let ?ps = "pa_page_size al" and ?n = "nat (int need_size div pa_page_size al)"
  define al0 where "al0 = (if ta_need_sort al \<and> ?n > length (ta_free_pages al) then merge_and_sort_free al else al)"
  have m: "mset (ta_free_pages al0 @ ta_release_pages al0) = mset (ta_free_pages al @ ta_release_pages al)"
    using merge_pages [of al] by (simp add: al0_def)
  have f: "pa_page_size al0 = ?ps" "ta_not_in_group al0" "ta_need_sort al0 = ta_need_sort al"
    using assms(4) by (simp_all add: al0_def merge_and_sort_free_def)
  have a: "out = concat (map (page_slots ?ps) (take ?n (ta_free_pages al0)))" "al1 = al0\<lparr>ta_free_pages := drop ?n (ta_free_pages al0)\<rparr>"
    "?n \<le> length (ta_free_pages al0)"
    using assms(1) by (auto simp: paged_alloc_def Let_def al0_def [symmetric] split: if_splits)
  have "distinct (ta_free_pages al0 @ ta_release_pages al0)" using assms(5) m mset_eq_imp_distinct_iff by blast
  then have p: "mset (sort (remdups (map (\<lambda>i. i div ?ps) out))) = mset (take ?n (ta_free_pages al0))"
    unfolding a(1) by (intro pages_of_slots [OF assms(3)]) simp
  have split: "mset (take ?n (ta_free_pages al0)) + mset (drop ?n (ta_free_pages al0)) = mset (ta_free_pages al0)"
    by (metis append_take_drop_id mset_append)
  have len: "length out = ?n * nat ?ps" 
    using a(3) by (simp add: a(1) length_concat o_def page_slots_def sum_list_triv)
  have "0 \<le> int need_size div ?ps" using assms(3) by (simp add: pos_imp_zdiv_nonneg_iff)
  then have l: "int (length out) = int need_size div ?ps * ?ps" using assms(3) by (simp add: len)
  show ?thesis
  proof (cases "out = []")
    case True
    then have "take ?n (ta_free_pages al0) = []" using p by simp
    then have "drop ?n (ta_free_pages al0) = ta_free_pages al0" by (metis append_Nil append_take_drop_id)
    then have "al2 = al0" using True assms(2) a(2) by (simp add: paged_free_def)
    then show ?thesis using l m by simp
  next
    case False
    have "mset (ta_free_pages al2 @ ta_release_pages al2) = mset (ta_free_pages al0 @ ta_release_pages al0)"
      using assms(2) False f p split by (auto simp: paged_free_def Let_def a(2) ac_simps split: if_splits)
    then show ?thesis using l m by simp
  qed
qed

section \<open>Properties\<close>

text \<open>C20: The paged kernels give every token its slot, in every interleaving of their programs. Whatever the
  order in which the stores of all programs reach the output, and whatever it held, the extend kernel
  computes for each request the rest of its last page and then its new pages, page after page; the decode
  kernel computes the same for one token per request, and the page counts of both agree with the kernels.\<close>

theorem paged_kernels_any_order:
  assumes "extend_ok ps pre seq last_loc" "int n = sum_list (map2 (-) seq pre)" "int n \<le> mx" "1 < ps"
    and "mset st = mset (extend_stores ps mx junk free pre seq last_loc)" "mset st' = mset (decode_stores ps junk free seq last_loc)"
  shows "run_stores st (map uninit [0..<n]) = extend_reference ps (load_page junk free) pre seq last_loc \<and>
    get_num_new_pages seq ps (Some pre) False = Inr (first_page ps seq pre (length pre)) \<and>
    run_stores st' (map uninit [0..<length seq]) = extend_reference ps (load_page junk free) (map (\<lambda>s. s - 1) seq) seq last_loc \<and>
    get_num_new_pages seq ps None True = Inr (first_page ps seq (map (\<lambda>s. s - 1) seq) (length seq))"
proof -
  have "int n = first_slot seq pre (length pre)" using assms(2) extend_okD(2) [OF assms(1)] by (simp add: first_slot_def)
  from extend_launch [OF assms(1) this assms(3,5)] decode_launch [OF _ assms(6), of uninit] extend_okD(2) [OF assms(1)]
    new_pages_extend new_pages_decode [OF assms(4), of seq]
  show ?thesis by simp
qed

theorem paged_kernels_any_order_witness:
  "run_stores (rev (extend_stores 2 8 (\<lambda>_. 0) [7, 4, 9] [1, 2] [4, 5] [10, 13])) (map (\<lambda>_. 99) [0..<6]) = [11, 14, 15, 8, 9, 18]"
proof -
  have ok: "extend_ok 2 [1, 2] [4, 5] [10, 13]" by code_simp
  have n: "int 6 = sum_list (map2 (-) [4, 5] [1, 2])" by simp
  have r: "extend_reference 2 (load_page (\<lambda>_. 0) [7, 4, 9]) [1, 2] [4, 5] [10, 13] = [11, 14, 15, 8, 9, 18]" by code_simp
  show ?thesis
    using paged_kernels_any_order [OF ok n, of 8 "rev (extend_stores 2 8 (\<lambda>_. 0) [7, 4, 9] [1, 2] [4, 5] [10, 13])" "\<lambda>_. 0" "[7, 4, 9]"
      "decode_stores 2 (\<lambda>_. 0) [7, 4, 9] [4, 5] [10, 13]" "\<lambda>_. 99"] r by simp
qed

text \<open>C13: The paged allocator gives block tables that share nothing. When an allocation for the extension of a
  batch, or for one decoded token per request, succeeds, there is a block table per request (the page of its
  last token unless that is full, then new pages) such that every token lies in the page its position says,
  at its offset; no two tables share a page, so no two tokens share a slot, and the new pages are exactly
  those the allocator no longer holds.\<close>

theorem paged_batch_gives_tables:
  assumes "alloc_extend junk uninit pre seq last_loc n al = Inr (Some out, al') \<or>
      alloc_decode junk uninit seq last_loc al = Inr (Some out, al') \<and> pre = map (\<lambda>s. s - 1) seq"
    and "extend_ok (pa_page_size al) pre seq last_loc" "int n = sum_list (map2 (-) seq pre)" "1 < pa_page_size al"
    and "list_all (\<lambda>(l, p). (l + 1) mod pa_page_size al = p mod pa_page_size al) (zip last_loc pre)"
    and "distinct (partial_pages (pa_page_size al) pre last_loc @ ta_free_pages al @ ta_release_pages al)"
  shows "gives_tables (pa_page_size al) pre seq last_loc al out al'"
proof -
  let ?ps = "pa_page_size al"
  note ok = extend_okD(2) [OF assms(2)]
  show ?thesis using assms(1)
  proof (elim disjE conjE)
    assume e: "alloc_extend junk uninit pre seq last_loc n al = Inr (Some out, al')"
    define al1 where "al1 = al\<lparr>pa_seen_max := max (pa_seen_max al) (next_power_of_2 (int n))\<rparr>"
    define al2 where "al2 = (if ta_need_sort al1 \<and> int n div ?ps + int (length pre) + 1 > int (length (ta_free_pages al1)) then merge_and_sort_free al1 else al1)"
    have t: "take_new_pages (run_stores (extend_stores ?ps (pa_seen_max al2) junk (ta_free_pages al2) pre seq last_loc) (map uninit [0..<n]))
        (get_num_new_pages seq ?ps (Some pre) False) al2 = Inr (Some out, al')"
      using e by (auto simp: alloc_extend_def Let_def al1_def [symmetric] al2_def split: if_splits)
    have al2: "pa_seen_max al2 = max (pa_seen_max al) (next_power_of_2 (int n))"
        "mset (ta_free_pages al2 @ ta_release_pages al2) = mset (ta_free_pages al @ ta_release_pages al)"
      using merge_pages [of al1] by (simp_all add: al2_def al1_def) (simp_all add: merge_and_sort_free_def)
    have n: "int n = first_slot seq pre (length pre)" "int n \<le> pa_seen_max al2"
      using assms(3) ok next_power_of_2_bound [of "int n"] by (simp_all add: first_slot_def al2)
    show ?thesis using ok
      by (intro taken_tables [OF t [unfolded extend_launch [OF assms(2) n refl] new_pages_extend [OF ok [THEN conjunct2, THEN conjunct1]]] assms(2,5) al2(2) assms(6)])
  next
    assume d: "alloc_decode junk uninit seq last_loc al = Inr (Some out, al')" "pre = map (\<lambda>s. s - 1) seq"
    define al1 where "al1 = (if ta_need_sort al \<and> length seq > length (ta_free_pages al) then merge_and_sort_free al else al)"
    have t: "take_new_pages (run_stores (decode_stores ?ps junk (ta_free_pages al1) seq last_loc) (map uninit [0..<length seq]))
        (get_num_new_pages seq ?ps None True) al1 = Inr (Some out, al')"
      using d(1) by (auto simp: alloc_decode_def Let_def al1_def split: if_splits)
    have al1: "mset (ta_free_pages al1 @ ta_release_pages al1) = mset (ta_free_pages al @ ta_release_pages al)"
      using merge_pages [of al] by (simp add: al1_def)
    note t' = t [unfolded decode_launch [OF ok [THEN conjunct1] refl] new_pages_decode [OF assms(4)], folded d(2)]
    show ?thesis by (rule taken_tables [OF t' assms(2,5) al1 assms(6)])
  qed
qed

definition ex_paged :: paged_allocator where
  "ex_paged = \<lparr>ta_size = 16, ta_need_sort = True, ta_free_pages = [7], ta_release_pages = [6, 3, 5], ta_not_in_group = True, ta_free_group = [],
     pa_page_size = 2, pa_debug = True, pa_seen_max = 1\<rparr>"

lemma ex_paged_extend: "alloc_extend (\<lambda>_. 0) (\<lambda>_. 99) [1, 2] [4, 5] [2, 9] 6 ex_paged =
    Inr (Some [3, 6, 7, 10, 11, 12], ex_paged\<lparr>ta_free_pages := [7], ta_release_pages := [], pa_seen_max := 8\<rparr>)"
  by code_simp

theorem paged_batch_gives_tables_witness:
  "gives_tables 2 [1, 2] [4, 5] [2, 9] ex_paged [3, 6, 7, 10, 11, 12] (ex_paged\<lparr>ta_free_pages := [7], ta_release_pages := [], pa_seen_max := 8\<rparr>)"
proof -
  have ps: "pa_page_size ex_paged = 2" by (simp add: ex_paged_def)
  have ok: "extend_ok (pa_page_size ex_paged) [1, 2] [4, 5] [2, 9]" unfolding ps by code_simp
  have d: "distinct (partial_pages (pa_page_size ex_paged) [1, 2] [2, 9] @ ta_free_pages ex_paged @ ta_release_pages ex_paged)" by code_simp
  have "gives_tables (pa_page_size ex_paged) [1, 2] [4, 5] [2, 9] ex_paged [3, 6, 7, 10, 11, 12]
      (ex_paged\<lparr>ta_free_pages := [7], ta_release_pages := [], pa_seen_max := 8\<rparr>)"
    by (rule paged_batch_gives_tables [OF disjI1 [OF ex_paged_extend] ok _ _ _ d]) (simp_all add: ps)
  then show ?thesis unfolding ps .
qed

end
