(* ===== verification/BatchAlloc.thy ===== *)
theory BatchAlloc
  imports RadixCache PagedAlloc
begin

text \<open>
  The memory of a batch (\<open>srt/mem_cache/common.py\<close>): rows of the request pool and slots of the KV cache
  for the requests of an extend or decode batch, evicting cached prefixes when the allocator is short.
  The allocator classes are records of the operations this code calls, the prefix cache is the radix
  cache or the plain one; the sliding-window, Mamba and hybrid caches and pools, which have sizes of
  their own, are not modelled. The triton kernels are lists of stores, as for the positions.
  Shown here: the kernels compute what the torch code computes, for every order of their stores.
\<close>

section \<open>Allocators and caches\<close>

record 'a kv_ops =
  ko_page :: "'a \<Rightarrow> int"
  ko_available :: "'a \<Rightarrow> int"
  ko_alloc :: "nat \<Rightarrow> 'a \<Rightarrow> (int list option \<times> 'a) res"
  ko_alloc_extend :: "int list \<Rightarrow> int list \<Rightarrow> int list \<Rightarrow> nat \<Rightarrow> 'a \<Rightarrow> (int list option \<times> 'a) res"
  ko_alloc_decode :: "int list \<Rightarrow> int list \<Rightarrow> 'a \<Rightarrow> (int list option \<times> 'a) res"
  ko_free :: "int list \<Rightarrow> 'a \<Rightarrow> 'a res"
  ko_backup :: "'a \<Rightarrow> int list \<times> int list"

definition token_ops :: "token_allocator kv_ops" where
  "token_ops =
     \<lparr>ko_page = (\<lambda>_. 1), ko_available = (\<lambda>al. int (alloc_available_size al)), ko_alloc = (\<lambda>n al. Inr (token_alloc n al)),
      ko_alloc_extend = (\<lambda>_ _ _ _ _. Inl (RuntimeError ''alloc_extend is only for paged allocator'')),
      ko_alloc_decode = (\<lambda>_ _ _. Inl (RuntimeError ''alloc_decode is only for paged allocator'')),
      ko_free = (\<lambda>xs al. Inr (token_free xs al)), ko_backup = backup_state\<rparr>"

definition paged_ops :: "(int \<Rightarrow> int) \<Rightarrow> (nat \<Rightarrow> int) \<Rightarrow> paged_allocator kv_ops" where
  "paged_ops junk uninit =
     \<lparr>ko_page = pa_page_size, ko_available = paged_available_size, ko_alloc = paged_alloc, ko_alloc_extend = alloc_extend junk uninit,
      ko_alloc_decode = alloc_decode junk uninit, ko_free = paged_free, ko_backup = backup_state\<rparr>"

datatype 'a tree_cache = PrefixCache cache_config "'a radix_cache" | PlainCache nat "'a chunk_cache"

fun tc_page :: "'a tree_cache \<Rightarrow> nat" where
  "tc_page (PrefixCache cf rx) = cf_page cf"
| "tc_page (PlainCache page_size cc) = page_size"

fun tc_alloc :: "'a tree_cache \<Rightarrow> 'a" where
  "tc_alloc (PrefixCache cf rx) = rx_alloc rx"
| "tc_alloc (PlainCache page_size cc) = cc_alloc cc"

fun tc_pool :: "'a tree_cache \<Rightarrow> req_pool" where
  "tc_pool (PrefixCache cf rx) = rx_pool rx"
| "tc_pool (PlainCache page_size cc) = cc_pool cc"

fun tc_set_alloc :: "'a \<Rightarrow> 'a tree_cache \<Rightarrow> 'a tree_cache" where
  "tc_set_alloc al (PrefixCache cf rx) = PrefixCache cf (rx\<lparr>rx_alloc := al\<rparr>)"
| "tc_set_alloc al (PlainCache page_size cc) = PlainCache page_size (cc\<lparr>cc_alloc := al\<rparr>)"

fun tc_set_pool :: "req_pool \<Rightarrow> 'a tree_cache \<Rightarrow> 'a tree_cache" where
  "tc_set_pool p (PrefixCache cf rx) = PrefixCache cf (rx\<lparr>rx_pool := p\<rparr>)"
| "tc_set_pool p (PlainCache page_size cc) = PlainCache page_size (cc\<lparr>cc_pool := p\<rparr>)"

section \<open>Slots\<close>

text \<open>Eviction with an allocator whose \<open>free\<close> may raise: the exception ends it.\<close>

definition with_alloc :: "('a \<Rightarrow> 'b) \<Rightarrow> 'a radix_cache \<Rightarrow> 'b radix_cache" where
  "with_alloc f rx = \<lparr>rx_root = rx_root rx, rx_env = rx_env rx, rx_alloc = f (rx_alloc rx), rx_pool = rx_pool rx\<rparr>"

definition evict_raising :: "cache_config \<Rightarrow> (int list \<Rightarrow> 'a \<Rightarrow> 'a res) \<Rightarrow> int \<Rightarrow> 'a radix_cache \<Rightarrow> 'a radix_cache res" where
  "evict_raising cf free num_tokens rx =
     (let rx' = evict cf (\<lambda>xs al. rbind al (free xs)) num_tokens (with_alloc Inr rx)
      in rbind (rx_alloc rx') (\<lambda>al. Inr (with_alloc (\<lambda>_. al) rx')))"

definition evict_from_tree_cache :: "'a kv_ops \<Rightarrow> int \<Rightarrow> 'a tree_cache \<Rightarrow> 'a tree_cache res" where
  "evict_from_tree_cache ops num_tokens tc =
     (case tc of
        PlainCache page_size cc \<Rightarrow> Inr tc
      | PrefixCache cf rx \<Rightarrow>
          if ko_available ops (rx_alloc rx) < num_tokens
          then rbind (evict_raising cf (ko_free ops) num_tokens rx) (\<lambda>rx'. Inr (PrefixCache cf rx'))
          else Inr tc)"

definition taken_or_raise :: "string \<Rightarrow> 'a tree_cache \<Rightarrow> (int list option \<times> 'a) res \<Rightarrow> (int list \<times> 'a tree_cache) res" where
  "taken_or_raise msg tc r =
     rbind r (\<lambda>(out_cache_loc, al).
       case out_cache_loc of None \<Rightarrow> Inl (RuntimeError msg) | Some xs \<Rightarrow> Inr (xs, tc_set_alloc al tc))"

definition alloc_token_slots ::
    "'a kv_ops \<Rightarrow> nat \<Rightarrow> bool \<Rightarrow> 'a tree_cache \<Rightarrow> ((int list \<times> (int list \<times> int list) option) \<times> 'a tree_cache) res" where
  "alloc_token_slots ops num_tokens backup tc =
     rbind (evict_from_tree_cache ops (int num_tokens) tc) (\<lambda>tc1.
     let state = (if backup then Some (ko_backup ops (tc_alloc tc1)) else None)
     in rbind (taken_or_raise ''Out of memory'' tc1 (ko_alloc ops num_tokens (tc_alloc tc1))) (\<lambda>(out, tc2).
        Inr ((out, state), tc2)))"

definition alloc_paged_token_slots_extend ::
    "'a kv_ops \<Rightarrow> int list \<Rightarrow> int list \<Rightarrow> int list \<Rightarrow> nat \<Rightarrow> bool \<Rightarrow> 'a tree_cache
     \<Rightarrow> ((int list \<times> (int list \<times> int list) option) \<times> 'a tree_cache) res" where
  "alloc_paged_token_slots_extend ops prefix_lens seq_lens last_loc extend_num_tokens backup tc =
     rbind (evict_from_tree_cache ops (int extend_num_tokens + int (length seq_lens) * ko_page ops (tc_alloc tc)) tc) (\<lambda>tc1.
     let state = (if backup then Some (ko_backup ops (tc_alloc tc1)) else None)
     in rbind (taken_or_raise ''Prefill out of memory'' tc1
                 (ko_alloc_extend ops prefix_lens seq_lens last_loc extend_num_tokens (tc_alloc tc1))) (\<lambda>(out, tc2).
        Inr ((out, state), tc2)))"

definition alloc_paged_token_slots_decode :: "'a kv_ops \<Rightarrow> int list \<Rightarrow> int list \<Rightarrow> 'a tree_cache \<Rightarrow> (int list \<times> 'a tree_cache) res" where
  "alloc_paged_token_slots_decode ops seq_lens last_loc tc =
     rbind (evict_from_tree_cache ops (int (length seq_lens) * ko_page ops (tc_alloc tc)) tc) (\<lambda>tc1.
     taken_or_raise ''Decode out of memory'' tc1 (ko_alloc_decode ops seq_lens last_loc (tc_alloc tc1)))"

definition alloc_req_slots :: "nat \<Rightarrow> 'a tree_cache \<Rightarrow> (nat list \<times> 'a tree_cache) res" where
  "alloc_req_slots num_reqs tc =
     (case req_pool_alloc num_reqs (tc_pool tc) of
        (None, _) \<Rightarrow> Inl (RuntimeError ''alloc_req_slots runs out of memory'')
      | (Some req_pool_indices, p) \<Rightarrow> Inr (req_pool_indices, tc_set_pool p tc))"

section \<open>Writing the rows\<close>

text \<open>The entries of the batch tensors for one request.\<close>

record write_item =
  wi_row :: nat
  wi_prefix :: "int list"
  wi_prefix_len :: int
  wi_seq_len :: int
  wi_extend_len :: int

fun write_loop :: "write_item list \<Rightarrow> int list \<Rightarrow> int \<Rightarrow> req_pool \<Rightarrow> req_pool res" where
  "write_loop [] out_cache_loc pt p = Inr p"
| "write_loop (it # its) out_cache_loc pt p =
     rbind (req_pool_write (wi_row it) 0 (wi_prefix_len it) (wi_prefix it) p) (\<lambda>p1.
     rbind (req_pool_write (wi_row it) (wi_prefix_len it) (wi_seq_len it) (py_slice out_cache_loc pt (pt + wi_extend_len it)) p1) (\<lambda>p2.
     write_loop its out_cache_loc (pt + wi_extend_len it) p2))"

text \<open>Program \<open>pid\<close> of \<open>write_req_to_token_pool_triton\<close> on the pool as one array, in blocks of 512.\<close>

definition copy_blocks :: "(int \<Rightarrow> int) \<Rightarrow> int list \<Rightarrow> int \<Rightarrow> int \<Rightarrow> int \<Rightarrow> (int \<times> int) list" where
  "copy_blocks junk source source_start dest n =
     concat (map (\<lambda>i. map (\<lambda>offset. (dest + offset, load_page junk source (source_start + offset)))
         (filter (\<lambda>offset. offset < n) (py_range (i * position_block) (i * position_block + position_block))))
       (py_range 0 (cdiv n position_block)))"

definition write_program :: "int \<Rightarrow> (int \<Rightarrow> int) \<Rightarrow> int list \<Rightarrow> write_item list \<Rightarrow> nat \<Rightarrow> (int \<times> int) list" where
  "write_program stride junk out_cache_loc its pid =
     (let it = its ! pid; row = int (wi_row it) * stride;
          cumsum_start = sum_list (map wi_extend_len (take pid its))
      in copy_blocks junk (wi_prefix it) 0 row (wi_prefix_len it) @
         copy_blocks junk out_cache_loc cumsum_start (row + wi_prefix_len it) (wi_seq_len it - wi_prefix_len it))"

definition write_stores :: "int \<Rightarrow> (int \<Rightarrow> int) \<Rightarrow> int list \<Rightarrow> write_item list \<Rightarrow> (int \<times> int) list" where
  "write_stores stride junk out_cache_loc its = concat (map (write_program stride junk out_cache_loc its) [0..<length its])"

text \<open>The rows of an array with rows of length \<open>stride\<close>, and the pool after the kernel.\<close>

definition rows_of :: "nat \<Rightarrow> nat \<Rightarrow> int list \<Rightarrow> int list list" where
  "rows_of n stride xs = map (\<lambda>r. take stride (drop (r * stride) xs)) [0..<n]"

definition pool_after :: "(int \<times> int) list \<Rightarrow> req_pool \<Rightarrow> req_pool" where
  "pool_after st p = p\<lparr>rp_table := rows_of (length (rp_table p)) (rp_max_context_len p) (run_stores st (concat (rp_table p)))\<rparr>"

definition write_cache_indices :: "bool \<Rightarrow> (int \<Rightarrow> int) \<Rightarrow> int list \<Rightarrow> write_item list \<Rightarrow> req_pool \<Rightarrow> req_pool res" where
  "write_cache_indices triton junk out_cache_loc its p =
     (if triton then Inr (pool_after (write_stores (int (rp_max_context_len p)) junk out_cache_loc its) p)
      else write_loop its out_cache_loc 0 p)"

section \<open>The last slot of each prefix\<close>

definition get_last_loc_torch :: "int list list \<Rightarrow> int list \<Rightarrow> int list \<Rightarrow> int list res" where
  "get_last_loc_torch req_to_token rows prefix_lens =
     rmap (\<lambda>(r, n). rbind (py_get req_to_token r) (\<lambda>row. rbind (py_get row (n - 1)) (\<lambda>v. Inr (if n > 0 then v else - 1))))
       (zip rows prefix_lens)"

definition last_loc_block :: int where
  "last_loc_block = 256"

text \<open>Lanes behind the end load 0 and store nothing.\<close>

definition last_loc_program :: "int \<Rightarrow> (int \<Rightarrow> int) \<Rightarrow> int list \<Rightarrow> int list \<Rightarrow> int list \<Rightarrow> int \<Rightarrow> (int \<times> int) list" where
  "last_loc_program stride junk table rows prefix_lens pid =
     map (\<lambda>offset.
         let n = load_page (\<lambda>_. 0) prefix_lens offset; token_index = load_page (\<lambda>_. 0) rows offset * stride + (n - 1)
         in (offset, if n > 0 then load_page junk table token_index else - 1))
       (filter (\<lambda>offset. offset < int (length prefix_lens)) (py_range (pid * last_loc_block) (pid * last_loc_block + last_loc_block)))"

definition last_loc_stores :: "int \<Rightarrow> (int \<Rightarrow> int) \<Rightarrow> int list \<Rightarrow> int list \<Rightarrow> int list \<Rightarrow> (int \<times> int) list" where
  "last_loc_stores stride junk table rows prefix_lens =
     concat (map (last_loc_program stride junk table rows prefix_lens) (py_range 0 (cdiv (int (length prefix_lens)) last_loc_block)))"

definition get_last_loc_triton :: "int \<Rightarrow> (int \<Rightarrow> int) \<Rightarrow> (nat \<Rightarrow> int) \<Rightarrow> int list \<Rightarrow> int list \<Rightarrow> int list \<Rightarrow> int list" where
  "get_last_loc_triton stride junk uninit table rows prefix_lens =
     run_stores (last_loc_stores stride junk table rows prefix_lens) (map uninit [0..<length prefix_lens])"

definition get_last_loc ::
    "string \<Rightarrow> (int \<Rightarrow> int) \<Rightarrow> (nat \<Rightarrow> int) \<Rightarrow> req_pool \<Rightarrow> int list \<Rightarrow> int list \<Rightarrow> int list res" where
  "get_last_loc attention_backend junk uninit p rows prefix_lens =
     (if attention_backend \<noteq> ''ascend'' \<and> attention_backend \<noteq> ''torch_native''
      then Inr (get_last_loc_triton (int (rp_max_context_len p)) junk uninit (concat (rp_table p)) rows prefix_lens)
      else get_last_loc_torch (rp_table p) rows prefix_lens)"

section \<open>A batch\<close>

definition extend_num_tokens :: "radix_req list \<Rightarrow> nat" where
  "extend_num_tokens reqs = sum_list (map (\<lambda>r. length (drop (length (rr_prefix r)) (rr_fill r))) reqs)"

definition extend_item :: "nat \<Rightarrow> radix_req \<Rightarrow> write_item" where
  "extend_item row r =
     \<lparr>wi_row = row, wi_prefix = rr_prefix r, wi_prefix_len = int (length (rr_prefix r)), wi_seq_len = int (length (rr_fill r)),
      wi_extend_len = int (length (rr_fill r)) - int (length (rr_prefix r))\<rparr>"

definition alloc_for_extend ::
    "'a kv_ops \<Rightarrow> bool \<Rightarrow> (int \<Rightarrow> int) \<Rightarrow> radix_req list \<Rightarrow> 'a tree_cache \<Rightarrow> ((int list \<times> nat list) \<times> 'a tree_cache) res" where
  "alloc_for_extend ops triton junk reqs tc =
     rbind (alloc_req_slots (length reqs) tc) (\<lambda>(req_pool_indices, tc1).
     rbind (if tc_page tc1 = 1 then alloc_token_slots ops (extend_num_tokens reqs) False tc1
            else alloc_paged_token_slots_extend ops (map (\<lambda>r. int (length (rr_prefix r))) reqs) (map (\<lambda>r. int (length (rr_fill r))) reqs)
                   (map (\<lambda>r. if rr_prefix r \<noteq> [] then last (rr_prefix r) else - 1) reqs) (extend_num_tokens reqs) False tc1)
       (\<lambda>((out_cache_loc, _), tc2).
     rbind (write_cache_indices triton junk out_cache_loc (map2 extend_item req_pool_indices reqs) (tc_pool tc2)) (\<lambda>p.
     Inr ((out_cache_loc, req_pool_indices), tc_set_pool p tc2))))"

text \<open>\<open>req_to_token[rows, locs]\<close>, and the assignment \<open>req_to_token[rows, locs] = values\<close>.\<close>

definition pool_gather :: "nat list \<Rightarrow> int list \<Rightarrow> req_pool \<Rightarrow> int list res" where
  "pool_gather rows locs p = rmap (\<lambda>(r, l). rbind (py_get (rp_table p) (int r)) (\<lambda>row. py_get row l)) (zip rows locs)"

fun write_tokens :: "(nat \<times> int \<times> int) list \<Rightarrow> int list list \<Rightarrow> int list list res" where
  "write_tokens [] t = Inr t"
| "write_tokens ((r, l, v) # xs) t =
     rbind (py_get t (int r)) (\<lambda>row. rbind (py_set row l v) (\<lambda>row'. write_tokens xs (t[r := row'])))"

definition pool_scatter :: "nat list \<Rightarrow> int list \<Rightarrow> int list \<Rightarrow> req_pool \<Rightarrow> req_pool res" where
  "pool_scatter rows locs values p =
     (if length values \<noteq> length rows \<and> length values \<noteq> 1 then Inl (RuntimeError ''shape mismatch'')
      else
        let vs = (if length values = length rows then values else replicate (length rows) (hd values))
        in rbind (write_tokens (zip rows (zip locs vs)) (rp_table p)) (\<lambda>t. Inr (p\<lparr>rp_table := t\<rparr>)))"

definition alloc_for_decode ::
    "'a kv_ops \<Rightarrow> nat \<Rightarrow> nat list \<Rightarrow> int list \<Rightarrow> int list option \<Rightarrow> 'a tree_cache \<Rightarrow> (int list \<times> 'a tree_cache) res" where
  "alloc_for_decode ops token_per_req rows seq_lens encoder_lens tc =
     rbind (if tc_page tc = 1
            then rbind (alloc_token_slots ops (length seq_lens * token_per_req) False tc) (\<lambda>((out, _), tc1). Inr (out, tc1))
            else rbind (pool_gather rows (map (\<lambda>n. n - 1) seq_lens) (tc_pool tc)) (\<lambda>last_loc.
              alloc_paged_token_slots_decode ops (map (\<lambda>n. n + int token_per_req) seq_lens) last_loc tc)) (\<lambda>(out_cache_loc, tc1).
     let locs = (case encoder_lens of Some el \<Rightarrow> map2 (+) el seq_lens | None \<Rightarrow> seq_lens)
     in rbind (pool_scatter rows locs out_cache_loc (tc_pool tc1)) (\<lambda>p. Inr (out_cache_loc, tc_set_pool p tc1)))"

text \<open>The checks of \<open>ScheduleBatch\<close> before a decode step.\<close>

definition new_page_count_next_decode :: "int \<Rightarrow> bool \<Rightarrow> int list \<Rightarrow> int" where
  "new_page_count_next_decode page_size enable_overlap seqlens =
     (if page_size = 1 then int (length seqlens)
      else if enable_overlap then int (length (filter (\<lambda>n. n mod page_size = 0) seqlens))
      else int (length (filter (\<lambda>n. (n - 1) mod page_size = 0) seqlens)))"

definition check_decode_mem :: "'a kv_ops \<Rightarrow> bool \<Rightarrow> int \<Rightarrow> int list \<Rightarrow> 'a tree_cache \<Rightarrow> (bool \<times> 'a tree_cache) res" where
  "check_decode_mem ops enable_overlap buf_multiplier seqlens tc =
     (let page_size = ko_page ops (tc_alloc tc);
          num_tokens = new_page_count_next_decode page_size enable_overlap seqlens * buf_multiplier * page_size
      in rbind (evict_from_tree_cache ops num_tokens tc) (\<lambda>tc1. Inr (ko_available ops (tc_alloc tc1) \<ge> num_tokens, tc1)))"

section \<open>The kernels and the torch code\<close>

lemma run_stores_append: "run_stores (as @ bs) xs = run_stores bs (run_stores as xs)"
  by (simp add: run_stores_def)

lemma run_stores_perm:
  assumes "distinct (map fst st)" "mset st' = mset st"
  shows "run_stores st' xs = run_stores st xs"
proof (rule nth_equalityI)
  fix i assume "i < length (run_stores st' xs)"
  then have i: "i < length xs" by simp
  have set: "set st' = set st" using mset_eq_setD [OF assms(2)] .
  have d: "distinct (map fst st')" using assms by (metis mset_eq_imp_distinct_iff mset_map)
  show "run_stores st' xs ! i = run_stores st xs ! i"
  proof (cases "int i \<in> fst ` set st")
    case True
    then obtain v where v: "(int i, v) \<in> set st" by auto
    then show ?thesis using run_stores_nth [OF d, of i v xs] run_stores_nth [OF assms(1), of i v xs] set i by simp
  next
    case False
    then show ?thesis using run_stores_untouched [OF i, of st] run_stores_untouched [OF i, of st'] set by simp
  qed
qed simp

lemma run_stores_block:
  assumes "base + n \<le> length xs"
  shows "run_stores (map (\<lambda>k. (int base + k, f k)) (py_range 0 (int n))) xs = take base xs @ map f (py_range 0 (int n)) @ drop (base + n) xs"
proof (rule nth_equalityI)
  fix i assume "i < length (run_stores (map (\<lambda>k. (int base + k, f k)) (py_range 0 (int n))) xs)"
  then have i: "i < length xs" by simp
  let ?st = "map (\<lambda>k. (int base + k, f k)) (py_range 0 (int n))"
  show "run_stores ?st xs ! i = (take base xs @ map f (py_range 0 (int n)) @ drop (base + n) xs) ! i"
  proof (cases "base \<le> i \<and> i < base + n")
    case True
    have d: "distinct (map fst ?st)" by (simp add: comp_def distinct_map inj_on_def)
    have "(int i, f (int (i - base))) \<in> set ?st" using True by (auto simp: image_iff intro!: bexI [of _ "int (i - base)"])
    moreover have "i - base < n" using True by linarith
    ultimately show ?thesis using run_stores_nth [OF d _ i] True i assms by (simp add: nth_append min_def)
  next
    case False
    then have "int i \<notin> fst ` set ?st" by auto
    from run_stores_untouched [OF i this] show ?thesis using False i assms by (auto simp: nth_append min_def)
  qed
qed (use assms in simp)

lemma copy_blocks_eq:
  assumes "0 \<le> n"
  shows "copy_blocks junk source source_start dest n = map (\<lambda>k. (dest + k, load_page junk source (source_start + k))) (py_range 0 n)"
proof -
  let ?f = "\<lambda>(a, b). (a, load_page junk source b)"
  have "copy_blocks junk source source_start dest n =
      map ?f (concat (map (block_stores position_block dest source_start n) (py_range 0 (cdiv n position_block))))"
    by (simp add: copy_blocks_def block_stores_def map_concat comp_def)
  also have "\<dots> = map ?f (map (\<lambda>k. (dest + k, source_start + k)) (py_range 0 n))"
    by (subst block_stores_all) (simp_all add: assms position_block_def)
  finally show ?thesis by simp
qed

lemma concat_length: "\<forall>row \<in> set t. length row = stride \<Longrightarrow> length (concat t) = length t * stride"
  by (induction t) simp_all

lemma concat_row:
  assumes "\<forall>row \<in> set t. length row = stride" "r < length t" "a + length vs \<le> stride"
  shows "take (r * stride + a) (concat t) @ vs @ drop (r * stride + a + length vs) (concat t) =
    concat (t[r := take a (t ! r) @ vs @ drop (a + length vs) (t ! r)])"
proof -
  let ?a = "concat (take r t)" and ?b = "concat (drop (Suc r) t)"
  have t: "t = take r t @ t ! r # drop (Suc r) t" using id_take_nth_drop [OF assms(2)] .
  then have c: "concat t = ?a @ t ! r @ ?b" by (metis concat.simps(2) concat_append)
  have "\<forall>row \<in> set (take r t). length row = stride" using assms(1) by (auto dest: in_set_takeD)
  from concat_length [OF this] have a: "length ?a = r * stride" using assms(2) by simp
  have row: "length (t ! r) = stride" using assms(1,2) by simp
  have "concat (t[r := x]) = ?a @ x @ ?b" for x using assms(2) by (simp add: upd_conv_take_nth_drop)
  then show ?thesis using a row assms(3) by (simp add: c)
qed

lemma rows_of_concat:
  assumes "\<forall>row \<in> set t. length row = stride"
  shows "rows_of (length t) stride (concat t) = t"
proof (rule nth_equalityI)
  fix r assume "r < length (rows_of (length t) stride (concat t))"
  then have r: "r < length t" by (simp add: rows_of_def)
  have t: "t = take r t @ t ! r # drop (Suc r) t" using id_take_nth_drop [OF r] .
  have "\<forall>row \<in> set (take r t). length row = stride" using assms by (auto dest: in_set_takeD)
  from concat_length [OF this] have a: "length (concat (take r t)) = r * stride" using r by simp
  have "drop (r * stride) (concat t) = t ! r @ concat (drop (Suc r) t)" by (subst t) (simp add: a)
  then show "rows_of (length t) stride (concat t) ! r = t ! r" using assms r by (simp add: rows_of_def)
qed (simp add: rows_of_def)

text \<open>What the batch tensors have to satisfy: one row per request, lengths that fit.\<close>

definition item_fits :: "req_pool \<Rightarrow> write_item \<Rightarrow> bool" where
  "item_fits p it \<longleftrightarrow> wi_row it < length (rp_table p) \<and> wi_prefix_len it = int (length (wi_prefix it)) \<and>
     wi_prefix_len it \<le> wi_seq_len it \<and> wi_seq_len it \<le> int (rp_max_context_len p) \<and> wi_extend_len it = wi_seq_len it - wi_prefix_len it"

definition pool_ok :: "req_pool \<Rightarrow> bool" where
  "pool_ok p \<longleftrightarrow> (\<forall>row \<in> set (rp_table p). length row = rp_max_context_len p)"

text \<open>One request: its row holds the prefix, then its part of the new slots.\<close>

definition put_row :: "write_item \<Rightarrow> int list \<Rightarrow> req_pool \<Rightarrow> req_pool" where
  "put_row it new p =
     p\<lparr>rp_table := (rp_table p)[wi_row it := wi_prefix it @ new @ drop (nat (wi_seq_len it)) (rp_table p ! wi_row it)]\<rparr>"

lemma req_pool_write_ok:
  assumes "idx < length (rp_table p)" "a + length vs \<le> length (rp_table p ! idx)"
  shows "req_pool_write idx (int a) (int (a + length vs)) vs p =
    Inr (p\<lparr>rp_table := (rp_table p)[idx := take a (rp_table p ! idx) @ vs @ drop (a + length vs) (rp_table p ! idx)]\<rparr>)"
  using assms by (simp add: req_pool_write_def Let_def min_def max_def nat_int_add del: of_nat_add)

lemma put_row_pool:
  assumes "item_fits p it" "pool_ok p" "int (length new) = wi_extend_len it"
  shows "pool_ok (put_row it new p) \<and> length (rp_table (put_row it new p)) = length (rp_table p) \<and>
    rp_max_context_len (put_row it new p) = rp_max_context_len p \<and> rp_free_slots (put_row it new p) = rp_free_slots p \<and>
    (\<forall>k. k \<noteq> wi_row it \<longrightarrow> rp_table (put_row it new p) ! k = rp_table p ! k)"
proof -
  have "length (rp_table p ! wi_row it) = rp_max_context_len p" using assms(1,2) by (simp add: item_fits_def pool_ok_def)
  then have "length (wi_prefix it @ new @ drop (nat (wi_seq_len it)) (rp_table p ! wi_row it)) = rp_max_context_len p"
    using assms(1,3) by (auto simp: item_fits_def)
  then show ?thesis using assms(2) by (auto simp: put_row_def pool_ok_def dest!: set_update_subset_insert [THEN subsetD])
qed

lemma write_one:
  assumes "item_fits p it" "pool_ok p" "int (length new) = wi_extend_len it"
  shows "rbind (req_pool_write (wi_row it) 0 (wi_prefix_len it) (wi_prefix it) p) (req_pool_write (wi_row it) (wi_prefix_len it) (wi_seq_len it) new) =
    Inr (put_row it new p)"
proof -
  let ?row = "rp_table p ! wi_row it" and ?pre = "length (wi_prefix it)"
  note f = assms(1) [unfolded item_fits_def]
  have row: "length ?row = rp_max_context_len p" "wi_row it < length (rp_table p)" using assms(1,2) by (simp_all add: item_fits_def pool_ok_def)
  have n: "wi_seq_len it = int (?pre + length new)" "?pre + length new \<le> length ?row" using f assms(3) row by simp_all
  let ?p1 = "p\<lparr>rp_table := (rp_table p)[wi_row it := wi_prefix it @ drop ?pre ?row]\<rparr>"
  have "req_pool_write (wi_row it) (int 0) (int (0 + ?pre)) (wi_prefix it) p = Inr ?p1"
    using req_pool_write_ok [OF row(2), of 0 "wi_prefix it"] n(2) by simp
  moreover have "req_pool_write (wi_row it) (int ?pre) (int (?pre + length new)) new ?p1 = Inr (put_row it new p)"
    using req_pool_write_ok [of "wi_row it" ?p1 ?pre new] row n(2) by (simp add: put_row_def n(1) ac_simps del: of_nat_add)
  ultimately show ?thesis using f by (simp add: n(1) del: of_nat_add)
qed

text \<open>The stores of one program, and of all from a given start in the new slots.\<close>

definition item_stores :: "int \<Rightarrow> int list \<Rightarrow> write_item \<Rightarrow> (int \<times> int) list" where
  "item_stores stride new it =
     map (\<lambda>k. (int (wi_row it) * stride + k, (wi_prefix it @ new) ! nat k)) (py_range 0 (wi_seq_len it))"

lemma write_program_stores:
  assumes "item_fits p it" "0 \<le> start" "start + wi_extend_len it \<le> int (length out)"
  shows "copy_blocks junk (wi_prefix it) 0 (int (wi_row it) * stride) (wi_prefix_len it) @
      copy_blocks junk out start (int (wi_row it) * stride + wi_prefix_len it) (wi_seq_len it - wi_prefix_len it) =
    item_stores stride (py_slice out start (start + wi_extend_len it)) it"
proof -
  let ?pre = "wi_prefix_len it" and ?seq = "wi_seq_len it" and ?d = "int (wi_row it) * stride"
  let ?new = "py_slice out start (start + wi_extend_len it)"
  have f: "?pre = int (length (wi_prefix it))" "?pre \<le> ?seq" "wi_extend_len it = ?seq - ?pre" using assms(1) by (simp_all add: item_fits_def)
  have a: "copy_blocks junk (wi_prefix it) 0 ?d ?pre = map (\<lambda>k. (?d + k, (wi_prefix it @ ?new) ! nat k)) (py_range 0 ?pre)"
    by (subst copy_blocks_eq) (auto simp: f(1) load_page_def nth_append)
  have b: "copy_blocks junk out start (?d + ?pre) (?seq - ?pre) = map (\<lambda>k. (?d + k, (wi_prefix it @ ?new) ! nat k)) (py_range ?pre ?seq)"
  proof -
    have "py_range ?pre ?seq = map (\<lambda>k. k + ?pre) (py_range 0 (?seq - ?pre))" by (simp add: map_shift_py_range)
    then have "map (\<lambda>k. (?d + k, (wi_prefix it @ ?new) ! nat k)) (py_range ?pre ?seq) =
        map (\<lambda>k. (?d + (k + ?pre), (wi_prefix it @ ?new) ! nat (k + ?pre))) (py_range 0 (?seq - ?pre))" by (simp add: comp_def)
    also have "\<dots> = map (\<lambda>k. ((?d + ?pre) + k, load_page junk out (start + k))) (py_range 0 (?seq - ?pre))"
    proof (rule map_cong [OF refl])
      fix k assume "k \<in> set (py_range 0 (?seq - ?pre))"
      then have k: "0 \<le> k" "k < ?seq - ?pre" by simp_all
      then show "(?d + (k + ?pre), (wi_prefix it @ ?new) ! nat (k + ?pre)) = ((?d + ?pre) + k, load_page junk out (start + k))"
        using assms(2,3) f by (auto simp: nth_append load_page_def py_slice_nonneg nat_add_distrib)
    qed
    also have "\<dots> = copy_blocks junk out start (?d + ?pre) (?seq - ?pre)" by (rule copy_blocks_eq [symmetric]) (simp add: f(2))
    finally show ?thesis by simp
  qed
  show ?thesis unfolding a b item_stores_def map_append [symmetric] by (subst py_range_append) (use f in simp_all)
qed

lemma item_stores_run:
  assumes "item_fits p it" "pool_ok p" "int (length new) = wi_extend_len it"
  shows "run_stores (item_stores (int (rp_max_context_len p)) new it) (concat (rp_table p)) = concat (rp_table (put_row it new p))"
proof -
  let ?s = "rp_max_context_len p" and ?vs = "wi_prefix it @ new"
  note f = assms(1) [unfolded item_fits_def]
  have row: "wi_row it < length (rp_table p)" "wi_seq_len it = int (length ?vs)" "0 + length ?vs \<le> ?s" using f assms(3) by simp_all
  have t: "\<forall>row \<in> set (rp_table p). length row = ?s" using assms(2) by (simp add: pool_ok_def)
  have m: "map (\<lambda>k. ?vs ! nat k) (py_range 0 (int (length ?vs))) = ?vs" by (rule nth_equalityI) simp_all
  have "Suc (wi_row it) * ?s \<le> length (rp_table p) * ?s" using row(1) by (intro mult_right_mono) simp_all
  then have "wi_row it * ?s + length ?vs \<le> length (concat (rp_table p))" using row(3) by (simp add: concat_length [OF t])
  from run_stores_block [OF this, of "\<lambda>k. ?vs ! nat k"]
  have "run_stores (item_stores (int ?s) new it) (concat (rp_table p)) =
      take (wi_row it * ?s) (concat (rp_table p)) @ ?vs @ drop (wi_row it * ?s + length ?vs) (concat (rp_table p))"
    unfolding m by (simp add: item_stores_def row(2))
  also have "\<dots> = concat ((rp_table p)[wi_row it := take 0 (rp_table p ! wi_row it) @ ?vs @ drop (0 + length ?vs) (rp_table p ! wi_row it)])"
    using concat_row [OF t row(1,3)] by simp
  finally show ?thesis by (simp add: put_row_def row(2) nat_int_add)
qed

fun put_all :: "write_item list \<Rightarrow> int list \<Rightarrow> int \<Rightarrow> req_pool \<Rightarrow> req_pool" where
  "put_all [] out pt p = p"
| "put_all (it # its) out pt p = put_all its out (pt + wi_extend_len it) (put_row it (py_slice out pt (pt + wi_extend_len it)) p)"

fun stores_from :: "int \<Rightarrow> int list \<Rightarrow> int \<Rightarrow> write_item list \<Rightarrow> (int \<times> int) list" where
  "stores_from stride out start [] = []"
| "stores_from stride out start (it # its) =
     item_stores stride (py_slice out start (start + wi_extend_len it)) it @ stores_from stride out (start + wi_extend_len it) its"

definition batch_fits :: "req_pool \<Rightarrow> int list \<Rightarrow> int \<Rightarrow> write_item list \<Rightarrow> bool" where
  "batch_fits p out start its \<longleftrightarrow>
     pool_ok p \<and> list_all (item_fits p) its \<and> 0 \<le> start \<and> start + sum_list (map wi_extend_len its) \<le> int (length out)"

lemma fits_extend_nonneg: "item_fits p it \<Longrightarrow> 0 \<le> wi_extend_len it"
  by (simp add: item_fits_def)

lemma fits_sum_nonneg: "list_all (item_fits p) its \<Longrightarrow> 0 \<le> sum_list (map wi_extend_len its)"
  by (induction its) (auto dest: fits_extend_nonneg)

lemma batch_fits_Cons:
  assumes "batch_fits p out start (it # its)"
  defines "new \<equiv> py_slice out start (start + wi_extend_len it)"
  shows "item_fits p it" "pool_ok p" "int (length new) = wi_extend_len it" "0 \<le> start" "start + wi_extend_len it \<le> int (length out)"
    "batch_fits (put_row it new p) out (start + wi_extend_len it) its"
proof -
  show a: "item_fits p it" "pool_ok p" "0 \<le> start" using assms(1) by (simp_all add: batch_fits_def)
  note e = fits_extend_nonneg [OF a(1)]
  have "0 \<le> sum_list (map wi_extend_len its)" using assms(1) by (intro fits_sum_nonneg [of p]) (simp add: batch_fits_def)
  then show b: "start + wi_extend_len it \<le> int (length out)" using assms(1) by (simp add: batch_fits_def)
  show c: "int (length new) = wi_extend_len it" using a(3) b e unfolding new_def by (simp add: py_slice_nonneg nat_add_distrib)
  note r = put_row_pool [OF a(1,2) c]
  then have "item_fits (put_row it new p) = item_fits p" by (simp add: item_fits_def fun_eq_iff)
  then show "batch_fits (put_row it new p) out (start + wi_extend_len it) its" using assms(1) e r by (simp add: batch_fits_def ac_simps)
qed

lemma write_loop_all: "batch_fits p out start its \<Longrightarrow> write_loop its out start p = Inr (put_all its out start p)"
proof (induction its arbitrary: start p)
  case (Cons it its)
  note c = batch_fits_Cons [OF Cons.prems]
  let ?new = "py_slice out start (start + wi_extend_len it)"
  obtain p1 where w: "req_pool_write (wi_row it) 0 (wi_prefix_len it) (wi_prefix it) p = Inr p1"
    "req_pool_write (wi_row it) (wi_prefix_len it) (wi_seq_len it) ?new p1 = Inr (put_row it ?new p)"
    using write_one [OF c(1,2,3)] by (auto simp: rbind_Inr_iff)
  show ?case using Cons.IH [OF c(6)] by (simp add: w)
qed simp

lemma stores_from_run:
  "batch_fits p out start its \<Longrightarrow>
   run_stores (stores_from (int (rp_max_context_len p)) out start its) (concat (rp_table p)) = concat (rp_table (put_all its out start p)) \<and>
   pool_ok (put_all its out start p) \<and> length (rp_table (put_all its out start p)) = length (rp_table p) \<and>
   put_all its out start p = p\<lparr>rp_table := rp_table (put_all its out start p)\<rparr>"
proof (induction its arbitrary: start p)
  case Nil
  then show ?case by (simp add: run_stores_def batch_fits_def)
next
  case (Cons it its)
  note c = batch_fits_Cons [OF Cons.prems]
  let ?p = "put_row it (py_slice out start (start + wi_extend_len it)) p"
  have m: "rp_max_context_len ?p = rp_max_context_len p" "length (rp_table ?p) = length (rp_table p)" "p\<lparr>rp_table := t\<rparr> = ?p\<lparr>rp_table := t\<rparr>" for t
    by (simp_all add: put_row_def)
  show ?case using Cons.IH [OF c(6)] item_stores_run [OF c(1,2,3)] by (simp add: run_stores_append m)
qed

lemma write_stores_from:
  assumes "batch_fits p out 0 its"
  shows "write_stores stride junk out its = stores_from stride out 0 its"
proof -
  have "batch_fits p out start its \<Longrightarrow>
      concat (map (\<lambda>pid. let it = its ! pid; row = int (wi_row it) * stride; s = start + sum_list (map wi_extend_len (take pid its))
        in copy_blocks junk (wi_prefix it) 0 row (wi_prefix_len it) @
           copy_blocks junk out s (row + wi_prefix_len it) (wi_seq_len it - wi_prefix_len it)) [0..<length its]) =
      stores_from stride out start its" for start p
  proof (induction its arbitrary: start p)
    case (Cons it its)
    note c = batch_fits_Cons [OF Cons.prems]
    show ?case using write_program_stores [OF c(1,4,5), of junk stride] Cons.IH [OF c(6)]
      by (simp add: upt_rec [of 0] map_Suc_upt [symmetric] comp_def Let_def add.assoc del: upt_Suc)
  qed simp
  from this [OF assms] show ?thesis by (simp add: write_stores_def write_program_def [abs_def] Let_def)
qed

lemma stores_from_addresses:
  assumes "list_all (item_fits p) its" "distinct (map wi_row its)"
  shows "distinct (map fst (stores_from (int (rp_max_context_len p)) out start its))"
proof -
  let ?s = "int (rp_max_context_len p)"
  have a: "a \<in> fst ` set (stores_from ?s out start its) \<Longrightarrow> list_all (item_fits p) its \<Longrightarrow> \<exists>it \<in> set its. int (wi_row it) = a div ?s" for a its start
  proof (induction its arbitrary: start)
    case (Cons it its)
    show ?case
    proof (cases "a \<in> fst ` set (stores_from ?s out (start + wi_extend_len it) its)")
      case True
      then show ?thesis using Cons.IH Cons.prems(2) by fastforce
    next
      case False
      then obtain k where k: "a = int (wi_row it) * ?s + k" "0 \<le> k" "k < wi_seq_len it" using Cons.prems(1) by (auto simp: item_stores_def)
      then have "k < ?s" using Cons.prems(2) by (simp add: item_fits_def)
      then have "a div ?s = int (wi_row it)" using k(1,2) by (simp add: div_pos_pos_trivial)
      then show ?thesis by auto
    qed
  qed simp
  show ?thesis using assms
  proof (induction its arbitrary: start)
    case (Cons it its)
    have d: "distinct (map fst (item_stores ?s new it))" for new by (simp add: item_stores_def comp_def distinct_map inj_on_def)
    have "fst x \<notin> fst ` set (stores_from ?s out (start + wi_extend_len it) its)" if x: "x \<in> set (item_stores ?s new it)" for x new
    proof
      assume "fst x \<in> fst ` set (stores_from ?s out (start + wi_extend_len it) its)"
      from a [OF this] Cons.prems(1) obtain it' where "it' \<in> set its" "int (wi_row it') = fst x div ?s" by auto
      moreover have "fst x div ?s = int (wi_row it)" using x Cons.prems(1) by (auto simp: item_stores_def item_fits_def div_pos_pos_trivial)
      ultimately have "wi_row it \<in> wi_row ` set its" by (metis image_eqI of_nat_eq_iff)
      then show False using Cons.prems(2) by simp
    qed
    then show ?case using Cons d by auto
  qed simp
qed

lemma pool_after_all:
  assumes "batch_fits p out 0 its" "distinct (map wi_row its)" "mset st = mset (write_stores (int (rp_max_context_len p)) junk out its)"
  shows "pool_after st p = put_all its out 0 p"
proof -
  note w = write_stores_from [OF assms(1), of "int (rp_max_context_len p)" junk]
  have "run_stores st (concat (rp_table p)) = run_stores (stores_from (int (rp_max_context_len p)) out 0 its) (concat (rp_table p))"
    using assms by (intro run_stores_perm stores_from_addresses) (simp_all add: batch_fits_def w)
  moreover note s = stores_from_run [OF assms(1)]
  moreover have "rows_of (length (rp_table p)) (rp_max_context_len p) (concat (rp_table (put_all its out 0 p))) = rp_table (put_all its out 0 p)"
  proof -
    have "rp_max_context_len (put_all its out 0 p) = rp_max_context_len p" using s by (metis req_pool.select_convs(2) req_pool.surjective req_pool.update_convs(3))
    then show ?thesis using rows_of_concat [of "rp_table (put_all its out 0 p)" "rp_max_context_len p"] s by (simp add: pool_ok_def)
  qed
  ultimately show ?thesis by (simp add: pool_after_def)
qed

lemma blocks_map:
  assumes "0 < block" "0 \<le> n"
  shows "concat (map (\<lambda>i. map f (filter (\<lambda>offset. offset < n) (py_range (i * block) (i * block + block)))) (py_range 0 (cdiv n block))) =
    map f (py_range 0 n)"
proof -
  have "concat (map (\<lambda>i. map f (filter (\<lambda>offset. offset < n) (py_range (i * block) (i * block + block)))) (py_range 0 (cdiv n block))) =
      map (\<lambda>p. f (fst p)) (concat (map (block_stores block 0 0 n) (py_range 0 (cdiv n block))))"
    by (simp add: block_stores_def map_concat comp_def)
  also have "\<dots> = map (\<lambda>p. f (fst p)) (map (\<lambda>offset. (0 + offset, 0 + offset)) (py_range 0 n))" unfolding block_stores_all [OF assms] ..
  finally show ?thesis by (simp add: comp_def)
qed

lemma nth_concat_rows:
  assumes "\<forall>row \<in> set t. length row = stride" "r < length t" "k < stride"
  shows "concat t ! (r * stride + k) = t ! r ! k"
proof -
  have t: "t = take r t @ t ! r # drop (Suc r) t" using id_take_nth_drop [OF assms(2)] .
  have "\<forall>row \<in> set (take r t). length row = stride" using assms(1) by (auto dest: in_set_takeD)
  from concat_length [OF this] have a: "length (concat (take r t)) = r * stride" using assms(2) by simp
  have c: "concat t = concat (take r t) @ t ! r @ concat (drop (Suc r) t)" by (metis t concat.simps(2) concat_append)
  have "k < length (t ! r)" using assms by simp
  then show ?thesis unfolding c using a by (simp add: nth_append)
qed

lemma last_loc_any_order:
  assumes "pool_ok p" "0 < rp_max_context_len p" "length rows = length lens"
    and "list_all (\<lambda>r. 0 \<le> r \<and> r < int (length (rp_table p))) rows" "list_all (\<lambda>n. 0 \<le> n \<and> n \<le> int (rp_max_context_len p)) lens"
    and "mset st = mset (last_loc_stores (int (rp_max_context_len p)) junk (concat (rp_table p)) rows lens)"
  shows "get_last_loc_torch (rp_table p) rows lens = Inr (run_stores st (map uninit [0..<length lens]))"
proof -
  let ?s = "rp_max_context_len p" and ?t = "rp_table p" and ?n = "int (length lens)"
  let ?v = "\<lambda>i. let n = load_page (\<lambda>_. 0) lens i; token_index = load_page (\<lambda>_. 0) rows i * int ?s + (n - 1)
    in if n > 0 then load_page junk (concat ?t) token_index else - 1"
  have st: "last_loc_stores (int ?s) junk (concat ?t) rows lens = map (\<lambda>i. (i, ?v i)) (py_range 0 ?n)"
    unfolding last_loc_stores_def last_loc_program_def by (subst blocks_map) (simp_all add: last_loc_block_def Let_def)
  have run: "run_stores st (map uninit [0..<length lens]) = map ?v (py_range 0 ?n)"
    using run_stores_any_order [OF assms(6)] by (simp add: st comp_def)
  have "get_last_loc_torch ?t rows lens = Inr (map (\<lambda>i. ?v (int i)) [0..<length lens])"
  proof -
    let ?f = "\<lambda>(r, n). rbind (py_get ?t r) (\<lambda>row. rbind (py_get row (n - 1)) (\<lambda>v. Inr (if n > 0 then v else - 1)))"
    have one: "?f (rows ! i, lens ! i) = Inr (?v (int i))" if i: "i < length lens" for i
    proof -
      have r: "0 \<le> rows ! i" "rows ! i < int (length ?t)" and n: "0 \<le> lens ! i" "lens ! i \<le> int ?s"
        using assms(3,4,5) i by (auto simp: list_all_length)
      have row: "length (?t ! nat (rows ! i)) = ?s" using assms(1) r by (simp add: pool_ok_def)
      show ?thesis
      proof (cases "lens ! i = 0")
        case True
        have "py_idx ?s (- 1) = Some (?s - 1)" using assms(2) by (simp add: py_idx_def Let_def nat_diff_distrib)
        then show ?thesis using r row True i by (simp add: py_get_def load_page_def)
      next
        case False
        then have p: "0 \<le> lens ! i - 1" "lens ! i - 1 < int ?s" using n by simp_all
        have k: "nat (rows ! i) < length ?t" "nat (lens ! i - 1) < ?s" using r p by simp_all
        have "rows ! i * int ?s + (lens ! i - 1) = int (nat (rows ! i) * ?s + nat (lens ! i - 1))" using r p by simp
        moreover have "nat (rows ! i) * ?s + nat (lens ! i - 1) < length ?t * ?s"
        proof -
          have "nat (rows ! i) * ?s + nat (lens ! i - 1) < Suc (nat (rows ! i)) * ?s" using k by simp
          also have "\<dots> \<le> length ?t * ?s" using k by (intro mult_right_mono) simp_all
          finally show ?thesis .
        qed
        moreover have len: "length (concat ?t) = length ?t * ?s" using assms(1) concat_length [of ?t ?s] by (simp add: pool_ok_def)
        ultimately have "load_page junk (concat ?t) (rows ! i * int ?s + (lens ! i - 1)) = ?t ! nat (rows ! i) ! nat (lens ! i - 1)"
          using nth_concat_rows [OF _ k] assms(1) by (simp add: load_page_def pool_ok_def del: of_nat_add of_nat_mult)
        then show ?thesis using r row p i assms(3) False n by (simp add: load_page_def)
      qed
    qed
    have "get_last_loc_torch ?t rows lens = rmap (\<lambda>i. ?f (rows ! i, lens ! i)) [0..<length lens]"
    proof -
      have "zip rows lens = map (\<lambda>i. (rows ! i, lens ! i)) [0..<length lens]" using assms(3) by (intro nth_equalityI) simp_all
      moreover have "rmap f (map g xs) = rmap (\<lambda>x. f (g x)) xs" for f :: "int \<times> int \<Rightarrow> int res" and g xs by (induction xs) simp_all
      ultimately show ?thesis unfolding get_last_loc_torch_def by (simp only: )
    qed
    also have "\<dots> = Inr (map (\<lambda>i. ?v (int i)) [0..<length lens])" by (intro rmap_all_Inr one) simp
    finally show ?thesis .
  qed
  also have "map (\<lambda>i. ?v (int i)) [0..<length lens] = map ?v (py_range 0 ?n)"
  proof -
    have "map int [0..<length lens] = py_range 0 ?n" by (rule nth_equalityI) simp_all
    then show ?thesis by (simp only: list.map_comp [symmetric, of ?v int, unfolded comp_def] )
  qed
  finally show ?thesis unfolding run .
qed

section \<open>Property: the kernels\<close>

text \<open>C21: The triton kernels of the batch memory compute what the torch code computes, for every order in which
  their stores reach memory: when the lengths of the batch fit the pool and every request has a row of its
  own, the pool after \<open>write_req_to_token_pool_triton\<close> is the one the loop over the requests leaves, which
  does not fail; and \<open>get_last_loc_kernel\<close> fills its output with the values of \<open>get_last_loc_torch\<close>.\<close>

theorem batch_kernels_match_torch:
  assumes "batch_fits p out 0 its" "distinct (map wi_row its)" "0 < rp_max_context_len p" "length rows = length lens"
    and "list_all (\<lambda>r. 0 \<le> r \<and> r < int (length (rp_table p))) rows" "list_all (\<lambda>n. 0 \<le> n \<and> n \<le> int (rp_max_context_len p)) lens"
    and "mset st = mset (write_stores (int (rp_max_context_len p)) junk out its)"
    and "mset st' = mset (last_loc_stores (int (rp_max_context_len p)) junk (concat (rp_table p)) rows lens)"
  shows "write_loop its out 0 p = Inr (pool_after st p) \<and>
    get_last_loc_torch (rp_table p) rows lens = Inr (run_stores st' (map uninit [0..<length lens]))"
  using write_loop_all [OF assms(1)] pool_after_all [OF assms(1,2,7)] last_loc_any_order [OF _ assms(3-6,8)] assms(1)
  by (simp add: batch_fits_def)

definition ex_pool :: req_pool where
  "ex_pool = \<lparr>rp_size = 2, rp_max_context_len = 4, rp_table = [[0, 0, 0, 0], [9, 9, 9, 9]], rp_free_slots = [0, 1]\<rparr>"

definition ex_items :: "write_item list" where
  "ex_items = [\<lparr>wi_row = 1, wi_prefix = [5, 6], wi_prefix_len = 2, wi_seq_len = 3, wi_extend_len = 1\<rparr>,
     \<lparr>wi_row = 0, wi_prefix = [], wi_prefix_len = 0, wi_seq_len = 2, wi_extend_len = 2\<rparr>]"

theorem batch_kernels_match_torch_witness:
  "write_loop ex_items [7, 1, 2] 0 ex_pool = Inr (pool_after (rev (write_stores 4 (\<lambda>_. 0) [7, 1, 2] ex_items)) ex_pool) \<and>
   rp_table (pool_after (rev (write_stores 4 (\<lambda>_. 0) [7, 1, 2] ex_items)) ex_pool) = [[1, 2, 0, 0], [5, 6, 7, 9]] \<and>
   get_last_loc_torch (rp_table ex_pool) [1, 0] [2, 0] =
     Inr (run_stores (rev (last_loc_stores 4 (\<lambda>_. 0) (concat (rp_table ex_pool)) [1, 0] [2, 0])) (map (\<lambda>_. 0) [0..<length [2, 0 :: int]]))"
proof -
  have f: "batch_fits ex_pool [7, 1, 2] 0 ex_items"
    by (simp add: batch_fits_def pool_ok_def item_fits_def ex_pool_def ex_items_def)
  have s: "int (rp_max_context_len ex_pool) = 4" by (simp add: ex_pool_def)
  note w = batch_kernels_match_torch [OF f, where junk = "\<lambda>_. 0" and st = "rev (write_stores 4 (\<lambda>_. 0) [7, 1, 2] ex_items)"
      and st' = "rev (last_loc_stores 4 (\<lambda>_. 0) (concat (rp_table ex_pool)) [1, 0] [2, 0])" and rows = "[1, 0]" and lens = "[2, 0]"
      and uninit = "\<lambda>_. 0", unfolded s]
  have l: "write_loop ex_items [7, 1, 2] 0 ex_pool = Inr (ex_pool\<lparr>rp_table := [[1, 2, 0, 0], [5, 6, 7, 9]]\<rparr>)" by code_simp
  have "distinct (map wi_row ex_items)" "0 < rp_max_context_len ex_pool" "length [1 :: int, 0] = length [2 :: int, 0]"
    "list_all (\<lambda>r. 0 \<le> r \<and> r < int (length (rp_table ex_pool))) [1, 0]" "list_all (\<lambda>n. 0 \<le> n \<and> n \<le> (4 :: int)) [2, 0]"
    by (simp_all add: ex_pool_def ex_items_def)
  note w = w [OF this mset_rev mset_rev]
  have e: "pool_after (rev (write_stores 4 (\<lambda>_. 0) [7, 1, 2] ex_items)) ex_pool = ex_pool\<lparr>rp_table := [[1, 2, 0, 0], [5, 6, 7, 9]]\<rparr>"
    using conjunct1 [OF w] unfolding l by (simp only: sum.inject eq_commute)
  show ?thesis
  proof (intro conjI)
    show "rp_table (pool_after (rev (write_stores 4 (\<lambda>_. 0) [7, 1, 2] ex_items)) ex_pool) = [[1, 2, 0, 0], [5, 6, 7, 9]]"
      unfolding e by simp
  qed (rule conjunct1 [OF w], rule conjunct2 [OF w])
qed

end
