(* ===== verification/BatchSystem.thy ===== *)
theory BatchSystem
  imports BatchAlloc RadixRequests
begin

text \<open>
  The life of requests on the radix cache, one slot per page: a request is matched against the tree and
  its node locked, gets a row and slots with its batch, then a slot per decoded token, may be cached on the
  way and is finished. Shown: slots are allocated exactly when enough are free or evictable, and in every
  reachable state each slot is free, cached, or owned by exactly one running request.
\<close>

section \<open>Eviction gives room\<close>

lemma with_alloc_fields [simp]:
  "rx_root (with_alloc f rx) = rx_root rx" "rx_env (with_alloc f rx) = rx_env rx" "rx_alloc (with_alloc f rx) = f (rx_alloc rx)"
  "rx_pool (with_alloc f rx) = rx_pool rx"
  by (simp_all add: with_alloc_def)

lemma with_alloc_inv [simp]: "radix_inv cf H (with_alloc f rx) = radix_inv cf H rx"
  by (simp add: radix_inv_def)

lemma fold_raising: "fold (\<lambda>xs al. rbind al (\<lambda>al. Inr (f xs al))) xss (Inr al) = Inr (fold f xss al)"
  by (induction xss arbitrary: al) simp_all

lemma fold_token_free_ok: "alloc_ok al \<Longrightarrow> alloc_ok (fold token_free xss al) \<and> ta_size (fold token_free xss al) = ta_size al"
proof (induction xss arbitrary: al)
  case (Cons xs xss)
  then show ?case using token_free_ok [OF Cons.prems, of xs] by simp
qed simp

lemma evict_tokens:
  assumes "radix_inv cf H rx"
  shows "\<exists>rs rx'. evict_raising cf (ko_free token_ops) num rx = Inr rx' \<and> evicted cf num rx rx' rs \<and> radix_inv cf H rx' \<and>
    rx_alloc rx' = fold token_free (map ni_value rs) (rx_alloc rx) \<and>
    tree_slots (rx_root rx) = tree_slots (rx_root rx') + mset (concat (map ni_value rs)) \<and>
    keeps (\<lambda>n. n \<in># H) (rx_root rx) (rx_root rx') \<and> rx_pool rx' = rx_pool rx \<and> te_root (rx_env rx') = te_root (rx_env rx)"
proof -
  let ?f = "\<lambda>xs al. rbind al (ko_free token_ops xs)" and ?rx = "with_alloc Inr rx :: token_allocator res radix_cache"
  have f: "?f = (\<lambda>xs al. rbind al (\<lambda>al. Inr (token_free xs al)))" by (simp add: token_ops_def)
  have "radix_inv cf H ?rx" using assms by simp
  from evict_inv [OF this, of num ?f] obtain rs where rs: "evicted cf num ?rx (evict cf ?f num ?rx) rs" "radix_inv cf H (evict cf ?f num ?rx)"
    "rx_alloc (evict cf ?f num ?rx) = fold ?f (map ni_value rs) (Inr (rx_alloc rx))"
    "tree_slots (rx_root rx) = tree_slots (rx_root (evict cf ?f num ?rx)) + mset (concat (map ni_value rs))"
    "keeps (\<lambda>n. n \<in># H) (rx_root rx) (rx_root (evict cf ?f num ?rx))" "rx_pool (evict cf ?f num ?rx) = rx_pool rx"
    "te_root (rx_env (evict cf ?f num ?rx)) = te_root (rx_env rx)" by auto
  have al: "rx_alloc (evict cf ?f num ?rx) = Inr (fold token_free (map ni_value rs) (rx_alloc rx))" using rs(3) by (simp only: f fold_raising)
  let ?rx' = "with_alloc (\<lambda>_. fold token_free (map ni_value rs) (rx_alloc rx)) (evict cf ?f num ?rx)"
  have "evict_raising cf (ko_free token_ops) num rx = Inr ?rx'" by (simp add: evict_raising_def Let_def al)
  moreover have "evicted cf num rx ?rx' rs" using rs(1) by (simp add: evicted_def evictable_size_def)
  ultimately show ?thesis using rs by (intro exI [of _ rs] exI [of _ ?rx']) simp
qed

lemma evicted_size:
  assumes "radix_inv cf H rx" "radix_inv cf H rx'" "evicted cf num rx rx' rs"
  shows "evictable_size rx = evictable_size rx' + int (length (concat (map ni_value rs)))"
proof -
  have n: "nodes (rx_root rx) = nodes (rx_root rx') + mset rs" and l: "\<forall>i \<in> set rs. ni_lock i = 0" using assms(3) by (simp_all add: evicted_def)
  have "(\<Sum>i \<in># mset rs. if ni_lock i = 0 then int (node_len i) else 0) = int (length (concat (map ni_value rs)))"
  proof -
    have "\<forall>i \<in> set rs. length (ni_value i) = node_len i" using inv_lens [OF assms(1)] n by auto
    then have "(\<Sum>i \<leftarrow> rs. if ni_lock i = 0 then int (node_len i) else 0) = (\<Sum>i \<leftarrow> rs. int (length (ni_value i)))"
      using l by (intro arg_cong [where f = sum_list] map_cong) simp_all
    moreover have "(\<Sum>i \<leftarrow> rs. int (length (ni_value i))) = int (\<Sum>i \<leftarrow> rs. length (ni_value i))" by (induction rs) simp_all
    ultimately show ?thesis by (simp add: length_concat comp_def sum_mset_sum_list flip: mset_map)
  qed
  then show ?thesis unfolding inv_sizes(1) [OF assms(1)] inv_sizes(1) [OF assms(2)] by (simp add: unlocked_len_def n)
qed

lemma evictable_nonneg: "radix_inv cf H rx \<Longrightarrow> 0 \<le> evictable_size rx"
proof -
  have "0 \<le> (\<Sum>i \<in># M. if ni_lock i = 0 then int (node_len i) else 0)" for M by (induction M) auto
  then show "radix_inv cf H rx \<Longrightarrow> 0 \<le> evictable_size rx" by (simp add: inv_sizes(1) unlocked_len_def)
qed

text \<open>A change of the cache that keeps what the requests rely on.\<close>

definition same_held :: "nat multiset \<Rightarrow> 'a radix_cache \<Rightarrow> 'a radix_cache \<Rightarrow> bool" where
  "same_held H rx rx' \<longleftrightarrow> keeps (\<lambda>n. n \<in># H) (rx_root rx) (rx_root rx') \<and> te_root (rx_env rx') = te_root (rx_env rx)"

lemma evict_from_tree_correct:
  assumes "radix_inv cf H rx" "alloc_ok (rx_alloc rx)"
  shows "\<exists>rx'. evict_from_tree_cache token_ops n (PrefixCache cf rx) = Inr (PrefixCache cf rx') \<and> radix_inv cf H rx' \<and> alloc_ok (rx_alloc rx') \<and>
    ta_size (rx_alloc rx') = ta_size (rx_alloc rx) \<and>
    token_avail (rx_alloc rx') + tree_slots (rx_root rx') = token_avail (rx_alloc rx) + tree_slots (rx_root rx) \<and>
    same_held H rx rx' \<and> rx_pool rx' = rx_pool rx \<and>
    int (alloc_available_size (rx_alloc rx')) + evictable_size rx' = int (alloc_available_size (rx_alloc rx)) + evictable_size rx \<and>
    (n \<le> int (alloc_available_size (rx_alloc rx')) \<or> evictable_size rx' = 0)"
proof (cases "ko_available token_ops (rx_alloc rx) < n")
  case True
  from evict_tokens [OF assms(1), of n] obtain rs rx' where e: "evict_raising cf (ko_free token_ops) n rx = Inr rx'" "evicted cf n rx rx' rs"
    "radix_inv cf H rx'" "rx_alloc rx' = fold token_free (map ni_value rs) (rx_alloc rx)"
    "tree_slots (rx_root rx) = tree_slots (rx_root rx') + mset (concat (map ni_value rs))"
    "keeps (\<lambda>n. n \<in># H) (rx_root rx) (rx_root rx')" "rx_pool rx' = rx_pool rx" "te_root (rx_env rx') = te_root (rx_env rx)" by blast
  have ok: "alloc_ok (rx_alloc rx')" "ta_size (rx_alloc rx') = ta_size (rx_alloc rx)" using fold_token_free_ok [OF assms(2)] by (simp_all add: e(4))
  have av: "token_avail (rx_alloc rx') = token_avail (rx_alloc rx) + mset (concat (map ni_value rs))" by (simp add: e(4) token_kv.avail_free_all)
  then have sz: "alloc_available_size (rx_alloc rx') = alloc_available_size (rx_alloc rx) + length (concat (map ni_value rs))"
    by (simp add: alloc_ok_avail [OF ok(1), symmetric] alloc_ok_avail [OF assms(2), symmetric])
  have "n \<le> int (length (concat (map ni_value rs))) \<or> evictable_size rx' = 0" using e(2) by (simp add: evicted_def)
  then show ?thesis using True e(1,3,5,6,7,8) ok av sz evicted_size [OF assms(1) e(3,2)]
    by (auto simp: evict_from_tree_cache_def same_held_def)
next
  case False
  then show ?thesis using assms by (auto simp: evict_from_tree_cache_def same_held_def token_ops_def)
qed

text \<open>Allocation succeeds exactly when enough slots are free or evictable.\<close>

lemma alloc_slots_exact:
  assumes "radix_inv cf H rx" "alloc_ok (rx_alloc rx)"
  shows "if int n \<le> int (alloc_available_size (rx_alloc rx)) + evictable_size rx
    then \<exists>out rx'. alloc_token_slots token_ops n False (PrefixCache cf rx) = Inr ((out, None), PrefixCache cf rx') \<and> length out = n \<and>
      radix_inv cf H rx' \<and> alloc_ok (rx_alloc rx') \<and> ta_size (rx_alloc rx') = ta_size (rx_alloc rx) \<and>
      token_avail (rx_alloc rx') + mset out + tree_slots (rx_root rx') = token_avail (rx_alloc rx) + tree_slots (rx_root rx) \<and>
      same_held H rx rx' \<and> rx_pool rx' = rx_pool rx
    else alloc_token_slots token_ops n False (PrefixCache cf rx) = Inl (RuntimeError ''Out of memory'')"
proof -
  from evict_from_tree_correct [OF assms, of "int n"] obtain rx1 where e: "evict_from_tree_cache token_ops (int n) (PrefixCache cf rx) = Inr (PrefixCache cf rx1)"
    "radix_inv cf H rx1" "alloc_ok (rx_alloc rx1)" "ta_size (rx_alloc rx1) = ta_size (rx_alloc rx)"
    "token_avail (rx_alloc rx1) + tree_slots (rx_root rx1) = token_avail (rx_alloc rx) + tree_slots (rx_root rx)" "same_held H rx rx1" "rx_pool rx1 = rx_pool rx"
    "int (alloc_available_size (rx_alloc rx1)) + evictable_size rx1 = int (alloc_available_size (rx_alloc rx)) + evictable_size rx"
    "int n \<le> int (alloc_available_size (rx_alloc rx1)) \<or> evictable_size rx1 = 0" by blast
  show ?thesis
  proof (cases "n \<le> alloc_available_size (rx_alloc rx1)")
    case True
    from token_alloc_ok [OF e(3) True] obtain out al where a: "token_alloc n (rx_alloc rx1) = (Some out, al)" "alloc_ok al" "ta_size al = ta_size (rx_alloc rx1)" by blast
    let ?rx' = "rx1\<lparr>rx_alloc := al\<rparr>"
    have "alloc_token_slots token_ops n False (PrefixCache cf rx) = Inr ((out, None), PrefixCache cf ?rx')"
      by (simp add: alloc_token_slots_def e(1) Let_def taken_or_raise_def token_ops_def [THEN arg_cong, of ko_alloc] a(1))
    moreover have "radix_inv cf H ?rx'" using e(2) by (simp add: radix_inv_def)
    moreover have "int n \<le> int (alloc_available_size (rx_alloc rx)) + evictable_size rx" using True e(8) evictable_nonneg [OF e(2)] by linarith
    moreover have "token_avail al + mset out + tree_slots (rx_root rx1) = token_avail (rx_alloc rx) + tree_slots (rx_root rx)" "length out = n"
      using token_alloc_avail [OF a(1)] e(5) by simp_all
    moreover have "same_held H rx ?rx'" using e(6) by (simp add: same_held_def)
    ultimately show ?thesis using e(4,7) a(2,3) by auto
  next
    case False
    then have "\<not> int n \<le> int (alloc_available_size (rx_alloc rx)) + evictable_size rx" using e(8,9) by linarith
    moreover have "fst (token_alloc n (rx_alloc rx1)) = None"
      using False by (auto simp: token_alloc_def alloc_available_size_def merge_and_sort_free_def Let_def)
    then obtain al where "token_alloc n (rx_alloc rx1) = (None, al)" by (metis prod.collapse)
    then have "alloc_token_slots token_ops n False (PrefixCache cf rx) = Inl (RuntimeError ''Out of memory'')"
      by (simp add: alloc_token_slots_def e(1) Let_def taken_or_raise_def token_ops_def [THEN arg_cong, of ko_alloc])
    ultimately show ?thesis by simp
  qed
qed

section \<open>The rows of a batch\<close>

fun new_slots :: "write_item list \<Rightarrow> int list \<Rightarrow> int \<Rightarrow> int list list" where
  "new_slots [] out start = []"
| "new_slots (it # its) out start = py_slice out start (start + wi_extend_len it) # new_slots its out (start + wi_extend_len it)"

lemma put_all_rows:
  "batch_fits p out start its \<Longrightarrow> distinct (map wi_row its) \<Longrightarrow>
   (\<forall>k. k \<notin> wi_row ` set its \<longrightarrow> rp_table (put_all its out start p) ! k = rp_table p ! k) \<and>
   list_all2 (\<lambda>it new. take (nat (wi_seq_len it)) (rp_table (put_all its out start p) ! wi_row it) = wi_prefix it @ new \<and>
     int (length new) = wi_extend_len it) its (new_slots its out start)"
proof (induction its arbitrary: start p)
  case (Cons it its)
  note c = batch_fits_Cons [OF Cons.prems(1)]
  let ?new = "py_slice out start (start + wi_extend_len it)"
  let ?p = "put_row it ?new p" and ?q = "put_all (it # its) out start p"
  have IH: "\<forall>k. k \<notin> wi_row ` set its \<longrightarrow> rp_table ?q ! k = rp_table ?p ! k"
    "list_all2 (\<lambda>it new. take (nat (wi_seq_len it)) (rp_table ?q ! wi_row it) = wi_prefix it @ new \<and> int (length new) = wi_extend_len it)
       its (new_slots its out (start + wi_extend_len it))"
    using Cons.IH [OF c(6)] Cons.prems(2) by simp_all
  have "rp_table ?q ! wi_row it = rp_table ?p ! wi_row it" using IH(1) Cons.prems(2) by simp
  also have "take (nat (wi_seq_len it)) \<dots> = wi_prefix it @ ?new"
    using c(1,3) by (simp add: put_row_def item_fits_def)
  finally have "take (nat (wi_seq_len it)) (rp_table ?q ! wi_row it) = wi_prefix it @ ?new" .
  moreover have "\<forall>k. k \<notin> wi_row ` set (it # its) \<longrightarrow> rp_table ?q ! k = rp_table p ! k"
    using IH(1) put_row_pool [OF c(1,2,3)] by simp
  ultimately show ?case using IH(2) c(3) by simp
qed simp

lemma new_slots_concat:
  "list_all (\<lambda>it. 0 \<le> wi_extend_len it) its \<Longrightarrow> 0 \<le> start \<Longrightarrow> start + sum_list (map wi_extend_len its) = int (length out) \<Longrightarrow>
   concat (new_slots its out start) = py_slice out start (int (length out))"
proof (induction its arbitrary: start)
  case Nil
  then show ?case by (simp add: py_slice_nonneg)
next
  case (Cons it its)
  let ?m = "start + wi_extend_len it"
  have s: "0 \<le> sum_list (map wi_extend_len its)" using Cons.prems(1) by (induction its) auto
  then have m: "0 \<le> ?m" "start \<le> ?m" "?m \<le> int (length out)" using Cons.prems by simp_all
  have "concat (new_slots its out ?m) = py_slice out ?m (int (length out))" using Cons.IH [of ?m] Cons.prems m by simp
  moreover have "py_slice out start ?m @ py_slice out ?m (int (length out)) = py_slice out start (int (length out))"
  proof -
    have "nat start \<le> nat ?m" using m by simp
    then have "drop (nat start) (take (nat ?m) out) @ drop (nat ?m) out = drop (nat start) out"
      by (metis append_take_drop_id drop_append drop_drop drop_take le_add_diff_inverse2 take_drop)
    then show ?thesis using m Cons.prems(2) by (simp add: py_slice_nonneg)
  qed
  ultimately show ?case by simp
qed

text \<open>The batch of requests whose matched prefix is shorter than their text, which fits a row.\<close>

definition req_fits :: "req_pool \<Rightarrow> radix_req \<Rightarrow> bool" where
  "req_fits p r \<longleftrightarrow> length (rr_prefix r) \<le> length (rr_fill r) \<and> length (rr_fill r) \<le> rp_max_context_len p"

definition rows_ok :: "req_pool \<Rightarrow> nat list \<Rightarrow> bool" where
  "rows_ok p used \<longleftrightarrow> pool_ok p \<and> distinct (rp_free_slots p @ used) \<and> set (rp_free_slots p @ used) \<subseteq> {..<length (rp_table p)}"

lemma rows_ok_move:
  assumes "rows_ok p used" "mset (rp_free_slots q @ used') = mset (rp_free_slots p @ used)" "pool_ok q" "length (rp_table q) = length (rp_table p)"
  shows "rows_ok q used'"
  using assms(1,3,4) mset_eq_imp_distinct_iff [OF assms(2)] mset_eq_setD [OF assms(2)] unfolding rows_ok_def by metis

lemma extend_item_fields [simp]:
  "wi_row (extend_item k r) = k" "wi_prefix (extend_item k r) = rr_prefix r" "wi_prefix_len (extend_item k r) = int (length (rr_prefix r))"
  "wi_seq_len (extend_item k r) = int (length (rr_fill r))"
  "wi_extend_len (extend_item k r) = int (length (rr_fill r)) - int (length (rr_prefix r))"
  by (simp_all add: extend_item_def)

lemma extend_num_tokens_sum:
  "list_all (req_fits p) reqs \<Longrightarrow> length rows = length reqs \<Longrightarrow>
   int (extend_num_tokens reqs) = sum_list (map wi_extend_len (map2 extend_item rows reqs))"
proof (induction reqs arbitrary: rows)
  case (Cons r reqs)
  then show ?case by (cases rows) (auto simp: extend_num_tokens_def req_fits_def of_nat_diff)
qed (simp add: extend_num_tokens_def)

text \<open>What a batch has when it is ready: rows of its own that hold the prefixes and fresh slots.\<close>

definition batch_extended ::
    "cache_config \<Rightarrow> nat multiset \<Rightarrow> nat list \<Rightarrow> radix_req list \<Rightarrow> token_allocator radix_cache \<Rightarrow> nat list \<Rightarrow> int list list
     \<Rightarrow> token_allocator radix_cache \<Rightarrow> bool" where
  "batch_extended cf H used reqs rx rows news rx' \<longleftrightarrow>
     radix_inv cf H rx' \<and> alloc_ok (rx_alloc rx') \<and> ta_size (rx_alloc rx') = ta_size (rx_alloc rx) \<and> same_held H rx rx' \<and>
     token_avail (rx_alloc rx') + mset (concat news) + tree_slots (rx_root rx') = token_avail (rx_alloc rx) + tree_slots (rx_root rx) \<and>
     rows_ok (rx_pool rx') (used @ rows) \<and> length rows = length reqs \<and> length news = length reqs \<and>
     rp_max_context_len (rx_pool rx') = rp_max_context_len (rx_pool rx) \<and> length (rp_table (rx_pool rx')) = length (rp_table (rx_pool rx)) \<and>
     (\<forall>k. k \<notin> set rows \<longrightarrow> rp_table (rx_pool rx') ! k = rp_table (rx_pool rx) ! k) \<and>
     (\<forall>i < length reqs. take (length (rr_fill (reqs ! i))) (rp_table (rx_pool rx') ! (rows ! i)) = rr_prefix (reqs ! i) @ news ! i \<and>
        length (news ! i) = length (rr_fill (reqs ! i)) - length (rr_prefix (reqs ! i)))"

lemma alloc_for_extend_correct:
  assumes inv: "radix_inv cf H rx" "alloc_ok (rx_alloc rx)" "cf_page cf = 1" and rows: "rows_ok (rx_pool rx) used"
    and fits: "list_all (req_fits (rx_pool rx)) reqs"
  shows "if length reqs \<le> length (rp_free_slots (rx_pool rx)) \<and>
       int (extend_num_tokens reqs) \<le> int (alloc_available_size (rx_alloc rx)) + evictable_size rx
    then \<exists>out rows news rx'. alloc_for_extend token_ops triton junk reqs (PrefixCache cf rx) = Inr ((out, rows), PrefixCache cf rx') \<and>
      concat news = out \<and> batch_extended cf H used reqs rx rows news rx'
    else \<exists>e. alloc_for_extend token_ops triton junk reqs (PrefixCache cf rx) = Inl e"
proof (cases "length reqs \<le> length (rp_free_slots (rx_pool rx))")
  case False
  then show ?thesis by (simp add: alloc_for_extend_def alloc_req_slots_def req_pool_alloc_def)
next
  case True
  let ?p = "rx_pool rx" and ?n = "length reqs"
  let ?rows = "take ?n (rp_free_slots ?p)" and ?p1 = "rx_pool rx\<lparr>rp_free_slots := drop ?n (rp_free_slots (rx_pool rx))\<rparr>"
  let ?its = "map2 extend_item ?rows reqs"
  let ?rx1 = "rx\<lparr>rx_pool := ?p1\<rparr>"
  have r: "alloc_req_slots ?n (PrefixCache cf rx) = Inr (?rows, PrefixCache cf ?rx1)" using True by (simp add: alloc_req_slots_def req_pool_alloc_def)
  have len: "length ?rows = ?n" using True by simp
  have inv1: "radix_inv cf H ?rx1" "alloc_ok (rx_alloc ?rx1)" using inv by simp_all
  note s = alloc_slots_exact [OF inv1, of "extend_num_tokens reqs"]
  show ?thesis
  proof (cases "int (extend_num_tokens reqs) \<le> int (alloc_available_size (rx_alloc rx)) + evictable_size rx")
    case False
    then have "alloc_token_slots token_ops (extend_num_tokens reqs) False (PrefixCache cf ?rx1) = Inl (RuntimeError ''Out of memory'')"
      using s by (simp add: evictable_size_def)
    then show ?thesis using False inv(3) by (simp add: alloc_for_extend_def r)
  next
    case mem: True
    then obtain out rx2 where a: "alloc_token_slots token_ops (extend_num_tokens reqs) False (PrefixCache cf ?rx1) = Inr ((out, None), PrefixCache cf rx2)"
      "length out = extend_num_tokens reqs" "radix_inv cf H rx2" "alloc_ok (rx_alloc rx2)" "ta_size (rx_alloc rx2) = ta_size (rx_alloc rx)"
      "token_avail (rx_alloc rx2) + mset out + tree_slots (rx_root rx2) = token_avail (rx_alloc rx) + tree_slots (rx_root rx)"
      "same_held H ?rx1 rx2" "rx_pool rx2 = ?p1"
      using s by (auto simp: evictable_size_def)
    have ow: "map wi_row ?its = ?rows" using len by (intro nth_equalityI) (simp_all add: extend_item_def)
    have its: "list_all (item_fits ?p1) ?its"
    proof (clarsimp simp: list_all_length)
      fix i assume i: "i < ?n" "i < length (rp_free_slots ?p)"
      have "rp_free_slots ?p ! i < length (rp_table ?p)" using rows nth_mem [OF i(2)] by (auto simp: rows_ok_def)
      moreover have "req_fits ?p (reqs ! i)" using fits i by (simp add: list_all_length)
      ultimately show "item_fits ?p1 (extend_item (rp_free_slots ?p ! i) (reqs ! i))" by (simp add: item_fits_def extend_item_def req_fits_def)
    qed
    note sum = extend_num_tokens_sum [OF fits len]
    have bf: "batch_fits ?p1 out 0 ?its" using its rows sum a(2) by (simp add: batch_fits_def rows_ok_def pool_ok_def)
    have d: "distinct (map wi_row ?its)" unfolding ow using rows by (simp add: rows_ok_def)
    let ?q = "put_all ?its out 0 ?p1" and ?news = "new_slots ?its out 0"
    have w: "write_cache_indices triton junk out ?its ?p1 = Inr ?q"
      using write_loop_all [OF bf] pool_after_all [OF bf d refl, of junk] by (simp add: write_cache_indices_def)
    let ?rx' = "rx2\<lparr>rx_pool := ?q\<rparr>"
    have run: "alloc_for_extend token_ops triton junk reqs (PrefixCache cf rx) = Inr ((out, ?rows), PrefixCache cf ?rx')"
      using inv(3) a(1,8) w by (simp add: alloc_for_extend_def r)
    note q = stores_from_run [OF bf] and pr = put_all_rows [OF bf d]
    have e: "?q = ?p1\<lparr>rp_table := rp_table ?q\<rparr>" using q by blast
    have qf: "rp_free_slots ?q = drop ?n (rp_free_slots ?p)" "rp_max_context_len ?q = rp_max_context_len ?p"
      using arg_cong [OF e, of rp_free_slots] arg_cong [OF e, of rp_max_context_len] by simp_all
    have cat: "concat ?news = out"
      using new_slots_concat [of ?its 0 out] its sum a(2) by (simp add: list_all_iff fits_extend_nonneg [of ?p1] py_slice_nonneg)
    have row: "take (length (rr_fill (reqs ! i))) (rp_table ?q ! (?rows ! i)) = rr_prefix (reqs ! i) @ ?news ! i \<and>
        length (?news ! i) = length (rr_fill (reqs ! i)) - length (rr_prefix (reqs ! i))" if i: "i < ?n" for i
    proof -
      have it: "?its ! i = extend_item (?rows ! i) (reqs ! i)" "i < length ?its" using i len by simp_all
      have "take (nat (wi_seq_len (?its ! i))) (rp_table ?q ! wi_row (?its ! i)) = wi_prefix (?its ! i) @ ?news ! i \<and>
          int (length (?news ! i)) = wi_extend_len (?its ! i)" by (rule list_all2_nthD [OF conjunct2 [OF pr] it(2)])
      moreover have "wi_extend_len (?its ! i) = int (length (rr_fill (reqs ! i)) - length (rr_prefix (reqs ! i)))"
        using fits i unfolding it by (simp add: list_all_length req_fits_def of_nat_diff)
      ultimately show ?thesis unfolding it extend_item_fields by (metis nat_int of_nat_eq_iff)
    qed
    have "mset (drop ?n (rp_free_slots ?p) @ used @ ?rows) = mset (rp_free_slots ?p @ used)"
      by (metis append_take_drop_id mset_append union_assoc union_commute)
    then have "mset (rp_free_slots ?q @ used @ ?rows) = mset (rp_free_slots ?p @ used)" unfolding qf .
    then have ro: "rows_ok ?q (used @ ?rows)" by (rule rows_ok_move [OF rows]) (use q in simp_all)
    have nl: "length ?news = ?n" using list_all2_lengthD [OF conjunct2 [OF pr]] len by simp
    have unused: "\<forall>k. k \<notin> set ?rows \<longrightarrow> rp_table ?q ! k = rp_table ?p ! k"
    proof -
      have "rp_table ?p1 = rp_table ?p" "wi_row ` set ?its = set ?rows" using arg_cong [OF ow, of set] by (simp, simp only: set_map)
      then show ?thesis using conjunct1 [OF pr] by (simp only: )
    qed
    have "batch_extended cf H used reqs rx ?rows ?news ?rx'"
      unfolding batch_extended_def
    proof (intro conjI)
      show "radix_inv cf H ?rx'" "same_held H rx ?rx'" using a(3,7) by (simp_all add: same_held_def)
      show "token_avail (rx_alloc ?rx') + mset (concat ?news) + tree_slots (rx_root ?rx') = token_avail (rx_alloc rx) + tree_slots (rx_root rx)"
        using a(6) unfolding cat by simp
      show "\<forall>i < ?n. take (length (rr_fill (reqs ! i))) (rp_table (rx_pool ?rx') ! (?rows ! i)) = rr_prefix (reqs ! i) @ ?news ! i \<and>
        length (?news ! i) = length (rr_fill (reqs ! i)) - length (rr_prefix (reqs ! i))" using row by simp
      show "length (rp_table (rx_pool ?rx')) = length (rp_table ?p)" using q by simp
    qed (use a(4,5) ro len nl qf(2) unused in simp_all)
    then show ?thesis using True mem run cat by (simp only: if_True simp_thms) blast
  qed
qed

end
