(* ===== verification/BatchLife.thy ===== *)
theory BatchLife
  imports BatchSystem RadixProps
begin

text \<open>
  Requests from admission to the end, on the radix cache with one slot per page: ordinary ones, and blend requests
  that match no cached prefix. A step is what the scheduler
  does with a request or a batch (\<open>srt/managers/schedule_batch.py\<close>, \<open>scheduler.py\<close>,
  \<open>scheduler_output_processor_mixin.py\<close>); the sampled tokens are arbitrary. The invariant says who owns each slot.
\<close>

section \<open>The steps\<close>

definition init_next_round_input ::
    "cache_config \<Rightarrow> int option \<Rightarrow> radix_req \<Rightarrow> 'a radix_cache \<Rightarrow> (radix_req \<times> 'a radix_cache) res" where
  "init_next_round_input cf logprob_start r rx =
     (let fill = rr_origin r @ rr_output r; m = int (length fill) - 1;
          max_prefix_len = max (case logprob_start of Some n \<Rightarrow> min m n | None \<Rightarrow> m) 0
      in rbind (match_prefix cf \<lparr>rk_tokens = map Tok (py_slice fill 0 max_prefix_len), rk_extra = rr_extra r\<rparr> rx)
           (\<lambda>(prefix_indices, last_node, rx').
         Inr (r\<lparr>rr_fill := fill, rr_prefix := prefix_indices, rr_last_node := last_node,
                rr_last_matched := int (length prefix_indices)\<rparr>, rx')))"

record kv_system =
  ks_cache :: "token_allocator radix_cache"
  ks_admitted :: "radix_req list"
  ks_running :: "radix_req list"

text \<open>The row a batch gave to the request, and the token its forward pass sampled.\<close>

definition set_row_token :: "nat \<times> int \<Rightarrow> radix_req \<Rightarrow> radix_req" where
  "set_row_token rt r = r\<lparr>rr_pool_idx := fst rt, rr_output := rr_output r @ [snd rt]\<rparr>"

definition add_token :: "int \<Rightarrow> radix_req \<Rightarrow> radix_req" where
  "add_token t r = r\<lparr>rr_output := rr_output r @ [t]\<rparr>"

text \<open>The tokens with a slot: all but the last sampled one.\<close>

definition kv_len :: "radix_req \<Rightarrow> int" where
  "kv_len r = int (length (finished_toks r))"

text \<open>One step. A blend request is admitted only when it has matched no cached prefix: \<open>cache_finished_req\<close> gives the
  whole row of a blend request back, so for a matched prefix it would free slots that the tree still has.\<close>

inductive kv_step :: "cache_config \<Rightarrow> kv_system \<Rightarrow> kv_system \<Rightarrow> bool" for cf where
  admit: "init_next_round_input cf lp r (ks_cache s) = Inr (r', rx1) \<Longrightarrow> inc_lock_ref cf (rr_last_node r') rx1 = Inr (d, rx2) \<Longrightarrow>
    is_blend r \<longrightarrow> rr_prefix r' = [] \<Longrightarrow> length (rr_fill r') \<le> rp_max_context_len (rx_pool (ks_cache s)) \<Longrightarrow>
    kv_step cf s (s\<lparr>ks_cache := rx2, ks_admitted := ks_admitted s @ [r']\<rparr>)"
| extend: "alloc_for_extend token_ops triton junk (ks_admitted s) (PrefixCache cf (ks_cache s)) = Inr ((out, rows), PrefixCache cf rx') \<Longrightarrow>
    length ts = length (ks_admitted s) \<Longrightarrow>
    kv_step cf s \<lparr>ks_cache = rx', ks_admitted = [], ks_running = ks_running s @ map2 set_row_token (zip rows ts) (ks_admitted s)\<rparr>"
| share: "ks_running s = as @ r # bs \<Longrightarrow> rr_fill r = finished_toks r \<Longrightarrow> cache_unfinished_req cf token_free r (ks_cache s) = Inr (r', rx') \<Longrightarrow>
    kv_step cf s (s\<lparr>ks_cache := rx', ks_running := as @ r' # bs\<rparr>)"
| decode: "alloc_for_decode token_ops 1 (map rr_pool_idx (ks_running s)) (map kv_len (ks_running s)) None (PrefixCache cf (ks_cache s)) =
      Inr (out, PrefixCache cf rx') \<Longrightarrow> length ts = length (ks_running s) \<Longrightarrow>
    kv_step cf s (s\<lparr>ks_cache := rx', ks_running := map2 add_token ts (ks_running s)\<rparr>)"
| make_room: "evict_from_tree_cache token_ops n (PrefixCache cf (ks_cache s)) = Inr (PrefixCache cf rx') \<Longrightarrow> kv_step cf s (s\<lparr>ks_cache := rx'\<rparr>)"
| finish: "ks_running s = as @ r # bs \<Longrightarrow> cache_finished_req cf token_free is_insert r (ks_cache s) (w :: unit world) = Inr (rx', w') \<Longrightarrow>
    kv_step cf s (s\<lparr>ks_cache := rx', ks_running := as @ bs\<rparr>)"

definition new_kv_system :: "cache_config \<Rightarrow> nat \<Rightarrow> bool \<Rightarrow> nat \<Rightarrow> nat \<Rightarrow> token_allocator radix_cache \<Rightarrow> kv_system" where
  "new_kv_system cf n need_sort num_rows max_len rx0 =
     \<lparr>ks_cache = radix_reset cf (rx0\<lparr>rx_alloc := new_token_allocator n need_sort, rx_pool := new_req_pool num_rows max_len\<rparr>),
      ks_admitted = [], ks_running = []\<rparr>"

section \<open>The invariant\<close>

definition held :: "token_allocator radix_cache \<Rightarrow> radix_req list \<Rightarrow> nat multiset" where
  "held rx rs = filter_mset (\<lambda>n. n \<noteq> te_root (rx_env rx)) (mset (map rr_last_node rs))"

definition ready :: "token_allocator radix_cache \<Rightarrow> radix_req \<Rightarrow> bool" where
  "ready rx r \<longleftrightarrow> (is_blend r \<longrightarrow> rr_prefix r = []) \<and> rr_fill r = rr_origin r @ rr_output r \<and> req_fits (rx_pool rx) r \<and>
     spells (rx_root rx) (rr_last_node r) (req_key r (take (length (rr_prefix r)) (rr_fill r))) (rr_prefix r)"

definition decoding :: "token_allocator radix_cache \<Rightarrow> radix_req \<Rightarrow> bool" where
  "decoding rx r \<longleftrightarrow> (is_blend r \<longrightarrow> rr_prefix r = []) \<and> rr_output r \<noteq> [] \<and> owns r (finished_toks r) rx"

text \<open>The slots of a running request that it does not share with the tree.\<close>

definition own_slots :: "token_allocator radix_cache \<Rightarrow> radix_req \<Rightarrow> int list" where
  "own_slots rx r = drop (length (rr_prefix r)) (req_row r (finished_toks r) rx)"

definition kv_inv :: "cache_config \<Rightarrow> int multiset \<Rightarrow> kv_system \<Rightarrow> bool" where
  "kv_inv cf all_kv s \<longleftrightarrow>
     radix_inv cf (held (ks_cache s) (ks_admitted s @ ks_running s)) (ks_cache s) \<and> alloc_ok (rx_alloc (ks_cache s)) \<and>
     rows_ok (rx_pool (ks_cache s)) (map rr_pool_idx (ks_running s)) \<and>
     list_all (ready (ks_cache s)) (ks_admitted s) \<and> list_all (decoding (ks_cache s)) (ks_running s) \<and>
     token_avail (rx_alloc (ks_cache s)) + tree_slots (rx_root (ks_cache s)) + mset (concat (map (own_slots (ks_cache s)) (ks_running s))) = all_kv"

lemma held_append: "held rx (as @ r # bs) = holding rx (rr_last_node r) (held rx (as @ bs))"
  by (simp add: held_def holding_def)

lemma held_root: "te_root (rx_env rx') = te_root (rx_env rx) \<Longrightarrow> held rx' rs = held rx rs"
  by (simp add: held_def)

lemma in_held: "r \<in> set rs \<Longrightarrow> rr_last_node r \<in># held rx rs \<or> rr_last_node r = te_root (rx_env rx)"
  by (auto simp: held_def)

text \<open>Only the empty key ends at the root.\<close>

lemma spells_root: "spells t n key vs \<Longrightarrow> n = ni_id (info t) \<Longrightarrow> once (node_ids t) \<Longrightarrow> rk_tokens key = [] \<and> vs = []"
proof -
  assume a: "spells t n key vs" "n = ni_id (info t)" "once (node_ids t)"
  from a(1) show ?thesis
  proof (cases rule: spells.cases)
    case (there k c rest vs')
    obtain i cs where t: "t = RNode i cs" by (cases t)
    have kc: "(k, c) \<in> set cs" using there(2) by (simp add: t)
    have "ni_id i \<notin># node_ids c" using kid_once [of i cs "(k, c)"] a(3) kc by (simp add: t)
    then show ?thesis using spells_id [OF there(5)] a(2) by (simp add: t)
  qed simp
qed

lemma spells_held:
  assumes "radix_inv cf H rx" "radix_inv cf H' rx'" "same_held H rx rx'" "n \<in># H \<or> n = te_root (rx_env rx)" "spells (rx_root rx) n key vs"
  shows "spells (rx_root rx') n key vs"
proof (cases "n \<in># H")
  case True
  then show ?thesis using assms(3,5) by (simp add: same_held_def keeps_def)
next
  case False
  have r: "ni_id (info (rx_root rx)) = te_root (rx_env rx)" "ni_id (info (rx_root rx')) = te_root (rx_env rx)"
    using assms(1,2,3) by (simp_all add: radix_inv_def same_held_def)
  have "rk_tokens key = [] \<and> vs = []" using spells_root [OF assms(5)] False assms(4) r radix_inv_once [OF assms(1)] by simp
  then show ?thesis using spells.here [of key "rx_root rx'"] r False assms(4) by simp
qed

lemma ready_held:
  assumes "radix_inv cf H rx" "radix_inv cf H' rx'" "same_held H rx rx'" "rr_last_node r \<in># H \<or> rr_last_node r = te_root (rx_env rx)"
    and "rp_max_context_len (rx_pool rx') = rp_max_context_len (rx_pool rx)" "ready rx r"
  shows "ready rx' r"
  using assms(6) spells_held [OF assms(1-4)] unfolding ready_def req_fits_def assms(5) by blast

lemma decoding_held:
  assumes "radix_inv cf H rx" "radix_inv cf H' rx'" "same_held H rx rx'" "rr_last_node r \<in># H \<or> rr_last_node r = te_root (rx_env rx)"
    and "rp_table (rx_pool rx') ! rr_pool_idx r = rp_table (rx_pool rx) ! rr_pool_idx r"
    and "length (rp_table (rx_pool rx')) = length (rp_table (rx_pool rx))" "decoding rx r"
  shows "decoding rx' r" "own_slots rx' r = own_slots rx r"
proof -
  have row: "req_row r toks rx' = req_row r toks rx" for toks using assms(5) by (simp add: req_row_take)
  show "own_slots rx' r = own_slots rx r" by (simp add: own_slots_def row)
  show "decoding rx' r" using assms(6,7) spells_held [OF assms(1-4)] by (auto simp: decoding_def owns_def row)
qed

section \<open>Admission\<close>

lemma req_key_upto: "k \<le> m \<Longrightarrow> key_upto k (req_key r (take m toks)) = req_key r (take k toks)"
  by (simp add: key_upto_def req_key_def take_map min_def)

lemma init_next_round_correct:
  assumes inv: "radix_inv cf H rx" and plain: "cf_page cf = 1" "\<not> cf_eagle cf"
  shows "\<exists>vs n rx'. init_next_round_input cf lp r rx =
      Inr (r\<lparr>rr_fill := rr_origin r @ rr_output r, rr_prefix := vs, rr_last_node := n, rr_last_matched := int (length vs)\<rparr>, rx') \<and>
    length vs \<le> length (rr_origin r @ rr_output r) \<and>
    spells (rx_root rx') n (req_key r (take (length vs) (rr_origin r @ rr_output r))) vs \<and>
    radix_inv cf H rx' \<and> keeps (\<lambda>_. True) (rx_root rx) (rx_root rx') \<and> rx_alloc rx' = rx_alloc rx \<and> rx_pool rx' = rx_pool rx \<and>
    te_root (rx_env rx') = te_root (rx_env rx) \<and> tree_slots (rx_root rx') = tree_slots (rx_root rx)"
proof -
  let ?fill = "rr_origin r @ rr_output r"
  let ?m = "max (case lp of Some n \<Rightarrow> min (int (length ?fill) - 1) n | None \<Rightarrow> int (length ?fill) - 1) 0"
  have m: "0 \<le> ?m" "nat ?m \<le> length ?fill" by (auto split: option.splits)
  let ?k = "req_key r (take (nat ?m) ?fill)"
  have key: "\<lparr>rk_tokens = map Tok (py_slice ?fill 0 ?m), rk_extra = rr_extra r\<rparr> = ?k"
    using m(1) by (simp only: req_key_def py_slice_nonneg) simp
  from match_prefix_correct [OF inv, of ?k "\<lambda>_. True"] obtain n rx' where
    a: "match_prefix cf ?k rx = Inr (cached cf rx ?k, n, rx')" "radix_inv cf H rx'"
    "spells (rx_root rx') n (key_upto (length (cached cf rx ?k)) ?k) (cached cf rx ?k)" "keeps (\<lambda>_. True) (rx_root rx) (rx_root rx')"
    "rx_alloc rx' = rx_alloc rx" "rx_pool rx' = rx_pool rx" "te_root (rx_env rx') = te_root (rx_env rx)" "tree_slots (rx_root rx') = tree_slots (rx_root rx)"
    unfolding search_plain [OF plain] by blast
  have "tree_ok (Suc 0) (rx_root rx)" using inv plain(1) by (simp add: radix_inv_def)
  from lookup_length [OF this req_key_ok [of r "take (nat ?m) ?fill"]] have "length (cached cf rx ?k) \<le> length (take (nat ?m) ?fill)"
    using plain(1) by (simp add: cached_def req_key_def key_len_def)
  then have l: "length (cached cf rx ?k) \<le> nat ?m" "length (cached cf rx ?k) \<le> length ?fill"
    unfolding length_take [of _ ?fill] by (simp_all only: min.bounded_iff)
  have "init_next_round_input cf lp r rx = Inr (r\<lparr>rr_fill := ?fill, rr_prefix := cached cf rx ?k, rr_last_node := n,
      rr_last_matched := int (length (cached cf rx ?k))\<rparr>, rx')"
    unfolding init_next_round_input_def Let_def key a(1) by simp
  moreover have "spells (rx_root rx') n (req_key r (take (length (cached cf rx ?k)) ?fill)) (cached cf rx ?k)"
    using a(3) unfolding req_key_upto [OF l(1)] .
  ultimately show ?thesis using a(2,4-8) l(2) by blast
qed

lemma same_held_all: "keeps (\<lambda>_. True) (rx_root rx) (rx_root rx') \<Longrightarrow> te_root (rx_env rx') = te_root (rx_env rx) \<Longrightarrow> same_held H rx rx'"
  by (simp add: same_held_def keeps_def)

text \<open>Everything about requests that do not take part in a step.\<close>

lemma others_held:
  assumes "kv_inv cf all_kv s" "radix_inv cf H' rx'" "same_held H (ks_cache s) rx'"
    and H: "\<forall>r \<in> set as \<union> set bs. rr_last_node r \<in># H \<or> rr_last_node r = te_root (rx_env (ks_cache s))" and inv: "radix_inv cf H (ks_cache s)"
    and sub: "set as \<subseteq> set (ks_admitted s)" "set bs \<subseteq> set (ks_running s)"
    and pool: "rp_max_context_len (rx_pool rx') = rp_max_context_len (rx_pool (ks_cache s))"
      "\<forall>r \<in> set bs. rp_table (rx_pool rx') ! rr_pool_idx r = rp_table (rx_pool (ks_cache s)) ! rr_pool_idx r"
      "length (rp_table (rx_pool rx')) = length (rp_table (rx_pool (ks_cache s)))"
  shows "list_all (ready rx') as \<and> list_all (decoding rx') bs \<and> map (own_slots rx') bs = map (own_slots (ks_cache s)) bs"
proof (intro conjI)
  have old: "\<forall>r \<in> set as. ready (ks_cache s) r" "\<forall>r \<in> set bs. decoding (ks_cache s) r"
    using assms(1) sub by (auto simp: kv_inv_def list_all_iff)
  show "list_all (ready rx') as" using ready_held [OF inv assms(2,3) _ pool(1)] H old(1) by (auto simp: list_all_iff)
  show "list_all (decoding rx') bs" using decoding_held(1) [OF inv assms(2,3) _ _ pool(3)] H old(2) pool(2) by (auto simp: list_all_iff)
  show "map (own_slots rx') bs = map (own_slots (ks_cache s)) bs" using decoding_held(2) [OF inv assms(2,3) _ _ pool(3)] H old(2) pool(2) by auto
qed

lemma admit_inv:
  assumes "kv_inv cf all_kv s" and plain: "cf_page cf = 1" "\<not> cf_eagle cf"
    and step: "init_next_round_input cf lp r (ks_cache s) = Inr (r', rx1)" "inc_lock_ref cf (rr_last_node r') rx1 = Inr (d, rx2)"
      "is_blend r \<longrightarrow> rr_prefix r' = []" "length (rr_fill r') \<le> rp_max_context_len (rx_pool (ks_cache s))"
  shows "kv_inv cf all_kv (s\<lparr>ks_cache := rx2, ks_admitted := ks_admitted s @ [r']\<rparr>)"
proof -
  let ?rx = "ks_cache s" and ?H = "held (ks_cache s) (ks_admitted s @ ks_running s)"
  have inv: "radix_inv cf ?H ?rx" using assms(1) by (simp add: kv_inv_def)
  from init_next_round_correct [OF inv plain, of lp r] step(1) obtain vs n where
    r': "r' = r\<lparr>rr_fill := rr_origin r @ rr_output r, rr_prefix := vs, rr_last_node := n, rr_last_matched := int (length vs)\<rparr>"
    and a: "length vs \<le> length (rr_origin r @ rr_output r)" "spells (rx_root rx1) n (req_key r (take (length vs) (rr_origin r @ rr_output r))) vs"
    "radix_inv cf ?H rx1" "keeps (\<lambda>_. True) (rx_root ?rx) (rx_root rx1)" "rx_alloc rx1 = rx_alloc ?rx" "rx_pool rx1 = rx_pool ?rx"
    "te_root (rx_env rx1) = te_root (rx_env ?rx)" "tree_slots (rx_root rx1) = tree_slots (rx_root ?rx)" by auto
  have n: "n \<in># node_ids (rx_root rx1)" using spells_id [OF a(2)] .
  from inc_lock_correct [OF a(3) n] step(2) obtain b: "radix_inv cf (holding rx1 n ?H) rx2" "alike (rx_root rx1) (rx_root rx2)"
    "rx_alloc rx2 = rx_alloc rx1" "rx_pool rx2 = rx_pool rx1" "te_root (rx_env rx2) = te_root (rx_env rx1)" by (auto simp: r')
  have k: "keeps (\<lambda>_. True) (rx_root ?rx) (rx_root rx2)" "keeps (\<lambda>_. True) (rx_root rx1) (rx_root rx2)"
    using alike_keeps [OF b(2)] a(4) by (meson keeps_trans)+
  have root: "te_root (rx_env rx2) = te_root (rx_env ?rx)" using a(7) b(5) by simp
  note o = others_held [OF assms(1) b(1) same_held_all [OF k(1) root] _ inv, of "ks_admitted s" "ks_running s"]
  have o: "list_all (ready rx2) (ks_admitted s) \<and> list_all (decoding rx2) (ks_running s) \<and>
      map (own_slots rx2) (ks_running s) = map (own_slots ?rx) (ks_running s)"
    using in_held [of _ "ks_admitted s @ ks_running s" ?rx] a(6) b(4) by (intro o) auto
  have "spells (rx_root rx2) n (req_key r (take (length vs) (rr_origin r @ rr_output r))) vs" using k(2) a(2) by (simp add: keeps_def)
  then have "ready rx2 r'" using step(3,4) a(1,6) b(4) by (simp add: ready_def r' req_fits_def is_blend_def req_key_def)
  moreover have "holding rx1 n ?H = held rx2 ((ks_admitted s @ [r']) @ ks_running s)"
    using held_append [of rx2 "ks_admitted s" r' "ks_running s"] held_root [OF root] root a(7) by (simp add: r' holding_def)
  ultimately show ?thesis
    using assms(1) b(1,3,4) a(5,6,8) alike_slots [OF b(2)] o by (simp add: kv_inv_def del: map_eq_conv)
qed

section \<open>A batch\<close>

lemma started_toks: "finished_toks (set_row_token rt r) = rr_origin r @ rr_output r"
  by (simp add: finished_toks_def set_row_token_def finished_len_def)

lemma extend_inv:
  assumes "kv_inv cf all_kv s" and plain: "cf_page cf = 1"
    and step: "alloc_for_extend token_ops triton junk (ks_admitted s) (PrefixCache cf (ks_cache s)) = Inr ((out, rows), PrefixCache cf rx')"
      "length ts = length (ks_admitted s)"
  shows "kv_inv cf all_kv \<lparr>ks_cache = rx', ks_admitted = [], ks_running = ks_running s @ map2 set_row_token (zip rows ts) (ks_admitted s)\<rparr>"
proof -
  let ?rx = "ks_cache s" and ?H = "held (ks_cache s) (ks_admitted s @ ks_running s)" and ?used = "map rr_pool_idx (ks_running s)" and ?A = "ks_admitted s"
  have i: "radix_inv cf ?H ?rx" "alloc_ok (rx_alloc ?rx)" "rows_ok (rx_pool ?rx) ?used" "list_all (ready ?rx) ?A"
    using assms(1) by (simp_all add: kv_inv_def)
  have "list_all (req_fits (rx_pool ?rx)) ?A" using i(4) by (auto simp: list_all_iff ready_def)
  from alloc_for_extend_correct [OF i(1,2) plain i(3) this, of triton junk] step(1) obtain news where
    b: "batch_extended cf ?H ?used ?A ?rx rows news rx'" by (auto split: if_splits)
  note b = b [unfolded batch_extended_def]
  let ?new = "map2 set_row_token (zip rows ts) ?A"
  have len: "length rows = length ?A" "length news = length ?A" using b by blast+
  have idx: "map rr_pool_idx ?new = rows" using len step(2) by (intro nth_equalityI) (simp_all add: set_row_token_def)
  have last: "map rr_last_node ?new = map rr_last_node ?A" using len step(2) by (intro nth_equalityI) (simp_all add: set_row_token_def)
  have root: "te_root (rx_env rx') = te_root (rx_env ?rx)" using b by (simp add: same_held_def)
  have "held rx' (ks_running s @ ?new) = ?H" unfolding held_def map_append last root by (simp add: union_commute)
  moreover have rows': "set rows \<inter> set ?used = {}" "set rows \<subseteq> {..<length (rp_table (rx_pool rx'))}"
    using b by (auto simp: rows_ok_def)
  have o: "list_all (ready rx') [] \<and> list_all (decoding rx') (ks_running s) \<and> map (own_slots rx') (ks_running s) = map (own_slots ?rx) (ks_running s)"
    using b rows'(1) in_held [of _ "?A @ ks_running s" ?rx]
    by (intro others_held [OF assms(1) _ _ _ i(1), where as = "[]"]) auto
  moreover have one: "decoding rx' (?new ! k) \<and> own_slots rx' (?new ! k) = news ! k" if k: "k < length ?A" for k
  proof -
    let ?r = "?A ! k" and ?r' = "set_row_token (rows ! k, ts ! k) (?A ! k)"
    have n: "?new ! k = ?r'" using k len step(2) by simp
    have rd: "ready ?rx ?r" using i(4) k by (simp add: list_all_length)
    then have fill: "rr_fill ?r = rr_origin ?r @ rr_output ?r" "length (rr_prefix ?r) \<le> length (rr_fill ?r)" by (auto simp: ready_def req_fits_def)
    have t: "finished_toks ?r' = rr_fill ?r" by (simp only: started_toks fill(1))
    have row: "take (length (rr_fill ?r)) (rp_table (rx_pool rx') ! (rows ! k)) = rr_prefix ?r @ news ! k" "length (news ! k) = length (rr_fill ?r) - length (rr_prefix ?r)"
      using b k by blast+
    have rr: "req_row ?r' (finished_toks ?r') rx' = rr_prefix ?r @ news ! k" unfolding req_row_take t using row(1) by (simp add: set_row_token_def)
    have "rows ! k \<in> set rows" using k len by simp
    then have idx: "rows ! k < length (rp_table (rx_pool rx'))" using rows'(2) by auto
    have "rr_last_node ?r \<in># ?H \<or> rr_last_node ?r = te_root (rx_env ?rx)" using in_held [of ?r "?A @ ks_running s" ?rx] k by simp
    from spells_held [OF i(1) _ _ this] b rd have
      "spells (rx_root rx') (rr_last_node ?r) (req_key ?r (take (length (rr_prefix ?r)) (rr_fill ?r))) (rr_prefix ?r)" by (auto simp: ready_def)
    then have "owns ?r' (finished_toks ?r') rx'"
      using idx fill(2) row(2) rr unfolding owns_def rr t by (simp add: set_row_token_def req_key_def)
    moreover have "own_slots rx' ?r' = news ! k" unfolding own_slots_def rr by (simp add: set_row_token_def)
    ultimately show ?thesis using rd unfolding n by (simp add: decoding_def ready_def is_blend_def set_row_token_def)
  qed
  moreover have "map (own_slots rx') ?new = news" using one len step(2) by (intro nth_equalityI) simp_all
  moreover have "list_all (decoding rx') ?new" using one len step(2) by (simp only: list_all_length) simp
  moreover have "rows_ok (rx_pool rx') (?used @ rows)" "radix_inv cf ?H rx'" "alloc_ok (rx_alloc rx')"
    using b by blast+
  moreover have "token_avail (rx_alloc rx') + tree_slots (rx_root rx') + mset (concat (map (own_slots ?rx) (ks_running s) @ news)) = all_kv"
  proof -
    have "token_avail (rx_alloc rx') + mset (concat news) + tree_slots (rx_root rx') = token_avail (rx_alloc ?rx) + tree_slots (rx_root ?rx)" using b by blast
    moreover have "token_avail (rx_alloc ?rx) + tree_slots (rx_root ?rx) + mset (concat (map (own_slots ?rx) (ks_running s))) = all_kv"
      using assms(1) by (simp add: kv_inv_def)
    ultimately show ?thesis by (simp add: ac_simps) (metis (no_types, lifting) add.assoc add.commute)
  qed
  ultimately show ?thesis unfolding kv_inv_def by (simp add: idx del: map_map map_eq_conv)
qed

section \<open>A decode step\<close>

text \<open>One token into each of different rows.\<close>

lemma write_tokens_effect:
  "write_tokens (zip rows (zip locs vs)) t = Inr t' \<Longrightarrow> distinct rows \<Longrightarrow> length locs = length rows \<Longrightarrow> length vs = length rows \<Longrightarrow>
   list_all (\<lambda>l. 0 \<le> l) locs \<Longrightarrow> set rows \<subseteq> {..<length t} \<Longrightarrow>
   map length t' = map length t \<and> (\<forall>k. k \<notin> set rows \<longrightarrow> t' ! k = t ! k) \<and>
   (\<forall>i < length rows. nat (locs ! i) < length (t ! (rows ! i)) \<and> t' ! (rows ! i) = (t ! (rows ! i))[nat (locs ! i) := vs ! i])"
proof (induction rows arbitrary: locs vs t)
  case (Cons r rows)
  obtain l ls v vt where lv: "locs = l # ls" "vs = v # vt" using Cons.prems(3,4) by (cases locs; cases vs) auto
  have r: "r < length t" "0 \<le> l" using Cons.prems(5,6) by (simp_all add: lv)
  then obtain row' where w: "py_set (t ! r) l v = Inr row'" "write_tokens (zip rows (zip ls vt)) (t[r := row']) = Inr t'"
    using Cons.prems(1) by (auto simp: lv rbind_Inr_iff)
  have row': "nat l < length (t ! r)" "row' = (t ! r)[nat l := v]" using w(1) r(2) by (auto simp: py_set_def py_idx_def Let_def split: if_splits)
  note IH = Cons.IH [OF w(2)]
  have ih: "map length t' = map length (t[r := row'])" "\<forall>k. k \<notin> set rows \<longrightarrow> t' ! k = t[r := row'] ! k"
    "\<forall>i < length rows. nat (ls ! i) < length (t[r := row'] ! (rows ! i)) \<and> t' ! (rows ! i) = (t[r := row'] ! (rows ! i))[nat (ls ! i) := vt ! i]"
    using IH Cons.prems by (simp_all add: lv)
  have "map length (t[r := row']) = map length t" using r(1) by (simp add: row'(2) map_update list_update_same_conv)
  moreover have "nat ((l # ls) ! i) < length (t ! ((r # rows) ! i)) \<and> t' ! ((r # rows) ! i) = (t ! ((r # rows) ! i))[nat ((l # ls) ! i) := (v # vt) ! i]"
    if i: "i < length (r # rows)" for i
  proof (cases i)
    case 0
    have "t' ! r = row'" using ih(2) Cons.prems(2) r(1) by simp
    then show ?thesis using row' 0 by simp
  next
    case (Suc j)
    then have "rows ! j \<noteq> r" "j < length rows" using i Cons.prems(2) nth_mem [of j rows] by auto
    then show ?thesis using ih(3) [rule_format, of j] by (simp add: Suc nth_list_update_neq [OF not_sym])
  qed
  ultimately show ?case using ih(1,2) unfolding lv by auto
qed simp

lemma write_tokens_runs:
  "distinct rows \<Longrightarrow> length locs = length rows \<Longrightarrow> length vs = length rows \<Longrightarrow>
   \<forall>i < length rows. rows ! i < length t \<and> 0 \<le> locs ! i \<and> locs ! i < int (length (t ! (rows ! i))) \<Longrightarrow>
   \<exists>t'. write_tokens (zip rows (zip locs vs)) t = Inr t'"
proof (induction rows arbitrary: locs vs t)
  case (Cons r rows)
  obtain l ls v vt where lv: "locs = l # ls" "vs = v # vt" using Cons.prems(2,3) by (cases locs; cases vs) auto
  have r: "r < length t" "0 \<le> l" "l < int (length (t ! r))" using Cons.prems(4) by (auto simp: lv dest: spec [of _ 0])
  have "rows ! i < length (t[r := (t ! r)[nat l := v]]) \<and> 0 \<le> ls ! i \<and> ls ! i < int (length (t[r := (t ! r)[nat l := v]] ! (rows ! i)))"
    if "i < length rows" for i
    using Cons.prems(4) [rule_format, of "Suc i"] that Cons.prems(1) r(1) by (cases "rows ! i = r") (auto simp: lv)
  then show ?case using Cons.IH [of ls vt "t[r := (t ! r)[nat l := v]]"] Cons.prems(1,2,3) r by (simp add: lv)
qed simp

lemma added_toks: "rr_output r \<noteq> [] \<Longrightarrow> length (finished_toks (add_token t r)) = Suc (length (finished_toks r)) \<and>
  take (length (finished_toks r)) (finished_toks (add_token t r)) = finished_toks r"
proof -
  assume "rr_output r \<noteq> []"
  then obtain b l where o: "rr_output r = b @ [l]" by (cases "rr_output r" rule: rev_cases) auto
  have "finished_toks r = rr_origin r @ b" "finished_toks (add_token t r) = rr_origin r @ b @ [l]"
    by (simp_all add: finished_toks_def finished_len_def add_token_def o nat_add_distrib)
  then show ?thesis by simp
qed

lemma decode_inv:
  assumes "kv_inv cf all_kv s" and plain: "cf_page cf = 1"
    and step: "alloc_for_decode token_ops 1 (map rr_pool_idx (ks_running s)) (map kv_len (ks_running s)) None (PrefixCache cf (ks_cache s)) =
      Inr (out, PrefixCache cf rx')" "length ts = length (ks_running s)"
  shows "kv_inv cf all_kv (s\<lparr>ks_cache := rx', ks_running := map2 add_token ts (ks_running s)\<rparr>)"
proof -
  let ?rx = "ks_cache s" and ?R = "ks_running s" and ?A = "ks_admitted s" and ?rows = "map rr_pool_idx (ks_running s)"
  let ?H = "held ?rx (?A @ ?R)" and ?n = "length ?R"
  have i: "radix_inv cf ?H ?rx" "alloc_ok (rx_alloc ?rx)" "rows_ok (rx_pool ?rx) ?rows" "list_all (decoding ?rx) ?R"
    using assms(1) by (simp_all add: kv_inv_def)
  note a = alloc_slots_exact [OF i(1,2), of ?n]
  obtain rx1 p where b: "alloc_token_slots token_ops ?n False (PrefixCache cf ?rx) = Inr ((out, None), PrefixCache cf rx1)" "length out = ?n"
    "radix_inv cf ?H rx1" "alloc_ok (rx_alloc rx1)"
    "token_avail (rx_alloc rx1) + mset out + tree_slots (rx_root rx1) = token_avail (rx_alloc ?rx) + tree_slots (rx_root ?rx)"
    "same_held ?H ?rx rx1" "rx_pool rx1 = rx_pool ?rx" "pool_scatter ?rows (map kv_len ?R) out (rx_pool rx1) = Inr p" "rx' = rx1\<lparr>rx_pool := p\<rparr>"
    using step(1) a plain by (auto simp: alloc_for_decode_def rbind_Inr_iff split: if_splits)
  then obtain t' where t': "write_tokens (zip ?rows (zip (map kv_len ?R) out)) (rp_table (rx_pool ?rx)) = Inr t'" "p = rx_pool ?rx\<lparr>rp_table := t'\<rparr>"
    by (auto simp: pool_scatter_def rbind_Inr_iff)
  have d: "distinct ?rows" "set ?rows \<subseteq> {..<length (rp_table (rx_pool ?rx))}" using i(3) by (auto simp: rows_ok_def)
  have e: "map length t' = map length (rp_table (rx_pool ?rx))" "\<forall>k. k \<notin> set ?rows \<longrightarrow> t' ! k = rp_table (rx_pool ?rx) ! k"
    "\<forall>k < ?n. nat (kv_len (?R ! k)) < length (rp_table (rx_pool ?rx) ! rr_pool_idx (?R ! k)) \<and>
       t' ! rr_pool_idx (?R ! k) = (rp_table (rx_pool ?rx) ! rr_pool_idx (?R ! k))[nat (kv_len (?R ! k)) := out ! k]"
    using write_tokens_effect [OF t'(1) d(1) _ _ _ d(2)] b(2) by (auto simp: list_all_length kv_len_def)
  have lt: "length t' = length (rp_table (rx_pool ?rx))" using arg_cong [OF e(1), of length] by simp
  have inv': "radix_inv cf ?H rx'" "same_held ?H ?rx rx'" using b(3,6) by (simp_all add: b(9) same_held_def)
  have root: "te_root (rx_env rx') = te_root (rx_env ?rx)" using inv'(2) by (simp add: same_held_def)
  let ?new = "map2 add_token ts ?R"
  have one: "decoding rx' (?new ! k) \<and> own_slots rx' (?new ! k) = own_slots ?rx (?R ! k) @ [out ! k]" if k: "k < ?n" for k
  proof -
    let ?r = "?R ! k" and ?r' = "add_token (ts ! k) (?R ! k)"
    let ?row = "rp_table (rx_pool ?rx) ! rr_pool_idx ?r" and ?L = "length (finished_toks ?r)"
    have n: "?new ! k = ?r'" using k step(2) by simp
    have dc: "decoding ?rx ?r" using i(4) k by (simp add: list_all_length)
    then have o: "rr_output ?r \<noteq> []" "owns ?r (finished_toks ?r) ?rx" by (simp_all add: decoding_def)
    note ad = added_toks [OF o(1), of "ts ! k"]
    have p: "length (rr_prefix ?r) \<le> ?L" "?L < length ?row" using o(2) e(3) k by (auto simp: owns_def kv_len_def)
    have row: "req_row ?r (finished_toks ?r) ?rx = take ?L ?row" by (simp add: req_row_take)
    have "rp_table (rx_pool rx') ! rr_pool_idx ?r' = ?row[?L := out ! k]" using e(3) k by (simp add: b(9) t'(2) kv_len_def add_token_def)
    then have row': "req_row ?r' (finished_toks ?r') rx' = take ?L ?row @ [out ! k]"
      using ad p(2) by (simp add: req_row_take take_Suc_conv_app_nth)
    have "rr_last_node ?r \<in># ?H \<or> rr_last_node ?r = te_root (rx_env ?rx)" using in_held [of ?r "?A @ ?R" ?rx] k by simp
    note sp = spells_held [OF i(1) inv' this]
    have pre: "take (length (rr_prefix ?r)) (finished_toks ?r') = take (length (rr_prefix ?r)) (finished_toks ?r)"
      using ad p(1) by (metis min.absorb1 take_take)
    have "owns ?r' (finished_toks ?r') rx'"
      using o(2) sp p row ad pre lt unfolding owns_def row' by (simp add: add_token_def req_key_def b(9) t'(2))
    moreover have "own_slots rx' ?r' = own_slots ?rx ?r @ [out ! k]" unfolding own_slots_def row' row using p by (simp add: add_token_def)
    ultimately show ?thesis using dc unfolding n by (simp add: decoding_def add_token_def is_blend_def)
  qed
  have len: "length ?new = ?n" using step(2) by simp
  have dec: "list_all (decoding rx') ?new" using one len by (simp only: list_all_length) simp
  have idx: "map rr_pool_idx ?new = ?rows" "map rr_last_node ?new = map rr_last_node ?R"
    using step(2) by (auto intro!: nth_equalityI simp: add_token_def)
  have "map (own_slots rx') ?new = map2 (\<lambda>xs x. xs @ [x]) (map (own_slots ?rx) ?R) out" using one len b(2) by (intro nth_equalityI) simp_all
  moreover have "mset (concat (map2 (\<lambda>xs x. xs @ [x]) xss xs)) = mset (concat xss) + mset xs" if "length xss = length xs" for xss and xs :: "int list"
    using that by (induction xss xs rule: list_induct2) (simp_all add: ac_simps)
  ultimately have own: "mset (concat (map (own_slots rx') ?new)) = mset (concat (map (own_slots ?rx) ?R)) + mset out" using b(2) by simp
  have ro: "rows_ok (rx_pool rx') ?rows"
  proof (rule rows_ok_move [OF i(3)])
    have "length row = rp_max_context_len (rx_pool ?rx)" if "row \<in> set t'" for row
    proof -
      have "length row \<in> set (map length t')" using that by simp
      then show ?thesis using i(3) unfolding e(1) by (auto simp: rows_ok_def pool_ok_def)
    qed
    then show "pool_ok (rx_pool rx')" by (simp add: b(9) t'(2) pool_ok_def)
  qed (simp_all add: b(9) t'(2) lt)
  have ad: "list_all (ready rx') ?A" using others_held [OF assms(1) inv' _ i(1), of ?A "[]"] in_held [of _ "?A @ ?R" ?rx] lt by (auto simp: b(9) t'(2))
  have hd: "held rx' (?A @ ?new) = ?H" by (simp add: held_def root idx(2) del: map_map)
  have "token_avail (rx_alloc ?rx) + tree_slots (rx_root ?rx) + mset (concat (map (own_slots ?rx) ?R)) = all_kv" using assms(1) by (simp add: kv_inv_def)
  then have cons: "token_avail (rx_alloc rx') + tree_slots (rx_root rx') + mset (concat (map (own_slots rx') ?new)) = all_kv"
    unfolding own b(5) [symmetric] by (simp add: b(9) ac_simps)
  have "alloc_ok (rx_alloc rx')" using b(4) by (simp add: b(9))
  then show ?thesis using inv'(1) ro ad dec cons by (simp add: kv_inv_def hd idx(1) del: map_map)
qed

text \<open>What the operations of the cache do with the allocator and the pool, whatever the tree is.\<close>

lemma same_alloc:
  "radix_insert cf key vs rx = Inr (n, rx') \<Longrightarrow> rx_alloc rx' = rx_alloc rx \<and> rx_pool rx' = rx_pool rx"
  "match_prefix cf key rx = Inr (us, m, rx') \<Longrightarrow> rx_alloc rx' = rx_alloc rx \<and> rx_pool rx' = rx_pool rx"
  "change_lock f cf m rx = Inr (d, rx') \<Longrightarrow> rx_alloc rx' = rx_alloc rx \<and> rx_pool rx' = rx_pool rx"
  by (auto simp: radix_insert_def match_prefix_def change_lock_def Let_def rbind_Inr_iff split: if_splits prod.splits option.splits)

lemma write_pool:
  assumes "req_pool_write idx a b vs p = Inr p'"
  shows "(pool_ok p \<longrightarrow> pool_ok p') \<and> length (rp_table p') = length (rp_table p) \<and> rp_max_context_len p' = rp_max_context_len p \<and>
    rp_free_slots p' = rp_free_slots p"
proof -
  let ?row = "rp_table p ! idx"
  let ?lo = "py_bound (length ?row) a" and ?hi = "max (py_bound (length ?row) a) (py_bound (length ?row) b)"
  obtain vs' where p': "p' = p\<lparr>rp_table := (rp_table p)[idx := take ?lo ?row @ vs' @ drop ?hi ?row]\<rparr>" "length vs' = ?hi - ?lo"
    using assms by (auto simp: req_pool_write_def Let_def split: if_splits)
  have "py_bound n k \<le> n" for n k by (simp add: py_bound_def nat_le_iff)
  then have "?hi \<le> length ?row" by simp
  then have "length (take ?lo ?row @ vs' @ drop ?hi ?row) = length ?row" by (simp add: p'(2))
  then obtain row' where r: "p' = p\<lparr>rp_table := (rp_table p)[idx := row']\<rparr>" "length row' = length ?row" using p'(1) by blast
  have "length row = rp_max_context_len p" if "pool_ok p" "row \<in> set ((rp_table p)[idx := row'])" for row
  proof (cases "idx < length (rp_table p)")
    case True
    then show ?thesis using that r(2) set_update_subset_insert [of "rp_table p" idx row'] by (auto simp: pool_ok_def)
  qed (use that in \<open>simp add: pool_ok_def list_update_beyond\<close>)
  then show ?thesis by (simp add: r(1) pool_ok_def)
qed

lemma unfinished_fields:
  assumes "cache_unfinished_req cf free r rx = Inr (r', rx')"
  shows "rr_origin r' = rr_origin r \<and> rr_output r' = rr_output r \<and> rr_fill r' = rr_fill r \<and> rr_style r' = rr_style r \<and>
    (\<exists>xs. rx_alloc rx' = free xs (rx_alloc rx) \<or> rx_alloc rx' = rx_alloc rx) \<and>
    (pool_ok (rx_pool rx) \<longrightarrow> pool_ok (rx_pool rx')) \<and> length (rp_table (rx_pool rx')) = length (rp_table (rx_pool rx)) \<and>
    rp_max_context_len (rx_pool rx') = rp_max_context_len (rx_pool rx)"
proof (cases "cf_disable cf \<or> is_blend r")
  case True
  then show ?thesis using assms by (auto simp: cache_unfinished_req_def)
next
  case False
  from assms show ?thesis
    unfolding cache_unfinished_req_def if_not_P [OF False] Let_def rbind_Inr_iff
    by (clarsimp simp: rbind_Inr_iff inc_lock_ref_def dec_lock_ref_def dest!: same_alloc write_pool) (auto simp: free_kv_def)
qed

section \<open>Sharing, eviction, and the end\<close>

lemma rows_other: "rows_ok p (map rr_pool_idx (as @ r # bs)) \<Longrightarrow> q \<in> set (as @ bs) \<Longrightarrow> rr_pool_idx q \<noteq> rr_pool_idx r"
proof -
  assume "rows_ok p (map rr_pool_idx (as @ r # bs))" "q \<in> set (as @ bs)"
  then have "rr_pool_idx r \<notin> rr_pool_idx ` set (as @ bs)" "rr_pool_idx q \<in> rr_pool_idx ` set (as @ bs)" by (auto simp: rows_ok_def image_Un)
  then show "rr_pool_idx q \<noteq> rr_pool_idx r" by metis
qed

lemma share_inv:
  assumes "kv_inv cf all_kv s" and plain: "cf_page cf = 1" "\<not> cf_eagle cf"
    and step: "ks_running s = as @ r # bs" "rr_fill r = finished_toks r" "cache_unfinished_req cf token_free r (ks_cache s) = Inr (r', rx')"
  shows "kv_inv cf all_kv (s\<lparr>ks_cache := rx', ks_running := as @ r' # bs\<rparr>)"
proof -
  let ?rx = "ks_cache s" and ?A = "ks_admitted s" and ?H = "held (ks_cache s) (ks_admitted s @ as @ bs)"
  have h: "held ?rx (?A @ ks_running s) = holding ?rx (rr_last_node r) ?H" using held_append [of ?rx "?A @ as" r bs] by (simp add: step(1))
  have i: "radix_inv cf (holding ?rx (rr_last_node r) ?H) ?rx" "alloc_ok (rx_alloc ?rx)" "rows_ok (rx_pool ?rx) (map rr_pool_idx (as @ r # bs))"
    "list_all (ready ?rx) ?A" "decoding ?rx r"
    using assms(1) unfolding kv_inv_def h by (simp_all add: step(1))
  have own: "owns r (rr_fill r) ?rx" "is_blend r \<longrightarrow> rr_prefix r = []" using i(5) by (simp_all add: decoding_def step(2))
  note u = token_kv.unfinished_any [OF i(1) own(1) plain, of "\<lambda>_. True", unfolded step(3)]
  then have u: "radix_inv cf (holding rx' (rr_last_node r') ?H) rx'" "owns r' (rr_fill r) rx'"
    "if is_blend r then r' = r \<and> rx' = ?rx else rr_prefix r' = req_row r' (rr_fill r) rx'"
    "rr_pool_idx r' = rr_pool_idx r"
    "token_avail (rx_alloc rx') + tree_slots (rx_root rx') + mset (drop (length (rr_prefix r')) (req_row r' (rr_fill r) rx')) =
      token_avail (rx_alloc ?rx) + tree_slots (rx_root ?rx) + mset (drop (length (rr_prefix r)) (req_row r (rr_fill r) ?rx))"
    "rp_free_slots (rx_pool rx') = rp_free_slots (rx_pool ?rx)" "keeps (\<lambda>_. True) (rx_root ?rx) (rx_root rx')"
    "\<forall>i. i \<noteq> rr_pool_idx r \<longrightarrow> rp_table (rx_pool rx') ! i = rp_table (rx_pool ?rx) ! i" by auto
  note f = unfinished_fields [OF step(3)]
  have t: "finished_toks r' = finished_toks r" using f by (simp add: finished_toks_def finished_len_def)
  have root: "te_root (rx_env rx') = te_root (rx_env ?rx)" using u(1,7) i(1) by (simp add: radix_inv_def keeps_def)
  have o: "list_all (ready rx') ?A \<and> list_all (decoding rx') (as @ bs) \<and> map (own_slots rx') (as @ bs) = map (own_slots ?rx) (as @ bs)"
  proof (rule others_held [OF assms(1) u(1) same_held_all [OF u(7) root] _ i(1)])
    show "\<forall>q \<in> set ?A \<union> set (as @ bs). rr_last_node q \<in># holding ?rx (rr_last_node r) ?H \<or> rr_last_node q = te_root (rx_env ?rx)"
      using in_held [of _ "?A @ ks_running s" ?rx] unfolding h by (auto simp: step(1))
    show "\<forall>q \<in> set (as @ bs). rp_table (rx_pool rx') ! rr_pool_idx q = rp_table (rx_pool ?rx) ! rr_pool_idx q"
      using u(8) rows_other [OF i(3)] by blast
  qed (use f step(1) in auto)
  have "is_blend r' \<longrightarrow> rr_prefix r' = []" using u(3) own(2) f by (auto simp: is_blend_def split: if_splits)
  then have "decoding rx' r'" using u(2) f i(5) t step(2) by (simp add: decoding_def)
  moreover have "held rx' (?A @ as @ r' # bs) = holding rx' (rr_last_node r') ?H"
    using held_append [of rx' "?A @ as" r' bs] held_root [OF root] by simp
  moreover have "rows_ok (rx_pool rx') (map rr_pool_idx (as @ r' # bs))"
    by (rule rows_ok_move [OF i(3)]) (use u(4,6) f i(3) in \<open>auto simp: rows_ok_def\<close>)
  moreover have "alloc_ok (rx_alloc rx')" using f i(2) token_free_ok by metis
  moreover have "token_avail (rx_alloc rx') + tree_slots (rx_root rx') + mset (concat (map (own_slots rx') (as @ r' # bs))) = all_kv"
  proof -
    let ?rest = "mset (concat (map (own_slots ?rx) (as @ bs)))"
    have moved: "token_avail (rx_alloc rx') + tree_slots (rx_root rx') + mset (own_slots rx' r') =
        token_avail (rx_alloc ?rx) + tree_slots (rx_root ?rx) + mset (own_slots ?rx r)"
      using u(5) by (simp add: own_slots_def t step(2))
    have rest: "mset (concat (map (own_slots rx') (as @ bs))) = ?rest" using o by metis
    have "token_avail (rx_alloc rx') + tree_slots (rx_root rx') + mset (concat (map (own_slots rx') (as @ r' # bs))) =
        token_avail (rx_alloc rx') + tree_slots (rx_root rx') + mset (own_slots rx' r') + mset (concat (map (own_slots rx') (as @ bs)))"
      by (simp add: ac_simps)
    also have "\<dots> = token_avail (rx_alloc ?rx) + tree_slots (rx_root ?rx) + mset (own_slots ?rx r) + ?rest"
      by (simp only: moved rest)
    also have "\<dots> = token_avail (rx_alloc ?rx) + tree_slots (rx_root ?rx) + mset (concat (map (own_slots ?rx) (as @ r # bs)))"
      by (simp add: ac_simps)
    also have "\<dots> = all_kv" using assms(1) by (simp add: kv_inv_def step(1))
    finally show ?thesis .
  qed
  ultimately show ?thesis
    using o u(1) unfolding kv_inv_def by (simp del: map_eq_conv)
qed

lemma finished_alloc:
  assumes "cache_finished_req cf free is_insert r rx w = Inr (rx', w')"
  shows "\<exists>xss. rx_alloc rx' = fold free xss (rx_alloc rx)"
proof (cases "cf_disable cf \<or> is_blend r")
  case True
  then have "rx_alloc rx' = fold free [req_tokens (rr_pool_idx r) (finished_len r) (rx_pool rx)] (rx_alloc rx)"
    using assms by (auto simp: cache_finished_req_def finish_uncached_def Let_def free_req_slot_def free_kv_def)
  then show ?thesis by blast
next
  case False
  from assms have "\<exists>xs ys. rx_alloc rx' = free ys (free xs (rx_alloc rx))"
    unfolding cache_finished_req_def if_not_P [OF False] Let_def rbind_Inr_iff dec_lock_ref_def
    by (clarsimp simp: free_kv_def free_req_slot_def rbind_Inr_iff split: if_splits dest!: same_alloc) metis+
  then obtain xs ys where "rx_alloc rx' = fold free [xs, ys] (rx_alloc rx)" by auto
  then show ?thesis by blast
qed

lemma finish_inv:
  assumes "kv_inv cf all_kv s" and plain: "cf_page cf = 1" "\<not> cf_eagle cf"
    and step: "ks_running s = as @ r # bs" "cache_finished_req cf token_free is_insert r (ks_cache s) w = Inr (rx', w')"
  shows "kv_inv cf all_kv (s\<lparr>ks_cache := rx', ks_running := as @ bs\<rparr>)"
proof -
  let ?rx = "ks_cache s" and ?A = "ks_admitted s" and ?H = "held (ks_cache s) (ks_admitted s @ as @ bs)"
  have h: "held ?rx (?A @ ks_running s) = holding ?rx (rr_last_node r) ?H" using held_append [of ?rx "?A @ as" r bs] by (simp add: step(1))
  have i: "radix_inv cf (holding ?rx (rr_last_node r) ?H) ?rx" "alloc_ok (rx_alloc ?rx)" "rows_ok (rx_pool ?rx) (map rr_pool_idx (as @ r # bs))"
    "list_all (ready ?rx) ?A" "decoding ?rx r"
    using assms(1) unfolding kv_inv_def h by (simp_all add: step(1))
  have own: "owns r (finished_toks r) ?rx" "is_blend r \<longrightarrow> rr_prefix r = []" using i(5) by (simp_all add: decoding_def)
  note u = token_kv.finished_any [OF i(1) own(1) plain own(2), of is_insert w "\<lambda>_. True", unfolded step(2)]
  then have u: "radix_inv cf ?H rx'"
    "token_avail (rx_alloc rx') + tree_slots (rx_root rx') = token_avail (rx_alloc ?rx) + tree_slots (rx_root ?rx) + mset (own_slots ?rx r)"
    "rx_pool rx' = req_pool_free (rr_pool_idx r) (rx_pool ?rx)" "keeps (\<lambda>_. True) (rx_root ?rx) (rx_root rx')" by (auto simp: own_slots_def)
  have root: "te_root (rx_env rx') = te_root (rx_env ?rx)" using u(1,4) i(1) by (simp add: radix_inv_def keeps_def)
  have o: "list_all (ready rx') ?A \<and> list_all (decoding rx') (as @ bs) \<and> map (own_slots rx') (as @ bs) = map (own_slots ?rx) (as @ bs)"
  proof (rule others_held [OF assms(1) u(1) same_held_all [OF u(4) root] _ i(1)])
    show "\<forall>q \<in> set ?A \<union> set (as @ bs). rr_last_node q \<in># holding ?rx (rr_last_node r) ?H \<or> rr_last_node q = te_root (rx_env ?rx)"
      using in_held [of _ "?A @ ks_running s" ?rx] unfolding h by (auto simp: step(1))
  qed (use step(1) in \<open>auto simp: u(3) req_pool_free_def\<close>)
  moreover have "held rx' (?A @ as @ bs) = ?H" using held_root [OF root] .
  moreover have "rows_ok (rx_pool rx') (map rr_pool_idx (as @ bs))"
    by (rule rows_ok_move [OF i(3)]) (use i(3) in \<open>auto simp: u(3) req_pool_free_def rows_ok_def pool_ok_def\<close>)
  moreover have "alloc_ok (rx_alloc rx')" using finished_alloc [OF step(2)] fold_token_free_ok [OF i(2)] by auto
  moreover have "token_avail (rx_alloc ?rx) + tree_slots (rx_root ?rx) + mset (concat (map (own_slots ?rx) (as @ r # bs))) = all_kv"
    using assms(1) by (simp add: kv_inv_def step(1))
  ultimately show ?thesis using u(1,2) unfolding kv_inv_def by (simp add: ac_simps del: map_eq_conv)
qed

lemma make_room_inv:
  assumes "kv_inv cf all_kv s" "evict_from_tree_cache token_ops n (PrefixCache cf (ks_cache s)) = Inr (PrefixCache cf rx')"
  shows "kv_inv cf all_kv (s\<lparr>ks_cache := rx'\<rparr>)"
proof -
  let ?rx = "ks_cache s" and ?A = "ks_admitted s" and ?R = "ks_running s"
  let ?H = "held ?rx (?A @ ?R)"
  have i: "radix_inv cf ?H ?rx" "alloc_ok (rx_alloc ?rx)" using assms(1) by (simp_all add: kv_inv_def)
  from evict_from_tree_correct [OF i, of n] assms(2) have e: "radix_inv cf ?H rx'" "alloc_ok (rx_alloc rx')"
    "token_avail (rx_alloc rx') + tree_slots (rx_root rx') = token_avail (rx_alloc ?rx) + tree_slots (rx_root ?rx)" "same_held ?H ?rx rx'" "rx_pool rx' = rx_pool ?rx"
    by auto
  have root: "te_root (rx_env rx') = te_root (rx_env ?rx)" using e(4) by (simp add: same_held_def)
  have o: "list_all (ready rx') ?A \<and> list_all (decoding rx') ?R \<and> map (own_slots rx') ?R = map (own_slots ?rx) ?R"
    using in_held [of _ "?A @ ?R" ?rx] by (intro others_held [OF assms(1) e(1,4) _ i(1)]) (auto simp: e(5))
  then show ?thesis using assms(1) e(1,2,3,5) held_root [OF root, of "?A @ ?R"] by (simp add: kv_inv_def del: map_eq_conv)
qed

section \<open>Reachable states\<close>

definition kv_reachable :: "cache_config \<Rightarrow> nat \<Rightarrow> kv_system \<Rightarrow> bool" where
  "kv_reachable cf n s \<longleftrightarrow>
     (\<exists>need_sort num_rows max_len rx0. (kv_step cf)\<^sup>*\<^sup>* (new_kv_system cf n need_sort num_rows max_len rx0) s)"

definition plain_cache :: "cache_config \<Rightarrow> bool" where
  "plain_cache cf \<longleftrightarrow> cf_page cf = 1 \<and> \<not> cf_eagle cf \<and> \<not> cf_disable cf"

lemma new_kv_inv: "plain_cache cf \<Longrightarrow> kv_inv cf (mset_set {1..int n}) (new_kv_system cf n need_sort num_rows max_len rx0)"
proof -
  assume p: "plain_cache cf"
  let ?rx = "radix_reset cf (rx0\<lparr>rx_alloc := new_token_allocator n need_sort, rx_pool := new_req_pool num_rows max_len\<rparr>)"
  have "radix_inv cf {#} ?rx" by (rule conjunct1 [OF reset_inv]) (use p in \<open>simp_all add: plain_cache_def\<close>)
  moreover have "tree_slots (rx_root ?rx) = {#}" "rx_alloc ?rx = new_token_allocator n need_sort" "rx_pool ?rx = new_req_pool num_rows max_len"
    by (simp_all add: radix_reset_def new_tree_node_def read_clock_def Let_def slots_RNode)
  moreover have "rows_ok (new_req_pool num_rows max_len) []" by (auto simp: new_req_pool_def rows_ok_def pool_ok_def)
  ultimately show ?thesis using new_token_allocator_ok [of n need_sort] by (simp add: kv_inv_def new_kv_system_def held_def)
qed

lemma step_kv_inv: "kv_step cf s s' \<Longrightarrow> plain_cache cf \<Longrightarrow> kv_inv cf all_kv s \<Longrightarrow> kv_inv cf all_kv s'"
  by (induction rule: kv_step.induct)
    (auto simp: plain_cache_def intro: admit_inv extend_inv share_inv decode_inv make_room_inv finish_inv)

lemma reachable_kv_inv:
  assumes "kv_reachable cf n s" "plain_cache cf"
  shows "kv_inv cf (mset_set {1..int n}) s"
proof -
  obtain ns rows len rx0 where r: "(kv_step cf)\<^sup>*\<^sup>* (new_kv_system cf n ns rows len rx0) s" using assms(1) by (auto simp: kv_reachable_def)
  show ?thesis using r
  proof (induction rule: rtranclp_induct)
    case base
    show ?case by (rule new_kv_inv [OF assms(2)])
  next
    case (step y z)
    show ?case by (rule step_kv_inv [OF step.hyps(2) assms(2) step.IH])
  qed
qed

section \<open>Property: who owns the slots\<close>

text \<open>C4: On the radix cache with prefix caching on, one slot per page and no EAGLE, the slots of the KV cache are conserved
  through the life of all ordinary requests and of the blend requests that match no cached prefix when they are admitted.
  In every state reached by their admissions, batches, decode steps, sharing, evictions and ends, every slot is exactly one
  of: free, cached in the tree, or own slot of one running request, and no two requests have the same row. The row of a
  running request holds the slots the tree has cached for the prefix it matched, then its own. With no request left, nothing
  is protected and every slot is free or evictable. (A blend request that matches a cached prefix is outside of these steps:
  its end frees cached slots, \<open>RadixProps.blend_request_frees_cached_slots\<close>.)\<close>

theorem kv_slots_conserved:
  assumes "kv_reachable cf n s" "plain_cache cf"
  shows "token_avail (rx_alloc (ks_cache s)) + tree_slots (rx_root (ks_cache s)) +
      mset (concat (map (own_slots (ks_cache s)) (ks_running s))) = mset_set {1..int n} \<and>
    distinct (map rr_pool_idx (ks_running s)) \<and>
    (\<forall>r \<in> set (ks_running s). \<exists>row. row = take (length (finished_toks r)) (rp_table (rx_pool (ks_cache s)) ! rr_pool_idx r) \<and>
       length row = length (finished_toks r) \<and>
       row = take (length (rr_prefix r)) (cached cf (ks_cache s) (req_key r (finished_toks r))) @ own_slots (ks_cache s) r) \<and>
    (ks_admitted s = [] \<and> ks_running s = [] \<longrightarrow>
       protected_size (ks_cache s) = 0 \<and> int (alloc_available_size (rx_alloc (ks_cache s))) + evictable_size (ks_cache s) = int n)"
proof -
  let ?rx = "ks_cache s"
  note inv = reachable_kv_inv [OF assms, unfolded kv_inv_def]
  have plain: "cf_page cf = 1" using assms(2) by (simp add: plain_cache_def)
  have i: "radix_inv cf (held ?rx (ks_admitted s @ ks_running s)) ?rx" using inv by blast
  have row: "req_row r (finished_toks r) ?rx = take (length (rr_prefix r)) (cached cf ?rx (req_key r (finished_toks r))) @ own_slots ?rx r"
    "length (req_row r (finished_toks r) ?rx) = length (finished_toks r)" if "r \<in> set (ks_running s)" for r
  proof -
    have o: "owns r (finished_toks r) ?rx" using inv that by (simp add: list_all_iff decoding_def)
    show "req_row r (finished_toks r) ?rx = take (length (rr_prefix r)) (cached cf ?rx (req_key r (finished_toks r))) @ own_slots ?rx r"
      using owns_cached(3) [OF o i plain] by (simp add: own_slots_def)
    show "length (req_row r (finished_toks r) ?rx) = length (finished_toks r)" using o by (simp add: owns_def)
  qed
  moreover have "protected_size ?rx = 0 \<and> int (alloc_available_size (rx_alloc ?rx)) + evictable_size ?rx = int n" if e: "ks_admitted s = []" "ks_running s = []"
  proof -
    have i: "radix_inv cf {#} ?rx" using i by (simp add: e held_def)
    have p: "protected_size ?rx = 0"
      using no_holder_lens [of "rx_root ?rx"] root_len [OF i] i inv_sizes(2) [OF i] by (simp add: radix_inv_def tree_inv_def)
    have "size (token_avail (rx_alloc ?rx)) + size (tree_slots (rx_root ?rx)) = n"
      using inv by (simp add: e flip: size_union)
    moreover have "int (size (tree_slots (rx_root ?rx))) = int (total_size (rx_root ?rx))"
    proof -
      have "int (size (\<Sum>i \<in># M. mset (ni_value i))) = (\<Sum>i \<in># M. int (length (ni_value i)))" for M by (induction M) simp_all
      then show ?thesis unfolding total_size_nodes tree_slots_def .
    qed
    ultimately show ?thesis using p inv_sizes(3) [OF i] inv alloc_ok_avail by fastforce
  qed
  moreover have "distinct (map rr_pool_idx (ks_running s))" using inv by (simp add: rows_ok_def)
  ultimately show ?thesis using inv by (auto simp: req_row_take)
qed

section \<open>Property: the admission tests are exact\<close>

definition seqlen :: "radix_req \<Rightarrow> int" where
  "seqlen r = int (length (rr_origin r)) + int (length (rr_output r))"

text \<open>C5: The scheduler counts right: in every state reached by the same steps (the same requests, one slot per page, no
  EAGLE), memory for the admitted batch is found, with every backend, exactly when there are enough free rows and its new
  tokens fit into the free and the evictable slots; \<open>check_decode_mem\<close> never raises and answers whether one more slot per
  running request is free or evictable; and when it says yes, the decode step that follows finds its slots, as long as no
  request has filled its row.\<close>

theorem kv_tests_exact:
  assumes "kv_reachable cf n s" "plain_cache cf"
  shows "((\<exists>res. alloc_for_extend token_ops triton junk (ks_admitted s) (PrefixCache cf (ks_cache s)) = Inr res) \<longleftrightarrow>
      length (ks_admitted s) \<le> length (rp_free_slots (rx_pool (ks_cache s))) \<and>
      int (extend_num_tokens (ks_admitted s)) \<le> int (alloc_available_size (rx_alloc (ks_cache s))) + evictable_size (ks_cache s)) \<and>
    (\<exists>ok rx1. check_decode_mem token_ops overlap 1 (map seqlen (ks_running s)) (PrefixCache cf (ks_cache s)) = Inr (ok, PrefixCache cf rx1) \<and>
      (ok \<longleftrightarrow> int (length (ks_running s)) \<le> int (alloc_available_size (rx_alloc (ks_cache s))) + evictable_size (ks_cache s)) \<and>
      (ok \<and> (\<forall>r \<in> set (ks_running s). kv_len r < int (rp_max_context_len (rx_pool (ks_cache s)))) \<longrightarrow>
        (\<exists>res. alloc_for_decode token_ops 1 (map rr_pool_idx (ks_running s)) (map kv_len (ks_running s)) None (PrefixCache cf rx1) = Inr res)))"
proof -
  let ?rx = "ks_cache s" and ?A = "ks_admitted s" and ?R = "ks_running s"
  let ?H = "held ?rx (?A @ ?R)" and ?rows = "map rr_pool_idx ?R" and ?n = "length ?R"
  note inv = reachable_kv_inv [OF assms, unfolded kv_inv_def]
  have plain: "cf_page cf = 1" using assms(2) by (simp add: plain_cache_def)
  have i: "radix_inv cf ?H ?rx" "alloc_ok (rx_alloc ?rx)" "rows_ok (rx_pool ?rx) ?rows" using inv by blast+
  have "list_all (req_fits (rx_pool ?rx)) ?A" using inv by (auto simp: list_all_iff ready_def)
  note ext = alloc_for_extend_correct [OF i(1,2) plain i(3) this, of triton junk]
  have ext: "(\<exists>res. alloc_for_extend token_ops triton junk ?A (PrefixCache cf ?rx) = Inr res) \<longleftrightarrow>
      length ?A \<le> length (rp_free_slots (rx_pool ?rx)) \<and> int (extend_num_tokens ?A) \<le> int (alloc_available_size (rx_alloc ?rx)) + evictable_size ?rx"
    using ext by (auto split: if_splits)
  from evict_from_tree_correct [OF i(1,2), of "int ?n"] obtain rx1 where e: "evict_from_tree_cache token_ops (int ?n) (PrefixCache cf ?rx) = Inr (PrefixCache cf rx1)"
    "radix_inv cf ?H rx1" "alloc_ok (rx_alloc rx1)" "rx_pool rx1 = rx_pool ?rx"
    "int (alloc_available_size (rx_alloc rx1)) + evictable_size rx1 = int (alloc_available_size (rx_alloc ?rx)) + evictable_size ?rx"
    "int ?n \<le> int (alloc_available_size (rx_alloc rx1)) \<or> evictable_size rx1 = 0" by blast
  let ?ok = "int ?n \<le> int (alloc_available_size (rx_alloc rx1))"
  have c: "check_decode_mem token_ops overlap 1 (map seqlen ?R) (PrefixCache cf ?rx) = Inr (?ok, PrefixCache cf rx1)"
    using e(1) by (simp add: check_decode_mem_def Let_def new_page_count_next_decode_def token_ops_def)
  have ok: "?ok \<longleftrightarrow> int ?n \<le> int (alloc_available_size (rx_alloc ?rx)) + evictable_size ?rx"
    using e(5,6) evictable_nonneg [OF e(2)] by linarith
  have "\<exists>res. alloc_for_decode token_ops 1 ?rows (map kv_len ?R) None (PrefixCache cf rx1) = Inr res"
    if yes: "?ok" "\<forall>r \<in> set ?R. kv_len r < int (rp_max_context_len (rx_pool ?rx))"
  proof -
    have "int ?n \<le> int (alloc_available_size (rx_alloc rx1)) + evictable_size rx1" using yes(1) evictable_nonneg [OF e(2)] by linarith
    then obtain out rx2 where a: "alloc_token_slots token_ops ?n False (PrefixCache cf rx1) = Inr ((out, None), PrefixCache cf rx2)"
      "length out = ?n" "rx_pool rx2 = rx_pool rx1"
      using alloc_slots_exact [OF e(2,3), of ?n] by auto
    have "rr_pool_idx (?R ! k) < length (rp_table (rx_pool ?rx)) \<and> 0 \<le> kv_len (?R ! k) \<and>
        kv_len (?R ! k) < int (length (rp_table (rx_pool ?rx) ! rr_pool_idx (?R ! k)))" if k: "k < ?n" for k
    proof -
      have "rr_pool_idx (?R ! k) \<in> set ?rows" using k by simp
      then have r: "rr_pool_idx (?R ! k) < length (rp_table (rx_pool ?rx))" using i(3) unfolding rows_ok_def by auto
      then have "length (rp_table (rx_pool ?rx) ! rr_pool_idx (?R ! k)) = rp_max_context_len (rx_pool ?rx)" using i(3) by (simp add: rows_ok_def pool_ok_def)
      then show ?thesis using r yes(2) k by (simp add: kv_len_def)
    qed
    then have "\<exists>t'. write_tokens (zip ?rows (zip (map kv_len ?R) out)) (rp_table (rx_pool ?rx)) = Inr t'"
      using i(3) a(2) by (intro write_tokens_runs) (simp_all add: rows_ok_def)
    then obtain t' where "write_tokens (zip ?rows (zip (map kv_len ?R) out)) (rp_table (rx_pool ?rx)) = Inr t'" ..
    then have "pool_scatter ?rows (map kv_len ?R) out (rx_pool rx2) = Inr (rx_pool ?rx\<lparr>rp_table := t'\<rparr>)"
      using a(2,3) e(4) by (simp add: pool_scatter_def)
    then show ?thesis using a(1) plain by (simp add: alloc_for_decode_def)
  qed
  then show ?thesis using ext c ok by blast
qed

section \<open>An example\<close>

text \<open>The steps as functions, on one path.\<close>

definition admit_run :: "cache_config \<Rightarrow> radix_req \<Rightarrow> kv_system \<Rightarrow> kv_system option" where
  "admit_run cf r s =
     (case init_next_round_input cf None r (ks_cache s) of
        Inr (r', rx1) \<Rightarrow>
          (case inc_lock_ref cf (rr_last_node r') rx1 of
             Inr (d, rx2) \<Rightarrow>
               if (is_blend r \<longrightarrow> rr_prefix r' = []) \<and> length (rr_fill r') \<le> rp_max_context_len (rx_pool (ks_cache s))
               then Some (s\<lparr>ks_cache := rx2, ks_admitted := ks_admitted s @ [r']\<rparr>) else None
           | Inl _ \<Rightarrow> None)
      | Inl _ \<Rightarrow> None)"

definition extend_run :: "cache_config \<Rightarrow> int list \<Rightarrow> kv_system \<Rightarrow> kv_system option" where
  "extend_run cf ts s =
     (case alloc_for_extend token_ops False (\<lambda>_. 0) (ks_admitted s) (PrefixCache cf (ks_cache s)) of
        Inr ((out, rows), PrefixCache cf' rx') \<Rightarrow>
          if length ts = length (ks_admitted s)
          then Some \<lparr>ks_cache = rx', ks_admitted = [], ks_running = ks_running s @ map2 set_row_token (zip rows ts) (ks_admitted s)\<rparr> else None
      | _ \<Rightarrow> None)"

definition share_run :: "cache_config \<Rightarrow> kv_system \<Rightarrow> kv_system option" where
  "share_run cf s =
     (case ks_running s of
        r # bs \<Rightarrow>
          (case cache_unfinished_req cf token_free r (ks_cache s) of
             Inr (r', rx') \<Rightarrow> if rr_fill r = finished_toks r then Some (s\<lparr>ks_cache := rx', ks_running := r' # bs\<rparr>) else None
           | Inl _ \<Rightarrow> None)
      | [] \<Rightarrow> None)"

lemma admit_run_step: "admit_run cf r s = Some s' \<Longrightarrow> kv_step cf s s'"
  by (clarsimp simp: admit_run_def split: sum.splits if_splits) (rule kv_step.admit)

lemma taken_keeps_config: "taken_or_raise msg (PrefixCache cf rx) r = Inr (out, tc) \<Longrightarrow> \<exists>rx'. tc = PrefixCache cf rx'"
  by (auto simp: taken_or_raise_def rbind_Inr_iff split: option.splits)

lemma evict_keeps_config: "evict_from_tree_cache ops n (PrefixCache cf rx) = Inr tc \<Longrightarrow> \<exists>rx'. tc = PrefixCache cf rx'"
  by (auto simp: evict_from_tree_cache_def rbind_Inr_iff split: if_splits)

lemma slots_keep_config:
  "alloc_token_slots ops n b (PrefixCache cf rx) = Inr (x, tc) \<Longrightarrow> \<exists>rx'. tc = PrefixCache cf rx'"
  "alloc_paged_token_slots_extend ops pre seq locs n b (PrefixCache cf rx) = Inr (x, tc) \<Longrightarrow> \<exists>rx'. tc = PrefixCache cf rx'"
  by (auto simp: alloc_token_slots_def alloc_paged_token_slots_extend_def rbind_Inr_iff Let_def dest!: evict_keeps_config taken_keeps_config)

lemma extend_keeps_config:
  assumes "alloc_for_extend ops triton junk reqs (PrefixCache cf rx) = Inr (x, PrefixCache cf' rx')"
  shows "cf' = cf"
proof -
  have r: "alloc_req_slots n (PrefixCache cf rx) = Inr (y, tc) \<Longrightarrow> \<exists>rx'. tc = PrefixCache cf rx'" for n y tc
    by (auto simp: alloc_req_slots_def split: prod.splits option.splits)
  from assms show ?thesis
    unfolding alloc_for_extend_def rbind_Inr_iff
    by (auto simp: rbind_Inr_iff split: if_splits dest!: r slots_keep_config)
qed

lemma extend_run_step: "extend_run cf ts s = Some s' \<Longrightarrow> kv_step cf s s'"
  by (auto simp: extend_run_def split: sum.splits if_splits prod.splits tree_cache.splits dest: extend_keeps_config intro: kv_step.extend)

lemma share_run_step: "share_run cf s = Some s' \<Longrightarrow> kv_step cf s s'"
  by (auto simp: share_run_def split: sum.splits if_splits list.splits intro: kv_step.share [where as = "[]", simplified])

definition ex_life_req :: "int list \<Rightarrow> radix_req" where
  "ex_life_req toks = \<lparr>rr_origin = toks, rr_output = [], rr_fill = [], rr_pool_idx = 0, rr_style = None, rr_extra = None,
     rr_prefix = [], rr_last_matched = 0, rr_last_node = 0\<rparr>"

definition ex_life :: "kv_system option" where
  "ex_life =
     (case admit_run ex_radix_cf (ex_life_req [1, 2, 3]) (new_kv_system ex_radix_cf 6 False 3 4 ex_radix_new) of None \<Rightarrow> None | Some s1 \<Rightarrow>
      case extend_run ex_radix_cf [9] s1 of None \<Rightarrow> None | Some s2 \<Rightarrow>
      case share_run ex_radix_cf s2 of None \<Rightarrow> None | Some s3 \<Rightarrow>
      case admit_run ex_radix_cf (ex_life_req [1, 2, 4]) s3 of None \<Rightarrow> None | Some s4 \<Rightarrow>
      case extend_run ex_radix_cf [8] s4 of None \<Rightarrow> None | Some s5 \<Rightarrow> admit_run ex_radix_cf (ex_life_req [1, 2, 5]) s5)"

lemma ex_life_state:
  "case ex_life of
     Some s \<Rightarrow> length (ks_running s) = 2 \<and> length (ks_admitted s) = 1 \<and> map (own_slots (ks_cache s)) (ks_running s) = [[], [4]] \<and>
       ta_free_pages (rx_alloc (ks_cache s)) = [5, 6] \<and> all_values (rx_root (ks_cache s)) = [1, 2, 3] \<and>
       rp_free_slots (rx_pool (ks_cache s)) = [2] \<and> extend_num_tokens (ks_admitted s) = 1 \<and>
       alloc_available_size (rx_alloc (ks_cache s)) = 2 \<and> evictable_size (ks_cache s) = 0 \<and>
       map rr_pool_idx (ks_running s) = [0, 1] \<and> map kv_len (ks_running s) = [3, 3] \<and> rp_max_context_len (rx_pool (ks_cache s)) = 4
   | None \<Rightarrow> False"
  by code_simp

lemma ex_life_reach: "ex_life = Some s \<Longrightarrow> kv_reachable ex_radix_cf 6 s"
proof -
  assume "ex_life = Some s"
  then have "(kv_step ex_radix_cf)\<^sup>*\<^sup>* (new_kv_system ex_radix_cf 6 False 3 4 ex_radix_new) s"
    by (auto simp: ex_life_def split: option.splits dest!: admit_run_step extend_run_step share_run_step)
  then show ?thesis unfolding kv_reachable_def by blast
qed

lemma ex_plain: "plain_cache ex_radix_cf"
  by (simp add: plain_cache_def)

theorem kv_slots_conserved_witness:
  "\<exists>s. kv_reachable ex_radix_cf 6 s \<and> length (ks_running s) = 2 \<and> map (own_slots (ks_cache s)) (ks_running s) = [[], [4]] \<and>
     token_avail (rx_alloc (ks_cache s)) + tree_slots (rx_root (ks_cache s)) + {#4#} = mset_set {1..int 6}"
proof -
  obtain s where s: "ex_life = Some s" "length (ks_running s) = 2" "map (own_slots (ks_cache s)) (ks_running s) = [[], [4]]"
    using ex_life_state by (auto split: option.splits)
  from kv_slots_conserved [OF ex_life_reach [OF s(1)] ex_plain] have
    "token_avail (rx_alloc (ks_cache s)) + tree_slots (rx_root (ks_cache s)) + mset (concat (map (own_slots (ks_cache s)) (ks_running s))) = mset_set {1..int 6}"
    by blast
  moreover have "mset (concat (map (own_slots (ks_cache s)) (ks_running s))) = {#4#}" unfolding s(3) by simp
  ultimately have "token_avail (rx_alloc (ks_cache s)) + tree_slots (rx_root (ks_cache s)) + {#4#} = mset_set {1..int 6}" by metis
  with ex_life_reach [OF s(1)] s(2,3) show ?thesis by (intro exI [of _ s] conjI)
qed

theorem kv_tests_exact_witness:
  "\<exists>s rx1. kv_reachable ex_radix_cf 6 s \<and>
     (\<exists>res. alloc_for_extend token_ops True (\<lambda>_. 7) (ks_admitted s) (PrefixCache ex_radix_cf (ks_cache s)) = Inr res) \<and>
     check_decode_mem token_ops True 1 (map seqlen (ks_running s)) (PrefixCache ex_radix_cf (ks_cache s)) = Inr (True, PrefixCache ex_radix_cf rx1) \<and>
     (\<exists>res. alloc_for_decode token_ops 1 [0, 1] [3, 3] None (PrefixCache ex_radix_cf rx1) = Inr res)"
proof -
  obtain s where s: "ex_life = Some s" "length (ks_running s) = 2" "length (ks_admitted s) = 1" "rp_free_slots (rx_pool (ks_cache s)) = [2]"
    "extend_num_tokens (ks_admitted s) = 1" "alloc_available_size (rx_alloc (ks_cache s)) = 2" "evictable_size (ks_cache s) = 0"
    "map rr_pool_idx (ks_running s) = [0, 1]" "map kv_len (ks_running s) = [3, 3]" "rp_max_context_len (rx_pool (ks_cache s)) = 4"
    using ex_life_state by (auto split: option.splits)
  have "\<forall>r \<in> set (ks_running s). kv_len r < int (rp_max_context_len (rx_pool (ks_cache s)))"
  proof
    fix r assume "r \<in> set (ks_running s)"
    then have "kv_len r \<in> set (map kv_len (ks_running s))" by simp
    then show "kv_len r < int (rp_max_context_len (rx_pool (ks_cache s)))" unfolding s(9) by (simp add: s(10))
  qed
  with kv_tests_exact [OF ex_life_reach [OF s(1)] ex_plain, of True "\<lambda>_. 7" True] show ?thesis
    using ex_life_reach [OF s(1)] s by (intro exI [of _ s]) auto
qed

end
