(* ===== verification/EvalUtils.thy ===== *)
theory EvalUtils
  imports DigestIndex SepSplit
begin

text \<open>
  The prompts and the scores of the evaluation (\<open>blend/utils.py\<close>): the system prompts and query
  prefixes, the documents and the question of an example, and the score of an answer. ROUGE-L comes
  from a package and is a parameter; strings are ASCII.
\<close>

section \<open>Texts\<close>

definition nl :: string where
  "nl = [CHR 0x0A]"

definition RULER_DATASETS :: "string list" where
  "RULER_DATASETS = [''ruler_vt'', ''ruler_mq'', ''ruler_mv'']"

definition SYSTEM_PROMPT :: string where
  "SYSTEM_PROMPT =
     ''You are a highly precise question-answering assistant.'' @
     nl @ nl @
     ''## Task'' @
     nl @
     ''Read the provided passages and answer the user's question based strictly on the information within.'' @
     nl @ nl @
     ''## Output Rules'' @
     nl @
     ''- Direct Answer ONLY: Output nothing but the final exact answer.'' @
     nl @
     ''- No Explanations: Do not provide reasoning, context, conversational fillers, or extra words.'' @
     nl @ nl @
     ''## Passages'' @
     nl"

definition QUERY_PREFIX :: string where
  "QUERY_PREFIX =
     ''Remember to answer the question based strictly on the passages above. Output ONLY the answer and no '' @
     ''other words.'' @
     nl @ nl @
     ''## Question'' @
     nl"

definition RULER_VT_FEWSHOT :: string where
  "RULER_VT_FEWSHOT =
     ''Example:'' @
     nl @
     ''Text:'' @
     nl @
     ''The maintenance report begins with routine notes about lighting, archived boxes, and a schedule '' @
     ''change for the west corridor. A coordinator wrote that several labels had been moved after the '' @
     ''weekly inspection, but most of the paragraph is ordinary filler that should not be treated as an '' @
     ''assignment. Near the inventory table, the record states VAR ABCDE = 12345 before describing spare '' @
     ''cables and a delayed delivery. Later, after a note about temperature readings, it says VAR FGHIJ = '' @
     ''VAR ABCDE. The next page mentions visitor badges, old invoices, and two unrelated serial numbers. '' @
     ''Hidden between those details is VAR KLMNO = VAR FGHIJ. The report then discusses a broken cart, a '' @
     ''missing clipboard, and yesterday's storage request. After that, the chain continues: VAR PQRST = '' @
     ''VAR KLMNO. The closing paragraph talks about cleaning supplies, meeting times, and duplicate copies '' @
     ''of the same memo, then finally records VAR UVWXY = VAR PQRST. A later appendix lists department '' @
     ''codes, desk numbers, and several dates from a training calendar. Those details are only background '' @
     ''text, even when they contain digits or capitalized words. Another section says that the archive '' @
     ''door was repaired, the finance folder was renamed, and the morning checklist should be reviewed '' @
     ''before the next shift. The example also mentions that the copied forms were sorted by color, that '' @
     ''the hallway map was reprinted, and that temporary notes should be discarded after confirmation. '' @
     ''None of these surrounding statements changes the assignment chain above. No other variable in this '' @
     ''example is assigned the value 12345 through this chain.'' @
     nl @
     ''Question: Find all variables that are assigned the value 12345 in the text above.'' @
     nl @
     ''Answer: ABCDE, FGHIJ, KLMNO, PQRST, UVWXY'' @
     nl @ nl"

definition RULER_MAGIC_INSTRUCT :: string where
  "RULER_MAGIC_INSTRUCT =
     ''Some special magic numbers are hidden within the following text. Make sure to memorize it. I will '' @
     ''quiz you about the numbers afterwards.'' @
     nl @ nl @
     ''Return only the requested magic numbers. If there are multiple numbers, separate them with commas '' @
     ''and do not explain.'' @
     nl @ nl @
     ''## Text'' @
     nl"

definition RULER_SYS_INSTRUCT :: "(string \<times> string) list" where
  "RULER_SYS_INSTRUCT =
     [(''ruler_mq'', RULER_MAGIC_INSTRUCT), (''ruler_mv'', RULER_MAGIC_INSTRUCT),
      (''ruler_vt'',
       ''Memorize and track the chain(s) of variable assignment hidden in the following text.'' @ nl @ nl @
       RULER_VT_FEWSHOT @
       ''For the actual text below, return only the variable names assigned to the queried value. If there '' @
       ''are multiple variable names, separate them with commas and do not explain.'' @
       nl @ nl @
       ''## Text'' @
       nl)]"

definition RULER_MAGIC_QUERY :: string where
  "RULER_MAGIC_QUERY =
     ''Answer the question using only the provided text. Return only the requested magic number or '' @
     ''numbers, separated by commas.'' @
     nl @ nl @
     ''## Question'' @
     nl"

definition RULER_QUERY_PREFIX :: "(string \<times> string) list" where
  "RULER_QUERY_PREFIX =
     [(''ruler_mq'', RULER_MAGIC_QUERY), (''ruler_mv'', RULER_MAGIC_QUERY),
      (''ruler_vt'',
       ''Answer the question using only the provided text. Return only the requested variable name or names, '' @
       ''separated by commas.'' @
       nl @ nl @
       ''## Question'' @
       nl)]"

definition DEFAULT_CHUNK_TOPK :: nat where
  "DEFAULT_CHUNK_TOPK = 20"

section \<open>Examples\<close>

text \<open>A line of a dataset: its passages, its question and the reference answers, one or many.\<close>

datatype answers = OneAnswer string | Answers "string list"

record example =
  ex_context :: "string list"
  ex_input :: string
  ex_answers :: answers

definition ends_with :: "string \<Rightarrow> string \<Rightarrow> bool" where
  "ends_with s suf \<longleftrightarrow> length suf \<le> length s \<and> drop (length s - length suf) s = suf"

definition normalize_question :: "string \<Rightarrow> string" where
  "normalize_question question =
     (if question = [] then []
      else let q = (if \<not> ends_with question ''?'' then question @ ''?'' else question)
           in ascii_lower [hd q] @ tl q)"

text \<open>The documents and the two parts of the question; an unknown RULER name has no query prefix.\<close>

definition build_prompt_for_dataset :: "example \<Rightarrow> string \<Rightarrow> (string list \<times> string list) res" where
  "build_prompt_for_dataset ex dataset_name =
     (let context = (if dataset_name \<notin> set RULER_DATASETS then take (min (length (ex_context ex)) DEFAULT_CHUNK_TOPK) (ex_context ex)
                     else ex_context ex);
          docs = map (\<lambda>ctx. ''Passage:'' @ nl @ ctx @ nl @ nl) context
      in if dataset_name \<in> set RULER_DATASETS then
           (case map_of RULER_QUERY_PREFIX dataset_name of
              None \<Rightarrow> Inl KeyError
            | Some p \<Rightarrow> Inr (docs, [p, ex_input ex]))
         else Inr (docs, [QUERY_PREFIX, normalize_question (ex_input ex)]))"

definition get_system_prompt :: "string \<Rightarrow> string" where
  "get_system_prompt dataset_name = (case map_of RULER_SYS_INSTRUCT dataset_name of None \<Rightarrow> SYSTEM_PROMPT | Some p \<Rightarrow> p)"

definition MAX_NEW_TOKENS_BY_DATASET :: "(string \<times> int) list" where
  "MAX_NEW_TOKENS_BY_DATASET = [(''ruler_vt'', 30), (''ruler_mq'', 128), (''ruler_mv'', 128)]"

definition get_max_new_tokens :: "string \<Rightarrow> int" where
  "get_max_new_tokens dataset_name = (case map_of MAX_NEW_TOKENS_BY_DATASET dataset_name of None \<Rightarrow> 48 | Some n \<Rightarrow> n)"

section \<open>Scores\<close>

definition str_isspace :: "char \<Rightarrow> bool" where
  "str_isspace c \<longleftrightarrow> (let n = of_char c :: nat in 9 \<le> n \<and> n \<le> 13 \<or> 28 \<le> n \<and> n \<le> 32)"

definition blank :: "string \<Rightarrow> bool" where
  "blank s \<longleftrightarrow> list_all str_isspace s"

definition scorer_f1 :: "(string \<Rightarrow> string \<Rightarrow> f64) \<Rightarrow> string \<Rightarrow> string \<Rightarrow> f64" where
  "scorer_f1 rougeL_fmeasure prediction ground_truth =
     (if blank prediction \<or> blank ground_truth then 0 else rougeL_fmeasure ground_truth prediction)"

definition scorer_string_match_all :: "string \<Rightarrow> string list \<Rightarrow> f64" where
  "scorer_string_match_all prediction ground_truths =
     (if ground_truths = [] then 0
      else let p = ascii_lower prediction; hits = length (filter (\<lambda>t. py_contains p (ascii_lower t)) ground_truths)
           in f64_round (of_nat hits / of_nat (length ground_truths)))"

definition TASK_METRICS :: "(string \<times> string) list" where
  "TASK_METRICS =
     [(''hotpotqa'', ''f1''), (''2wikimqa'', ''f1''), (''musique'', ''f1''),
      (''ruler_vt'', ''string_match_all''), (''ruler_mq'', ''string_match_all''), (''ruler_mv'', ''string_match_all'')]"

definition task_metric :: "string \<Rightarrow> string" where
  "task_metric dataset_name = (case map_of TASK_METRICS dataset_name of None \<Rightarrow> ''f1'' | Some m \<Rightarrow> m)"

fun best_score :: "(string \<Rightarrow> f64) \<Rightarrow> f64 \<Rightarrow> string list \<Rightarrow> f64" where
  "best_score score best [] = best"
| "best_score score best (truth # truths) = best_score score (if score truth > best then score truth else best) truths"

definition evaluate_sample :: "(string \<Rightarrow> string \<Rightarrow> f64) \<Rightarrow> string \<Rightarrow> string list \<Rightarrow> string \<Rightarrow> f64" where
  "evaluate_sample rougeL_fmeasure prediction ground_truths dataset_name =
     (if ground_truths = [] then 0
      else if task_metric dataset_name = ''string_match_all'' then scorer_string_match_all prediction ground_truths
      else best_score (scorer_f1 rougeL_fmeasure prediction) 0 ground_truths)"

definition get_metric_name :: "string \<Rightarrow> string" where
  "get_metric_name dataset_name =
     (case map_of [(''f1'', ''F1''), (''string_match_all'', ''sm'')] (task_metric dataset_name) of None \<Rightarrow> ''Score'' | Some n \<Rightarrow> n)"

end
