(* ===== verification/Runner.thy ===== *)
theory Runner
  imports EvalUtils BatchPrep
begin

text \<open>
  The SSD-backed runner (\<open>blend/blend_common.py\<close>, \<open>blend/sglang_blend_ssd.py\<close> and
  \<open>blend/qcfuse_config.py\<close>): the critical layers of a baseline, the prompts of a sample, the check
  whether its caches are on the SSD, the arguments of the requests, and the offline and online phases.
  The inference engine is a parameter that maps a request to the chunks of its answer and a new state;
  the state holds the files. Paths are joined as strings, which is what \<open>pathlib\<close> does with
  normalised paths.
\<close>

section \<open>Configuration\<close>

definition BLEND_SEP :: string where "BLEND_SEP = ''<|blendsep|>''"

definition DIGEST_ZIP_PROMPT :: string where
  "DIGEST_ZIP_PROMPT = nl @ nl @ ''Repeat the previous context exactly.''"

definition TEMPLATES :: "(string \<times> string \<times> string \<times> string) list" where
  "TEMPLATES =
     [(''llama'', ''<|begin_of_text|><|start_header_id|>system<|end_header_id|>'' @ nl @ nl,
       ''<|eot_id|><|start_header_id|>user<|end_header_id|>'' @ nl @ nl,
       ''<|eot_id|><|start_header_id|>assistant<|end_header_id|>'' @ nl @ nl),
      (''mistral'', ''<s>[INST]'', [], ''[/INST]''),
      (''qwen'', ''<|im_start|>system'' @ nl, ''<|im_end|>'' @ nl @ ''<|im_start|>user'' @ nl,
       ''<|im_end|>'' @ nl @ ''<|im_start|>assistant'' @ nl @ ''<think>'' @ nl @ nl @ ''</think>'' @ nl @ nl)]"

definition BLEND_CONFIG :: "(string \<times> string \<times> int \<times> string) list" where
  "BLEND_CONFIG =
     [(''fullcomp'', ''FULLCOMPUTE'', 0, ''none''), (''ours'', ''KVCOMPUTE'', 0, ''attn''),
      (''fuserag'', ''KVCOMPUTE'', 0, ''attn''), (''prophetkv'', ''KVCOMPUTE'', 0, ''attn'')]"

definition DIGEST_RATIO :: f64 where "DIGEST_RATIO = f64_lit (1 / 10)"
definition DEFAULT_BLEND_RATIO :: f64 where "DEFAULT_BLEND_RATIO = f64_lit (1 / 2)"
definition DEFAULT_CONTEXT_N_SINK :: int where "DEFAULT_CONTEXT_N_SINK = 4"
definition DEFAULT_CRITICAL_LAYERS :: int where "DEFAULT_CRITICAL_LAYERS = 3"

definition BLEND_BASELINES :: "string list" where
  "BLEND_BASELINES = [''ours'', ''fuserag'', ''prophetkv'']"

definition SUPPORTED_BASELINES :: "string list" where
  "SUPPORTED_BASELINES = ''fullcomp'' # BLEND_BASELINES"

definition BASELINE_DIGEST_RATIOS :: "(string \<times> f64) list" where
  "BASELINE_DIGEST_RATIOS = [(''ours'', DIGEST_RATIO), (''fuserag'', 0), (''prophetkv'', 1)]"

definition MODEL_TOP10_CRITICAL_LAYERS :: "(string \<times> int list) list" where
  "MODEL_TOP10_CRITICAL_LAYERS =
     [(''llama3.1-8b'', [14, 13, 17, 18, 16, 20, 19, 10, 15, 22]),
      (''mistral-7b'', [16, 19, 15, 18, 14, 17, 12, 11, 20, 9]),
      (''qwen3-14b'', [24, 26, 21, 25, 18, 28, 29, 22, 23, 20]),
      (''qwen3-8b'', [20, 21, 18, 17, 24, 23, 26, 14, 22, 19])]"

text \<open>The runner's fields; the number of layers comes from the model configuration.\<close>

record runner =
  rn_model_name :: string
  rn_num_layers :: int
  rn_baseline :: string
  rn_first_style :: string
  rn_start :: int
  rn_method :: string
  rn_attn_start :: int
  rn_attn_end :: int
  rn_critical :: "int list option"
  rn_enhance :: bool
  rn_n_sink :: int
  rn_digest_method :: string
  rn_digest_ratio :: f64
  rn_source :: string
  rn_topk :: int
  rn_cache_dir :: string

section \<open>Critical layers\<close>

definition starts_with :: "string \<Rightarrow> string \<Rightarrow> bool" where
  "starts_with s p \<longleftrightarrow> take (length p) s = p"

definition critical_model_key :: "string \<Rightarrow> string res" where
  "critical_model_key model_name =
     (let name_lower = ascii_lower model_name
      in if starts_with name_lower ''qwen3-8b'' then Inr ''qwen3-8b''
         else if starts_with name_lower ''qwen3-14b'' then Inr ''qwen3-14b''
         else if starts_with name_lower ''llama'' then Inr ''llama3.1-8b''
         else if starts_with name_lower ''mistral'' then Inr ''mistral-7b''
         else Inl (ValueError ''critical layers are not configured for model''))"

definition validate_explicit_layers :: "int \<Rightarrow> int list \<Rightarrow> int list res" where
  "validate_explicit_layers num_layers layers =
     (if filter (\<lambda>l. l < 0 \<or> num_layers \<le> l) layers \<noteq> [] then Inl (ValueError ''critical layers are out of range for model'')
      else Inr layers)"

definition get_critical_layers :: "string \<Rightarrow> int \<Rightarrow> int \<Rightarrow> int list res" where
  "get_critical_layers model_name num_layers critical_layers =
     (if critical_layers = - 1 then Inr (py_range 0 num_layers)
      else
        rbind (critical_model_key model_name) (\<lambda>model_key.
        case map_of MODEL_TOP10_CRITICAL_LAYERS model_key of
          None \<Rightarrow> Inl KeyError
        | Some top_layers \<Rightarrow>
            if critical_layers < 1 \<or> int (length top_layers) < critical_layers then
              Inl (ValueError ''critical_layers must be -1 or an integer in range'')
            else validate_explicit_layers num_layers (py_slice top_layers 0 critical_layers)))"

definition py_max :: "int list \<Rightarrow> int res" where
  "py_max xs = (if xs = [] then Inl (ValueError ''max() arg is an empty sequence'') else Inr (Max (set xs)))"

definition set_critical_layers :: "int list \<Rightarrow> runner \<Rightarrow> runner res" where
  "set_critical_layers layers0 rn =
     rbind (validate_explicit_layers (rn_num_layers rn) layers0) (\<lambda>layers.
     rbind (py_max layers) (\<lambda>m.
     Inr (rn\<lparr>rn_critical := Some layers, rn_attn_start := 0, rn_attn_end := m + 1\<rparr>)))"

definition set_ours_layers :: "string \<Rightarrow> int \<Rightarrow> runner \<Rightarrow> runner res" where
  "set_ours_layers model_name critical_layers rn =
     rbind (get_critical_layers model_name (rn_num_layers rn) critical_layers) (\<lambda>layers. set_critical_layers layers rn)"

definition set_fuserag_layers :: "runner \<Rightarrow> runner res" where
  "set_fuserag_layers rn = set_critical_layers [rn_num_layers rn - 1] rn"

definition set_prophetkv_layers :: "runner \<Rightarrow> runner res" where
  "set_prophetkv_layers rn = set_critical_layers (py_range 0 (rn_num_layers rn)) rn"

definition set_baseline :: "string \<Rightarrow> runner \<Rightarrow> runner res" where
  "set_baseline baseline rn =
     (if baseline \<notin> set SUPPORTED_BASELINES then Inl (ValueError ''Unsupported baseline'')
      else case map_of BLEND_CONFIG baseline of
        None \<Rightarrow> Inl KeyError
      | Some (first_style, start, m) \<Rightarrow>
          Inr (rn\<lparr>rn_baseline := baseline, rn_critical := None, rn_first_style := first_style, rn_start := start, rn_method := m\<rparr>))"

definition new_runner :: "string \<Rightarrow> int \<Rightarrow> string \<Rightarrow> string \<Rightarrow> runner res" where
  "new_runner model_name num_layers baseline cache_dir =
     set_baseline baseline
       \<lparr>rn_model_name = ascii_lower model_name, rn_num_layers = num_layers, rn_baseline = [], rn_first_style = [], rn_start = 0,
        rn_method = [], rn_attn_start = 0, rn_attn_end = - 1, rn_critical = None, rn_enhance = False,
        rn_n_sink = DEFAULT_CONTEXT_N_SINK, rn_digest_method = ''kvzip'', rn_digest_ratio = DIGEST_RATIO, rn_source = ''none'',
        rn_topk = DEFAULT_CRITICAL_LAYERS, rn_cache_dir = cache_dir\<rparr>"

text \<open>What \<open>main\<close> does with a new runner before the phases.\<close>

definition configure_runner :: "string \<Rightarrow> string \<Rightarrow> runner \<Rightarrow> runner res" where
  "configure_runner model_name baseline rn0 =
     rbind (set_baseline baseline rn0) (\<lambda>rn.
     if baseline \<in> set BLEND_BASELINES then
       case map_of BASELINE_DIGEST_RATIOS baseline of
         None \<Rightarrow> Inl KeyError
       | Some ratio \<Rightarrow>
           let rn' = rn\<lparr>rn_enhance := True, rn_source := ''query'', rn_digest_ratio := ratio\<rparr>
           in if baseline = ''ours'' then set_ours_layers model_name DEFAULT_CRITICAL_LAYERS rn'
              else if baseline = ''fuserag'' then set_fuserag_layers rn'
              else if baseline = ''prophetkv'' then set_prophetkv_layers rn'
              else Inr rn'
     else Inr (rn\<lparr>rn_enhance := False, rn_source := ''none'', rn_critical := None\<rparr>))"

section \<open>Prompts\<close>

definition get_template :: "runner \<Rightarrow> string \<times> string \<times> string" where
  "get_template rn =
     (case filter (\<lambda>(p, _). starts_with (rn_model_name rn) p) TEMPLATES of
        [] \<Rightarrow> ([], [], [])
      | (_, t) # _ \<Rightarrow> t)"

definition prompt_prefix :: "runner \<Rightarrow> string \<Rightarrow> string" where
  "prompt_prefix rn system_prompt = (case get_template rn of (sys_h, sys_e, _) \<Rightarrow> sys_h @ system_prompt @ sys_e)"

definition prompt_suffix :: "runner \<Rightarrow> string list \<Rightarrow> string" where
  "prompt_suffix rn q_prompt =
     (case get_template rn of (_, _, asst_h) \<Rightarrow> concat q_prompt @ nl @ nl @ ''## Answer'' @ nl @ asst_h)"

definition build_prompt :: "runner \<Rightarrow> string \<Rightarrow> string list \<Rightarrow> string list \<Rightarrow> bool \<Rightarrow> string \<times> string" where
  "build_prompt rn system_prompt docs q_prompt use_sep =
     (let pre = prompt_prefix rn system_prompt; suf = prompt_suffix rn q_prompt
      in if use_sep then (py_join BLEND_SEP ([pre] @ docs @ [suf]), py_join BLEND_SEP q_prompt)
         else (pre @ concat docs @ suf, suf))"

definition build_augmented_prompt :: "runner \<Rightarrow> string \<Rightarrow> string list \<Rightarrow> string list \<Rightarrow> string" where
  "build_augmented_prompt rn system_prompt docs q_prompt =
     py_join BLEND_SEP ([prompt_prefix rn system_prompt] @ concat (map (\<lambda>doc. [doc, DIGEST_ZIP_PROMPT]) docs)
       @ [prompt_suffix rn q_prompt])"

definition MAX_CONTEXT_LENGTH :: int where "MAX_CONTEXT_LENGTH = 16000"

text \<open>Whether the prompt fits, and its number of tokens.\<close>

definition check_prompt_length :: "(string \<Rightarrow> int list) \<Rightarrow> runner \<Rightarrow> string \<Rightarrow> string list \<Rightarrow> string list \<Rightarrow> int \<Rightarrow> bool \<times> int" where
  "check_prompt_length encode rn system_prompt docs q_prompt max_new_tokens =
     (let (prompt, _) = build_prompt rn system_prompt docs q_prompt False;
          token_count = int (length (encode prompt))
      in (token_count \<le> MAX_CONTEXT_LENGTH - max_new_tokens, token_count))"

section \<open>The caches of a sample\<close>

definition cache_paths :: "runner \<Rightarrow> string \<Rightarrow> int \<Rightarrow> string \<times> string" where
  "cache_paths rn dataset_name sample_idx =
     (let dir = (\<lambda>kind. os_path_join (os_path_join (os_path_join (os_path_join (rn_cache_dir rn) kind) (rn_model_name rn)) dataset_name)
                  (''sample_'' @ py_str sample_idx))
      in (dir ''chunk_cache'', dir ''query_cache''))"

definition requires_query_cache :: "runner \<Rightarrow> bool" where
  "requires_query_cache rn \<longleftrightarrow> rn_enhance rn \<and> rn_source rn = ''query''"

definition offline_query_critical_layers :: "runner \<Rightarrow> int list res" where
  "offline_query_critical_layers rn =
     (case rn_critical rn of
        Some (l # ls) \<Rightarrow> Inr (l # ls)
      | _ \<Rightarrow> get_critical_layers (rn_model_name rn) (rn_num_layers rn) (rn_topk rn))"

definition has_cache_files :: "string \<Rightarrow> string \<Rightarrow> string \<Rightarrow> string \<Rightarrow> ssd \<Rightarrow> bool res" where
  "has_cache_files bin meta fmt dir s =
     (let meta_path = os_path_join dir meta
      in if bin_files s (os_path_join dir bin) = None \<or> json_files s meta_path = None then Inr False
         else rbind (read_json meta_path s) (\<lambda>j. rbind (json_get j ''format'' JNull) (\<lambda>f. Inr (f = JStr fmt))))"

definition has_packed_cache :: "string \<Rightarrow> ssd \<Rightarrow> bool res" where
  "has_packed_cache = has_cache_files PACKED_BIN_NAME PACKED_META_NAME PACKED_FORMAT"

definition has_query_cache :: "string \<Rightarrow> ssd \<Rightarrow> bool res" where
  "has_query_cache = has_cache_files QUERY_BIN_NAME QUERY_META_NAME QUERY_CACHE_FORMAT"

text \<open>\<open>float(x)\<close>, with the parsing of a string as a parameter, and comparison of a JSON value with an int.\<close>

fun py_float :: "(string \<Rightarrow> f64 option) \<Rightarrow> json \<Rightarrow> f64 res" where
  "py_float parse (JInt i) = Inr (f64_round (of_int i))"
| "py_float parse (JBool b) = Inr (if b then 1 else 0)"
| "py_float parse (JFloat r) = Inr r"
| "py_float parse (JStr s) = (case parse s of None \<Rightarrow> Inl (ValueError ''float'') | Some r \<Rightarrow> Inr r)"
| "py_float parse _ = Inl TypeError"

fun json_eq_int :: "json \<Rightarrow> int \<Rightarrow> bool" where
  "json_eq_int (JInt i) n = (i = n)"
| "json_eq_int (JBool b) n = ((if b then 1 else 0) = n)"
| "json_eq_int (JFloat r) n = (r = of_int n)"
| "json_eq_int _ n = False"

text \<open>\<open>try: ... except (TypeError, ValueError): False\<close>\<close>

definition false_on_type_value :: "bool res \<Rightarrow> bool res" where
  "false_on_type_value r =
     (case r of Inl TypeError \<Rightarrow> Inr False | Inl (ValueError _) \<Rightarrow> Inr False | _ \<Rightarrow> r)"

definition and_then :: "bool \<Rightarrow> bool res \<Rightarrow> bool res" where
  "and_then b r = (if b then r else Inr False)"

definition query_meta_matches :: "(string \<Rightarrow> f64 option) \<Rightarrow> runner \<Rightarrow> int list \<Rightarrow> json \<Rightarrow> bool res" where
  "query_meta_matches parse rn critical_layers query_meta =
     rbind (json_get query_meta ''metadata'' (JObj [])) (\<lambda>meta.
     rbind (normalize_method (Some (rn_digest_method rn))) (\<lambda>m.
     rbind (json_get meta ''digest_ratio'' JNull) (\<lambda>digest_ratio.
     rbind (false_on_type_value (rbind (py_float parse digest_ratio) (\<lambda>r.
              Inr (\<bar>f64_round (r - rn_digest_ratio rn)\<bar> < f64_lit (1 / 10 ^ 9))))) (\<lambda>digest_ratio_matches.
     rbind (py_max critical_layers) (\<lambda>mx.
     let expected_qcompute_end = mx + 1
     in rbind (rbind (json_get meta ''critical_layers'' (JList [])) (json_iter py_int)) (\<lambda>meta_critical.
        rbind (json_get meta ''qcompute_end'' JNull) (\<lambda>qcompute_end.
        rbind (rbind (json_get query_meta ''indices_by_method'' (JObj [])) (\<lambda>ibm. json_get ibm m (JObj []))) (\<lambda>index_payload.
        rbind (false_on_type_value (rbind (rbind (json_get index_payload ''context_n_sink'' (JInt (- 1))) py_int) (\<lambda>n.
                 Inr (n = rn_n_sink rn)))) (\<lambda>context_n_sink_match.
        rbind (json_get meta ''digest_index_version'' JNull) (\<lambda>version.
        and_then (json_eq_int version DIGEST_INDEX_VERSION) (
        rbind (json_get meta ''materialized_digest'' JNull) (\<lambda>mat.
        and_then (mat = JBool True \<and> digest_ratio_matches \<and> meta_critical = critical_layers \<and>
                  json_eq_int qcompute_end expected_qcompute_end) (
        rbind (rbind (json_get query_meta ''digest'' (JObj [])) (\<lambda>dg. json_get dg ''num_layers'' JNull)) (\<lambda>n.
        and_then (json_eq_int n expected_qcompute_end \<and> context_n_sink_match) (
        rbind (rbind (rbind (json_get query_meta ''critical'' (JObj [])) (\<lambda>cr. json_get cr ''layer_ids'' (JList []))) (json_iter py_int)) (\<lambda>ids.
        Inr (set critical_layers \<subseteq> set ids)))))))))))))))))"

definition has_cache :: "(string \<Rightarrow> f64 option) \<Rightarrow> runner \<Rightarrow> string \<Rightarrow> string \<Rightarrow> bool \<Rightarrow> int list option \<Rightarrow> ssd \<Rightarrow> bool res" where
  "has_cache parse rn chunk_dir query_dir require_query query_critical_layers s =
     rbind (has_packed_cache chunk_dir s) (\<lambda>packed.
     if \<not> packed then Inr False
     else if \<not> require_query then Inr True
     else
       case (case query_critical_layers of None \<Rightarrow> rn_critical rn | Some l \<Rightarrow> Some l) of
         None \<Rightarrow> Inr True
       | Some [] \<Rightarrow> Inr True
       | Some critical_layers \<Rightarrow>
           rbind (has_query_cache query_dir s) (\<lambda>query.
           if \<not> query then Inr False
           else rbind (read_json (os_path_join query_dir QUERY_META_NAME) s) (query_meta_matches parse rn critical_layers)))"

section \<open>Requests\<close>

text \<open>The keyword arguments of a request; an argument that is not given is \<open>None\<close>.\<close>

record gen_args =
  ga_style :: string
  ga_separator :: string
  ga_start :: int
  ga_ratio :: f64
  ga_method :: string
  ga_attn :: "(int \<times> int) option"
  ga_contextblend :: "bool option"
  ga_source :: "string option"
  ga_digest_ratio :: "f64 option"
  ga_digest_method :: "string option"
  ga_critical :: "int list option"
  ga_n_sink :: "int option"
  ga_path_chunk :: "string option"
  ga_path_query :: "string option"

record gen_call =
  gc_prompt :: string
  gc_max_new_tokens :: int
  gc_args :: "gen_args option"

definition blend_args :: "runner \<Rightarrow> string \<Rightarrow> f64 \<Rightarrow> bool \<Rightarrow> int list option \<Rightarrow> gen_args" where
  "blend_args rn style ratio save_query_cache query_critical_layers =
     (let uses_contextblend = save_query_cache \<or> (rn_enhance rn \<and> style \<noteq> ''KVCOMPUTE'');
          with_digest = uses_contextblend \<and> (save_query_cache \<or> rn_source rn = ''query'');
          critical = (if save_query_cache \<and> query_critical_layers \<noteq> None then query_critical_layers else rn_critical rn)
      in \<lparr>ga_style = style, ga_separator = BLEND_SEP, ga_start = rn_start rn, ga_ratio = ratio, ga_method = rn_method rn,
          ga_attn = (if rn_method rn = ''attn'' then Some (rn_attn_start rn, rn_attn_end rn) else None),
          ga_contextblend = (if uses_contextblend then Some True else None),
          ga_source = (if \<not> uses_contextblend then None else Some (if save_query_cache then ''query'' else rn_source rn)),
          ga_digest_ratio = (if with_digest then Some (rn_digest_ratio rn) else None),
          ga_digest_method = (if with_digest then Some (rn_digest_method rn) else None),
          ga_critical = (case critical of Some (l # ls) \<Rightarrow> Some (l # ls) | _ \<Rightarrow> None),
          ga_n_sink = (if save_query_cache \<or> style = ''KVCOMPUTE'' then Some (rn_n_sink rn) else None),
          ga_path_chunk = None, ga_path_query = None\<rparr>)"

text \<open>The request as \<open>Req\<close> keeps it, after the defaults of \<open>Engine.generate\<close>.\<close>

definition req_of_args :: "gen_args \<Rightarrow> int list \<Rightarrow> int \<Rightarrow> blend_req" where
  "req_of_args ga locs origin_len =
     \<lparr>rq_style = parse_blend_style (ArgStr (ga_style ga)), rq_blend_locs = locs, rq_origin_len = origin_len,
      rq_attn_start = (case ga_attn ga of None \<Rightarrow> 0 | Some a \<Rightarrow> fst a), rq_attn_end = (case ga_attn ga of None \<Rightarrow> - 1 | Some a \<Rightarrow> snd a),
      rq_start = ga_start ga, rq_ratio = ga_ratio ga, rq_method = Some (ga_method ga),
      rq_is_contextblend = (case ga_contextblend ga of None \<Rightarrow> False | Some b \<Rightarrow> b),
      rq_cache_source = Some (case ga_source ga of None \<Rightarrow> ''query'' | Some x \<Rightarrow> x), rq_n_sink = ga_n_sink ga,
      rq_digest_ratio = Some (case ga_digest_ratio ga of None \<Rightarrow> DEFAULT_DIGEST_RATIO | Some x \<Rightarrow> x),
      rq_digest_method = Some (case ga_digest_method ga of None \<Rightarrow> ''kvzip'' | Some x \<Rightarrow> x), rq_critical_layers = ga_critical ga,
      rq_path_chunk = ga_path_chunk ga, rq_path_query = ga_path_query ga\<rparr>"

section \<open>Samples\<close>

record ssd_sample =
  sa_idx :: int
  sa_answers :: "string list"
  sa_prompt :: string
  sa_plain_prompt :: string
  sa_offline_prompt :: string
  sa_query_sep :: string
  sa_dir_chunk :: string
  sa_dir_query :: string
  sa_has_cache :: bool

definition with_ssd_args :: "ssd_sample \<Rightarrow> gen_args \<Rightarrow> gen_args" where
  "with_ssd_args sample ga = ga\<lparr>ga_path_chunk := Some (sa_dir_chunk sample), ga_path_query := Some (sa_dir_query sample)\<rparr>"

fun answer_list :: "answers \<Rightarrow> string list" where
  "answer_list (OneAnswer a) = [a]"
| "answer_list (Answers as) = as"

definition prepare_sample :: "(string \<Rightarrow> f64 option) \<Rightarrow> runner \<Rightarrow> example \<Rightarrow> string \<Rightarrow> int \<Rightarrow> string \<Rightarrow> ssd \<Rightarrow> ssd_sample res" where
  "prepare_sample parse rn ex dataset_name sample_idx system_prompt s =
     (let (chunk_dir, query_dir) = cache_paths rn dataset_name sample_idx
      in rbind (build_prompt_for_dataset ex dataset_name) (\<lambda>(docs, q_prompt).
         let (prompt, query_sep) = build_prompt rn system_prompt docs q_prompt True;
             (plain_prompt, _) = build_prompt rn system_prompt docs q_prompt False
         in rbind (has_cache parse rn chunk_dir query_dir (requires_query_cache rn) None s) (\<lambda>cached.
            Inr \<lparr>sa_idx = sample_idx, sa_answers = answer_list (ex_answers ex), sa_prompt = prompt, sa_plain_prompt = plain_prompt,
                 sa_offline_prompt = build_augmented_prompt rn system_prompt docs q_prompt, sa_query_sep = query_sep,
                 sa_dir_chunk = chunk_dir, sa_dir_query = query_dir, sa_has_cache = cached\<rparr>)))"

fun prepare_from :: "(string \<Rightarrow> f64 option) \<Rightarrow> runner \<Rightarrow> string \<Rightarrow> string \<Rightarrow> ssd \<Rightarrow> int \<Rightarrow> example list \<Rightarrow> ssd_sample list res" where
  "prepare_from parse rn dataset_name system_prompt s idx [] = Inr []"
| "prepare_from parse rn dataset_name system_prompt s idx (ex # exs) =
     rbind (prepare_sample parse rn ex dataset_name idx system_prompt s) (\<lambda>sample.
     rbind (prepare_from parse rn dataset_name system_prompt s (idx + 1) exs) (\<lambda>samples. Inr (sample # samples)))"

definition prepare_samples :: "(string \<Rightarrow> f64 option) \<Rightarrow> runner \<Rightarrow> example list \<Rightarrow> string \<Rightarrow> ssd \<Rightarrow> ssd_sample list res" where
  "prepare_samples parse rn dataset dataset_name s = prepare_from parse rn dataset_name (get_system_prompt dataset_name) s 0 dataset"

section \<open>Generating\<close>

text \<open>The world outside: the engine streams chunks, each with the time of its arrival and its text; the
  clock and the files are read off the state.\<close>

record 'e outside =
  os_generate :: "gen_call \<Rightarrow> 'e \<Rightarrow> ((f64 \<times> string option) list \<times> 'e) res"
  os_now :: "'e \<Rightarrow> f64"
  os_ssd :: "'e \<Rightarrow> ssd"
  os_rouge :: "string \<Rightarrow> string \<Rightarrow> f64"
  os_float :: "string \<Rightarrow> f64 option"

definition drain_generate :: "'e outside \<Rightarrow> gen_call \<Rightarrow> 'e \<Rightarrow> 'e res" where
  "drain_generate os call e = rbind (os_generate os call e) (\<lambda>(_, e'). Inr e')"

definition text_of :: "string option \<Rightarrow> string" where
  "text_of t = (case t of None \<Rightarrow> [] | Some s \<Rightarrow> s)"

fun first_text :: "f64 \<Rightarrow> (f64 \<times> string option) list \<Rightarrow> f64 option" where
  "first_text start [] = None"
| "first_text start ((now, t) # outs) = (if text_of t \<noteq> [] then Some (f64_round (now - start)) else first_text start outs)"

definition timed_generate :: "'e outside \<Rightarrow> gen_call \<Rightarrow> 'e \<Rightarrow> ((string \<times> f64) \<times> 'e) res" where
  "timed_generate os call e =
     rbind (os_generate os call e) (\<lambda>(outs, e').
     let start = os_now os e;
         ttft = (case first_text start outs of
                   None \<Rightarrow> f64_round (os_now os e' - start)
                 | Some t \<Rightarrow> if t = 0 then f64_round (os_now os e' - start) else t)
     in Inr ((if outs = [] then [] else text_of (snd (last outs)), ttft), e'))"

definition qcompute_call :: "runner \<Rightarrow> f64 \<Rightarrow> ssd_sample \<Rightarrow> gen_call" where
  "qcompute_call rn ratio sa =
     \<lparr>gc_prompt = sa_query_sep sa, gc_max_new_tokens = 0, gc_args = Some (with_ssd_args sa (blend_args rn ''QCOMPUTE'' ratio False None))\<rparr>"

definition finish_call :: "runner \<Rightarrow> f64 \<Rightarrow> int \<Rightarrow> ssd_sample \<Rightarrow> gen_call" where
  "finish_call rn ratio max_tokens sa =
     \<lparr>gc_prompt = sa_prompt sa, gc_max_new_tokens = max_tokens,
      gc_args = Some (with_ssd_args sa (blend_args rn ''DO_BLEND_FINISH'' ratio False None))\<rparr>"

definition plain_call :: "int \<Rightarrow> ssd_sample \<Rightarrow> gen_call" where
  "plain_call max_tokens sa = \<lparr>gc_prompt = sa_plain_prompt sa, gc_max_new_tokens = max_tokens, gc_args = None\<rparr>"

section \<open>The phases\<close>

fun warmup_loop :: "'e outside \<Rightarrow> runner \<Rightarrow> f64 \<Rightarrow> ssd_sample list \<Rightarrow> 'e \<Rightarrow> 'e res" where
  "warmup_loop os rn ratio [] e = Inr e"
| "warmup_loop os rn ratio (sa # sas) e =
     (if rn_baseline rn = ''fullcomp'' then rbind (drain_generate os (plain_call 1 sa) e) (warmup_loop os rn ratio sas)
      else if \<not> sa_has_cache sa then warmup_loop os rn ratio sas e
      else
        rbind (if rn_method rn = ''attn'' then drain_generate os (qcompute_call rn ratio sa) e else Inr e) (\<lambda>e1.
        rbind (drain_generate os (finish_call rn ratio 1 sa) e1) (warmup_loop os rn ratio sas)))"

definition warmup_blend :: "'e outside \<Rightarrow> runner \<Rightarrow> example list \<Rightarrow> string \<Rightarrow> f64 \<Rightarrow> nat \<Rightarrow> 'e \<Rightarrow> 'e res" where
  "warmup_blend os rn dataset dataset_name ratio num_warmup e =
     (if dataset = [] then Inr e
      else
        rbind (prepare_samples (os_float os) rn dataset dataset_name (os_ssd os e)) (\<lambda>sample_data.
        warmup_loop os rn ratio (drop (length sample_data - num_warmup) sample_data) e))"

definition offline_call :: "runner \<Rightarrow> int list \<Rightarrow> ssd_sample \<Rightarrow> gen_call" where
  "offline_call rn query_critical_layers sa =
     \<lparr>gc_prompt = sa_offline_prompt sa, gc_max_new_tokens = 1,
      gc_args = Some (with_ssd_args sa (blend_args rn (rn_first_style rn) 0 True (Some query_critical_layers)))\<rparr>"

fun offline_loop :: "'e outside \<Rightarrow> runner \<Rightarrow> string \<Rightarrow> int list \<Rightarrow> int \<Rightarrow> example list \<Rightarrow> 'e \<Rightarrow> 'e res" where
  "offline_loop os rn dataset_name crit idx [] e = Inr e"
| "offline_loop os rn dataset_name crit idx (ex # exs) e =
     (let (chunk_dir, query_dir) = cache_paths rn dataset_name idx;
          cached = (\<lambda>req e. has_cache (os_float os) rn chunk_dir query_dir req (if req then Some crit else None) (os_ssd os e))
      in rbind (cached True e) (\<lambda>hit.
         if hit then offline_loop os rn dataset_name crit (idx + 1) exs e
         else
           rbind (prepare_sample (os_float os) rn ex dataset_name idx (get_system_prompt dataset_name) (os_ssd os e)) (\<lambda>sample.
           rbind (drain_generate os (offline_call rn crit sample) e) (\<lambda>e1.
           rbind (cached True e1) (\<lambda>hit1.
           if hit1 then offline_loop os rn dataset_name crit (idx + 1) exs e1
           else
             rbind (cached False e1) (\<lambda>chunk_only.
             if chunk_only then Inl (RuntimeError ''query cache is incomplete'')
             else Inl (RuntimeError ''SSD cache was not generated'')))))))"

definition phase1_offline :: "'e outside \<Rightarrow> runner \<Rightarrow> example list \<Rightarrow> string \<Rightarrow> 'e \<Rightarrow> 'e res" where
  "phase1_offline os rn dataset dataset_name e =
     (if rn_first_style rn \<noteq> ''KVCOMPUTE'' then Inr e
      else rbind (offline_query_critical_layers rn) (\<lambda>crit. offline_loop os rn dataset_name crit 0 dataset e))"

text \<open>The results: time to first token and score of every sample that ran.\<close>

fun online_loop ::
    "'e outside \<Rightarrow> runner \<Rightarrow> string \<Rightarrow> f64 \<Rightarrow> int \<Rightarrow> (f64 \<times> f64) list \<Rightarrow> ssd_sample list \<Rightarrow> 'e \<Rightarrow> ((f64 \<times> f64) list \<times> 'e) res" where
  "online_loop os rn dataset_name ratio max_tokens bucket [] e = Inr (bucket, e)"
| "online_loop os rn dataset_name ratio max_tokens bucket (sa # sas) e =
     (let score = (\<lambda>text. evaluate_sample (os_rouge os) text (sa_answers sa) dataset_name)
      in if rn_baseline rn = ''fullcomp'' then
           rbind (timed_generate os (plain_call max_tokens sa) e) (\<lambda>((text, ttft), e1).
           online_loop os rn dataset_name ratio max_tokens (bucket @ [(ttft, score text)]) sas e1)
         else if \<not> sa_has_cache sa then online_loop os rn dataset_name ratio max_tokens bucket sas e
         else
           rbind (if rn_method rn = ''attn'' then
                    rbind (drain_generate os (qcompute_call rn ratio sa) e) (\<lambda>e1. Inr (f64_round (os_now os e1 - os_now os e), e1))
                  else Inr (0, e)) (\<lambda>(q_time, e1).
           rbind (timed_generate os (finish_call rn ratio max_tokens sa) e1) (\<lambda>((text, ttft), e2).
           online_loop os rn dataset_name ratio max_tokens (bucket @ [(f64_round (ttft + q_time), score text)]) sas e2)))"

definition phase2_online :: "'e outside \<Rightarrow> runner \<Rightarrow> example list \<Rightarrow> string \<Rightarrow> f64 \<Rightarrow> 'e \<Rightarrow> ((f64 \<times> f64) list \<times> 'e) res" where
  "phase2_online os rn dataset dataset_name ratio e =
     rbind (prepare_samples (os_float os) rn dataset dataset_name (os_ssd os e)) (\<lambda>sample_data.
     online_loop os rn dataset_name ratio (get_max_new_tokens dataset_name) [] sample_data e)"

text \<open>The runs of \<open>main\<close> on a configured runner.\<close>

definition run_phases :: "'e outside \<Rightarrow> runner \<Rightarrow> example list \<Rightarrow> string \<Rightarrow> 'e \<Rightarrow> ((f64 \<times> f64) list \<times> 'e) res" where
  "run_phases os rn dataset dataset_name e =
     (let blends = (rn_baseline rn \<in> set BLEND_BASELINES); ratio = (if blends then DEFAULT_BLEND_RATIO else 1)
      in rbind (if blends then phase1_offline os rn dataset dataset_name e else Inr e) (\<lambda>e1.
         rbind (warmup_blend os rn dataset dataset_name ratio 3 e1) (\<lambda>e2.
         phase2_online os rn dataset dataset_name ratio e2)))"

end
