(* ===== verification/RunnerPrompts.thy ===== *)
theory RunnerPrompts
  imports Runner
begin

text \<open>
  The prompts of the runner and the splitting of the server: joined with the separator, the parts come
  back, and the tokens the offline pass keeps of its augmented prompt are the tokens of the online one.
\<close>

section \<open>Joining and splitting\<close>

text \<open>The first character of the separator occurs in it only once, so no two occurrences overlap.\<close>

lemma no_straddle:
  assumes "c \<notin> set s" "\<not> prefix_at (c # s) u" "u \<noteq> []"
  shows "\<not> prefix_at (c # s) (u @ (c # s) @ rest)"
proof
  assume p: "prefix_at (c # s) (u @ (c # s) @ rest)"
  show False
  proof (cases "length (c # s) \<le> length u")
    case True
    then show False using p assms(2) by (simp add: prefix_at_def take_append)
  next
    case False
    then have "(c # s) ! length u = (u @ (c # s) @ rest) ! length u" using p unfolding prefix_at_def by (metis not_le nth_take)
    then have "(c # s) ! length u = c" by (simp add: nth_append)
    moreover have "(c # s) ! length u \<in> set s" using False assms(3) by (cases u) auto
    ultimately show False using assms(1) by simp
  qed
qed

lemma contains_iff: "py_contains p sep \<longleftrightarrow> (\<exists>i \<le> length p. prefix_at sep (drop i p))"
  unfolding py_contains_def list_ex_iff set_upt atLeastLessThan_iff Bex_def by (simp add: less_Suc_eq_le)

lemma not_contains: "\<not> py_contains p sep \<Longrightarrow> i \<le> length p \<Longrightarrow> \<not> prefix_at sep (drop i p)"
  by (simp add: contains_iff)

lemma not_contains_Cons: "\<not> py_contains (x # p) sep \<Longrightarrow> \<not> py_contains p sep"
proof -
  assume a: "\<not> py_contains (x # p) sep"
  have "\<not> prefix_at sep (drop i p)" if "i \<le> length p" for i using not_contains [OF a, of "Suc i"] that by simp
  then show ?thesis by (auto simp: contains_iff)
qed

lemma split_part:
  "c \<notin> set s \<Longrightarrow> \<not> py_contains p (c # s) \<Longrightarrow>
    py_split_loop (c # s) acc (p @ (c # s) @ rest) = (rev acc @ p) # py_split_loop (c # s) [] rest"
proof (induction p arbitrary: acc)
  case Nil
  then show ?case by (simp add: prefix_at_def)
next
  case (Cons x p)
  have "\<not> prefix_at (c # s) (x # p)" using not_contains [OF Cons.prems(2), of 0] by simp
  from no_straddle [OF Cons.prems(1) this, of rest] have "\<not> prefix_at (c # s) (x # p @ c # s @ rest)" by simp
  then show ?case using Cons.IH [OF Cons.prems(1) not_contains_Cons [OF Cons.prems(2)]] by simp
qed

lemma split_last: "\<not> py_contains p sep \<Longrightarrow> py_split_loop sep acc p = [rev acc @ p]"
proof (induction p arbitrary: acc)
  case (Cons x p)
  have "\<not> prefix_at sep (x # p)" using not_contains [OF Cons.prems, of 0] by simp
  then show ?case using Cons.IH [OF not_contains_Cons [OF Cons.prems]] by simp
qed simp

lemma split_join:
  "c \<notin> set s \<Longrightarrow> \<forall>p \<in> set parts. \<not> py_contains p (c # s) \<Longrightarrow> parts \<noteq> [] \<Longrightarrow>
    py_split_loop (c # s) [] (py_join (c # s) parts) = parts"
proof (induction parts)
  case (Cons p parts)
  show ?case
  proof (cases "parts = []")
    case True
    then show ?thesis using Cons.prems split_last [of p "c # s" "[]"] by simp
  next
    case False
    then show ?thesis using Cons split_part [of c s p "[]" "py_join (c # s) parts"] by (simp add: py_join_Cons)
  qed
qed simp

lemma split_join_tokens:
  assumes "\<forall>p \<in> set parts. \<not> py_contains p BLEND_SEP" "parts \<noteq> []" "\<And>s. tokenize_segment tok s = Inr (enc s)"
  shows "split_text_tokens (py_join BLEND_SEP parts) BLEND_SEP tok =
    Inr (concat parts, concat (map enc parts), 0 # running_sums 0 (map (\<lambda>xs. int (length xs)) (map enc parts)))"
proof -
  obtain s where s: "BLEND_SEP = CHR ''<'' # s" "CHR ''<'' \<notin> set s" by (simp add: BLEND_SEP_def)
  have "py_split_loop BLEND_SEP [] (py_join BLEND_SEP parts) = parts"
    using split_join [OF s(2)] assms(1,2) unfolding s(1) by blast
  then show ?thesis using assms(3) by (simp add: split_text_tokens_def py_split_def split_text_loop_eq o_def) (simp add: BLEND_SEP_def)
qed

section \<open>The kept tokens of the augmented prompt\<close>

text \<open>The tokens of a prompt with a zip prompt after every document.\<close>

definition with_zips :: "'a list \<Rightarrow> 'a list list \<Rightarrow> 'a list \<Rightarrow> 'a list \<Rightarrow> 'a list list" where
  "with_zips pre docs z suf = [pre] @ concat (map (\<lambda>d. [d, z]) docs) @ [suf]"

lemma with_zips_nth:
  "length (with_zips pre docs z suf) = 2 * length docs + 2"
  "with_zips pre docs z suf ! 0 = pre" "with_zips pre docs z suf ! (2 * length docs + 1) = suf"
  "i < length docs \<Longrightarrow> with_zips pre docs z suf ! (1 + 2 * i) = docs ! i"
proof -
  have l: "length (concat (map (\<lambda>d. [d, z]) ds)) = 2 * length ds" for ds :: "'a list list" by (induction ds) auto
  have n: "i < length ds \<Longrightarrow> concat (map (\<lambda>d. [d, z]) ds) ! (2 * i) = ds ! i" for ds :: "'a list list"
  proof (induction ds arbitrary: i)
    case (Cons d ds)
    then show ?case by (cases i) auto
  qed simp
  show "length (with_zips pre docs z suf) = 2 * length docs + 2" "with_zips pre docs z suf ! 0 = pre"
    "with_zips pre docs z suf ! (2 * length docs + 1) = suf"
    by (simp_all add: with_zips_def l nth_append)
  show "i < length docs \<Longrightarrow> with_zips pre docs z suf ! (1 + 2 * i) = docs ! i"
    by (simp add: with_zips_def nth_append l n)
qed

lemma read_back: "i < length xss \<Longrightarrow>
    map (\<lambda>t. concat xss ! nat t) (py_range ((0 # running_sums 0 (map (\<lambda>xs. int (length xs)) xss)) ! i)
      ((0 # running_sums 0 (map (\<lambda>xs. int (length xs)) xss)) ! Suc i)) = xss ! i"
proof -
  assume i: "i < length xss"
  define locs where "locs = 0 # running_sums 0 (map (\<lambda>xs. int (length xs)) xss)"
  have a: "locs ! i = int (length (concat (take i xss)))" "locs ! Suc i = int (length (concat (take (Suc i) xss)))"
    unfolding locs_def using i by (intro concat_loc; simp)+
  have c: "concat xss = concat (take i xss) @ xss ! i @ concat (drop (Suc i) xss)"
    using id_take_nth_drop [OF i] by (metis concat.simps(2) concat_append)
  have t: "concat (take (Suc i) xss) = concat (take i xss) @ xss ! i" using i by (simp add: take_Suc_conv_app_nth)
  let ?A = "length (concat (take i xss))"
  have r: "py_range (locs ! i) (locs ! Suc i) = map (\<lambda>j. int (?A + j)) [0..<length (xss ! i)]"
    unfolding a t by (rule nth_equalityI) (simp_all add: nth_py_range)
  have n: "concat xss ! (?A + j) = xss ! i ! j" if "j < length (xss ! i)" for j
    unfolding c using that by (simp add: nth_append del: length_concat)
  have "map (\<lambda>t. concat xss ! nat t) (py_range (locs ! i) (locs ! Suc i)) = map (\<lambda>j. xss ! i ! j) [0..<length (xss ! i)]"
    unfolding r map_map o_def nat_int using n by (intro map_cong) auto
  then show ?thesis unfolding locs_def [symmetric] by (simp add: map_nth)
qed

lemma kept_of_zips:
  fixes pre suf z :: "int list" and docs :: "int list list"
  defines "xss \<equiv> with_zips pre docs z suf"
  defines "locs \<equiv> 0 # running_sums 0 (map (\<lambda>xs. int (length xs)) xss)"
  assumes "docs \<noteq> []"
  shows "\<exists>al. prepare_augmented_locs_for_request locs = Some al \<and>
    map (\<lambda>t. concat xss ! nat t) (al_keep_indices al) = concat ([pre] @ docs @ [suf]) \<and>
    al_original_locs al = 0 # running_sums 0 (map (\<lambda>xs. int (length xs)) ([pre] @ docs @ [suf]))"
proof -
  define k where "k = length docs"
  note w = with_zips_nth [where pre = pre and docs = docs and z = z and suf = suf, folded xss_def k_def]
  have l: "length locs = 2 * k + 3" "0 < k" using w(1) assms(3) by (simp_all add: locs_def k_def)
  let ?f = "\<lambda>r :: int \<times> int. map (\<lambda>t. concat xss ! nat t) (py_range (fst r) (snd r))"
  have rb: "?f (locs ! i, locs ! Suc i) = xss ! i" if "i < 2 * k + 2" for i
    using read_back [of i xss] that w(1) by (simp add: locs_def)
  have f: "map ?f (kept_ranges locs k) = [pre] @ docs @ [suf]"
  proof -
    have "map ?f (docs_of locs k) = map (\<lambda>i. docs ! i) [0..<k]"
      unfolding docs_of_def map_map o_def using rb w(4) by (intro map_cong) auto
    then have "map ?f (docs_of locs k) = docs" by (simp add: k_def map_nth)
    moreover have "?f (locs ! 0, locs ! 1) = pre" "?f (locs ! (2 * k + 1), locs ! (2 * k + 2)) = suf"
      using rb [of 0] rb [of "2 * k + 1"] w(2,3) by simp_all
    ultimately show ?thesis by (simp add: kept_ranges_def)
  qed
  have "map (\<lambda>t. concat xss ! nat t) (concat (map (\<lambda>r. py_range (fst r) (snd r)) (kept_ranges locs k))) = concat (map ?f (kept_ranges locs k))"
    by (simp add: map_concat o_def)
  moreover have "map range_len (kept_ranges locs k) = map (\<lambda>xs. int (length xs)) (map ?f (kept_ranges locs k))"
  proof -
    have s: "sorted locs" unfolding locs_def by (rule running_sums_nonneg_sorted) auto
    have "ranges_chain lo rs \<Longrightarrow> \<forall>r \<in> set rs. fst r \<le> snd r" for lo rs
      by (induction lo rs rule: ranges_chain.induct) auto
    from this [OF kept_chain [OF s l(1)]] show ?thesis by simp
  qed
  ultimately show ?thesis unfolding prepare_augmented_eq [OF l] f by simp
qed

section \<open>Property\<close>

text \<open>C18: the offline pass and the online pass see the same prompt. When the separator does not occur in
  the parts of a prompt with at least one document, the server splits the augmented offline prompt of the
  runner into system part, documents with their repetition prompts, and query, and the tokens it keeps of
  it, read in order, are exactly the tokens of the online prompt, cut at the same chunk boundaries; and the
  text of the online prompt after splitting is the plain prompt.\<close>

theorem offline_keeps_online_prompt:
  assumes "\<not> py_contains (prompt_prefix rn sys) BLEND_SEP" "\<not> py_contains (prompt_suffix rn q) BLEND_SEP"
    and "\<forall>d \<in> set docs. \<not> py_contains d BLEND_SEP" "docs \<noteq> []" "\<And>s. tokenize_segment tok s = Inr (enc s)"
  shows "\<exists>t ids locs ids' locs' al. split_text_tokens (build_augmented_prompt rn sys docs q) BLEND_SEP tok = Inr (t, ids, locs) \<and>
    split_text_tokens (fst (build_prompt rn sys docs q True)) BLEND_SEP tok = Inr (fst (build_prompt rn sys docs q False), ids', locs') \<and>
    prepare_augmented_locs_for_request locs = Some al \<and> map (\<lambda>i. ids ! nat i) (al_keep_indices al) = ids' \<and> al_original_locs al = locs'"
proof -
  let ?pre = "prompt_prefix rn sys" and ?suf = "prompt_suffix rn q"
  let ?on = "[?pre] @ docs @ [?suf]" and ?off = "[?pre] @ concat (map (\<lambda>doc. [doc, DIGEST_ZIP_PROMPT]) docs) @ [?suf]"
  have z: "\<not> py_contains DIGEST_ZIP_PROMPT BLEND_SEP" by code_simp
  have off: "\<forall>p \<in> set ?off. \<not> py_contains p BLEND_SEP" using assms(1-3) z by auto
  have on: "\<forall>p \<in> set ?on. \<not> py_contains p BLEND_SEP" using assms(1-3) by auto
  have e: "map enc ?off = with_zips (enc ?pre) (map enc docs) (enc DIGEST_ZIP_PROMPT) (enc ?suf)" "map enc ?on = [enc ?pre] @ map enc docs @ [enc ?suf]"
    by (simp_all add: with_zips_def map_concat o_def)
  have "map enc docs \<noteq> []" using assms(4) by simp
  from kept_of_zips [OF this, of "enc ?pre" "enc DIGEST_ZIP_PROMPT" "enc ?suf"] split_join_tokens [OF off _ assms(5)] split_join_tokens [OF on _ assms(5)]
  show ?thesis unfolding e by (auto simp: build_augmented_prompt_def build_prompt_def Let_def)
qed

definition ex_runner :: "string \<Rightarrow> runner" where
  "ex_runner baseline =
     \<lparr>rn_model_name = ''m'', rn_num_layers = 2, rn_baseline = baseline, rn_first_style = ''KVCOMPUTE'', rn_start = 0, rn_method = ''attn'',
      rn_attn_start = 0, rn_attn_end = 1, rn_critical = Some [0], rn_enhance = True, rn_n_sink = 4, rn_digest_method = ''kvzip'',
      rn_digest_ratio = 1 / 2, rn_source = ''query'', rn_topk = 3, rn_cache_dir = ''c''\<rparr>"

theorem offline_keeps_online_prompt_witness:
  "\<exists>t ids locs al. split_text_tokens (build_augmented_prompt (ex_runner ''ours'') ''s'' [''ab'', ''c''] [''q'']) BLEND_SEP (HasEncode (map of_char)) = Inr (t, ids, locs) \<and>
    prepare_augmented_locs_for_request locs = Some al \<and> map (\<lambda>i. ids ! nat i) (al_keep_indices al) = map of_char (''sabcq'' @ nl @ nl @ ''## Answer'' @ nl)"
proof -
  have c: "\<not> py_contains (prompt_prefix (ex_runner ''ours'') ''s'') BLEND_SEP" "\<not> py_contains (prompt_suffix (ex_runner ''ours'') [''q'']) BLEND_SEP"
    "\<forall>d \<in> set [''ab'', ''c'']. \<not> py_contains d BLEND_SEP" by code_simp+
  have v: "(case split_text_tokens (fst (build_prompt (ex_runner ''ours'') ''s'' [''ab'', ''c''] [''q''] True)) BLEND_SEP (HasEncode (map (\<lambda>c. of_char c :: int))) of
      Inr (t, ids, locs) \<Rightarrow> ids = map of_char (''sabcq'' @ nl @ nl @ ''## Answer'' @ nl) | Inl _ \<Rightarrow> False)" by code_simp
  show ?thesis using offline_keeps_online_prompt [OF c, of "HasEncode (map of_char)" "map of_char"] v by auto
qed

end
