(* ===== verification/RunnerCorrect.thy ===== *)
theory RunnerCorrect
  imports RunnerPrompts ContextFlow
begin

text \<open>
  The requests of a run in the order they are sent: every QCOMPUTE request is followed at once by the
  DO_BLEND_FINISH request with the same arguments, in every phase of the runner.
\<close>

section \<open>The requests of a run\<close>

text \<open>The same world that also logs the requests.\<close>

definition logged :: "'e outside \<Rightarrow> ('e \<times> gen_call list) outside" where
  "logged os =
     \<lparr>os_generate = (\<lambda>c s. rbind (os_generate os c (fst s)) (\<lambda>(outs, e'). Inr (outs, (e', snd s @ [c])))),
      os_now = os_now os \<circ> fst, os_ssd = os_ssd os \<circ> fst, os_rouge = os_rouge os, os_float = os_float os\<rparr>"

definition call_style :: "gen_call \<Rightarrow> string option" where
  "call_style c = map_option ga_style (gc_args c)"

text \<open>A QCOMPUTE request is followed at once by the DO_BLEND_FINISH request with the same arguments; every
  DO_BLEND_FINISH request follows one; the others are plain or KVCOMPUTE.\<close>

definition finishes :: "gen_call \<Rightarrow> gen_call \<Rightarrow> bool" where
  "finishes c d \<longleftrightarrow> (\<exists>a. gc_args c = Some a \<and> gc_args d = Some (a\<lparr>ga_style := ''DO_BLEND_FINISH''\<rparr>))"

fun in_rounds :: "gen_call list \<Rightarrow> bool" where
  "in_rounds [] \<longleftrightarrow> True"
| "in_rounds [c] \<longleftrightarrow> call_style c \<in> {None, Some ''KVCOMPUTE''}"
| "in_rounds (c # d # cs) \<longleftrightarrow>
     (if call_style c = Some ''QCOMPUTE'' then finishes c d \<and> in_rounds cs
      else call_style c \<in> {None, Some ''KVCOMPUTE''} \<and> in_rounds (d # cs))"

lemma paired_append: "in_rounds xs \<Longrightarrow> in_rounds ys \<Longrightarrow> in_rounds (xs @ ys)"
proof (induction xs rule: in_rounds.induct)
  case (2 c)
  then show ?case by (cases ys) auto
qed (auto split: if_splits)

lemma paired_single: "call_style c \<in> {None, Some ''KVCOMPUTE''} \<Longrightarrow> in_rounds [c]"
  by simp

lemma paired_round: "in_rounds [qcompute_call rn ratio sa, finish_call rn ratio n sa]"
  by (auto simp: call_style_def qcompute_call_def finish_call_def finishes_def with_ssd_args_def blend_args_def Let_def)

lemma logged_fields [simp]: "os_float (logged os) = os_float os" "os_rouge (logged os) = os_rouge os" "os_ssd (logged os) s = os_ssd os (fst s)"
  by (simp_all add: logged_def)

lemma drain_logged: "drain_generate (logged os) c s = Inr s' \<Longrightarrow> drain_generate os c (fst s) = Inr (fst s') \<and> snd s' = snd s @ [c]"
  by (auto simp: drain_generate_def logged_def rbind_Inr_iff)

lemma timed_logged: "timed_generate (logged os) c s = Inr (r, s') \<Longrightarrow> snd s' = snd s @ [c]"
  by (auto simp: timed_generate_def logged_def rbind_Inr_iff Let_def)

definition adds_paired :: "'e \<times> gen_call list \<Rightarrow> 'e \<times> gen_call list \<Rightarrow> bool" where
  "adds_paired s s' \<longleftrightarrow> (\<exists>l. snd s' = snd s @ l \<and> in_rounds l)"

lemma adds_refl [simp]: "adds_paired s s"
  by (auto simp: adds_paired_def)

lemma adds_trans: "adds_paired s t \<Longrightarrow> adds_paired t u \<Longrightarrow> adds_paired s u"
  unfolding adds_paired_def using paired_append by fastforce

lemma adds_one: "snd t = snd s @ [c] \<Longrightarrow> call_style c \<in> {None, Some ''KVCOMPUTE''} \<Longrightarrow> adds_paired s t"
  unfolding adds_paired_def using paired_single by blast

lemma adds_round:
  "snd t = snd s @ [qcompute_call rn ratio sa] \<Longrightarrow> snd u = snd t @ [finish_call rn ratio n sa] \<Longrightarrow> adds_paired s u"
  unfolding adds_paired_def using paired_round by (metis append.assoc append_Cons append_Nil)

lemma plain_style: "call_style (plain_call n sa) \<in> {None, Some ''KVCOMPUTE''}"
  by (simp add: call_style_def plain_call_def)

lemmas drain_appends = drain_logged [THEN conjunct2]

lemma warmup_paired: "warmup_loop (logged os) rn ratio sas s = Inr s' \<Longrightarrow> rn_method rn = ''attn'' \<or> rn_baseline rn = ''fullcomp'' \<Longrightarrow> adds_paired s s'"
proof (induction sas arbitrary: s)
  case (Cons sa sas)
  show ?case
  proof (cases "rn_baseline rn = ''fullcomp''")
    case True
    then obtain t where "drain_generate (logged os) (plain_call 1 sa) s = Inr t" "warmup_loop (logged os) rn ratio sas t = Inr s'"
      using Cons.prems(1) by (auto simp: rbind_Inr_iff)
    moreover from this(1) have "adds_paired s t" by (intro adds_one [OF drain_appends plain_style])
    ultimately show ?thesis using Cons.IH Cons.prems(2) adds_trans by blast
  next
    case nf: False
    show ?thesis
    proof (cases "sa_has_cache sa")
      case True
      then obtain t u where "drain_generate (logged os) (qcompute_call rn ratio sa) s = Inr t"
        "drain_generate (logged os) (finish_call rn ratio 1 sa) t = Inr u" "warmup_loop (logged os) rn ratio sas u = Inr s'"
        using Cons.prems nf by (auto simp: rbind_Inr_iff)
      moreover from this(1,2) have "adds_paired s u" by (intro adds_round [OF drain_appends drain_appends])
      ultimately show ?thesis using Cons.IH Cons.prems(2) adds_trans by blast
    qed (use Cons nf in auto)
  qed
qed simp

lemma online_paired: "online_loop (logged os) rn name ratio n bucket sas s = Inr (r, s') \<Longrightarrow> rn_method rn = ''attn'' \<or> rn_baseline rn = ''fullcomp'' \<Longrightarrow>
    adds_paired s s'"
proof (induction sas arbitrary: s bucket)
  case (Cons sa sas)
  show ?case
  proof (cases "rn_baseline rn = ''fullcomp''")
    case True
    then obtain x t b where "timed_generate (logged os) (plain_call n sa) s = Inr (x, t)" "online_loop (logged os) rn name ratio n b sas t = Inr (r, s')"
      using Cons.prems(1) by (auto simp: rbind_Inr_iff Let_def)
    moreover from this(1) have "adds_paired s t" by (intro adds_one [OF timed_logged plain_style])
    ultimately show ?thesis using Cons.IH Cons.prems(2) adds_trans by blast
  next
    case nf: False
    show ?thesis
    proof (cases "sa_has_cache sa")
      case True
      then obtain t x u b where "drain_generate (logged os) (qcompute_call rn ratio sa) s = Inr t"
        "timed_generate (logged os) (finish_call rn ratio n sa) t = Inr (x, u)" "online_loop (logged os) rn name ratio n b sas u = Inr (r, s')"
        using Cons.prems nf by (auto simp: rbind_Inr_iff Let_def)
      moreover from this(1,2) have "adds_paired s u" by (intro adds_round [OF drain_appends timed_logged])
      ultimately show ?thesis using Cons.IH Cons.prems(2) adds_trans by blast
    qed (use Cons nf in \<open>auto simp: Let_def\<close>)
  qed
qed simp

lemma offline_paired: "offline_loop (logged os) rn name crit idx exs s = Inr s' \<Longrightarrow> rn_first_style rn = ''KVCOMPUTE'' \<Longrightarrow> adds_paired s s'"
proof (induction exs arbitrary: idx s)
  case (Cons ex exs)
  obtain cd qd where p: "cache_paths rn name idx = (cd, qd)" by fastforce
  obtain hit where hit: "has_cache (os_float os) rn cd qd True (Some crit) (os_ssd os (fst s)) = Inr hit"
    using Cons.prems(1) by (auto simp: p rbind_Inr_iff Let_def)
  show ?case
  proof (cases hit)
    case False
    with Cons.prems(1) hit obtain sa t where g: "drain_generate (logged os) (offline_call rn crit sa) s = Inr t" "offline_loop (logged os) rn name crit (idx + 1) exs t = Inr s'"
      by (auto simp: p rbind_Inr_iff Let_def split: if_splits)
    have "call_style (offline_call rn crit sa) = Some ''KVCOMPUTE''"
      using Cons.prems(2) by (simp add: call_style_def offline_call_def with_ssd_args_def blend_args_def Let_def)
    then have "adds_paired s t" by (intro adds_one [OF drain_appends [OF g(1)]]) simp
    then show ?thesis using Cons.IH [OF g(2) Cons.prems(2)] adds_trans by blast
  qed (use Cons p hit in \<open>auto simp: Let_def\<close>)
qed simp

lemma configured: "configure_runner model baseline rn0 = Inr rn \<Longrightarrow>
    rn_baseline rn = baseline \<and> (baseline = ''fullcomp'' \<or> rn_method rn = ''attn'' \<and> rn_first_style rn = ''KVCOMPUTE'' \<and> baseline \<in> set BLEND_BASELINES)"
  by (auto simp: configure_runner_def set_baseline_def SUPPORTED_BASELINES_def BLEND_BASELINES_def BLEND_CONFIG_def BASELINE_DIGEST_RATIOS_def
      rbind_Inr_iff Let_def set_ours_layers_def set_fuserag_layers_def set_prophetkv_layers_def set_critical_layers_def split: if_splits)

end
