(* ===== verification/RunnerCache.thy ===== *)
theory RunnerCache
  imports RunnerCorrect BatchPrepCorrect
begin

text \<open>
  The runner and the server agree on the caches: what the last layer of an offline request saves is what
  the runner's check accepts, and a completed offline phase leaves nothing to send.
\<close>

section \<open>The files of a sample\<close>

lemma joined: "\<exists>p. os_path_join a b = p @ b"
  by (cases "a = [] \<or> last a = CHR ''/''") (auto simp: os_path_join_def intro: exI [of _ "a @ ''/''"])

lemma packed_query_paths: "os_path_join a PACKED_META_NAME \<noteq> os_path_join b QUERY_META_NAME"
proof
  obtain p q where "os_path_join a PACKED_META_NAME = p @ PACKED_META_NAME" "os_path_join b QUERY_META_NAME = q @ QUERY_META_NAME"
    using joined by meson
  moreover assume "os_path_join a PACKED_META_NAME = os_path_join b QUERY_META_NAME"
  ultimately have "rev (p @ PACKED_META_NAME) = rev (q @ QUERY_META_NAME)" by simp
  then show False by (simp add: PACKED_META_NAME_def QUERY_META_NAME_def)
qed

lemma chunk_cache_files:
  assumes "save_all_chunk_cache dir n idx p s = Inr s'"
  shows "bin_files s' (os_path_join dir PACKED_BIN_NAME) \<noteq> None"
    "\<exists>layers. json_files s' (os_path_join dir PACKED_META_NAME) =
       Some (JObj [(''format'', JStr PACKED_FORMAT), (''num_layers'', JInt n), (''layers'', JObj layers)])"
  using assms by (auto simp: save_all_chunk_cache_def save_packed_kv_def rbind_Inr_iff write_json_def write_bin_def)

lemma query_cache_files:
  assumes "save_all_query_cache dir n digest_idx (Some crit) crit_idx d p s = Inr s'"
  shows "bin_files s' (os_path_join dir QUERY_BIN_NAME) \<noteq> None"
    "\<exists>ibm m dl cl. export_payload None d = Inr (dm_metadata d, ibm) \<and>
       json_files s' (os_path_join dir QUERY_META_NAME) = Some (query_meta_json (dm_metadata d) ibm m n crit dl cl)"
    "f \<noteq> os_path_join dir QUERY_META_NAME \<Longrightarrow> json_files s' f = json_files s f"
    "bin_files s f \<noteq> None \<Longrightarrow> bin_files s' f \<noteq> None"
proof -
  from assms obtain dmeta ibm m f1 off1 dl f2 off2 cl where
    ex: "export_payload None d = Inr (dmeta, ibm)"
    and s': "s' = write_json (os_path_join dir QUERY_META_NAME) (query_meta_json dmeta ibm m n crit dl cl)
        (write_bin (os_path_join dir QUERY_BIN_NAME) f2 s)"
    by (auto simp: save_all_query_cache_def rbind_Inr_iff Let_def)
  have dm: "dmeta = dm_metadata d"
    using ex by (auto simp: export_payload_def rbind_Inr_iff split: if_splits option.splits)
  show "bin_files s' (os_path_join dir QUERY_BIN_NAME) \<noteq> None"
    "f \<noteq> os_path_join dir QUERY_META_NAME \<Longrightarrow> json_files s' f = json_files s f"
    "bin_files s f \<noteq> None \<Longrightarrow> bin_files s' f \<noteq> None" by (simp_all add: s' write_json_def write_bin_def)
  show "\<exists>ibm m dl cl. export_payload None d = Inr (dm_metadata d, ibm) \<and>
       json_files s' (os_path_join dir QUERY_META_NAME) = Some (query_meta_json (dm_metadata d) ibm m n crit dl cl)"
    using ex by (auto simp: s' dm write_json_def)
qed

section \<open>The metadata of a built index\<close>

lemma built_index_metadata:
  assumes "2 \<le> length (index_locs bi)" "build_all_indices argsort zero pool_layers bi (d, ctx) = Inr (d', ctx')"
  obtains ranges t payload rest where
    "dm_metadata d' = index_metadata ranges t ''kvzip'' (index_layers pool_layers bi)
       (case bi_digest_ratio bi of None \<Rightarrow> DEFAULT_DIGEST_RATIO | Some r \<Rightarrow> r)
       (case bi_critical_layers bi of None \<Rightarrow> [] | Some l \<Rightarrow> l) @ rest"
    "dm_indices d' = [(''kvzip'', JObj payload)]"
    "map_of payload ''context_n_sink'' = Some (JInt (max 0 (bi_context_n_sink bi)))"
proof -
  obtain m where m: "normalize_method (Some (bi_digest_index_method bi)) = Inr m"
    using assms(2) by (cases "normalize_method (Some (bi_digest_index_method bi))")
      (simp_all add: build_all_indices_def Let_def)
  then have mk: "m = ''kvzip''" by (simp add: normalize_method_def Let_def split: if_splits)
  have "length (chunk_abs_ranges (index_locs bi)) \<noteq> 0" using assms(1) by simp
  then have ne: "chunk_abs_ranges (index_locs bi) \<noteq> []" by (metis list.size(3))
  note b = assms(2) [unfolded build_all_indices_def Let_def split_conv m rbind_simps
      index_locs_def [symmetric] if_not_P [OF ne] index_layers_def [unfolded Let_def, symmetric] mk]
  note c = b [THEN sum.inject(2) [THEN iffD1], THEN prod.inject [THEN iffD1], THEN conjunct1, symmetric]
  show thesis by (rule that) (simp add: c)+
qed

section \<open>The check of the runner\<close>

lemma no_drift: "\<bar>f64_round (r - r)\<bar> < f64_lit (1 / 10 ^ 9)"
proof -
  have "0 < f64_lit (1 / 10 ^ 9)" by code_simp
  then show ?thesis by simp
qed

lemma saved_meta_matches:
  assumes "dmeta = index_metadata ranges t ''kvzip'' n (rn_digest_ratio rn) crit @ rest" "ibm = [(''kvzip'', JObj payload)]"
    and "map_of payload ''context_n_sink'' = Some (JInt (rn_n_sink rn))" "crit \<noteq> []" "n = Max (set crit) + 1"
    and "normalize_method (Some (rn_digest_method rn)) = Inr ''kvzip''"
  shows "query_meta_matches parse rn crit (query_meta_json dmeta ibm m n crit dl cl) = Inr True"
  using assms(3-6) no_drift
  by (simp add: query_meta_matches_def query_meta_json_def assms(1,2) index_metadata_def py_max_def and_then_def false_on_type_value_def Let_def)

lemma saved_files_accepted:
  assumes "save_all_chunk_cache cdir layers kept p s = Inr s1"
    and "save_all_query_cache qdir n tokens (Some crit) kept2 d p s1 = Inr s2" "crit \<noteq> []"
    and "\<And>ibm m dl cl. export_payload None d = Inr (dm_metadata d, ibm) \<Longrightarrow>
      query_meta_matches parse rn crit (query_meta_json (dm_metadata d) ibm m n crit dl cl) = Inr True"
  shows "has_cache parse rn cdir qdir True (Some crit) s2 = Inr True"
proof -
  note c = chunk_cache_files [OF assms(1)] and q = query_cache_files [OF assms(2)]
  from c q(3) [OF packed_query_paths] q(4) have "has_packed_cache cdir s2 = Inr True"
    by (auto simp: has_packed_cache_def has_cache_files_def read_json_def Let_def)
  moreover from q(2) obtain ibm m dl cl where
    j: "export_payload None d = Inr (dm_metadata d, ibm)" "json_files s2 (os_path_join qdir QUERY_META_NAME) = Some (query_meta_json (dm_metadata d) ibm m n crit dl cl)"
    by blast
  moreover from this q(1) have "has_query_cache qdir s2 = Inr True"
    by (auto simp: has_query_cache_def has_cache_files_def read_json_def query_meta_json_def Let_def)
  ultimately show ?thesis using assms(3,4) by (cases crit) (simp_all add: has_cache_def read_json_def)
qed

section \<open>The offline request\<close>

lemma augmented_original_locs: "prepare_augmented_locs_for_request raw = Some al \<Longrightarrow> 2 \<le> length (al_original_locs al)"
  by (auto simp: prepare_augmented_locs_for_request_def Let_def cumsum_lens_eq split: if_splits prod.splits)

lemma ensure_pool_fields:
  "sm_offline (ensure_transfer_pool key dev m) = sm_offline m \<and> sm_dir_chunk (ensure_transfer_pool key dev m) = sm_dir_chunk m \<and>
   sm_dir_query (ensure_transfer_pool key dev m) = sm_dir_query m"
  by (simp add: ensure_transfer_pool_def split: option.split)

text \<open>The batch record of an offline request of the runner.\<close>

lemma offline_batch:
  assumes "prepare_blend mc dev [req_of_args (the (gc_args (offline_call rn crit sa))) locs len] w = Inr (Some info, w1, ths)"
    and "rn_first_style rn = ''KVCOMPUTE''" "crit \<noteq> []"
  shows "bi_style info = Some KVCOMPUTE" "bi_is_contextblend info" "bi_att_params info = Some (build_att_params mc)"
    "bi_critical_layers info = Some crit" "bi_qcompute_end info = Some (Max (set crit) + 1)" "2 \<le> length (index_locs info)"
    "bi_digest_ratio info = Some (rn_digest_ratio rn)" "bi_context_n_sink info = rn_n_sink rn"
    "sm_offline (w_mgr w1)" "sm_dir_chunk (w_mgr w1) = sa_dir_chunk sa" "sm_dir_query (w_mgr w1) = sa_dir_query sa"
proof -
  let ?r = "req_of_args (the (gc_args (offline_call rn crit sa))) locs len"
  have st: "map_of blend_style_members (ascii_upper ''KVCOMPUTE'') = Some KVCOMPUTE"
    by (simp add: blend_style_members_def ascii_upper_def)
  obtain c cs where crit: "crit = c # cs" using assms(3) by (cases crit) auto
  have r: "rq_style ?r = Some KVCOMPUTE" "rq_is_contextblend ?r" "rq_path_query ?r = Some (sa_dir_query sa)"
    "rq_path_chunk ?r = Some (sa_dir_chunk sa)" "rq_blend_locs ?r = locs" "critical_of ?r = crit"
    "rq_digest_ratio ?r = Some (rn_digest_ratio rn)" "rq_n_sink ?r = Some (rn_n_sink rn)"
    by (simp_all add: req_of_args_def offline_call_def blend_args_def with_ssd_args_def assms(2) st crit critical_of_def Let_def)
  have q: "is_query_offline ?r" "has_ssd_paths ?r" using r by (simp_all add: is_query_offline_def has_ssd_paths_def)
  from assms(1) r(1) obtain bl dg info0 where f: "forward_blend_locs [?r] = Inr (bl, dg)"
    and b: "base_info mc ?r bl dg = Inr info0"
    and i: "info = info0\<lparr>bi_att_params := Some (build_att_params mc), bi_init_attmeta := True\<rparr>"
    and w1: "w1 = configure False True (path_of (rq_path_chunk ?r)) (path_of (rq_path_query ?r)) (mc_num_layers mc) ''cuda:0'' w"
    by (auto simp: prepare_blend_def rbind_Inr_iff Let_def q)
  obtain al where al: "prepare_augmented_locs_for_request locs = Some al"
    using f q(1) by (cases "prepare_augmented_locs_for_request locs") (simp_all add: forward_blend_locs_def r(5) Let_def)
  have dg: "dg = Some (digest_loop 0 \<lparr>df_original_lens = [], df_keep_indices = [], df_sys_range = None,
        df_doc_ranges = [], df_zip_ranges = []\<rparr> [(al, ?r)])"
    using f q(1) al by (auto simp: forward_blend_locs_def r(5) Let_def)
  show "bi_style info = Some KVCOMPUTE" "bi_is_contextblend info" "bi_critical_layers info = Some crit"
    using base_info_fields [OF b] r by (simp_all add: i)
  show "bi_att_params info = Some (build_att_params mc)" by (simp add: i)
  obtain source where src: "context_cache_source ?r = Inr source" using b by (auto simp: base_info_def rbind_Inr_iff)
  note i0 = b [unfolded base_info_def src rbind_simps Let_def dg option.case r(6,7,8), THEN sum.inject(2) [THEN iffD1], symmetric]
  show "bi_qcompute_end info = Some (Max (set crit) + 1)" "bi_digest_ratio info = Some (rn_digest_ratio rn)"
    "bi_context_n_sink info = rn_n_sink rn" using assms(3) by (simp_all add: i i0)
  show "2 \<le> length (index_locs info)"
    using augmented_original_locs [OF al] by (simp add: i i0 index_locs_def cumsum_lens_eq loc_lens_def)
  show "sm_offline (w_mgr w1)" "sm_dir_chunk (w_mgr w1) = sa_dir_chunk sa" "sm_dir_query (w_mgr w1) = sa_dir_query sa"
    by (simp_all add: w1 r configure_def Let_def path_of_def ensure_pool_fields clear_loader_error_def)
qed

section \<open>Property: accepted caches\<close>

text \<open>C14: the runner accepts what its offline request saved. When the batch of a request of the offline
  phase is prepared and the last layer of the KVCOMPUTE pass returns, the files on the SSD pass the check
  of the runner for the same sample and critical layers: the packed chunk cache and the query cache exist
  in their formats and the metadata carries the digest ratio, the critical layers, the QCOMPUTE end, the
  sink count and the number of digest layers the runner asks for.\<close>

theorem offline_cache_accepted:
  assumes "prepare_blend mc dev [req_of_args (the (gc_args (offline_call rn crit sa))) locs len] w0 = Inr (Some info, w1, ths)"
    and "blend env (mc_num_layers mc - 1) t positions (new_run info) w = Some (Inr (t', run', w'))" "sm_offline (w_mgr w) = sm_offline (w_mgr w1)"
    and "sm_dir_chunk (w_mgr w) = sm_dir_chunk (w_mgr w1)" "sm_dir_query (w_mgr w) = sm_dir_query (w_mgr w1)"
    and "rn_first_style rn = ''KVCOMPUTE''" "crit \<noteq> []" "\<forall>l \<in> set crit. 0 \<le> l \<and> l < mc_num_layers mc"
    and "0 \<le> rn_n_sink rn" "normalize_method (Some (rn_digest_method rn)) = Inr ''kvzip''"
  shows "has_cache parse rn (sa_dir_chunk sa) (sa_dir_query sa) True (Some crit) (w_ssd w') = Inr True"
proof -
  note b = offline_batch [OF assms(1,6,7)]
  have info: "br_info (new_run info) = info" by (simp add: new_run_def)
  have bk: "blend_kvcompute env (mc_num_layers mc - 1) t (new_run info) w = Some (Inr (t', run', w'))"
    using assms(2) b(1) by (simp add: blend_def info)
  have L: "mc_num_layers mc = ap_num_layers (build_att_params mc)" by (simp add: build_att_params_def)
  obtain info' d c where i: "same_saving info' info"
    and bi: "build_all_indices (be_argsort env) (be_zero env) (int (length (k_buffer (w_hack w)))) info' (w_digest w, ctx_clear) = Inr (d, c)"
    and sv: "save_caches info' (ap_num_layers (build_att_params mc)) (w\<lparr>w_digest := d, w_ctx := c\<rparr>) = Inr w'"
    using last_kvcompute_layer [OF bk, of "build_att_params mc"] b(2,3,9) assms(3) L by (auto simp: info)
  define e where "e = Max (set crit) + 1"
  have "Max (set crit) \<in> set crit" using assms(7) by simp
  then have e: "0 < e" "e \<le> mc_num_layers mc" using assms(8) by (auto simp: e_def)
  note same = i [unfolded same_saving_def]
  have n: "max 0 (min (int_or (bi_qcompute_end info') (mc_num_layers mc)) (mc_num_layers mc)) = e"
    using same b(5) e by (simp add: int_or_def e_def [symmetric])
  from sv same b(2,4,10,11) assms(4,5) n obtain s1 tokens s2 where
    s1: "save_all_chunk_cache (sa_dir_chunk sa) (mc_num_layers mc) (bi_keep_indices info') (w_hack w) (w_ssd w) = Inr s1"
    and s2: "save_all_query_cache (sa_dir_query sa) e tokens (Some crit) (bi_keep_indices info') d (w_hack w) s1 = Inr s2"
    and w': "w_ssd w' = s2"
    by (auto simp: save_caches_def rbind_Inr_iff Let_def L [symmetric])
  show ?thesis unfolding w'
  proof (rule saved_files_accepted [OF s1 s2 assms(7)])
    fix ibm m dl cl assume ex: "export_payload None d = Inr (dm_metadata d, ibm)"
    have two: "2 \<le> length (index_locs info')" using same b(6) by simp
    obtain ranges t payload rest where
      md: "dm_metadata d = index_metadata ranges t ''kvzip'' (index_layers (int (length (k_buffer (w_hack w)))) info')
         (case bi_digest_ratio info' of None \<Rightarrow> DEFAULT_DIGEST_RATIO | Some r \<Rightarrow> r)
         (case bi_critical_layers info' of None \<Rightarrow> [] | Some l \<Rightarrow> l) @ rest"
      and ix: "dm_indices d = [(''kvzip'', JObj payload)]" "map_of payload ''context_n_sink'' = Some (JInt (max 0 (bi_context_n_sink info')))"
      by (rule built_index_metadata [OF two bi])
    have il: "index_layers (int (length (k_buffer (w_hack w)))) info' = e" using same b(3) n by (simp add: index_layers_def L [symmetric])
    have md': "dm_metadata d = index_metadata ranges t ''kvzip'' e (rn_digest_ratio rn) crit @ rest"
      using md same b(4,7) by (simp add: il)
    have sink: "map_of payload ''context_n_sink'' = Some (JInt (rn_n_sink rn))" using ix(2) same b(8) assms(9) by simp
    have "ibm = [(''kvzip'', JObj payload)]"
      using ex by (auto simp: ix export_payload_def rbind_Inr_iff normalize_method_def Let_def split: if_splits option.splits)
    then show "query_meta_matches parse rn crit (query_meta_json (dm_metadata d) ibm m e crit dl cl) = Inr True"
      by (rule saved_meta_matches [OF md' _ sink assms(7) e_def assms(10)])
  qed
qed

definition ex_sample :: ssd_sample where
  "ex_sample = \<lparr>sa_idx = 0, sa_answers = [], sa_prompt = [], sa_plain_prompt = [], sa_offline_prompt = [], sa_query_sep = [],
     sa_dir_chunk = ''c'', sa_dir_query = ''q'', sa_has_cache = False\<rparr>"

definition ex_model :: model_config where
  "ex_model = \<lparr>mc_num_heads = 1, mc_head_dim = Some 1, mc_hidden_size = 1, mc_num_kv_heads = 1, mc_num_layers = 2\<rparr>"

definition offline_pass :: "(blend_info option \<times> int world \<times> thread list) res" where
  "offline_pass = prepare_blend ex_model ''cuda''
     [req_of_args (the (gc_args (offline_call (ex_runner ''ours'') [0] ex_sample))) [0, 1, 2, 3, 4] 4] example_world"

definition offline_info :: blend_info where
  "offline_info = new_blend_info
     \<lparr>bi_style := Some KVCOMPUTE, bi_att_params := Some \<lparr>ap_num_heads = 1, ap_num_kv_heads = 1, ap_head_dim = 1, ap_num_layers = 2\<rparr>,
      bi_attn_start := Some 0, bi_attn_end := Some 1, bi_chunk_lens := [1, 2, 1], bi_chunk_loc_list := [0, 1, 3, 4],
      bi_req_len_list := [3], bi_init_attmeta := True, bi_is_contextblend := True, bi_context_cache_source := ''query'',
      bi_context_n_sink := 4, bi_digest_index_method := ''kvzip'',
      bi_digest_ratio := Some (1 / 2), bi_critical_layers := Some [0], bi_critical_layers_set := Some [0], bi_qcompute_end := Some 1,
      bi_keep_indices := Some [0, 1, 3], bi_original_chunk_loc_list := Some [0, 1, 2, 3], bi_aug_sys_range := Some (0, 1),
      bi_aug_doc_ranges := Some [(1, 2)], bi_aug_zip_ranges := Some [(2, 3)]\<rparr>"

definition offline_mgr :: ssd_manager where
  "offline_mgr = initial_manager\<lparr>sm_offline := True, sm_dir_chunk := ''c'', sm_dir_query := ''q''\<rparr>"

lemma offline_pass_info:
  "map_option fst (case offline_pass of Inr (Some i, w, t) \<Rightarrow> Some (i, ()) | _ \<Rightarrow> None) = Some offline_info"
  by code_simp

lemma offline_pass_mgr: "offline_pass = Inr (Some i, w1, ths) \<Longrightarrow> sm_offline (w_mgr w1) \<and> sm_dir_chunk (w_mgr w1) = ''c'' \<and> sm_dir_query (w_mgr w1) = ''q''"
  by (auto simp: offline_pass_def prepare_blend_def rbind_Inr_iff req_of_args_def offline_call_def blend_args_def with_ssd_args_def
     has_ssd_paths_def ex_runner_def ex_sample_def ex_model_def Let_def path_of_def configure_def clear_loader_error_def
     ensure_transfer_pool_def example_world_def initial_manager_def offline_mgr_def blend_style_members_def ascii_upper_def)

lemma offline_last_layer:
  "case blend example_env 1 (byte_rows [1], byte_rows [1], byte_rows [1]) [] (new_run offline_info) (last_layer_world\<lparr>w_mgr := offline_mgr\<rparr>) of
     Some (Inr _) \<Rightarrow> True | _ \<Rightarrow> False"
  by code_simp

theorem offline_cache_accepted_witness:
  "\<exists>info w1 ths t' run' w'. offline_pass = Inr (Some info, w1, ths) \<and>
     blend example_env 1 (byte_rows [1], byte_rows [1], byte_rows [1]) [] (new_run info) (last_layer_world\<lparr>w_mgr := offline_mgr\<rparr>) = Some (Inr (t', run', w')) \<and>
     has_cache (\<lambda>_. None) (ex_runner ''ours'') ''c'' ''q'' True (Some [0]) (w_ssd w') = Inr True"
proof -
  obtain w1 ths where p: "offline_pass = Inr (Some offline_info, w1, ths)"
    using offline_pass_info by (auto split: sum.splits option.splits prod.splits)
  obtain t' run' w' where b: "blend example_env 1 (byte_rows [1], byte_rows [1], byte_rows [1]) [] (new_run offline_info)
      (last_layer_world\<lparr>w_mgr := offline_mgr\<rparr>) = Some (Inr (t', run', w'))"
    using offline_last_layer by (auto split: option.splits sum.splits)
  have n: "mc_num_layers ex_model - 1 = 1" "mc_num_layers ex_model = 2" by (simp_all add: ex_model_def)
  have b': "blend example_env (mc_num_layers ex_model - 1) (byte_rows [1], byte_rows [1], byte_rows [1]) [] (new_run offline_info)
      (last_layer_world\<lparr>w_mgr := offline_mgr\<rparr>) = Some (Inr (t', run', w'))" unfolding n(1) by (rule b)
  have m: "sm_offline (w_mgr (last_layer_world\<lparr>w_mgr := offline_mgr\<rparr>))" "sm_dir_chunk (w_mgr (last_layer_world\<lparr>w_mgr := offline_mgr\<rparr>)) = ''c''"
    "sm_dir_query (w_mgr (last_layer_world\<lparr>w_mgr := offline_mgr\<rparr>)) = ''q''" by (simp_all add: offline_mgr_def)
  have "has_cache (\<lambda>_. None) (ex_runner ''ours'') (sa_dir_chunk ex_sample) (sa_dir_query ex_sample) True (Some [0]) (w_ssd w') = Inr True"
    by (rule offline_cache_accepted [OF p [unfolded offline_pass_def] b'])
      (use offline_pass_mgr [OF p] m in \<open>simp_all add: ex_runner_def normalize_method_def ascii_lower_def n(2)\<close>)
  then have "has_cache (\<lambda>_. None) (ex_runner ''ours'') ''c'' ''q'' True (Some [0]) (w_ssd w') = Inr True" by (simp add: ex_sample_def)
  with p b show ?thesis by blast
qed

end
