(* ===== verification/RunnerOffline.thy ===== *)
theory RunnerOffline
  imports RunnerCache
begin

text \<open>
  The offline phase is complete and idempotent: when it returns, the caches of every sample pass the
  check, and running it again sends nothing. The server is assumed to write only the four cache files
  of the directories that a request names, which is what \<open>save_caches\<close> does.
\<close>

section \<open>The files of a request\<close>

definition cache_files :: "string \<Rightarrow> string \<Rightarrow> string set" where
  "cache_files cdir qdir = {os_path_join cdir PACKED_BIN_NAME, os_path_join cdir PACKED_META_NAME,
     os_path_join qdir QUERY_BIN_NAME, os_path_join qdir QUERY_META_NAME}"

definition same_files :: "string set \<Rightarrow> ssd \<Rightarrow> ssd \<Rightarrow> bool" where
  "same_files F s s' \<longleftrightarrow> (\<forall>f \<in> F. json_files s' f = json_files s f \<and> bin_files s' f = bin_files s f)"

lemma same_files_refl [simp]: "same_files F s s"
  by (simp add: same_files_def)

lemma same_files_trans: "same_files F s t \<Longrightarrow> same_files F t u \<Longrightarrow> same_files F s u"
  by (simp add: same_files_def)

text \<open>The last layer of an offline pass writes only the files of its two directories.\<close>

lemma write_own: "same_files (- {x, y}) s (write_json x j (write_bin y b s))"
  by (simp add: same_files_def write_json_def write_bin_def)

lemma save_chunk_own: "save_all_chunk_cache dir n idx p s = Inr s' \<Longrightarrow>
    same_files (- {os_path_join dir PACKED_META_NAME, os_path_join dir PACKED_BIN_NAME}) s s'"
  by (auto simp: save_all_chunk_cache_def save_packed_kv_def rbind_Inr_iff write_own)

lemma save_query_own: "save_all_query_cache dir n tokens crit idx d p s = Inr s' \<Longrightarrow>
    same_files (- {os_path_join dir QUERY_META_NAME, os_path_join dir QUERY_BIN_NAME}) s s'"
  by (auto simp: save_all_query_cache_def rbind_Inr_iff write_own Let_def)

lemma same_files_subset: "same_files F s t \<Longrightarrow> G \<subseteq> F \<Longrightarrow> same_files G s t"
  by (auto simp: same_files_def)

lemma save_caches_own_files:
  assumes "save_caches info n w = Inr w'"
  shows "same_files (- cache_files (sm_dir_chunk (w_mgr w)) (sm_dir_query (w_mgr w))) (w_ssd w) (w_ssd w')"
proof -
  let ?F = "- cache_files (sm_dir_chunk (w_mgr w)) (sm_dir_query (w_mgr w))"
  obtain s1 where s1: "save_all_chunk_cache (sm_dir_chunk (w_mgr w)) n (bi_keep_indices info) (w_hack w) (w_ssd w) = Inr s1"
    using assms by (auto simp: save_caches_def rbind_Inr_iff)
  have 1: "same_files ?F (w_ssd w) s1" by (rule same_files_subset [OF save_chunk_own [OF s1]]) (auto simp: cache_files_def)
  show ?thesis
  proof (cases "bi_is_contextblend info")
    case False
    then show ?thesis using 1 assms by (auto simp: save_caches_def s1)
  next
    case True
    then obtain tokens e s2 where s2: "save_all_query_cache (sm_dir_query (w_mgr w)) e tokens (bi_critical_layers info)
        (bi_keep_indices info) (w_digest w) (w_hack w) s1 = Inr s2" "w_ssd w' = s2"
      using assms by (auto simp: save_caches_def s1 rbind_Inr_iff Let_def)
    have "same_files ?F s1 s2" by (rule same_files_subset [OF save_query_own [OF s2(1)]]) (auto simp: cache_files_def)
    with 1 s2(2) show ?thesis by (auto intro: same_files_trans)
  qed
qed

lemma has_cache_cong:
  assumes "same_files (cache_files cdir qdir) s s'"
  shows "has_cache parse rn cdir qdir req crit s' = has_cache parse rn cdir qdir req crit s"
proof -
  have f: "json_files s' x = json_files s x" "bin_files s' x = bin_files s x" if "x \<in> cache_files cdir qdir" for x
    using assms that by (auto simp: same_files_def)
  have e: "has_packed_cache cdir s' = has_packed_cache cdir s" "has_query_cache qdir s' = has_query_cache qdir s"
    "read_json (os_path_join qdir QUERY_META_NAME) s' = read_json (os_path_join qdir QUERY_META_NAME) s"
    by (simp_all add: has_packed_cache_def has_query_cache_def has_cache_files_def read_json_def cache_files_def f Let_def)
  show ?thesis unfolding has_cache_def e ..
qed

section \<open>Samples have their own files\<close>

definition cache_names :: "string list" where
  "cache_names = [PACKED_BIN_NAME, PACKED_META_NAME, QUERY_BIN_NAME, QUERY_META_NAME]"

lemma names_differ:
  assumes "f \<in> set cache_names" "g \<in> set cache_names" "f \<noteq> g"
  shows "os_path_join a f \<noteq> os_path_join b g"
proof
  obtain p q where "os_path_join a f = p @ f" "os_path_join b g = q @ g" using joined by meson
  moreover assume "os_path_join a f = os_path_join b g"
  ultimately have "rev (p @ f) = rev (q @ g)" by simp
  then show False using assms
    by (auto simp: cache_names_def PACKED_BIN_NAME_def PACKED_META_NAME_def QUERY_BIN_NAME_def QUERY_META_NAME_def)
qed

lemma last_digit: "last (nat_digits n) \<noteq> CHR ''/''"
proof -
  have l: "last (nat_digits n) = digit_char (n mod 10)" by (cases "n < 10") (simp_all add: nat_digits.simps [of n])
  have c: "of_char (digit_char (n mod 10)) = (48 + n mod 10 :: nat)" by (simp add: digit_char_def of_char_of)
  show ?thesis
  proof
    assume "last (nat_digits n) = CHR ''/''"
    then have "48 + n mod 10 = (of_char (CHR ''/'') :: nat)" using l c by metis
    then show False by simp
  qed
qed

lemma nat_digits_nonempty [simp]: "nat_digits n \<noteq> []"
  by (simp add: nat_digits.simps [of n])

lemma join_sample: "os_path_join (os_path_join d (''sample_'' @ nat_digits n)) f = os_path_join d (''sample_'' @ nat_digits n) @ ''/'' @ f"
proof -
  obtain p where p: "os_path_join d (''sample_'' @ nat_digits n) = p @ ''sample_'' @ nat_digits n" using joined by meson
  then show ?thesis using last_digit [of n] by (simp add: os_path_join_def [of _ f])
qed

lemma sample_dirs_differ:
  assumes "0 \<le> i" "0 \<le> j" "i \<noteq> j"
  shows "os_path_join (os_path_join d (''sample_'' @ py_str i)) f \<noteq> os_path_join (os_path_join d (''sample_'' @ py_str j)) f"
proof -
  have "os_path_join d (''sample_'' @ nat_digits m) = os_path_join d (''sample_'' @ nat_digits n) \<Longrightarrow> m = n" for m n
    by (auto simp: os_path_join_def nat_digits_inj split: if_splits)
  note inj = this [of "nat i" "nat j"]
  have p: "py_str i = nat_digits (nat i)" "py_str j = nat_digits (nat j)" using assms by (simp_all add: py_str_def)
  show ?thesis unfolding p join_sample using inj assms(1,2,3) by (auto simp only: append_same_eq simp_thms eq_nat_nat_iff)
qed

text \<open>The files of sample \<open>i\<close>.\<close>

definition sample_files :: "runner \<Rightarrow> string \<Rightarrow> int \<Rightarrow> string set" where
  "sample_files rn name i = cache_files (fst (cache_paths rn name i)) (snd (cache_paths rn name i))"

lemma sample_files_disjoint:
  assumes "0 \<le> i" "0 \<le> j" "i \<noteq> j"
  shows "sample_files rn name i \<inter> sample_files rn name j = {}"
proof -
  have ne: "PACKED_BIN_NAME \<noteq> PACKED_META_NAME" "PACKED_BIN_NAME \<noteq> QUERY_BIN_NAME" "PACKED_BIN_NAME \<noteq> QUERY_META_NAME"
    "PACKED_META_NAME \<noteq> QUERY_BIN_NAME" "PACKED_META_NAME \<noteq> QUERY_META_NAME" "QUERY_BIN_NAME \<noteq> QUERY_META_NAME"
    by (simp_all add: PACKED_BIN_NAME_def PACKED_META_NAME_def QUERY_BIN_NAME_def QUERY_META_NAME_def)
  have m: "PACKED_BIN_NAME \<in> set cache_names" "PACKED_META_NAME \<in> set cache_names" "QUERY_BIN_NAME \<in> set cache_names" "QUERY_META_NAME \<in> set cache_names"
    by (simp_all add: cache_names_def)
  note d = names_differ [OF m(1,2) ne(1)] names_differ [OF m(1,3) ne(2)] names_differ [OF m(1,4) ne(3)]
    names_differ [OF m(2,3) ne(4)] names_differ [OF m(2,4) ne(5)] names_differ [OF m(3,4) ne(6)]
  show ?thesis
    using d d [symmetric] sample_dirs_differ [OF assms]
    by (auto simp: sample_files_def cache_files_def cache_paths_def Let_def)
qed


section \<open>The offline loop\<close>

text \<open>The assumption on the server: a request changes only the cache files of the directories it names.\<close>

definition writes_own_files :: "'e outside \<Rightarrow> bool" where
  "writes_own_files os \<longleftrightarrow> (\<forall>call e outs e' a c q. os_generate os call e = Inr (outs, e') \<longrightarrow> gc_args call = Some a \<longrightarrow>
     ga_path_chunk a = Some c \<longrightarrow> ga_path_query a = Some q \<longrightarrow> same_files (- cache_files c q) (os_ssd os e) (os_ssd os e'))"

definition sample_cached :: "'e outside \<Rightarrow> runner \<Rightarrow> string \<Rightarrow> int list \<Rightarrow> int \<Rightarrow> 'e \<Rightarrow> bool" where
  "sample_cached os rn name crit i e \<longleftrightarrow>
     has_cache (os_float os) rn (fst (cache_paths rn name i)) (snd (cache_paths rn name i)) True (Some crit) (os_ssd os e) = Inr True"

lemma offline_step:
  assumes "offline_loop os rn name crit idx (ex # exs) e = Inr e'" "writes_own_files os"
  shows "\<exists>e1. offline_loop os rn name crit (idx + 1) exs e1 = Inr e' \<and> sample_cached os rn name crit idx e1 \<and>
    same_files (- sample_files rn name idx) (os_ssd os e) (os_ssd os e1)"
proof -
  obtain cd qd where p: "cache_paths rn name idx = (cd, qd)" by fastforce
  obtain hit where hit: "has_cache (os_float os) rn cd qd True (Some crit) (os_ssd os e) = Inr hit"
    using assms(1) by (auto simp: p rbind_Inr_iff Let_def)
  show ?thesis
  proof (cases hit)
    case True
    then show ?thesis using assms(1) hit by (intro exI [of _ e]) (simp add: p Let_def sample_cached_def)
  next
    case False
    with assms(1) hit obtain sa e1 where
      ps: "prepare_sample (os_float os) rn ex name idx (get_system_prompt name) (os_ssd os e) = Inr sa"
      and g: "drain_generate os (offline_call rn crit sa) e = Inr e1"
      and rest: "offline_loop os rn name crit (idx + 1) exs e1 = Inr e'"
      and c: "has_cache (os_float os) rn cd qd True (Some crit) (os_ssd os e1) = Inr True"
      by (auto simp: p rbind_Inr_iff Let_def split: if_splits)
    have d: "sa_dir_chunk sa = cd" "sa_dir_query sa = qd" using ps by (auto simp: prepare_sample_def p rbind_Inr_iff case_prod_unfold Let_def)
    obtain outs where "os_generate os (offline_call rn crit sa) e = Inr (outs, e1)" using g by (auto simp: drain_generate_def rbind_Inr_iff)
    moreover have "\<exists>a. gc_args (offline_call rn crit sa) = Some a \<and> ga_path_chunk a = Some cd \<and> ga_path_query a = Some qd"
      by (simp add: offline_call_def with_ssd_args_def d)
    ultimately have "same_files (- cache_files cd qd) (os_ssd os e) (os_ssd os e1)"
      using assms(2) unfolding writes_own_files_def by blast
    then show ?thesis using rest c by (intro exI [of _ e1]) (simp add: sample_cached_def sample_files_def p)
  qed
qed

lemma sample_cached_cong:
  "same_files (sample_files rn name i) (os_ssd os e) (os_ssd os e') \<Longrightarrow> sample_cached os rn name crit i e' = sample_cached os rn name crit i e"
  by (simp add: sample_cached_def sample_files_def has_cache_cong)

lemma offline_keeps_earlier:
  assumes "offline_loop os rn name crit idx exs e = Inr e'" "writes_own_files os" "0 \<le> i" "i < idx"
  shows "same_files (sample_files rn name i) (os_ssd os e) (os_ssd os e')"
  using assms
proof (induction exs arbitrary: idx e)
  case (Cons ex exs)
  from offline_step [OF Cons.prems(1,2)] obtain e1 where e1: "offline_loop os rn name crit (idx + 1) exs e1 = Inr e'"
    "same_files (- sample_files rn name idx) (os_ssd os e) (os_ssd os e1)" by blast
  have "sample_files rn name i \<subseteq> - sample_files rn name idx" using sample_files_disjoint [of i idx rn name] Cons.prems(3,4) by auto
  from same_files_subset [OF e1(2) this] Cons.IH [OF e1(1) Cons.prems(2,3)] Cons.prems(4) show ?case
    by (auto intro: same_files_trans)
qed simp

lemma offline_caches_all:
  assumes "offline_loop os rn name crit idx exs e = Inr e'" "writes_own_files os" "0 \<le> idx" "idx \<le> i" "i < idx + int (length exs)"
  shows "sample_cached os rn name crit i e'"
  using assms
proof (induction exs arbitrary: idx e)
  case (Cons ex exs)
  from offline_step [OF Cons.prems(1,2)] obtain e1 where e1: "offline_loop os rn name crit (idx + 1) exs e1 = Inr e'"
    "sample_cached os rn name crit idx e1" by blast
  show ?case
  proof (cases "i = idx")
    case True
    have "same_files (sample_files rn name idx) (os_ssd os e1) (os_ssd os e')"
      by (rule offline_keeps_earlier [OF e1(1) Cons.prems(2,3)]) simp
    from sample_cached_cong [OF this] e1(2) True show ?thesis by simp
  next
    case False
    then show ?thesis using Cons.IH [OF e1(1) Cons.prems(2)] Cons.prems(3,4,5) by simp
  qed
qed simp

lemma offline_nothing_left:
  assumes "\<forall>i. idx \<le> i \<and> i < idx + int (length exs) \<longrightarrow> sample_cached os rn name crit i e" "os_float os' = os_float os" "os_ssd os' = os_ssd os"
  shows "offline_loop os' rn name crit idx exs e = Inr e"
  using assms(1)
proof (induction exs arbitrary: idx)
  case (Cons ex exs)
  obtain cd qd where p: "cache_paths rn name idx = (cd, qd)" by fastforce
  have "sample_cached os rn name crit idx e" using Cons.prems by simp
  then have "has_cache (os_float os) rn cd qd True (Some crit) (os_ssd os e) = Inr True" by (simp add: sample_cached_def p)
  then show ?case using Cons by (simp add: p assms Let_def)
qed simp

section \<open>Property\<close>

text \<open>C17: the offline phase is complete and idempotent. When it returns on a server that writes only the
  cache files of the directories a request names, the caches of every sample of the dataset pass the check
  for the critical layers of the runner, and running the phase again, with whatever engine, sends no
  request and changes nothing.\<close>

theorem offline_phase_idempotent:
  assumes "phase1_offline os rn dataset name e = Inr e'" "rn_first_style rn = ''KVCOMPUTE''" "writes_own_files os"
  shows "\<exists>crit. offline_query_critical_layers rn = Inr crit \<and>
    list_all (\<lambda>i. sample_cached os rn name crit (int i) e') [0..<length dataset] \<and>
    (\<forall>g. phase1_offline (os\<lparr>os_generate := g\<rparr>) rn dataset name e' = Inr e')"
proof -
  obtain crit where c: "offline_query_critical_layers rn = Inr crit" "offline_loop os rn name crit 0 dataset e = Inr e'"
    using assms(1,2) by (auto simp: phase1_offline_def rbind_Inr_iff)
  have all: "\<forall>i. 0 \<le> i \<and> i < 0 + int (length dataset) \<longrightarrow> sample_cached os rn name crit i e'"
    using offline_caches_all [OF c(2) assms(3)] by blast
  have "phase1_offline (os\<lparr>os_generate := g\<rparr>) rn dataset name e' = Inr e'" for g
    using offline_nothing_left [OF all, of "os\<lparr>os_generate := g\<rparr>"] c(1) assms(2) by (simp add: phase1_offline_def)
  then show ?thesis using c(1) all by (auto simp: list_all_iff)
qed

text \<open>An engine that answers one token and saves matching caches for a KVCOMPUTE request; its state is the SSD.\<close>

definition ex_meta :: "f64 \<Rightarrow> int list \<Rightarrow> json" where
  "ex_meta ratio crit = query_meta_json (index_metadata [] 0 ''kvzip'' (Max (set crit) + 1) ratio crit)
     [(''kvzip'', JObj [(''context_n_sink'', JInt 4)])] ''kvzip'' (Max (set crit) + 1) crit [] []"

definition ex_generate :: "gen_call \<Rightarrow> ssd \<Rightarrow> ((f64 \<times> string option) list \<times> ssd) res" where
  "ex_generate call s =
     (case gc_args call of
        Some a \<Rightarrow>
          (case (ga_path_chunk a, ga_path_query a, ga_digest_ratio a, ga_critical a) of
             (Some c, Some q, Some ratio, Some crit) \<Rightarrow>
               if ga_style a = ''KVCOMPUTE'' then
                 Inr ([(1, Some ''x'')],
                   write_json (os_path_join q QUERY_META_NAME) (ex_meta ratio crit) (write_bin (os_path_join q QUERY_BIN_NAME) []
                  (write_json (os_path_join c PACKED_META_NAME) (JObj [(''format'', JStr PACKED_FORMAT)])
                  (write_bin (os_path_join c PACKED_BIN_NAME) [] s))))
               else Inr ([(1, Some ''x'')], s)
           | _ \<Rightarrow> Inr ([(1, Some ''x'')], s))
      | None \<Rightarrow> Inr ([(1, Some ''x'')], s))"

definition ex_outside :: "ssd outside" where
  "ex_outside = \<lparr>os_generate = ex_generate, os_now = (\<lambda>_. 0), os_ssd = id, os_rouge = (\<lambda>_ _. 0), os_float = (\<lambda>_. None)\<rparr>"

lemma ex_writes_own: "writes_own_files ex_outside"
  by (auto simp: writes_own_files_def ex_outside_def ex_generate_def same_files_def write_json_def write_bin_def cache_files_def
      split: option.splits if_splits)

definition ex_dataset :: "example list" where
  "ex_dataset = [\<lparr>ex_context = [''a''], ex_input = ''b'', ex_answers = Answers []\<rparr>]"

lemma ex_offline: "case phase1_offline ex_outside (ex_runner ''ours'') (ex_dataset @ ex_dataset) ''d'' empty_ssd of
    Inr e' \<Rightarrow> json_files e' ''c/chunk_cache/m/d/sample_1/kv_packed_meta.json'' \<noteq> None | Inl _ \<Rightarrow> False"
  by code_simp

theorem offline_phase_idempotent_witness:
  "\<exists>e'. phase1_offline ex_outside (ex_runner ''ours'') (ex_dataset @ ex_dataset) ''d'' empty_ssd = Inr e' \<and>
     sample_cached ex_outside (ex_runner ''ours'') ''d'' [0] 1 e' \<and>
     phase1_offline (ex_outside\<lparr>os_generate := (\<lambda>_ _. Inl KeyError)\<rparr>) (ex_runner ''ours'') (ex_dataset @ ex_dataset) ''d'' e' = Inr e'"
proof -
  obtain e' where e: "phase1_offline ex_outside (ex_runner ''ours'') (ex_dataset @ ex_dataset) ''d'' empty_ssd = Inr e'"
    using ex_offline by (auto split: sum.splits)
  have f: "rn_first_style (ex_runner ''ours'') = ''KVCOMPUTE''" "offline_query_critical_layers (ex_runner ''ours'') = Inr [0]"
    by (simp_all add: ex_runner_def offline_query_critical_layers_def)
  have l: "length (ex_dataset @ ex_dataset) = 2" by (simp add: ex_dataset_def)
  from offline_phase_idempotent [OF e f(1) ex_writes_own] f(2) have
    "list_all (\<lambda>i. sample_cached ex_outside (ex_runner ''ours'') ''d'' [0] (int i) e') [0..<2]"
    "\<forall>g. phase1_offline (ex_outside\<lparr>os_generate := g\<rparr>) (ex_runner ''ours'') (ex_dataset @ ex_dataset) ''d'' e' = Inr e'"
    unfolding l by auto
  with e show ?thesis by (auto simp: numeral_2_eq_2)
qed

section \<open>Property: the protocol of the requests\<close>

text \<open>C15: the runner keeps the protocol of the server. Whatever the engine answers and whatever caches
  exist, a configured run of its three phases sends only plain and KVCOMPUTE requests and rounds of one
  QCOMPUTE request followed at once by the DO_BLEND_FINISH request with the same arguments: the same
  sample, caches, layers and ratio. So no blend request ever runs without the threads its QCOMPUTE started,
  and the layers a round keeps are those it has loaded.\<close>

theorem runner_keeps_protocol:
  assumes "configure_runner model baseline rn0 = Inr rn" "run_phases (logged os) rn dataset name (e, []) = Inr (results, (e', sent))"
  shows "in_rounds sent"
proof -
  note c = configured [OF assms(1)]
  let ?ratio = "if baseline \<in> set BLEND_BASELINES then DEFAULT_BLEND_RATIO else 1"
  have full: "''fullcomp'' \<notin> set BLEND_BASELINES" by (simp add: BLEND_BASELINES_def)
  obtain s1 s2 where p: "(if baseline \<in> set BLEND_BASELINES then phase1_offline (logged os) rn dataset name (e, []) else Inr (e, [])) = Inr s1"
    "warmup_blend (logged os) rn dataset name ?ratio 3 s1 = Inr s2" "phase2_online (logged os) rn dataset name ?ratio s2 = Inr (results, (e', sent))"
    using assms(2) c by (auto simp: run_phases_def rbind_Inr_iff Let_def)
  have "adds_paired (e, []) s1" using p(1) c full by (auto simp: phase1_offline_def rbind_Inr_iff dest: offline_paired split: if_splits)
  moreover have "adds_paired s1 s2" using p(2) c by (auto simp: warmup_blend_def rbind_Inr_iff dest: warmup_paired split: if_splits)
  moreover have "adds_paired s2 (e', sent)" using p(3) c by (auto simp: phase2_online_def rbind_Inr_iff dest: online_paired)
  ultimately have "adds_paired (e, []) (e', sent)" by (meson adds_trans)
  then show ?thesis by (simp add: adds_paired_def)
qed

definition ex_configured :: "runner res" where
  "ex_configured = configure_runner ''m'' ''fuserag'' (ex_runner ''fuserag'')"

lemma ex_configured_ok:
  "ex_configured = Inr ((ex_runner ''fuserag'')\<lparr>rn_critical := Some [1], rn_attn_end := 2, rn_digest_ratio := 0\<rparr>)"
  by code_simp

lemma ex_run:
  "case run_phases (logged ex_outside) ((ex_runner ''fuserag'')\<lparr>rn_critical := Some [1], rn_attn_end := 2, rn_digest_ratio := 0\<rparr>)
     ex_dataset ''d'' (empty_ssd, []) of
     Inr (results, e', sent) \<Rightarrow> length sent = 5 | Inl _ \<Rightarrow> False"
  by code_simp

theorem runner_keeps_protocol_witness:
  "\<exists>rn results e' sent. ex_configured = Inr rn \<and>
     run_phases (logged ex_outside) rn ex_dataset ''d'' (empty_ssd, []) = Inr (results, (e', sent)) \<and> length sent = 5 \<and> in_rounds sent"
proof -
  obtain results e' sent where r: "run_phases (logged ex_outside) ((ex_runner ''fuserag'')\<lparr>rn_critical := Some [1], rn_attn_end := 2,
      rn_digest_ratio := 0\<rparr>) ex_dataset ''d'' (empty_ssd, []) = Inr (results, (e', sent))" "length sent = 5"
    using ex_run by (auto split: sum.splits)
  from runner_keeps_protocol [OF ex_configured_ok [unfolded ex_configured_def] r(1)] r ex_configured_ok show ?thesis by blast
qed

end
