(* ===== verification/Spec2Isabelle.thy ===== *)
theory Spec2Isabelle
  imports BlendInfo KVPool Json SepSplit Positions KVzip BatchPrepCorrect HooksCorrect ContextFlow RadixProps SWAAlloc BatchLife RunnerOffline
begin

text \<open>
  QCFuse: a fork of SGLang that answers retrieval-augmented prompts from stored K/V caches. A prompt
  is a system chunk, documents and a query. Offline, a KVCOMPUTE pass collects the K and V of every layer,
  ranks the document tokens (the digest index) and saves both to SSD. Online, a QCOMPUTE pass prefills the
  query against the digest rows, while threads load the chunk cache; then a DO_BLEND or DO_BLEND_FINISH
  pass selects the important tokens per layer and recomputes only their rows, overwriting them in the
  loaded K and V. Below all this lie SGLang's radix cache, slot allocators and batches.

  \<^bold>\<open>Shared.\<close> \<open>Prelude\<close>: exceptions as values (\<open>res\<close>), Python indexing, slicing, \<open>range\<close>. \<open>Floats\<close>: binary64
  as the rationals it denotes, with rounding. \<open>Tensor\<close>: bit-exact tensors and their bytes. \<open>Json\<close>,
  \<open>Files\<close>: the metadata values with Python's dynamic checks, and the SSD as JSON and binary files by path.

  \<^bold>\<open>Pools\<close> (\<open>srt/utils/cache_blender_info.py\<close>). \<open>ContextPool\<close>: \<open>ContextBlendPool\<close>, the digest positions
  (strictly increasing; the whole context at ratio 1, the system prompt alone at ratio 0) and their spans. \<open>KVPool\<close>: \<open>HackBlendKVPool\<close>,
  a map per layer; both stores implement the locale \<open>layer_store\<close>. \<open>BlendInfo\<close>: the enumerations
  and \<open>BatchBlendInfo\<close>.

  \<^bold>\<open>Prompt layout.\<close> \<open>SepSplit\<close>: splitting at the separator (\<open>cache_blender.py\<close>, \<open>tokenizer_manager.py\<close>) equals
  a reference split when separators do not overlap. \<open>Positions\<close>: \<open>compute_position\<close>, where the kernel
  is the list of its stores and any order of them gives the torch result. \<open>DigestLocs\<close>, \<open>DigestIndex\<close>,
  \<open>KVzip\<close> (\<open>digest_index_manager.py\<close>): the augmented prompt, the ranking, which covers every document
  token once, and the accumulated scores, which are the largest causal softmax weights of the zip queries.

  \<^bold>\<open>SSD\<close> (\<open>kv_ssd_manager.py\<close>). \<open>PackedKV\<close>/\<open>PackedCorrect\<close>: the chunk cache; what is saved is validated and
  loaded unchanged, validated metadata never reads outside the file, and the read loop ends for every
  pattern of short reads. \<open>QueryCache\<close>/\<open>QueryCorrect\<close>: the same for the query cache, layer by layer and as
  one block. \<open>SSDManager\<close>: the manager's state and the restored metadata. \<open>Loader\<close>/\<open>LoaderCorrect\<close>: the
  five loader threads as interleaved lists of atomic actions with the code's exception handler; by the
  locale \<open>worker_system\<close> (an invariant and a weight that every step decreases) a wait that returns finds
  its layer, whatever fails, and all threads end within the initial weight.

  \<^bold>\<open>A blend pass.\<close> \<open>BatchPrep\<close>/\<open>BatchPrepCorrect\<close>: \<open>ScheduleBatch.prepare_for_extend\<close>. \<open>Selector\<close>
  (\<open>indice_select.py\<close>): which tokens are recomputed, those to which the importance kernel gives most, with
  \<open>torch.topk\<close> by the locale \<open>top_k\<close>. \<open>AttnMeta\<close>:
  the metadata of the triton and flashinfer backends and the rows of the logits. \<open>Blend\<close>/\<open>BlendCorrect\<close>:
  \<open>CacheBlender.blend\<close> in every style. \<open>Hooks\<close>, \<open>Passes\<close>, \<open>HooksCorrect\<close>: the layer loop of Qwen3 with
  its hooks; the locale \<open>layered_pass\<close> lifts a layer's invariant to the pass. \<open>ContextFlow\<close>: what the
  offline pass builds and saves is what the online pass restores.

  \<^bold>\<open>Radix cache\<close> (\<open>srt/mem_cache\<close>). \<open>HeapQ\<close> (the locale \<open>min_queue\<close>), \<open>RadixKey\<close>, \<open>RadixTree\<close>,
  \<open>RadixCache\<close> model \<open>heapq\<close>, \<open>radix_cache.py\<close>, \<open>evict_policy.py\<close> and \<open>chunk_cache.py\<close>. \<open>RadixLookup\<close> reads a
  tree as a map; \<open>RadixSteps\<close>, \<open>RadixInv\<close> and \<open>RadixOps\<close> reduce the walks to local changes;
  \<open>RadixLocks\<close> (the locale \<open>lock_change\<close>) and \<open>RadixEvict\<close> treat locks and eviction; \<open>RadixCorrect\<close>,
  \<open>RadixSystem\<close> and \<open>RadixRequests\<close> treat the public operations, every reachable state, and requests;
  \<open>RadixProps\<close> states the properties.

  \<^bold>\<open>Slots and batches.\<close> \<open>KVAlloc\<close>: the token allocator and the request pool, with the locale
  \<open>kv_allocator\<close> the caches rely on. \<open>PagedAlloc\<close>: the paged allocator and its kernels; each request gets
  a block table of its own. \<open>SWAAlloc\<close>: the sliding-window allocator; no window slot is lost or shared.
  \<open>BatchAlloc\<close> (\<open>mem_cache/common.py\<close>), \<open>BatchSystem\<close> and \<open>BatchLife\<close> compose radix cache, allocator and pool:
  memory is found exactly when enough slots are free or evictable, and through the life of ordinary requests,
  and of blend requests that match no cached prefix, every slot is free, cached, or owned by one request. These
  properties and those of single requests in \<open>RadixProps\<close> are for one slot per page, without EAGLE; a blend
  request that did match a prefix frees cached slots (\<open>RadixProps.blend_request_frees_cached_slots\<close>).

  \<^bold>\<open>The runner\<close> (\<open>blend/\<close>). \<open>EvalUtils\<close>, \<open>Runner\<close>: prompts, scores, the cache check and the three phases.
  \<open>RunnerPrompts\<close>: the offline and the online prompt agree. \<open>RunnerCorrect\<close>, \<open>RunnerCache\<close>, \<open>RunnerOffline\<close>:
  the server's files pass the runner's check, requests come in complete rounds, and the offline phase
  is idempotent.

  \<^bold>\<open>Parameters.\<close> Code outside the repository or on the device is an argument of the definitions: the
  tokenizer, attention scores and importance, projections and norms, the rotary embedding, \<open>argsort\<close> and
  \<open>topk\<close>, rougeL, short reads of raw files, memory of \<open>torch.empty\<close> and out-of-range loads. Where a
  result depends on one, its documented behaviour is a hypothesis or a locale's law, and the witness instantiates it.

  \<^bold>\<open>Bounds.\<close> Recursion is structural or has a measure, except waits and the forward pass: a wait that never
  returns is \<open>None\<close>, and interleavings are step relations, so no fuel is chosen anywhere. Lengths, slots
  and offsets are integers without wrap-around: they are far below the 32- and 64-bit limits of the tensors
  they are stored in, and Python's own integers have none. Bytes and elements keep their width.

  \<^bold>\<open>Not modelled.\<close> Scheduling policy, server arguments and entry points, model loading, the other models,
  attention backends, quantisation, parallelism, speculative decoding and disaggregation are SGLang's and
  unchanged by QCFuse's cache reuse; the kernels' arithmetic is device code. Of the batch memory the window, Mamba
  and hybrid caches, and chunked prefill, are left out. Several pipeline stages, the host tier of the radix
  cache, logging, printing and command lines have no definitions either.
\<close>

end
